(* ===== verification/Machine.thy ===== *)
theory Machine
  imports Prelude
begin

section \<open>Components as machines\<close>

text \<open>
  The stateful components of the program are driven by commands: a call takes the state and
  returns a result and the state afterwards. The locale \<open>machine\<close> is the contract that every
  command keeps an invariant, \<open>atomic_machine\<close> the stronger one that a command of a given kind
  (\<open>guarded\<close>) which reports an error has changed nothing. What clients conclude about whole histories of calls is proved here
  once: an invariant of every command is one of every history, and in an atomic machine a history
  with failures ends where the history of its successful commands ends.
\<close>

definition run :: "('c \<Rightarrow> 's \<Rightarrow> ('e + 'r) \<times> 's) \<Rightarrow> 'c list \<Rightarrow> 's \<Rightarrow> 's" where
  "run step cs s = fold (\<lambda>c s. snd (step c s)) cs s"

fun effective :: "('c \<Rightarrow> 's \<Rightarrow> ('e + 'r) \<times> 's) \<Rightarrow> 's \<Rightarrow> 'c list \<Rightarrow> 'c list" where
  "effective step s [] = []"
| "effective step s (c # cs) =
     (if is_ok (fst (step c s)) then c # effective step (snd (step c s)) cs
      else effective step s cs)"

fun all_ok :: "('c \<Rightarrow> 's \<Rightarrow> ('e + 'r) \<times> 's) \<Rightarrow> 's \<Rightarrow> 'c list \<Rightarrow> bool" where
  "all_ok step s [] = True"
| "all_ok step s (c # cs) = (is_ok (fst (step c s)) \<and> all_ok step (snd (step c s)) cs)"

lemma run_simps [simp]: "run step [] s = s" "run step (c # cs) s = run step cs (snd (step c s))"
  by (simp_all add: run_def)

lemma run_append: "run step (cs @ ds) s = run step ds (run step cs s)"
  by (simp add: run_def)

lemma effective_all_ok: "all_ok step s (effective step s cs)"
  by (induction cs arbitrary: s) auto

locale machine =
  fixes step :: "'c \<Rightarrow> 's \<Rightarrow> ('e + 'r) \<times> 's" and inv :: "'s \<Rightarrow> bool"
  assumes keep: "inv s \<Longrightarrow> inv (snd (step c s))"
begin

lemma run_keep: "inv s \<Longrightarrow> inv (run step cs s)"
  by (induction cs arbitrary: s) (auto simp: keep)

end

locale atomic_machine = machine +
  fixes guarded :: "'c \<Rightarrow> bool"
  assumes unchanged: "inv s \<Longrightarrow> guarded c \<Longrightarrow> fst (step c s) = Inl e \<Longrightarrow> snd (step c s) = s"
begin

lemma run_effective: "inv s \<Longrightarrow> list_all guarded cs \<Longrightarrow> run step (effective step s cs) s = run step cs s"
proof (induction cs arbitrary: s)
  case (Cons c cs)
  show ?case
  proof (cases "fst (step c s)")
    case (Inl e)
    with Cons unchanged show ?thesis by simp
  next
    case (Inr r)
    with Cons keep show ?thesis by simp
  qed
qed simp

end

end
