(* ===== verification/BTree_Map.thy ===== *)
theory BTree_Map
  imports Prelude
begin

section \<open>Ordered maps (std::collections::BTreeMap)\<close>

text \<open>
  The host library, the parsed TOML tables and the hop collection are \<open>BTreeMap\<close>s: finite maps
  iterated in ascending key order. They are modelled as association lists with strictly
  ascending keys (\<open>bt_ok\<close>), which is what iteration over the Rust map yields. The locale
  \<open>ordered_map\<close> states what the clients rely on: lookup after insertion and removal, that every
  operation keeps the representation invariant, and that two well-formed maps with the same
  lookup are the same value (the derived \<open>Eq\<close> of the source).
\<close>

type_synonym ('k, 'v) btmap = "('k \<times> 'v) list"

definition bt_get :: "('k, 'v) btmap \<Rightarrow> 'k \<Rightarrow> 'v option" where
  "bt_get m = map_of m"

fun bt_insert :: "'k::linorder \<Rightarrow> 'v \<Rightarrow> ('k, 'v) btmap \<Rightarrow> ('k, 'v) btmap" where
  "bt_insert k v [] = [(k, v)]"
| "bt_insert k v ((k', v') # m) =
     (if k < k' then (k, v) # (k', v') # m
      else if k = k' then (k, v) # m
      else (k', v') # bt_insert k v m)"

definition bt_remove :: "'k \<Rightarrow> ('k, 'v) btmap \<Rightarrow> ('k, 'v) btmap" where
  "bt_remove k m = filter (\<lambda>kv. fst kv \<noteq> k) m"

definition bt_ok :: "('k::linorder, 'v) btmap \<Rightarrow> bool" where
  "bt_ok m \<longleftrightarrow> sorted_wrt (<) (map fst m)"

text \<open>\<open>values_mut\<close>: an update of every value that leaves the keys alone.\<close>

definition bt_map_values :: "('v \<Rightarrow> 'v) \<Rightarrow> ('k, 'v) btmap \<Rightarrow> ('k, 'v) btmap" where
  "bt_map_values f m = map (\<lambda>(k, v). (k, f v)) m"

abbreviation bt_values :: "('k, 'v) btmap \<Rightarrow> 'v list" where
  "bt_values m \<equiv> map snd m"

abbreviation bt_contains :: "('k, 'v) btmap \<Rightarrow> 'k \<Rightarrow> bool" where
  "bt_contains m k \<equiv> bt_get m k \<noteq> None"

subsection \<open>The interface\<close>

locale ordered_map =
  fixes empty :: "'m"
    and put :: "'k \<Rightarrow> 'v \<Rightarrow> 'm \<Rightarrow> 'm"
    and remove :: "'k \<Rightarrow> 'm \<Rightarrow> 'm"
    and get :: "'m \<Rightarrow> 'k \<Rightarrow> 'v option"
    and ok :: "'m \<Rightarrow> bool"
  assumes get_empty: "get empty = Map.empty"
    and get_put: "ok m \<Longrightarrow> get (put k v m) = (get m)(k \<mapsto> v)"
    and get_remove: "ok m \<Longrightarrow> get (remove k m) = (get m)(k := None)"
    and ok_empty: "ok empty"
    and ok_put: "ok m \<Longrightarrow> ok (put k v m)"
    and ok_remove: "ok m \<Longrightarrow> ok (remove k m)"
    and ext: "ok m \<Longrightarrow> ok m' \<Longrightarrow> get m = get m' \<Longrightarrow> m = m'"
begin

lemma put_get_same:
  assumes "ok m" and "get m k = Some old"
  shows "put k old (put k v m) = m"
  using assms by (intro ext) (auto simp: ok_put get_put)

lemma remove_put_fresh:
  assumes "ok m" and "get m k = None"
  shows "remove k (put k v m) = m"
  using assms by (intro ext) (auto simp: ok_put ok_remove get_put get_remove)

lemma remove_absent: "ok m \<Longrightarrow> get m k = None \<Longrightarrow> remove k m = m"
  by (intro ext) (auto simp: ok_remove get_remove)

lemma put_same: "ok m \<Longrightarrow> get m k = Some v \<Longrightarrow> put k v m = m"
  by (intro ext) (auto simp: ok_put get_put)

text \<open>Rolling back an insertion by the previous value restores the map exactly.\<close>

lemma put_rollback:
  assumes "ok m"
  shows "(case get m k of Some old \<Rightarrow> put k old (put k v m) | None \<Rightarrow> remove k (put k v m)) = m"
  using assms by (auto simp: put_get_same remove_put_fresh split: option.splits)

lemma get_Map_empty_iff: "ok m \<Longrightarrow> get m = Map.empty \<longleftrightarrow> m = empty"
  using ext [OF _ ok_empty] get_empty by auto

end

subsection \<open>The association list implements it\<close>

lemma fst_set_bt_insert: "fst ` set (bt_insert k v m) = insert k (fst ` set m)"
  by (induction k v m rule: bt_insert.induct) auto

lemma bt_ok_Nil [simp]: "bt_ok []"
  by (simp add: bt_ok_def)

lemma bt_ok_Cons: "bt_ok (kv # m) \<longleftrightarrow> (\<forall>k \<in> fst ` set m. fst kv < k) \<and> bt_ok m"
  by (auto simp: bt_ok_def)

lemma bt_ok_insert: "bt_ok m \<Longrightarrow> bt_ok (bt_insert k v m)"
proof (induction k v m rule: bt_insert.induct)
  case (2 k v k' v' m)
  then show ?case by (auto simp: bt_ok_Cons fst_set_bt_insert)
qed (simp add: bt_ok_Cons)

lemma bt_ok_remove: "bt_ok m \<Longrightarrow> bt_ok (bt_remove k m)"
  by (induction m) (auto simp: bt_remove_def bt_ok_Cons)

lemma map_of_bt_insert: "bt_ok m \<Longrightarrow> map_of (bt_insert k v m) = (map_of m)(k \<mapsto> v)"
proof (induction k v m rule: bt_insert.induct)
  case (2 k v k' v' m)
  then show ?case by (auto simp: bt_ok_Cons fun_eq_iff)
qed simp

lemma map_of_bt_remove: "map_of (bt_remove k m) = (map_of m)(k := None)"
  by (induction m) (auto simp: bt_remove_def fun_eq_iff)

lemma bt_ok_distinct: "bt_ok m \<Longrightarrow> distinct (map fst m)"
  by (simp add: bt_ok_def strict_sorted_iff)

lemma bt_ok_sorted: "bt_ok m \<Longrightarrow> sorted (map fst m)"
  by (simp add: bt_ok_def strict_sorted_iff)

lemma bt_ext:
  assumes ok: "bt_ok m" "bt_ok m'" and eq: "map_of m = map_of m'"
  shows "m = m'"
proof (rule map_sorted_distinct_set_unique [where f = fst])
  from ok have d: "distinct (map fst m)" "distinct (map fst m')"
    by (auto dest: bt_ok_distinct)
  with eq show same: "set m = set m'"
    by (simp add: map_of_inject_set)
  show "inj_on fst (set m \<union> set m')"
    using d(1) by (simp add: same [symmetric] distinct_map)
qed (use ok in \<open>auto dest: bt_ok_distinct bt_ok_sorted\<close>)

interpretation bt: ordered_map "[]" bt_insert bt_remove bt_get bt_ok
  by unfold_locales
    (auto simp: bt_get_def map_of_bt_insert map_of_bt_remove bt_ok_insert bt_ok_remove
       intro: bt_ext)

lemmas bt_laws = bt.get_empty bt.get_put bt.get_remove bt.ok_empty bt.ok_put bt.ok_remove

subsection \<open>Iteration\<close>

lemma bt_get_SomeD: "bt_get m k = Some v \<Longrightarrow> (k, v) \<in> set m"
  by (simp add: bt_get_def map_of_SomeD)

lemma bt_get_iff: "bt_ok m \<Longrightarrow> bt_get m k = Some v \<longleftrightarrow> (k, v) \<in> set m"
  by (auto simp: bt_get_def dest: map_of_SomeD bt_ok_distinct intro: map_of_is_SomeI)

lemma bt_get_None_iff: "bt_get m k = None \<longleftrightarrow> k \<notin> fst ` set m"
  by (simp add: bt_get_def map_of_eq_None_iff)

lemma bt_contains_iff: "(\<exists>v. bt_get m k = Some v) \<longleftrightarrow> k \<in> fst ` set m"
  using bt_get_None_iff [of m k] by auto

lemma set_bt_insert_subset: "set (bt_insert k v m) \<subseteq> insert (k, v) (set m)"
  by (induction k v m rule: bt_insert.induct) auto

lemma bt_insert_mem: "(k, v) \<in> set (bt_insert k v m)"
  by (induction k v m rule: bt_insert.induct) auto

lemma set_bt_remove: "set (bt_remove k m) = {kv \<in> set m. fst kv \<noteq> k}"
  by (auto simp: bt_remove_def)

lemma length_bt_insert:
  "bt_ok m \<Longrightarrow> length (bt_insert k v m) = (if bt_contains m k then length m else Suc (length m))"
proof (induction k v m rule: bt_insert.induct)
  case (2 k v k' v' m)
  then show ?case by (auto simp: bt_ok_Cons bt_get_None_iff)
qed (simp add: bt_get_def)

lemma length_bt_remove: "length (bt_remove k m) \<le> length m"
  by (simp add: bt_remove_def)

lemma bt_remove_length: "bt_contains m k \<Longrightarrow> length (bt_remove k m) < length m"
  by (auto simp: bt_remove_def bt_get_None_iff intro: length_filter_less)

lemma map_fst_bt_map_values [simp]: "map fst (bt_map_values f m) = map fst m"
  by (induction m) (auto simp: bt_map_values_def)

lemma bt_ok_map_values [simp]: "bt_ok (bt_map_values f m) = bt_ok m"
  by (simp add: bt_ok_def)

lemma bt_get_map_values: "bt_get (bt_map_values f m) k = map_option f (bt_get m k)"
  by (induction m) (auto simp: bt_map_values_def bt_get_def)

lemma set_bt_map_values: "set (bt_map_values f m) = (\<lambda>(k, v). (k, f v)) ` set m"
  by (simp add: bt_map_values_def)

text \<open>A map built by appending a larger key keeps the iteration order of its entries.\<close>

lemma bt_insert_append:
  "\<forall>k' \<in> fst ` set m. k' < k \<Longrightarrow> bt_insert k v m = m @ [(k, v)]"
  by (induction k v m rule: bt_insert.induct) auto

end
