(* ===== verification/Rust_Text.thy ===== *)
theory Rust_Text
  imports Prelude "HOL-Library.List_Lexorder"
begin

section \<open>Rust text\<close>

text \<open>
  A Rust \<open>char\<close> is a Unicode scalar value, modelled by its code point (a \<open>nat\<close>); a \<open>String\<close> or
  \<open>&str\<close> is the list of its code points (\<open>rstring\<close>). \<open>len()\<close> counts UTF-8 bytes (\<open>str_len\<close>),
  \<open>chars().count()\<close> is the list length, and the byte order of UTF-8 is the lexicographic order of
  the code points, which is what \<open>BTreeMap<String, _>\<close> uses. A literal of the source is
  \<open>lit ''...''\<close>. The Unicode tables behind \<open>char::is_alphanumeric\<close> beyond ASCII are not spelled
  out: the operations that need them take the table as the parameter \<open>U\<close>, consulted only for
  code points above 127, as the standard library does.
\<close>

type_synonym uchar = nat
type_synonym rstring = "uchar list"

definition lit :: "string \<Rightarrow> rstring" where
  "lit s = map of_char s"

lemma lit_simps [text_simps]: "lit [] = []" "lit (c # s) = of_char c # lit s"
  by (simp_all add: lit_def)

lemma lit_Nil [simp]: "lit s = [] \<longleftrightarrow> s = []"
  by (simp add: lit_def)

lemma lit_inject [simp]: "lit s = lit t \<longleftrightarrow> s = t"
  unfolding lit_def by (rule inj_map_eq_map) (rule inj_onI, simp)

definition scalar :: "uchar \<Rightarrow> bool" where
  "scalar c \<longleftrightarrow> c < 0xD800 \<or> (0xE000 \<le> c \<and> c < 0x110000)"

subsection \<open>Character classes of the standard library\<close>

definition is_ascii_digit :: "uchar \<Rightarrow> bool" where
  "is_ascii_digit c \<longleftrightarrow> 48 \<le> c \<and> c \<le> 57"

definition is_ascii_lowercase :: "uchar \<Rightarrow> bool" where
  "is_ascii_lowercase c \<longleftrightarrow> 97 \<le> c \<and> c \<le> 122"

definition is_ascii_uppercase :: "uchar \<Rightarrow> bool" where
  "is_ascii_uppercase c \<longleftrightarrow> 65 \<le> c \<and> c \<le> 90"

definition is_ascii_alphabetic :: "uchar \<Rightarrow> bool" where
  "is_ascii_alphabetic c \<longleftrightarrow> is_ascii_lowercase c \<or> is_ascii_uppercase c"

definition is_ascii_alphanumeric :: "uchar \<Rightarrow> bool" where
  "is_ascii_alphanumeric c \<longleftrightarrow> is_ascii_alphabetic c \<or> is_ascii_digit c"

definition is_alphanumeric :: "(uchar \<Rightarrow> bool) \<Rightarrow> uchar \<Rightarrow> bool" where
  "is_alphanumeric U c \<longleftrightarrow> is_ascii_alphanumeric c \<or> (127 < c \<and> U c)"

text \<open>General category Cc.\<close>

definition is_control :: "uchar \<Rightarrow> bool" where
  "is_control c \<longleftrightarrow> c < 32 \<or> (127 \<le> c \<and> c < 160)"

text \<open>The property White\_Space.\<close>

definition is_whitespace :: "uchar \<Rightarrow> bool" where
  "is_whitespace c \<longleftrightarrow> (9 \<le> c \<and> c \<le> 13) \<or> c = 32 \<or> c = 0x85 \<or> c = 0xA0 \<or> c = 0x1680 \<or>
     (0x2000 \<le> c \<and> c \<le> 0x200A) \<or> c = 0x2028 \<or> c = 0x2029 \<or> c = 0x202F \<or> c = 0x205F \<or>
     c = 0x3000"

text \<open>\<open>is_ascii_whitespace\<close> omits the vertical tab.\<close>

definition is_ascii_whitespace :: "uchar \<Rightarrow> bool" where
  "is_ascii_whitespace c \<longleftrightarrow> c = 32 \<or> c = 9 \<or> c = 10 \<or> c = 12 \<or> c = 13"

definition to_ascii_lower :: "uchar \<Rightarrow> uchar" where
  "to_ascii_lower c = (if is_ascii_uppercase c then c + 32 else c)"

definition to_ascii_upper :: "uchar \<Rightarrow> uchar" where
  "to_ascii_upper c = (if is_ascii_lowercase c then c - 32 else c)"

abbreviation to_ascii_lowercase :: "rstring \<Rightarrow> rstring" where
  "to_ascii_lowercase s \<equiv> map to_ascii_lower s"

abbreviation to_ascii_uppercase :: "rstring \<Rightarrow> rstring" where
  "to_ascii_uppercase s \<equiv> map to_ascii_upper s"

definition eq_ignore_ascii_case :: "rstring \<Rightarrow> rstring \<Rightarrow> bool" where
  "eq_ignore_ascii_case s t \<longleftrightarrow> to_ascii_lowercase s = to_ascii_lowercase t"

lemmas char_class_defs =
  is_ascii_digit_def is_ascii_lowercase_def is_ascii_uppercase_def is_ascii_alphabetic_def
  is_ascii_alphanumeric_def is_control_def is_whitespace_def is_ascii_whitespace_def

lemma alphanumeric_not_special [simp]:
  "is_ascii_alphanumeric c \<Longrightarrow> \<not> is_control c \<and> \<not> is_whitespace c"
  by (auto simp: char_class_defs)

subsection \<open>Lengths\<close>

definition utf8_len :: "uchar \<Rightarrow> nat" where
  "utf8_len c = (if c < 0x80 then 1 else if c < 0x800 then 2 else if c < 0x10000 then 3 else 4)"

definition str_len :: "rstring \<Rightarrow> nat" where
  "str_len s = sum_list (map utf8_len s)"

lemma str_len_simps [simp]:
  "str_len [] = 0" "str_len (c # s) = utf8_len c + str_len s"
  "str_len (s @ t) = str_len s + str_len t"
  by (simp_all add: str_len_def)

lemma utf8_len_bounds: "1 \<le> utf8_len c" "utf8_len c \<le> 4"
  by (auto simp: utf8_len_def)

lemma str_len_eq_0 [simp]: "str_len s = 0 \<longleftrightarrow> s = []"
  using utf8_len_bounds(1) by (cases s) (auto simp: utf8_len_def)

lemma length_le_str_len: "length s \<le> str_len s"
proof (induction s)
  case (Cons c s)
  then show ?case using utf8_len_bounds(1) [of c] by simp
qed simp

subsection \<open>Trimming, prefixes, searching\<close>

definition trim_start_matches :: "(uchar \<Rightarrow> bool) \<Rightarrow> rstring \<Rightarrow> rstring" where
  "trim_start_matches p s = dropWhile p s"

definition trim_end_matches :: "(uchar \<Rightarrow> bool) \<Rightarrow> rstring \<Rightarrow> rstring" where
  "trim_end_matches p s = rev (dropWhile p (rev s))"

abbreviation trim_start :: "rstring \<Rightarrow> rstring" where
  "trim_start \<equiv> trim_start_matches is_whitespace"

abbreviation trim_end :: "rstring \<Rightarrow> rstring" where
  "trim_end \<equiv> trim_end_matches is_whitespace"

definition trim :: "rstring \<Rightarrow> rstring" where
  "trim s = trim_end (trim_start s)"

lemma trim_id:
  assumes "s \<noteq> []" and "\<not> is_whitespace (hd s)" and "\<not> is_whitespace (last s)"
  shows "trim s = s"
proof -
  have "trim_start s = s"
    using assms by (cases s) (auto simp: trim_start_matches_def)
  moreover have "dropWhile is_whitespace (rev s) = rev s"
    using assms by (cases "rev s") (auto simp: last_rev hd_rev [symmetric])
  ultimately show ?thesis by (simp add: trim_def trim_end_matches_def)
qed

lemma trim_Nil [simp]: "trim [] = []"
  by (simp add: trim_def trim_start_matches_def trim_end_matches_def)

fun starts_with :: "rstring \<Rightarrow> rstring \<Rightarrow> bool" where
  "starts_with [] s = True"
| "starts_with (p # ps) [] = False"
| "starts_with (p # ps) (c # s) = (p = c \<and> starts_with ps s)"

definition strip_prefix :: "rstring \<Rightarrow> rstring \<Rightarrow> rstring option" where
  "strip_prefix p s = (if starts_with p s then Some (drop (length p) s) else None)"

definition ends_with :: "rstring \<Rightarrow> rstring \<Rightarrow> bool" where
  "ends_with p s = starts_with (rev p) (rev s)"

fun contains :: "rstring \<Rightarrow> rstring \<Rightarrow> bool" where
  "contains p [] = (p = [])"
| "contains p (c # s) = (starts_with p (c # s) \<or> contains p s)"

lemma starts_with_iff: "starts_with p s \<longleftrightarrow> (\<exists>t. s = p @ t)"
  by (induction p s rule: starts_with.induct) auto

lemma strip_prefix_Some: "strip_prefix p s = Some t \<longleftrightarrow> s = p @ t"
  by (auto simp: strip_prefix_def starts_with_iff)

lemma ends_with_iff: "ends_with p s \<longleftrightarrow> (\<exists>t. s = t @ p)"
  unfolding ends_with_def starts_with_iff by (metis rev_append rev_rev_ident)

lemma contains_iff: "contains p s \<longleftrightarrow> (\<exists>a b. s = a @ p @ b)"
proof (induction s)
  case (Cons c s)
  note IH = Cons.IH
  show ?case
  proof
    assume "contains p (c # s)"
    then consider "starts_with p (c # s)" | "contains p s" by auto
    then show "\<exists>a b. c # s = a @ p @ b"
    proof cases
      case 1
      then show ?thesis by (metis append_Nil starts_with_iff)
    next
      case 2
      then show ?thesis using Cons.IH by (metis append_Cons)
    qed
  next
    assume "\<exists>a b. c # s = a @ p @ b"
    then obtain a b where ab: "c # s = a @ p @ b" by blast
    show "contains p (c # s)"
    proof (cases a)
      case Nil
      with ab have "starts_with p (c # s)" unfolding starts_with_iff by simp
      then show ?thesis by simp
    next
      case (Cons d a')
      with ab have "s = a' @ p @ b" by simp
      then have "contains p s" using IH by blast
      then show ?thesis by simp
    qed
  qed
qed auto

subsection \<open>Splitting\<close>

text \<open>\<open>split(c)\<close>: always at least one piece.\<close>

fun split_on :: "(uchar \<Rightarrow> bool) \<Rightarrow> rstring \<Rightarrow> rstring list" where
  "split_on p [] = [[]]"
| "split_on p (x # xs) =
     (if p x then [] # split_on p xs
      else (case split_on p xs of [] \<Rightarrow> [[x]] | h # t \<Rightarrow> (x # h) # t))"

lemma split_on_not_Nil [simp]: "split_on p s \<noteq> []"
  by (cases s) (auto split: list.splits)

lemma split_on_no_sep: "w \<in> set (split_on p s) \<Longrightarrow> c \<in> set w \<Longrightarrow> \<not> p c"
  by (induction s arbitrary: w) (fastforce split: if_splits list.splits)+

text \<open>\<open>split_whitespace\<close> and \<open>split_ascii_whitespace\<close>: the non-empty pieces.\<close>

definition split_nonempty :: "(uchar \<Rightarrow> bool) \<Rightarrow> rstring \<Rightarrow> rstring list" where
  "split_nonempty p s = filter (\<lambda>w. w \<noteq> []) (split_on p s)"

abbreviation split_whitespace :: "rstring \<Rightarrow> rstring list" where
  "split_whitespace \<equiv> split_nonempty is_whitespace"

abbreviation split_ascii_whitespace :: "rstring \<Rightarrow> rstring list" where
  "split_ascii_whitespace \<equiv> split_nonempty is_ascii_whitespace"

text \<open>\<open>split_once(c)\<close> and \<open>rsplit_once(c)\<close>.\<close>

fun split_once :: "uchar \<Rightarrow> rstring \<Rightarrow> (rstring \<times> rstring) option" where
  "split_once c [] = None"
| "split_once c (x # xs) =
     (if x = c then Some ([], xs)
      else map_option (\<lambda>(a, b). (x # a, b)) (split_once c xs))"

definition rsplit_once :: "uchar \<Rightarrow> rstring \<Rightarrow> (rstring \<times> rstring) option" where
  "rsplit_once c s = map_option (\<lambda>(a, b). (rev b, rev a)) (split_once c (rev s))"

lemma split_once_Some: "split_once c s = Some (a, b) \<longleftrightarrow> s = a @ c # b \<and> c \<notin> set a"
  by (induction s arbitrary: a b) (auto simp: Cons_eq_append_conv)

lemma split_once_None: "split_once c s = None \<longleftrightarrow> c \<notin> set s"
  by (induction s) auto

lemma rsplit_once_Some: "rsplit_once c s = Some (a, b) \<longleftrightarrow> s = a @ c # b \<and> c \<notin> set b"
proof -
  have "rsplit_once c s = Some (a, b) \<longleftrightarrow> split_once c (rev s) = Some (rev b, rev a)"
    unfolding rsplit_once_def by (cases "split_once c (rev s)") auto
  also have "\<dots> \<longleftrightarrow> s = a @ c # b \<and> c \<notin> set b"
    by (auto simp: split_once_Some rev_swap)
  finally show ?thesis .
qed

lemma rsplit_once_None: "rsplit_once c s = None \<longleftrightarrow> c \<notin> set s"
  by (simp add: rsplit_once_def split_once_None)

subsection \<open>Lines\<close>

text \<open>
  \<open>str::lines\<close>: the pieces ended by a line feed, without it and without one carriage return
  before it; a last piece without line feed is kept as it is unless empty.
\<close>

definition strip_cr :: "rstring \<Rightarrow> rstring" where
  "strip_cr l = (if l \<noteq> [] \<and> last l = 13 then butlast l else l)"

function lines_of :: "rstring \<Rightarrow> rstring list" where
  "lines_of s =
     (if s = [] then []
      else case dropWhile (\<lambda>c. c \<noteq> 10) s of
        [] \<Rightarrow> [s]
      | _ # rest \<Rightarrow> strip_cr (takeWhile (\<lambda>c. c \<noteq> 10) s) # lines_of rest)"
  by pat_completeness auto
termination
proof (relation "measure length")
  fix s :: rstring and x xs
  assume "dropWhile (\<lambda>c. c \<noteq> 10) s = x # xs"
  then have "length (x # xs) \<le> length s" by (metis length_dropWhile_le)
  then show "(xs, s) \<in> measure length" by simp
qed simp

declare lines_of.simps [simp del]

lemma lines_of_Nil [simp]: "lines_of [] = []"
  by (simp add: lines_of.simps)

lemma lines_of_line:
  assumes "10 \<notin> set l"
  shows "lines_of (l @ 10 # rest) = strip_cr l # lines_of rest"
proof -
  have "dropWhile (\<lambda>c. c \<noteq> 10) (l @ 10 # rest) = 10 # rest"
    using assms by (subst dropWhile_append2) auto
  moreover have "takeWhile (\<lambda>c. c \<noteq> 10) (l @ 10 # rest) = l"
    using assms by (subst takeWhile_append2) auto
  ultimately show ?thesis by (subst lines_of.simps) simp
qed

definition unlines :: "rstring list \<Rightarrow> rstring" where
  "unlines ls = concat (map (\<lambda>l. l @ [10]) ls)"

lemma unlines_simps [simp]:
  "unlines [] = []" "unlines (l # ls) = l @ 10 # unlines ls"
  "unlines (ls @ ls') = unlines ls @ unlines ls'"
  by (simp_all add: unlines_def)

text \<open>Splitting a text into lines undoes joining lines free of line ends.\<close>

lemma lines_of_unlines:
  "\<forall>l \<in> set ls. 10 \<notin> set l \<and> 13 \<notin> set l \<Longrightarrow> lines_of (unlines ls) = ls"
proof (induction ls)
  case (Cons l ls)
  then have "strip_cr l = l"
    by (metis last_in_set list.set_intros(1) strip_cr_def)
  with Cons show ?case by (simp add: lines_of_line)
qed simp

subsection \<open>Decimal numbers\<close>

fun dec :: "nat \<Rightarrow> rstring" where
  "dec n = (if n < 10 then [48 + n] else dec (n div 10) @ [48 + n mod 10])"

declare dec.simps [simp del]

definition digits_value :: "rstring \<Rightarrow> nat" where
  "digits_value s = foldl (\<lambda>a d. 10 * a + (d - 48)) 0 s"

lemma dec_not_Nil [simp]: "dec n \<noteq> []"
  by (subst dec.simps) simp

lemma dec_digits: "c \<in> set (dec n) \<Longrightarrow> is_ascii_digit c"
proof (induction n rule: dec.induct)
  case (1 n)
  show ?case
  proof (cases "n < 10")
    case True
    with "1.prems" show ?thesis by (subst (asm) dec.simps) (auto simp: is_ascii_digit_def)
  next
    case False
    with "1.prems" have "c \<in> set (dec (n div 10)) \<or> c = 48 + n mod 10"
      by (subst (asm) dec.simps) auto
    then show ?thesis using "1.IH" False by (auto simp: is_ascii_digit_def)
  qed
qed

lemma digits_value_dec [simp]: "digits_value (dec n) = n"
proof (induction n rule: dec.induct)
  case (1 n)
  show ?case
  proof (cases "n < 10")
    case True
    then show ?thesis by (subst dec.simps) (simp add: digits_value_def)
  next
    case False
    have "digits_value (dec n) = 10 * digits_value (dec (n div 10)) + n mod 10"
      using False by (subst dec.simps) (simp add: digits_value_def)
    with False "1.IH" show ?thesis by simp
  qed
qed

text \<open>\<open>str::parse::<u64>\<close> on a non-empty text of digits: the value, or an overflow error.\<close>

definition parse_u64_digits :: "rstring \<Rightarrow> u64 option" where
  "parse_u64_digits s =
     (if digits_value s < 2 ^ 64 then Some (of_nat (digits_value s)) else None)"

lemma parse_u64_dec: "parse_u64_digits (dec (unat w)) = Some w"
  using unat_less_u64 [of w] by (simp add: parse_u64_digits_def)

end
