(* ===== verification/Host_Model.thy ===== *)
theory Host_Model
  imports BTree_Map Rust_Text
begin

section \<open>The host library data model (kaduox-ssh-hosts/src/model.rs)\<close>

text \<open>
  Host records, jump chains and the host database with the validation that every writer runs.
  Error texts are not modelled; each \<open>bail!\<close> is a constructor of \<open>model_error\<close>, and the one
  indexing operation that could panic (\<open>&self.chains[chain_name]\<close>) is the constructor \<open>Panic\<close>. A
  \<open>PathBuf\<close> is its Unicode text. The lemmas characterise validation by the declarative
  well-formedness predicates \<open>label_wf\<close>, \<open>host_wf\<close>, \<open>chain_wf\<close> and \<open>db_wf\<close>.
\<close>

definition DATABASE_VERSION :: u32 where "DATABASE_VERSION = 1"
definition MAX_HOSTS :: nat where "MAX_HOSTS = 4096"
definition MAX_CHAINS :: nat where "MAX_CHAINS = 512"
definition MAX_CHAIN_HOPS :: nat where "MAX_CHAIN_HOPS = 8"
definition MAX_LABELS_PER_HOST :: nat where "MAX_LABELS_PER_HOST = 64"
definition MAX_TEXT_BYTES :: nat where "MAX_TEXT_BYTES = 4096"

lemmas model_limits =
  DATABASE_VERSION_def MAX_HOSTS_def MAX_CHAINS_def MAX_CHAIN_HOPS_def MAX_LABELS_PER_HOST_def
  MAX_TEXT_BYTES_def

datatype (plugins only: code size) model_error =
    UnknownPolicy rstring | UnknownAuthMethod rstring | UnknownOsType rstring | UnknownRole rstring
  | NameLength | NameCharacters | LabelLength | LabelCharacters
  | EndpointLength | EndpointControl
  | TooManyLabels | DuplicateLabel rstring
  | InvalidPath | TextTooLong | TextNul
  | PortZero rstring
  | ChainEmpty rstring | ChainTooLong rstring nat | ChainRepeatsHop rstring
  | TooManyFolders | DuplicateFolder
  | UnsupportedVersion u32 | TooManyHosts | TooManyChains
  | HostKeyMismatch rstring | MissingChain rstring rstring
  | ChainKeyMismatch rstring | MissingHopHost rstring rstring | TargetInChain rstring rstring
  | RoutingLoop rstring rstring
  | Panic

subsection \<open>Enumerations\<close>

datatype StoredHostKeyPolicy = Strict | AcceptNew | Insecure

fun policy_as_str :: "StoredHostKeyPolicy \<Rightarrow> rstring" where
  "policy_as_str StoredHostKeyPolicy.Strict = lit ''strict''"
| "policy_as_str StoredHostKeyPolicy.AcceptNew = lit ''accept-new''"
| "policy_as_str StoredHostKeyPolicy.Insecure = lit ''insecure''"

definition policy_parse :: "rstring \<Rightarrow> model_error + StoredHostKeyPolicy" where
  "policy_parse value =
     (if value = lit ''strict'' then Inr StoredHostKeyPolicy.Strict
      else if value = lit ''accept-new'' then Inr StoredHostKeyPolicy.AcceptNew
      else if value = lit ''insecure'' then Inr StoredHostKeyPolicy.Insecure
      else Inl (UnknownPolicy value))"

datatype StoredAuthMethod = Agent | PrivateKey | Password | KeyboardInteractive | Auto

fun auth_as_str :: "StoredAuthMethod \<Rightarrow> rstring" where
  "auth_as_str StoredAuthMethod.Agent = lit ''agent''"
| "auth_as_str StoredAuthMethod.PrivateKey = lit ''private-key''"
| "auth_as_str StoredAuthMethod.Password = lit ''password''"
| "auth_as_str StoredAuthMethod.KeyboardInteractive = lit ''keyboard-interactive''"
| "auth_as_str StoredAuthMethod.Auto = lit ''auto''"

definition auth_parse :: "rstring \<Rightarrow> model_error + StoredAuthMethod" where
  "auth_parse value =
     (if value = lit ''agent'' then Inr StoredAuthMethod.Agent
      else if value = lit ''private-key'' then Inr StoredAuthMethod.PrivateKey
      else if value = lit ''password'' then Inr StoredAuthMethod.Password
      else if value = lit ''keyboard-interactive'' then Inr StoredAuthMethod.KeyboardInteractive
      else if value = lit ''auto'' then Inr StoredAuthMethod.Auto
      else Inl (UnknownAuthMethod value))"

datatype StoredOsType = OsAuto | Linux | Windows

fun os_as_str :: "StoredOsType \<Rightarrow> rstring" where
  "os_as_str OsAuto = lit ''auto''"
| "os_as_str Linux = lit ''linux''"
| "os_as_str Windows = lit ''windows''"

definition os_parse :: "rstring \<Rightarrow> model_error + StoredOsType" where
  "os_parse value =
     (if value = lit ''auto'' then Inr OsAuto
      else if value = lit ''linux'' then Inr Linux
      else if value = lit ''windows'' then Inr Windows
      else Inl (UnknownOsType value))"

datatype HostRole = Target | Jump | Both

fun role_as_str :: "HostRole \<Rightarrow> rstring" where
  "role_as_str Target = lit ''target''"
| "role_as_str Jump = lit ''jump''"
| "role_as_str Both = lit ''both''"

definition role_parse :: "rstring \<Rightarrow> model_error + HostRole" where
  "role_parse value =
     (if value = lit ''target'' then Inr Target
      else if value = lit ''jump'' then Inr Jump
      else if value = lit ''both'' then Inr Both
      else Inl (UnknownRole value))"

lemma policy_parse_as_str [simp]: "policy_parse (policy_as_str p) = Inr p"
  by (cases p) (simp_all add: policy_parse_def)

lemma auth_parse_as_str [simp]: "auth_parse (auth_as_str m) = Inr m"
  by (cases m) (simp_all add: auth_parse_def)

lemma os_parse_as_str [simp]: "os_parse (os_as_str t) = Inr t"
  by (cases t) (simp_all add: os_parse_def)

lemma role_parse_as_str [simp]: "role_parse (role_as_str r) = Inr r"
  by (cases r) (simp_all add: role_parse_def)

subsection \<open>Records\<close>

record HostStats =
  last_connected_unix :: "u64 option"
  connection_count :: u64
  last_auth_method :: "StoredAuthMethod option"

record HostRecord =
  h_alias :: rstring
  h_role :: HostRole
  h_address :: rstring
  h_port :: u16
  h_user :: rstring
  h_identity_file :: "rstring option"
  h_groups :: "rstring list"
  h_tags :: "rstring list"
  h_note :: "rstring option"
  h_host_key_policy :: StoredHostKeyPolicy
  h_jump_chain :: "rstring option"
  h_os_type :: StoredOsType
  h_stats :: HostStats

definition default_stats :: HostStats where
  "default_stats = \<lparr>last_connected_unix = None, connection_count = 0, last_auth_method = None\<rparr>"

definition host_new :: "rstring \<Rightarrow> rstring \<Rightarrow> rstring \<Rightarrow> HostRecord" where
  "host_new alias address user =
     \<lparr>h_alias = alias, h_role = Both, h_address = address, h_port = 22, h_user = user,
      h_identity_file = None, h_groups = [], h_tags = [], h_note = None,
      h_host_key_policy = StoredHostKeyPolicy.AcceptNew, h_jump_chain = None, h_os_type = OsAuto,
      h_stats = default_stats\<rparr>"

record InlineJump =
  j_alias :: rstring
  j_host :: rstring
  j_port :: u16
  j_user :: rstring
  j_identity_file :: "rstring option"
  j_host_key_policy :: StoredHostKeyPolicy

datatype JumpHop = Host rstring | OpenSshAlias rstring | Inline InlineJump

fun display_name :: "JumpHop \<Rightarrow> rstring" where
  "display_name (Host value) = value"
| "display_name (OpenSshAlias value) = value"
| "display_name (Inline jump) = j_alias jump"

record JumpChain =
  c_name :: rstring
  c_hops :: "JumpHop list"

record HostDatabase =
  folders :: "rstring list"
  jump_folders :: "rstring list"
  version :: u32
  hosts :: "(rstring, HostRecord) btmap"
  chains :: "(rstring, JumpChain) btmap"

definition default_database :: HostDatabase where
  "default_database =
     \<lparr>folders = [], jump_folders = [], version = DATABASE_VERSION, hosts = [], chains = []\<rparr>"

subsection \<open>Field validation\<close>

definition name_char :: "uchar \<Rightarrow> bool" where
  "name_char b \<longleftrightarrow> is_ascii_alphanumeric b \<or> b \<in> set (lit ''._-:'')"

definition validate_name :: "rstring \<Rightarrow> model_error + unit" where
  "validate_name value =
     (if value = [] \<or> 128 < str_len value then Inl NameLength
      else if \<not> (\<forall>b \<in> set value. name_char b) then Inl NameCharacters
      else Inr ())"

definition label_char :: "(uchar \<Rightarrow> bool) \<Rightarrow> uchar \<Rightarrow> bool" where
  "label_char U ch \<longleftrightarrow>
     is_alphanumeric U ch \<or> ch \<in> set (lit '' ._-:()'') \<or> ch = 0xFF08 \<or> ch = 0xFF09"

definition validate_label :: "(uchar \<Rightarrow> bool) \<Rightarrow> rstring \<Rightarrow> model_error + unit" where
  "validate_label U value =
     (if value = [] \<or> 128 < length value \<or> trim value \<noteq> value then Inl LabelLength
      else if \<not> (\<forall>ch \<in> set value. label_char U ch) then Inl LabelCharacters
      else Inr ())"

definition validate_endpoint_token :: "rstring \<Rightarrow> model_error + unit" where
  "validate_endpoint_token value =
     (if value = [] \<or> 512 < str_len value then Inl EndpointLength
      else if (\<exists>c \<in> set value. is_control c) \<or> 0 \<in> set value then Inl EndpointControl
      else Inr ())"

definition validate_labels :: "(uchar \<Rightarrow> bool) \<Rightarrow> rstring list \<Rightarrow> model_error + unit" where
  "validate_labels U values =
     (if MAX_LABELS_PER_HOST < length values then Inl TooManyLabels
      else each_fresh (validate_label U) (\<lambda>v. v) DuplicateLabel {} values)"

fun validate_optional_path :: "rstring option \<Rightarrow> model_error + unit" where
  "validate_optional_path None = Inr ()"
| "validate_optional_path (Some value) =
     (if value = [] \<or> 4096 < str_len value \<or> (\<exists>c \<in> set value. is_control c) then Inl InvalidPath
      else Inr ())"

definition validate_text :: "rstring \<Rightarrow> model_error + unit" where
  "validate_text value =
     (if MAX_TEXT_BYTES < str_len value then Inl TextTooLong
      else if 0 \<in> set value then Inl TextNul
      else Inr ())"

subsection \<open>Record validation\<close>

definition host_validate :: "(uchar \<Rightarrow> bool) \<Rightarrow> HostRecord \<Rightarrow> model_error + unit" where
  "host_validate U h =
     and_then (validate_label U (h_alias h)) (\<lambda>_.
     and_then (validate_endpoint_token (h_address h)) (\<lambda>_.
     if h_port h = 0 then Inl (PortZero (h_alias h)) else
     and_then (validate_endpoint_token (h_user h)) (\<lambda>_.
     and_then (validate_optional_path (h_identity_file h)) (\<lambda>_.
     and_then (validate_labels U (h_groups h)) (\<lambda>_.
     and_then (validate_labels U (h_tags h)) (\<lambda>_.
     and_then (case h_note h of Some note \<Rightarrow> validate_text note | None \<Rightarrow> Inr ()) (\<lambda>_.
     case h_jump_chain h of Some chain \<Rightarrow> validate_label U chain | None \<Rightarrow> Inr ())))))))"

definition inline_validate :: "(uchar \<Rightarrow> bool) \<Rightarrow> InlineJump \<Rightarrow> model_error + unit" where
  "inline_validate U j =
     and_then (validate_label U (j_alias j)) (\<lambda>_.
     and_then (validate_endpoint_token (j_host j)) (\<lambda>_.
     if j_port j = 0 then Inl (PortZero (j_alias j)) else
     and_then (validate_endpoint_token (j_user j)) (\<lambda>_.
     validate_optional_path (j_identity_file j))))"

fun hop_validate :: "(uchar \<Rightarrow> bool) \<Rightarrow> JumpHop \<Rightarrow> model_error + unit" where
  "hop_validate U (Host alias) = validate_label U alias"
| "hop_validate U (OpenSshAlias alias) = validate_name alias"
| "hop_validate U (Inline jump) = inline_validate U jump"

definition chain_validate :: "(uchar \<Rightarrow> bool) \<Rightarrow> JumpChain \<Rightarrow> model_error + unit" where
  "chain_validate U c =
     and_then (validate_label U (c_name c)) (\<lambda>_.
     if c_hops c = [] then Inl (ChainEmpty (c_name c))
     else if MAX_CHAIN_HOPS < length (c_hops c)
       then Inl (ChainTooLong (c_name c) (length (c_hops c)))
     else each_fresh (hop_validate U) display_name (\<lambda>_. ChainRepeatsHop (c_name c)) {} (c_hops c))"

subsection \<open>Database validation\<close>

definition validate_host_entry ::
  "(uchar \<Rightarrow> bool) \<Rightarrow> HostDatabase \<Rightarrow> rstring \<times> HostRecord \<Rightarrow> model_error + unit" where
  "validate_host_entry U db = (\<lambda>(alias, host).
     if alias \<noteq> h_alias host then Inl (HostKeyMismatch alias) else
     and_then (host_validate U host) (\<lambda>_.
     case h_jump_chain host of
       None \<Rightarrow> Inr ()
     | Some chain \<Rightarrow>
         if \<not> bt_contains (chains db) chain then Inl (MissingChain alias chain) else Inr ()))"

definition validate_chain_entry ::
  "(uchar \<Rightarrow> bool) \<Rightarrow> HostDatabase \<Rightarrow> rstring \<times> JumpChain \<Rightarrow> model_error + unit" where
  "validate_chain_entry U db = (\<lambda>(name, chain).
     if name \<noteq> c_name chain then Inl (ChainKeyMismatch name) else
     and_then (chain_validate U chain) (\<lambda>_.
     try_each (\<lambda>hop. case hop of
         Host alias \<Rightarrow> (case bt_get (hosts db) alias of
             None \<Rightarrow> Inl (MissingHopHost name alias)
           | Some host \<Rightarrow>
               if h_role host = Target then Inl (TargetInChain alias name) else Inr ())
       | _ \<Rightarrow> Inr ()) (c_hops chain)))"

definition hop_is :: "rstring \<Rightarrow> JumpHop \<Rightarrow> bool" where
  "hop_is alias hop =
     (case hop of Host a \<Rightarrow> a = alias | OpenSshAlias a \<Rightarrow> a = alias | Inline j \<Rightarrow> j_alias j = alias)"

definition validate_routing :: "HostDatabase \<Rightarrow> HostRecord \<Rightarrow> model_error + unit" where
  "validate_routing db host =
     (case h_jump_chain host of
        None \<Rightarrow> Inr ()
      | Some chain_name \<Rightarrow> (case bt_get (chains db) chain_name of
            None \<Rightarrow> Inl Panic
          | Some chain \<Rightarrow>
              if \<exists>hop \<in> set (c_hops chain). hop_is (h_alias host) hop
              then Inl (RoutingLoop (h_alias host) (c_name chain)) else Inr ()))"

definition validate :: "(uchar \<Rightarrow> bool) \<Rightarrow> HostDatabase \<Rightarrow> model_error + unit" where
  "validate U db =
     (if MAX_HOSTS < length (folders db) then Inl TooManyFolders else
      and_then (each_fresh (validate_label U) (\<lambda>n. n) (\<lambda>_. DuplicateFolder) {}
                  (folders db @ jump_folders db)) (\<lambda>_.
      if version db \<noteq> DATABASE_VERSION then Inl (UnsupportedVersion (version db))
      else if MAX_HOSTS < length (hosts db) then Inl TooManyHosts
      else if MAX_CHAINS < length (chains db) then Inl TooManyChains
      else
      and_then (try_each (validate_host_entry U db) (hosts db)) (\<lambda>_.
      and_then (try_each (validate_chain_entry U db) (chains db)) (\<lambda>_.
      try_each (validate_routing db) (bt_values (hosts db))))))"

subsection \<open>What validation means\<close>

definition name_wf :: "rstring \<Rightarrow> bool" where
  "name_wf v \<longleftrightarrow> v \<noteq> [] \<and> str_len v \<le> 128 \<and> (\<forall>b \<in> set v. name_char b)"

definition label_wf :: "(uchar \<Rightarrow> bool) \<Rightarrow> rstring \<Rightarrow> bool" where
  "label_wf U v \<longleftrightarrow> v \<noteq> [] \<and> length v \<le> 128 \<and> trim v = v \<and> (\<forall>c \<in> set v. label_char U c)"

definition endpoint_wf :: "rstring \<Rightarrow> bool" where
  "endpoint_wf v \<longleftrightarrow> v \<noteq> [] \<and> str_len v \<le> 512 \<and> (\<forall>c \<in> set v. \<not> is_control c)"

definition path_wf :: "rstring \<Rightarrow> bool" where
  "path_wf v \<longleftrightarrow> v \<noteq> [] \<and> str_len v \<le> 4096 \<and> (\<forall>c \<in> set v. \<not> is_control c)"

definition text_wf :: "rstring \<Rightarrow> bool" where
  "text_wf v \<longleftrightarrow> str_len v \<le> 4096 \<and> 0 \<notin> set v"

definition labels_wf :: "(uchar \<Rightarrow> bool) \<Rightarrow> rstring list \<Rightarrow> bool" where
  "labels_wf U vs \<longleftrightarrow> length vs \<le> 64 \<and> distinct vs \<and> (\<forall>v \<in> set vs. label_wf U v)"

definition host_wf :: "(uchar \<Rightarrow> bool) \<Rightarrow> HostRecord \<Rightarrow> bool" where
  "host_wf U h \<longleftrightarrow> label_wf U (h_alias h) \<and> endpoint_wf (h_address h) \<and> h_port h \<noteq> 0 \<and>
     endpoint_wf (h_user h) \<and> pred_option path_wf (h_identity_file h) \<and>
     labels_wf U (h_groups h) \<and> labels_wf U (h_tags h) \<and> pred_option text_wf (h_note h) \<and>
     pred_option (label_wf U) (h_jump_chain h)"

fun hop_wf :: "(uchar \<Rightarrow> bool) \<Rightarrow> JumpHop \<Rightarrow> bool" where
  "hop_wf U (Host alias) = label_wf U alias"
| "hop_wf U (OpenSshAlias alias) = name_wf alias"
| "hop_wf U (Inline j) = (label_wf U (j_alias j) \<and> endpoint_wf (j_host j) \<and> j_port j \<noteq> 0 \<and>
     endpoint_wf (j_user j) \<and> pred_option path_wf (j_identity_file j))"

definition chain_wf :: "(uchar \<Rightarrow> bool) \<Rightarrow> JumpChain \<Rightarrow> bool" where
  "chain_wf U c \<longleftrightarrow> label_wf U (c_name c) \<and> c_hops c \<noteq> [] \<and> length (c_hops c) \<le> 8 \<and>
     distinct (map display_name (c_hops c)) \<and> (\<forall>hop \<in> set (c_hops c). hop_wf U hop)"

definition db_wf :: "(uchar \<Rightarrow> bool) \<Rightarrow> HostDatabase \<Rightarrow> bool" where
  "db_wf U db \<longleftrightarrow>
     length (folders db) \<le> 4096 \<and> distinct (folders db @ jump_folders db) \<and>
     (\<forall>n \<in> set (folders db) \<union> set (jump_folders db). label_wf U n) \<and>
     version db = 1 \<and> length (hosts db) \<le> 4096 \<and> length (chains db) \<le> 512 \<and>
     (\<forall>(k, h) \<in> set (hosts db). k = h_alias h \<and> host_wf U h \<and>
        (\<forall>n. h_jump_chain h = Some n \<longrightarrow>
           (\<exists>c. bt_get (chains db) n = Some c \<and> h_alias h \<notin> display_name ` set (c_hops c)))) \<and>
     (\<forall>(k, c) \<in> set (chains db). k = c_name c \<and> chain_wf U c \<and>
        (\<forall>a. Host a \<in> set (c_hops c) \<longrightarrow>
           (\<exists>h. bt_get (hosts db) a = Some h \<and> h_role h \<noteq> Target)))"

lemma validate_name_ok [simp]: "validate_name v = Inr () \<longleftrightarrow> name_wf v"
  by (auto simp: validate_name_def name_wf_def)

lemma validate_label_ok [simp]: "validate_label U v = Inr () \<longleftrightarrow> label_wf U v"
  by (auto simp: validate_label_def label_wf_def)

lemma validate_endpoint_ok [simp]: "validate_endpoint_token v = Inr () \<longleftrightarrow> endpoint_wf v"
proof -
  have "\<forall>c \<in> set v. \<not> is_control c \<Longrightarrow> 0 \<notin> set v"
    by (auto simp: is_control_def)
  then show ?thesis by (auto simp: validate_endpoint_token_def endpoint_wf_def)
qed

lemma validate_labels_ok [simp]: "validate_labels U vs = Inr () \<longleftrightarrow> labels_wf U vs"
  by (auto simp: validate_labels_def labels_wf_def each_fresh_ok model_limits)

lemma validate_optional_path_ok [simp]:
  "validate_optional_path p = Inr () \<longleftrightarrow> pred_option path_wf p"
  by (cases p) (auto simp: path_wf_def)

lemma validate_text_ok [simp]: "validate_text v = Inr () \<longleftrightarrow> text_wf v"
  by (auto simp: validate_text_def text_wf_def model_limits)

lemma case_option_unit_ok:
  "(case opt of Some x \<Rightarrow> f x | None \<Rightarrow> Inr ()) = Inr () \<longleftrightarrow> pred_option (\<lambda>x. f x = Inr ()) opt"
  by (cases opt) auto

lemma host_validate_ok [simp]: "host_validate U h = Inr () \<longleftrightarrow> host_wf U h"
  by (auto simp: host_validate_def host_wf_def and_then_eq_Inr case_option_unit_ok)

lemma hop_validate_ok [simp]: "hop_validate U hop = Inr () \<longleftrightarrow> hop_wf U hop"
  by (cases hop) (auto simp: inline_validate_def and_then_eq_Inr)

lemma chain_validate_ok [simp]: "chain_validate U c = Inr () \<longleftrightarrow> chain_wf U c"
  by (auto simp: chain_validate_def chain_wf_def and_then_eq_Inr each_fresh_ok model_limits)

lemma hop_is_iff: "hop_is alias hop \<longleftrightarrow> display_name hop = alias"
  by (cases hop) (auto simp: hop_is_def)

lemma validate_host_entry_ok:
  "validate_host_entry U db (k, h) = Inr () \<longleftrightarrow>
     k = h_alias h \<and> host_wf U h \<and>
     (\<forall>n. h_jump_chain h = Some n \<longrightarrow> (\<exists>c. bt_get (chains db) n = Some c))"
  by (auto simp: validate_host_entry_def and_then_eq_Inr split: option.splits)

lemma validate_chain_entry_ok:
  "validate_chain_entry U db (k, c) = Inr () \<longleftrightarrow>
     k = c_name c \<and> chain_wf U c \<and>
     (\<forall>a. Host a \<in> set (c_hops c) \<longrightarrow> (\<exists>h. bt_get (hosts db) a = Some h \<and> h_role h \<noteq> Target))"
  by (fastforce simp: validate_chain_entry_def and_then_eq_Inr try_each_ok
      split: option.splits JumpHop.splits if_splits)

lemma validate_routing_ok:
  "validate_routing db h = Inr () \<longleftrightarrow>
     (\<forall>n. h_jump_chain h = Some n \<longrightarrow>
        (\<exists>c. bt_get (chains db) n = Some c \<and> h_alias h \<notin> display_name ` set (c_hops c)))"
  by (auto simp: validate_routing_def hop_is_iff split: option.splits) (metis imageI)

lemma validate_ok: "validate U db = Inr () \<longleftrightarrow> db_wf U db"
proof -
  have "validate U db = Inr () \<longleftrightarrow>
      length (folders db) \<le> 4096 \<and> distinct (folders db @ jump_folders db) \<and>
      (\<forall>n \<in> set (folders db) \<union> set (jump_folders db). label_wf U n) \<and>
      version db = 1 \<and> length (hosts db) \<le> 4096 \<and> length (chains db) \<le> 512 \<and>
      (\<forall>kh \<in> set (hosts db). validate_host_entry U db kh = Inr ()) \<and>
      (\<forall>kc \<in> set (chains db). validate_chain_entry U db kc = Inr ()) \<and>
      (\<forall>kh \<in> set (hosts db). validate_routing db (snd kh) = Inr ())"
    by (auto simp: validate_def and_then_eq_Inr each_fresh_ok try_each_ok model_limits)
  also have "\<dots> \<longleftrightarrow> db_wf U db"
    unfolding db_wf_def
    by (fastforce simp: validate_host_entry_ok validate_chain_entry_ok validate_routing_ok
        split: prod.splits)
  finally show ?thesis .
qed

lemma validate_default [simp]: "validate U default_database = Inr ()"
  by (simp add: validate_ok db_wf_def default_database_def model_limits)

end
