(* ===== verification/Host_Codec.thy ===== *)
theory Host_Codec
  imports Host_Model
begin

section \<open>The host library text format (kaduox-ssh-hosts/src/codec.rs)\<close>

text \<open>
  The hand-written TOML subset in which the host library is stored: \<open>encode\<close> prints a validated
  database, \<open>decode\<close> parses a text line by line into tables, reads the tables into records, puts
  the hops of every chain in order and validates the result. Every \<open>bail!\<close> and \<open>context\<close> is a
  constructor of \<open>codec_error\<close>; an error of \<open>validate\<close> is wrapped in \<open>Model\<close>. \<open>usize\<close> is 64 bits
  wide, so \<open>usize::try_from\<close> of a hop index cannot fail. An identity file is a path that is Unicode text, on which
  \<open>to_string_lossy\<close> is the identity.
\<close>

datatype Value = VString rstring | VInteger u64 | VStrings "rstring list"

datatype TableKind = HostTable | ChainTable | HopTable

record Table =
  t_kind :: TableKind
  t_line :: nat
  t_values :: "(rstring, Value) btmap"

datatype (plugins only: code size) codec_error =
    InputTooLarge | UnterminatedString | ExpectedString | ControlInString | TrailingEscape
  | UnsupportedEscape uchar | UnterminatedArray | UnterminatedArrayString
  | UnsupportedValue rstring | IntegerOverflow | MissingEquals | InvalidKey rstring
  | MissingValue rstring | UnsupportedHeader rstring | DuplicateKey rstring nat
  | NotAString rstring | NotAnInteger rstring | NotStrings rstring
  | MissingKey rstring nat | UnknownKey rstring
  | MissingVersion | BadVersion u64 | InvalidPort nat
  | DuplicateHost rstring | DuplicateChain rstring
  | MissingIndex | UnknownHopKind rstring nat
  | HopWithoutChain rstring | HopIndexGap rstring nat nat
  | Model model_error

subsection \<open>Printing\<close>

definition escape_char :: "uchar \<Rightarrow> rstring" where
  "escape_char ch =
     (if ch = 34 then [92, 34]
      else if ch = 92 then [92, 92]
      else if ch = 10 then [92, 110]
      else if ch = 13 then [92, 114]
      else if ch = 9 then [92, 116]
      else [ch])"

definition escape :: "rstring \<Rightarrow> rstring" where
  "escape value = concat (map escape_char value)"

definition write_string :: "rstring \<Rightarrow> rstring \<Rightarrow> rstring" where
  "write_string key value = key @ lit '' = '' @ [34] @ escape value @ [34, 10]"

fun write_items :: "bool \<Rightarrow> rstring list \<Rightarrow> rstring" where
  "write_items first [] = []"
| "write_items first (v # vs) =
     (if first then [] else lit '', '') @ [34] @ escape v @ [34] @ write_items False vs"

definition write_strings :: "rstring \<Rightarrow> rstring list \<Rightarrow> rstring" where
  "write_strings key values = key @ lit '' = ['' @ write_items True values @ lit '']'' @ [10]"

definition write_number :: "rstring \<Rightarrow> nat \<Rightarrow> rstring" where
  "write_number key n = key @ lit '' = '' @ dec n @ [10]"

definition write_opt :: "('a \<Rightarrow> rstring) \<Rightarrow> 'a option \<Rightarrow> rstring" where
  "write_opt f opt = (case opt of Some x \<Rightarrow> f x | None \<Rightarrow> [])"

definition encode_host :: "HostRecord \<Rightarrow> rstring" where
  "encode_host host =
     [10] @ lit ''[[host]]'' @ [10]
     @ write_string (lit ''alias'') (h_alias host)
     @ (if h_role host \<noteq> Both then write_string (lit ''role'') (role_as_str (h_role host)) else [])
     @ write_string (lit ''address'') (h_address host)
     @ write_number (lit ''port'') (unat (h_port host))
     @ write_string (lit ''user'') (h_user host)
     @ write_opt (write_string (lit ''identity_file'')) (h_identity_file host)
     @ write_strings (lit ''groups'') (h_groups host)
     @ write_strings (lit ''tags'') (h_tags host)
     @ write_opt (write_string (lit ''note'')) (h_note host)
     @ write_string (lit ''host_key_policy'') (policy_as_str (h_host_key_policy host))
     @ (if h_os_type host \<noteq> OsAuto
        then write_string (lit ''os_type'') (os_as_str (h_os_type host)) else [])
     @ write_opt (write_string (lit ''jump_chain'')) (h_jump_chain host)
     @ write_opt (\<lambda>t. write_number (lit ''last_connected_unix'') (unat t))
         (last_connected_unix (h_stats host))
     @ write_number (lit ''connection_count'') (unat (connection_count (h_stats host)))
     @ write_opt (\<lambda>m. write_string (lit ''last_auth_method'') (auth_as_str m))
         (last_auth_method (h_stats host))"

fun encode_hop_body :: "JumpHop \<Rightarrow> rstring" where
  "encode_hop_body (Host alias) =
     write_string (lit ''kind'') (lit ''host'') @ write_string (lit ''name'') alias"
| "encode_hop_body (OpenSshAlias alias) =
     write_string (lit ''kind'') (lit ''openssh'') @ write_string (lit ''name'') alias"
| "encode_hop_body (Inline jump) =
     write_string (lit ''kind'') (lit ''inline'')
     @ write_string (lit ''alias'') (j_alias jump)
     @ write_string (lit ''host'') (j_host jump)
     @ write_number (lit ''port'') (unat (j_port jump))
     @ write_string (lit ''user'') (j_user jump)
     @ write_opt (write_string (lit ''identity_file'')) (j_identity_file jump)
     @ write_string (lit ''host_key_policy'') (policy_as_str (j_host_key_policy jump))"

fun encode_hops :: "rstring \<Rightarrow> nat \<Rightarrow> JumpHop list \<Rightarrow> rstring" where
  "encode_hops chain index [] = []"
| "encode_hops chain index (hop # rest) =
     [10] @ lit ''[[hop]]'' @ [10]
     @ write_string (lit ''chain'') chain
     @ write_number (lit ''index'') index
     @ encode_hop_body hop
     @ encode_hops chain (Suc index) rest"

definition encode_chain :: "JumpChain \<Rightarrow> rstring" where
  "encode_chain chain =
     [10] @ lit ''[[chain]]'' @ [10]
     @ write_string (lit ''name'') (c_name chain)
     @ encode_hops (c_name chain) 0 (c_hops chain)"

definition encode :: "(uchar \<Rightarrow> bool) \<Rightarrow> HostDatabase \<Rightarrow> codec_error + rstring" where
  "encode U db =
     and_then (map_err Model (validate U db)) (\<lambda>_. Inr (
       lit ''# Kaduox-SSH host library. Secrets are intentionally not stored here.'' @ [10]
       @ write_number (lit ''version'') (unat (version db))
       @ (if folders db \<noteq> [] then write_strings (lit ''folders'') (folders db) else [])
       @ (if jump_folders db \<noteq> [] then write_strings (lit ''jump_folders'') (jump_folders db)
          else [])
       @ concat (map encode_host (bt_values (hosts db)))
       @ concat (map encode_chain (bt_values (chains db)))))"

subsection \<open>Scanning a line\<close>

fun strip_comment_from :: "bool \<Rightarrow> bool \<Rightarrow> rstring \<Rightarrow> codec_error + rstring" where
  "strip_comment_from in_string escaped [] =
     (if in_string \<or> escaped then Inl UnterminatedString else Inr [])"
| "strip_comment_from in_string escaped (ch # rest) =
     (if in_string then
        map_ok (Cons ch)
          (if escaped then strip_comment_from True False rest
           else if ch = 92 then strip_comment_from True True rest
           else if ch = 34 then strip_comment_from False escaped rest
           else strip_comment_from True escaped rest)
      else if ch = 34 then map_ok (Cons ch) (strip_comment_from True escaped rest)
      else if ch = 35 then Inr []
      else map_ok (Cons ch) (strip_comment_from False escaped rest))"

definition strip_comment :: "rstring \<Rightarrow> codec_error + rstring" where
  "strip_comment line = strip_comment_from False False line"

definition parse_header :: "rstring \<Rightarrow> codec_error + TableKind option" where
  "parse_header line =
     (if \<not> starts_with (lit ''['') line then Inr None
      else if line = lit ''[[host]]'' then Inr (Some HostTable)
      else if line = lit ''[[chain]]'' then Inr (Some ChainTable)
      else if line = lit ''[[hop]]'' then Inr (Some HopTable)
      else Inl (UnsupportedHeader line))"

fun find_equals :: "bool \<Rightarrow> bool \<Rightarrow> rstring \<Rightarrow> (rstring \<times> rstring) option" where
  "find_equals in_string escaped [] = None"
| "find_equals in_string escaped (ch # rest) =
     (let step = (\<lambda>s e. map_option (\<lambda>(a, b). (ch # a, b)) (find_equals s e rest)) in
      if in_string then
        (if escaped then step True False
         else if ch = 92 then step True True
         else if ch = 34 then step False escaped
         else step True escaped)
      else if ch = 34 then step True escaped
      else if ch = 61 then Some ([], rest)
      else step False escaped)"

fun unescape :: "rstring \<Rightarrow> codec_error + rstring" where
  "unescape [] = Inr []"
| "unescape (ch # rest) =
     (if ch \<noteq> 92 then
        (if is_control ch then Inl ControlInString else map_ok (Cons ch) (unescape rest))
      else (case rest of
          [] \<Rightarrow> Inl TrailingEscape
        | escaped # rest' \<Rightarrow>
            (if escaped = 34 then map_ok (Cons 34) (unescape rest')
             else if escaped = 92 then map_ok (Cons 92) (unescape rest')
             else if escaped = 110 then map_ok (Cons 10) (unescape rest')
             else if escaped = 114 then map_ok (Cons 13) (unescape rest')
             else if escaped = 116 then map_ok (Cons 9) (unescape rest')
             else Inl (UnsupportedEscape escaped))))"

definition parse_string :: "rstring \<Rightarrow> codec_error + rstring" where
  "parse_string value =
     (if str_len value < 2 \<or> \<not> ends_with [34] value then Inl UnterminatedString
      else if \<not> starts_with [34] value then Inl ExpectedString
      else unescape (butlast (tl value)))"

fun split_array :: "bool \<Rightarrow> bool \<Rightarrow> rstring \<Rightarrow> rstring \<Rightarrow> codec_error + rstring list" where
  "split_array in_string escaped item [] =
     (if in_string \<or> escaped then Inl UnterminatedArrayString
      else map_ok (\<lambda>v. [v]) (parse_string (trim item)))"
| "split_array in_string escaped item (ch # rest) =
     (if in_string then
        (if escaped then split_array True False (item @ [ch]) rest
         else if ch = 92 then split_array True True (item @ [ch]) rest
         else if ch = 34 then split_array False escaped (item @ [ch]) rest
         else split_array True escaped (item @ [ch]) rest)
      else if ch = 34 then split_array True escaped (item @ [ch]) rest
      else if ch = 44 then
        and_then (parse_string (trim item)) (\<lambda>v.
          map_ok (Cons v) (split_array False escaped [] rest))
      else split_array False escaped (item @ [ch]) rest)"

definition parse_string_array :: "rstring \<Rightarrow> codec_error + rstring list" where
  "parse_string_array value =
     (if \<not> ends_with (lit '']'') value then Inl UnterminatedArray
      else let inner = trim (butlast (tl value)) in
        if inner = [] then Inr [] else split_array False False [] inner)"

definition parse_value :: "rstring \<Rightarrow> codec_error + Value" where
  "parse_value value =
     (if starts_with [34] value then map_ok VString (parse_string value)
      else if starts_with (lit ''['') value then map_ok VStrings (parse_string_array value)
      else if \<forall>b \<in> set value. is_ascii_digit b
        then map_ok VInteger (ok_or IntegerOverflow (parse_u64_digits value))
      else Inl (UnsupportedValue value))"

definition key_char :: "uchar \<Rightarrow> bool" where
  "key_char b \<longleftrightarrow> is_ascii_alphanumeric b \<or> b = 95"

definition parse_assignment :: "rstring \<Rightarrow> codec_error + (rstring \<times> Value)" where
  "parse_assignment line =
     and_then (ok_or MissingEquals (find_equals False False line)) (\<lambda>(key_text, value_text).
       let key = trim key_text; value = trim value_text in
       if key = [] \<or> \<not> (\<forall>b \<in> set key. key_char b) then Inl (InvalidKey key)
       else if value = [] then Inl (MissingValue key)
       else map_ok (Pair key) (parse_value value))"

subsection \<open>The line loop\<close>

datatype line_event = Blank | Header TableKind | Assign rstring Value

definition read_line :: "rstring \<Rightarrow> codec_error + line_event" where
  "read_line raw_line =
     and_then (strip_comment raw_line) (\<lambda>stripped.
       let line = trim stripped in
       if line = [] then Inr Blank
       else and_then (parse_header line) (\<lambda>header. case header of
           Some kind \<Rightarrow> Inr (Header kind)
         | None \<Rightarrow> map_ok (\<lambda>(key, value). Assign key value) (parse_assignment line)))"

type_synonym table_values = "(rstring, Value) btmap"

fun decode_lines ::
  "nat \<Rightarrow> table_values \<Rightarrow> Table list \<Rightarrow> Table option \<Rightarrow> rstring list \<Rightarrow>
   codec_error + (table_values \<times> Table list)" where
  "decode_lines line_no root tables current [] =
     Inr (root, tables @ (case current of Some table \<Rightarrow> [table] | None \<Rightarrow> []))"
| "decode_lines line_no root tables current (raw_line # rest) =
     and_then (read_line raw_line) (\<lambda>event. case event of
         Blank \<Rightarrow> decode_lines (Suc line_no) root tables current rest
       | Header kind \<Rightarrow>
           decode_lines (Suc line_no) root
             (tables @ (case current of Some table \<Rightarrow> [table] | None \<Rightarrow> []))
             (Some \<lparr>t_kind = kind, t_line = line_no, t_values = []\<rparr>) rest
       | Assign key value \<Rightarrow> (case current of
             Some table \<Rightarrow>
               if bt_contains (t_values table) key then Inl (DuplicateKey key line_no)
               else decode_lines (Suc line_no) root tables
                 (Some (table\<lparr>t_values := bt_insert key value (t_values table)\<rparr>)) rest
           | None \<Rightarrow>
               if bt_contains root key then Inl (DuplicateKey key line_no)
               else decode_lines (Suc line_no) (bt_insert key value root) tables None rest))"

subsection \<open>Reading tables\<close>

definition take_string :: "table_values \<Rightarrow> rstring \<Rightarrow> codec_error + (rstring option \<times> table_values)" where
  "take_string vals key = (case bt_get vals key of
       None \<Rightarrow> Inr (None, bt_remove key vals)
     | Some (VString v) \<Rightarrow> Inr (Some v, bt_remove key vals)
     | Some _ \<Rightarrow> Inl (NotAString key))"

definition take_integer :: "table_values \<Rightarrow> rstring \<Rightarrow> codec_error + (u64 option \<times> table_values)" where
  "take_integer vals key = (case bt_get vals key of
       None \<Rightarrow> Inr (None, bt_remove key vals)
     | Some (VInteger v) \<Rightarrow> Inr (Some v, bt_remove key vals)
     | Some _ \<Rightarrow> Inl (NotAnInteger key))"

definition take_strings ::
  "table_values \<Rightarrow> rstring \<Rightarrow> codec_error + (rstring list option \<times> table_values)" where
  "take_strings vals key = (case bt_get vals key of
       None \<Rightarrow> Inr (None, bt_remove key vals)
     | Some (VStrings v) \<Rightarrow> Inr (Some v, bt_remove key vals)
     | Some _ \<Rightarrow> Inl (NotStrings key))"

definition required_string ::
  "table_values \<Rightarrow> rstring \<Rightarrow> nat \<Rightarrow> codec_error + (rstring \<times> table_values)" where
  "required_string vals key line =
     and_then (take_string vals key) (\<lambda>(v, vals').
       and_then (ok_or (MissingKey key line) v) (\<lambda>s. Inr (s, vals')))"

definition reject_unknown :: "table_values \<Rightarrow> codec_error + unit" where
  "reject_unknown vals = (case vals of [] \<Rightarrow> Inr () | (key, _) # _ \<Rightarrow> Inl (UnknownKey key))"

fun unwrap_or :: "'a option \<Rightarrow> 'a \<Rightarrow> 'a" where
  "unwrap_or None d = d"
| "unwrap_or (Some x) d = x"

text \<open>\<open>u16::try_from(port).ok().filter(|value| *value != 0)\<close>\<close>

definition port_of_u64 :: "u64 \<Rightarrow> u16 option" where
  "port_of_u64 p = (if unat p < 2 ^ 16 \<and> unat p \<noteq> 0 then Some (of_nat (unat p)) else None)"

definition decode_host_table :: "(uchar \<Rightarrow> bool) \<Rightarrow> Table \<Rightarrow> codec_error + HostRecord" where
  "decode_host_table U table =
     and_then (required_string (t_values table) (lit ''alias'') (t_line table)) (\<lambda>(alias, vs).
     and_then (take_string vs (lit ''role'')) (\<lambda>(role_text, vs).
     and_then (map_err Model (transpose_map role_parse role_text)) (\<lambda>role.
     and_then (required_string vs (lit ''address'') (t_line table)) (\<lambda>(address, vs).
     and_then (required_string vs (lit ''user'') (t_line table)) (\<lambda>(user, vs).
     and_then (take_integer vs (lit ''port'')) (\<lambda>(port_value, vs).
     and_then (ok_or (InvalidPort (t_line table)) (port_of_u64 (unwrap_or port_value 22))) (\<lambda>port.
     and_then (take_string vs (lit ''identity_file'')) (\<lambda>(identity_file, vs).
     and_then (take_strings vs (lit ''groups'')) (\<lambda>(groups, vs).
     and_then (take_strings vs (lit ''tags'')) (\<lambda>(tags, vs).
     and_then (take_string vs (lit ''note'')) (\<lambda>(note, vs).
     and_then (take_string vs (lit ''host_key_policy'')) (\<lambda>(policy_text, vs).
     and_then (map_err Model (transpose_map policy_parse policy_text)) (\<lambda>policy.
     and_then (take_string vs (lit ''jump_chain'')) (\<lambda>(jump_chain, vs).
     and_then (take_string vs (lit ''os_type'')) (\<lambda>(os_text, vs).
     and_then (map_err Model (transpose_map os_parse os_text)) (\<lambda>os_type.
     and_then (take_integer vs (lit ''last_connected_unix'')) (\<lambda>(last_connected, vs).
     and_then (take_integer vs (lit ''connection_count'')) (\<lambda>(count_value, vs).
     and_then (take_string vs (lit ''last_auth_method'')) (\<lambda>(auth_text, vs).
     and_then (map_err Model (transpose_map auth_parse auth_text)) (\<lambda>auth.
     and_then (reject_unknown vs) (\<lambda>_.
     let record =
       \<lparr>h_alias = alias, h_role = unwrap_or role Both, h_address = address, h_port = port,
        h_user = user, h_identity_file = identity_file, h_groups = unwrap_or groups [],
        h_tags = unwrap_or tags [], h_note = note,
        h_host_key_policy = unwrap_or policy StoredHostKeyPolicy.AcceptNew,
        h_jump_chain = jump_chain, h_os_type = unwrap_or os_type OsAuto,
        h_stats = \<lparr>last_connected_unix = last_connected,
                   connection_count = unwrap_or count_value 0, last_auth_method = auth\<rparr>\<rparr>
     in and_then (map_err Model (host_validate U record)) (\<lambda>_. Inr record))))))))))))))))))))))"

definition decode_chain_table :: "Table \<Rightarrow> codec_error + rstring" where
  "decode_chain_table table =
     and_then (required_string (t_values table) (lit ''name'') (t_line table)) (\<lambda>(name, vs).
     and_then (reject_unknown vs) (\<lambda>_. Inr name))"

definition decode_inline :: "table_values \<Rightarrow> nat \<Rightarrow> codec_error + (JumpHop \<times> table_values)" where
  "decode_inline vs line =
     and_then (required_string vs (lit ''alias'') line) (\<lambda>(alias, vs).
     and_then (required_string vs (lit ''host'') line) (\<lambda>(host, vs).
     and_then (required_string vs (lit ''user'') line) (\<lambda>(user, vs).
     and_then (take_integer vs (lit ''port'')) (\<lambda>(port_value, vs).
     and_then (ok_or (InvalidPort line) (port_of_u64 (unwrap_or port_value 22))) (\<lambda>port.
     and_then (take_string vs (lit ''identity_file'')) (\<lambda>(identity_file, vs).
     and_then (take_string vs (lit ''host_key_policy'')) (\<lambda>(policy_text, vs).
     and_then (map_err Model (transpose_map policy_parse policy_text)) (\<lambda>policy.
     Inr (Inline \<lparr>j_alias = alias, j_host = host, j_port = port, j_user = user,
            j_identity_file = identity_file,
            j_host_key_policy = unwrap_or policy StoredHostKeyPolicy.AcceptNew\<rparr>, vs)))))))))"

definition decode_hop_table ::
  "(uchar \<Rightarrow> bool) \<Rightarrow> Table \<Rightarrow> codec_error + (rstring \<times> nat \<times> JumpHop)" where
  "decode_hop_table U table =
     and_then (required_string (t_values table) (lit ''chain'') (t_line table)) (\<lambda>(chain, vs).
     and_then (take_integer vs (lit ''index'')) (\<lambda>(index_value, vs).
     and_then (ok_or MissingIndex index_value) (\<lambda>index.
     and_then (required_string vs (lit ''kind'') (t_line table)) (\<lambda>(kind, vs).
     and_then
       (if kind = lit ''host'' then
          map_ok (\<lambda>(name, vs). (Host name, vs)) (required_string vs (lit ''name'') (t_line table))
        else if kind = lit ''openssh'' then
          map_ok (\<lambda>(name, vs). (OpenSshAlias name, vs))
            (required_string vs (lit ''name'') (t_line table))
        else if kind = lit ''inline'' then decode_inline vs (t_line table)
        else Inl (UnknownHopKind kind (t_line table))) (\<lambda>(hop, vs).
     and_then (reject_unknown vs) (\<lambda>_.
     and_then (map_err Model (hop_validate U hop)) (\<lambda>_. Inr (chain, unat index, hop))))))))"

type_synonym raw_hops = "(rstring, (nat \<times> JumpHop) list) btmap"

text \<open>\<open>raw_hops.entry(chain).or_default().push(x)\<close>\<close>

definition push_hop :: "rstring \<Rightarrow> nat \<times> JumpHop \<Rightarrow> raw_hops \<Rightarrow> raw_hops" where
  "push_hop chain x raw = bt_insert chain (unwrap_or (bt_get raw chain) [] @ [x]) raw"

fun decode_tables ::
  "(uchar \<Rightarrow> bool) \<Rightarrow> HostDatabase \<Rightarrow> raw_hops \<Rightarrow> rstring set \<Rightarrow> Table list \<Rightarrow>
   codec_error + (HostDatabase \<times> raw_hops)" where
  "decode_tables U db raw seen [] = Inr (db, raw)"
| "decode_tables U db raw seen (table # rest) = (case t_kind table of
       HostTable \<Rightarrow>
         and_then (decode_host_table U table) (\<lambda>record.
           if bt_contains (hosts db) (h_alias record) then Inl (DuplicateHost (h_alias record))
           else decode_tables U (db\<lparr>hosts := bt_insert (h_alias record) record (hosts db)\<rparr>)
                  raw seen rest)
     | ChainTable \<Rightarrow>
         and_then (decode_chain_table table) (\<lambda>name.
           if name \<in> seen then Inl (DuplicateChain name)
           else decode_tables U
                  (db\<lparr>chains := bt_insert name \<lparr>c_name = name, c_hops = []\<rparr> (chains db)\<rparr>)
                  raw (insert name seen) rest)
     | HopTable \<Rightarrow>
         and_then (decode_hop_table U table) (\<lambda>(chain, index, hop).
           decode_tables U db (push_hop chain (index, hop) raw) seen rest))"

fun check_indices :: "rstring \<Rightarrow> nat \<Rightarrow> (nat \<times> JumpHop) list \<Rightarrow> codec_error + JumpHop list" where
  "check_indices name expected [] = Inr []"
| "check_indices name expected ((actual, hop) # rest) =
     (if actual \<noteq> expected then Inl (HopIndexGap name expected actual)
      else map_ok (Cons hop) (check_indices name (Suc expected) rest))"

fun attach_hops :: "(rstring, JumpChain) btmap \<Rightarrow> raw_hops \<Rightarrow>
    codec_error + (rstring, JumpChain) btmap" where
  "attach_hops cs [] = Inr cs"
| "attach_hops cs ((name, hops) # rest) = (case bt_get cs name of
       None \<Rightarrow> Inl (HopWithoutChain name)
     | Some chain \<Rightarrow>
         and_then (check_indices name 0 (sort_key fst hops)) (\<lambda>ordered.
           attach_hops (bt_insert name (chain\<lparr>c_hops := c_hops chain @ ordered\<rparr>) cs) rest))"

definition decode :: "(uchar \<Rightarrow> bool) \<Rightarrow> rstring \<Rightarrow> codec_error + HostDatabase" where
  "decode U input =
     (if 4 * 1024 * 1024 < str_len input then Inl InputTooLarge else
      and_then (decode_lines 1 [] [] None (lines_of input)) (\<lambda>(root, tables).
      and_then (take_integer root (lit ''version'')) (\<lambda>(ver, root).
      and_then (ok_or MissingVersion ver) (\<lambda>ver.
      if ver \<noteq> ucast DATABASE_VERSION then Inl (BadVersion ver) else
      and_then (take_strings root (lit ''folders'')) (\<lambda>(fs, root).
      and_then (take_strings root (lit ''jump_folders'')) (\<lambda>(jfs, root).
      and_then (reject_unknown root) (\<lambda>_.
      and_then (decode_tables U
          (default_database\<lparr>folders := unwrap_or fs [], jump_folders := unwrap_or jfs []\<rparr>)
          [] {} tables) (\<lambda>(db, raw).
      and_then (attach_hops (chains db) raw) (\<lambda>cs.
      let database = db\<lparr>chains := cs\<rparr> in
      and_then (map_err Model (validate U database)) (\<lambda>_. Inr database))))))))))"

end
