(* ===== verification/Codec_Lines.thy ===== *)
theory Codec_Lines
  imports Host_Codec
begin

section \<open>One line of the host library format, printed and read back\<close>

text \<open>
  The printers of \<open>encode\<close> write \<open>key = value\<close> lines. \<open>print_kv\<close> is such a line, and the main
  lemma \<open>read_line_print_kv\<close> says that the line reader returns the key and the value for every
  key and value that the encoder can produce: \<open>storable\<close> texts contain no control character
  except the three the encoder escapes (tab, line feed, carriage return).
\<close>

definition storable :: "rstring \<Rightarrow> bool" where
  "storable s \<longleftrightarrow> (\<forall>c \<in> set s. is_control c \<longrightarrow> c = 9 \<or> c = 10 \<or> c = 13)"

fun value_ok :: "Value \<Rightarrow> bool" where
  "value_ok (VString s) = storable s"
| "value_ok (VInteger n) = True"
| "value_ok (VStrings vs) = (\<forall>v \<in> set vs. storable v)"

fun print_value :: "Value \<Rightarrow> rstring" where
  "print_value (VString s) = [34] @ escape s @ [34]"
| "print_value (VInteger n) = dec (unat n)"
| "print_value (VStrings vs) = lit ''['' @ write_items True vs @ lit '']''"

fun print_kv :: "rstring \<times> Value \<Rightarrow> rstring" where
  "print_kv (k, v) = k @ lit '' = '' @ print_value v"

definition key_ok :: "rstring \<Rightarrow> bool" where
  "key_ok k \<longleftrightarrow> k \<noteq> [] \<and> (\<forall>c \<in> set k. key_char c)"

declare lit_simps [simp]

subsection \<open>Escaping\<close>

lemma escape_simps [simp]: "escape [] = []" "escape (c # s) = escape_char c @ escape s"
  by (simp_all add: escape_def)

lemma unescape_escape:
  assumes "storable s"
  shows "unescape (escape s) = Inr s"
  using assms
proof (induction s)
  case (Cons c s)
  then have "storable s" and "is_control c \<Longrightarrow> c = 9 \<or> c = 10 \<or> c = 13"
    by (auto simp: storable_def)
  with Cons.IH show ?case by (auto simp: escape_char_def)
qed simp

lemma escape_no_line_end: "c \<in> set (escape s) \<Longrightarrow> c \<noteq> 10 \<and> c \<noteq> 13"
  by (induction s) (auto simp: escape_char_def split: if_splits)

lemma parse_string_quoted:
  assumes "storable s"
  shows "parse_string (34 # escape s @ [34]) = Inr s"
  using unescape_escape [OF assms]
  by (simp add: parse_string_def ends_with_def utf8_len_def butlast_append)

subsection \<open>The quote automaton over escaped text\<close>

lemma map_ok_comp: "map_ok f (map_ok g r) = map_ok (f \<circ> g) r"
  by (cases r) auto

lemma strip_comment_escape:
  "strip_comment_from True False (escape s @ t) =
     map_ok ((@) (escape s)) (strip_comment_from True False t)"
proof (induction s)
  case Nil
  show ?case by (cases "strip_comment_from True False t") auto
next
  case (Cons c s)
  then show ?case
    by (cases "strip_comment_from True False t") (auto simp: escape_char_def)
qed

lemma strip_comment_plain:
  "34 \<notin> set k \<Longrightarrow> 35 \<notin> set k \<Longrightarrow>
   strip_comment_from False False (k @ t) = map_ok ((@) k) (strip_comment_from False False t)"
proof (induction k)
  case Nil
  show ?case by (cases "strip_comment_from False False t") auto
next
  case (Cons c k)
  then show ?case by (cases "strip_comment_from False False t") auto
qed

lemma strip_comment_quoted:
  "strip_comment_from False False (34 # escape s @ 34 # t) =
     map_ok (\<lambda>r. 34 # escape s @ 34 # r) (strip_comment_from False False t)"
  by (cases "strip_comment_from False False t") (auto simp: strip_comment_escape)

lemma strip_comment_items:
  "strip_comment_from False False (write_items b vs @ t) =
     map_ok ((@) (write_items b vs)) (strip_comment_from False False t)"
proof (induction vs arbitrary: b)
  case Nil
  show ?case by (cases "strip_comment_from False False t") auto
next
  case (Cons v vs)
  then show ?case
    by (cases "strip_comment_from False False t")
      (auto simp: strip_comment_quoted strip_comment_escape)
qed

lemma strip_comment_value: "strip_comment_from False False (print_value v) = Inr (print_value v)"
proof (cases v)
  case (VString s)
  then show ?thesis using strip_comment_quoted [of s "[]"] by simp
next
  case (VInteger n)
  have "34 \<notin> set (dec (unat n))" "35 \<notin> set (dec (unat n))"
    by (auto dest!: dec_digits simp: is_ascii_digit_def)
  then show ?thesis using VInteger strip_comment_plain [of "dec (unat n)" "[]"] by simp
next
  case (VStrings vs)
  then show ?thesis by (simp add: strip_comment_items)
qed

lemma find_equals_plain:
  "34 \<notin> set k \<Longrightarrow> 61 \<notin> set k \<Longrightarrow> find_equals False False (k @ 61 # t) = Some (k, t)"
  by (induction k) auto

lemma split_array_escape:
  "split_array True False item (escape s @ t) = split_array True False (item @ escape s) t"
  by (induction s arbitrary: item) (auto simp: escape_char_def)

subsection \<open>Values\<close>

lemma trim_quoted: "pre = [] \<or> pre = [32] \<Longrightarrow> trim (pre @ 34 # s @ [34]) = 34 # s @ [34]"
proof -
  have "trim (34 # s @ [34]) = 34 # s @ [34]"
    by (rule trim_id) (auto simp: is_whitespace_def)
  then show "pre = [] \<or> pre = [32] \<Longrightarrow> ?thesis"
    by (auto simp: trim_def trim_start_matches_def is_whitespace_def)
qed

lemma split_array_items:
  assumes "storable v" and "\<forall>w \<in> set vs. storable w" and "pre = [] \<or> pre = [32]"
  shows "split_array False False pre (34 # escape v @ 34 # write_items False vs) = Inr (v # vs)"
  using assms
proof (induction vs arbitrary: v pre)
  case Nil
  then show ?case
    by (simp add: split_array_escape trim_quoted parse_string_quoted)
next
  case (Cons w vs)
  have "parse_string (trim (pre @ 34 # escape v @ [34])) = Inr v"
    using Cons.prems by (simp add: trim_quoted parse_string_quoted)
  moreover have "split_array False False [32] (34 # escape w @ 34 # write_items False vs) =
      Inr (w # vs)"
    using Cons.prems by (intro Cons.IH) auto
  ultimately show ?case by (simp add: split_array_escape)
qed

lemma write_items_last: "vs \<noteq> [] \<Longrightarrow> last (write_items b vs) = 34"
proof (induction vs arbitrary: b)
  case (Cons v vs)
  then show ?case by (cases vs) auto
qed simp

lemma write_items_Nil_iff [simp]: "write_items b vs = [] \<longleftrightarrow> vs = []"
  by (cases vs) auto

lemma trim_items: "trim (write_items True vs) = write_items True vs"
proof (cases vs)
  case (Cons v ws)
  show ?thesis
  proof (rule trim_id)
    show "\<not> is_whitespace (last (write_items True vs))"
      using write_items_last [of vs True] Cons by (simp add: is_whitespace_def)
  qed (auto simp: Cons is_whitespace_def)
qed simp

lemma parse_string_array_items:
  assumes "\<forall>v \<in> set vs. storable v"
  shows "parse_string_array (print_value (VStrings vs)) = Inr vs"
proof (cases vs)
  case Nil
  then show ?thesis by (simp add: parse_string_array_def ends_with_def)
next
  case (Cons v ws)
  have "split_array False False [] (write_items True vs) = Inr vs"
    using split_array_items [of v ws "[]"] assms Cons by simp
  with Cons show ?thesis
    by (simp add: parse_string_array_def ends_with_def butlast_append trim_items Let_def
        del: split_array.simps write_items.simps)
qed

lemma starts_with_singleton: "starts_with [c] s \<longleftrightarrow> s \<noteq> [] \<and> hd s = c"
  by (cases s) auto

lemma parse_value_print:
  assumes "value_ok v"
  shows "parse_value (print_value v) = Inr v"
proof (cases v)
  case (VString s)
  then show ?thesis using assms parse_string_quoted [of s] by (simp add: parse_value_def)
next
  case (VInteger n)
  have digits: "\<forall>b \<in> set (dec (unat n)). is_ascii_digit b" by (auto dest: dec_digits)
  then have "is_ascii_digit (hd (dec (unat n)))" by simp
  then have "hd (dec (unat n)) \<noteq> 34" "hd (dec (unat n)) \<noteq> 91"
    by (auto simp: is_ascii_digit_def)
  with VInteger digits show ?thesis
    by (simp add: parse_value_def starts_with_singleton parse_u64_dec)
next
  case (VStrings vs)
  then show ?thesis
    using assms parse_string_array_items [of vs] by (simp add: parse_value_def)
qed

lemma print_value_ends:
  "print_value v \<noteq> [] \<and> \<not> is_whitespace (hd (print_value v)) \<and>
   \<not> is_whitespace (last (print_value v))"
proof (cases v)
  case (VInteger n)
  have "is_ascii_digit (hd (dec (unat n)))" by (rule dec_digits [of _ "unat n"]) simp
  moreover have "is_ascii_digit (last (dec (unat n)))" by (rule dec_digits [of _ "unat n"]) simp
  ultimately show ?thesis using VInteger by (auto simp: is_ascii_digit_def is_whitespace_def)
qed (auto simp: is_whitespace_def)

lemma trim_print_value: "trim (32 # print_value v) = print_value v"
proof -
  have "trim (print_value v) = print_value v"
    using print_value_ends [of v] by (intro trim_id) auto
  then show ?thesis by (simp add: trim_def trim_start_matches_def is_whitespace_def)
qed

subsection \<open>Keys and whole lines\<close>

lemma key_charD: "key_char c \<Longrightarrow> \<not> is_whitespace c \<and> c \<notin> {10, 13, 34, 35, 61, 91}"
  by (auto simp: key_char_def char_class_defs)

lemma key_ok_facts:
  assumes "key_ok k"
  shows "34 \<notin> set k" "35 \<notin> set k" "61 \<notin> set k" "\<not> is_whitespace (hd k)" "hd k \<noteq> 91"
    "\<not> is_whitespace (last k)"
  using assms key_charD by (fastforce simp: key_ok_def)+

lemma trim_key: "key_ok k \<Longrightarrow> trim (k @ [32]) = k"
proof -
  assume k: "key_ok k"
  then have "trim k = k" using key_ok_facts [OF k] by (intro trim_id) (auto simp: key_ok_def)
  moreover have "k \<noteq> []" using k by (simp add: key_ok_def)
  then have "trim_start (k @ [32]) = trim_start k @ [32]"
    using key_ok_facts(4) [OF k] by (cases k) (auto simp: trim_start_matches_def)
  ultimately show ?thesis by (simp add: trim_def trim_end_matches_def is_whitespace_def)
qed

lemma parse_assignment_print:
  assumes "key_ok k" and "value_ok v"
  shows "parse_assignment (print_kv (k, v)) = Inr (k, v)"
proof -
  have "find_equals False False ((k @ [32]) @ 61 # 32 # print_value v) =
      Some (k @ [32], 32 # print_value v)"
    using key_ok_facts [OF assms(1)] by (intro find_equals_plain) auto
  then show ?thesis
    using assms print_value_ends [of v]
    by (simp add: parse_assignment_def trim_key trim_print_value parse_value_print key_ok_def)
qed

lemma strip_comment_print:
  assumes "key_ok k"
  shows "strip_comment (print_kv (k, v)) = Inr (print_kv (k, v))"
proof -
  have "strip_comment_from False False ((k @ lit '' = '') @ print_value v) =
      Inr ((k @ lit '' = '') @ print_value v)"
    using key_ok_facts [OF assms]
    by (subst strip_comment_plain) (auto simp: strip_comment_value)
  then show ?thesis by (simp add: strip_comment_def)
qed

lemma read_line_print_kv:
  assumes "key_ok k" and "value_ok v"
  shows "read_line (print_kv (k, v)) = Inr (Assign k v)"
proof -
  let ?line = "print_kv (k, v)"
  have ne: "?line \<noteq> []" and hd: "hd ?line = hd k" and last: "last ?line = last (print_value v)"
    using assms print_value_ends [of v] by (auto simp: key_ok_def)
  have "trim ?line = ?line"
    using ne hd last key_ok_facts [OF assms(1)] print_value_ends [of v] by (intro trim_id) auto
  moreover have "parse_header ?line = Inr None"
    using ne hd key_ok_facts(5) [OF assms(1)]
    by (simp add: parse_header_def starts_with_singleton)
  ultimately show ?thesis
    using ne parse_assignment_print [OF assms] strip_comment_print [OF assms(1), of v]
    by (simp add: read_line_def del: print_kv.simps)
qed

lemma print_kv_one_line:
  assumes "key_ok k"
  shows "10 \<notin> set (print_kv (k, v)) \<and> 13 \<notin> set (print_kv (k, v))"
proof -
  have k: "10 \<notin> set k" "13 \<notin> set k" using assms key_charD by (auto simp: key_ok_def)
  have items: "10 \<notin> set (write_items b vs) \<and> 13 \<notin> set (write_items b vs)" for b vs
    by (induction vs arbitrary: b) (auto dest: escape_no_line_end)
  have "10 \<notin> set (print_value v) \<and> 13 \<notin> set (print_value v)"
    using items by (cases v) (auto dest: escape_no_line_end dec_digits simp: is_ascii_digit_def)
  with k show ?thesis by simp
qed

declare lit_simps [simp del]

end
