(* ===== verification/Codec_Roundtrip.thy ===== *)
theory Codec_Roundtrip
  imports Codec_Lines
begin

section \<open>The host library survives storage\<close>

text \<open>
  \<open>encode\<close> writes a sequence of blocks of \<open>key = value\<close> lines; \<open>decode\<close> reads them back into
  tables with the same entries, and the tables into the same records. The lemmas follow those
  stages: the text as lines (\<open>encode_lines\<close>), the lines as tables (\<open>decode_lines_blocks\<close>), one host
  or hop table (\<open>decode_host_table_entries\<close>, \<open>decode_hop_table_entries\<close>), all tables, and the
  reassembly of the chains.
\<close>

type_synonym entries = "(rstring \<times> Value) list"

subsection \<open>What the encoder writes, as entries\<close>

definition opt_entry :: "rstring \<Rightarrow> ('a \<Rightarrow> Value) \<Rightarrow> 'a option \<Rightarrow> entries" where
  "opt_entry k f opt = (case opt of Some x \<Rightarrow> [(k, f x)] | None \<Rightarrow> [])"

definition host_entries :: "HostRecord \<Rightarrow> entries" where
  "host_entries host =
     [(lit ''alias'', VString (h_alias host))]
     @ (if h_role host \<noteq> Both then [(lit ''role'', VString (role_as_str (h_role host)))] else [])
     @ [(lit ''address'', VString (h_address host)),
        (lit ''port'', VInteger (of_nat (unat (h_port host)))),
        (lit ''user'', VString (h_user host))]
     @ opt_entry (lit ''identity_file'') VString (h_identity_file host)
     @ [(lit ''groups'', VStrings (h_groups host)), (lit ''tags'', VStrings (h_tags host))]
     @ opt_entry (lit ''note'') VString (h_note host)
     @ [(lit ''host_key_policy'', VString (policy_as_str (h_host_key_policy host)))]
     @ (if h_os_type host \<noteq> OsAuto then [(lit ''os_type'', VString (os_as_str (h_os_type host)))]
        else [])
     @ opt_entry (lit ''jump_chain'') VString (h_jump_chain host)
     @ opt_entry (lit ''last_connected_unix'') VInteger (last_connected_unix (h_stats host))
     @ [(lit ''connection_count'', VInteger (connection_count (h_stats host)))]
     @ opt_entry (lit ''last_auth_method'') (\<lambda>m. VString (auth_as_str m))
         (last_auth_method (h_stats host))"

fun hop_body_entries :: "JumpHop \<Rightarrow> entries" where
  "hop_body_entries (Host alias) =
     [(lit ''kind'', VString (lit ''host'')), (lit ''name'', VString alias)]"
| "hop_body_entries (OpenSshAlias alias) =
     [(lit ''kind'', VString (lit ''openssh'')), (lit ''name'', VString alias)]"
| "hop_body_entries (Inline jump) =
     [(lit ''kind'', VString (lit ''inline'')), (lit ''alias'', VString (j_alias jump)),
      (lit ''host'', VString (j_host jump)),
      (lit ''port'', VInteger (of_nat (unat (j_port jump)))),
      (lit ''user'', VString (j_user jump))]
     @ opt_entry (lit ''identity_file'') VString (j_identity_file jump)
     @ [(lit ''host_key_policy'', VString (policy_as_str (j_host_key_policy jump)))]"

definition hop_entries :: "rstring \<Rightarrow> nat \<Rightarrow> JumpHop \<Rightarrow> entries" where
  "hop_entries chain index hop =
     [(lit ''chain'', VString chain), (lit ''index'', VInteger (of_nat index))]
     @ hop_body_entries hop"

fun header_text :: "TableKind \<Rightarrow> rstring" where
  "header_text HostTable = lit ''[[host]]''"
| "header_text ChainTable = lit ''[[chain]]''"
| "header_text HopTable = lit ''[[hop]]''"

fun block_lines :: "TableKind \<times> entries \<Rightarrow> rstring list" where
  "block_lines (kind, es) = [] # header_text kind # map print_kv es"

fun hop_blocks :: "rstring \<Rightarrow> nat \<Rightarrow> JumpHop list \<Rightarrow> (TableKind \<times> entries) list" where
  "hop_blocks chain index [] = []"
| "hop_blocks chain index (hop # rest) =
     (HopTable, hop_entries chain index hop) # hop_blocks chain (Suc index) rest"

definition chain_blocks :: "JumpChain \<Rightarrow> (TableKind \<times> entries) list" where
  "chain_blocks chain =
     (ChainTable, [(lit ''name'', VString (c_name chain))])
     # hop_blocks (c_name chain) 0 (c_hops chain)"

definition db_blocks :: "HostDatabase \<Rightarrow> (TableKind \<times> entries) list" where
  "db_blocks db =
     map (\<lambda>h. (HostTable, host_entries h)) (bt_values (hosts db))
     @ concat (map chain_blocks (bt_values (chains db)))"

definition root_entries :: "HostDatabase \<Rightarrow> entries" where
  "root_entries db =
     [(lit ''version'', VInteger (of_nat (unat (version db))))]
     @ (if folders db \<noteq> [] then [(lit ''folders'', VStrings (folders db))] else [])
     @ (if jump_folders db \<noteq> [] then [(lit ''jump_folders'', VStrings (jump_folders db))] else [])"

definition comment_line :: rstring where
  "comment_line = lit ''# Kaduox-SSH host library. Secrets are intentionally not stored here.''"

lemma write_string_kv: "write_string k v = unlines [print_kv (k, VString v)]"
  by (simp add: write_string_def)

lemma write_strings_kv: "write_strings k vs = unlines [print_kv (k, VStrings vs)]"
  by (simp add: write_strings_def lit_simps)

lemma write_number_kv: "write_number k (unat w) = unlines [print_kv (k, VInteger w)]"
  by (simp add: write_number_def)

lemma write_number_kv_nat:
  "n < 2 ^ 64 \<Longrightarrow> write_number k n = unlines [print_kv (k, VInteger (of_nat n))]"
  by (simp add: write_number_def unat_of_nat)

lemma unat_u16_less_u64: "unat (p :: u16) < 2 ^ 64"
  using unat_less_u16 [of p] by simp

lemma unat_u32_less_u64: "unat (p :: u32) < 2 ^ 64"
  using unsigned_less [of p, where 'a = nat] by simp

lemma write_opt_entry:
  "write_opt (\<lambda>x. print_kv (k, f x) @ [10]) opt = unlines (map print_kv (opt_entry k f opt))"
  "write_opt (write_string k) o' = unlines (map print_kv (opt_entry k VString o'))"
  by (simp_all add: write_opt_def opt_entry_def write_string_kv split: option.splits)

lemmas write_kv =
  write_string_kv write_strings_kv write_number_kv write_number_kv_nat [OF unat_u16_less_u64]
  write_number_kv_nat [OF unat_u32_less_u64]
  write_opt_entry

lemma encode_host_lines: "encode_host h = unlines (block_lines (HostTable, host_entries h))"
  unfolding encode_host_def host_entries_def by (simp add: write_kv del: print_kv.simps)

lemma encode_hop_body_lines:
  "encode_hop_body hop = unlines (map print_kv (hop_body_entries hop))"
  by (cases hop) (simp_all add: write_kv del: print_kv.simps)

lemma encode_hops_lines:
  "index + length hops \<le> 2 ^ 64 \<Longrightarrow>
   encode_hops chain index hops = unlines (concat (map block_lines (hop_blocks chain index hops)))"
proof (induction hops arbitrary: index)
  case (Cons hop hops)
  then show ?case
    by (simp add: write_kv write_number_kv_nat encode_hop_body_lines hop_entries_def
        del: print_kv.simps)
qed simp

lemma encode_chain_lines:
  assumes "length (c_hops c) \<le> 8"
  shows "encode_chain c = unlines (concat (map block_lines (chain_blocks c)))"
  using encode_hops_lines [of 0 "c_hops c"] assms
  by (simp add: encode_chain_def chain_blocks_def write_kv del: print_kv.simps)

definition encode_lines :: "HostDatabase \<Rightarrow> rstring list" where
  "encode_lines db =
     comment_line # map print_kv (root_entries db) @ concat (map block_lines (db_blocks db))"

lemma concat_unlines: "(\<And>x. x \<in> set xs \<Longrightarrow> f x = unlines (g x)) \<Longrightarrow>
   concat (map f xs) = unlines (concat (map g xs))"
  by (induction xs) auto

lemma concat_map_concat: "concat (map f (concat xss)) = concat (map (\<lambda>xs. concat (map f xs)) xss)"
  by (induction xss) auto

lemma encode_eq_lines:
  assumes "encode U db = Inr text"
  shows "text = unlines (encode_lines db)"
proof -
  from assms have wf: "db_wf U db"
    by (auto simp: encode_def and_then_eq_Inr validate_ok)
  have "length (c_hops c) \<le> 8" if "c \<in> set (bt_values (chains db))" for c
    using wf that by (auto simp: db_wf_def chain_wf_def)
  then have chains: "concat (map encode_chain (bt_values (chains db))) =
      unlines (concat (map (\<lambda>c. concat (map block_lines (chain_blocks c))) (bt_values (chains db))))"
    by (intro concat_unlines) (rule encode_chain_lines)
  have hosts: "concat (map encode_host (bt_values (hosts db))) =
      unlines (concat (map (\<lambda>h. block_lines (HostTable, host_entries h)) (bt_values (hosts db))))"
    by (intro concat_unlines encode_host_lines)
  from assms show ?thesis
    by (auto simp: encode_def and_then_eq_Inr encode_lines_def comment_line_def root_entries_def
        db_blocks_def concat_map_concat write_kv hosts [unfolded map_map comp_def]
        chains [unfolded map_map comp_def] comp_def
        simp del: print_kv.simps block_lines.simps)
qed

subsection \<open>Lines back to tables\<close>

definition values_of :: "entries \<Rightarrow> table_values \<Rightarrow> table_values" where
  "values_of es m = fold (\<lambda>(k, v). bt_insert k v) es m"

definition entries_ok :: "entries \<Rightarrow> bool" where
  "entries_ok es \<longleftrightarrow> distinct (map fst es) \<and> (\<forall>(k, v) \<in> set es. key_ok k \<and> value_ok v)"

lemma values_of_simps [simp]:
  "values_of [] m = m" "values_of ((k, v) # es) m = values_of es (bt_insert k v m)"
  by (simp_all add: values_of_def)

lemma bt_ok_values_of: "bt_ok m \<Longrightarrow> bt_ok (values_of es m)"
  by (induction es arbitrary: m) (auto simp: bt.ok_put)

lemma bt_get_values_of:
  "bt_ok m \<Longrightarrow> distinct (map fst es) \<Longrightarrow> bt_get (values_of es m) = bt_get m ++ map_of es"
proof (induction es arbitrary: m)
  case (Cons e es)
  obtain k v where e: "e = (k, v)" by (cases e)
  with Cons have "bt_get (values_of (e # es) m) = ((bt_get m)(k \<mapsto> v)) ++ map_of es"
    by (simp add: bt.ok_put bt.get_put)
  moreover have "map_of es k = None" using Cons.prems e by (simp add: map_of_eq_None_iff)
  ultimately show ?case by (auto simp: e fun_eq_iff map_add_def split: option.splits)
qed simp

lemma read_line_blank [simp]: "read_line [] = Inr Blank"
  by (simp add: read_line_def strip_comment_def)

lemma read_line_comment: "read_line comment_line = Inr Blank"
  by (simp add: read_line_def strip_comment_def comment_line_def lit_simps)

lemma read_line_header [simp]: "read_line (header_text kind) = Inr (Header kind)"
  by (cases kind)
    (simp_all add: read_line_def strip_comment_def parse_header_def trim_def lit_simps
      trim_start_matches_def trim_end_matches_def char_class_defs)

lemma decode_lines_entries:
  assumes "entries_ok es" and "bt_ok (t_values t)"
    and "\<forall>k \<in> fst ` set es. bt_get (t_values t) k = None"
  shows "decode_lines n root tables (Some t) (map print_kv es @ rest) =
    decode_lines (n + length es) root tables
      (Some (t\<lparr>t_values := values_of es (t_values t)\<rparr>)) rest"
  using assms
proof (induction es arbitrary: n t)
  case (Cons e es)
  obtain k v where e: "e = (k, v)" by (cases e)
  let ?t = "t\<lparr>t_values := bt_insert k v (t_values t)\<rparr>"
  have "read_line (print_kv (k, v)) = Inr (Assign k v)"
    using Cons.prems e by (intro read_line_print_kv) (auto simp: entries_ok_def)
  moreover have "decode_lines (Suc n) root tables (Some ?t) (map print_kv es @ rest) =
      decode_lines (Suc n + length es) root tables
        (Some (?t\<lparr>t_values := values_of es (t_values ?t)\<rparr>)) rest"
    using Cons.prems e by (intro Cons.IH) (auto simp: entries_ok_def bt.ok_put bt.get_put)
  ultimately show ?case using Cons.prems e by (simp del: print_kv.simps)
qed simp

lemma decode_lines_root:
  assumes "entries_ok es" and "bt_ok root" and "\<forall>k \<in> fst ` set es. bt_get root k = None"
  shows "decode_lines n root tables None (map print_kv es @ rest) =
    decode_lines (n + length es) (values_of es root) tables None rest"
  using assms
proof (induction es arbitrary: n root)
  case (Cons e es)
  obtain k v where e: "e = (k, v)" by (cases e)
  have "read_line (print_kv (k, v)) = Inr (Assign k v)"
    using Cons.prems e by (intro read_line_print_kv) (auto simp: entries_ok_def)
  moreover have "decode_lines (Suc n) (bt_insert k v root) tables None (map print_kv es @ rest) =
      decode_lines (Suc n + length es) (values_of es (bt_insert k v root)) tables None rest"
    using Cons.prems e by (intro Cons.IH) (auto simp: entries_ok_def bt.ok_put bt.get_put)
  ultimately show ?case using Cons.prems e by (simp del: print_kv.simps)
qed simp

fun table_matches :: "Table \<Rightarrow> TableKind \<times> entries \<Rightarrow> bool" where
  "table_matches t (kind, es) \<longleftrightarrow> t_kind t = kind \<and> t_values t = values_of es []"

lemma decode_lines_blocks:
  assumes "\<forall>(kind, es) \<in> set bs. entries_ok es"
  shows "\<exists>ts. decode_lines n root tables current (concat (map block_lines bs)) =
      Inr (root, tables @ (case current of Some t \<Rightarrow> [t] | None \<Rightarrow> []) @ ts) \<and>
      list_all2 table_matches ts bs"
  using assms
proof (induction bs arbitrary: n tables current)
  case Nil
  then show ?case by simp
next
  case (Cons b bs)
  obtain kind es where b: "b = (kind, es)" by (cases b)
  let ?c = "case current of Some t \<Rightarrow> [t] | None \<Rightarrow> []"
  let ?t = "\<lparr>t_kind = kind, t_line = Suc n, t_values = values_of es []\<rparr>"
  from Cons.IH [of "Suc (Suc n) + length es" "tables @ ?c" "Some ?t"] Cons.prems
  obtain ts where ts:
    "decode_lines (Suc (Suc n) + length es) root (tables @ ?c) (Some ?t)
       (concat (map block_lines bs)) = Inr (root, (tables @ ?c) @ [?t] @ ts)"
    "list_all2 table_matches ts bs"
    by auto
  have "entries_ok es" using Cons.prems b by simp
  then have "decode_lines n root tables current (concat (map block_lines (b # bs))) =
      Inr (root, tables @ ?c @ (?t # ts))"
    using ts(1) by (simp add: b decode_lines_entries bt_get_def del: print_kv.simps)
  with ts(2) b show ?case by (intro exI [of _ "?t # ts"]) simp
qed

subsection \<open>Tables back to records\<close>

lemma bt_get_remove [simp]: "bt_get (bt_remove k m) = (bt_get m)(k := None)"
  by (simp add: bt_get_def map_of_bt_remove)

lemma opt_entry_simps [simp]: "opt_entry k f None = []" "opt_entry k f (Some x) = [(k, f x)]"
  by (simp_all add: opt_entry_def)

lemma fst_set_opt_entry: "fst ` set (opt_entry k f opt) \<subseteq> {k}"
  by (cases opt) auto

lemma map_of_opt_entry:
  "map_of (opt_entry k f opt) k' = (if k' = k then map_option f opt else None)"
  by (cases opt) auto

lemma reject_unknown_ok: "reject_unknown vals = Inr () \<longleftrightarrow> vals = []"
  by (auto simp: reject_unknown_def split: list.splits)

lemma bt_empty_if_get: "bt_get m = Map.empty \<Longrightarrow> m = []"
  by (simp add: bt_get_def)

lemma port_of_u64_ucast:
  assumes "p \<noteq> 0"
  shows "port_of_u64 (of_nat (unat (p :: u16))) = Some p"
proof -
  have "unat (of_nat (unat p) :: u64) = unat p"
    by (subst unat_of_nat) (rule mod_less, use unat_u16_less_u64 [of p] in simp)
  then show ?thesis
    using assms unat_less_u16 [of p] unfolding port_of_u64_def by (simp only:) (simp add: unat_eq_zero)
qed

lemma host_entries_get:
  "map_of (host_entries h) (lit ''alias'') = Some (VString (h_alias h))"
  "map_of (host_entries h) (lit ''role'') =
     map_option VString (if h_role h = Both then None else Some (role_as_str (h_role h)))"
  "map_of (host_entries h) (lit ''address'') = Some (VString (h_address h))"
  "map_of (host_entries h) (lit ''port'') =
     map_option VInteger (Some (of_nat (unat (h_port h))))"
  "map_of (host_entries h) (lit ''user'') = Some (VString (h_user h))"
  "map_of (host_entries h) (lit ''identity_file'') = map_option VString (h_identity_file h)"
  "map_of (host_entries h) (lit ''groups'') = map_option VStrings (Some (h_groups h))"
  "map_of (host_entries h) (lit ''tags'') = map_option VStrings (Some (h_tags h))"
  "map_of (host_entries h) (lit ''note'') = map_option VString (h_note h)"
  "map_of (host_entries h) (lit ''host_key_policy'') =
     map_option VString (Some (policy_as_str (h_host_key_policy h)))"
  "map_of (host_entries h) (lit ''os_type'') =
     map_option VString (if h_os_type h = OsAuto then None else Some (os_as_str (h_os_type h)))"
  "map_of (host_entries h) (lit ''jump_chain'') = map_option VString (h_jump_chain h)"
  "map_of (host_entries h) (lit ''last_connected_unix'') =
     map_option VInteger (last_connected_unix (h_stats h))"
  "map_of (host_entries h) (lit ''connection_count'') =
     map_option VInteger (Some (connection_count (h_stats h)))"
  "map_of (host_entries h) (lit ''last_auth_method'') =
     map_option VString (map_option auth_as_str (last_auth_method (h_stats h)))"
  by (simp_all add: host_entries_def map_of_append map_add_def map_of_opt_entry option.map_comp
      comp_def split: option.splits)

text \<open>
  Reading a table removes its keys one after the other; \<open>removed ks vs\<close> is the table after the
  keys \<open>ks\<close> have been taken.
\<close>

definition removed :: "rstring list \<Rightarrow> table_values \<Rightarrow> table_values" where
  "removed ks vs = fold bt_remove ks vs"

lemma removed_filter: "removed ks vs = filter (\<lambda>kv. fst kv \<notin> set ks) vs"
proof (induction ks arbitrary: vs)
  case (Cons k ks)
  then show ?case by (simp add: removed_def bt_remove_def)
qed (simp add: removed_def)

lemma removed_snoc: "bt_remove k (removed ks vs) = removed (ks @ [k]) vs"
  by (simp add: removed_def)

lemma removed_get: "k \<notin> set ks \<Longrightarrow> bt_get (removed ks vs) k = bt_get vs k"
  by (induction ks arbitrary: vs) (auto simp: removed_def)

lemma removed_all: "fst ` set vs \<subseteq> set ks \<Longrightarrow> removed ks vs = []"
  by (auto simp: removed_filter filter_empty_conv)

lemma take_string_removed:
  "k \<notin> set ks \<Longrightarrow> bt_get vs k = map_option VString opt \<Longrightarrow>
   take_string (removed ks vs) k = Inr (opt, removed (ks @ [k]) vs)"
  by (cases opt) (simp_all add: take_string_def removed_get removed_snoc)

lemma take_integer_removed:
  "k \<notin> set ks \<Longrightarrow> bt_get vs k = map_option VInteger opt \<Longrightarrow>
   take_integer (removed ks vs) k = Inr (opt, removed (ks @ [k]) vs)"
  by (cases opt) (simp_all add: take_integer_def removed_get removed_snoc)

lemma take_strings_removed:
  "k \<notin> set ks \<Longrightarrow> bt_get vs k = map_option VStrings opt \<Longrightarrow>
   take_strings (removed ks vs) k = Inr (opt, removed (ks @ [k]) vs)"
  by (cases opt) (simp_all add: take_strings_def removed_get removed_snoc)

lemma required_string_removed:
  "k \<notin> set ks \<Longrightarrow> bt_get vs k = Some (VString s) \<Longrightarrow>
   required_string (removed ks vs) k line = Inr (s, removed (ks @ [k]) vs)"
  using take_string_removed [of k ks vs "Some s"] by (simp add: required_string_def)

lemma transpose_map_roundtrip:
  "(\<And>y. parse (as_str y) = Inr y) \<Longrightarrow> transpose_map parse (map_option as_str opt) = Inr opt"
  by (cases opt) auto

lemma and_then_weak_cong: "r = r' \<Longrightarrow> and_then r f = and_then r' f"
  by simp

lemmas take_rules =
  required_string_removed take_string_removed take_integer_removed take_strings_removed

lemma opt_entry_keys: "k \<in> K \<Longrightarrow> fst ` set (opt_entry k f opt) \<subseteq> K"
  using fst_set_opt_entry [of k f opt] by blast

lemma mem_opt_entry: "k' \<in> fst ` set (opt_entry k f opt) \<longleftrightarrow> k' = k \<and> opt \<noteq> None"
  by (cases opt) auto

lemma distinct_opt_entry: "distinct (map fst (opt_entry k f opt))"
  by (cases opt) auto

lemma disjoint_opt_entry: "k \<notin> A \<Longrightarrow> fst ` set (opt_entry k f opt) \<inter> A = {}"
  by (cases opt) auto

lemma fst_set_values_of: "fst ` set (values_of es m) = fst ` set es \<union> fst ` set m"
proof (induction es arbitrary: m)
  case (Cons e es)
  then show ?case by (cases e) (simp add: fst_set_bt_insert)
qed simp

definition host_keys :: "rstring list" where
  "host_keys = [lit ''alias'', lit ''role'', lit ''address'', lit ''user'', lit ''port'',
     lit ''identity_file'', lit ''groups'', lit ''tags'', lit ''note'', lit ''host_key_policy'',
     lit ''jump_chain'', lit ''os_type'', lit ''last_connected_unix'', lit ''connection_count'',
     lit ''last_auth_method'']"

lemma host_entries_keys: "fst ` set (host_entries h) \<subseteq> set host_keys"
  unfolding host_entries_def set_append image_Un
  by (intro Un_least; (rule opt_entry_keys)?) (auto simp: host_keys_def)

lemma host_entries_distinct: "distinct (map fst (host_entries h))"
  by (simp add: host_entries_def distinct_opt_entry mem_opt_entry disjoint_opt_entry)


lemma transpose_default:
  "(\<And>y. parse (as_str y) = Inr y) \<Longrightarrow>
   transpose_map parse (if x = d then None else Some (as_str x)) =
     Inr (if x = d then None else Some x)"
  by simp

lemma unwrap_default: "unwrap_or (if x = d then None else Some x) d = x"
  by simp

lemma decode_host_table_entries:
  assumes "t_values t = values_of (host_entries h) []" and "host_wf U h"
  shows "decode_host_table U t = Inr h"
proof -
  let ?vs = "values_of (host_entries h) []"
  have get: "bt_get ?vs = map_of (host_entries h)"
    by (simp add: bt_get_values_of host_entries_distinct bt.get_empty)
  have rest: "reject_unknown (removed host_keys ?vs) = Inr ()"
    using host_entries_keys by (simp add: removed_all fst_set_values_of reject_unknown_def)
  have "h_port h \<noteq> 0" using assms(2) by (simp add: host_wf_def)
  note port = port_of_u64_ucast [OF this]
  have start: "t_values t = removed [] ?vs" using assms(1) by (simp add: removed_def)
  note look = host_entries_get [of h, folded get]
  note take =
    look(1,3,5) [THEN required_string_removed [rotated]]
    look(2,6,9,10,11,12,15) [THEN take_string_removed [rotated]]
    look(4,13,14) [THEN take_integer_removed [rotated]]
    look(7,8) [THEN take_strings_removed [rotated]]
  have full: "\<lparr>h_alias = h_alias h, h_role = h_role h, h_address = h_address h,
      h_port = h_port h, h_user = h_user h, h_identity_file = h_identity_file h,
      h_groups = h_groups h, h_tags = h_tags h, h_note = h_note h,
      h_host_key_policy = h_host_key_policy h, h_jump_chain = h_jump_chain h,
      h_os_type = h_os_type h,
      h_stats = \<lparr>last_connected_unix = last_connected_unix (h_stats h),
        connection_count = connection_count (h_stats h),
        last_auth_method = last_auth_method (h_stats h)\<rparr>\<rparr> = h"
    by simp
  have valid: "host_validate U h = Inr ()" using assms(2) by simp
  show ?thesis
    using rest
    by (simp add: decode_host_table_def start take port transpose_default unwrap_default
        transpose_map_roundtrip host_keys_def full valid del: of_nat_unat
        cong: and_then_weak_cong if_weak_cong)
qed

subsection \<open>Hop and chain tables\<close>

definition hop_keys :: "rstring list" where
  "hop_keys = [lit ''chain'', lit ''index'', lit ''kind'', lit ''name'']"

definition inline_keys :: "rstring list" where
  "inline_keys = [lit ''chain'', lit ''index'', lit ''kind'', lit ''alias'', lit ''host'',
     lit ''user'', lit ''port'', lit ''identity_file'', lit ''host_key_policy'']"

lemma hop_entries_distinct: "distinct (map fst (hop_entries c i hop))"
  by (cases hop) (simp_all add: hop_entries_def opt_entry_def split: option.splits)

lemma hop_entries_get:
  "map_of (hop_entries c i hop) (lit ''chain'') = Some (VString c)"
  "map_of (hop_entries c i hop) (lit ''index'') = map_option VInteger (Some (of_nat i))"
  "map_of (hop_entries c i (Host a)) (lit ''kind'') = Some (VString (lit ''host''))"
  "map_of (hop_entries c i (Host a)) (lit ''name'') = Some (VString a)"
  "map_of (hop_entries c i (OpenSshAlias a)) (lit ''kind'') = Some (VString (lit ''openssh''))"
  "map_of (hop_entries c i (OpenSshAlias a)) (lit ''name'') = Some (VString a)"
  by (simp_all add: hop_entries_def)

lemma inline_entries_get:
  "map_of (hop_entries c i (Inline j)) (lit ''kind'') = Some (VString (lit ''inline''))"
  "map_of (hop_entries c i (Inline j)) (lit ''alias'') = Some (VString (j_alias j))"
  "map_of (hop_entries c i (Inline j)) (lit ''host'') = Some (VString (j_host j))"
  "map_of (hop_entries c i (Inline j)) (lit ''user'') = Some (VString (j_user j))"
  "map_of (hop_entries c i (Inline j)) (lit ''port'') =
     map_option VInteger (Some (of_nat (unat (j_port j))))"
  "map_of (hop_entries c i (Inline j)) (lit ''identity_file'') =
     map_option VString (j_identity_file j)"
  "map_of (hop_entries c i (Inline j)) (lit ''host_key_policy'') =
     map_option VString (Some (policy_as_str (j_host_key_policy j)))"
  by (simp_all add: hop_entries_def map_of_append map_add_def map_of_opt_entry
      split: option.splits)

lemma hop_entries_keys:
  "fst ` set (hop_entries c i (Host a)) \<subseteq> set hop_keys"
  "fst ` set (hop_entries c i (OpenSshAlias a)) \<subseteq> set hop_keys"
  "fst ` set (hop_entries c i (Inline j)) \<subseteq> set inline_keys"
  by (auto simp: hop_entries_def hop_keys_def inline_keys_def opt_entry_def split: option.splits)

lemma decode_hop_table_entries:
  assumes "t_values t = values_of (hop_entries c i hop) []" and "hop_wf U hop" and "i < 2 ^ 64"
  shows "decode_hop_table U t = Inr (c, i, hop)"
proof -
  let ?vs = "values_of (hop_entries c i hop) []"
  have get: "bt_get ?vs = map_of (hop_entries c i hop)"
    by (simp add: bt_get_values_of hop_entries_distinct bt.get_empty)
  have start: "t_values t = removed [] ?vs" using assms(1) by (simp add: removed_def)
  note look = hop_entries_get(1,2) [of c i hop, folded get]
  note take = look(1) [THEN required_string_removed [rotated]]
    look(2) [THEN take_integer_removed [rotated]]
  have index: "unat (of_nat i :: u64) = i"
    using assms(3) by (subst unat_of_nat) simp
  have valid: "hop_validate U hop = Inr ()" using assms(2) by simp
  have rest: "fst ` set (hop_entries c i hop) \<subseteq> set ks \<Longrightarrow> reject_unknown (removed ks ?vs) = Inr ()"
    for ks by (simp add: removed_all fst_set_values_of reject_unknown_def)
  note eval = decode_hop_table_def start take index valid
  show ?thesis
  proof (cases hop)
    case (Host a)
    note own = hop_entries_get(3,4) [of c i a, folded Host, folded get,
        THEN required_string_removed [rotated]]
    show ?thesis
      using rest [of hop_keys] hop_entries_keys(1) [of c i a]
      by (simp add: eval own Host [symmetric] hop_keys_def cong: and_then_weak_cong)
  next
    case (OpenSshAlias a)
    note own = hop_entries_get(5,6) [of c i a, folded OpenSshAlias, folded get,
        THEN required_string_removed [rotated]]
    show ?thesis
      using rest [of hop_keys] hop_entries_keys(2) [of c i a]
      by (simp add: eval own OpenSshAlias [symmetric] hop_keys_def cong: and_then_weak_cong)
  next
    case (Inline j)
    note look = inline_entries_get [of c i j, folded Inline, folded get]
    note own = look(1-4) [THEN required_string_removed [rotated]]
      look(5) [THEN take_integer_removed [rotated]]
      look(6,7) [THEN take_string_removed [rotated]]
    have "j_port j \<noteq> 0" using assms(2) Inline by simp
    note port = port_of_u64_ucast [OF this]
    have full: "Inline \<lparr>j_alias = j_alias j, j_host = j_host j, j_port = j_port j,
        j_user = j_user j, j_identity_file = j_identity_file j,
        j_host_key_policy = j_host_key_policy j\<rparr> = hop"
      using Inline by simp
    show ?thesis
      using rest [of inline_keys] hop_entries_keys(3) [of c i j]
      by (simp add: eval own decode_inline_def port full Inline [symmetric] inline_keys_def
          del: of_nat_unat cong: and_then_weak_cong)
  qed
qed

lemma decode_chain_table_entries:
  assumes "t_values t = values_of [(lit ''name'', VString name)] []"
  shows "decode_chain_table t = Inr name"
  using assms
  by (simp add: decode_chain_table_def required_string_def take_string_def bt_get_def
      bt_remove_def reject_unknown_def)

end
