(* ===== verification/Codec_Storage.thy ===== *)
theory Codec_Storage
  imports Codec_Roundtrip
begin

section \<open>Encoding then decoding a whole host database\<close>

text \<open>
  The last stages of the round trip: the printed lines are the lines read, the tables read are
  the records printed, and the hops collected per chain are put back in their order. The result
  is \<open>decode_encode\<close>: a validated database whose notes are storable is read back unchanged.
\<close>

definition notes_storable :: "HostDatabase \<Rightarrow> bool" where
  "notes_storable db \<longleftrightarrow> (\<forall>h \<in> set (bt_values (hosts db)). pred_option storable (h_note h))"

text \<open>No letter or digit of Unicode is a control character.\<close>

definition unicode_table :: "(uchar \<Rightarrow> bool) \<Rightarrow> bool" where
  "unicode_table U \<longleftrightarrow> (\<forall>c. U c \<longrightarrow> \<not> is_control c)"

subsection \<open>Validated fields are storable\<close>

lemma no_control_storable: "\<forall>c \<in> set s. \<not> is_control c \<Longrightarrow> storable s"
  by (auto simp: storable_def)

lemma label_char_not_control: "unicode_table U \<Longrightarrow> label_char U c \<Longrightarrow> \<not> is_control c"
  by (auto simp: unicode_table_def label_char_def is_alphanumeric_def lit_simps is_control_def
      dest: alphanumeric_not_special)

lemma name_char_not_control: "name_char c \<Longrightarrow> \<not> is_control c"
  by (auto simp: name_char_def lit_simps is_control_def dest: alphanumeric_not_special)

lemma label_storable: "unicode_table U \<Longrightarrow> label_wf U v \<Longrightarrow> storable v"
  by (rule no_control_storable) (auto simp: label_wf_def dest: label_char_not_control)

lemma name_storable: "name_wf v \<Longrightarrow> storable v"
  by (rule no_control_storable) (auto simp: name_wf_def dest: name_char_not_control)

lemma endpoint_storable: "endpoint_wf v \<Longrightarrow> storable v"
  by (rule no_control_storable) (auto simp: endpoint_wf_def)

lemma path_storable: "path_wf v \<Longrightarrow> storable v"
  by (rule no_control_storable) (auto simp: path_wf_def)

lemma role_storable [simp]: "storable (role_as_str r)"
  by (cases r) (simp_all add: storable_def lit_simps is_control_def)

lemma policy_storable [simp]: "storable (policy_as_str p)"
  by (cases p) (simp_all add: storable_def lit_simps is_control_def)

lemma os_storable [simp]: "storable (os_as_str t)"
  by (cases t) (simp_all add: storable_def lit_simps is_control_def)

lemma auth_storable [simp]: "storable (auth_as_str m)"
  by (cases m) (simp_all add: storable_def lit_simps is_control_def)

lemma kind_storable [simp]:
  "storable (lit ''host'')" "storable (lit ''openssh'')" "storable (lit ''inline'')"
  by (simp_all add: storable_def lit_simps is_control_def)

lemma host_keys_ok: "k \<in> set host_keys \<Longrightarrow> key_ok k"
  by (auto simp: host_keys_def key_ok_def lit_simps key_char_def char_class_defs)

lemma hop_keys_ok: "k \<in> set hop_keys \<union> set inline_keys \<Longrightarrow> key_ok k"
  by (auto simp: hop_keys_def inline_keys_def key_ok_def lit_simps key_char_def char_class_defs)

lemma entries_okI:
  "distinct (map fst es) \<Longrightarrow> \<forall>k \<in> fst ` set es. key_ok k \<Longrightarrow> \<forall>v \<in> snd ` set es. value_ok v \<Longrightarrow>
   entries_ok es"
  by (force simp: entries_ok_def)

lemma snd_opt_entry_ok:
  "(\<forall>e \<in> set (opt_entry k f opt). value_ok (snd e)) \<longleftrightarrow> pred_option (\<lambda>x. value_ok (f x)) opt"
  by (cases opt) auto

lemma pred_option_storable:
  "unicode_table U \<Longrightarrow> pred_option (label_wf U) opt \<Longrightarrow> pred_option storable opt"
  "pred_option path_wf opt \<Longrightarrow> pred_option storable opt"
  by (cases opt; simp add: label_storable path_storable)+

lemma host_entries_ok:
  assumes "unicode_table U" and "host_wf U h" and "pred_option storable (h_note h)"
  shows "entries_ok (host_entries h)"
proof (rule entries_okI)
  show "\<forall>k \<in> fst ` set (host_entries h). key_ok k"
    using host_entries_keys host_keys_ok by blast
  have "storable (h_alias h)" "storable (h_address h)" "storable (h_user h)"
    "pred_option storable (h_identity_file h)" "\<forall>v \<in> set (h_groups h). storable v"
    "\<forall>v \<in> set (h_tags h). storable v" "pred_option storable (h_jump_chain h)"
    using assms(1,2)
    by (auto simp: host_wf_def labels_wf_def label_storable endpoint_storable
        intro: pred_option_storable)
  then show "\<forall>v \<in> snd ` set (host_entries h). value_ok v"
    unfolding host_entries_def set_append image_Un ball_Un
    by (simp add: snd_opt_entry_ok assms(3) option.pred_True)
qed (rule host_entries_distinct)

lemma hop_entries_ok:
  assumes "unicode_table U" and "hop_wf U hop" and "label_wf U c"
  shows "entries_ok (hop_entries c i hop)"
proof (rule entries_okI)
  show "\<forall>k \<in> fst ` set (hop_entries c i hop). key_ok k"
    using hop_entries_keys [of c i] hop_keys_ok by (cases hop) (simp_all add: subset_iff)
  have "storable c" using assms by (simp add: label_storable)
  then show "\<forall>v \<in> snd ` set (hop_entries c i hop). value_ok v"
    using assms(1,2) unfolding hop_entries_def set_append image_Un ball_Un
    by (cases hop)
      (auto simp: label_storable name_storable endpoint_storable ball_Un image_Un
        opt_entry_def path_storable option.pred_set split: option.splits dest!: sym [of "Some _"])
qed (rule hop_entries_distinct)

lemma root_entries_ok:
  assumes "unicode_table U" and "db_wf U db"
  shows "entries_ok (root_entries db)"
proof (rule entries_okI)
  show "\<forall>v \<in> snd ` set (root_entries db). value_ok v"
    using assms by (auto simp: root_entries_def db_wf_def label_storable)
qed (auto simp: root_entries_def key_ok_def lit_simps key_char_def char_class_defs)

lemma hop_blocks_mem:
  "(kind, es) \<in> set (hop_blocks c i hops) \<Longrightarrow>
   kind = HopTable \<and> (\<exists>j hop. hop \<in> set hops \<and> es = hop_entries c j hop)"
proof (induction hops arbitrary: i)
  case (Cons hop hops)
  then consider "(kind, es) = (HopTable, hop_entries c i hop)"
    | "(kind, es) \<in> set (hop_blocks c (Suc i) hops)" by auto
  then show ?case
  proof cases
    case 2
    from Cons.IH [OF this] show ?thesis by auto
  qed auto
qed simp

lemma chain_blocks_ok:
  assumes "unicode_table U" and "chain_wf U c" and "(kind, es) \<in> set (chain_blocks c)"
  shows "entries_ok es"
proof -
  have name: "label_wf U (c_name c)" using assms by (simp add: chain_wf_def)
  then have "entries_ok [(lit ''name'', VString (c_name c))]"
    using assms(1) by (auto simp: entries_ok_def key_ok_def lit_simps key_char_def char_class_defs
        label_storable)
  moreover have "entries_ok (hop_entries (c_name c) j hop)" if "hop \<in> set (c_hops c)" for j hop
    using assms that name by (intro hop_entries_ok) (auto simp: chain_wf_def)
  ultimately show ?thesis
    using assms(3) by (auto simp: chain_blocks_def dest!: hop_blocks_mem)
qed

lemma db_blocks_ok:
  assumes "unicode_table U" and "db_wf U db" and "notes_storable db"
  shows "\<forall>(kind, es) \<in> set (db_blocks db). entries_ok es"
proof clarify
  fix kind es assume mem: "(kind, es) \<in> set (db_blocks db)"
  have "entries_ok (host_entries h)" if "h \<in> set (bt_values (hosts db))" for h
    using assms that by (intro host_entries_ok) (auto simp: db_wf_def notes_storable_def)
  moreover have "chain_wf U c" if "c \<in> set (bt_values (chains db))" for c
    using assms(2) that by (auto simp: db_wf_def)
  ultimately show "entries_ok es"
    using mem assms(1) unfolding db_blocks_def
    by (auto dest: chain_blocks_ok)
qed

subsection \<open>The lines of the text\<close>

lemma hop_entries_key_ok:
  assumes "(k, v) \<in> set (hop_entries c i hop)"
  shows "key_ok k"
proof -
  have k: "k \<in> fst ` set (hop_entries c i hop)" using image_eqI [OF _ assms, of k fst] by simp
  have "fst ` set (hop_entries c i hop) \<subseteq> set hop_keys \<union> set inline_keys"
    using hop_entries_keys [of c i] by (cases hop) (simp_all only: le_supI1 le_supI2)
  then show ?thesis using k by (rule hop_keys_ok [OF subsetD])
qed

lemma chain_blocks_key_ok:
  assumes "(kind, es) \<in> set (chain_blocks c)" and "(k, v) \<in> set es"
  shows "key_ok k"
proof -
  have "key_ok (lit ''name'')"
    by (simp add: key_ok_def lit_simps key_char_def char_class_defs)
  then show ?thesis
    using assms by (auto simp: chain_blocks_def dest!: hop_blocks_mem dest: hop_entries_key_ok)
qed

lemma encode_keys_ok:
  assumes "es = root_entries db \<or> (\<exists>kind. (kind, es) \<in> set (db_blocks db))" and "(k, v) \<in> set es"
  shows "key_ok k"
proof -
  have root: "(k, v) \<in> set (root_entries db) \<Longrightarrow> key_ok k"
    by (auto simp: root_entries_def key_ok_def lit_simps key_char_def char_class_defs
        split: if_splits)
  have host: "(k, v) \<in> set (host_entries h) \<Longrightarrow> key_ok k" for h
    using host_entries_keys [of h] host_keys_ok by (force simp: subset_iff)
  from assms show ?thesis
    by (auto simp: db_blocks_def dest: root host chain_blocks_key_ok)
qed

lemma encode_lines_one_line:
  assumes "l \<in> set (encode_lines db)"
  shows "10 \<notin> set l \<and> 13 \<notin> set l"
proof -
  have kv: "10 \<notin> set (print_kv e) \<and> 13 \<notin> set (print_kv e)"
    if "es = root_entries db \<or> (\<exists>kind. (kind, es) \<in> set (db_blocks db))" "e \<in> set es" for e es
    using that encode_keys_ok [OF that(1)] print_kv_one_line
    by (cases e) (simp del: print_kv.simps)
  have "10 \<notin> set (header_text kind) \<and> 13 \<notin> set (header_text kind)" for kind
    by (cases kind) (auto simp: lit_simps)
  moreover have "10 \<notin> set comment_line \<and> 13 \<notin> set comment_line"
    by (simp add: comment_line_def lit_simps)
  ultimately show ?thesis
    using assms kv unfolding encode_lines_def
    by (auto simp del: print_kv.simps) (meson kv)+
qed

lemma lines_of_encode:
  assumes "encode U db = Inr text"
  shows "lines_of text = encode_lines db"
  unfolding encode_eq_lines [OF assms]
  by (rule lines_of_unlines) (use encode_lines_one_line in blast)

subsection \<open>Tables back to the database\<close>

lemma bt_ok_append_Cons:
  "bt_ok (m @ kv # m') \<Longrightarrow> (\<forall>k \<in> fst ` set m. k < fst kv) \<and> bt_ok m \<and> bt_ok (m @ [kv])"
  by (auto simp: bt_ok_def sorted_wrt_append)

lemma bt_insert_middle: "bt_ok (m @ (k, w) # m') \<Longrightarrow> bt_insert k v (m @ (k, w) # m') = m @ (k, v) # m'"
  by (induction m) (auto simp: bt_ok_Cons)

lemma bt_get_middle: "bt_ok (m @ (k, w) # m') \<Longrightarrow> bt_get (m @ (k, w) # m') k = Some w"
  by (simp add: bt_get_iff)

lemma bt_snoc:
  assumes "bt_ok (m @ (k, v) # m')"
  shows "bt_insert k v' m = m @ [(k, v')]" and "bt_get m k = None"
  using bt_ok_append_Cons [OF assms]
  by (auto simp: bt_insert_append bt_get_None_iff)

lemma decode_tables_hosts:
  assumes "list_all2 table_matches ts (map (\<lambda>kh. (HostTable, host_entries (snd kh))) hs)"
    and "\<forall>(k, h) \<in> set hs. k = h_alias h \<and> host_wf U h" and "bt_ok (hosts db @ hs)"
  shows "decode_tables U db raw seen (ts @ rest) =
    decode_tables U (db\<lparr>hosts := hosts db @ hs\<rparr>) raw seen rest"
  using assms
proof (induction hs arbitrary: ts db)
  case (Cons kh hs)
  obtain k h where kh: "kh = (k, h)" by (cases kh)
  then obtain t ts' where ts: "ts = t # ts'" "table_matches t (HostTable, host_entries h)"
      "list_all2 table_matches ts' (map (\<lambda>kh. (HostTable, host_entries (snd kh))) hs)"
    using Cons.prems(1) by (auto simp: list_all2_Cons2)
  have k: "k = h_alias h" and "decode_host_table U t = Inr h"
    using Cons.prems kh ts(2) decode_host_table_entries by auto
  then have "decode_tables U db raw seen (ts @ rest) =
      decode_tables U (db\<lparr>hosts := hosts db @ [(k, h)]\<rparr>) raw seen (ts' @ rest)"
    using ts(1,2) Cons.prems(3) bt_snoc [of "hosts db" k h hs] kh by simp
  also have "\<dots> = decode_tables U (db\<lparr>hosts := hosts db @ (k, h) # hs\<rparr>) raw seen rest"
    using Cons.IH [OF ts(3), of "db\<lparr>hosts := hosts db @ [(k, h)]\<rparr>"] Cons.prems kh by simp
  finally show ?case by (simp add: kh)
qed simp

lemma push_hop_fold:
  assumes "bt_ok raw" and "xs \<noteq> []"
  shows "fold (push_hop c) xs raw = bt_insert c (unwrap_or (bt_get raw c) [] @ xs) raw"
  using assms
proof (induction xs arbitrary: raw)
  case (Cons x xs)
  show ?case
  proof (cases "xs = []")
    case True
    then show ?thesis by (simp add: push_hop_def)
  next
    case False
    let ?raw = "push_hop c x raw"
    have "bt_ok ?raw" using Cons.prems by (simp add: push_hop_def bt.ok_put)
    with Cons.IH [OF this False] have
      "fold (push_hop c) (x # xs) raw = bt_insert c (unwrap_or (bt_get ?raw c) [] @ xs) ?raw"
      by simp
    also have "\<dots> = bt_insert c (unwrap_or (bt_get raw c) [] @ x # xs) raw"
      using Cons.prems by (intro bt.ext) (auto simp: push_hop_def bt.ok_put bt.get_put)
    finally show ?thesis .
  qed
qed simp

lemma decode_tables_hops:
  assumes "list_all2 table_matches ts (hop_blocks c i hops)"
    and "\<forall>hop \<in> set hops. hop_wf U hop" and "i + length hops \<le> 2 ^ 64"
  shows "decode_tables U db raw seen (ts @ rest) =
    decode_tables U db (fold (push_hop c) (enumerate i hops) raw) seen rest"
  using assms
proof (induction hops arbitrary: ts raw i)
  case (Cons hop hops)
  then obtain t ts' where ts: "ts = t # ts'" "table_matches t (HopTable, hop_entries c i hop)"
      "list_all2 table_matches ts' (hop_blocks c (Suc i) hops)"
    by (auto simp: list_all2_Cons2)
  then have "decode_hop_table U t = Inr (c, i, hop)"
    using Cons.prems by (intro decode_hop_table_entries) auto
  then show ?case
    using ts Cons.IH [OF ts(3)] Cons.prems by simp
qed simp

definition bare_chain :: "rstring \<times> JumpChain \<Rightarrow> rstring \<times> JumpChain" where
  "bare_chain kc = (fst kc, (snd kc)\<lparr>c_hops := []\<rparr>)"

definition numbered_hops :: "rstring \<times> JumpChain \<Rightarrow> rstring \<times> (nat \<times> JumpHop) list" where
  "numbered_hops kc = (fst kc, enumerate 0 (c_hops (snd kc)))"

lemma decode_tables_chains:
  assumes "list_all2 table_matches ts (concat (map (\<lambda>kc. chain_blocks (snd kc)) cs))"
    and "\<forall>(k, c) \<in> set cs. k = c_name c \<and> chain_wf U c"
    and "bt_ok (chains db @ map bare_chain cs)" and "bt_ok (raw @ map numbered_hops cs)"
    and "seen \<inter> fst ` set cs = {}"
  shows "decode_tables U db raw seen ts =
    Inr (db\<lparr>chains := chains db @ map bare_chain cs\<rparr>, raw @ map numbered_hops cs)"
  using assms
proof (induction cs arbitrary: ts db raw seen)
  case (Cons kc cs)
  obtain k c where kc: "kc = (k, c)" by (cases kc)
  have c: "k = c_name c" "chain_wf U c" using Cons.prems kc by auto
  obtain t us vs where ts: "ts = t # us @ vs"
      "table_matches t (ChainTable, [(lit ''name'', VString k)])"
      "list_all2 table_matches us (hop_blocks k 0 (c_hops c))"
      "list_all2 table_matches vs (concat (map (\<lambda>kc. chain_blocks (snd kc)) cs))"
    using Cons.prems(1) kc c by (auto simp: chain_blocks_def list_all2_Cons2 list_all2_append2)
  let ?db = "db\<lparr>chains := chains db @ [bare_chain kc]\<rparr>" and ?raw = "raw @ [numbered_hops kc]"
  have name: "decode_chain_table t = Inr k" using ts(2) by (simp add: decode_chain_table_entries)
  have bare: "bare_chain kc = (k, \<lparr>c_name = k, c_hops = []\<rparr>)"
    using c by (simp add: bare_chain_def kc)
  have numbered: "numbered_hops kc = (k, enumerate 0 (c_hops c))"
    by (simp add: numbered_hops_def kc)
  have chains: "bt_insert k \<lparr>c_name = k, c_hops = []\<rparr> (chains db) = chains db @ [bare_chain kc]"
    using Cons.prems(3) bt_snoc(1) by (simp add: bare)
  have ok: "bt_ok raw" and none: "bt_get raw k = None"
    using Cons.prems(4) bt_snoc(2) [of raw k _ "map numbered_hops cs"]
      bt_ok_append_Cons [of raw _ "map numbered_hops cs"]
    by (simp_all add: numbered)
  have "enumerate 0 (c_hops c) \<noteq> []"
    using c by (simp add: chain_wf_def enumerate_eq_zip)
  then have raw: "fold (push_hop k) (enumerate 0 (c_hops c)) raw = ?raw"
    using Cons.prems(4) bt_snoc(1) [of raw k] by (simp add: push_hop_fold [OF ok] none numbered)
  have "decode_tables U db raw seen ts =
      decode_tables U ?db raw (insert k seen) (us @ vs)"
    using Cons.prems(5) kc ts(1,2) name chains by simp
  also have "\<dots> = decode_tables U ?db ?raw (insert k seen) vs"
    using c(2) by (subst decode_tables_hops [OF ts(3)]) (simp_all add: chain_wf_def raw)
  also have "\<dots> = Inr (?db\<lparr>chains := chains ?db @ map bare_chain cs\<rparr>, ?raw @ map numbered_hops cs)"
  proof (rule Cons.IH [OF ts(4)])
    have "distinct (map fst (raw @ map numbered_hops (kc # cs)))"
      using Cons.prems(4) by (rule bt_ok_distinct)
    then have "k \<notin> fst ` set cs"
      by (auto simp: numbered_hops_def kc rev_image_eqI)
    with Cons.prems(5) show "insert k seen \<inter> fst ` set cs = {}" by auto
  qed (use Cons.prems in auto)
  finally show ?case by simp
qed simp

subsection \<open>Chains get their hops back\<close>

lemma check_indices_enumerate: "check_indices name i (enumerate i hops) = Inr hops"
  by (induction hops arbitrary: i) auto

lemma sort_enumerate: "sort_key fst (enumerate i xs) = enumerate i xs"
  by (rule sort_key_id_if_sorted) (simp add: sorted_wrt_iff_nth_less nth_enumerate_eq)

lemma attach_hops_bare:
  assumes "bt_ok (done @ cs)" and "bt_ok (done @ map bare_chain cs)"
  shows "attach_hops (done @ map bare_chain cs) (map numbered_hops cs) = Inr (done @ cs)"
  using assms
proof (induction cs arbitrary: "done")
  case (Cons kc cs)
  obtain k c where kc: "kc = (k, c)" by (cases kc)
  have kc': "bare_chain kc = (k, c\<lparr>c_hops := []\<rparr>)"
    "numbered_hops kc = (k, enumerate 0 (c_hops c))"
    by (simp_all add: kc bare_chain_def numbered_hops_def)
  have "attach_hops (done @ map bare_chain (kc # cs)) (map numbered_hops (kc # cs)) =
      attach_hops ((done @ [(k, c)]) @ map bare_chain cs) (map numbered_hops cs)"
    using Cons.prems
    by (simp add: kc' bt_get_middle bt_insert_middle
        sort_enumerate check_indices_enumerate)
  also have "\<dots> = Inr ((done @ [(k, c)]) @ cs)"
    using Cons.prems by (intro Cons.IH) (auto simp: kc bt_ok_def bare_chain_def)
  finally show ?case by (simp add: kc)
qed simp

subsection \<open>The round trip\<close>

lemma take_root:
  assumes "bt_get root (lit ''version'') = Some (VInteger 1)"
    and "bt_get root (lit ''folders'') = (if fs = [] then None else Some (VStrings fs))"
    and "bt_get root (lit ''jump_folders'') = (if js = [] then None else Some (VStrings js))"
    and "fst ` set root \<subseteq> {lit ''version'', lit ''folders'', lit ''jump_folders''}"
  shows "take_integer root (lit ''version'') = Inr (Some 1, removed [lit ''version''] root)"
    and "\<exists>r. take_strings (removed [lit ''version''] root) (lit ''folders'') =
       Inr (r, removed [lit ''version'', lit ''folders''] root) \<and> unwrap_or r [] = fs"
    and "\<exists>r. take_strings (removed [lit ''version'', lit ''folders''] root) (lit ''jump_folders'') =
       Inr (r, []) \<and> unwrap_or r [] = js"
proof -
  show "take_integer root (lit ''version'') = Inr (Some 1, removed [lit ''version''] root)"
    using take_integer_removed [of "lit ''version''" "[]" root "Some 1"] assms(1)
    by (simp add: removed_def)
  show "\<exists>r. take_strings (removed [lit ''version''] root) (lit ''folders'') =
       Inr (r, removed [lit ''version'', lit ''folders''] root) \<and> unwrap_or r [] = fs"
    using take_strings_removed [of "lit ''folders''" "[lit ''version'']" root
        "if fs = [] then None else Some fs"] assms(2) by auto
  have "removed [lit ''version'', lit ''folders'', lit ''jump_folders''] root = []"
    using assms(4) by (intro removed_all) simp
  then show "\<exists>r. take_strings (removed [lit ''version'', lit ''folders''] root)
      (lit ''jump_folders'') = Inr (r, []) \<and> unwrap_or r [] = js"
    using take_strings_removed [of "lit ''jump_folders''" "[lit ''version'', lit ''folders'']" root
        "if js = [] then None else Some js"] assms(3) by auto
qed

lemma root_values_get:
  assumes "entries_ok (root_entries db)" and "version db = 1"
  defines "root \<equiv> values_of (root_entries db) []"
  shows "bt_get root (lit ''version'') = Some (VInteger 1)"
    and "bt_get root (lit ''folders'') =
      (if folders db = [] then None else Some (VStrings (folders db)))"
    and "bt_get root (lit ''jump_folders'') =
      (if jump_folders db = [] then None else Some (VStrings (jump_folders db)))"
    and "fst ` set root \<subseteq> {lit ''version'', lit ''folders'', lit ''jump_folders''}"
proof -
  have get: "bt_get root = map_of (root_entries db)"
    using assms(1) by (simp add: root_def bt_get_values_of entries_ok_def bt.get_empty)
  show "bt_get root (lit ''version'') = Some (VInteger 1)"
    "bt_get root (lit ''folders'') =
      (if folders db = [] then None else Some (VStrings (folders db)))"
    "bt_get root (lit ''jump_folders'') =
      (if jump_folders db = [] then None else Some (VStrings (jump_folders db)))"
    by (simp_all add: get root_entries_def assms(2))
  show "fst ` set root \<subseteq> {lit ''version'', lit ''folders'', lit ''jump_folders''}"
    unfolding root_def fst_set_values_of by (auto simp: root_entries_def)
qed

lemma decode_encode_lemma:
  assumes U: "unicode_table U" and ok: "bt_ok (hosts db)" "bt_ok (chains db)"
    and note_ok: "notes_storable db" and enc: "encode U db = Inr text"
    and size: "str_len text \<le> 4194304"
  shows "decode U text = Inr db"
proof -
  from enc have wf: "db_wf U db" by (auto simp: encode_def and_then_eq_Inr validate_ok)
  note root_ok = root_entries_ok [OF U wf] and blocks_ok = db_blocks_ok [OF U wf note_ok]
  let ?root = "values_of (root_entries db) []"
  note lines = lines_of_encode [OF enc]
  obtain ts where ts: "decode_lines 1 [] [] None (encode_lines db) = Inr (?root, ts)"
      "list_all2 table_matches ts (db_blocks db)"
    using decode_lines_blocks [OF blocks_ok, of "2 + length (root_entries db)" ?root "[]" None]
      decode_lines_root [OF root_ok, of "[]" 2 "[]"]
    by (auto simp: encode_lines_def read_line_comment bt.get_empty numeral_2_eq_2)
  obtain us vs where split: "ts = us @ vs"
      "list_all2 table_matches us (map (\<lambda>kh. (HostTable, host_entries (snd kh))) (hosts db))"
      "list_all2 table_matches vs (concat (map (\<lambda>kc. chain_blocks (snd kc)) (chains db)))"
    using ts(2) by (auto simp: db_blocks_def list_all2_append2 comp_def)
  let ?db = "default_database\<lparr>folders := folders db, jump_folders := jump_folders db\<rparr>"
  have keys: "map fst (map bare_chain (chains db)) = map fst (chains db)"
    "map fst (map numbered_hops (chains db)) = map fst (chains db)"
    by (simp_all add: bare_chain_def numbered_hops_def)
  have hs: "\<forall>(k, h) \<in> set (hosts db). k = h_alias h \<and> host_wf U h"
    and cs: "\<forall>(k, c) \<in> set (chains db). k = c_name c \<and> chain_wf U c"
    using wf by (auto simp: db_wf_def)
  have "decode_tables U ?db [] {} ts =
      decode_tables U (?db\<lparr>hosts := hosts db\<rparr>) [] {} vs"
    using decode_tables_hosts [OF split(2) hs, of ?db "[]" "{}" vs] ok(1)
    by (simp add: split(1) default_database_def)
  also have "\<dots> = Inr (?db\<lparr>hosts := hosts db, chains := map bare_chain (chains db)\<rparr>,
      map numbered_hops (chains db))"
    using decode_tables_chains [OF split(3) cs, of "?db\<lparr>hosts := hosts db\<rparr>" "[]" "{}"] ok(2)
    by (simp add: default_database_def bt_ok_def keys del: map_map)
  finally have tables: "decode_tables U ?db [] {} ts =
      Inr (?db\<lparr>hosts := hosts db, chains := map bare_chain (chains db)\<rparr>,
        map numbered_hops (chains db))" .
  have attach: "attach_hops (map bare_chain (chains db)) (map numbered_hops (chains db)) =
      Inr (chains db)"
    using attach_hops_bare [of "[]" "chains db"] ok(2) by (simp add: bt_ok_def keys del: map_map)
  have full: "?db\<lparr>hosts := hosts db, chains := chains db\<rparr> = db"
    using wf by (simp add: db_wf_def default_database_def model_limits)
  have ver: "version db = 1" using wf by (simp add: db_wf_def)
  note root_facts = root_values_get [OF root_ok ver]
  note root = take_root [OF root_facts]
  from root obtain r1 r2 where r:
    "take_strings (removed [lit ''version''] ?root) (lit ''folders'') =
       Inr (r1, removed [lit ''version'', lit ''folders''] ?root)" "unwrap_or r1 [] = folders db"
    "take_strings (removed [lit ''version'', lit ''folders''] ?root) (lit ''jump_folders'') =
       Inr (r2, [])" "unwrap_or r2 [] = jump_folders db"
    by blast
  have valid: "validate U db = Inr ()" using wf by (simp add: validate_ok)
  show ?thesis
    using size r tables attach full valid root(1)
    by (simp add: decode_def lines ts(1) [unfolded One_nat_def] reject_unknown_def model_limits)
qed

subsection \<open>A note that cannot be stored\<close>

lemma unescape_control:
  assumes "\<not> storable s"
  shows "unescape (escape s) = Inl ControlInString"
  using assms
proof (induction s)
  case (Cons c s)
  show ?case
  proof (cases "is_control c \<and> c \<noteq> 9 \<and> c \<noteq> 10 \<and> c \<noteq> 13")
    case True
    then show ?thesis by (auto simp: escape_char_def is_control_def)
  next
    case False
    with Cons.prems have "\<not> storable s" by (auto simp: storable_def)
    with Cons.IH False show ?thesis by (auto simp: escape_char_def)
  qed
qed (simp add: storable_def)

lemma read_line_control:
  assumes k: "key_ok k" and s: "\<not> storable s"
  shows "read_line (print_kv (k, VString s)) = Inl ControlInString"
proof -
  let ?line = "print_kv (k, VString s)"
  have ne: "?line \<noteq> []" and hd: "hd ?line = hd k" and last: "last ?line = 34"
    using k by (auto simp: key_ok_def)
  have "trim ?line = ?line"
    using ne hd last key_ok_facts [OF k] by (intro trim_id) (auto simp: is_whitespace_def)
  moreover have "parse_header ?line = Inr None"
    using ne hd key_ok_facts(5) [OF k]
    by (simp add: parse_header_def starts_with_singleton lit_simps)
  moreover have "find_equals False False ((k @ [32]) @ 61 # 32 # print_value (VString s)) =
      Some (k @ [32], 32 # print_value (VString s))"
    using key_ok_facts [OF k] by (intro find_equals_plain) auto
  then have "find_equals False False ?line = Some (k @ [32], 32 # print_value (VString s))"
    by (simp add: lit_simps)
  moreover have "parse_value (print_value (VString s)) = Inl ControlInString"
    using unescape_control [OF s]
    by (simp add: parse_value_def parse_string_def ends_with_def utf8_len_def butlast_append)
  ultimately show ?thesis
    using ne k strip_comment_print [OF k, of "VString s"] print_value_ends [of "VString s"]
    by (simp add: read_line_def parse_assignment_def trim_key trim_print_value key_ok_def
        del: print_kv.simps print_value.simps)
qed

lemma decode_lines_error:
  assumes "l \<in> set ls" and "read_line l = Inl e"
  shows "\<exists>e'. decode_lines n root tables current ls = Inl e'"
  using assms
proof (induction ls arbitrary: n root tables current)
  case (Cons x xs)
  show ?case
  proof (cases "l = x")
    case False
    then have "l \<in> set xs" using Cons.prems by simp
    with Cons show ?thesis
      by (cases "read_line x") (auto split: line_event.splits option.splits)
  qed (use Cons.prems in auto)
qed simp

lemma note_line_mem:
  assumes "h \<in> set (bt_values (hosts db))" and "h_note h = Some s"
  shows "print_kv (lit ''note'', VString s) \<in> set (encode_lines db)"
proof -
  have "(lit ''note'', VString s) \<in> set (host_entries h)"
    using assms(2) by (simp add: host_entries_def)
  moreover have "(HostTable, host_entries h) \<in> set (db_blocks db)"
    using assms(1) by (auto simp: db_blocks_def)
  ultimately show ?thesis
    unfolding encode_lines_def by (force simp del: print_kv.simps)
qed

text \<open>
  C1. A host library survives storage. Encoding a database that validates and decoding the text
  gives the database back: every host with its role, port, labels, note, policy and statistics,
  every chain with its hops in order, and both folder lists. The database is a map (its keys
  ascend), the text is within the 4 MiB limit that \<open>save\<close> and \<open>decode\<close> both enforce, the notes
  contain no control character other than tab, line feed and carriage return, and the Unicode
  table marks no control character as a letter or digit.
\<close>

theorem decode_encode:
  assumes "unicode_table U" and "bt_ok (hosts db)" and "bt_ok (chains db)"
    and "notes_storable db" and "encode U db = Inr text" and "str_len text \<le> 4194304"
  shows "decode U text = Inr db"
  using decode_encode_lemma assms by blast

definition sample_db :: HostDatabase where
  "sample_db =
     default_database\<lparr>folders := [lit ''prod''], jump_folders := [lit ''edge''],
       hosts :=
         [(lit ''bastion'', (host_new (lit ''bastion'') (lit ''10.0.0.1'') (lit ''ops''))
             \<lparr>h_role := Jump, h_note := Some (lit ''say '' @ [34, 9, 92, 10])\<rparr>),
          (lit ''web'', (host_new (lit ''web'') (lit ''10.0.0.2'') (lit ''root''))
             \<lparr>h_groups := [lit ''prod''], h_jump_chain := Some (lit ''via'')\<rparr>)],
       chains :=
         [(lit ''via'', \<lparr>c_name = lit ''via'',
             c_hops = [Host (lit ''bastion''), OpenSshAlias (lit ''gw'')]\<rparr>)]\<rparr>"

theorem decode_encode_witness:
  "\<exists>text. encode (\<lambda>_. False) sample_db = Inr text \<and> decode (\<lambda>_. False) text = Inr sample_db"
proof -
  have "unicode_table (\<lambda>_. False)" by (simp add: unicode_table_def)
  moreover have "bt_ok (hosts sample_db)" "bt_ok (chains sample_db)" "notes_storable sample_db"
    by code_simp+
  moreover have "case encode (\<lambda>_. False) sample_db of Inl e \<Rightarrow> False | Inr t \<Rightarrow> str_len t \<le> 4194304"
    by code_simp
  then obtain t where "encode (\<lambda>_. False) sample_db = Inr t" "str_len t \<le> 4194304"
    by (auto split: sum.splits)
  ultimately show ?thesis using decode_encode by blast
qed

text \<open>
  The hypothesis on notes is needed. A note with any other control character (an escape
  character pasted from a terminal, say) passes validation and is written by \<open>encode\<close> as it is,
  and \<open>decode\<close> then rejects the text: the library that was saved cannot be opened again.
\<close>

theorem control_note_not_decodable:
  assumes "encode U db = Inr text" and "\<not> notes_storable db"
  shows "\<exists>e. decode U text = Inl e"
proof -
  obtain h s where h: "h \<in> set (bt_values (hosts db))" "h_note h = Some s" "\<not> storable s"
    using assms(2) by (auto simp: notes_storable_def option.pred_set)
  have "key_ok (lit ''note'')"
    by (simp add: key_ok_def lit_simps key_char_def char_class_defs)
  then obtain e where "decode_lines 1 [] [] None (lines_of text) = Inl e"
    using decode_lines_error [OF note_line_mem [OF h(1,2)] read_line_control]
      lines_of_encode [OF assms(1)] h(3) by metis
  then show ?thesis by (simp add: decode_def)
qed

definition escape_note_db :: HostDatabase where
  "escape_note_db =
     default_database\<lparr>hosts := [(lit ''web'',
       (host_new (lit ''web'') (lit ''10.0.0.2'') (lit ''root''))\<lparr>h_note := Some [27, 91, 109]\<rparr>)]\<rparr>"

theorem control_note_not_decodable_witness:
  "\<exists>text e. encode (\<lambda>_. False) escape_note_db = Inr text \<and> decode (\<lambda>_. False) text = Inl e"
proof -
  have "is_ok (encode (\<lambda>_. False) escape_note_db)" and "\<not> notes_storable escape_note_db"
    by code_simp+
  then show ?thesis using control_note_not_decodable unfolding is_ok_iff by blast
qed

end
