(* ===== verification/Host_Store.thy ===== *)
theory Host_Store
  imports Machine Codec_Storage "HOL-Library.Product_Lexorder" "HOL-Library.Multiset"
begin

section \<open>The host store (kaduox-ssh-hosts/src/store.rs)\<close>

text \<open>
  The mutable library the applications edit. Every operation takes the store and returns the
  result together with the store afterwards, on the error branches too, so that what a failed
  call leaves behind is part of the model. The file system enters \<open>open_store\<close> as the status of the
  database file and \<open>save\<close> as the function that publishes the bytes; the clock enters
  \<open>record_success\<close> as the result of \<open>now_unix\<close>.
\<close>

datatype (plugins only: code size) store_error =
    InModel model_error | InCodec codec_error
  | BadFolderRole | OldFolderMissing | FolderExists | FolderMissing
  | HostReferenced rstring rstring | ChainMissing rstring rstring
  | HostExists rstring | HostUnknown rstring
  | ChainExists rstring | ChainUnknown rstring | ChainBound rstring rstring
  | StatsUnknownHost rstring | CounterOverflow | ClockBeforeEpoch
  | IsSymlink | UnsafeMode u32 | NotRegularFile | StoreTooLarge | InspectFailure | ReadFailure
  | EncodedTooLarge | WriteFailure

record HostStore =
  path :: rstring
  database :: HostDatabase

type_synonym 'a store_call = "(store_error + 'a) \<times> HostStore"

definition MAX_STORE_BYTES :: u64 where "MAX_STORE_BYTES = 4 * 1024 * 1024"

subsection \<open>Opening and saving\<close>

record file_meta =
  m_symlink :: bool
  m_mode :: "u32 option"
  m_is_file :: bool
  m_len :: u64
  m_text :: "rstring option"

datatype file_status = FileNotFound | FileInspectError | FileFound file_meta

text \<open>The mode is \<open>None\<close> when \<open>fs::metadata\<close> fails.\<close>

definition validate_private_file :: "u32 option \<Rightarrow> store_error + unit" where
  "validate_private_file m = (case m of
       None \<Rightarrow> Inl InspectFailure
     | Some raw \<Rightarrow>
         let mode = and raw 0x1FF in
         if and mode 0x3F \<noteq> 0 then Inl (UnsafeMode mode) else Inr ())"

definition open_store ::
  "(uchar \<Rightarrow> bool) \<Rightarrow> rstring \<Rightarrow> file_status \<Rightarrow> store_error + HostStore" where
  "open_store U p status =
     and_then
       (case status of
          FileFound meta \<Rightarrow>
            if m_symlink meta then Inl IsSymlink else
            and_then (validate_private_file (m_mode meta)) (\<lambda>_.
            if \<not> m_is_file meta then Inl NotRegularFile
            else if MAX_STORE_BYTES < m_len meta then Inl StoreTooLarge
            else and_then (ok_or ReadFailure (m_text meta)) (\<lambda>input.
              map_err InCodec (decode U input)))
        | FileNotFound \<Rightarrow> Inr default_database
        | FileInspectError \<Rightarrow> Inl InspectFailure)
       (\<lambda>db. Inr \<lparr>path = p, database = db\<rparr>)"

definition save_text :: "(uchar \<Rightarrow> bool) \<Rightarrow> HostStore \<Rightarrow> store_error + rstring" where
  "save_text U st =
     and_then (map_err InModel (validate U (database st))) (\<lambda>_.
     and_then (map_err InCodec (encode U (database st))) (\<lambda>encoded.
     if unat MAX_STORE_BYTES < str_len encoded then Inl EncodedTooLarge else Inr encoded))"

definition save ::
  "(rstring \<Rightarrow> rstring \<Rightarrow> store_error + unit) \<Rightarrow> (uchar \<Rightarrow> bool) \<Rightarrow> HostStore \<Rightarrow>
   store_error + unit" where
  "save atomic_write_private U st =
     and_then (save_text U st) (\<lambda>encoded. atomic_write_private (path st) encoded)"

subsection \<open>Queries\<close>

definition find_host :: "HostStore \<Rightarrow> rstring \<Rightarrow> HostRecord option" where
  "find_host st alias = bt_get (hosts (database st)) alias"

definition find_chain :: "HostStore \<Rightarrow> rstring \<Rightarrow> JumpChain option" where
  "find_chain st name = bt_get (chains (database st)) name"

definition all_groups :: "HostDatabase \<Rightarrow> rstring list" where
  "all_groups db = concat (map h_groups (bt_values (hosts db)))"

text \<open>Collecting into a \<open>BTreeSet\<close> sorts and drops duplicates.\<close>

definition btree_set :: "'a::linorder list \<Rightarrow> 'a list" where
  "btree_set xs = sort (remdups xs)"

definition store_folders :: "HostStore \<Rightarrow> rstring list" where
  "store_folders st =
     (let db = database st in btree_set (folders db @ jump_folders db @ all_groups db))"

fun push_new :: "rstring set \<Rightarrow> rstring list \<Rightarrow> (rstring \<times> rstring) list" where
  "push_new seen [] = []"
| "push_new seen (name # names) =
     (if name \<in> seen then push_new seen names
      else (name, lit ''target'') # push_new (insert name seen) names)"

definition folder_entries :: "HostStore \<Rightarrow> (rstring \<times> rstring) list" where
  "folder_entries st =
     (let db = database st;
          entries = map (\<lambda>n. (n, lit ''target'')) (folders db)
            @ map (\<lambda>n. (n, lit ''jump'')) (jump_folders db);
          seen = set (folders db @ jump_folders db)
      in sort_key fst (entries @ push_new seen (all_groups db)))"

definition folder_role :: "HostStore \<Rightarrow> rstring \<Rightarrow> rstring" where
  "folder_role st name =
     (if name \<in> set (jump_folders (database st)) then lit ''jump'' else lit ''target'')"

text \<open>\<open>Reverse\<close> of an unsigned number is the order of its negation.\<close>

definition recency_key :: "HostRecord \<Rightarrow> int \<times> int \<times> rstring" where
  "recency_key h =
     (- uint (unwrap_or (last_connected_unix (h_stats h)) 0),
      - uint (connection_count (h_stats h)), h_alias h)"

definition hosts_recent_first :: "HostStore \<Rightarrow> HostRecord list" where
  "hosts_recent_first st = sort_key recency_key (bt_values (hosts (database st)))"

subsection \<open>Folders\<close>

definition rename_group :: "rstring \<Rightarrow> rstring \<Rightarrow> HostRecord \<Rightarrow> HostRecord" where
  "rename_group old name h = h\<lparr>h_groups := map (\<lambda>f. if f = old then name else f) (h_groups h)\<rparr>"

definition save_folder_db ::
  "rstring \<Rightarrow> rstring option \<Rightarrow> rstring \<Rightarrow> HostDatabase \<Rightarrow> HostDatabase" where
  "save_folder_db name original_name role db =
     (let renamed = (case original_name of
            Some old \<Rightarrow>
              if old \<noteq> name then db\<lparr>hosts := bt_map_values (rename_group old name) (hosts db)\<rparr>
              else db
          | None \<Rightarrow> db);
          retained = renamed\<lparr>folders := filter (\<lambda>f. f \<noteq> name) (folders renamed),
            jump_folders := filter (\<lambda>f. f \<noteq> name) (jump_folders renamed)\<rparr>;
          dropped = (case original_name of
            Some old \<Rightarrow>
              if old \<noteq> name then
                retained\<lparr>folders := filter (\<lambda>f. f \<noteq> old) (folders retained),
                  jump_folders := filter (\<lambda>f. f \<noteq> old) (jump_folders retained)\<rparr>
              else retained
          | None \<Rightarrow> retained)
      in if role = lit ''jump'' then dropped\<lparr>jump_folders := jump_folders dropped @ [name]\<rparr>
         else dropped\<lparr>folders := folders dropped @ [name]\<rparr>)"

definition save_folder ::
  "(uchar \<Rightarrow> bool) \<Rightarrow> rstring \<Rightarrow> rstring option \<Rightarrow> rstring \<Rightarrow> HostStore \<Rightarrow> unit store_call" where
  "save_folder U name original_name role st =
     (case validate_label U name of
        Inl e \<Rightarrow> (Inl (InModel e), st)
      | Inr _ \<Rightarrow>
          if role \<noteq> lit ''target'' \<and> role \<noteq> lit ''jump'' then (Inl BadFolderRole, st) else
          let db = database st; fs = store_folders st;
              duplicate = (case original_name of
                  Some old \<Rightarrow> old \<noteq> name \<and> name \<in> set fs
                | None \<Rightarrow> name \<in> set (folders db) \<or> name \<in> set (jump_folders db))
          in if \<exists>old \<in> set_option original_name. old \<notin> set fs then (Inl OldFolderMissing, st)
             else if duplicate then (Inl FolderExists, st)
             else let updated = save_folder_db name original_name role db in
               case validate U updated of
                 Inl e \<Rightarrow> (Inl (InModel e), st)
               | Inr _ \<Rightarrow> (Inr (), st\<lparr>database := updated\<rparr>))"

definition references_host :: "rstring \<Rightarrow> JumpChain \<Rightarrow> bool" where
  "references_host alias chain \<longleftrightarrow> Host alias \<in> set (c_hops chain)"

fun check_unreferenced ::
  "rstring list \<Rightarrow> JumpChain list \<Rightarrow> store_error + unit" where
  "check_unreferenced [] cs = Inr ()"
| "check_unreferenced (alias # rest) cs =
     (case List.find (references_host alias) cs of
        Some chain \<Rightarrow> Inl (HostReferenced alias (c_name chain))
      | None \<Rightarrow> check_unreferenced rest cs)"

definition remove_folder ::
  "(uchar \<Rightarrow> bool) \<Rightarrow> rstring \<Rightarrow> HostStore \<Rightarrow> rstring list store_call" where
  "remove_folder U name st =
     (if name \<notin> set (store_folders st) then (Inl FolderMissing, st) else
      let db = database st;
          aliases = map h_alias
            (filter (\<lambda>h. case h_groups h of [] \<Rightarrow> False | g # _ \<Rightarrow> g = name) (bt_values (hosts db)))
      in case check_unreferenced aliases (bt_values (chains db)) of
           Inl e \<Rightarrow> (Inl e, st)
         | Inr _ \<Rightarrow>
             let updated = db\<lparr>folders := filter (\<lambda>f. f \<noteq> name) (folders db),
                   jump_folders := filter (\<lambda>f. f \<noteq> name) (jump_folders db),
                   hosts := fold bt_remove aliases (hosts db)\<rparr>
             in case validate U updated of
                  Inl e \<Rightarrow> (Inl (InModel e), st)
                | Inr _ \<Rightarrow> (Inr aliases, st\<lparr>database := updated\<rparr>))"

subsection \<open>Hosts and chains\<close>

abbreviation set_hosts :: "(rstring, HostRecord) btmap \<Rightarrow> HostStore \<Rightarrow> HostStore" where
  "set_hosts m st \<equiv> st\<lparr>database := (database st)\<lparr>hosts := m\<rparr>\<rparr>"

abbreviation set_chains :: "(rstring, JumpChain) btmap \<Rightarrow> HostStore \<Rightarrow> HostStore" where
  "set_chains m st \<equiv> st\<lparr>database := (database st)\<lparr>chains := m\<rparr>\<rparr>"

definition upsert_host ::
  "(uchar \<Rightarrow> bool) \<Rightarrow> HostRecord \<Rightarrow> HostStore \<Rightarrow> HostRecord option store_call" where
  "upsert_host U host st =
     (case host_validate U host of
        Inl e \<Rightarrow> (Inl (InModel e), st)
      | Inr _ \<Rightarrow>
          (case (case h_jump_chain host of
                   Some chain \<Rightarrow>
                     if \<not> bt_contains (chains (database st)) chain
                     then Inl (ChainMissing (h_alias host) chain) else Inr ()
                 | None \<Rightarrow> Inr ()) of
             Inl e \<Rightarrow> (Inl e, st)
           | Inr _ \<Rightarrow>
               let alias = h_alias host;
                   previous = bt_get (hosts (database st)) alias;
                   inserted = bt_insert alias host (hosts (database st))
               in case validate U ((database st)\<lparr>hosts := inserted\<rparr>) of
                    Inl e \<Rightarrow> (Inl (InModel e),
                      set_hosts (case previous of
                          Some old \<Rightarrow> bt_insert alias old inserted
                        | None \<Rightarrow> bt_remove alias inserted) st)
                  | Inr _ \<Rightarrow> (Inr previous, set_hosts inserted st)))"

definition insert_host ::
  "(uchar \<Rightarrow> bool) \<Rightarrow> HostRecord \<Rightarrow> HostStore \<Rightarrow> unit store_call" where
  "insert_host U host st =
     (if bt_contains (hosts (database st)) (h_alias host) then (Inl (HostExists (h_alias host)), st)
      else case host_validate U host of
          Inl e \<Rightarrow> (Inl (InModel e), st)
        | Inr _ \<Rightarrow>
            let inserted = bt_insert (h_alias host) host (hosts (database st)) in
            case validate U ((database st)\<lparr>hosts := inserted\<rparr>) of
              Inl e \<Rightarrow> (Inl (InModel e), set_hosts (bt_remove (h_alias host) inserted) st)
            | Inr _ \<Rightarrow> (Inr (), set_hosts inserted st))"

definition remove_host :: "rstring \<Rightarrow> HostStore \<Rightarrow> HostRecord store_call" where
  "remove_host alias st =
     (case List.find (references_host alias) (bt_values (chains (database st))) of
        Some chain \<Rightarrow> (Inl (HostReferenced alias (c_name chain)), st)
      | None \<Rightarrow>
          (ok_or (HostUnknown alias) (bt_get (hosts (database st)) alias),
           set_hosts (bt_remove alias (hosts (database st))) st))"

definition upsert_chain ::
  "(uchar \<Rightarrow> bool) \<Rightarrow> JumpChain \<Rightarrow> HostStore \<Rightarrow> JumpChain option store_call" where
  "upsert_chain U chain st =
     (case chain_validate U chain of
        Inl e \<Rightarrow> (Inl (InModel e), st)
      | Inr _ \<Rightarrow>
          let name = c_name chain;
              previous = bt_get (chains (database st)) name;
              inserted = bt_insert name chain (chains (database st))
          in case validate U ((database st)\<lparr>chains := inserted\<rparr>) of
               Inl e \<Rightarrow> (Inl (InModel e),
                 set_chains (case previous of
                     Some old \<Rightarrow> bt_insert name old inserted
                   | None \<Rightarrow> bt_remove name inserted) st)
             | Inr _ \<Rightarrow> (Inr previous, set_chains inserted st))"

definition insert_chain ::
  "(uchar \<Rightarrow> bool) \<Rightarrow> JumpChain \<Rightarrow> HostStore \<Rightarrow> unit store_call" where
  "insert_chain U chain st =
     (if bt_contains (chains (database st)) (c_name chain)
      then (Inl (ChainExists (c_name chain)), st)
      else let inserted = bt_insert (c_name chain) chain (chains (database st)) in
        case validate U ((database st)\<lparr>chains := inserted\<rparr>) of
          Inl e \<Rightarrow> (Inl (InModel e), set_chains (bt_remove (c_name chain) inserted) st)
        | Inr _ \<Rightarrow> (Inr (), set_chains inserted st))"

definition remove_chain :: "rstring \<Rightarrow> HostStore \<Rightarrow> JumpChain store_call" where
  "remove_chain name st =
     (case List.find (\<lambda>h. h_jump_chain h = Some name) (bt_values (hosts (database st))) of
        Some host \<Rightarrow> (Inl (ChainBound name (h_alias host)), st)
      | None \<Rightarrow>
          (ok_or (ChainUnknown name) (bt_get (chains (database st)) name),
           set_chains (bt_remove name (chains (database st))) st))"

text \<open>The host is updated in place, one field after the other, through \<open>get_mut\<close>.\<close>

definition record_success ::
  "store_error + u64 \<Rightarrow> rstring \<Rightarrow> StoredAuthMethod \<Rightarrow> HostStore \<Rightarrow> unit store_call" where
  "record_success now_unix alias meth st =
     (case bt_get (hosts (database st)) alias of
        None \<Rightarrow> (Inl (StatsUnknownHost alias), st)
      | Some host \<Rightarrow>
          let put = (\<lambda>stats. set_hosts
                (bt_insert alias (host\<lparr>h_stats := stats\<rparr>) (hosts (database st))) st);
              stats = h_stats host
          in case checked_add_u64 (connection_count stats) 1 of
               None \<Rightarrow> (Inl CounterOverflow, st)
             | Some n \<Rightarrow>
                 (case now_unix of
                    Inl e \<Rightarrow> (Inl e, put (stats\<lparr>connection_count := n\<rparr>))
                  | Inr t \<Rightarrow> (Inr (), put (stats\<lparr>connection_count := n,
                      last_connected_unix := Some t, last_auth_method := Some meth\<rparr>))))"


subsection \<open>The invariant of the store\<close>

definition store_ok :: "(uchar \<Rightarrow> bool) \<Rightarrow> HostStore \<Rightarrow> bool" where
  "store_ok U st \<longleftrightarrow> bt_ok (hosts (database st)) \<and> bt_ok (chains (database st)) \<and>
     db_wf U (database st)"

definition host_entry_wf :: "(uchar \<Rightarrow> bool) \<Rightarrow> HostDatabase \<Rightarrow> rstring \<Rightarrow> HostRecord \<Rightarrow> bool" where
  "host_entry_wf U db k h \<longleftrightarrow> k = h_alias h \<and> host_wf U h \<and>
     (\<forall>n. h_jump_chain h = Some n \<longrightarrow>
        (\<exists>c. bt_get (chains db) n = Some c \<and> h_alias h \<notin> display_name ` set (c_hops c)))"

definition chain_entry_wf :: "(uchar \<Rightarrow> bool) \<Rightarrow> HostDatabase \<Rightarrow> rstring \<Rightarrow> JumpChain \<Rightarrow> bool" where
  "chain_entry_wf U db k c \<longleftrightarrow> k = c_name c \<and> chain_wf U c \<and>
     (\<forall>a. Host a \<in> set (c_hops c) \<longrightarrow> (\<exists>h. bt_get (hosts db) a = Some h \<and> h_role h \<noteq> Target))"

lemma ball_pairs: "(\<forall>(k, v) \<in> S. P k v) \<longleftrightarrow> (\<forall>k v. (k, v) \<in> S \<longrightarrow> P k v)"
  by auto

lemma db_wf_get:
  assumes "bt_ok (hosts db)" and "bt_ok (chains db)"
  shows "db_wf U db \<longleftrightarrow>
     length (folders db) \<le> 4096 \<and> distinct (folders db @ jump_folders db) \<and>
     (\<forall>n \<in> set (folders db) \<union> set (jump_folders db). label_wf U n) \<and>
     version db = 1 \<and> length (hosts db) \<le> 4096 \<and> length (chains db) \<le> 512 \<and>
     (\<forall>k h. bt_get (hosts db) k = Some h \<longrightarrow> host_entry_wf U db k h) \<and>
     (\<forall>k c. bt_get (chains db) k = Some c \<longrightarrow> chain_entry_wf U db k c)"
  unfolding db_wf_def ball_pairs bt_get_iff [OF assms(1)] bt_get_iff [OF assms(2)]
    host_entry_wf_def chain_entry_wf_def by (rule refl)

lemma entry_wf_update [simp]:
  "host_entry_wf U (db\<lparr>hosts := m\<rparr>) = host_entry_wf U db"
  "chain_entry_wf U (db\<lparr>chains := m'\<rparr>) = chain_entry_wf U db"
  by (simp_all add: fun_eq_iff host_entry_wf_def chain_entry_wf_def)

lemma find_None_mem: "List.find P xs = None \<longleftrightarrow> (\<forall>x \<in> set xs. \<not> P x)"
  by (auto simp: find_None_iff)

lemma bt_get_values: "bt_get m k = Some v \<Longrightarrow> v \<in> set (bt_values m)"
  by (force dest: bt_get_SomeD)


text \<open>Changing the record of one host, or dropping a host or chain nothing refers to.\<close>

lemma db_wf_remove_host:
  assumes ok: "bt_ok (hosts db)" "bt_ok (chains db)" and wf: "db_wf U db"
    and free: "\<forall>c \<in> set (bt_values (chains db)). \<not> references_host alias c"
  shows "db_wf U (db\<lparr>hosts := bt_remove alias (hosts db)\<rparr>)"
proof -
  let ?db = "db\<lparr>hosts := bt_remove alias (hosts db)\<rparr>"
  have ok': "bt_ok (hosts ?db)" "bt_ok (chains ?db)" using ok by (simp_all add: bt.ok_remove)
  have "chain_entry_wf U ?db k c" if "bt_get (chains db) k = Some c" for k c
  proof -
    have "chain_entry_wf U db k c" using wf that by (simp add: db_wf_get [OF ok])
    moreover have "\<not> references_host alias c" using free bt_get_values [OF that] by blast
    ultimately show ?thesis
      using ok by (auto simp: chain_entry_wf_def references_host_def bt.get_remove)
  qed
  moreover have "host_entry_wf U ?db k h" if "bt_get (hosts db) k = Some h" for k h
    using wf that by (simp add: db_wf_get [OF ok])
  moreover have "length (bt_remove alias (hosts db)) \<le> 4096"
    using wf length_bt_remove [of "alias" "hosts db"] by (simp add: db_wf_def)
  ultimately show ?thesis
    using wf ok unfolding db_wf_get [OF ok] db_wf_get [OF ok'] by (simp add: bt.get_remove)
qed

lemma db_wf_remove_chain:
  assumes ok: "bt_ok (hosts db)" "bt_ok (chains db)" and wf: "db_wf U db"
    and free: "\<forall>h \<in> set (bt_values (hosts db)). h_jump_chain h \<noteq> Some name"
  shows "db_wf U (db\<lparr>chains := bt_remove name (chains db)\<rparr>)"
proof -
  let ?db = "db\<lparr>chains := bt_remove name (chains db)\<rparr>"
  have ok': "bt_ok (hosts ?db)" "bt_ok (chains ?db)" using ok by (simp_all add: bt.ok_remove)
  have "host_entry_wf U ?db k h" if "bt_get (hosts db) k = Some h" for k h
  proof -
    have "host_entry_wf U db k h" using wf that by (simp add: db_wf_get [OF ok])
    moreover have "h_jump_chain h \<noteq> Some name" using free bt_get_values [OF that] by blast
    ultimately show ?thesis using ok by (auto simp: host_entry_wf_def bt.get_remove)
  qed
  moreover have "chain_entry_wf U ?db k c" if "bt_get (chains db) k = Some c" for k c
    using wf that by (simp add: db_wf_get [OF ok])
  moreover have "length (bt_remove name (chains db)) \<le> 512"
    using wf length_bt_remove [of name "chains db"] by (simp add: db_wf_def)
  ultimately show ?thesis
    using wf ok unfolding db_wf_get [OF ok] db_wf_get [OF ok'] by (simp add: bt.get_remove)
qed

lemma host_wf_stats [simp]: "host_wf U (h\<lparr>h_stats := s\<rparr>) = host_wf U h"
  by (simp add: host_wf_def)

lemma db_wf_stats:
  assumes ok: "bt_ok (hosts db)" "bt_ok (chains db)" and wf: "db_wf U db"
    and h: "bt_get (hosts db) alias = Some host"
  shows "db_wf U (db\<lparr>hosts := bt_insert alias (host\<lparr>h_stats := s\<rparr>) (hosts db)\<rparr>)"
proof -
  let ?db = "db\<lparr>hosts := bt_insert alias (host\<lparr>h_stats := s\<rparr>) (hosts db)\<rparr>"
  have ok': "bt_ok (hosts ?db)" "bt_ok (chains ?db)" using ok by (simp_all add: bt.ok_put)
  have entry: "host_entry_wf U db alias host" using wf h by (simp add: db_wf_get [OF ok])
  then have "host_entry_wf U db alias (host\<lparr>h_stats := s\<rparr>)" by (simp add: host_entry_wf_def)
  then have "host_entry_wf U ?db k g" if "bt_get (hosts ?db) k = Some g" for k g
    using wf that ok by (auto simp: db_wf_get [OF ok] bt.get_put split: if_splits)
  moreover have "chain_entry_wf U ?db k c" if "bt_get (chains db) k = Some c" for k c
    using wf that h ok
    by (fastforce simp: db_wf_get [OF ok] chain_entry_wf_def bt.get_put)
  moreover have "length (hosts ?db) \<le> 4096"
    using wf h ok by (simp add: db_wf_def length_bt_insert)
  ultimately show ?thesis
    using wf unfolding db_wf_get [OF ok] db_wf_get [OF ok'] by simp
qed

subsection \<open>Every operation keeps the invariant, and a failed one changes nothing\<close>

lemma find_cases:
  "(case List.find P xs of Some x \<Rightarrow> f x | None \<Rightarrow> z) = r \<Longrightarrow>
   (\<exists>x. r = f x) \<or> (r = z \<and> (\<forall>x \<in> set xs. \<not> P x))"
  by (auto simp: find_None_iff split: option.splits)

lemma upsert_host_keeps: "store_ok U st \<Longrightarrow> store_ok U (snd (upsert_host U host st))"
  by (auto simp: upsert_host_def store_ok_def Let_def bt_laws validate_ok bt.put_rollback
      split: sum.splits option.splits if_splits)

lemma insert_host_keeps: "store_ok U st \<Longrightarrow> store_ok U (snd (insert_host U host st))"
  by (auto simp: insert_host_def store_ok_def Let_def bt_laws validate_ok bt.remove_put_fresh
      split: sum.splits option.splits if_splits)

lemma upsert_chain_keeps: "store_ok U st \<Longrightarrow> store_ok U (snd (upsert_chain U chain st))"
  by (auto simp: upsert_chain_def store_ok_def Let_def bt_laws validate_ok bt.put_get_same
      bt.remove_put_fresh split: sum.splits option.splits if_splits)

lemma insert_chain_keeps: "store_ok U st \<Longrightarrow> store_ok U (snd (insert_chain U chain st))"
  by (auto simp: insert_chain_def store_ok_def Let_def bt_laws validate_ok bt.remove_put_fresh
      split: sum.splits option.splits if_splits)

lemma remove_host_keeps: "store_ok U st \<Longrightarrow> store_ok U (snd (remove_host alias st))"
  by (auto simp: remove_host_def store_ok_def bt_laws find_None_mem db_wf_remove_host
      split: option.splits)

lemma remove_chain_keeps: "store_ok U st \<Longrightarrow> store_ok U (snd (remove_chain name st))"
  by (auto simp: remove_chain_def store_ok_def bt_laws find_None_mem db_wf_remove_chain
      split: option.splits)

lemma record_success_keeps: "store_ok U st \<Longrightarrow> store_ok U (snd (record_success now alias m st))"
  by (auto simp: record_success_def store_ok_def Let_def bt_laws db_wf_stats
      split: option.splits sum.splits)

lemma bt_ok_fold_remove: "bt_ok m \<Longrightarrow> bt_ok (fold bt_remove ks m)"
  by (induction ks arbitrary: m) (auto simp: bt.ok_remove)

lemma save_folder_db_ok:
  "bt_ok (hosts (save_folder_db n o' r db)) = bt_ok (hosts db)"
  "chains (save_folder_db n o' r db) = chains db"
  by (auto simp: save_folder_db_def Let_def split: option.splits)

lemma save_folder_keeps: "store_ok U st \<Longrightarrow> store_ok U (snd (save_folder U name orig role st))"
  by (auto simp: save_folder_def store_ok_def Let_def validate_ok save_folder_db_ok
      split: sum.splits)

lemma remove_folder_keeps: "store_ok U st \<Longrightarrow> store_ok U (snd (remove_folder U name st))"
  by (auto simp: remove_folder_def store_ok_def Let_def validate_ok bt_ok_fold_remove
      split: sum.splits)

lemmas store_keeps =
  upsert_host_keeps insert_host_keeps upsert_chain_keeps insert_chain_keeps remove_host_keeps
  remove_chain_keeps record_success_keeps save_folder_keeps remove_folder_keeps


lemma upsert_host_unchanged:
  "store_ok U st \<Longrightarrow> fst (upsert_host U host st) = Inl e \<Longrightarrow> snd (upsert_host U host st) = st"
  by (auto simp: upsert_host_def store_ok_def Let_def bt.put_get_same bt.remove_put_fresh
      split: sum.splits option.splits if_splits
      simp del: host_validate_ok chain_validate_ok)

lemma insert_host_unchanged:
  "store_ok U st \<Longrightarrow> fst (insert_host U host st) = Inl e \<Longrightarrow> snd (insert_host U host st) = st"
  by (auto simp: insert_host_def store_ok_def Let_def bt.remove_put_fresh
      split: sum.splits if_splits
      simp del: host_validate_ok chain_validate_ok)

lemma upsert_chain_unchanged:
  "store_ok U st \<Longrightarrow> fst (upsert_chain U chain st) = Inl e \<Longrightarrow> snd (upsert_chain U chain st) = st"
  by (auto simp: upsert_chain_def store_ok_def Let_def bt.put_get_same bt.remove_put_fresh
      split: sum.splits option.splits
      simp del: host_validate_ok chain_validate_ok)

lemma insert_chain_unchanged:
  "store_ok U st \<Longrightarrow> fst (insert_chain U chain st) = Inl e \<Longrightarrow> snd (insert_chain U chain st) = st"
  by (auto simp: insert_chain_def store_ok_def Let_def bt.remove_put_fresh
      split: sum.splits if_splits
      simp del: host_validate_ok chain_validate_ok)

lemma remove_host_unchanged:
  "store_ok U st \<Longrightarrow> fst (remove_host alias st) = Inl e \<Longrightarrow> snd (remove_host alias st) = st"
  by (auto simp: remove_host_def store_ok_def bt.remove_absent split: option.splits)

lemma remove_chain_unchanged:
  "store_ok U st \<Longrightarrow> fst (remove_chain name st) = Inl e \<Longrightarrow> snd (remove_chain name st) = st"
  by (auto simp: remove_chain_def store_ok_def bt.remove_absent split: option.splits)

lemma record_success_unchanged:
  "fst (record_success (Inr t) alias m st) = Inl e \<Longrightarrow>
   snd (record_success (Inr t) alias m st) = st"
  by (auto simp: record_success_def Let_def split: option.splits)

lemma save_folder_unchanged:
  "fst (save_folder U name orig role st) = Inl e \<Longrightarrow> snd (save_folder U name orig role st) = st"
  by (auto simp: save_folder_def Let_def split: sum.splits if_splits simp del: validate_label_ok)

lemma remove_folder_unchanged:
  "fst (remove_folder U name st) = Inl e \<Longrightarrow> snd (remove_folder U name st) = st"
  by (auto simp: remove_folder_def Let_def split: sum.splits if_splits)

lemmas store_unchanged =
  upsert_host_unchanged insert_host_unchanged upsert_chain_unchanged insert_chain_unchanged
  remove_host_unchanged remove_chain_unchanged record_success_unchanged save_folder_unchanged
  remove_folder_unchanged

subsection \<open>The store as a machine\<close>

text \<open>
  The calls of the store. A recorded connection comes with the reading of the clock, \<open>None\<close> when it is
  before the epoch: then the counter has been increased already when the call fails.
\<close>

datatype store_cmd =
    SaveFolder rstring "rstring option" rstring
  | RemoveFolder rstring
  | UpsertHost HostRecord
  | InsertHost HostRecord
  | RemoveHost rstring
  | UpsertChain JumpChain
  | InsertChain JumpChain
  | RemoveChain rstring
  | RecordSuccess "u64 option" rstring StoredAuthMethod

definition finished :: "'a store_call \<Rightarrow> unit store_call" where
  "finished r = (map_ok (\<lambda>_. ()) (fst r), snd r)"

fun store_step :: "(uchar \<Rightarrow> bool) \<Rightarrow> store_cmd \<Rightarrow> HostStore \<Rightarrow> unit store_call" where
  "store_step U (SaveFolder name orig role) st = save_folder U name orig role st"
| "store_step U (RemoveFolder name) st = finished (remove_folder U name st)"
| "store_step U (UpsertHost host) st = finished (upsert_host U host st)"
| "store_step U (InsertHost host) st = insert_host U host st"
| "store_step U (RemoveHost alias) st = finished (remove_host alias st)"
| "store_step U (UpsertChain chain) st = finished (upsert_chain U chain st)"
| "store_step U (InsertChain chain) st = insert_chain U chain st"
| "store_step U (RemoveChain name) st = finished (remove_chain name st)"
| "store_step U (RecordSuccess now alias m) st = record_success (ok_or ClockBeforeEpoch now) alias m st"

fun clock_works :: "store_cmd \<Rightarrow> bool" where
  "clock_works (RecordSuccess now alias m) = (now \<noteq> None)"
| "clock_works _ = True"

lemma finished_simps [simp]:
  "snd (finished r) = snd r" "fst (finished r) = Inl e \<longleftrightarrow> fst r = Inl e"
  by (cases "fst r"; simp add: finished_def)+

interpretation store: atomic_machine "store_step U" "store_ok U" clock_works for U
proof
  show "store_ok U st \<Longrightarrow> store_ok U (snd (store_step U c st))" for st c
    by (cases c) (simp_all add: store_keeps)
  show "store_ok U st \<Longrightarrow> clock_works c \<Longrightarrow> fst (store_step U c st) = Inl e \<Longrightarrow> snd (store_step U c st) = st"
    for st c e
    by (cases c) (auto simp: store_unchanged)
qed

text \<open>What a recorded connection leaves behind when the clock fails: the counter, one higher.\<close>

definition count_connection :: "rstring \<Rightarrow> HostStore \<Rightarrow> HostStore" where
  "count_connection alias st =
     (case bt_get (hosts (database st)) alias of
        None \<Rightarrow> st
      | Some host \<Rightarrow> set_hosts (bt_insert alias (host\<lparr>h_stats := (h_stats host)
          \<lparr>connection_count := connection_count (h_stats host) + 1\<rparr>\<rparr>) (hosts (database st))) st)"

lemma record_success_clock_fails:
  "record_success (Inl e) alias m st = (Inl e', st') \<Longrightarrow> st' = st \<or> e' = e \<and> st' = count_connection alias st"
  by (auto simp: record_success_def count_connection_def Let_def checked_add_u64_def split: option.splits if_splits)

subsection \<open>What opening a file yields\<close>

lemma decode_tables_bt_ok:
  "decode_tables U db raw seen ts = Inr (db', raw') \<Longrightarrow> bt_ok (hosts db) \<Longrightarrow> bt_ok (chains db) \<Longrightarrow>
   bt_ok (hosts db') \<and> bt_ok (chains db')"
proof (induction U db raw seen ts rule: decode_tables.induct)
  case (2 U db raw seen table rest)
  then show ?case
    by (cases "t_kind table") (auto simp: and_then_eq_Inr bt_laws split: if_splits)
qed simp

lemma attach_hops_bt_ok: "attach_hops cs raw = Inr cs' \<Longrightarrow> bt_ok cs \<Longrightarrow> bt_ok cs'"
  by (induction cs raw rule: attach_hops.induct)
    (auto simp: and_then_eq_Inr bt.ok_put split: option.splits)

lemma decode_store_ok:
  assumes "decode U input = Inr db"
  shows "bt_ok (hosts db) \<and> bt_ok (chains db) \<and> db_wf U db"
  using assms
  by (auto simp: decode_def and_then_eq_Inr validate_ok Let_def default_database_def
      dest!: decode_tables_bt_ok dest: attach_hops_bt_ok split: if_splits)

lemma default_database_ok:
  "bt_ok (hosts default_database)" "bt_ok (chains default_database)" "db_wf U default_database"
  using validate_default [of U] by (simp_all only: validate_ok) (simp_all add: default_database_def)

lemma open_store_ok: "open_store U p status = Inr st \<Longrightarrow> store_ok U st"
  by (auto simp: open_store_def and_then_eq_Inr store_ok_def decode_store_ok
      default_database_ok split: file_status.splits if_splits)

text \<open>The status of a file that was written by \<open>save\<close> with mode 0600.\<close>

definition saved_file :: "rstring \<Rightarrow> file_status" where
  "saved_file t = FileFound \<lparr>m_symlink = False, m_mode = Some 0x180, m_is_file = True,
     m_len = of_nat (str_len t), m_text = Some t\<rparr>"

lemma save_textD:
  assumes "save_text U st = Inr t"
  shows "encode U (database st) = Inr t" and "str_len t \<le> 4194304"
  using assms by (auto simp: save_text_def and_then_eq_Inr MAX_STORE_BYTES_def split: if_splits)

lemma open_saved_file:
  assumes "str_len t \<le> 4194304"
  shows "open_store U p (saved_file t) =
    and_then (map_err InCodec (decode U t)) (\<lambda>db. Inr \<lparr>path = p, database = db\<rparr>)"
proof -
  have "\<not> MAX_STORE_BYTES < of_nat (str_len t)"
    using assms by (simp add: word_less_nat_alt MAX_STORE_BYTES_def unat_of_nat)
  moreover have "and (and (0x180 :: u32) 0x1FF) 0x3F = 0" by code_simp
  ultimately show ?thesis
    by (simp add: open_store_def saved_file_def validate_private_file_def)
qed

subsection \<open>Lookup after an update\<close>

lemma upsert_host_result:
  assumes "store_ok U st" and "fst (upsert_host U host st) = Inr previous"
  shows "previous = find_host st (h_alias host)"
    and "find_host (snd (upsert_host U host st)) = (find_host st)(h_alias host \<mapsto> host)"
    and "find_chain (snd (upsert_host U host st)) = find_chain st"
  using assms
  by (auto simp: upsert_host_def store_ok_def Let_def find_host_def find_chain_def fun_eq_iff
      bt.get_put simp del: host_validate_ok split: sum.splits option.splits if_splits)

lemma set_btree_set [simp]: "set (btree_set xs) = set xs"
  by (simp add: btree_set_def)

lemma set_store_folders:
  "set (store_folders st) =
     set (folders (database st)) \<union> set (jump_folders (database st)) \<union> set (all_groups (database st))"
  by (auto simp: store_folders_def Let_def)

lemma save_folder_success:
  assumes "fst (save_folder U name orig role st) = Inr ()"
  shows "database (snd (save_folder U name orig role st)) =
      save_folder_db name orig role (database st) \<and>
    (role = lit ''target'' \<or> role = lit ''jump'') \<and>
    (case orig of None \<Rightarrow> True
     | Some old \<Rightarrow> old \<in> set (store_folders st) \<and> (old \<noteq> name \<longrightarrow> name \<notin> set (store_folders st)))"
proof -
  let ?db = "save_folder_db name orig role (database st)"
  have label: "validate_label U name = Inr ()"
    using assms by (cases "validate_label U name") (simp_all add: save_folder_def)
  have role: "role = lit ''target'' \<or> role = lit ''jump''"
    using assms label by (rule_tac ccontr) (simp add: save_folder_def)
  then have role': "\<not> (role \<noteq> lit ''target'' \<and> role \<noteq> lit ''jump'')" by blast
  note eval = save_folder_def label role' Let_def
  have old: "\<not> (\<exists>old \<in> set_option orig. old \<notin> set (store_folders st))"
    using assms by (rule_tac notI) (simp only: eval sum.case if_True if_False fst_conv, simp)
  have valid: "validate U ?db = Inr ()"
    using assms old
    by (cases "validate U ?db") (simp_all only: eval sum.case if_False, simp_all split: if_splits)
  have dup: "\<not> (case orig of Some old \<Rightarrow> old \<noteq> name \<and> name \<in> set (store_folders st)
      | None \<Rightarrow> name \<in> set (folders (database st)) \<or> name \<in> set (jump_folders (database st)))"
    using assms old by (rule_tac notI) (simp only: eval sum.case if_False if_True, simp)
  have "snd (save_folder U name orig role st) = st\<lparr>database := ?db\<rparr>"
    using old dup valid by (simp only: eval sum.case if_False snd_conv)
  then show ?thesis using role old dup by (auto split: option.splits)
qed

definition regroup :: "rstring \<Rightarrow> rstring option \<Rightarrow> HostRecord \<Rightarrow> HostRecord" where
  "regroup name orig = (case orig of Some old \<Rightarrow> rename_group old name | None \<Rightarrow> id)"

lemma rename_group_same [simp]: "rename_group n n = id"
  by (simp add: rename_group_def fun_eq_iff cong: if_cong)

lemma all_groups_rename:
  "concat (map h_groups (bt_values (bt_map_values (rename_group old name) m))) =
     map (\<lambda>f. if f = old then name else f) (concat (map h_groups (bt_values m)))"
  by (induction m) (auto simp: bt_map_values_def rename_group_def)

lemma save_folder_db_hosts:
  "bt_get (hosts (save_folder_db name orig role db)) a =
     map_option (regroup name orig) (bt_get (hosts db) a)"
  by (cases orig) (auto simp: save_folder_db_def Let_def regroup_def bt_get_map_values
      option.map_id)

lemma save_folder_db_folders:
  assumes "role = lit ''target'' \<or> role = lit ''jump''"
  shows "set (folders (save_folder_db name orig role db)) =
      (set (folders db) - {name} - set_option orig) \<union> (if role = lit ''jump'' then {} else {name})"
    and "set (jump_folders (save_folder_db name orig role db)) =
      (set (jump_folders db) - {name} - set_option orig) \<union>
      (if role = lit ''jump'' then {name} else {})"
  using assms by (cases orig; auto simp: save_folder_db_def Let_def)+

lemma save_folder_db_groups:
  "set (all_groups (save_folder_db name orig role db)) =
     (\<lambda>f. if orig = Some f then name else f) ` set (all_groups db)"
  by (cases orig) (auto simp: save_folder_db_def Let_def all_groups_def all_groups_rename
      simp del: set_concat map_map)

lemma save_folder_names:
  assumes "fst (save_folder U name orig role st) = Inr ()"
  shows "set (store_folders (snd (save_folder U name orig role st))) =
    insert name (set (store_folders st) - set_option orig)"
proof -
  note ok = save_folder_success [OF assms]
  then have role: "role = lit ''target'' \<or> role = lit ''jump''" by blast
  from ok show ?thesis
    unfolding set_store_folders
    by (cases orig) (auto simp: save_folder_db_folders [OF role] save_folder_db_groups)
qed


lemma save_folder_role:
  assumes "fst (save_folder U name orig role st) = Inr ()"
  shows "folder_role (snd (save_folder U name orig role st)) name = role"
  using save_folder_success [OF assms]
    save_folder_db_folders [of role name orig "database st"]
  by (auto simp: folder_role_def)

subsection \<open>Removing a folder\<close>

lemma bt_get_fold_remove:
  "bt_ok m \<Longrightarrow> bt_get (fold bt_remove ks m) k = (if k \<in> set ks then None else bt_get m k)"
  by (induction ks arbitrary: m) (auto simp: bt_laws)

lemma check_unreferenced_ok:
  "check_unreferenced as cs = Inr () \<longleftrightarrow> (\<forall>a \<in> set as. \<forall>c \<in> set cs. \<not> references_host a c)"
  by (induction as cs rule: check_unreferenced.induct)
    (auto simp: find_None_iff find_Some_iff split: option.splits)

definition in_folder :: "rstring \<Rightarrow> HostRecord \<Rightarrow> bool" where
  "in_folder name h \<longleftrightarrow> (\<exists>gs. h_groups h = name # gs)"

lemma in_folder_case: "(case h_groups h of [] \<Rightarrow> False | g # _ \<Rightarrow> g = name) \<longleftrightarrow> in_folder name h"
  by (auto simp: in_folder_def split: list.splits)

lemma remove_folder_success:
  assumes "fst (remove_folder U name st) = Inr aliases"
  shows "aliases = map h_alias (filter (in_folder name) (bt_values (hosts (database st))))"
    and "database (snd (remove_folder U name st)) =
      (database st)\<lparr>folders := filter (\<lambda>f. f \<noteq> name) (folders (database st)),
        jump_folders := filter (\<lambda>f. f \<noteq> name) (jump_folders (database st)),
        hosts := fold bt_remove aliases (hosts (database st))\<rparr>"
    and "\<forall>a \<in> set aliases. \<forall>c \<in> set (bt_values (chains (database st))). \<not> references_host a c"
  using assms unfolding remove_folder_def Let_def in_folder_case check_unreferenced_ok [symmetric]
  by (auto split: if_splits sum.splits)

lemma remove_folder_hosts:
  assumes "store_ok U st" and "fst (remove_folder U name st) = Inr aliases"
  shows "find_host (snd (remove_folder U name st)) a =
    (case find_host st a of Some h \<Rightarrow> if in_folder name h then None else Some h | None \<Rightarrow> None)"
proof -
  note ok = remove_folder_success [OF assms(2)]
  have bt: "bt_ok (hosts (database st))" and wf: "db_wf U (database st)"
    using assms(1) by (simp_all add: store_ok_def)
  have "a \<in> set aliases \<longleftrightarrow> (\<exists>h. bt_get (hosts (database st)) a = Some h \<and> in_folder name h)"
    unfolding ok(1) bt_get_iff [OF bt] using wf by (fastforce simp: db_wf_def image_iff)
  then show ?thesis
    unfolding find_host_def ok(2) by (auto simp: bt_get_fold_remove [OF bt] split: option.splits)
qed

subsection \<open>Listings\<close>

lemma push_new_names:
  "set (map fst (push_new seen names)) = set names - seen \<and>
   distinct (map fst (push_new seen names)) \<and>
   (\<forall>e \<in> set (push_new seen names). snd e = lit ''target'')"
  by (induction seen names rule: push_new.induct) auto

lemma map_fst_sort_key: "map fst (sort_key fst xs) = sort (map fst xs)"
  by (rule sym, rule properties_for_sort) simp_all

lemma folder_entries_names:
  assumes "distinct (folders (database st) @ jump_folders (database st))"
  shows "map fst (folder_entries st) = store_folders st"
proof -
  let ?db = "database st"
  let ?seen = "set (folders ?db @ jump_folders ?db)"
  let ?new = "map fst (push_new ?seen (all_groups ?db))"
  have new: "set ?new = set (all_groups ?db) - ?seen" "distinct ?new"
    using push_new_names [of ?seen "all_groups ?db"] by blast+
  have "map fst (folder_entries st) = sort (folders ?db @ jump_folders ?db @ ?new)"
    by (simp add: folder_entries_def Let_def map_fst_sort_key comp_def)
  moreover have "distinct (folders ?db @ jump_folders ?db @ ?new)"
    using assms new by (auto simp del: set_map)
  moreover have "set (folders ?db @ jump_folders ?db @ ?new) =
      set (folders ?db @ jump_folders ?db @ all_groups ?db)"
    using new(1) by (auto simp del: set_map)
  ultimately show ?thesis
    unfolding store_folders_def btree_set_def Let_def
    by (intro sorted_distinct_set_unique) simp_all
qed

lemma folder_entries_role:
  assumes "distinct (folders (database st) @ jump_folders (database st))"
    and "(name, role) \<in> set (folder_entries st)"
  shows "role = folder_role st name"
proof -
  let ?db = "database st"
  let ?seen = "set (folders ?db @ jump_folders ?db)"
  note new = push_new_names [of ?seen "all_groups ?db"]
  have "(name, role) \<in> set (push_new ?seen (all_groups ?db)) \<Longrightarrow>
      name \<notin> ?seen \<and> role = lit ''target''"
    using new by force
  then show ?thesis
    using assms by (auto simp: folder_entries_def folder_role_def Let_def)
qed

subsection \<open>Properties of the store\<close>

lemma reachable_ok:
  "open_store U p status = Inr st0 \<Longrightarrow> st = run (store_step U) cs st0 \<Longrightarrow> store_ok U st"
  using store.run_keep open_store_ok by blast

text \<open>A store and a history of edits for the examples; the third and the last edit are refused.\<close>

definition empty_store :: HostStore where
  "empty_store = \<lparr>path = [], database = default_database\<rparr>"

lemma empty_store_open: "open_store U [] FileNotFound = Inr empty_store"
  by (simp add: open_store_def empty_store_def)

definition sample_host :: HostRecord where
  "sample_host = (host_new (lit ''web'') (lit ''10.0.0.2'') (lit ''root''))\<lparr>h_groups := [lit ''prod'']\<rparr>"

definition sample_edits :: "store_cmd list" where
  "sample_edits =
     [InsertHost (host_new (lit ''bastion'') (lit ''10.0.0.1'') (lit ''ops'')),
      InsertChain \<lparr>c_name = lit ''via'', c_hops = [Host (lit ''bastion'')]\<rparr>,
      UpsertHost ((host_new (lit ''bastion'') (lit ''10.0.0.1'') (lit ''ops''))
        \<lparr>h_jump_chain := Some (lit ''via'')\<rparr>),
      UpsertHost sample_host,
      SaveFolder (lit ''edge'') None (lit ''jump''),
      RecordSuccess (Some 1700000000) (lit ''web'') StoredAuthMethod.Agent,
      RemoveHost (lit ''bastion'')]"

text \<open>
  C2. The library is valid at every moment. Whatever file the store was opened from and whatever
  sequence of edits follows (folders saved or removed, hosts and chains inserted, replaced or
  removed, connections recorded; successful or refused), the database still passes \<open>validate\<close>:
  no dangling chain or host reference, no target used as a jump, no routing loop, no limit
  exceeded. \<open>remove_host\<close>, \<open>remove_chain\<close> and \<open>record_success\<close> do not revalidate, and need not.
\<close>

theorem store_always_valid:
  assumes "open_store U p status = Inr st"
  shows "validate U (database (run (store_step U) cs st)) = Inr ()"
  using store.run_keep [OF open_store_ok [OF assms]] by (simp add: store_ok_def validate_ok)

theorem store_always_valid_witness:
  "\<exists>st. open_store (\<lambda>_. False) [] FileNotFound = Inr st \<and>
    validate (\<lambda>_. False) (database (run (store_step (\<lambda>_. False)) sample_edits st)) = Inr ()"
proof -
  have "open_store (\<lambda>_. False) [] FileNotFound = Inr \<lparr>path = [], database = default_database\<rparr>"
    by (simp add: open_store_def)
  then show ?thesis using store_always_valid by blast
qed

text \<open>
  C8. Edits are all or nothing, with one exception. A call that reports an error leaves the store as it was
  (the insertions that fail validation are rolled back to the previous record); only \<open>record_success\<close> with a
  clock before the epoch fails after it has increased the counter of that host, and nothing else. So as
  long as the clock works, the store after a history of calls is the store after the successful ones alone.
\<close>

theorem failed_edits_change_nothing:
  assumes "open_store U p status = Inr st0" and "st = run (store_step U) cs st0"
  shows "(\<forall>c e st'. store_step U c st = (Inl e, st') \<longrightarrow>
      st' = st \<or> (\<exists>alias m. c = RecordSuccess None alias m \<and> e = ClockBeforeEpoch \<and> st' = count_connection alias st)) \<and>
    (list_all clock_works cs \<longrightarrow>
      st = run (store_step U) (effective (store_step U) st0 cs) st0 \<and>
      all_ok (store_step U) st0 (effective (store_step U) st0 cs))"
proof (intro conjI allI impI)
  have ok: "store_ok U st" by (rule reachable_ok [OF assms])
  fix c e st'
  assume step: "store_step U c st = (Inl e, st')"
  show "st' = st \<or> (\<exists>alias m. c = RecordSuccess None alias m \<and> e = ClockBeforeEpoch \<and> st' = count_connection alias st)"
  proof (cases "clock_works c")
    case True
    then show ?thesis using store.unchanged [OF ok, of c e] step by simp
  next
    case False
    then obtain name m where "c = RecordSuccess None name m" by (cases c) auto
    then show ?thesis using record_success_clock_fails [of ClockBeforeEpoch name m st e st'] step by auto
  qed
next
  assume "list_all clock_works cs"
  then show "st = run (store_step U) (effective (store_step U) st0 cs) st0"
    using store.run_effective [OF open_store_ok [OF assms(1)]] assms(2) by simp
qed (rule effective_all_ok)

theorem failed_edits_change_nothing_witness:
  "run (store_step (\<lambda>_. False)) sample_edits empty_store =
     run (store_step (\<lambda>_. False)) (effective (store_step (\<lambda>_. False)) empty_store sample_edits) empty_store \<and>
   length (effective (store_step (\<lambda>_. False)) empty_store sample_edits) = 5 \<and> length sample_edits = 7"
proof -
  have "list_all clock_works sample_edits"
    "length (effective (store_step (\<lambda>_. False)) empty_store sample_edits) = 5" "length sample_edits = 7"
    by code_simp+
  then show ?thesis
    using failed_edits_change_nothing [OF empty_store_open refl, of "\<lambda>_. False" sample_edits] by simp
qed

text \<open>
  C9. Saving and opening again restores the library: after any history of edits, successful or refused,
  with a working clock or not, if \<open>save\<close> gets as far as writing the text and the notes are storable
  (\<open>notes_storable\<close>: no control character that the writer leaves as it is and the reader refuses), opening
  the file gives the same store. \<open>unicode_table\<close> says that no letter or digit of Unicode is a control character.
\<close>

theorem save_then_open:
  assumes "unicode_table U" and "open_store U p status = Inr st0"
    and "st = run (store_step U) cs st0"
    and "notes_storable (database st)" and "save_text U st = Inr t"
  shows "open_store U (path st) (saved_file t) = Inr st"
proof -
  have ok: "store_ok U st" using store.run_keep open_store_ok assms(2,3) by blast
  have "decode U t = Inr (database st)"
    using decode_encode_lemma assms(1,4) save_textD [OF assms(5)] ok by (simp add: store_ok_def)
  then show ?thesis by (simp add: open_saved_file [OF save_textD(2) [OF assms(5)]])
qed

theorem save_then_open_witness:
  "\<exists>t. save_text (\<lambda>_. False) (run (store_step (\<lambda>_. False)) sample_edits empty_store) = Inr t \<and>
    open_store (\<lambda>_. False) [] (saved_file t) =
      Inr (run (store_step (\<lambda>_. False)) sample_edits empty_store)"
proof -
  let ?st = "run (store_step (\<lambda>_. False)) sample_edits empty_store"
  have "open_store (\<lambda>_. False) [] FileNotFound = Inr empty_store"
    by (rule empty_store_open)
  moreover have "notes_storable (database ?st)" "is_ok (save_text (\<lambda>_. False) ?st)" "path ?st = []"
    by code_simp+
  moreover have "unicode_table (\<lambda>_. False)" by (simp add: unicode_table_def)
  ultimately show ?thesis using save_then_open unfolding is_ok_iff by metis
qed

text \<open>
  Replacing a host returns the record it replaced, makes the new record the one that is
  looked up under its alias and touches no other host and no chain.
\<close>

theorem upsert_then_lookup:
  assumes "open_store U p status = Inr st0" and "st = run (store_step U) cs st0"
    and "fst (upsert_host U host st) = Inr previous"
  shows "previous = find_host st (h_alias host) \<and>
    find_host (snd (upsert_host U host st)) = (find_host st)(h_alias host \<mapsto> host) \<and>
    find_chain (snd (upsert_host U host st)) = find_chain st"
  using upsert_host_result [OF reachable_ok [OF assms(1,2)] assms(3)] by blast

theorem upsert_then_lookup_witness:
  "find_host (snd (upsert_host (\<lambda>_. False) sample_host empty_store)) (lit ''web'') = Some sample_host"
proof -
  have "open_store (\<lambda>_. False) [] FileNotFound = Inr empty_store"
    by (rule empty_store_open)
  moreover have "fst (upsert_host (\<lambda>_. False) sample_host empty_store) = Inr None"
    "h_alias sample_host = lit ''web''"
    by code_simp+
  ultimately show ?thesis
    using upsert_then_lookup [of "\<lambda>_. False" "[]" FileNotFound empty_store empty_store "[]"
        sample_host None]
    by (simp add: fun_eq_iff)
qed

text \<open>
  Saving a folder creates it, renames it, or moves it to the other area: afterwards the
  folders are the previous ones without the original name and with the new one, the folder has
  the requested role, and every host has the folder's old name replaced by the new one among its
  groups and is otherwise unchanged.
\<close>

theorem save_folder_effect:
  assumes "fst (save_folder U name orig role st) = Inr ()"
  shows "set (store_folders (snd (save_folder U name orig role st))) =
      insert name (set (store_folders st) - set_option orig) \<and>
    folder_role (snd (save_folder U name orig role st)) name = role \<and>
    find_host (snd (save_folder U name orig role st)) =
      (\<lambda>a. map_option (regroup name orig) (find_host st a))"
  using save_folder_names [OF assms] save_folder_role [OF assms] save_folder_success [OF assms]
  by (simp add: find_host_def save_folder_db_hosts fun_eq_iff)

theorem save_folder_effect_witness:
  "folder_role (snd (save_folder (\<lambda>_. False) (lit ''edge'') None (lit ''jump'') empty_store))
     (lit ''edge'') = lit ''jump''"
proof -
  have "fst (save_folder (\<lambda>_. False) (lit ''edge'') None (lit ''jump'') empty_store) = Inr ()"
    by code_simp
  then show ?thesis using save_folder_effect by blast
qed

text \<open>
  Removing a folder deletes exactly the hosts whose first group is that folder, reports their
  aliases, keeps every other host, and is refused while a jump chain goes through one of them.
\<close>

theorem remove_folder_effect:
  assumes "open_store U p status = Inr st0" and "st = run (store_step U) cs st0"
    and "fst (remove_folder U name st) = Inr aliases"
  shows "find_host (snd (remove_folder U name st)) a =
      (case find_host st a of Some h \<Rightarrow> if in_folder name h then None else Some h | None \<Rightarrow> None) \<and>
    aliases = map h_alias (filter (in_folder name) (bt_values (hosts (database st)))) \<and>
    (\<forall>a \<in> set aliases. \<forall>c \<in> set (bt_values (chains (database st))). Host a \<notin> set (c_hops c))"
  using remove_folder_hosts [OF reachable_ok [OF assms(1,2)] assms(3)]
    remove_folder_success [OF assms(3)]
  by (simp add: references_host_def)

theorem remove_folder_effect_witness:
  "find_host (snd (remove_folder (\<lambda>_. False) (lit ''prod'')
     (run (store_step (\<lambda>_. False)) sample_edits empty_store))) (lit ''web'') = None"
proof -
  let ?st = "run (store_step (\<lambda>_. False)) sample_edits empty_store"
  have "fst (remove_folder (\<lambda>_. False) (lit ''prod'') ?st) = Inr [lit ''web'']"
    by code_simp
  moreover have "case find_host ?st (lit ''web'') of Some h \<Rightarrow> in_folder (lit ''prod'') h | None \<Rightarrow> False"
    unfolding in_folder_case [symmetric] by code_simp
  ultimately show ?thesis
    using remove_folder_effect [where cs = sample_edits and U = "\<lambda>_. False" and
        name = "lit ''prod''" and a = "lit ''web''", OF empty_store_open refl]
    by (auto split: option.splits)
qed

text \<open>
  The two folder listings agree: \<open>folder_entries\<close> lists the names of \<open>folders\<close> in the same
  order, each with the area that \<open>folder_role\<close> gives it.
\<close>

theorem folder_listings_agree:
  assumes "open_store U p status = Inr st0" and "st = run (store_step U) cs st0"
  shows "folder_entries st = map (\<lambda>n. (n, folder_role st n)) (store_folders st)"
proof -
  have d: "distinct (folders (database st) @ jump_folders (database st))"
    using reachable_ok [OF assms] by (simp add: store_ok_def db_wf_def)
  have "map (\<lambda>n. (n, folder_role st n)) (map fst (folder_entries st)) = folder_entries st"
    using folder_entries_role [OF d] by (auto simp: comp_def intro!: map_idI)
  then show ?thesis by (simp only: folder_entries_names [OF d])
qed

theorem folder_listings_agree_witness:
  "\<exists>st. open_store (\<lambda>_. False) [] FileNotFound = Inr st \<and>
    folder_entries st = map (\<lambda>n. (n, folder_role st n)) (store_folders st)"
proof -
  have "open_store (\<lambda>_. False) [] FileNotFound = Inr empty_store"
    by (rule empty_store_open)
  then show ?thesis
    using folder_listings_agree [of "\<lambda>_. False" "[]" FileNotFound empty_store empty_store "[]"]
    by simp
qed

text \<open>
  The recent listing shows every host once, the most recently connected first, among equals
  the most often connected first, and then by alias.
\<close>

theorem recent_first_order:
  "mset (hosts_recent_first st) = mset (bt_values (hosts (database st))) \<and>
   sorted_wrt (\<lambda>g h.
     let time = (\<lambda>x. unwrap_or (last_connected_unix (h_stats x)) 0);
         count = (\<lambda>x. connection_count (h_stats x))
     in time h < time g \<or> time g = time h \<and>
        (count h < count g \<or> count g = count h \<and> h_alias g \<le> h_alias h))
     (hosts_recent_first st)"
proof -
  have "sorted_wrt (\<lambda>g h. recency_key g \<le> recency_key h) (hosts_recent_first st)"
    using sorted_sort_key [of recency_key "bt_values (hosts (database st))"]
    unfolding hosts_recent_first_def by (simp only: sorted_map)
  then show ?thesis
    by (auto simp: hosts_recent_first_def recency_key_def Let_def less_eq_prod_def word_less_def
        word_uint_eq_iff elim!: sorted_wrt_mono_rel [rotated])
qed

end
