(* ===== verification/Utf8.thy ===== *)
theory Utf8
  imports Rust_Text
begin

section \<open>Texts as bytes\<close>

text \<open>
  \<open>str::as_bytes\<close> and \<open>String::from_utf8\<close>. The decoder accepts exactly the shortest encodings of
  Unicode scalar values, as the standard library does: no overlong form, no surrogate, nothing
  above U+10FFFF. The two are inverse to each other in both directions, which is what makes the
  wire formats unambiguous. Big-endian numbers (\<open>to_be_bytes\<close>, \<open>from_be_bytes\<close>) are here too.
\<close>

subsection \<open>Encoding and decoding one character\<close>

definition utf8_char :: "uchar \<Rightarrow> nat list" where
  "utf8_char c =
     (let d = c div 64; e = d div 64 in
      if c < 0x80 then [c]
      else if c < 0x800 then [0xC0 + d, 0x80 + c mod 64]
      else if c < 0x10000 then [0xE0 + e, 0x80 + d mod 64, 0x80 + c mod 64]
      else [0xF0 + e div 64, 0x80 + e mod 64, 0x80 + d mod 64, 0x80 + c mod 64])"

definition cont :: "nat \<Rightarrow> bool" where
  "cont b \<longleftrightarrow> 0x80 \<le> b \<and> b < 0xC0"

text \<open>Appending the six bits of a continuation byte.\<close>

definition shift6 :: "nat \<Rightarrow> nat \<Rightarrow> nat" where
  "shift6 acc b = acc * 64 + (b - 0x80)"

fun utf8_next :: "nat list \<Rightarrow> (uchar \<times> nat list) option" where
  "utf8_next [] = None"
| "utf8_next (b0 # rest) =
     (if b0 < 0x80 then Some (b0, rest)
      else if 0xC2 \<le> b0 \<and> b0 < 0xE0 then (case rest of
          b1 # r \<Rightarrow> if cont b1 then Some (shift6 (b0 - 0xC0) b1, r) else None
        | _ \<Rightarrow> None)
      else if 0xE0 \<le> b0 \<and> b0 < 0xF0 then (case rest of
          b1 # b2 # r \<Rightarrow>
            let c = shift6 (shift6 (b0 - 0xE0) b1) b2 in
            if cont b1 \<and> cont b2 \<and> 0x800 \<le> c \<and> scalar c then Some (c, r) else None
        | _ \<Rightarrow> None)
      else if 0xF0 \<le> b0 \<and> b0 < 0xF5 then (case rest of
          b1 # b2 # b3 # r \<Rightarrow>
            let c = shift6 (shift6 (shift6 (b0 - 0xF0) b1) b2) b3 in
            if cont b1 \<and> cont b2 \<and> cont b3 \<and> 0x10000 \<le> c \<and> c < 0x110000
            then Some (c, r) else None
        | _ \<Rightarrow> None)
      else None)"

lemma shift6_last [simp]: "shift6 (c div 64) (0x80 + c mod 64) = c"
  by (simp add: shift6_def)

lemma shift6_div_mod:
  assumes "cont b"
  shows "shift6 acc b div 64 = acc" "0x80 + shift6 acc b mod 64 = b"
proof -
  obtain x where "b = 0x80 + x" "x < 64" using assms by (auto simp: cont_def le_iff_add)
  then show "shift6 acc b div 64 = acc" "0x80 + shift6 acc b mod 64 = b"
    by (simp_all add: shift6_def)
qed

lemma cont_low [simp]: "cont (0x80 + n mod 64)"
  by (simp add: cont_def)

lemma shift6_bounds: "cont b \<Longrightarrow> acc * 64 \<le> shift6 acc b \<and> shift6 acc b < (acc + 1) * 64"
  by (auto simp: shift6_def cont_def)

lemma shift6_less: "cont b \<Longrightarrow> acc < n \<Longrightarrow> shift6 acc b < n * 64"
proof -
  assume "cont b" "acc < n"
  then have "(acc + 1) * 64 \<le> n * 64" by simp
  with shift6_bounds [OF \<open>cont b\<close>, of acc] show ?thesis by linarith
qed

lemma utf8_next_char:
  assumes s: "scalar c"
  shows "utf8_next (utf8_char c @ rest) = Some (c, rest)"
proof -
  consider "c < 0x80" | "0x80 \<le> c" "c < 0x800" | "0x800 \<le> c" "c < 0x10000" | "0x10000 \<le> c"
    by linarith
  then show ?thesis
  proof cases
    case 1
    then show ?thesis by (simp add: utf8_char_def)
  next
    case 2
    have "2 \<le> c div 64" "c div 64 < 32" using 2 by auto
    with 2 show ?thesis by (simp add: utf8_char_def Let_def)
  next
    case 3
    have "c div 64 div 64 < 16" using 3 by (simp add: div_mult2_eq [symmetric])
    with 3 s show ?thesis by (simp add: utf8_char_def Let_def)
  next
    case 4
    have c: "c < 0x110000" using s 4 by (simp add: scalar_def)
    then have "c div 64 div 64 div 64 < 5" by (simp add: div_mult2_eq [symmetric])
    with 4 c show ?thesis by (simp add: utf8_char_def Let_def)
  qed
qed

lemma utf8_next_Some:
  assumes "utf8_next bs = Some (c, rest)"
  shows "scalar c \<and> bs = utf8_char c @ rest"
proof (cases bs)
  case Nil
  with assms show ?thesis by simp
next
  case (Cons b0 bs')
  consider "b0 < 0x80" | "0xC2 \<le> b0" "b0 < 0xE0" | "0xE0 \<le> b0" "b0 < 0xF0"
    | "0xF0 \<le> b0" "b0 < 0xF5"
    using assms Cons by (auto split: if_splits)
  then show ?thesis
  proof cases
    case 1
    with assms Cons show ?thesis by (simp add: utf8_char_def scalar_def)
  next
    case 2
    then obtain b1 where b: "bs' = b1 # rest" "cont b1" "c = shift6 (b0 - 0xC0) b1"
      using assms Cons by (auto split: list.splits if_splits)
    then have "0x80 \<le> c" "c < 0x800" using 2 shift6_bounds [OF b(2), of "b0 - 0xC0"] by auto
    with b 2 Cons show ?thesis
      by (simp add: utf8_char_def Let_def shift6_div_mod scalar_def)
  next
    case 3
    then obtain b1 b2 where b: "bs' = b1 # b2 # rest" "cont b1" "cont b2" "0x800 \<le> c" "scalar c"
        "c = shift6 (shift6 (b0 - 0xE0) b1) b2"
      using assms Cons by (auto split: list.splits if_splits simp: Let_def)
    have "b0 - 0xE0 < 16" using 3 by simp
    from shift6_less [OF b(3) shift6_less [OF b(2) this]] have "c < 0x10000"
      using b(6) by simp
    with b 3 Cons show ?thesis by (simp add: utf8_char_def Let_def shift6_div_mod)
  next
    case 4
    then obtain b1 b2 b3 where b: "bs' = b1 # b2 # b3 # rest" "cont b1" "cont b2" "cont b3"
        "0x10000 \<le> c" "c < 0x110000"
        "c = shift6 (shift6 (shift6 (b0 - 0xF0) b1) b2) b3"
      using assms Cons by (auto split: list.splits if_splits simp: Let_def)
    with 4 Cons show ?thesis by (simp add: utf8_char_def Let_def shift6_div_mod scalar_def)
  qed
qed

lemma utf8_char_length: "length (utf8_char c) = utf8_len c"
  by (simp add: utf8_char_def utf8_len_def Let_def)

lemma utf8_char_bytes: "scalar c \<Longrightarrow> b \<in> set (utf8_char c) \<Longrightarrow> b < 256"
proof -
  assume s: "scalar c" and b: "b \<in> set (utf8_char c)"
  have low: "n mod 64 < 64" for n :: nat by simp
  have "c < 0x800 \<Longrightarrow> c div 64 < 32" "c < 0x10000 \<Longrightarrow> c div 64 div 64 < 16"
    "c < 0x110000 \<Longrightarrow> c div 64 div 64 div 64 < 5" by (simp_all add: div_mult2_eq [symmetric])
  moreover have "c < 0x110000" using s by (auto simp: scalar_def)
  ultimately show "b < 256"
    using b low [of c] low [of "c div 64"] low [of "c div 64 div 64"]
    by (auto simp: utf8_char_def Let_def split: if_splits)
qed

subsection \<open>Whole texts\<close>

definition as_bytes :: "rstring \<Rightarrow> u8 list" where
  "as_bytes s = map of_nat (concat (map utf8_char s))"

function from_utf8_nats :: "nat list \<Rightarrow> rstring option" where
  "from_utf8_nats bs =
     (if bs = [] then Some []
      else case utf8_next bs of
        None \<Rightarrow> None
      | Some (c, rest) \<Rightarrow> map_option (Cons c) (from_utf8_nats rest))"
  by pat_completeness auto
termination
proof (relation "measure length")
  fix bs x c rest
  assume "utf8_next bs = Some x" and "(c, rest) = x"
  then have "bs = utf8_char c @ rest" using utf8_next_Some by blast
  moreover have "utf8_char c \<noteq> []" by (simp add: utf8_char_def Let_def)
  ultimately show "(rest, bs) \<in> measure length" by simp
qed simp

declare from_utf8_nats.simps [simp del]

definition from_utf8 :: "u8 list \<Rightarrow> rstring option" where
  "from_utf8 bs = from_utf8_nats (map unat bs)"

definition is_text :: "rstring \<Rightarrow> bool" where
  "is_text s \<longleftrightarrow> (\<forall>c \<in> set s. scalar c)"

lemma from_utf8_nats_iff:
  "from_utf8_nats bs = Some s \<longleftrightarrow> is_text s \<and> bs = concat (map utf8_char s)"
proof (induction bs arbitrary: s rule: from_utf8_nats.induct)
  case (1 bs)
  show ?case
  proof (cases s)
    case Nil
    then show ?thesis
      by (subst from_utf8_nats.simps) (auto simp: is_text_def split: option.splits)
  next
    case (Cons c s')
    have ne: "utf8_char c \<noteq> []" by (simp add: utf8_char_def Let_def)
    have "from_utf8_nats bs = Some s \<longleftrightarrow>
        (\<exists>rest. utf8_next bs = Some (c, rest) \<and> from_utf8_nats rest = Some s')"
      by (subst from_utf8_nats.simps) (auto simp: Cons split: option.splits)
    also have "\<dots> \<longleftrightarrow> (\<exists>rest. utf8_next bs = Some (c, rest) \<and> is_text s' \<and>
        rest = concat (map utf8_char s'))"
      using "1.IH" by (metis list.distinct(1) option.distinct(1) utf8_next.simps(1))
    also have "\<dots> \<longleftrightarrow> is_text s \<and> bs = concat (map utf8_char s)"
      using utf8_next_Some utf8_next_char by (fastforce simp: Cons is_text_def)
    finally show ?thesis .
  qed
qed

lemma map_unat_of_nat: "\<forall>b \<in> set bs. b < 256 \<Longrightarrow> map unat (map of_nat bs :: u8 list) = bs"
  by (induction bs) (auto simp: unat_of_nat)

lemma from_utf8_iff: "from_utf8 bs = Some s \<longleftrightarrow> is_text s \<and> bs = as_bytes s"
proof -
  have small: "is_text s \<Longrightarrow> \<forall>b \<in> set (concat (map utf8_char s)). b < 256"
    by (auto simp: is_text_def dest: utf8_char_bytes)
  have "map unat bs = concat (map utf8_char s) \<longleftrightarrow> bs = as_bytes s" if "is_text s"
  proof -
    have "map of_nat (map unat bs) = bs" by (simp add: comp_def)
    with map_unat_of_nat [OF small [OF that]] show ?thesis unfolding as_bytes_def by metis
  qed
  then show ?thesis by (auto simp: from_utf8_def from_utf8_nats_iff)
qed

lemma length_as_bytes [simp]: "length (as_bytes s) = str_len s"
  by (induction s) (simp_all add: as_bytes_def utf8_char_length)

subsection \<open>Big-endian numbers\<close>

fun be_bytes :: "nat \<Rightarrow> nat \<Rightarrow> u8 list" where
  "be_bytes 0 v = []"
| "be_bytes (Suc k) v = be_bytes k (v div 256) @ [of_nat (v mod 256)]"

definition from_be :: "u8 list \<Rightarrow> nat" where
  "from_be bs = foldl (\<lambda>a b. a * 256 + unat b) 0 bs"

lemma length_be_bytes [simp]: "length (be_bytes k v) = k"
  by (induction k arbitrary: v) auto

lemma from_be_snoc: "from_be (bs @ [b]) = from_be bs * 256 + unat b"
  by (simp add: from_be_def)

lemma from_be_bytes: "v < 256 ^ k \<Longrightarrow> from_be (be_bytes k v) = v"
proof (induction k arbitrary: v)
  case 0
  then show ?case by (simp add: from_be_def)
next
  case (Suc k)
  then have "v div 256 < 256 ^ k" by (simp add: less_mult_imp_div_less mult.commute)
  with Suc.IH show ?case by (simp add: from_be_snoc unat_of_nat)
qed

lemma from_be_less: "from_be bs < 256 ^ length bs"
proof (induction bs rule: rev_induct)
  case (snoc b bs)
  have "unat b < 256" using unsigned_less [of b, where 'a = nat] by simp
  with snoc show ?case by (simp add: from_be_snoc)
qed (simp add: from_be_def)

lemma be_bytes_from_be: "be_bytes (length bs) (from_be bs) = bs"
proof (induction bs rule: rev_induct)
  case (snoc b bs)
  have "unat b < 256" using unsigned_less [of b, where 'a = nat] by simp
  then have "(from_be bs * 256 + unat b) div 256 = from_be bs"
    "(from_be bs * 256 + unat b) mod 256 = unat b" by simp_all
  with snoc show ?case by (simp add: from_be_snoc)
qed simp

end
