(* ===== verification/Openssh_Match.thy ===== *)
theory Openssh_Match
  imports Utf8
begin

section \<open>Match blocks of the OpenSSH configuration\<close>

text \<open>
  Model of \<open>openssh_match.rs\<close>: the glob matcher with its memo table, the pattern lists of
  \<open>Match originalhost\<close>, and the rewriter that turns the supported \<open>Match\<close> blocks into \<open>Host\<close>
  blocks. Patterns and host names are matched as UTF-8 bytes, as in the source, so that \<open>?\<close> stands
  for one byte. The memo table is threaded through the recursion explicitly. Byte counts are
  naturals: a text in memory is far below \<open>usize::MAX\<close>, so the \<open>checked_add\<close>s cannot fail.
\<close>

datatype (plugins only: code size) match_error =
    PatternListEmpty | PatternListTooLong | SubpatternEmpty | NegatedEmpty | SubpatternTooLong
  | TooManyArguments | MissingCriterion | UnsupportedMatch | QuotedArguments
  | IncludeInMatch nat | MatchSyntax nat match_error | MatchUnsupported nat match_error
  | ConfigTooLarge

definition MAX_CONFIG_BYTES :: nat where "MAX_CONFIG_BYTES = 4 * 1024 * 1024"
definition MAX_MATCH_ARGUMENTS :: nat where "MAX_MATCH_ARGUMENTS = 8"
definition MAX_PATTERN_LIST_BYTES :: nat where "MAX_PATTERN_LIST_BYTES = 16 * 1024"
definition MAX_PATTERN_BYTES :: nat where "MAX_PATTERN_BYTES = 1023"

subsection \<open>Globs with a memo table\<close>

type_synonym memo = "nat \<times> nat \<Rightarrow> bool option"

text \<open>\<open>any\<close> over the candidate positions, passing the table on and stopping at the first success.\<close>

fun any_memo :: "('a \<Rightarrow> 'm \<Rightarrow> bool \<times> 'm) \<Rightarrow> 'a list \<Rightarrow> 'm \<Rightarrow> bool \<times> 'm" where
  "any_memo g [] m = (False, m)"
| "any_memo g (x # xs) m = (case g x m of (r, m') \<Rightarrow> if r then (True, m') else any_memo g xs m')"

lemma any_memo_cong [fundef_cong]:
  "xs = ys \<Longrightarrow> m = m' \<Longrightarrow> (\<And>x n. x \<in> set ys \<Longrightarrow> g x n = h x n) \<Longrightarrow> any_memo g xs m = any_memo h ys m'"
proof (induction xs arbitrary: ys m m')
  case (Cons x xs)
  then show ?case by (auto split: prod.splits)
qed simp

function skip_stars :: "u8 list \<Rightarrow> nat \<Rightarrow> nat" where
  "skip_stars pat n = (if n < length pat \<and> pat ! n = 42 then skip_stars pat (n + 1) else n)"
  by pat_completeness auto
termination
  by (relation "measure (\<lambda>(pat, n). length pat - n)") auto

declare skip_stars.simps [simp del]

lemma skip_stars_ge: "n \<le> skip_stars pat n"
proof (induction pat n rule: skip_stars.induct)
  case (1 pat n)
  then show ?case by (subst skip_stars.simps) (auto split: if_splits)
qed

function match_inner ::
  "u8 list \<Rightarrow> u8 list \<Rightarrow> nat \<Rightarrow> nat \<Rightarrow> memo \<Rightarrow> bool \<times> memo" where
  "match_inner pat cand pi ci memo =
     (case memo (pi, ci) of
        Some result \<Rightarrow> (result, memo)
      | None \<Rightarrow>
          if length pat \<le> pi then (length cand \<le> ci, memo)
          else
            let (result, memo') =
              (if pat ! pi = 42 then
                 let nxt = skip_stars pat (pi + 1) in
                 if length pat \<le> nxt then (True, memo)
                 else any_memo (\<lambda>c m. match_inner pat cand nxt c m) [ci..<length cand + 1] memo
               else if pat ! pi = 63 then
                 if ci < length cand then match_inner pat cand (pi + 1) (ci + 1) memo
                 else (False, memo)
               else
                 if ci < length cand \<and> cand ! ci = pat ! pi
                 then match_inner pat cand (pi + 1) (ci + 1) memo
                 else (False, memo))
            in (result, memo'((pi, ci) \<mapsto> result)))"
  by pat_completeness auto
termination
proof (relation "measure (\<lambda>(pat, cand, pi, ci, m). length pat - pi)"; simp)
  fix pat :: "u8 list" and pi :: nat
  assume "\<not> length pat \<le> pi" "\<not> length pat \<le> skip_stars pat (Suc pi)"
  then show "length pat - skip_stars pat (Suc pi) < length pat - pi"
    using skip_stars_ge [of "Suc pi" pat] by linarith
qed

declare match_inner.simps [simp del]

definition wildcard_match :: "u8 list \<Rightarrow> u8 list \<Rightarrow> bool" where
  "wildcard_match pat cand = fst (match_inner pat cand 0 0 (\<lambda>_. None))"

subsection \<open>Pattern lists\<close>

fun match_subpatterns :: "rstring \<Rightarrow> bool \<Rightarrow> rstring list \<Rightarrow> match_error + bool" where
  "match_subpatterns host got_positive [] = Inr got_positive"
| "match_subpatterns host got_positive (raw # rest) =
     (if raw = [] then Inl SubpatternEmpty
      else
        let (negated, pat) = (case strip_prefix [33] raw of Some p \<Rightarrow> (True, p) | None \<Rightarrow> (False, raw)) in
        if pat = [] then Inl NegatedEmpty
        else if MAX_PATTERN_BYTES < str_len pat then Inl SubpatternTooLong
        else if wildcard_match (as_bytes (to_ascii_lowercase pat)) (as_bytes host) then
          if negated then Inr False else match_subpatterns host True rest
        else match_subpatterns host got_positive rest)"

definition match_hostname_pattern_list :: "rstring \<Rightarrow> rstring \<Rightarrow> match_error + bool" where
  "match_hostname_pattern_list host pattern_list =
     (if pattern_list = [] then Inl PatternListEmpty
      else if MAX_PATTERN_LIST_BYTES < str_len pattern_list then Inl PatternListTooLong
      else match_subpatterns (to_ascii_lowercase host) False
             (split_on (\<lambda>c. c = 44) pattern_list))"

definition evaluate_supported_match :: "rstring list \<Rightarrow> rstring \<Rightarrow> match_error + bool" where
  "evaluate_supported_match arguments original_host =
     (if MAX_MATCH_ARGUMENTS < length arguments then Inl TooManyArguments
      else case arguments of
        [] \<Rightarrow> Inl MissingCriterion
      | [criterion] \<Rightarrow>
          if eq_ignore_ascii_case criterion (lit ''all'') then Inr True else Inl UnsupportedMatch
      | [criterion, pattern_list] \<Rightarrow>
          if eq_ignore_ascii_case criterion (lit ''originalhost'')
          then match_hostname_pattern_list original_host pattern_list
          else Inl UnsupportedMatch
      | _ \<Rightarrow> Inl UnsupportedMatch)"

subsection \<open>Directives and the rewriter\<close>

definition directive_sep :: "uchar \<Rightarrow> bool" where
  "directive_sep c \<longleftrightarrow> is_ascii_whitespace c \<or> c = 61"

definition directive_key :: "rstring \<Rightarrow> rstring option" where
  "directive_key line =
     (let trimmed = trim_start line in
      if trimmed = [] \<or> starts_with [35] trimmed then None
      else Some (takeWhile (\<lambda>c. \<not> directive_sep c) trimmed))"

definition parse_arguments :: "rstring \<Rightarrow> match_error + rstring list" where
  "parse_arguments input =
     (let input = (case split_once 35 input of None \<Rightarrow> input | Some (head, _) \<Rightarrow> head) in
      if list_ex (\<lambda>c. c = 92 \<or> c = 39 \<or> c = 34) input then Inl QuotedArguments
      else Inr (split_ascii_whitespace input))"

definition directive_arguments :: "rstring \<Rightarrow> rstring \<Rightarrow> match_error + rstring list" where
  "directive_arguments line key =
     parse_arguments (trim_start_matches directive_sep (drop (length key) (trim_start line)))"

definition push_line_bounded :: "rstring \<Rightarrow> rstring \<Rightarrow> match_error + rstring" where
  "push_line_bounded output line =
     (if MAX_CONFIG_BYTES < str_len output + (str_len line + 1) then Inl ConfigTooLarge
      else Inr (output @ line @ [10]))"

definition host_star :: rstring where "host_star = lit ''Host *''"

fun rewrite_lines ::
  "rstring \<Rightarrow> nat \<Rightarrow> bool \<Rightarrow> rstring \<Rightarrow> rstring list \<Rightarrow> match_error + rstring" where
  "rewrite_lines host index emit output [] = Inr output"
| "rewrite_lines host index emit output (line # rest) =
     (case directive_key line of
        None \<Rightarrow>
          if emit then
            and_then (push_line_bounded output line) (\<lambda>output'.
              rewrite_lines host (index + 1) emit output' rest)
          else rewrite_lines host (index + 1) emit output rest
      | Some key \<Rightarrow>
          if eq_ignore_ascii_case key (lit ''include'') then Inl (IncludeInMatch (index + 1))
          else if eq_ignore_ascii_case key (lit ''host'') then
            and_then (push_line_bounded output line) (\<lambda>output'.
              rewrite_lines host (index + 1) True output' rest)
          else if eq_ignore_ascii_case key (lit ''match'') then
            and_then (map_err (MatchSyntax (index + 1)) (directive_arguments line key)) (\<lambda>arguments.
            and_then (map_err (MatchUnsupported (index + 1))
                       (evaluate_supported_match arguments host)) (\<lambda>emit'.
              if emit' then
                and_then (push_line_bounded output host_star) (\<lambda>output'.
                  rewrite_lines host (index + 1) emit' output' rest)
              else rewrite_lines host (index + 1) emit' output rest))
          else if emit then
            and_then (push_line_bounded output line) (\<lambda>output'.
              rewrite_lines host (index + 1) emit output' rest)
          else rewrite_lines host (index + 1) emit output rest)"

definition rewrite_supported_match_config :: "rstring \<Rightarrow> rstring \<Rightarrow> match_error + rstring" where
  "rewrite_supported_match_config contents original_host =
     rewrite_lines original_host 0 True (host_star @ [10]) (lines_of contents)"

subsection \<open>Globs: the reference matcher\<close>

fun glob :: "u8 list \<Rightarrow> u8 list \<Rightarrow> bool" where
  "glob [] s = (s = [])"
| "glob (p # ps) s =
     (if p = 42 then list_ex (\<lambda>k. glob ps (drop k s)) [0..<length s + 1]
      else s \<noteq> [] \<and> (p = 63 \<or> hd s = p) \<and> glob ps (tl s))"

lemma glob_star: "glob (42 # ps) s \<longleftrightarrow> (\<exists>k \<le> length s. glob ps (drop k s))"
proof -
  have "glob (42 # ps) s \<longleftrightarrow> (\<exists>k \<in> set [0..<length s + 1]. glob ps (drop k s))"
    by (simp add: list_ex_iff del: upt_Suc)
  also have "\<dots> \<longleftrightarrow> (\<exists>k \<le> length s. glob ps (drop k s))"
    unfolding set_upt by (auto simp: less_Suc_eq_le)
  finally show ?thesis .
qed

declare glob.simps(2) [simp del]

lemma glob_other: "p \<noteq> 42 \<Longrightarrow> glob (p # ps) s \<longleftrightarrow> s \<noteq> [] \<and> (p = 63 \<or> hd s = p) \<and> glob ps (tl s)"
  by (simp add: glob.simps(2))

lemma glob_star_star: "glob (42 # 42 # ps) s \<longleftrightarrow> glob (42 # ps) s"
proof
  assume "glob (42 # 42 # ps) s"
  then obtain k j where "k \<le> length s" "j \<le> length (drop k s)" "glob ps (drop j (drop k s))"
    unfolding glob_star by blast
  then have "j + k \<le> length s" "glob ps (drop (j + k) s)" by simp_all
  then show "glob (42 # ps) s" unfolding glob_star by blast
next
  assume "glob (42 # ps) s"
  then show "glob (42 # 42 # ps) s" unfolding glob_star [of "42 # ps"] by (intro exI [of _ 0]) simp
qed

lemma glob_only_stars: "glob (42 # []) s"
  unfolding glob_star by (intro exI [of _ "length s"]) simp

lemma glob_skip_stars:
  "glob (42 # drop n pat) s \<longleftrightarrow> glob (42 # drop (skip_stars pat n) pat) s"
proof (induction pat n rule: skip_stars.induct)
  case (1 pat n)
  show ?case
  proof (cases "n < length pat \<and> pat ! n = 42")
    case True
    then have "drop n pat = 42 # drop (n + 1) pat"
      using Cons_nth_drop_Suc [of n pat] by simp
    moreover have "skip_stars pat n = skip_stars pat (n + 1)"
      using True by (subst skip_stars.simps) simp
    ultimately show ?thesis using 1 [OF True] by (simp only: glob_star_star)
  next
    case False
    then show ?thesis by (subst skip_stars.simps) auto
  qed
qed

text \<open>The table only holds right answers.\<close>

definition memo_ok :: "u8 list \<Rightarrow> u8 list \<Rightarrow> memo \<Rightarrow> bool" where
  "memo_ok pat cand m \<longleftrightarrow> (\<forall>i j r. m (i, j) = Some r \<longrightarrow> r = glob (drop i pat) (drop j cand))"

lemma any_memo_ok:
  assumes "\<And>x m. x \<in> set xs \<Longrightarrow> ok m \<Longrightarrow> fst (g x m) = P x \<and> ok (snd (g x m))" and "ok m"
  shows "fst (any_memo g xs m) = list_ex P xs \<and> ok (snd (any_memo g xs m))"
  using assms
proof (induction xs arbitrary: m)
  case (Cons x xs)
  obtain r m' where g: "g x m = (r, m')" by (cases "g x m")
  with Cons.prems(1) [of x m] Cons.prems(2) have "r = P x" "ok m'" by auto
  with Cons.IH [of m'] Cons.prems(1) g show ?case by auto
qed simp

lemma glob_drop_step:
  assumes "pi < length pat" and "pat ! pi \<noteq> 42"
  shows "glob (drop pi pat) (drop ci cand) \<longleftrightarrow>
    ci < length cand \<and> (pat ! pi = 63 \<or> cand ! ci = pat ! pi) \<and>
    glob (drop (pi + 1) pat) (drop (ci + 1) cand)"
  using assms
  by (subst Cons_nth_drop_Suc [symmetric]) (auto simp: glob_other hd_drop_conv_nth tl_drop drop_Suc)

lemma glob_drop_star:
  assumes "pi < length pat" and "pat ! pi = 42" and "ci \<le> length cand"
  shows "glob (drop pi pat) (drop ci cand) \<longleftrightarrow>
    (let nxt = skip_stars pat (pi + 1) in
     length pat \<le> nxt \<or> list_ex (\<lambda>c. glob (drop nxt pat) (drop c cand)) [ci..<length cand + 1])"
proof -
  let ?nxt = "skip_stars pat (pi + 1)"
  have "glob (drop pi pat) (drop ci cand) \<longleftrightarrow> glob (42 # drop ?nxt pat) (drop ci cand)"
    using assms Cons_nth_drop_Suc [of pi pat] glob_skip_stars [of "pi + 1" pat] by simp
  also have "\<dots> \<longleftrightarrow> length pat \<le> ?nxt \<or>
      list_ex (\<lambda>c. glob (drop ?nxt pat) (drop c cand)) [ci..<length cand + 1]"
  proof (cases "length pat \<le> ?nxt")
    case True
    then show ?thesis using glob_only_stars by simp
  next
    case False
    have "(\<exists>k \<le> length (drop ci cand). glob (drop ?nxt pat) (drop k (drop ci cand))) \<longleftrightarrow>
        (\<exists>c \<in> {ci..<length cand + 1}. glob (drop ?nxt pat) (drop c cand))"
    proof
      assume "\<exists>k \<le> length (drop ci cand). glob (drop ?nxt pat) (drop k (drop ci cand))"
      then obtain k where "k \<le> length cand - ci" "glob (drop ?nxt pat) (drop (k + ci) cand)" by auto
      with assms(3) show "\<exists>c \<in> {ci..<length cand + 1}. glob (drop ?nxt pat) (drop c cand)"
        by (intro bexI [of _ "k + ci"]) auto
    next
      assume "\<exists>c \<in> {ci..<length cand + 1}. glob (drop ?nxt pat) (drop c cand)"
      then obtain c where "ci \<le> c" "c \<le> length cand" "glob (drop ?nxt pat) (drop c cand)" by auto
      then show "\<exists>k \<le> length (drop ci cand). glob (drop ?nxt pat) (drop k (drop ci cand))"
        by (intro exI [of _ "c - ci"]) auto
    qed
    then show ?thesis using False unfolding glob_star list_ex_iff set_upt by blast
  qed
  finally show ?thesis by (simp add: Let_def)
qed

lemma memo_okD: "memo_ok pat cand m \<Longrightarrow> m (i, j) = Some r \<Longrightarrow> r = glob (drop i pat) (drop j cand)"
  by (simp add: memo_ok_def)

lemma memo_ok_upd:
  "memo_ok pat cand m \<Longrightarrow> r = glob (drop i pat) (drop j cand) \<Longrightarrow> memo_ok pat cand (m((i, j) \<mapsto> r))"
  by (auto simp: memo_ok_def)

lemma match_inner_glob:
  "ci \<le> length cand \<Longrightarrow> memo_ok pat cand m \<Longrightarrow>
     fst (match_inner pat cand pi ci m) = glob (drop pi pat) (drop ci cand) \<and>
     memo_ok pat cand (snd (match_inner pat cand pi ci m))"
proof (induction "length pat - pi" arbitrary: pi ci m rule: less_induct)
  case less
  note ok = less.prems(2)
  consider (hit) r where "m (pi, ci) = Some r" | (ended) "m (pi, ci) = None" "length pat \<le> pi"
    | (star) "m (pi, ci) = None" "pi < length pat" "pat ! pi = 42"
    | (other) "m (pi, ci) = None" "pi < length pat" "pat ! pi \<noteq> 42"
    by (metis not_le option.exhaust)
  then show ?case
  proof cases
    case hit
    then show ?thesis using memo_okD [OF ok hit] ok by (subst (1 2) match_inner.simps) simp
  next
    case ended
    then show ?thesis using ok less.prems(1) by (subst (1 2) match_inner.simps) auto
  next
    case star
    let ?nxt = "skip_stars pat (pi + 1)"
    let ?scan = "any_memo (\<lambda>c m. match_inner pat cand ?nxt c m) [ci..<length cand + 1] m"
    have IH: "fst (match_inner pat cand ?nxt c n) = glob (drop ?nxt pat) (drop c cand) \<and>
        memo_ok pat cand (snd (match_inner pat cand ?nxt c n))"
      if "c \<in> set [ci..<length cand + 1]" "memo_ok pat cand n" for c n
    proof -
      have "length pat - ?nxt < length pat - pi"
        using skip_stars_ge [of "pi + 1" pat] star(2) by linarith
      moreover have "c \<le> length cand" using that(1) by (simp only: set_upt) simp
      ultimately show ?thesis using less.hyps that(2) by blast
    qed
    have scan: "fst ?scan = list_ex (\<lambda>c. glob (drop ?nxt pat) (drop c cand)) [ci..<length cand + 1]
        \<and> memo_ok pat cand (snd ?scan)"
      using any_memo_ok [of "[ci..<length cand + 1]" "memo_ok pat cand"
        "\<lambda>c m. match_inner pat cand ?nxt c m", OF IH ok] .
    note g = glob_drop_star [OF star(2,3) less.prems(1)]
    show ?thesis
    proof (cases "length pat \<le> ?nxt")
      case True
      then have "match_inner pat cand pi ci m = (True, m((pi, ci) \<mapsto> True))"
        using star by (subst match_inner.simps) simp
      then show ?thesis using True g ok by (simp add: memo_ok_upd Let_def)
    next
      case False
      obtain r m' where s: "?scan = (r, m')" by (cases ?scan)
      then have "match_inner pat cand pi ci m = (r, m'((pi, ci) \<mapsto> r))"
        using star False by (subst match_inner.simps) (simp add: Let_def)
      then show ?thesis using scan s g False by (simp add: memo_ok_upd Let_def)
    qed
  next
    case other
    note g = glob_drop_step [OF other(2,3), of ci cand]
    show ?thesis
    proof (cases "ci < length cand \<and> (pat ! pi = 63 \<or> cand ! ci = pat ! pi)")
      case True
      obtain r m' where s: "match_inner pat cand (pi + 1) (ci + 1) m = (r, m')"
        by (cases "match_inner pat cand (pi + 1) (ci + 1) m")
      then have "match_inner pat cand pi ci m = (r, m'((pi, ci) \<mapsto> r))"
        using other True by (subst match_inner.simps) auto
      then show ?thesis
        using less.hyps [of "pi + 1" "ci + 1" m] other(2) True ok s g by (simp add: memo_ok_upd)
    next
      case False
      then have "match_inner pat cand pi ci m = (False, m((pi, ci) \<mapsto> False))"
        using other by (subst match_inner.simps) auto
      then show ?thesis using False g ok by (simp add: memo_ok_upd)
    qed
  qed
qed

lemma wildcard_match_glob: "wildcard_match pat cand = glob pat cand"
  using match_inner_glob [of 0 cand pat "\<lambda>_. None" 0]
  by (simp add: wildcard_match_def memo_ok_def)

subsection \<open>Pattern lists and the rewriter\<close>

definition negated :: "rstring \<Rightarrow> bool" where
  "negated raw \<longleftrightarrow> starts_with [33] raw"

definition pattern_text :: "rstring \<Rightarrow> rstring" where
  "pattern_text raw = (if negated raw then tl raw else raw)"

definition subpattern_ok :: "rstring \<Rightarrow> bool" where
  "subpattern_ok raw \<longleftrightarrow> raw \<noteq> [] \<and> pattern_text raw \<noteq> [] \<and> str_len (pattern_text raw) \<le> MAX_PATTERN_BYTES"

definition subpattern_matches :: "rstring \<Rightarrow> rstring \<Rightarrow> bool" where
  "subpattern_matches host raw \<longleftrightarrow>
     glob (as_bytes (to_ascii_lowercase (pattern_text raw))) (as_bytes (to_ascii_lowercase host))"

lemma match_subpatterns_step:
  "match_subpatterns (to_ascii_lowercase host) got (raw # rest) =
     (if \<not> subpattern_ok raw then
        Inl (if raw = [] then SubpatternEmpty
             else if pattern_text raw = [] then NegatedEmpty else SubpatternTooLong)
      else if subpattern_matches host raw then
        if negated raw then Inr False else match_subpatterns (to_ascii_lowercase host) True rest
      else match_subpatterns (to_ascii_lowercase host) got rest)"
  by (cases raw)
     (auto simp: subpattern_ok_def subpattern_matches_def pattern_text_def negated_def
       strip_prefix_def wildcard_match_glob not_le)

declare match_subpatterns.simps(2) [simp del]

lemma match_subpatterns_True:
  "match_subpatterns (to_ascii_lowercase host) got raws = Inr True \<longleftrightarrow>
     list_all subpattern_ok raws \<and>
     (got \<or> list_ex (\<lambda>r. \<not> negated r \<and> subpattern_matches host r) raws) \<and>
     \<not> list_ex (\<lambda>r. negated r \<and> subpattern_matches host r) raws"
  by (induction raws arbitrary: got) (auto simp: match_subpatterns_step)

lemma match_subpatterns_wf:
  "list_all subpattern_ok raws \<Longrightarrow> \<exists>b. match_subpatterns (to_ascii_lowercase host) got raws = Inr b"
  by (induction raws arbitrary: got) (auto simp: match_subpatterns_step)

lemma directive_key_no_sep: "directive_key line = Some key \<Longrightarrow> c \<in> set key \<Longrightarrow> \<not> directive_sep c"
  by (auto simp: directive_key_def Let_def split: if_splits dest: set_takeWhileD)

text \<open>What the rewriter emits: the first \<open>Host *\<close>, then lines of the input that are neither
  \<open>Match\<close> nor \<open>Include\<close>, or further \<open>Host *\<close>.\<close>

definition structural :: "rstring \<Rightarrow> bool" where
  "structural line \<longleftrightarrow> (case directive_key line of None \<Rightarrow> False
     | Some key \<Rightarrow> eq_ignore_ascii_case key (lit ''match'') \<or> eq_ignore_ascii_case key (lit ''include''))"

lemma host_star_key: "directive_key host_star = Some (lit ''Host'')"
  by code_simp

lemma host_star_plain: "\<not> structural host_star"
  unfolding structural_def host_star_key by code_simp

lemma rewrite_lines_output:
  assumes "rewrite_lines host index emit buf ls = Inr out"
  shows "\<exists>kept. out = buf @ unlines kept \<and>
    set kept \<subseteq> {l \<in> set ls. \<not> structural l} \<union> {host_star} \<and>
    (str_len buf \<le> MAX_CONFIG_BYTES \<longrightarrow> str_len out \<le> MAX_CONFIG_BYTES)"
  using assms
proof (induction ls arbitrary: index emit buf)
  case Nil
  then show ?case by (intro exI [of _ "[]"]) simp
next
  case (Cons line rest)
  have keep: "\<exists>kept. out = buf @ unlines kept \<and>
      set kept \<subseteq> {l \<in> set (line # rest). \<not> structural l} \<union> {host_star} \<and>
      (str_len buf \<le> MAX_CONFIG_BYTES \<longrightarrow> str_len out \<le> MAX_CONFIG_BYTES)"
    if "push_line_bounded buf l = Inr buf'" "rewrite_lines host i e buf' rest = Inr out"
       "l = host_star \<or> (l = line \<and> \<not> structural line)" for l buf' i e
  proof -
    note h = that
    have o: "buf' = buf @ l @ [10]" "str_len buf' \<le> MAX_CONFIG_BYTES"
      using h(1) by (auto simp: push_line_bounded_def utf8_len_def split: if_splits)
    obtain kept where k: "out = buf' @ unlines kept"
        "set kept \<subseteq> {l \<in> set rest. \<not> structural l} \<union> {host_star}" "str_len out \<le> MAX_CONFIG_BYTES"
      using Cons.IH [OF h(2)] o(2) by blast
    show ?thesis using o k h(3) by (intro exI [of _ "l # kept"]) auto
  qed
  have skip: "\<exists>kept. out = buf @ unlines kept \<and>
      set kept \<subseteq> {l \<in> set (line # rest). \<not> structural l} \<union> {host_star} \<and>
      (str_len buf \<le> MAX_CONFIG_BYTES \<longrightarrow> str_len out \<le> MAX_CONFIG_BYTES)"
    if "rewrite_lines host i e buf rest = Inr out" for i e
  proof -
    note h = that
    obtain kept where "out = buf @ unlines kept"
        "set kept \<subseteq> {l \<in> set rest. \<not> structural l} \<union> {host_star}"
        "str_len buf \<le> MAX_CONFIG_BYTES \<longrightarrow> str_len out \<le> MAX_CONFIG_BYTES"
      using Cons.IH [OF h] by blast
    then show ?thesis by (intro exI [of _ kept]) auto
  qed
  show ?case
  proof (cases "directive_key line")
    case None
    then have "\<not> structural line" by (simp add: structural_def)
    with None Cons.prems keep skip show ?thesis
      by (auto simp: and_then_eq_Inr split: if_splits)
  next
    case (Some key)
    have match_host: "\<not> (eq_ignore_ascii_case key (lit ''host'') \<and> eq_ignore_ascii_case key (lit ''match''))"
      by (auto simp: eq_ignore_ascii_case_def lit_simps)
    consider (host) "eq_ignore_ascii_case key (lit ''host'')" "\<not> structural line"
      | (mtch) "eq_ignore_ascii_case key (lit ''match'')" "\<not> eq_ignore_ascii_case key (lit ''host'')"
      | (other) "\<not> eq_ignore_ascii_case key (lit ''match'')" "\<not> eq_ignore_ascii_case key (lit ''host'')"
          "\<not> structural line"
      using Cons.prems Some match_host by (auto simp: structural_def split: if_splits)
    moreover have "\<not> eq_ignore_ascii_case key (lit ''include'')"
      using Cons.prems Some by (auto split: if_splits)
    ultimately show ?thesis
    proof cases
      case host
      with Some Cons.prems keep show ?thesis by (auto simp: and_then_eq_Inr split: if_splits)
    next
      case mtch
      with Some Cons.prems keep skip show ?thesis
        by (auto simp: and_then_eq_Inr split: if_splits)
    next
      case other
      with Some Cons.prems keep skip show ?thesis
        by (auto simp: and_then_eq_Inr split: if_splits)
    qed
  qed
qed

lemma lines_of_no_newline: "l \<in> set (lines_of s) \<Longrightarrow> 10 \<notin> set l"
proof (induction s rule: lines_of.induct)
  case (1 s)
  have strip: "10 \<notin> set (strip_cr (takeWhile (\<lambda>c. c \<noteq> 10) s))"
    by (auto simp: strip_cr_def dest!: in_set_butlastD set_takeWhileD)
  show ?case
  proof (cases "dropWhile (\<lambda>c. c \<noteq> 10) s")
    case Nil
    then have "10 \<notin> set s" by (auto simp: dropWhile_eq_Nil_conv)
    moreover have "lines_of s = (if s = [] then [] else [s])"
      by (subst lines_of.simps) (simp only: Nil list.case)
    ultimately show ?thesis using "1.prems" by (auto split: if_splits)
  next
    case (Cons c rest)
    then have "l = strip_cr (takeWhile (\<lambda>c. c \<noteq> 10) s) \<or> l \<in> set (lines_of rest)"
      using "1.prems" by (subst (asm) lines_of.simps) (simp split: if_splits)
    moreover have "s \<noteq> []" using Cons by auto
    ultimately show ?thesis using "1.IH" Cons strip by blast
  qed
qed

lemma lines_of_unlines_cr:
  "\<forall>l \<in> set ls. 10 \<notin> set l \<Longrightarrow> lines_of (unlines ls) = map strip_cr ls"
  by (induction ls) (simp_all add: lines_of_line)

lemma directive_key_strip_cr: "directive_key (strip_cr l) = directive_key l"
proof (cases "l \<noteq> [] \<and> last l = 13")
  case True
  then obtain k where l: "l = k @ [13]" by (metis append_butlast_last_id)
  have ws: "is_whitespace 13" "directive_sep 13"
    by (simp_all add: is_whitespace_def directive_sep_def is_ascii_whitespace_def)
  have strip: "strip_cr l = k" using l by (simp add: strip_cr_def)
  show ?thesis
  proof (cases "dropWhile is_whitespace k")
    case Nil
    then have "dropWhile is_whitespace l = []"
      using l ws by (simp add: dropWhile_eq_Nil_conv)
    with Nil show ?thesis by (simp add: strip directive_key_def trim_start_matches_def)
  next
    case (Cons c t)
    then have d: "dropWhile is_whitespace l = (c # t) @ [13]"
      using l dropWhile_append3 [of is_whitespace _ k "[13]"]
        dropWhile_eq_Nil_conv [of is_whitespace k] by (auto simp: dropWhile_append)
    have "takeWhile (\<lambda>c. \<not> directive_sep c) ((c # t) @ [13]) = takeWhile (\<lambda>c. \<not> directive_sep c) (c # t)"
      using ws takeWhile_append [of "\<lambda>c. \<not> directive_sep c" "c # t" "[13]"]
        takeWhile_eq_all_conv [of "\<lambda>c. \<not> directive_sep c" "c # t"] by (metis append_Nil2 takeWhile.simps)
    with d Cons show ?thesis by (simp add: strip directive_key_def trim_start_matches_def)
  qed
qed (auto simp: strip_cr_def)

lemma structural_strip_cr [simp]: "structural (strip_cr l) = structural l"
  by (simp add: structural_def directive_key_strip_cr)

lemma rewrite_supported_output:
  assumes "rewrite_supported_match_config contents host = Inr out"
  shows "(\<forall>l \<in> set (lines_of out). \<not> structural l) \<and> str_len out \<le> MAX_CONFIG_BYTES \<and>
    hd (lines_of out) = host_star"
proof -
  obtain kept where out: "out = (host_star @ [10]) @ unlines kept"
      and kept: "set kept \<subseteq> {l \<in> set (lines_of contents). \<not> structural l} \<union> {host_star}"
      and size: "str_len (host_star @ [10]) \<le> MAX_CONFIG_BYTES \<longrightarrow> str_len out \<le> MAX_CONFIG_BYTES"
    using rewrite_lines_output [OF assms [unfolded rewrite_supported_match_config_def]] by blast
  have star: "10 \<notin> set host_star" "strip_cr host_star = host_star"
      "str_len (host_star @ [10]) \<le> MAX_CONFIG_BYTES"
    by code_simp+
  have "out = unlines (host_star # kept)" using out by simp
  moreover have "\<forall>l \<in> set (host_star # kept). 10 \<notin> set l"
    using kept lines_of_no_newline star by auto
  ultimately have "lines_of out = map strip_cr (host_star # kept)"
    using lines_of_unlines_cr [of "host_star # kept"] by (simp only:)
  then show ?thesis using kept host_star_plain size star by auto
qed

subsection \<open>Properties of Match blocks\<close>

text \<open>
  The memoising glob matcher is the plain one: for every pattern and candidate, with stars
  collapsed and answers remembered, \<open>wildcard_match\<close> returns what the recursive definition of
  \<open>*\<close> (any bytes), \<open>?\<close> (one byte) and literals gives.
\<close>

theorem memo_glob_correct: "wildcard_match pat cand = glob pat cand"
  by (rule wildcard_match_glob)

text \<open>
  A pattern list accepts a host exactly when every sub-pattern is well-formed, some plain
  sub-pattern matches and no negated one does (case-insensitively); with well-formed sub-patterns
  the answer is never an error.
\<close>

theorem pattern_list_semantics:
  assumes "pats \<noteq> []" and "str_len pats \<le> MAX_PATTERN_LIST_BYTES"
  shows "let raws = split_on (\<lambda>c. c = 44) pats in
    (match_hostname_pattern_list host pats = Inr True \<longleftrightarrow>
       list_all subpattern_ok raws \<and>
       list_ex (\<lambda>r. \<not> negated r \<and> subpattern_matches host r) raws \<and>
       \<not> list_ex (\<lambda>r. negated r \<and> subpattern_matches host r) raws) \<and>
    (list_all subpattern_ok raws \<longrightarrow> is_ok (match_hostname_pattern_list host pats))"
  using assms match_subpatterns_True [of host False] match_subpatterns_wf
  by (auto simp: match_hostname_pattern_list_def Let_def is_ok_iff)

theorem pattern_list_semantics_witness:
  "match_hostname_pattern_list (lit ''Prod.Example'') (lit ''*.example,!dev.*'') = Inr True"
proof -
  have "lit ''*.example,!dev.*'' \<noteq> []" "str_len (lit ''*.example,!dev.*'') \<le> MAX_PATTERN_LIST_BYTES"
    by code_simp+
  moreover have "list_all subpattern_ok (split_on (\<lambda>c. c = 44) (lit ''*.example,!dev.*''))"
    "list_ex (\<lambda>r. \<not> negated r \<and> subpattern_matches (lit ''Prod.Example'') r)
       (split_on (\<lambda>c. c = 44) (lit ''*.example,!dev.*''))"
    "\<not> list_ex (\<lambda>r. negated r \<and> subpattern_matches (lit ''Prod.Example'') r)
       (split_on (\<lambda>c. c = 44) (lit ''*.example,!dev.*''))"
    by code_simp+
  ultimately show ?thesis
    using pattern_list_semantics [of "lit ''*.example,!dev.*''" "lit ''Prod.Example''"]
    unfolding Let_def by blast
qed

text \<open>
  The rewritten configuration is safe for the downstream parser: it starts with \<open>Host *\<close>, has no
  \<open>Match\<close> or \<open>Include\<close> directive left on any line, and stays within the size limit.
\<close>

theorem rewrite_leaves_no_structure:
  assumes "rewrite_supported_match_config contents host = Inr out"
  shows "list_all (\<lambda>l. \<not> structural l) (lines_of out) \<and> hd (lines_of out) = host_star \<and>
    str_len out \<le> MAX_CONFIG_BYTES"
  using rewrite_supported_output [OF assms] by (simp add: list_all_iff)

definition sample_config :: rstring where
  "sample_config =
     unlines (map lit [''Host prod'', ''  User a'', ''Match originalhost P*'', ''  Port 2200'',
                       ''match originalhost other'', ''  User b''])"

theorem rewrite_leaves_no_structure_witness:
  "\<exists>out. rewrite_supported_match_config sample_config (lit ''prod'') = Inr out \<and>
     list_all (\<lambda>l. \<not> structural l) (lines_of out)"
proof -
  have "is_ok (rewrite_supported_match_config sample_config (lit ''prod''))" by code_simp
  then show ?thesis using rewrite_leaves_no_structure unfolding is_ok_iff by blast
qed

end
