(* ===== verification/Connection_Config.thy ===== *)
theory Connection_Config
  imports Openssh_Match
begin

section \<open>Connection configuration and ProxyJump specifications\<close>

text \<open>
  Model of \<open>config.rs\<close> of the core crate: how a target alias and a ProxyJump specification become
  connection parameters. The OpenSSH configuration is read through the third-party parser
  \<open>russh_config\<close> from text that the Include expander produces; both, and the state of the file,
  are the parameter \<open>W\<close> (a \<open>ConfigWorld\<close>). The home directory contains \<open>.ssh/config\<close> by
  construction of \<open>openssh_config_path\<close>, so that its two parents exist. A \<open>Duration\<close> is its number of
  nanoseconds, a \<open>PathBuf\<close> its text. \<open>Ipv6Addr::from_str\<close> is the standard library's parser, of
  which only acceptance matters here.
\<close>

datatype (plugins only: code size) config_error =
    TokenEmpty rstring | TokenDash rstring | TokenUnsafe rstring
  | InspectFailed | ExpandFailed | ParseFailed | StructuralDirective nat
  | EmptyHop | NoneCombined | TooManyHops | HopWhitespace rstring
  | UriNoDestination | UriExtra | UriScheme | ManyAts rstring | UserEmpty | JumpHostEmpty
  | HostWhitespace rstring | MissingBracket | Ipv6Empty | Ipv6Invalid | PortEmpty | PortInvalid
  | AddressSuffix rstring | BracketPlacement rstring
  | TimeoutZero rstring

definition MAX_JUMP_HOPS :: nat where "MAX_JUMP_HOPS = 8"

text \<open>The characters \<open>'`"$\;&<>|(){}\<close>.\<close>

definition SHELL_ACTIVE_TOKEN_CHARS :: rstring where
  "SHELL_ACTIVE_TOKEN_CHARS = [39, 96, 34, 36, 92, 59, 38, 60, 62, 124, 40, 41, 123, 125]"

type_synonym duration = nat

definition from_secs :: "nat \<Rightarrow> duration" where "from_secs n = n * 1000000000"

definition DEFAULT_CONNECT_TIMEOUT :: duration where "DEFAULT_CONNECT_TIMEOUT = from_secs 15"
definition DEFAULT_CHANNEL_OPEN_TIMEOUT :: duration where "DEFAULT_CHANNEL_OPEN_TIMEOUT = from_secs 15"
definition DEFAULT_CHANNEL_REQUEST_TIMEOUT :: duration where
  "DEFAULT_CHANNEL_REQUEST_TIMEOUT = from_secs 15"
definition DEFAULT_AUTHENTICATION_TIMEOUT :: duration where
  "DEFAULT_AUTHENTICATION_TIMEOUT = from_secs 30"

datatype HostKeyPolicy = Strict | AcceptNew | Insecure

record JumpHost =
  jh_alias :: rstring
  jh_host :: rstring
  jh_port :: u16
  jh_username :: rstring
  jh_identity_files :: "rstring list"
  jh_host_key_policy :: HostKeyPolicy
  jh_known_hosts_file :: "rstring option"

datatype ConnectionRouteSnapshot = Direct | ProxyCommand | ProxyJump "JumpHost list"

record ConnectionConfigSnapshot =
  sn_alias :: rstring
  sn_host :: rstring
  sn_port :: u16
  sn_username :: rstring
  sn_identity_files :: "rstring list"
  sn_host_key_policy :: HostKeyPolicy
  sn_known_hosts_file :: "rstring option"
  sn_keepalive_interval :: "duration option"
  sn_inactivity_timeout :: "duration option"
  sn_route :: ConnectionRouteSnapshot
  sn_agent_forwarding :: bool

record ConnectionConfig =
  cc_alias :: rstring
  cc_host :: rstring
  cc_port :: u16
  cc_username :: rstring
  cc_identity_files :: "rstring list"
  cc_host_key_policy :: HostKeyPolicy
  cc_known_hosts_file :: "rstring option"
  cc_keepalive_interval :: "duration option"
  cc_inactivity_timeout :: "duration option"
  cc_connect_timeout :: duration
  cc_channel_open_timeout :: duration
  cc_channel_request_timeout :: duration
  cc_authentication_timeout :: duration
  cc_proxy_command :: "rstring option"
  cc_jump_hosts :: "JumpHost list"
  cc_agent_forwarding :: bool

text \<open>What the third-party parser returns for one alias, and the surroundings it works in.\<close>

record ParsedConfig =
  pc_host :: rstring
  pc_user :: rstring
  pc_port :: u16
  pc_identity_file :: "rstring list option"
  pc_user_known_hosts_file :: "rstring option"
  pc_proxy_command :: "rstring option"
  pc_proxy_jump :: "rstring option"
  pc_strict_host_key_checking :: "bool option"

datatype config_metadata = Present | NotFound | MetadataFailed

record ConfigWorld =
  user_home_dir :: "rstring option"
  config_metadata :: config_metadata
  expand_user_config :: "rstring \<Rightarrow> rstring option"
  russh_parse :: "rstring \<Rightarrow> rstring \<Rightarrow> ParsedConfig option"
  russh_default :: "rstring \<Rightarrow> ParsedConfig"

subsection \<open>Numbers and addresses of the standard library\<close>

text \<open>\<open>str::parse::<u16>\<close>: an optional plus sign, digits, no overflow.\<close>

definition parse_u16 :: "rstring \<Rightarrow> u16 option" where
  "parse_u16 s =
     (let d = (case s of [] \<Rightarrow> [] | c # t \<Rightarrow> if c = 43 \<and> t \<noteq> [] then t else s) in
      if d \<noteq> [] \<and> list_all is_ascii_digit d \<and> digits_value d < 2 ^ 16
      then Some (of_nat (digits_value d)) else None)"

definition is_hex_digit :: "uchar \<Rightarrow> bool" where
  "is_hex_digit c \<longleftrightarrow> is_ascii_digit c \<or> (97 \<le> c \<and> c \<le> 102) \<or> (65 \<le> c \<and> c \<le> 70)"

text \<open>\<open>read_number\<close> with a limit on the digits; the rest of the input on success.\<close>

definition read_hex_group :: "rstring \<Rightarrow> rstring option" where
  "read_hex_group s =
     (let n = length (takeWhile is_hex_digit s) in
      if n = 0 \<or> 4 < n then None else Some (drop n s))"

definition read_octet :: "rstring \<Rightarrow> rstring option" where
  "read_octet s =
     (let ds = takeWhile is_ascii_digit s; n = length ds in
      if n = 0 \<or> 3 < n \<or> (hd s = 48 \<and> 1 < n) \<or> 255 < digits_value ds then None
      else Some (drop n s))"

definition read_separator ::
  "uchar \<Rightarrow> nat \<Rightarrow> (rstring \<Rightarrow> rstring option) \<Rightarrow> rstring \<Rightarrow> rstring option" where
  "read_separator sep index inner s =
     (if 0 < index
      then (case s of [] \<Rightarrow> None | c # t \<Rightarrow> if c = sep then inner t else None)
      else inner s)"

definition read_ipv4_addr :: "rstring \<Rightarrow> rstring option" where
  "read_ipv4_addr s =
     Option.bind (read_separator 46 0 read_octet s) (\<lambda>s.
     Option.bind (read_separator 46 1 read_octet s) (\<lambda>s.
     Option.bind (read_separator 46 2 read_octet s) (\<lambda>s.
     read_separator 46 3 read_octet s)))"

text \<open>\<open>read_groups\<close>: how many 16-bit groups were read, whether the last two are an IPv4 address.\<close>

function read_groups :: "nat \<Rightarrow> nat \<Rightarrow> rstring \<Rightarrow> nat \<times> bool \<times> rstring" where
  "read_groups limit i s =
     (if limit \<le> i then (limit, False, s)
      else case (if i < limit - 1 then read_separator 58 i read_ipv4_addr s else None) of
        Some t \<Rightarrow> (i + 2, True, t)
      | None \<Rightarrow> (case read_separator 58 i read_hex_group s of
          Some t \<Rightarrow> read_groups limit (i + 1) t
        | None \<Rightarrow> (i, False, s)))"
  by pat_completeness auto
termination
  by (relation "measure (\<lambda>(limit, i, s). limit - i)") auto

declare read_groups.simps [simp del]

definition parse_ipv6 :: "rstring \<Rightarrow> bool" where
  "parse_ipv6 s =
     (case read_groups 8 0 s of (head_size, head_ipv4, t) \<Rightarrow>
        if head_size = 8 then t = []
        else if head_ipv4 then False
        else case strip_prefix [58, 58] t of
            None \<Rightarrow> False
          | Some u \<Rightarrow> (case read_groups (8 - (head_size + 1)) 0 u of (_, _, v) \<Rightarrow> v = []))"

subsection \<open>Parsing a hop\<close>

definition validate_untrusted_shell_token :: "rstring \<Rightarrow> rstring \<Rightarrow> config_error + unit" where
  "validate_untrusted_shell_token value role =
     (if value = [] then Inl (TokenEmpty role)
      else if starts_with [45] value then Inl (TokenDash role)
      else if list_ex (\<lambda>ch. is_whitespace ch \<or> is_control ch \<or> ch \<in> set SHELL_ACTIVE_TOKEN_CHARS) value
      then Inl (TokenUnsafe role)
      else Inr ())"

definition parse_jump_destination :: "rstring \<Rightarrow> config_error + (rstring option \<times> rstring)" where
  "parse_jump_destination spec =
     and_then
       (case strip_prefix (lit ''ssh://'') spec of
          Some uri \<Rightarrow>
            if uri = [] then Inl UriNoDestination
            else if 47 \<in> set uri \<or> 63 \<in> set uri \<or> 35 \<in> set uri then Inl UriExtra
            else Inr uri
        | None \<Rightarrow> if contains (lit ''://'') spec then Inl UriScheme else Inr spec)
       (\<lambda>destination.
         if 1 < count_list destination 64 then Inl (ManyAts spec)
         else case split_once 64 destination of
           Some (user, host_port) \<Rightarrow>
             if user = [] then Inl UserEmpty
             else if host_port = [] then Inl JumpHostEmpty
             else Inr (Some user, host_port)
         | None \<Rightarrow> Inr (None, destination))"

definition parse_bracketed :: "rstring \<Rightarrow> config_error + (rstring \<times> u16 option)" where
  "parse_bracketed rest =
     (case split_once 93 rest of
        None \<Rightarrow> Inl MissingBracket
      | Some (host, suffix) \<Rightarrow>
          if host = [] then Inl Ipv6Empty
          else if \<not> parse_ipv6 host then Inl Ipv6Invalid
          else case suffix of
              [] \<Rightarrow> Inr (host, None)
            | c # port \<Rightarrow>
                if c = 58 then
                  if port = [] then Inl PortEmpty
                  else and_then (ok_or PortInvalid (parse_u16 port)) (\<lambda>p. Inr (host, Some p))
                else Inl (AddressSuffix suffix))"

definition parse_host_port :: "rstring \<Rightarrow> config_error + (rstring \<times> u16 option)" where
  "parse_host_port v =
     (if v = [] then Inl JumpHostEmpty
      else if list_ex (\<lambda>ch. is_whitespace ch \<or> is_control ch) v then Inl (HostWhitespace v)
      else case strip_prefix [91] v of
        Some rest \<Rightarrow> parse_bracketed rest
      | None \<Rightarrow>
          if 91 \<in> set v \<or> 93 \<in> set v then Inl (BracketPlacement v)
          else if count_list v 58 = 0 then Inr (v, None)
          else if count_list v 58 = 1 then
            (case rsplit_once 58 v of
               None \<Rightarrow> Inl PortInvalid
             | Some (host, port) \<Rightarrow>
                 if host = [] then Inl JumpHostEmpty
                 else if port = [] then Inl PortEmpty
                 else if \<not> list_all is_ascii_digit port then Inl PortInvalid
                 else and_then (ok_or PortInvalid (parse_u16 port)) (\<lambda>p. Inr (host, Some p)))
          else if parse_ipv6 v then Inr (v, None) else Inl Ipv6Invalid)"

fun host_key_policy_from_config :: "bool option \<Rightarrow> HostKeyPolicy" where
  "host_key_policy_from_config (Some True) = HostKeyPolicy.Strict"
| "host_key_policy_from_config (Some False) = HostKeyPolicy.Insecure"
| "host_key_policy_from_config None = HostKeyPolicy.AcceptNew"

subsection \<open>Reading the OpenSSH configuration\<close>

fun reject_lines :: "nat \<Rightarrow> rstring list \<Rightarrow> config_error + unit" where
  "reject_lines index [] = Inr ()"
| "reject_lines index (raw # rest) =
     (let line = trim_start raw in
      if line = [] \<or> starts_with [35] line then reject_lines (index + 1) rest
      else
        let key = hd (split_on (\<lambda>ch. is_ascii_whitespace ch \<or> ch = 61) line) in
        if eq_ignore_ascii_case key (lit ''match'') \<or> eq_ignore_ascii_case key (lit ''include'')
        then Inl (StructuralDirective (index + 1))
        else reject_lines (index + 1) rest)"

definition reject_unsupported_structural_directives :: "rstring \<Rightarrow> config_error + unit" where
  "reject_unsupported_structural_directives contents = reject_lines 0 (lines_of contents)"

definition parse_openssh_contents ::
  "ConfigWorld \<Rightarrow> rstring \<Rightarrow> rstring \<Rightarrow> config_error + ParsedConfig" where
  "parse_openssh_contents W contents alias =
     and_then (reject_unsupported_structural_directives contents) (\<lambda>_.
       ok_or ParseFailed (russh_parse W contents alias))"

definition parse_home_config :: "ConfigWorld \<Rightarrow> rstring \<Rightarrow> config_error + ParsedConfig" where
  "parse_home_config W alias =
     (case user_home_dir W of
        None \<Rightarrow> Inr (russh_default W alias)
      | Some home \<Rightarrow>
          (case config_metadata W of
             NotFound \<Rightarrow> Inr (russh_default W alias)
           | MetadataFailed \<Rightarrow> Inl InspectFailed
           | Present \<Rightarrow>
               and_then (ok_or ExpandFailed (expand_user_config W alias)) (\<lambda>contents.
                 parse_openssh_contents W contents alias)))"

subsection \<open>Resolving jump hosts and targets\<close>

text \<open>The value that \<open>resolve_jump_host\<close> returns.\<close>

definition jump_host_of :: "rstring \<Rightarrow> rstring option \<Rightarrow> u16 option \<Rightarrow> ParsedConfig \<Rightarrow> JumpHost" where
  "jump_host_of alias user_override port_override parsed =
     \<lparr>jh_alias = alias, jh_host = pc_host parsed,
      jh_port = (case port_override of Some p \<Rightarrow> p | None \<Rightarrow> pc_port parsed),
      jh_username = (case user_override of Some u \<Rightarrow> u | None \<Rightarrow> pc_user parsed),
      jh_identity_files = (case pc_identity_file parsed of Some fs \<Rightarrow> fs | None \<Rightarrow> []),
      jh_host_key_policy = host_key_policy_from_config (pc_strict_host_key_checking parsed),
      jh_known_hosts_file = pc_user_known_hosts_file parsed\<rparr>"

definition resolve_jump_host :: "ConfigWorld \<Rightarrow> bool \<Rightarrow> rstring \<Rightarrow> config_error + JumpHost" where
  "resolve_jump_host W validate_untrusted spec =
     (if list_ex (\<lambda>ch. is_whitespace ch \<or> is_control ch) spec then Inl (HopWhitespace spec)
      else
        and_then (parse_jump_destination spec) (\<lambda>(user_override, host_port).
        and_then (parse_host_port host_port) (\<lambda>(alias, port_override).
        and_then
          (if validate_untrusted then
             and_then (validate_untrusted_shell_token alias (lit ''ProxyJump host'')) (\<lambda>_.
               case user_override of
                 None \<Rightarrow> Inr ()
               | Some username \<Rightarrow>
                   validate_untrusted_shell_token username (lit ''ProxyJump username''))
           else Inr ()) (\<lambda>_.
        and_then (parse_home_config W alias) (\<lambda>parsed.
          Inr (jump_host_of alias user_override port_override parsed))))))"

definition resolve_jump_hosts_internal ::
  "ConfigWorld \<Rightarrow> rstring \<Rightarrow> bool \<Rightarrow> config_error + JumpHost list" where
  "resolve_jump_hosts_internal W raw_spec validate_untrusted =
     (let spec = trim raw_spec in
      if spec = [] \<or> eq_ignore_ascii_case spec (lit ''none'') then Inr []
      else
        let raw_hops = map trim (split_on (\<lambda>c. c = 44) spec) in
        if list_ex (\<lambda>hop. hop = []) raw_hops then Inl EmptyHop
        else if list_ex (\<lambda>hop. eq_ignore_ascii_case hop (lit ''none'')) raw_hops then Inl NoneCombined
        else if MAX_JUMP_HOPS < length raw_hops then Inl TooManyHops
        else try_map (resolve_jump_host W validate_untrusted) raw_hops)"

definition resolve_jump_hosts :: "ConfigWorld \<Rightarrow> rstring \<Rightarrow> config_error + JumpHost list" where
  "resolve_jump_hosts W spec = resolve_jump_hosts_internal W spec True"

definition config_new :: "rstring \<Rightarrow> rstring \<Rightarrow> ConnectionConfig" where
  "config_new host username =
     \<lparr>cc_alias = host, cc_host = host, cc_port = 22, cc_username = username,
      cc_identity_files = [], cc_host_key_policy = HostKeyPolicy.AcceptNew,
      cc_known_hosts_file = None, cc_keepalive_interval = Some (from_secs 30),
      cc_inactivity_timeout = None, cc_connect_timeout = DEFAULT_CONNECT_TIMEOUT,
      cc_channel_open_timeout = DEFAULT_CHANNEL_OPEN_TIMEOUT,
      cc_channel_request_timeout = DEFAULT_CHANNEL_REQUEST_TIMEOUT,
      cc_authentication_timeout = DEFAULT_AUTHENTICATION_TIMEOUT,
      cc_proxy_command = None, cc_jump_hosts = [], cc_agent_forwarding = False\<rparr>"

definition from_openssh ::
  "ConfigWorld \<Rightarrow> rstring \<Rightarrow> rstring option \<Rightarrow> u16 option \<Rightarrow> config_error + ConnectionConfig" where
  "from_openssh W alias username_override port_override =
     and_then (validate_untrusted_shell_token alias (lit ''SSH host'')) (\<lambda>_.
     and_then (case username_override of
                 None \<Rightarrow> Inr ()
               | Some username \<Rightarrow> validate_untrusted_shell_token username (lit ''SSH username'')) (\<lambda>_.
     and_then (parse_home_config W alias) (\<lambda>parsed.
       let config = (config_new (pc_host parsed)
             (case username_override of Some u \<Rightarrow> u | None \<Rightarrow> pc_user parsed))
           \<lparr>cc_alias := alias,
            cc_port := (case port_override of Some p \<Rightarrow> p | None \<Rightarrow> pc_port parsed),
            cc_identity_files := (case pc_identity_file parsed of Some fs \<Rightarrow> fs | None \<Rightarrow> []),
            cc_known_hosts_file := pc_user_known_hosts_file parsed,
            cc_proxy_command := pc_proxy_command parsed,
            cc_host_key_policy := host_key_policy_from_config (pc_strict_host_key_checking parsed)\<rparr> in
       case pc_proxy_jump parsed of
         None \<Rightarrow> Inr config
       | Some proxy_jump \<Rightarrow>
           and_then (resolve_jump_hosts_internal W proxy_jump False) (\<lambda>jumps.
             Inr (if jumps \<noteq> [] then config\<lparr>cc_jump_hosts := jumps, cc_proxy_command := None\<rparr>
                  else config\<lparr>cc_jump_hosts := jumps\<rparr>)))))"

definition with_proxy_jump ::
  "ConfigWorld \<Rightarrow> rstring \<Rightarrow> ConnectionConfig \<Rightarrow> config_error + ConnectionConfig" where
  "with_proxy_jump W spec config =
     and_then (resolve_jump_hosts W spec) (\<lambda>jumps.
       Inr (config\<lparr>cc_jump_hosts := jumps, cc_proxy_command := None\<rparr>))"

definition snapshot :: "ConnectionConfig \<Rightarrow> ConnectionConfigSnapshot" where
  "snapshot c =
     \<lparr>sn_alias = cc_alias c, sn_host = cc_host c, sn_port = cc_port c, sn_username = cc_username c,
      sn_identity_files = cc_identity_files c, sn_host_key_policy = cc_host_key_policy c,
      sn_known_hosts_file = cc_known_hosts_file c, sn_keepalive_interval = cc_keepalive_interval c,
      sn_inactivity_timeout = cc_inactivity_timeout c,
      sn_route = (if cc_jump_hosts c \<noteq> [] then ProxyJump (cc_jump_hosts c)
                  else if cc_proxy_command c \<noteq> None then ProxyCommand else Direct),
      sn_agent_forwarding = cc_agent_forwarding c\<rparr>"

definition validate_timeouts :: "ConnectionConfig \<Rightarrow> config_error + unit" where
  "validate_timeouts c =
     (if cc_connect_timeout c = 0 then Inl (TimeoutZero (lit ''connect''))
      else if cc_channel_open_timeout c = 0 then Inl (TimeoutZero (lit ''channel-open''))
      else if cc_channel_request_timeout c = 0 then Inl (TimeoutZero (lit ''channel request''))
      else if cc_authentication_timeout c = 0 then Inl (TimeoutZero (lit ''authentication''))
      else Inr ())"

lemma parse_ipv6_samples:
  "parse_ipv6 (lit ''::1'')" "parse_ipv6 (lit ''2001:db8::1'')" "parse_ipv6 (lit ''::ffff:10.0.0.1'')"
  "parse_ipv6 (lit ''1:2:3:4:5:6:7:8'')" "\<not> parse_ipv6 (lit ''1:2:3:4:5:6:7'')"
  "\<not> parse_ipv6 (lit ''::1::'')" "\<not> parse_ipv6 (lit ''::ffff:10.0.0.01'')" "parse_ipv6 (lit ''::'')"
  by code_simp+

subsection \<open>Tokens and addresses\<close>

definition safe_token :: "rstring \<Rightarrow> bool" where
  "safe_token v \<longleftrightarrow> v \<noteq> [] \<and> \<not> starts_with [45] v \<and>
     list_all (\<lambda>c. \<not> is_whitespace c \<and> \<not> is_control c \<and> c \<notin> set SHELL_ACTIVE_TOKEN_CHARS) v"

lemma validate_untrusted_ok [result_simps]:
  "validate_untrusted_shell_token v role = Inr () \<longleftrightarrow> safe_token v"
  by (auto simp: validate_untrusted_shell_token_def safe_token_def list_ex_iff list_all_iff)

definition addr_char :: "uchar \<Rightarrow> bool" where
  "addr_char c \<longleftrightarrow> is_hex_digit c \<or> c = 58 \<or> c = 46"

text \<open>A reader that removes address characters from the front of its input.\<close>

definition eats :: "(rstring \<Rightarrow> rstring option) \<Rightarrow> bool" where
  "eats r \<longleftrightarrow> (\<forall>s t. r s = Some t \<longrightarrow> (\<exists>p. s = p @ t \<and> list_all addr_char p))"

lemma eatsD: "eats r \<Longrightarrow> r s = Some t \<Longrightarrow> \<exists>p. s = p @ t \<and> list_all addr_char p"
  by (simp add: eats_def)

lemma eats_bind: "eats r \<Longrightarrow> eats q \<Longrightarrow> eats (\<lambda>s. Option.bind (r s) q)"
  unfolding eats_def bind_eq_Some_conv by (metis append.assoc list_all_append)

lemma eats_digits:
  assumes "\<And>c. P c \<Longrightarrow> addr_char c"
  shows "\<exists>p. s = p @ drop (length (takeWhile P s)) s \<and> list_all addr_char p"
proof (intro exI conjI)
  show "s = takeWhile P s @ drop (length (takeWhile P s)) s"
    by (metis takeWhile_dropWhile_id dropWhile_eq_drop)
  show "list_all addr_char (takeWhile P s)"
    using assms by (auto simp: list_all_iff dest: set_takeWhileD)
qed

lemma eats_group: "eats read_hex_group"
  unfolding eats_def read_hex_group_def Let_def
  using eats_digits [of is_hex_digit] by (auto simp: addr_char_def)

lemma eats_octet: "eats read_octet"
  unfolding eats_def read_octet_def Let_def
  using eats_digits [of is_ascii_digit] by (auto simp: addr_char_def is_hex_digit_def)

lemma eats_separator: "eats r \<Longrightarrow> addr_char sep \<Longrightarrow> eats (read_separator sep i r)"
  unfolding eats_def read_separator_def
  by (auto split: list.splits if_splits) (metis append_Cons list.pred_inject(2))

lemma eats_ipv4: "eats read_ipv4_addr"
proof -
  have "eats (read_separator 46 i read_octet)" for i
    by (intro eats_separator eats_octet) (simp add: addr_char_def)
  then show ?thesis unfolding read_ipv4_addr_def by (intro eats_bind)
qed

lemma eats_groups:
  "read_groups limit i s = (n, v4, t) \<Longrightarrow> \<exists>p. s = p @ t \<and> list_all addr_char p"
proof (induction limit i s rule: read_groups.induct)
  case (1 limit i s)
  have v4: "eats (read_separator 58 i read_ipv4_addr)" and hex: "eats (read_separator 58 i read_hex_group)"
    by (intro eats_separator eats_ipv4 eats_group, simp add: addr_char_def)+
  show ?case
  proof (cases "limit \<le> i")
    case True
    then show ?thesis using "1.prems" by (simp add: read_groups.simps)
  next
    case False
    show ?thesis
    proof (cases "if i < limit - 1 then read_separator 58 i read_ipv4_addr s else None")
      case (Some u)
      then have "t = u" "read_separator 58 i read_ipv4_addr s = Some u"
        using "1.prems" False by (auto simp: read_groups.simps split: if_splits)
      then show ?thesis using eatsD [OF v4] by blast
    next
      case None
      show ?thesis
      proof (cases "read_separator 58 i read_hex_group s")
        case (Some u)
        then have "read_groups limit (i + 1) u = (n, v4, t)"
          using "1.prems" False None by (simp add: read_groups.simps [of limit i s])
        then obtain q where "u = q @ t" "list_all addr_char q"
          using "1.IH" [OF False None Some] by blast
        moreover obtain p where "s = p @ u" "list_all addr_char p"
          using eatsD [OF hex Some] by blast
        ultimately show ?thesis by (intro exI [of _ "p @ q"]) simp
      next
        case None': None
        then show ?thesis using "1.prems" False None by (simp add: read_groups.simps [of limit i s])
      qed
    qed
  qed
qed

lemma parse_ipv6_chars: "parse_ipv6 s \<Longrightarrow> list_all addr_char s"
proof -
  assume ok: "parse_ipv6 s"
  obtain n v t where g: "read_groups 8 0 s = (n, v, t)" by (cases "read_groups 8 0 s")
  obtain p where p: "s = p @ t" "list_all addr_char p" using eats_groups [OF g] by blast
  show ?thesis
  proof (cases "n = 8")
    case True
    then show ?thesis using ok g p by (simp add: parse_ipv6_def)
  next
    case False
    then obtain u where u: "t = 58 # 58 # u" "case read_groups (8 - (n + 1)) 0 u of (_, _, v) \<Rightarrow> v = []"
      using ok g by (auto simp: parse_ipv6_def strip_prefix_Some split: if_splits option.splits)
    then obtain a b where "read_groups (8 - (n + 1)) 0 u = (a, b, [])"
      by (cases "read_groups (8 - (n + 1)) 0 u") auto
    from eats_groups [OF this] have "list_all addr_char u" by auto
    then show ?thesis using p u by (simp add: addr_char_def)
  qed
qed

lemma addr_char_plain: "addr_char c \<Longrightarrow> \<not> is_whitespace c \<and> \<not> is_control c \<and> c \<noteq> 93 \<and> c \<noteq> 91"
  by (auto simp: addr_char_def is_hex_digit_def char_class_defs)

lemma digit_plain: "is_ascii_digit c \<Longrightarrow> \<not> is_whitespace c \<and> \<not> is_control c \<and> c \<notin> {43, 58, 91, 93}"
  by (auto simp: char_class_defs)

lemma parse_u16_dec: "parse_u16 (dec (unat p)) = Some p"
proof -
  have "list_all is_ascii_digit (dec (unat p))" using dec_digits by (simp add: list_all_iff)
  moreover have "(case dec (unat p) of [] \<Rightarrow> [] | c # t \<Rightarrow> if c = 43 \<and> t \<noteq> [] then t else dec (unat p))
      = dec (unat p)"
    using dec_digits [of _ "unat p"] digit_plain by (auto split: list.splits)
  ultimately show ?thesis using unat_less_u16 [of p] by (simp add: parse_u16_def)
qed

text \<open>A host name as it may stand before a port.\<close>

definition plain_host :: "rstring \<Rightarrow> bool" where
  "plain_host h \<longleftrightarrow> h \<noteq> [] \<and>
     list_all (\<lambda>c. \<not> is_whitespace c \<and> \<not> is_control c \<and> c \<notin> {58, 91, 93}) h"

lemma count_list_0: "count_list xs x = 0 \<longleftrightarrow> x \<notin> set xs"
  by (induction xs) auto

lemma parse_host_port_plain:
  assumes "plain_host h"
  shows "parse_host_port h = Inr (h, None)"
    and "parse_host_port (h @ 58 # dec (unat p)) = Inr (h, Some p)"
proof -
  have h: "h \<noteq> []" "\<not> list_ex (\<lambda>ch. is_whitespace ch \<or> is_control ch) h" "58 \<notin> set h" "91 \<notin> set h" "93 \<notin> set h"
    using assms by (auto simp: plain_host_def list_all_iff list_ex_iff)
  have d: "\<not> list_ex (\<lambda>ch. is_whitespace ch \<or> is_control ch) (dec (unat p))"
      "58 \<notin> set (dec (unat p))" "91 \<notin> set (dec (unat p))" "93 \<notin> set (dec (unat p))"
      "list_all is_ascii_digit (dec (unat p))"
    using dec_digits [of _ "unat p"] digit_plain by (auto simp: list_ex_iff list_all_iff)
  have strip: "strip_prefix [91] (h @ t) = None" for t
    using h by (cases h) (auto simp: strip_prefix_def)
  show "parse_host_port h = Inr (h, None)"
    using h strip [of "[]"] by (simp add: parse_host_port_def count_list_0 [symmetric])
  have "rsplit_once 58 (h @ 58 # dec (unat p)) = Some (h, dec (unat p))"
    using d(2) by (simp add: rsplit_once_Some)
  moreover have "count_list (h @ 58 # dec (unat p)) 58 = 1"
    using h(3) d(2) by (simp add: count_list_0)
  moreover have "\<not> is_whitespace 58 \<and> \<not> is_control 58" by (simp add: char_class_defs)
  ultimately show "parse_host_port (h @ 58 # dec (unat p)) = Inr (h, Some p)"
    using h d strip [of "58 # dec (unat p)"] by (simp add: parse_host_port_def parse_u16_dec)
qed

lemma parse_host_port_bracketed:
  assumes "parse_ipv6 a"
  shows "parse_host_port (91 # a @ [93]) = Inr (a, None)"
    and "parse_host_port (91 # a @ 93 # 58 # dec (unat p)) = Inr (a, Some p)"
proof -
  have a: "\<not> list_ex (\<lambda>ch. is_whitespace ch \<or> is_control ch) a" "93 \<notin> set a"
    using parse_ipv6_chars [OF assms] addr_char_plain by (auto simp: list_all_iff list_ex_iff)
  have "\<not> parse_ipv6 []" by code_simp
  then have "a \<noteq> []" using assms by auto
  have d: "\<not> list_ex (\<lambda>ch. is_whitespace ch \<or> is_control ch) (dec (unat p))"
    using dec_digits [of _ "unat p"] digit_plain by (auto simp: list_ex_iff)
  have sp: "\<not> is_whitespace 58 \<and> \<not> is_control 58" "\<not> is_whitespace 91 \<and> \<not> is_control 91"
      "\<not> is_whitespace 93 \<and> \<not> is_control 93" by (simp_all add: char_class_defs)
  have cut: "split_once 93 (a @ 93 # t) = Some (a, t)" for t
    using a(2) by (simp add: split_once_Some)
  show "parse_host_port (91 # a @ [93]) = Inr (a, None)"
    using a sp cut [of "[]"] assms \<open>a \<noteq> []\<close>
    by (simp add: parse_host_port_def strip_prefix_def parse_bracketed_def)
  show "parse_host_port (91 # a @ 93 # 58 # dec (unat p)) = Inr (a, Some p)"
    using a d sp cut [of "58 # dec (unat p)"] assms \<open>a \<noteq> []\<close>
    by (simp add: parse_host_port_def strip_prefix_def parse_bracketed_def parse_u16_dec)
qed

subsection \<open>Hops\<close>

text \<open>What a resolved hop keeps of its specification.\<close>

definition hop_of_spec :: "rstring \<Rightarrow> JumpHost \<Rightarrow> bool" where
  "hop_of_spec spec hop \<longleftrightarrow>
     (\<exists>user host_port port. parse_jump_destination spec = Inr (user, host_port) \<and>
        parse_host_port host_port = Inr (jh_alias hop, port) \<and>
        pred_option (\<lambda>u. jh_username hop = u) user \<and> pred_option (\<lambda>q. jh_port hop = q) port)"

lemma resolve_jump_host_ok:
  assumes "resolve_jump_host W untrusted spec = Inr hop"
  shows "hop_of_spec spec hop" and "untrusted \<Longrightarrow> safe_token (jh_alias hop)"
    and "untrusted \<Longrightarrow> parse_jump_destination spec = Inr (Some u, hp) \<Longrightarrow> safe_token u"
proof -
  obtain user host_port where d: "parse_jump_destination spec = Inr (user, host_port)"
    using assms by (auto simp: resolve_jump_host_def and_then_eq_Inr split: if_splits)
  obtain a port where h: "parse_host_port host_port = Inr (a, port)"
    using assms d by (auto simp: resolve_jump_host_def and_then_eq_Inr split: if_splits)
  have v: "untrusted \<Longrightarrow> safe_token a \<and> pred_option safe_token user"
    using assms d h
    by (cases user) (auto simp: resolve_jump_host_def result_simps split: if_splits)
  obtain parsed where hop: "hop = jump_host_of a user port parsed"
    using assms d h by (auto simp: resolve_jump_host_def and_then_eq_Inr split: if_splits)
  show "hop_of_spec spec hop"
    unfolding hop_of_spec_def using d h
    by (intro exI [of _ user] exI [of _ host_port] exI [of _ port])
       (simp add: hop jump_host_of_def pred_option_code split: option.splits)
  show "untrusted \<Longrightarrow> safe_token (jh_alias hop)" using v hop by (simp add: jump_host_of_def)
  show "untrusted \<Longrightarrow> parse_jump_destination spec = Inr (Some u, hp) \<Longrightarrow> safe_token u"
    using v d by simp
qed

lemma try_map_list_all2: "try_map f xs = Inr ys \<Longrightarrow> list_all2 (\<lambda>x y. f x = Inr y) xs ys"
  by (auto simp: try_map_ok list_all2_conv_all_nth)

text \<open>The hops named by a specification.\<close>

definition spec_hops :: "rstring \<Rightarrow> rstring list" where
  "spec_hops spec =
     (if trim spec = [] \<or> eq_ignore_ascii_case (trim spec) (lit ''none'') then []
      else map trim (split_on (\<lambda>c. c = 44) (trim spec)))"

lemma resolve_internal_ok:
  assumes "resolve_jump_hosts_internal W spec untrusted = Inr hops"
  shows "list_all2 (\<lambda>s hop. resolve_jump_host W untrusted s = Inr hop) (spec_hops spec) hops"
    and "length hops \<le> MAX_JUMP_HOPS"
proof -
  show "list_all2 (\<lambda>s hop. resolve_jump_host W untrusted s = Inr hop) (spec_hops spec) hops"
    using assms try_map_list_all2
    by (auto simp: resolve_jump_hosts_internal_def spec_hops_def Let_def split: if_splits)
  show "length hops \<le> MAX_JUMP_HOPS"
    using assms by (auto simp: resolve_jump_hosts_internal_def Let_def split: if_splits dest: try_map_length)
qed

lemma from_openssh_ok:
  assumes "from_openssh W alias uo po = Inr c"
  shows "safe_token alias \<and> pred_option safe_token uo" and "cc_alias c = alias"
    and "pred_option (\<lambda>u. cc_username c = u) uo" and "pred_option (\<lambda>q. cc_port c = q) po"
    and "cc_jump_hosts c \<noteq> [] \<longrightarrow> cc_proxy_command c = None"
    and "length (cc_jump_hosts c) \<le> MAX_JUMP_HOPS"
proof -
  have v: "safe_token alias \<and> pred_option safe_token uo"
    using assms by (cases uo) (auto simp: from_openssh_def result_simps split: option.splits)
  obtain parsed where "parse_home_config W alias = Inr parsed"
    using assms by (auto simp: from_openssh_def and_then_eq_Inr)
  note ok = assms [unfolded from_openssh_def and_then_eq_Inr] this
  show "safe_token alias \<and> pred_option safe_token uo" by (fact v)
  show "cc_alias c = alias" "pred_option (\<lambda>u. cc_username c = u) uo" "pred_option (\<lambda>q. cc_port c = q) po"
      "cc_jump_hosts c \<noteq> [] \<longrightarrow> cc_proxy_command c = None"
    using ok
    by (auto simp: Let_def config_new_def pred_option_code and_then_eq_Inr
      split: option.splits if_splits)
  show "length (cc_jump_hosts c) \<le> MAX_JUMP_HOPS"
    using ok resolve_internal_ok(2)
    by (auto simp: Let_def config_new_def and_then_eq_Inr split: option.splits if_splits)
qed

lemma hd_split_on: "hd (split_on q s) = takeWhile (\<lambda>c. \<not> q c) s"
  by (induction s) (auto split: list.splits)

lemma reject_lines_step:
  "reject_lines index (raw # rest) =
     (if structural raw then Inl (StructuralDirective (index + 1)) else reject_lines (index + 1) rest)"
  by (simp add: Let_def structural_def directive_key_def directive_sep_def hd_split_on)

declare reject_lines.simps(2) [simp del]

lemma reject_lines_ok: "reject_lines index ls = Inr () \<longleftrightarrow> (\<forall>l \<in> set ls. \<not> structural l)"
  by (induction ls arbitrary: index) (simp_all add: reject_lines_step)

subsection \<open>Properties of the configuration\<close>

text \<open>A configuration with one alias, for the witnesses.\<close>

definition sample_parsed :: "rstring \<Rightarrow> ParsedConfig" where
  "sample_parsed alias =
     \<lparr>pc_host = lit ''10.0.0.1'', pc_user = lit ''ops'', pc_port = 22, pc_identity_file = None,
      pc_user_known_hosts_file = None, pc_proxy_command = Some (lit ''nc %h %p''),
      pc_proxy_jump = (if alias = lit ''prod'' then Some (lit ''a@gate:2222, edge'') else None),
      pc_strict_host_key_checking = Some True\<rparr>"

definition sample_world :: ConfigWorld where
  "sample_world =
     \<lparr>user_home_dir = None, config_metadata = NotFound, expand_user_config = (\<lambda>_. None),
      russh_parse = (\<lambda>_ _. None), russh_default = sample_parsed\<rparr>"

text \<open>
  A ProxyJump specification becomes the chain it spells out: at most eight hops, one for each
  comma-separated entry and in that order, each with the alias, user and port written in its entry;
  the empty specification and \<open>none\<close> are the empty chain.
\<close>

theorem jump_chain_as_specified:
  assumes "resolve_jump_hosts_internal W spec untrusted = Inr hops"
  shows "length hops \<le> MAX_JUMP_HOPS \<and> list_all2 hop_of_spec (spec_hops spec) hops"
proof -
  have "list_all2 hop_of_spec (spec_hops spec) hops"
    using resolve_internal_ok(1) [OF assms] resolve_jump_host_ok(1)
    by (rule list_all2_mono)
  then show ?thesis using resolve_internal_ok(2) [OF assms] by simp
qed

theorem jump_chain_as_specified_witness:
  "\<exists>hops. resolve_jump_hosts sample_world (lit ''a@gate:2222, edge'') = Inr hops \<and>
     list_all2 hop_of_spec [lit ''a@gate:2222'', lit ''edge''] hops"
proof -
  have "is_ok (resolve_jump_hosts_internal sample_world (lit ''a@gate:2222, edge'') True)" by code_simp
  moreover have "spec_hops (lit ''a@gate:2222, edge'') = [lit ''a@gate:2222'', lit ''edge'']" by code_simp
  ultimately show ?thesis
    using jump_chain_as_specified unfolding resolve_jump_hosts_def is_ok_iff by metis
qed

text \<open>A hop with a safe alias that uses the safe user its entry may give.\<close>

definition safe_hop :: "rstring \<Rightarrow> JumpHost \<Rightarrow> bool" where
  "safe_hop entry hop \<longleftrightarrow> safe_token (jh_alias hop) \<and>
     (\<exists>user rest. parse_jump_destination entry = Inr (user, rest) \<and>
        pred_option (\<lambda>name. safe_token name \<and> jh_username hop = name) user)"

text \<open>
  C33. Nothing shell-active gets into a connection from the command line: when a target is resolved,
  its alias and the user given with it are non-empty, do not begin with a dash and contain no white
  space, control character or shell metacharacter, and they are the ones the connection uses. When the
  caller also supplies a ProxyJump chain, the same holds for the alias of every hop and for every user
  written in the chain, and each hop uses them; alias and user of the target stay as they were.
\<close>

theorem untrusted_tokens_are_safe:
  assumes "from_openssh W alias user port = Inr c"
  shows "safe_token alias \<and> cc_alias c = alias \<and> pred_option (\<lambda>u. safe_token u \<and> cc_username c = u) user \<and>
    (\<forall>spec c'. with_proxy_jump W spec c = Inr c' \<longrightarrow>
       cc_alias c' = cc_alias c \<and> cc_username c' = cc_username c \<and>
       list_all2 safe_hop (spec_hops spec) (cc_jump_hosts c'))"
proof (intro conjI allI impI)
  show "safe_token alias" "cc_alias c = alias" using from_openssh_ok(1,2) [OF assms] by auto
  show "pred_option (\<lambda>u. safe_token u \<and> cc_username c = u) user"
    using from_openssh_ok(1,3) [OF assms] by (cases user) auto
  fix spec c'
  assume "with_proxy_jump W spec c = Inr c'"
  then obtain jumps where j: "resolve_jump_hosts_internal W spec True = Inr jumps"
      "c' = c\<lparr>cc_jump_hosts := jumps, cc_proxy_command := None\<rparr>"
    by (auto simp: with_proxy_jump_def resolve_jump_hosts_def and_then_eq_Inr)
  then show "cc_alias c' = cc_alias c" "cc_username c' = cc_username c" by simp_all
  have "safe_hop entry hop" if hop: "resolve_jump_host W True entry = Inr hop" for entry hop
  proof -
    obtain u rest where u: "parse_jump_destination entry = Inr (u, rest)" "pred_option (\<lambda>name. jh_username hop = name) u"
      using resolve_jump_host_ok(1) [OF hop] by (auto simp: hop_of_spec_def)
    then show ?thesis using resolve_jump_host_ok(2,3) [OF hop] by (cases u) (auto simp: safe_hop_def)
  qed
  then show "list_all2 safe_hop (spec_hops spec) (cc_jump_hosts c')"
    using list_all2_mono [OF resolve_internal_ok(1) [OF j(1)]] j(2) by simp
qed

theorem untrusted_tokens_are_safe_witness:
  "\<exists>c c'. from_openssh sample_world (lit ''prod'') (Some (lit ''bob'')) None = Inr c \<and>
     with_proxy_jump sample_world (lit ''eve@gate'') c = Inr c' \<and> cc_username c' = lit ''bob'' \<and>
     map jh_username (cc_jump_hosts c') = [lit ''eve''] \<and> safe_token (lit ''eve'')"
proof -
  have "case from_openssh sample_world (lit ''prod'') (Some (lit ''bob'')) None of
      Inl _ \<Rightarrow> False | Inr c \<Rightarrow> is_ok (with_proxy_jump sample_world (lit ''eve@gate'') c)"
    by code_simp
  then obtain c c' where c: "from_openssh sample_world (lit ''prod'') (Some (lit ''bob'')) None = Inr c"
      "with_proxy_jump sample_world (lit ''eve@gate'') c = Inr c'"
    by (auto simp: is_ok_iff split: sum.splits)
  have "spec_hops (lit ''eve@gate'') = [lit ''eve@gate'']"
    "parse_jump_destination (lit ''eve@gate'') = Inr (Some (lit ''eve''), lit ''gate'')" by code_simp+
  moreover have "list_all2 safe_hop (spec_hops (lit ''eve@gate'')) (cc_jump_hosts c')" "cc_username c' = cc_username c"
      "pred_option (\<lambda>u. safe_token u \<and> cc_username c = u) (Some (lit ''bob''))"
    using untrusted_tokens_are_safe [OF c(1)] c(2) by blast+
  ultimately have "cc_username c' = lit ''bob'' \<and> map jh_username (cc_jump_hosts c') = [lit ''eve''] \<and> safe_token (lit ''eve'')"
    by (auto simp: list_all2_Cons1 safe_hop_def)
  with c show ?thesis by (intro exI [of _ c] exI [of _ c'] conjI) simp_all
qed

lemma config_new_timeouts: "validate_timeouts (config_new h u) = Inr ()"
  by (simp add: config_new_def validate_timeouts_def DEFAULT_CONNECT_TIMEOUT_def DEFAULT_CHANNEL_OPEN_TIMEOUT_def
      DEFAULT_CHANNEL_REQUEST_TIMEOUT_def DEFAULT_AUTHENTICATION_TIMEOUT_def from_secs_def)

lemma timeouts_update:
  "validate_timeouts (c\<lparr>cc_alias := a\<rparr>) = validate_timeouts c" "validate_timeouts (c\<lparr>cc_port := p\<rparr>) = validate_timeouts c"
  "validate_timeouts (c\<lparr>cc_identity_files := f\<rparr>) = validate_timeouts c"
  "validate_timeouts (c\<lparr>cc_known_hosts_file := k\<rparr>) = validate_timeouts c"
  "validate_timeouts (c\<lparr>cc_proxy_command := q\<rparr>) = validate_timeouts c"
  "validate_timeouts (c\<lparr>cc_host_key_policy := hk\<rparr>) = validate_timeouts c"
  "validate_timeouts (c\<lparr>cc_jump_hosts := j\<rparr>) = validate_timeouts c"
  by (simp_all add: validate_timeouts_def)

lemma from_openssh_timeouts:
  assumes "from_openssh W alias user port = Inr c" shows "validate_timeouts c = Inr ()"
proof -
  obtain parsed where p: "parse_home_config W alias = Inr parsed"
    using assms by (auto simp: from_openssh_def and_then_eq_Inr)
  show ?thesis
    using assms unfolding from_openssh_def and_then_eq_Inr Let_def p sum.inject
    by (cases "pc_proxy_jump parsed")
      (auto simp: and_then_eq_Inr timeouts_update config_new_timeouts simp del: ConnectionConfig.simps)
qed

text \<open>
  The route of a resolved target is unambiguous: a configuration never carries both a jump chain
  and a proxy command, so the snapshot shown for it is the jump chain, the proxy command or a direct
  connection according to the one that is set; the default timeouts pass their own validation.
\<close>

theorem route_unambiguous:
  assumes "from_openssh W alias user port = Inr c"
  shows "(cc_jump_hosts c = [] \<or> cc_proxy_command c = None) \<and>
    (sn_route (snapshot c) = ProxyJump (cc_jump_hosts c) \<longleftrightarrow> cc_jump_hosts c \<noteq> []) \<and>
    (sn_route (snapshot c) = ProxyCommand \<longleftrightarrow> cc_proxy_command c \<noteq> None) \<and>
    (sn_route (snapshot c) = Direct \<longleftrightarrow> cc_jump_hosts c = [] \<and> cc_proxy_command c = None) \<and>
    validate_timeouts c = Inr ()"
proof -
  have "validate_timeouts c = Inr ()" by (rule from_openssh_timeouts [OF assms])
  then show ?thesis using from_openssh_ok(5) [OF assms] by (auto simp: snapshot_def)
qed

theorem route_unambiguous_witness:
  "\<exists>c. from_openssh sample_world (lit ''prod'') None None = Inr c \<and>
     sn_route (snapshot c) = ProxyJump (cc_jump_hosts c) \<and> cc_proxy_command c = None"
proof -
  have "case from_openssh sample_world (lit ''prod'') None None of Inl _ \<Rightarrow> False | Inr c \<Rightarrow> cc_jump_hosts c \<noteq> []"
    by code_simp
  then obtain c where "from_openssh sample_world (lit ''prod'') None None = Inr c" "cc_jump_hosts c \<noteq> []"
    by (auto split: sum.splits)
  then show ?thesis using route_unambiguous by blast
qed

text \<open>
  Host and port specifications read back what they denote: a host name with or without
  \<open>:port\<close>, and an IPv6 address in brackets with or without \<open>:port\<close>, for every port number.
\<close>

theorem host_port_roundtrip:
  assumes "plain_host h" and "parse_ipv6 a"
  shows "parse_host_port h = Inr (h, None) \<and>
    parse_host_port (h @ 58 # dec (unat p)) = Inr (h, Some p) \<and>
    parse_host_port (91 # a @ [93]) = Inr (a, None) \<and>
    parse_host_port (91 # a @ 93 # 58 # dec (unat p)) = Inr (a, Some p)"
  using parse_host_port_plain [OF assms(1)] parse_host_port_bracketed [OF assms(2)] by simp

theorem host_port_roundtrip_witness:
  "parse_host_port (lit ''[2001:db8::1]'') = Inr (lit ''2001:db8::1'', None) \<and>
   parse_host_port (lit ''gate'' @ 58 # dec (unat (2222 :: u16))) = Inr (lit ''gate'', Some 2222)"
proof -
  have "plain_host (lit ''gate'')" "parse_ipv6 (lit ''2001:db8::1'')" by code_simp+
  moreover have "lit ''[2001:db8::1]'' = 91 # lit ''2001:db8::1'' @ [93]" by code_simp
  ultimately show ?thesis using host_port_roundtrip [of "lit ''gate''"] by metis
qed

text \<open>A port in brackets form may carry a sign that the other form refuses.\<close>

lemma bracketed_port_accepts_sign:
  "parse_host_port (lit ''[::1]:+22'') = Inr (lit ''::1'', Some 22)"
  "parse_host_port (lit ''gate:+22'') = Inl PortInvalid"
  by code_simp+

text \<open>
  The rewriter and the parser's guard fit together: a configuration whose \<open>Match\<close> blocks were
  rewritten is never refused by the check for structural directives, and any text that passes this
  check has no \<open>Match\<close> or \<open>Include\<close> directive left.
\<close>

theorem rewritten_config_accepted:
  assumes "rewrite_supported_match_config contents host = Inr out"
  shows "reject_unsupported_structural_directives out = Inr () \<and>
    (reject_unsupported_structural_directives text' = Inr () \<longrightarrow>
       list_all (\<lambda>l. \<not> structural l) (lines_of text'))"
  using rewrite_supported_output [OF assms] reject_lines_ok
  by (auto simp: reject_unsupported_structural_directives_def list_all_iff)

theorem rewritten_config_accepted_witness:
  "\<exists>out. rewrite_supported_match_config sample_config (lit ''prod'') = Inr out \<and>
     reject_unsupported_structural_directives out = Inr ()"
proof -
  have "is_ok (rewrite_supported_match_config sample_config (lit ''prod''))" by code_simp
  then show ?thesis using rewritten_config_accepted unfolding is_ok_iff by blast
qed

end
