(* ===== verification/Host_Resolver.thy ===== *)
theory Host_Resolver
  imports Host_Store Connection_Config
begin

section \<open>Resolving library hosts\<close>

text \<open>
  Model of \<open>resolver.rs\<close> of the host library: a stored record, its jump chain and the OpenSSH
  configuration combine to the parameters of a connection. \<open>W\<close> is the configuration surroundings
  of \<open>Connection_Config\<close>, \<open>U\<close> the table of alphanumeric characters beyond ASCII.
\<close>

datatype ResolutionSource = HostLibrary | OpenSsh

record ResolvedHost =
  r_source :: ResolutionSource
  r_config :: ConnectionConfig

datatype (plugins only: code size) resolve_error =
    ModelError model_error | ConfigError config_error | FallbackError rstring config_error
  | ChainAbsent rstring | ChainTooManyHops rstring | TargetLoop rstring nat rstring
  | HopHostAbsent rstring rstring | JumpAliasError rstring config_error | NestedJump rstring

fun map_host_key_policy :: "StoredHostKeyPolicy \<Rightarrow> HostKeyPolicy" where
  "map_host_key_policy StoredHostKeyPolicy.Strict = HostKeyPolicy.Strict"
| "map_host_key_policy StoredHostKeyPolicy.AcceptNew = HostKeyPolicy.AcceptNew"
| "map_host_key_policy StoredHostKeyPolicy.Insecure = HostKeyPolicy.Insecure"

definition record_fallback :: "ConfigWorld \<Rightarrow> HostRecord \<Rightarrow> resolve_error + ConnectionConfig" where
  "record_fallback W r =
     (if is_ok (validate_name (h_alias r))
      then map_err (FallbackError (h_alias r)) (from_openssh W (h_alias r) None None)
      else Inr (config_new (h_address r) (h_user r)))"

definition overlay_record ::
  "HostRecord \<Rightarrow> rstring option \<Rightarrow> u16 option \<Rightarrow> ConnectionConfig \<Rightarrow> ConnectionConfig" where
  "overlay_record r user_override port_override config =
     (let config = config
        \<lparr>cc_alias := h_alias r, cc_host := h_address r,
         cc_port := (case port_override of Some p \<Rightarrow> p | None \<Rightarrow> h_port r),
         cc_username := (case user_override of Some u \<Rightarrow> u | None \<Rightarrow> h_user r)\<rparr>;
          config = (case h_identity_file r of
             Some f \<Rightarrow> config\<lparr>cc_identity_files := [f]\<rparr> | None \<Rightarrow> config)
      in config\<lparr>cc_host_key_policy := map_host_key_policy (h_host_key_policy r)\<rparr>)"

definition jump_from_host_record :: "ConfigWorld \<Rightarrow> HostRecord \<Rightarrow> resolve_error + JumpHost" where
  "jump_from_host_record W r =
     and_then (record_fallback W r) (\<lambda>fallback.
       Inr \<lparr>jh_alias = h_alias r, jh_host = h_address r, jh_port = h_port r, jh_username = h_user r,
            jh_identity_files = (case h_identity_file r of
              Some f \<Rightarrow> [f] | None \<Rightarrow> cc_identity_files fallback),
            jh_host_key_policy = map_host_key_policy (h_host_key_policy r),
            jh_known_hosts_file = cc_known_hosts_file fallback\<rparr>)"

definition jump_from_openssh_alias :: "ConfigWorld \<Rightarrow> rstring \<Rightarrow> resolve_error + JumpHost" where
  "jump_from_openssh_alias W alias =
     and_then (map_err (JumpAliasError alias) (from_openssh W alias None None)) (\<lambda>config.
       if cc_jump_hosts config \<noteq> [] \<or> cc_proxy_command config \<noteq> None then Inl (NestedJump alias)
       else Inr \<lparr>jh_alias = alias, jh_host = cc_host config, jh_port = cc_port config,
                 jh_username = cc_username config, jh_identity_files = cc_identity_files config,
                 jh_host_key_policy = cc_host_key_policy config,
                 jh_known_hosts_file = cc_known_hosts_file config\<rparr>)"

definition jump_from_inline :: "InlineJump \<Rightarrow> JumpHost" where
  "jump_from_inline j =
     \<lparr>jh_alias = j_alias j, jh_host = j_host j, jh_port = j_port j, jh_username = j_user j,
      jh_identity_files = (case j_identity_file j of Some f \<Rightarrow> [f] | None \<Rightarrow> []),
      jh_host_key_policy = map_host_key_policy (j_host_key_policy j),
      jh_known_hosts_file = None\<rparr>"

definition resolve_hop ::
  "ConfigWorld \<Rightarrow> HostDatabase \<Rightarrow> rstring \<Rightarrow> rstring \<Rightarrow> nat \<Rightarrow> JumpHop \<Rightarrow> resolve_error + JumpHost" where
  "resolve_hop W db target_alias chain_name index hop =
     (case hop of
        Host alias \<Rightarrow>
          if alias = target_alias then Inl (TargetLoop target_alias (index + 1) chain_name)
          else and_then (ok_or (HopHostAbsent chain_name alias) (bt_get (hosts db) alias))
                 (jump_from_host_record W)
      | OpenSshAlias alias \<Rightarrow>
          if alias = target_alias then Inl (TargetLoop target_alias (index + 1) chain_name)
          else jump_from_openssh_alias W alias
      | Inline jump \<Rightarrow>
          if j_alias jump = target_alias then Inl (TargetLoop target_alias (index + 1) chain_name)
          else Inr (jump_from_inline jump))"

definition resolve_chain ::
  "(uchar \<Rightarrow> bool) \<Rightarrow> ConfigWorld \<Rightarrow> HostDatabase \<Rightarrow> rstring \<Rightarrow> rstring \<Rightarrow> resolve_error + JumpHost list" where
  "resolve_chain U W db target_alias chain_name =
     and_then (map_err ModelError (validate U db)) (\<lambda>_.
     and_then (ok_or (ChainAbsent chain_name) (bt_get (chains db) chain_name)) (\<lambda>chain.
       if MAX_CHAIN_HOPS < length (c_hops chain) then Inl (ChainTooManyHops chain_name)
       else try_map (\<lambda>(index, hop). resolve_hop W db target_alias chain_name index hop)
              (List.enumerate 0 (c_hops chain))))"

definition resolve_host ::
  "(uchar \<Rightarrow> bool) \<Rightarrow> ConfigWorld \<Rightarrow> HostDatabase \<Rightarrow> rstring \<Rightarrow> rstring option \<Rightarrow> u16 option
     \<Rightarrow> resolve_error + ResolvedHost" where
  "resolve_host U W db alias user_override port_override =
     and_then (map_err ModelError (validate U db)) (\<lambda>_.
       case bt_get (hosts db) alias of
         None \<Rightarrow>
           and_then (map_err ConfigError (from_openssh W alias user_override port_override)) (\<lambda>config.
             Inr \<lparr>r_source = OpenSsh, r_config = config\<rparr>)
       | Some r \<Rightarrow>
           and_then (record_fallback W r) (\<lambda>fallback.
             let config = overlay_record r user_override port_override fallback in
             case h_jump_chain r of
               None \<Rightarrow> Inr \<lparr>r_source = HostLibrary, r_config = config\<rparr>
             | Some chain_name \<Rightarrow>
                 and_then (resolve_chain U W db alias chain_name) (\<lambda>jumps.
                   Inr \<lparr>r_source = HostLibrary,
                        r_config = config\<lparr>cc_jump_hosts := jumps, cc_proxy_command := None\<rparr>\<rparr>)))"

subsection \<open>Hops and chains of a validated library\<close>

lemma enumerate_try_map:
  "try_map (\<lambda>(i, x). f i x) (List.enumerate n xs) = Inr ys \<Longrightarrow>
     length ys = length xs \<and> (\<forall>k < length xs. f (n + k) (xs ! k) = Inr (ys ! k))"
  by (auto simp: try_map_ok nth_enumerate_eq)

lemma resolve_hop_alias:
  "resolve_hop W db t c i hop = Inr j \<Longrightarrow> bt_ok (hosts db) \<Longrightarrow> db_wf U db \<Longrightarrow>
     jh_alias j = display_name hop \<and> display_name hop \<noteq> t"
  by (cases hop)
     (auto simp: resolve_hop_def jump_from_host_record_def jump_from_openssh_alias_def
        jump_from_inline_def and_then_eq_Inr db_wf_def ball_pairs
        split: if_splits dest!: bt_get_SomeD)

lemma resolve_chain_ok:
  assumes "resolve_chain U W db target name = Inr jumps" and "bt_ok (hosts db)"
  shows "\<exists>chain. bt_get (chains db) name = Some chain \<and> length jumps \<le> MAX_CHAIN_HOPS \<and>
    map jh_alias jumps = map display_name (c_hops chain) \<and> target \<notin> jh_alias ` set jumps"
proof -
  obtain chain where c: "bt_get (chains db) name = Some chain" "db_wf U db"
      "length (c_hops chain) \<le> MAX_CHAIN_HOPS"
      "try_map (\<lambda>(i, hop). resolve_hop W db target name i hop) (List.enumerate 0 (c_hops chain)) = Inr jumps"
    using assms(1)
    by (auto simp: resolve_chain_def and_then_eq_Inr validate_ok split: if_splits)
  have len: "length jumps = length (c_hops chain)"
    and hop: "\<And>k. k < length (c_hops chain) \<Longrightarrow> jh_alias (jumps ! k) = display_name (c_hops chain ! k) \<and>
      display_name (c_hops chain ! k) \<noteq> target"
  proof -
    show "length jumps = length (c_hops chain)" using enumerate_try_map [OF c(4)] by simp
    fix k
    assume "k < length (c_hops chain)"
    then have "resolve_hop W db target name k (c_hops chain ! k) = Inr (jumps ! k)"
      using enumerate_try_map [OF c(4)] by simp
    from resolve_hop_alias [OF this assms(2) c(2)]
    show "jh_alias (jumps ! k) = display_name (c_hops chain ! k) \<and> display_name (c_hops chain ! k) \<noteq> target" .
  qed
  have "map jh_alias jumps = map display_name (c_hops chain)"
    using len hop by (intro nth_equalityI) auto
  moreover have "target \<notin> jh_alias ` set jumps"
  proof
    assume "target \<in> jh_alias ` set jumps"
    then obtain k where "k < length jumps" "target = jh_alias (jumps ! k)"
      by (auto simp: in_set_conv_nth)
    then show False using hop [of k] len by simp
  qed
  ultimately show ?thesis using c len by auto
qed

text \<open>The errors that remain possible once the library validates.\<close>

fun config_failure :: "resolve_error \<Rightarrow> bool" where
  "config_failure (ConfigError e) = True"
| "config_failure (FallbackError a e) = True"
| "config_failure (JumpAliasError a e) = True"
| "config_failure (NestedJump a) = True"
| "config_failure _ = False"

lemma record_fallback_failure: "record_fallback W r = Inl e \<Longrightarrow> config_failure e"
  by (cases "from_openssh W (h_alias r) None None") (auto simp: record_fallback_def split: if_splits)

lemma resolve_hop_failure:
  assumes "resolve_hop W db t c i hop = Inl e" and "display_name hop \<noteq> t"
    and "\<And>a. hop = Host a \<Longrightarrow> bt_get (hosts db) a \<noteq> None"
  shows "config_failure e"
proof (cases hop)
  case (Host a)
  then show ?thesis
    using assms record_fallback_failure
    by (auto simp: resolve_hop_def jump_from_host_record_def and_then_eq_Inl)
next
  case (OpenSshAlias a)
  then show ?thesis
    using assms
    by (cases "from_openssh W a None None")
       (auto simp: resolve_hop_def jump_from_openssh_alias_def split: if_splits)
next
  case (Inline j)
  then show ?thesis using assms by (simp add: resolve_hop_def)
qed

lemma try_map_err: "try_map f xs = Inl e \<Longrightarrow> \<exists>x \<in> set xs. f x = Inl e"
  by (induction xs) (auto simp: and_then_eq_Inl)

lemma resolve_chain_failure:
  assumes "bt_ok (hosts db)" and "bt_ok (chains db)" and "db_wf U db"
    and r: "bt_get (hosts db) alias = Some r" "h_jump_chain r = Some name"
    and err: "resolve_chain U W db alias name = Inl e"
  shows "config_failure e"
proof -
  have entry: "host_entry_wf U db alias r" using assms(3) r(1) by (simp add: db_wf_get [OF assms(1,2)])
  then obtain c where c: "bt_get (chains db) name = Some c" "alias \<notin> display_name ` set (c_hops c)"
    using r(2) by (auto simp: host_entry_wf_def)
  have wf: "chain_entry_wf U db name c" using assms(3) c(1) by (simp add: db_wf_get [OF assms(1,2)])
  then have "try_map (\<lambda>(i, hop). resolve_hop W db alias name i hop) (List.enumerate 0 (c_hops c)) = Inl e"
    using err c(1) assms(3) validate_ok [of U db]
    by (auto simp: resolve_chain_def chain_entry_wf_def chain_wf_def MAX_CHAIN_HOPS_def)
  then obtain i hop where h: "hop \<in> set (c_hops c)" "resolve_hop W db alias name i hop = Inl e"
    using try_map_err enumerate_eq_zip [of 0 "c_hops c"] by (fastforce dest: set_zip_rightD)
  have "display_name hop \<noteq> alias" using c(2) h(1) by auto
  moreover have "\<And>a. hop = Host a \<Longrightarrow> bt_get (hosts db) a \<noteq> None"
    using wf h(1) by (auto simp: chain_entry_wf_def)
  ultimately show ?thesis using resolve_hop_failure [OF h(2)] by blast
qed

lemma overlay_fields:
  "cc_alias (overlay_record r uo po c) = h_alias r" "cc_host (overlay_record r uo po c) = h_address r"
  "cc_port (overlay_record r uo po c) = (case po of Some p \<Rightarrow> p | None \<Rightarrow> h_port r)"
  "cc_username (overlay_record r uo po c) = (case uo of Some u \<Rightarrow> u | None \<Rightarrow> h_user r)"
  "cc_host_key_policy (overlay_record r uo po c) = map_host_key_policy (h_host_key_policy r)"
  "cc_jump_hosts (overlay_record r uo po c) = cc_jump_hosts c"
  "cc_proxy_command (overlay_record r uo po c) = cc_proxy_command c"
  by (simp_all add: overlay_record_def Let_def split: option.splits)

lemma resolve_library_host:
  assumes "resolve_host U W db alias uo po = Inr res" and r: "bt_get (hosts db) alias = Some r"
  shows "r_source res = HostLibrary"
    "\<exists>fallback. record_fallback W r = Inr fallback \<and>
      (case h_jump_chain r of
         None \<Rightarrow> r_config res = overlay_record r uo po fallback
       | Some name \<Rightarrow> \<exists>jumps. resolve_chain U W db alias name = Inr jumps \<and>
           r_config res = (overlay_record r uo po fallback)
             \<lparr>cc_jump_hosts := jumps, cc_proxy_command := None\<rparr>)"
proof -
  obtain fallback where f: "record_fallback W r = Inr fallback"
    using assms by (auto simp: resolve_host_def and_then_eq_Inr)
  show "r_source res = HostLibrary"
    using assms by (auto simp: resolve_host_def and_then_eq_Inr Let_def split: option.splits)
  show "\<exists>fallback. record_fallback W r = Inr fallback \<and>
      (case h_jump_chain r of
         None \<Rightarrow> r_config res = overlay_record r uo po fallback
       | Some name \<Rightarrow> \<exists>jumps. resolve_chain U W db alias name = Inr jumps \<and>
           r_config res = (overlay_record r uo po fallback)
             \<lparr>cc_jump_hosts := jumps, cc_proxy_command := None\<rparr>)"
    using assms f
    by (intro exI [of _ fallback]) (auto simp: resolve_host_def and_then_eq_Inr Let_def split: option.splits)
qed

lemma record_fallback_route:
  "record_fallback W r = Inr c \<Longrightarrow> cc_jump_hosts c = [] \<or> cc_proxy_command c = None"
  using from_openssh_ok(5) [of W "h_alias r" None None c]
  by (auto simp: record_fallback_def config_new_def split: if_splits)

subsection \<open>Properties of the resolver\<close>

definition sample_library :: HostDatabase where
  "sample_library = default_database
     \<lparr>hosts := [(lit ''db'', (host_new (lit ''db'') (lit ''10.1.1.1'') (lit ''root''))\<lparr>h_jump_chain := Some (lit ''out'')\<rparr>),
               (lit ''gw'', host_new (lit ''gw'') (lit ''10.1.1.2'') (lit ''ops''))],
      chains := [(lit ''out'', \<lparr>c_name = lit ''out'',
        c_hops = [Host (lit ''gw''), Inline \<lparr>j_alias = lit ''edge'', j_host = lit ''10.9.9.9'', j_port = 2222,
          j_user = lit ''ops'', j_identity_file = None, j_host_key_policy = StoredHostKeyPolicy.Strict\<rparr>]\<rparr>)]\<rparr>"

lemma sample_library_ok: "bt_ok (hosts sample_library)" "bt_ok (chains sample_library)"
  by code_simp+

definition open_world :: ConfigWorld where
  "open_world = sample_world\<lparr>russh_default := (\<lambda>alias. (sample_parsed alias)\<lparr>pc_proxy_command := None\<rparr>)\<rparr>"

text \<open>
  A library host is reached the way its record says: the resolved connection has the record's
  alias, address and host-key policy, its port and user unless overridden, and never both a jump
  chain and a proxy command; a record with a chain gets exactly the hops of that chain, in order,
  at most eight, none of them the target itself.
\<close>

theorem library_host_resolution:
  assumes "resolve_host U W db alias user port = Inr res"
    and "bt_get (hosts db) alias = Some r" and "bt_ok (hosts db)"
  shows "r_source res = HostLibrary \<and> cc_alias (r_config res) = h_alias r \<and>
    cc_host (r_config res) = h_address r \<and>
    cc_port (r_config res) = (case port of Some p \<Rightarrow> p | None \<Rightarrow> h_port r) \<and>
    cc_username (r_config res) = (case user of Some u \<Rightarrow> u | None \<Rightarrow> h_user r) \<and>
    cc_host_key_policy (r_config res) = map_host_key_policy (h_host_key_policy r) \<and>
    (cc_jump_hosts (r_config res) = [] \<or> cc_proxy_command (r_config res) = None) \<and>
    (case h_jump_chain r of
       None \<Rightarrow> True
     | Some name \<Rightarrow> \<exists>chain. bt_get (chains db) name = Some chain \<and>
         length (cc_jump_hosts (r_config res)) \<le> MAX_CHAIN_HOPS \<and>
         map jh_alias (cc_jump_hosts (r_config res)) = map display_name (c_hops chain) \<and>
         alias \<notin> jh_alias ` set (cc_jump_hosts (r_config res)))"
proof -
  note res = resolve_library_host [OF assms(1,2)]
  obtain fallback where f: "record_fallback W r = Inr fallback" and rest:
      "case h_jump_chain r of
         None \<Rightarrow> r_config res = overlay_record r user port fallback
       | Some name \<Rightarrow> \<exists>jumps. resolve_chain U W db alias name = Inr jumps \<and>
           r_config res = (overlay_record r user port fallback)
             \<lparr>cc_jump_hosts := jumps, cc_proxy_command := None\<rparr>"
    using res(2) by blast
  show ?thesis
  proof (cases "h_jump_chain r")
    case None
    then show ?thesis using res(1) rest record_fallback_route [OF f] by (simp add: overlay_fields)
  next
    case (Some name)
    then obtain jumps where j: "resolve_chain U W db alias name = Inr jumps"
        "r_config res = (overlay_record r user port fallback)
           \<lparr>cc_jump_hosts := jumps, cc_proxy_command := None\<rparr>"
      using rest by auto
    show ?thesis using Some res(1) j(2) resolve_chain_ok [OF j(1) assms(3)] by (simp add: overlay_fields)
  qed
qed

theorem library_host_resolution_witness:
  "\<exists>res. resolve_host (\<lambda>_. False) open_world sample_library (lit ''db'') None (Some 2200) = Inr res \<and>
     cc_port (r_config res) = 2200 \<and> cc_host (r_config res) = lit ''10.1.1.1'' \<and>
     map jh_alias (cc_jump_hosts (r_config res)) = [lit ''gw'', lit ''edge'']"
proof -
  let ?r = "(host_new (lit ''db'') (lit ''10.1.1.1'') (lit ''root''))\<lparr>h_jump_chain := Some (lit ''out'')\<rparr>"
  have "is_ok (resolve_host (\<lambda>_. False) open_world sample_library (lit ''db'') None (Some 2200))" by code_simp
  then obtain res where res:
      "resolve_host (\<lambda>_. False) open_world sample_library (lit ''db'') None (Some 2200) = Inr res"
    by (auto simp: is_ok_iff)
  have "bt_get (hosts sample_library) (lit ''db'') = Some ?r"
    by (simp add: sample_library_def bt_get_def)
  from library_host_resolution [OF res this sample_library_ok(1)] res show ?thesis
    by (auto simp: sample_library_def bt_get_def host_new_def)
qed

text \<open>
  C34. Routing through a validated library cannot fail for reasons of the library: whatever the
  OpenSSH configuration says, resolving a stored host never reports a missing chain, a missing hop,
  too many hops or a loop; the only failures left come from the OpenSSH configuration of an alias.
\<close>

theorem validated_routing_never_breaks:
  assumes "validate U db = Inr ()" and "bt_ok (hosts db)" and "bt_ok (chains db)"
    and "bt_get (hosts db) alias = Some r" and "resolve_host U W db alias user port = Inl e"
  shows "config_failure e"
proof -
  have wf: "db_wf U db" using assms(1) by (simp add: validate_ok)
  consider "record_fallback W r = Inl e"
    | name where "h_jump_chain r = Some name" "resolve_chain U W db alias name = Inl e"
    using assms(1,4,5)
    by (auto simp: resolve_host_def and_then_eq_Inl Let_def split: option.splits)
  then show ?thesis
    using record_fallback_failure resolve_chain_failure [OF assms(2,3) wf assms(4)] by cases auto
qed

text \<open>A stored alias beginning with a dash is accepted by the library and refused as a token.\<close>

definition dash_library :: HostDatabase where
  "dash_library = default_database
     \<lparr>hosts := [(lit ''-db'', host_new (lit ''-db'') (lit ''10.1.1.1'') (lit ''root''))]\<rparr>"

theorem validated_routing_never_breaks_witness:
  "resolve_host (\<lambda>_. False) open_world dash_library (lit ''-db'') None None =
     Inl (FallbackError (lit ''-db'') (TokenDash (lit ''SSH host''))) \<and>
   config_failure (FallbackError (lit ''-db'') (TokenDash (lit ''SSH host'')))"
proof -
  have "validate (\<lambda>_. False) dash_library = Inr ()" "bt_ok (hosts dash_library)" "bt_ok (chains dash_library)"
    "bt_get (hosts dash_library) (lit ''-db'') = Some (host_new (lit ''-db'') (lit ''10.1.1.1'') (lit ''root''))"
    by code_simp+
  moreover have e: "resolve_host (\<lambda>_. False) open_world dash_library (lit ''-db'') None None =
     Inl (FallbackError (lit ''-db'') (TokenDash (lit ''SSH host'')))" by code_simp
  ultimately show ?thesis using validated_routing_never_breaks by blast
qed

text \<open>
  A host whose alias begins with a dash can be stored but never resolved: the library accepts
  such an alias as a label, and resolution hands it to the OpenSSH lookup, which refuses it for
  every configuration and every override.
\<close>

theorem dash_alias_never_resolves:
  assumes "bt_get (hosts db) alias = Some r" and "validate U db = Inr ()"
    and "h_alias r = 45 # rest" and "name_wf (h_alias r)"
  shows "resolve_host U W db alias user port =
    Inl (FallbackError (h_alias r) (TokenDash (lit ''SSH host'')))"
proof -
  have "is_ok (validate_name (h_alias r))" using assms(4) by (simp add: is_ok_unit)
  then show ?thesis
    using assms
    by (simp add: resolve_host_def record_fallback_def from_openssh_def
      validate_untrusted_shell_token_def)
qed

theorem dash_alias_never_resolves_witness:
  "validate (\<lambda>_. False) dash_library = Inr () \<and>
   resolve_host (\<lambda>_. False) open_world dash_library (lit ''-db'') None None =
     Inl (FallbackError (lit ''-db'') (TokenDash (lit ''SSH host'')))"
proof -
  let ?r = "host_new (lit ''-db'') (lit ''10.1.1.1'') (lit ''root'')"
  have v: "validate (\<lambda>_. False) dash_library = Inr ()" by code_simp
  have g: "bt_get (hosts dash_library) (lit ''-db'') = Some ?r"
    by (simp add: dash_library_def bt_get_def)
  have a: "h_alias ?r = 45 # lit ''db''" "name_wf (h_alias ?r)" by code_simp+
  show ?thesis using dash_alias_never_resolves [OF g v a] v by (simp add: host_new_def)
qed

end
