(* ===== verification/Host_Import.thy ===== *)
theory Host_Import
  imports Host_Resolver
begin

section \<open>The OpenSSH catalogue and its import\<close>

text \<open>
  Model of \<open>host_catalog.rs\<close> (which aliases an OpenSSH configuration names) and of \<open>import.rs\<close> (how
  they become library hosts). The text of the configuration after expanding \<open>Include\<close> for the
  catalogue is the parameter \<open>expanded\<close>; the rest of the surroundings is \<open>W\<close>. Counters are naturals; a
  warning is represented by the alias its message names.
\<close>

subsection \<open>The catalogue\<close>

record OpenSshHostCatalog =
  cat_config_path :: "rstring option"
  cat_aliases :: "rstring list"
  has_unsupported_structural_directives :: bool

definition directive_parts :: "rstring \<Rightarrow> (rstring \<times> rstring) option" where
  "directive_parts raw =
     (let line = trim_start raw in
      if line = [] \<or> starts_with [35] line then None
      else
        let key = takeWhile (\<lambda>ch. \<not> (is_ascii_whitespace ch \<or> ch = 61)) line;
            tail = drop (length key) line in
        if tail = [] then Some (line, [])
        else
          let arguments = trim_start tail in
          Some (key, case strip_prefix [61] arguments of
                       Some rest \<Rightarrow> trim_start rest | None \<Rightarrow> arguments))"

definition trim_quotes :: "rstring \<Rightarrow> rstring" where
  "trim_quotes s = trim_end_matches (\<lambda>ch. ch = 39 \<or> ch = 34)
     (trim_start_matches (\<lambda>ch. ch = 39 \<or> ch = 34) s)"

fun host_tokens_from :: "rstring list \<Rightarrow> rstring list" where
  "host_tokens_from [] = []"
| "host_tokens_from (raw # rest) =
     (let (token, comment_started) =
            (case split_once 35 raw of Some (head, _) \<Rightarrow> (head, True) | None \<Rightarrow> (raw, False));
          token = trim_quotes token in
      (if token \<noteq> [] then [token] else []) @
      (if comment_started then [] else host_tokens_from rest))"

definition host_tokens :: "rstring \<Rightarrow> rstring list" where
  "host_tokens arguments = host_tokens_from (split_ascii_whitespace arguments)"

definition concrete_alias :: "rstring \<Rightarrow> bool" where
  "concrete_alias v \<longleftrightarrow> \<not> (v = [] \<or> starts_with [33] v) \<and>
     \<not> list_ex (\<lambda>ch. is_whitespace ch \<or> is_control ch \<or> ch = 42 \<or> ch = 63 \<or> ch = 91 \<or> ch = 93) v"

definition is_structural_key :: "rstring \<Rightarrow> bool" where
  "is_structural_key key \<longleftrightarrow>
     eq_ignore_ascii_case key (lit ''match'') \<or> eq_ignore_ascii_case key (lit ''include'')"

fun scan_catalog :: "rstring list \<Rightarrow> bool \<Rightarrow> rstring list \<Rightarrow> rstring list \<times> bool" where
  "scan_catalog found unsupported [] = (found, unsupported)"
| "scan_catalog found unsupported (line # rest) =
     (case directive_parts line of
        None \<Rightarrow> scan_catalog found unsupported rest
      | Some (key, arguments) \<Rightarrow>
          let unsupported' = (if is_structural_key key then True else unsupported) in
          if \<not> eq_ignore_ascii_case key (lit ''host'') then scan_catalog found unsupported' rest
          else scan_catalog (found @ filter concrete_alias (host_tokens arguments)) unsupported' rest)"

definition parse_host_catalog :: "rstring \<Rightarrow> rstring option \<Rightarrow> OpenSshHostCatalog" where
  "parse_host_catalog contents config_path =
     (case scan_catalog [] False (lines_of contents) of (found, unsupported) \<Rightarrow>
        \<lparr>cat_config_path = config_path, cat_aliases = btree_set found,
         has_unsupported_structural_directives = unsupported\<rparr>)"

definition discover_openssh_hosts ::
  "ConfigWorld \<Rightarrow> rstring option \<Rightarrow> config_error + OpenSshHostCatalog" where
  "discover_openssh_hosts W expanded =
     (case user_home_dir W of
        None \<Rightarrow> Inr \<lparr>cat_config_path = None, cat_aliases = [], has_unsupported_structural_directives = False\<rparr>
      | Some home \<Rightarrow>
          let config_path = home @ lit ''/.ssh/config'' in
          (case config_metadata W of
             NotFound \<Rightarrow> Inr \<lparr>cat_config_path = Some config_path, cat_aliases = [],
                           has_unsupported_structural_directives = False\<rparr>
           | MetadataFailed \<Rightarrow> Inl InspectFailed
           | Present \<Rightarrow>
               and_then (ok_or ExpandFailed expanded) (\<lambda>contents.
                 Inr (parse_host_catalog contents (Some config_path)))))"

subsection \<open>The import\<close>

record ImportReport =
  imported_hosts :: nat
  skipped_existing :: nat
  skipped_unsupported_alias :: nat
  created_chains :: nat
  warnings :: "rstring list"

definition default_report :: ImportReport where
  "default_report = \<lparr>imported_hosts = 0, skipped_existing = 0, skipped_unsupported_alias = 0,
     created_chains = 0, warnings = []\<rparr>"

datatype (plugins only: code size) import_error =
    CatalogFailed config_error | StructuralRefused | AliasFailed rstring config_error
  | StoreFailed store_error | ImportInvalid model_error

definition chain_byte :: "u8 \<Rightarrow> uchar" where
  "chain_byte b =
     (if is_ascii_alphanumeric (unat b) \<or> unat b \<in> set (lit ''._-:'') then unat b else 45)"

function unique_suffix :: "HostStore \<Rightarrow> rstring \<Rightarrow> nat \<Rightarrow> rstring" where
  "unique_suffix store base suffix =
     (if 10000 < suffix then base @ lit ''-exhausted''
      else
        let candidate = base @ [45] @ dec suffix in
        if find_chain store candidate = None then candidate
        else unique_suffix store base (suffix + 1))"
  by pat_completeness auto
termination
  by (relation "measure (\<lambda>(store, base, suffix). 10001 - suffix)") auto

declare unique_suffix.simps [simp del]

definition chain_base :: "rstring \<Rightarrow> rstring" where
  "chain_base alias = lit ''openssh-'' @ take 96 (map chain_byte (as_bytes alias)) @ lit ''-jump''"

definition unique_chain_name :: "HostStore \<Rightarrow> rstring \<Rightarrow> rstring" where
  "unique_chain_name store alias =
     (let base = chain_base alias in
      if find_chain store base = None then base else unique_suffix store base 2)"

fun stored_policy :: "HostKeyPolicy \<Rightarrow> StoredHostKeyPolicy" where
  "stored_policy HostKeyPolicy.Strict = StoredHostKeyPolicy.Strict"
| "stored_policy HostKeyPolicy.AcceptNew = StoredHostKeyPolicy.AcceptNew"
| "stored_policy HostKeyPolicy.Insecure = StoredHostKeyPolicy.Insecure"

definition imported_record :: "rstring \<Rightarrow> ConnectionConfig \<Rightarrow> HostRecord" where
  "imported_record alias config =
     (let host = host_new alias (cc_host config) (cc_username config) in
      host\<lparr>h_port := cc_port config,
           h_identity_file := (case cc_identity_files config of [] \<Rightarrow> None | f # _ \<Rightarrow> Some f),
           h_host_key_policy := stored_policy (cc_host_key_policy config),
           h_tags := h_tags host @ [lit ''openssh-import'']\<rparr>)"

definition import_chain ::
  "(uchar \<Rightarrow> bool) \<Rightarrow> rstring \<Rightarrow> ConnectionConfig \<Rightarrow> HostStore \<Rightarrow> HostRecord \<Rightarrow> ImportReport
     \<Rightarrow> import_error + (HostStore \<times> HostRecord \<times> ImportReport)" where
  "import_chain U alias config store host report =
     (if cc_jump_hosts config = [] then Inr (store, host, report)
      else
        let chain_name = unique_chain_name store alias;
            chain = \<lparr>c_name = chain_name,
                     c_hops = map (\<lambda>jump. OpenSshAlias (jh_alias jump)) (cc_jump_hosts config)\<rparr> in
        case insert_chain U chain store of
          (Inl e, _) \<Rightarrow> Inl (StoreFailed e)
        | (Inr _, store') \<Rightarrow>
            Inr (store', host\<lparr>h_jump_chain := Some chain_name\<rparr>,
                 report\<lparr>created_chains := created_chains report + 1\<rparr>))"

definition import_alias ::
  "(uchar \<Rightarrow> bool) \<Rightarrow> ConfigWorld \<Rightarrow> rstring \<Rightarrow> HostStore \<Rightarrow> ImportReport
     \<Rightarrow> import_error + (HostStore \<times> ImportReport)" where
  "import_alias U W alias store report =
     (if find_host store alias \<noteq> None then
        Inr (store, report\<lparr>skipped_existing := skipped_existing report + 1\<rparr>)
      else if \<not> is_ok (validate_name alias) then
        Inr (store, report\<lparr>skipped_unsupported_alias := skipped_unsupported_alias report + 1,
                           warnings := warnings report @ [alias]\<rparr>)
      else
        and_then (map_err (AliasFailed alias) (from_openssh W alias None None)) (\<lambda>config.
        and_then (import_chain U alias config store (imported_record alias config) report)
          (\<lambda>(store, host, report).
            case insert_host U host store of
              (Inl e, _) \<Rightarrow> Inl (StoreFailed e)
            | (Inr _, store') \<Rightarrow>
                Inr (store', report\<lparr>imported_hosts := imported_hosts report + 1\<rparr>))))"

fun import_aliases ::
  "(uchar \<Rightarrow> bool) \<Rightarrow> ConfigWorld \<Rightarrow> rstring list \<Rightarrow> HostStore \<Rightarrow> ImportReport
     \<Rightarrow> import_error + (HostStore \<times> ImportReport)" where
  "import_aliases U W [] store report = Inr (store, report)"
| "import_aliases U W (alias # rest) store report =
     and_then (import_alias U W alias store report) (\<lambda>(store, report).
       import_aliases U W rest store report)"

definition import_openssh ::
  "(uchar \<Rightarrow> bool) \<Rightarrow> ConfigWorld \<Rightarrow> rstring option \<Rightarrow> HostStore
     \<Rightarrow> (import_error + ImportReport) \<times> HostStore" where
  "import_openssh U W expanded store =
     (case and_then (map_err CatalogFailed (discover_openssh_hosts W expanded)) (\<lambda>catalog.
             if has_unsupported_structural_directives catalog then Inl StructuralRefused
             else
               and_then (import_aliases U W (cat_aliases catalog) store default_report)
                 (\<lambda>(candidate, report).
                   and_then (map_err ImportInvalid (validate U (database candidate))) (\<lambda>_.
                     Inr (candidate, report)))) of
        Inl e \<Rightarrow> (Inl e, store)
      | Inr (candidate, report) \<Rightarrow> (Inr report, candidate))"

subsection \<open>Catalogue lemmas\<close>

lemma scan_catalog_tokens:
  "scan_catalog found b ls = (found', b') \<Longrightarrow>
     set found' = set found \<union> {t. \<exists>l \<in> set ls. \<exists>key args. directive_parts l = Some (key, args) \<and>
       eq_ignore_ascii_case key (lit ''host'') \<and> t \<in> set (host_tokens args) \<and> concrete_alias t} \<and>
     (b' \<longleftrightarrow> b \<or> (\<exists>l \<in> set ls. \<exists>key args. directive_parts l = Some (key, args) \<and> is_structural_key key))"
proof (induction ls arbitrary: found b)
  case (Cons l ls)
  show ?case
  proof (cases "directive_parts l")
    case None
    then have "scan_catalog found b ls = (found', b')" using Cons.prems by simp
    from Cons.IH [OF this] None show ?thesis by simp
  next
    case (Some ka)
    obtain key args where ka: "ka = (key, args)" by (cases ka)
    let ?b = "if is_structural_key key then True else b"
    let ?f = "if eq_ignore_ascii_case key (lit ''host'') then found @ filter concrete_alias (host_tokens args) else found"
    have "scan_catalog ?f ?b ls = (found', b')" using Cons.prems Some ka by (simp split: if_splits)
    from Cons.IH [OF this] Some ka show ?thesis by (auto split: if_splits)
  qed
qed simp

subsection \<open>Chain names\<close>

lemma chain_byte_name: "name_char (chain_byte b)"
  by (auto simp: chain_byte_def name_char_def lit_simps is_ascii_alphanumeric_def)

lemma name_char_ascii: "name_char c \<Longrightarrow> c < 128"
  by (auto simp: name_char_def char_class_defs lit_simps)

lemma str_len_ascii: "\<forall>c \<in> set s. c < 128 \<Longrightarrow> str_len s = length s"
  by (induction s) (auto simp: utf8_len_def)

lemma name_wf_iff_length: "name_wf v \<longleftrightarrow> v \<noteq> [] \<and> length v \<le> 128 \<and> (\<forall>c \<in> set v. name_char c)"
  using name_char_ascii str_len_ascii [of v] by (auto simp: name_wf_def)

lemma name_chars_lit: "\<forall>c \<in> set (lit ''openssh-''). name_char c" "\<forall>c \<in> set (lit ''-jump''). name_char c"
    "\<forall>c \<in> set (lit ''-exhausted''). name_char c" "name_char 45"
  by code_simp+

lemma chain_base_chars: "\<forall>c \<in> set (chain_base alias). name_char c" "length (chain_base alias) \<le> 109"
    "chain_base alias \<noteq> []"
  using name_chars_lit chain_byte_name
  by (auto simp: chain_base_def lit_def dest!: in_set_takeD)

lemma length_dec: "n < 10 ^ k \<Longrightarrow> 0 < k \<Longrightarrow> length (dec n) \<le> k"
proof (induction k arbitrary: n)
  case (Suc k)
  show ?case
  proof (cases "n < 10")
    case True
    then show ?thesis by (subst dec.simps) simp
  next
    case False
    then have "n div 10 < 10 ^ k" "0 < k" using Suc.prems by (auto simp: less_mult_imp_div_less intro: Nat.gr0I)
    then show ?thesis using Suc.IH [of "n div 10"] False by (subst dec.simps) simp
  qed
qed simp

lemma digit_name: "is_ascii_digit c \<Longrightarrow> name_char c"
  by (simp add: name_char_def is_ascii_alphanumeric_def)

lemma unique_suffix_name:
  assumes "\<forall>c \<in> set base. name_char c" and "length base \<le> 109"
  shows "name_wf (unique_suffix store base n)"
  using assms
proof (induction store base n rule: unique_suffix.induct)
  case (1 store base n)
  show ?case
  proof (cases "10000 < n \<or> find_chain store (base @ [45] @ dec n) \<noteq> None")
    case True
    then show ?thesis using 1 name_chars_lit
      by (subst unique_suffix.simps) (auto simp: Let_def name_wf_iff_length lit_def)
  next
    case False
    then have "length (dec n) \<le> 5" using length_dec [of n 5] by simp
    with False show ?thesis using 1 name_chars_lit dec_digits digit_name
      by (subst unique_suffix.simps) (auto simp: Let_def name_wf_iff_length)
  qed
qed

lemma unique_suffix_fresh:
  assumes "m \<le> 10000" and "n \<le> m" and "find_chain store (base @ [45] @ dec m) = None"
  shows "find_chain store (unique_suffix store base n) = None"
  using assms
proof (induction store base n rule: unique_suffix.induct)
  case (1 store base n)
  show ?case
  proof (cases "find_chain store (base @ [45] @ dec n) = None")
    case True
    then show ?thesis using "1.prems" by (subst unique_suffix.simps) (simp add: Let_def)
  next
    case False
    then have "n + 1 \<le> m" using "1.prems" by (metis Suc_eq_plus1 Suc_leI le_neq_implies_less)
    then show ?thesis
      using 1 False by (subst unique_suffix.simps) (simp add: Let_def)
  qed
qed

lemma exists_fresh_suffix:
  assumes "length (chains (database store)) \<le> 512"
  shows "\<exists>m \<in> {2..10000}. find_chain store (base @ [45] @ dec m) = None"
proof (rule ccontr)
  assume "\<not> ?thesis"
  then have sub: "(\<lambda>m. base @ [45] @ dec m) ` {2..10000} \<subseteq> fst ` set (chains (database store))"
    by (auto simp: find_chain_def bt_contains_iff [symmetric])
  have "inj_on (\<lambda>m. base @ [45] @ dec m) {2..10000}"
    by (rule inj_onI) (metis append_same_eq digits_value_dec same_append_eq)
  then have "card ((\<lambda>m. base @ [45] @ dec m) ` {2..10000}) = 9999" by (simp add: card_image)
  moreover have "card (fst ` set (chains (database store))) \<le> 512"
    using assms card_length [of "map fst (chains (database store))"] by simp
  ultimately show False using card_mono [OF _ sub] by simp
qed

lemma unique_chain_name_ok:
  shows "name_wf (unique_chain_name store alias)"
    and "length (chains (database store)) \<le> 512 \<Longrightarrow> find_chain store (unique_chain_name store alias) = None"
proof -
  show "name_wf (unique_chain_name store alias)"
    using chain_base_chars [of "alias"] unique_suffix_name [of "chain_base alias" store 2]
    by (auto simp: unique_chain_name_def Let_def name_wf_iff_length)
  assume "length (chains (database store)) \<le> 512"
  then obtain m where "m \<in> {2..10000}" "find_chain store (chain_base alias @ [45] @ dec m) = None"
    using exists_fresh_suffix by blast
  then show "find_chain store (unique_chain_name store alias) = None"
    using unique_suffix_fresh [of m 2 store "chain_base alias"]
    by (simp add: unique_chain_name_def Let_def)
qed

subsection \<open>What the import keeps\<close>

text \<open>\<open>store'\<close> has everything of \<open>store\<close>, \<open>i\<close> more hosts and \<open>c\<close> more chains.\<close>

definition store_grows :: "(uchar \<Rightarrow> bool) \<Rightarrow> nat \<Rightarrow> nat \<Rightarrow> HostStore \<Rightarrow> HostStore \<Rightarrow> bool" where
  "store_grows U i c st st' \<longleftrightarrow> store_ok U st' \<and>
     (\<forall>a h. find_host st a = Some h \<longrightarrow> find_host st' a = Some h) \<and>
     (\<forall>n k. find_chain st n = Some k \<longrightarrow> find_chain st' n = Some k) \<and>
     length (hosts (database st')) = length (hosts (database st)) + i \<and>
     length (chains (database st')) = length (chains (database st)) + c"

lemma store_grows_refl: "store_ok U st \<Longrightarrow> store_grows U 0 0 st st"
  by (simp add: store_grows_def)

lemma store_grows_trans:
  "store_grows U i c st st' \<Longrightarrow> store_grows U i' c' st' st'' \<Longrightarrow> store_grows U (i + i') (c + c') st st''"
  by (auto simp: store_grows_def)

lemma store_grows_ok: "store_grows U i c st st' \<Longrightarrow> store_ok U st'"
  by (simp add: store_grows_def)

lemma insert_host_grows:
  assumes "store_ok U st" and "insert_host U h st = (Inr (), st')"
  shows "store_grows U 1 0 st st'" and "find_host st' (h_alias h) = Some h"
proof -
  have new: "bt_get (hosts (database st)) (h_alias h) = None"
      and st': "st' = set_hosts (bt_insert (h_alias h) h (hosts (database st))) st"
    using assms(2)
    by (auto simp: insert_host_def Let_def split: if_splits sum.splits simp del: host_validate_ok)
  have ok: "bt_ok (hosts (database st))" using assms(1) by (simp add: store_ok_def)
  have "store_ok U st'" using insert_host_keeps [OF assms(1), of h] assms(2) by simp
  then show "store_grows U 1 0 st st'"
    using new st' ok length_bt_insert [OF ok, of "h_alias h" h]
    by (auto simp: store_grows_def find_host_def find_chain_def bt_laws)
  show "find_host st' (h_alias h) = Some h" using st' ok by (simp add: find_host_def bt_laws)
qed

lemma insert_chain_grows:
  assumes "store_ok U st" and "insert_chain U k st = (Inr (), st')"
  shows "store_grows U 0 1 st st'" and "find_chain st' (c_name k) = Some k"
proof -
  have new: "bt_get (chains (database st)) (c_name k) = None"
      and st': "st' = set_chains (bt_insert (c_name k) k (chains (database st))) st"
    using assms(2)
    by (auto simp: insert_chain_def Let_def split: if_splits sum.splits)
  have ok: "bt_ok (chains (database st))" using assms(1) by (simp add: store_ok_def)
  have "store_ok U st'" using insert_chain_keeps [OF assms(1), of k] assms(2) by simp
  then show "store_grows U 0 1 st st'"
    using new st' ok length_bt_insert [OF ok, of "c_name k" k]
    by (auto simp: store_grows_def find_host_def find_chain_def bt_laws)
  show "find_chain st' (c_name k) = Some k" using st' ok by (simp add: find_chain_def bt_laws)
qed

lemma import_chain_grows:
  assumes "store_ok U st" and "import_chain U alias config st host rep = Inr (st', host', rep')"
  shows "\<exists>c. store_grows U 0 c st st' \<and> h_alias host' = h_alias host \<and>
    rep' = rep\<lparr>created_chains := created_chains rep + c\<rparr>"
proof (cases "cc_jump_hosts config = []")
  case True
  then show ?thesis using assms store_grows_refl
    by (intro exI [of _ 0]) (simp add: import_chain_def)
next
  case False
  then show ?thesis using assms insert_chain_grows(1) [OF assms(1)]
    by (intro exI [of _ 1]) (auto simp: import_chain_def Let_def split: prod.splits sum.splits)
qed

lemma imported_record_alias [simp]: "h_alias (imported_record alias config) = alias"
  by (simp add: imported_record_def host_new_def Let_def)

lemma import_alias_grows:
  assumes ok: "store_ok U st" and step: "import_alias U W alias st rep = Inr (st', rep')"
  shows "\<exists>i c. store_grows U i c st st' \<and> imported_hosts rep' = imported_hosts rep + i \<and>
    created_chains rep' = created_chains rep + c \<and>
    imported_hosts rep' + skipped_existing rep' + skipped_unsupported_alias rep' =
      imported_hosts rep + skipped_existing rep + skipped_unsupported_alias rep + 1 \<and>
    (name_wf alias \<longrightarrow> find_host st' alias \<noteq> None)"
proof (cases "find_host st alias \<noteq> None \<or> \<not> is_ok (validate_name alias)")
  case True
  then show ?thesis using step store_grows_refl [OF ok]
    by (intro exI [of _ 0]) (auto simp: import_alias_def is_ok_unit split: if_splits)
next
  case False
  then obtain config x where c: "import_chain U alias config st (imported_record alias config) rep = Inr x"
      "(case x of (store, host, report) \<Rightarrow> case insert_host U host store of
          (Inl e, _) \<Rightarrow> Inl (StoreFailed e)
        | (Inr _, store') \<Rightarrow> Inr (store', report\<lparr>imported_hosts := imported_hosts report + 1\<rparr>)) = Inr (st', rep')"
    using step by (auto simp: import_alias_def and_then_eq_Inr simp del: add_Suc_right)
  obtain st1 host1 rep1 where x: "x = (st1, host1, rep1)" by (cases x)
  obtain res st2 where i: "insert_host U host1 st1 = (res, st2)" by (cases "insert_host U host1 st1")
  have h: "insert_host U host1 st1 = (Inr (), st')"
      and r: "rep' = rep1\<lparr>imported_hosts := imported_hosts rep1 + 1\<rparr>"
    using c(2) x i by (auto split: sum.splits)
  note c = c(1) [unfolded x]
  obtain k where k: "store_grows U 0 k st st1" "h_alias host1 = alias"
      "rep1 = rep\<lparr>created_chains := created_chains rep + k\<rparr>"
    using import_chain_grows [OF ok c] by auto
  note ins = insert_host_grows [OF store_grows_ok [OF k(1)] h]
  have "store_grows U 1 k st st'" using store_grows_trans [OF k(1) ins(1)] by simp
  then show ?thesis using r k ins(2) by (intro exI [of _ 1] exI [of _ k]) auto
qed

lemma import_aliases_grows:
  assumes "store_ok U st" and "import_aliases U W as st rep = Inr (st', rep')"
  shows "\<exists>i c. store_grows U i c st st' \<and> imported_hosts rep' = imported_hosts rep + i \<and>
    created_chains rep' = created_chains rep + c \<and>
    imported_hosts rep' + skipped_existing rep' + skipped_unsupported_alias rep' =
      imported_hosts rep + skipped_existing rep + skipped_unsupported_alias rep + length as \<and>
    (\<forall>a \<in> set as. name_wf a \<longrightarrow> find_host st' a \<noteq> None)"
  using assms
proof (induction as arbitrary: st rep)
  case Nil
  then show ?case using store_grows_refl by (intro exI [of _ 0]) auto
next
  case (Cons a as)
  obtain st1 rep1 where s: "import_alias U W a st rep = Inr (st1, rep1)"
      "import_aliases U W as st1 rep1 = Inr (st', rep')"
    using Cons.prems(2) by (auto simp: and_then_eq_Inr)
  obtain i c where one: "store_grows U i c st st1" "imported_hosts rep1 = imported_hosts rep + i"
      "created_chains rep1 = created_chains rep + c"
      "imported_hosts rep1 + skipped_existing rep1 + skipped_unsupported_alias rep1 =
        imported_hosts rep + skipped_existing rep + skipped_unsupported_alias rep + 1"
      "name_wf a \<longrightarrow> find_host st1 a \<noteq> None"
    using import_alias_grows [OF Cons.prems(1) s(1)] by blast
  obtain j d where rest: "store_grows U j d st1 st'" "imported_hosts rep' = imported_hosts rep1 + j"
      "created_chains rep' = created_chains rep1 + d"
      "imported_hosts rep' + skipped_existing rep' + skipped_unsupported_alias rep' =
        imported_hosts rep1 + skipped_existing rep1 + skipped_unsupported_alias rep1 + length as"
      "\<forall>b \<in> set as. name_wf b \<longrightarrow> find_host st' b \<noteq> None"
    using Cons.IH [OF store_grows_ok [OF one(1)] s(2)] by blast
  have "name_wf a \<longrightarrow> find_host st' a \<noteq> None"
    using one(5) rest(1) by (auto simp: store_grows_def)
  then show ?case
    using store_grows_trans [OF one(1) rest(1)] one rest
    by (intro exI [of _ "i + j"] exI [of _ "c + d"]) auto
qed

subsection \<open>Properties of the catalogue and the import\<close>

definition import_world :: ConfigWorld where
  "import_world = open_world
     \<lparr>user_home_dir := Some (lit ''/home/ops''), config_metadata := Present,
      expand_user_config := (\<lambda>_. Some (lit ''Host *'')),
      russh_parse := (\<lambda>_ alias. Some (russh_default open_world alias))\<rparr>"

definition import_text :: rstring where
  "import_text = unlines (map lit [''Host prod *.internal'', ''  ProxyJump a@gate:2222, edge'',
     ''Host gate # bastion'', ''Host !x'', ''Host edge''])"

definition new_store :: HostStore where
  "new_store = \<lparr>path = lit ''hosts.toml'', database = default_database\<rparr>"

lemma new_store_ok: "store_ok (\<lambda>_. False) new_store"
proof -
  have "validate (\<lambda>_. False) (database new_store) = Inr ()" by code_simp
  then have "db_wf (\<lambda>_. False) (database new_store)" by (rule validate_ok [THEN iffD1])
  moreover have "bt_ok (hosts (database new_store))" "bt_ok (chains (database new_store))"
    by code_simp+
  ultimately show ?thesis unfolding store_ok_def by blast
qed

text \<open>
  The catalogue lists, sorted and without repetition, exactly the concrete aliases of the
  \<open>Host\<close> lines: tokens without quotes and comments that are not negated and have no wildcard;
  and it is marked unsupported exactly when a \<open>Match\<close> or \<open>Include\<close> line is present.
\<close>

theorem catalog_lists_concrete_aliases:
  "let cat = parse_host_catalog contents p; parts = List.map_filter directive_parts (lines_of contents) in
   sorted (cat_aliases cat) \<and> distinct (cat_aliases cat) \<and>
   set (cat_aliases cat) =
     {t. \<exists>key args. (key, args) \<in> set parts \<and> eq_ignore_ascii_case key (lit ''host'') \<and>
         t \<in> set (host_tokens args) \<and> concrete_alias t} \<and>
   has_unsupported_structural_directives cat = list_ex (\<lambda>(key, args). is_structural_key key) parts"
proof -
  obtain found b where s: "scan_catalog [] False (lines_of contents) = (found, b)"
    by (cases "scan_catalog [] False (lines_of contents)")
  have parts: "x \<in> set (List.map_filter directive_parts ls) \<longleftrightarrow> (\<exists>l \<in> set ls. directive_parts l = Some x)" for x ls
    by (induction ls) (auto simp: List.map_filter_simps split: option.splits)
  have flag: "b \<longleftrightarrow> list_ex (\<lambda>(key, args). is_structural_key key) (List.map_filter directive_parts (lines_of contents))"
    using scan_catalog_tokens [OF s] unfolding list_ex_iff Bex_def parts by fastforce
  have "set found = {t. \<exists>key args. (key, args) \<in> set (List.map_filter directive_parts (lines_of contents)) \<and>
      eq_ignore_ascii_case key (lit ''host'') \<and> t \<in> set (host_tokens args) \<and> concrete_alias t}"
    using scan_catalog_tokens [OF s] unfolding parts by auto
  then show ?thesis using flag by (simp add: parse_host_catalog_def s btree_set_def Let_def)
qed

text \<open>
  The name invented for an imported chain is always usable: it is a portable name within the
  length limit, and in a store within its limit of chains it is not taken, so that the loop over the
  suffixes finds a name and the import never runs into an existing chain.
\<close>

theorem import_chain_name_is_fresh:
  assumes "length (chains (database store)) \<le> MAX_CHAINS"
  shows "validate_name (unique_chain_name store alias) = Inr () \<and>
    find_chain store (unique_chain_name store alias) = None"
  using unique_chain_name_ok assms by (simp add: MAX_CHAINS_def)

theorem import_chain_name_is_fresh_witness:
  "find_chain new_store (unique_chain_name new_store (lit ''prod'')) = None"
proof -
  have "length (chains (database new_store)) \<le> MAX_CHAINS" by code_simp
  then show ?thesis using import_chain_name_is_fresh by blast
qed

text \<open>
  C35. Importing is all or nothing and never touches what is there: on an error the store is what it
  was; otherwise the library still validates, every host and chain it had is unchanged, it grew by
  exactly the reported numbers, every alias of the catalogue is counted once, and every alias that
  the library can represent is present.
\<close>

theorem import_keeps_library:
  assumes "store_ok U st" and "import_openssh U W expanded st = (r, st')"
  shows "case r of
      Inl e \<Rightarrow> st' = st
    | Inr rep \<Rightarrow>
        validate U (database st') = Inr () \<and>
        (\<forall>a h. find_host st a = Some h \<longrightarrow> find_host st' a = Some h) \<and>
        (\<forall>n k. find_chain st n = Some k \<longrightarrow> find_chain st' n = Some k) \<and>
        length (hosts (database st')) = length (hosts (database st)) + imported_hosts rep \<and>
        length (chains (database st')) = length (chains (database st)) + created_chains rep \<and>
        (\<exists>cat. discover_openssh_hosts W expanded = Inr cat \<and>
           imported_hosts rep + skipped_existing rep + skipped_unsupported_alias rep =
             length (cat_aliases cat) \<and>
           (\<forall>a \<in> set (cat_aliases cat). validate_name a = Inr () \<longrightarrow> find_host st' a \<noteq> None))"
proof (cases r)
  case (Inl e)
  then show ?thesis using assms(2) by (auto simp: import_openssh_def split: sum.splits)
next
  case (Inr rep)
  then obtain cat where cat: "discover_openssh_hosts W expanded = Inr cat"
      "import_aliases U W (cat_aliases cat) st default_report = Inr (st', rep)"
    using assms(2)
    by (auto simp: import_openssh_def and_then_eq_Inr split: sum.splits if_splits)
  show ?thesis
    using import_aliases_grows [OF assms(1) cat(2)] cat(1) Inr
    by (auto simp: store_grows_def store_ok_def validate_ok default_report_def)
qed

theorem import_keeps_library_witness:
  "\<exists>rep st'. import_openssh (\<lambda>_. False) import_world (Some import_text) new_store = (Inr rep, st') \<and>
     validate (\<lambda>_. False) (database st') = Inr () \<and> length (hosts (database st')) = imported_hosts rep"
proof -
  let ?r = "import_openssh (\<lambda>_. False) import_world (Some import_text) new_store"
  have "is_ok (fst ?r)" by code_simp
  then obtain rep st' where r: "?r = (Inr rep, st')" by (cases ?r) (auto simp: is_ok_iff)
  have "hosts (database new_store) = []" by code_simp
  then show ?thesis using import_keeps_library [OF new_store_ok r] r by auto
qed

text \<open>
  The import loses the user and port of a jump hop. A chain is stored as aliases only, so for a
  host whose configuration says \<open>ProxyJump a@gate:2222, edge\<close> OpenSSH resolution goes through
  \<open>a@gate:2222\<close>, while the imported host goes through \<open>gate\<close> with the user and port of its own entry.
\<close>

theorem import_loses_jump_overrides:
  "\<exists>rep st' before_import after_import.
     import_openssh (\<lambda>_. False) import_world (Some import_text) new_store = (Inr rep, st') \<and>
     resolve_host (\<lambda>_. False) import_world (database new_store) (lit ''prod'') None None = Inr before_import \<and>
     resolve_host (\<lambda>_. False) import_world (database st') (lit ''prod'') None None = Inr after_import \<and>
     map (\<lambda>j. (jh_username j, jh_alias j, jh_port j)) (cc_jump_hosts (r_config before_import)) =
       [(lit ''a'', lit ''gate'', 2222), (lit ''ops'', lit ''edge'', 22)] \<and>
     map (\<lambda>j. (jh_username j, jh_alias j, jh_port j)) (cc_jump_hosts (r_config after_import)) =
       [(lit ''ops'', lit ''gate'', 22), (lit ''ops'', lit ''edge'', 22)]"
proof -
  let ?U = "\<lambda>_. False"
  let ?hops = "\<lambda>r. case r of Inl _ \<Rightarrow> [] | Inr res \<Rightarrow>
    map (\<lambda>j. (jh_username j, jh_alias j, jh_port j)) (cc_jump_hosts (r_config res))"
  let ?i = "import_openssh ?U import_world (Some import_text) new_store"
  have "is_ok (fst ?i)" by code_simp
  moreover have b: "?hops (resolve_host ?U import_world (database new_store) (lit ''prod'') None None) =
      [(lit ''a'', lit ''gate'', 2222), (lit ''ops'', lit ''edge'', 22)]" by code_simp
  moreover have a: "?hops (resolve_host ?U import_world (database (snd ?i)) (lit ''prod'') None None) =
      [(lit ''ops'', lit ''gate'', 22), (lit ''ops'', lit ''edge'', 22)]" by code_simp
  obtain bi where "resolve_host ?U import_world (database new_store) (lit ''prod'') None None = Inr bi"
    using b by (auto split: sum.splits)
  moreover obtain ai where "resolve_host ?U import_world (database (snd ?i)) (lit ''prod'') None None = Inr ai"
    using a by (auto split: sum.splits)
  ultimately show ?thesis using a b by (cases ?i) (auto simp: is_ok_iff)
qed

end
