(* ===== verification/Daemon_Protocol.thy ===== *)
theory Daemon_Protocol
  imports Utf8
begin

section \<open>The daemon wire protocol (kaduox-ssh-daemon/src/protocol.rs)\<close>

text \<open>
  Frames between the command line client and the daemon: a four byte length, a tag byte and the
  fields. The \<open>put\<close> functions return the bytes they append to the output; the decoder is a cursor
  over the payload. A stream is the list of bytes still to come, after which it is at its end. Failures of
  the transport other than its end are not modelled. \<open>usize\<close> is 64 bits wide.
\<close>

type_synonym bytes = "u8 list"
type_synonym usize = u64

datatype (plugins only: code size) proto_error =
    UnexpectedEnd | LengthOverflow | TrailingBytes | NotUtf8
  | FieldTooLong nat | FieldExceedsU32 | CounterExceedsU32
  | BadBool u8 | BadOptional u8 | BadAuthKind u8 | BadExitFlag u8
  | UnknownClientTag u8 | UnknownServerTag u8
  | LengthTruncated | LengthOutOfRange nat | PayloadTruncated | PayloadSize nat

definition PROTOCOL_VERSION :: u16 where "PROTOCOL_VERSION = 2"
definition MAX_FRAME_BYTES :: nat where "MAX_FRAME_BYTES = 1024 * 1024"
definition MAX_ALIAS_BYTES :: nat where "MAX_ALIAS_BYTES = 128"
definition MAX_COMMAND_BYTES :: nat where "MAX_COMMAND_BYTES = 256 * 1024"
definition MAX_SECRET_BYTES :: nat where "MAX_SECRET_BYTES = 64 * 1024"
definition OUTPUT_CHUNK_BYTES :: nat where "OUTPUT_CHUNK_BYTES = 16 * 1024"

definition TAG_PING :: u8 where "TAG_PING = 1"
definition TAG_STATUS :: u8 where "TAG_STATUS = 2"
definition TAG_DISCONNECT :: u8 where "TAG_DISCONNECT = 3"
definition TAG_EXEC :: u8 where "TAG_EXEC = 4"
definition TAG_SHELL :: u8 where "TAG_SHELL = 5"
definition TAG_INPUT :: u8 where "TAG_INPUT = 6"
definition TAG_RESIZE :: u8 where "TAG_RESIZE = 7"
definition TAG_EOF :: u8 where "TAG_EOF = 8"
definition TAG_SHUTDOWN :: u8 where "TAG_SHUTDOWN = 9"
definition TAG_JUMP_AUTH_RESPONSE :: u8 where "TAG_JUMP_AUTH_RESPONSE = 10"
definition TAG_OK :: u8 where "TAG_OK = 64"
definition TAG_ERROR :: u8 where "TAG_ERROR = 65"
definition TAG_AUTH_REQUIRED :: u8 where "TAG_AUTH_REQUIRED = 66"
definition TAG_STDOUT :: u8 where "TAG_STDOUT = 67"
definition TAG_STDERR :: u8 where "TAG_STDERR = 68"
definition TAG_EXIT :: u8 where "TAG_EXIT = 69"
definition TAG_STATUS_RESPONSE :: u8 where "TAG_STATUS_RESPONSE = 70"
definition TAG_CACHE :: u8 where "TAG_CACHE = 71"
definition TAG_JUMP_AUTH_CHALLENGE :: u8 where "TAG_JUMP_AUTH_CHALLENGE = 72"

lemmas protocol_limits =
  MAX_FRAME_BYTES_def MAX_ALIAS_BYTES_def MAX_COMMAND_BYTES_def MAX_SECRET_BYTES_def
  OUTPUT_CHUNK_BYTES_def

lemmas protocol_tags =
  TAG_PING_def TAG_STATUS_def TAG_DISCONNECT_def TAG_EXEC_def TAG_SHELL_def TAG_INPUT_def
  TAG_RESIZE_def TAG_EOF_def TAG_SHUTDOWN_def TAG_JUMP_AUTH_RESPONSE_def TAG_OK_def TAG_ERROR_def
  TAG_AUTH_REQUIRED_def TAG_STDOUT_def TAG_STDERR_def TAG_EXIT_def TAG_STATUS_RESPONSE_def
  TAG_CACHE_def TAG_JUMP_AUTH_CHALLENGE_def

datatype AuthRequest =
    AuthAuto | AuthAgent | AuthPassword rstring | AuthKeyboardInteractive rstring
  | AuthPrivateKey rstring "rstring option"

datatype ClientFrame =
    Ping | Status
  | Disconnect rstring
  | Exec rstring "AuthRequest option" rstring "rstring option"
  | Shell rstring "AuthRequest option" rstring u32 u32 "rstring option"
  | Input bytes
  | Resize u32 u32
  | Eof | Shutdown
  | JumpAuthResponse "AuthRequest option"

datatype ServerFrame =
    Ok | Error rstring | AuthRequired | Stdout bytes | Stderr bytes
  | Exit "u32 option"
  | StatusResponse usize usize usize usize usize
  | Cache bool
  | JumpAuthChallenge usize usize usize rstring rstring u16 bool

subsection \<open>Writing fields\<close>

definition put_u16 :: "u16 \<Rightarrow> bytes" where "put_u16 v = be_bytes 2 (unat v)"
definition put_u32 :: "u32 \<Rightarrow> bytes" where "put_u32 v = be_bytes 4 (unat v)"
definition put_u64 :: "u64 \<Rightarrow> bytes" where "put_u64 v = be_bytes 8 (unat v)"

definition put_bytes :: "nat \<Rightarrow> bytes \<Rightarrow> proto_error + bytes" where
  "put_bytes m bs =
     (if m < length bs then Inl (FieldTooLong m)
      else if 2 ^ 32 \<le> length bs then Inl FieldExceedsU32
      else Inr (put_u32 (of_nat (length bs)) @ bs))"

definition put_string :: "nat \<Rightarrow> rstring \<Rightarrow> proto_error + bytes" where
  "put_string m s = put_bytes m (as_bytes s)"

definition put_optional_string :: "nat \<Rightarrow> rstring option \<Rightarrow> proto_error + bytes" where
  "put_optional_string m opt = (case opt of
       None \<Rightarrow> Inr [0]
     | Some s \<Rightarrow> map_ok (Cons 1) (put_string m s))"

definition put_usize_u32 :: "usize \<Rightarrow> proto_error + bytes" where
  "put_usize_u32 v =
     (if 2 ^ 32 \<le> unat v then Inl CounterExceedsU32 else Inr (put_u32 (of_nat (unat v))))"

definition put_bool :: "bool \<Rightarrow> bytes" where
  "put_bool b = [if b then 1 else 0]"

text \<open>Appending one field after another; \<open>?\<close> stops at the first error.\<close>

fun put_all :: "(proto_error + bytes) list \<Rightarrow> proto_error + bytes" where
  "put_all [] = Inr []"
| "put_all (f # fs) = and_then f (\<lambda>a. and_then (put_all fs) (\<lambda>b. Inr (a @ b)))"

text \<open>The path of a private key is Unicode text, so \<open>to_str\<close> succeeds.\<close>

fun put_auth :: "AuthRequest option \<Rightarrow> proto_error + bytes" where
  "put_auth None = Inr [0]"
| "put_auth (Some AuthAuto) = Inr [1]"
| "put_auth (Some AuthAgent) = Inr [2]"
| "put_auth (Some (AuthPassword secret)) = put_all [Inr [3], put_string MAX_SECRET_BYTES secret]"
| "put_auth (Some (AuthKeyboardInteractive secret)) =
     put_all [Inr [4], put_string MAX_SECRET_BYTES secret]"
| "put_auth (Some (AuthPrivateKey p passphrase)) =
     put_all [Inr [5], put_string 4096 p, put_optional_string MAX_SECRET_BYTES passphrase]"

fun encode_client :: "ClientFrame \<Rightarrow> proto_error + bytes" where
  "encode_client Ping = Inr [TAG_PING]"
| "encode_client Status = Inr [TAG_STATUS]"
| "encode_client (Disconnect a) = put_all [Inr [TAG_DISCONNECT], put_string MAX_ALIAS_BYTES a]"
| "encode_client (Exec a auth cmd as_user) =
     put_all [Inr [TAG_EXEC], put_string MAX_ALIAS_BYTES a, put_auth auth,
       put_string MAX_COMMAND_BYTES cmd, put_optional_string MAX_ALIAS_BYTES as_user]"
| "encode_client (Shell a auth trm columns rows as_user) =
     put_all [Inr [TAG_SHELL], put_string MAX_ALIAS_BYTES a, put_auth auth, put_string 256 trm,
       Inr (put_u32 columns), Inr (put_u32 rows), put_optional_string MAX_ALIAS_BYTES as_user]"
| "encode_client (Input bs) = put_all [Inr [TAG_INPUT], put_bytes OUTPUT_CHUNK_BYTES bs]"
| "encode_client (Resize columns rows) =
     put_all [Inr [TAG_RESIZE], Inr (put_u32 columns), Inr (put_u32 rows)]"
| "encode_client Eof = Inr [TAG_EOF]"
| "encode_client Shutdown = Inr [TAG_SHUTDOWN]"
| "encode_client (JumpAuthResponse auth) = put_all [Inr [TAG_JUMP_AUTH_RESPONSE], put_auth auth]"

fun encode_server :: "ServerFrame \<Rightarrow> proto_error + bytes" where
  "encode_server Ok = Inr [TAG_OK]"
| "encode_server (Error message) = put_all [Inr [TAG_ERROR], put_string MAX_COMMAND_BYTES message]"
| "encode_server AuthRequired = Inr [TAG_AUTH_REQUIRED]"
| "encode_server (Stdout bs) = put_all [Inr [TAG_STDOUT], put_bytes OUTPUT_CHUNK_BYTES bs]"
| "encode_server (Stderr bs) = put_all [Inr [TAG_STDERR], put_bytes OUTPUT_CHUNK_BYTES bs]"
| "encode_server (Exit status) =
     put_all [Inr [TAG_EXIT], case status of Some s \<Rightarrow> Inr (1 # put_u32 s) | None \<Rightarrow> Inr [0]]"
| "encode_server (StatusResponse total_n in_use leases max_conn available) =
     put_all [Inr [TAG_STATUS_RESPONSE], Inr (put_u64 total_n), Inr (put_u64 in_use),
       Inr (put_u64 leases), Inr (put_u64 max_conn), Inr (put_u64 available)]"
| "encode_server (Cache reused) = put_all [Inr [TAG_CACHE], Inr (put_bool reused)]"
| "encode_server (JumpAuthChallenge index total_n attempt a host port previous_failed) =
     put_all [Inr [TAG_JUMP_AUTH_CHALLENGE], put_usize_u32 index, put_usize_u32 total_n,
       put_usize_u32 attempt, put_string MAX_ALIAS_BYTES a, put_string 4096 host,
       Inr (put_u16 port), Inr (put_bool previous_failed)]"

subsection \<open>Reading fields\<close>

record Cursor =
  c_bytes :: bytes
  c_offset :: nat

type_synonym 'a reader = "Cursor \<Rightarrow> proto_error + ('a \<times> Cursor)"

definition cursor_new :: "bytes \<Rightarrow> Cursor" where
  "cursor_new bs = \<lparr>c_bytes = bs, c_offset = 0\<rparr>"

text \<open>The last branch is the overflow of \<open>self.offset += 1\<close>, out of reach for a slice.\<close>

definition get_u8 :: "u8 reader" where
  "get_u8 cur =
     (if length (c_bytes cur) \<le> c_offset cur then Inl UnexpectedEnd
      else if c_offset cur + 1 < 2 ^ 64
        then Inr (c_bytes cur ! c_offset cur, cur\<lparr>c_offset := c_offset cur + 1\<rparr>)
      else Inl LengthOverflow)"

definition cursor_take :: "nat \<Rightarrow> bytes reader" where
  "cursor_take n cur =
     (let stop = c_offset cur + n in
      if 2 ^ 64 \<le> stop then Inl LengthOverflow
      else if length (c_bytes cur) < stop then Inl UnexpectedEnd
      else Inr (take n (drop (c_offset cur) (c_bytes cur)), cur\<lparr>c_offset := stop\<rparr>))"

definition get_bool :: "bool reader" where
  "get_bool cur = and_then (get_u8 cur) (\<lambda>(v, cur).
     if v = 0 then Inr (False, cur) else if v = 1 then Inr (True, cur) else Inl (BadBool v))"

definition get_u16 :: "u16 reader" where
  "get_u16 cur = and_then (cursor_take 2 cur) (\<lambda>(bs, cur). Inr (of_nat (from_be bs), cur))"

definition get_u32 :: "u32 reader" where
  "get_u32 cur = and_then (cursor_take 4 cur) (\<lambda>(bs, cur). Inr (of_nat (from_be bs), cur))"

definition get_u64 :: "u64 reader" where
  "get_u64 cur = and_then (cursor_take 8 cur) (\<lambda>(bs, cur). Inr (of_nat (from_be bs), cur))"

definition get_bytes :: "nat \<Rightarrow> bytes reader" where
  "get_bytes m cur = and_then (get_u32 cur) (\<lambda>(n, cur).
     if m < unat n then Inl (FieldTooLong m) else cursor_take (unat n) cur)"

definition get_string :: "nat \<Rightarrow> rstring reader" where
  "get_string m cur = and_then (get_bytes m cur) (\<lambda>(bs, cur).
     and_then (ok_or NotUtf8 (from_utf8 bs)) (\<lambda>s. Inr (s, cur)))"

definition get_optional_string :: "nat \<Rightarrow> rstring option reader" where
  "get_optional_string m cur = and_then (get_u8 cur) (\<lambda>(v, cur).
     if v = 0 then Inr (None, cur)
     else if v = 1 then and_then (get_string m cur) (\<lambda>(s, cur). Inr (Some s, cur))
     else Inl (BadOptional v))"

definition get_auth :: "AuthRequest option reader" where
  "get_auth cur = and_then (get_u8 cur) (\<lambda>(v, cur).
     if v = 0 then Inr (None, cur)
     else if v = 1 then Inr (Some AuthAuto, cur)
     else if v = 2 then Inr (Some AuthAgent, cur)
     else if v = 3 then
       and_then (get_string MAX_SECRET_BYTES cur) (\<lambda>(s, cur). Inr (Some (AuthPassword s), cur))
     else if v = 4 then
       and_then (get_string MAX_SECRET_BYTES cur) (\<lambda>(s, cur).
         Inr (Some (AuthKeyboardInteractive s), cur))
     else if v = 5 then
       and_then (get_string 4096 cur) (\<lambda>(p, cur).
       and_then (get_optional_string MAX_SECRET_BYTES cur) (\<lambda>(pass, cur).
         Inr (Some (AuthPrivateKey p pass), cur)))
     else Inl (BadAuthKind v))"

definition usize_from_u32 :: "u32 \<Rightarrow> usize" where "usize_from_u32 v = of_nat (unat v)"

definition get_usize_u32 :: "usize reader" where
  "get_usize_u32 cur = and_then (get_u32 cur) (\<lambda>(v, cur). Inr (usize_from_u32 v, cur))"

definition finish :: "Cursor \<Rightarrow> proto_error + unit" where
  "finish cur = (if c_offset cur \<noteq> length (c_bytes cur) then Inl TrailingBytes else Inr ())"

definition read_client :: "ClientFrame reader" where
  "read_client cur = and_then (get_u8 cur) (\<lambda>(tag, cur).
     if tag = TAG_PING then Inr (Ping, cur)
     else if tag = TAG_STATUS then Inr (Status, cur)
     else if tag = TAG_DISCONNECT then
       and_then (get_string MAX_ALIAS_BYTES cur) (\<lambda>(a, cur). Inr (Disconnect a, cur))
     else if tag = TAG_EXEC then
       and_then (get_string MAX_ALIAS_BYTES cur) (\<lambda>(a, cur).
       and_then (get_auth cur) (\<lambda>(auth, cur).
       and_then (get_string MAX_COMMAND_BYTES cur) (\<lambda>(cmd, cur).
       and_then (get_optional_string MAX_ALIAS_BYTES cur) (\<lambda>(as_user, cur).
         Inr (Exec a auth cmd as_user, cur)))))
     else if tag = TAG_SHELL then
       and_then (get_string MAX_ALIAS_BYTES cur) (\<lambda>(a, cur).
       and_then (get_auth cur) (\<lambda>(auth, cur).
       and_then (get_string 256 cur) (\<lambda>(trm, cur).
       and_then (get_u32 cur) (\<lambda>(columns, cur).
       and_then (get_u32 cur) (\<lambda>(rows, cur).
       and_then (get_optional_string MAX_ALIAS_BYTES cur) (\<lambda>(as_user, cur).
         Inr (Shell a auth trm columns rows as_user, cur)))))))
     else if tag = TAG_INPUT then
       and_then (get_bytes OUTPUT_CHUNK_BYTES cur) (\<lambda>(bs, cur). Inr (Input bs, cur))
     else if tag = TAG_RESIZE then
       and_then (get_u32 cur) (\<lambda>(columns, cur).
       and_then (get_u32 cur) (\<lambda>(rows, cur). Inr (Resize columns rows, cur)))
     else if tag = TAG_EOF then Inr (Eof, cur)
     else if tag = TAG_SHUTDOWN then Inr (Shutdown, cur)
     else if tag = TAG_JUMP_AUTH_RESPONSE then
       and_then (get_auth cur) (\<lambda>(auth, cur). Inr (JumpAuthResponse auth, cur))
     else Inl (UnknownClientTag tag))"

definition decode_client :: "bytes \<Rightarrow> proto_error + ClientFrame" where
  "decode_client payload = and_then (read_client (cursor_new payload)) (\<lambda>(frame, cur).
     and_then (finish cur) (\<lambda>_. Inr frame))"

definition read_server :: "ServerFrame reader" where
  "read_server cur = and_then (get_u8 cur) (\<lambda>(tag, cur).
     if tag = TAG_OK then Inr (Ok, cur)
     else if tag = TAG_ERROR then
       and_then (get_string MAX_COMMAND_BYTES cur) (\<lambda>(s, cur). Inr (Error s, cur))
     else if tag = TAG_AUTH_REQUIRED then Inr (AuthRequired, cur)
     else if tag = TAG_STDOUT then
       and_then (get_bytes OUTPUT_CHUNK_BYTES cur) (\<lambda>(bs, cur). Inr (Stdout bs, cur))
     else if tag = TAG_STDERR then
       and_then (get_bytes OUTPUT_CHUNK_BYTES cur) (\<lambda>(bs, cur). Inr (Stderr bs, cur))
     else if tag = TAG_EXIT then
       and_then (get_u8 cur) (\<lambda>(present, cur).
         if present = 0 then Inr (Exit None, cur)
         else if present = 1 then
           and_then (get_u32 cur) (\<lambda>(s, cur). Inr (Exit (Some s), cur))
         else Inl (BadExitFlag present))
     else if tag = TAG_STATUS_RESPONSE then
       and_then (get_u64 cur) (\<lambda>(total_n, cur).
       and_then (get_u64 cur) (\<lambda>(in_use, cur).
       and_then (get_u64 cur) (\<lambda>(leases, cur).
       and_then (get_u64 cur) (\<lambda>(max_conn, cur).
       and_then (get_u64 cur) (\<lambda>(available, cur).
         Inr (StatusResponse total_n in_use leases max_conn available, cur))))))
     else if tag = TAG_CACHE then
       and_then (get_bool cur) (\<lambda>(reused, cur). Inr (Cache reused, cur))
     else if tag = TAG_JUMP_AUTH_CHALLENGE then
       and_then (get_usize_u32 cur) (\<lambda>(index, cur).
       and_then (get_usize_u32 cur) (\<lambda>(total_n, cur).
       and_then (get_usize_u32 cur) (\<lambda>(attempt, cur).
       and_then (get_string MAX_ALIAS_BYTES cur) (\<lambda>(a, cur).
       and_then (get_string 4096 cur) (\<lambda>(host, cur).
       and_then (get_u16 cur) (\<lambda>(port, cur).
       and_then (get_bool cur) (\<lambda>(previous_failed, cur).
         Inr (JumpAuthChallenge index total_n attempt a host port previous_failed, cur))))))))
     else Inl (UnknownServerTag tag))"

definition decode_server :: "bytes \<Rightarrow> proto_error + ServerFrame" where
  "decode_server payload = and_then (read_server (cursor_new payload)) (\<lambda>(frame, cur).
     and_then (finish cur) (\<lambda>_. Inr frame))"

subsection \<open>Frames on a stream\<close>

text \<open>\<open>read_exact\<close>: the bytes and what is left, or the end of the stream.\<close>

definition read_exact :: "nat \<Rightarrow> bytes \<Rightarrow> (bytes \<times> bytes) option" where
  "read_exact n stream = (if n \<le> length stream then Some (take n stream, drop n stream) else None)"

definition read_payload :: "bytes \<Rightarrow> proto_error + (bytes option \<times> bytes)" where
  "read_payload stream = (case read_exact 1 stream of
       None \<Rightarrow> Inr (None, stream)
     | Some (first, stream) \<Rightarrow>
         and_then (ok_or LengthTruncated (read_exact 3 stream)) (\<lambda>(rest, stream).
         let n = from_be (first @ rest) in
         if n = 0 \<or> MAX_FRAME_BYTES < n then Inl (LengthOutOfRange n)
         else and_then (ok_or PayloadTruncated (read_exact n stream)) (\<lambda>(payload, stream).
           Inr (Some payload, stream))))"

definition write_payload :: "bytes \<Rightarrow> proto_error + bytes" where
  "write_payload payload =
     (if payload = [] \<or> MAX_FRAME_BYTES < length payload then Inl (PayloadSize (length payload))
      else Inr (put_u32 (of_nat (length payload)) @ payload))"

definition write_client_frame :: "ClientFrame \<Rightarrow> proto_error + bytes" where
  "write_client_frame frame = and_then (encode_client frame) write_payload"

definition read_client_frame :: "bytes \<Rightarrow> proto_error + (ClientFrame option \<times> bytes)" where
  "read_client_frame stream = and_then (read_payload stream) (\<lambda>(payload, stream). case payload of
       None \<Rightarrow> Inr (None, stream)
     | Some p \<Rightarrow> and_then (decode_client p) (\<lambda>frame. Inr (Some frame, stream)))"

definition write_server_frame :: "ServerFrame \<Rightarrow> proto_error + bytes" where
  "write_server_frame frame = and_then (encode_server frame) write_payload"

definition read_server_frame :: "bytes \<Rightarrow> proto_error + (ServerFrame option \<times> bytes)" where
  "read_server_frame stream = and_then (read_payload stream) (\<lambda>(payload, stream). case payload of
       None \<Rightarrow> Inr (None, stream)
     | Some p \<Rightarrow> and_then (decode_server p) (\<lambda>frame. Inr (Some frame, stream)))"


subsection \<open>Fields as codecs\<close>

text \<open>
  \<open>decodes cur r cur'\<close>: the bytes of the write \<open>r\<close> stand at the position of \<open>cur\<close>, and \<open>cur'\<close> is
  \<open>cur\<close> moved past them. The locale \<open>wire_field\<close> is the contract of a field: the reader succeeds
  with a value exactly when the bytes it moves past are the ones the writer appends for that
  value. It covers both directions, that what was written is read back and that no other bytes
  are read as the same value.
\<close>

definition consumes :: "Cursor \<Rightarrow> bytes \<Rightarrow> Cursor \<Rightarrow> bool" where
  "consumes cur bs cur' \<longleftrightarrow>
     c_bytes cur' = c_bytes cur \<and> c_offset cur' = c_offset cur + length bs \<and>
     c_offset cur' \<le> length (c_bytes cur) \<and> c_offset cur' < 2 ^ 64 \<and>
     take (length bs) (drop (c_offset cur) (c_bytes cur)) = bs"

definition decodes :: "Cursor \<Rightarrow> proto_error + bytes \<Rightarrow> Cursor \<Rightarrow> bool" where
  "decodes cur r cur' \<longleftrightarrow> (\<exists>bs. r = Inr bs \<and> consumes cur bs cur')"

locale wire_field =
  fixes put :: "'a \<Rightarrow> proto_error + bytes" and get :: "'a reader" and valid :: "'a \<Rightarrow> bool"
  assumes get_iff: "get cur = Inr (x, cur') \<longleftrightarrow> valid x \<and> decodes cur (put x) cur'"
begin

lemma then_iff:
  "and_then (get cur) k = Inr r \<longleftrightarrow>
     (\<exists>x cur'. valid x \<and> decodes cur (put x) cur' \<and> k (x, cur') = Inr r)"
  by (auto simp: and_then_eq_Inr get_iff)

text \<open>A whole payload: the value read is the one written, and the bytes are its only form.\<close>

lemma payload_iff:
  assumes "length payload < 2 ^ 64"
  shows "and_then (get (cursor_new payload)) (\<lambda>(x, cur). and_then (finish cur) (\<lambda>_. Inr x)) = Inr y
    \<longleftrightarrow> valid y \<and> put y = Inr payload"
  using assms
  by (auto simp: get_iff decodes_def consumes_def cursor_new_def finish_def and_then_eq_Inr
      split: if_splits intro!: exI [of _ "\<lparr>c_bytes = payload, c_offset = length payload\<rparr>"])

end

lemma Cursor_eqI: "c_bytes (a :: Cursor) = c_bytes b \<Longrightarrow> c_offset a = c_offset b \<Longrightarrow> a = b"
  by simp

lemma consumes_append:
  "consumes cur (a @ b) cur'' \<longleftrightarrow> (\<exists>cur'. consumes cur a cur' \<and> consumes cur' b cur'')"
proof
  assume h: "consumes cur (a @ b) cur''"
  let ?c = "cur\<lparr>c_offset := c_offset cur + length a\<rparr>"
  have "take (length a + length b) (drop (c_offset cur) (c_bytes cur)) = a @ b"
    using h by (simp add: consumes_def)
  moreover have "length (take (length a) (drop (c_offset cur) (c_bytes cur))) = length a"
    using h by (auto simp: consumes_def)
  ultimately have "take (length a) (drop (c_offset cur) (c_bytes cur)) = a"
    "take (length b) (drop (c_offset cur + length a) (c_bytes cur)) = b"
    by (auto simp: take_add add.commute simp del: length_take)
  with h have "consumes cur a ?c \<and> consumes ?c b cur''"
    by (auto simp: consumes_def)
  then show "\<exists>cur'. consumes cur a cur' \<and> consumes cur' b cur''" by blast
next
  assume "\<exists>cur'. consumes cur a cur' \<and> consumes cur' b cur''"
  then show "consumes cur (a @ b) cur''"
    by (auto simp: consumes_def take_add add.commute)
qed

lemma decodes_append:
  "decodes cur (Inr (a @ b)) cur'' \<longleftrightarrow>
     (\<exists>cur'. decodes cur (Inr a) cur' \<and> decodes cur' (Inr b) cur'')"
  by (simp add: decodes_def consumes_append)

lemma decodes_Cons:
  "b \<noteq> [] \<Longrightarrow> decodes cur (Inr (a # b)) cur'' \<longleftrightarrow>
     (\<exists>cur'. decodes cur (Inr [a]) cur' \<and> decodes cur' (Inr b) cur'')"
  using decodes_append [of cur "[a]" b cur''] by simp

lemma decodes_map_ok:
  "decodes cur (map_ok (Cons a) r) cur'' \<longleftrightarrow>
     (\<exists>cur'. decodes cur (Inr [a]) cur' \<and> decodes cur' r cur'')"
  using consumes_append [of cur "[a]" _ cur''] by (auto simp: decodes_def map_ok_eq_Inr)

lemma put_all_single [simp]: "put_all [f] = f"
  by (cases f) simp_all

lemma decodes_put_all:
  "decodes cur (put_all (f # g # fs)) cur'' \<longleftrightarrow>
     (\<exists>cur'. decodes cur f cur' \<and> decodes cur' (put_all (g # fs)) cur'')"
  unfolding put_all.simps(2) [of f]
  by (cases f; cases "put_all (g # fs)") (simp_all add: decodes_def consumes_append del: put_all.simps)

lemmas decodes_simps = decodes_put_all decodes_map_ok

subsection \<open>Every field of the protocol is one\<close>

lemma cursor_take_iff:
  "cursor_take n cur = Inr (bs, cur') \<longleftrightarrow> length bs = n \<and> consumes cur bs cur'"
  by (auto simp: cursor_take_def consumes_def Let_def split: if_splits)

interpretation byte: wire_field "\<lambda>v. Inr [v]" get_u8 "\<lambda>_. True"
proof
  fix cur x cur'
  show "get_u8 cur = Inr (x, cur') \<longleftrightarrow> True \<and> decodes cur (Inr [x]) cur'"
    by (auto simp: get_u8_def decodes_def consumes_def take_Suc_conv_app_nth
        take_eq_Nil hd_drop_conv_nth [symmetric] take_Suc split: if_splits intro!: Cursor_eqI)
qed


lemma fixed_width_iff:
  assumes "0 < k" and "\<And>v. enc v = be_bytes k (unat (v :: 'a::len word))" and "(256 :: nat) ^ k = 2 ^ LENGTH('a)"
  shows "and_then (cursor_take k cur) (\<lambda>(bs, cur). Inr (of_nat (from_be bs), cur)) = Inr (x, cur') \<longleftrightarrow>
    decodes cur (Inr (enc x)) cur'"
proof -
  have enc: "length bs = k \<Longrightarrow> enc (of_nat (from_be bs)) = bs" for bs
    using from_be_less [of bs] assms(3) be_bytes_from_be [of bs] by (auto simp: assms(2) unat_of_nat)
  have dec: "of_nat (from_be (enc v)) = v" for v
    using from_be_bytes [of "unat v" k] unsigned_less [of v, where 'a = nat] assms(3)
    by (simp add: assms(2))
  have "and_then (cursor_take k cur) (\<lambda>(bs, cur). Inr (of_nat (from_be bs), cur)) = Inr (x, cur') \<longleftrightarrow>
      (\<exists>bs. length bs = k \<and> consumes cur bs cur' \<and> of_nat (from_be bs) = x)"
    by (auto simp: and_then_eq_Inr cursor_take_iff)
  also have "\<dots> \<longleftrightarrow> consumes cur (enc x) cur'"
    using enc dec by (metis assms(2) length_be_bytes)
  finally show ?thesis by (simp add: decodes_def)
qed

interpretation f_u16: wire_field "\<lambda>v. Inr (put_u16 v)" get_u16 "\<lambda>_. True"
  using fixed_width_iff [of 2 put_u16] by unfold_locales (simp add: get_u16_def put_u16_def)

interpretation f_u32: wire_field "\<lambda>v. Inr (put_u32 v)" get_u32 "\<lambda>_. True"
  using fixed_width_iff [of 4 put_u32] by unfold_locales (simp add: get_u32_def put_u32_def)

interpretation f_u64: wire_field "\<lambda>v. Inr (put_u64 v)" get_u64 "\<lambda>_. True"
  using fixed_width_iff [of 8 put_u64] by unfold_locales (simp add: get_u64_def put_u64_def)

interpretation f_bool: wire_field "\<lambda>b. Inr (put_bool b)" get_bool "\<lambda>_. True"
proof
  fix cur x cur'
  show "get_bool cur = Inr (x, cur') \<longleftrightarrow> True \<and> decodes cur (Inr (put_bool x)) cur'"
    by (cases x) (auto simp: get_bool_def byte.then_iff put_bool_def split: if_splits
        intro: exI [of _ 0] exI [of _ 1])
qed

lemma usize_u32_unat:
  "unat (usize_from_u32 v) = unat v"
  "unat (x :: u64) < 2 ^ 32 \<Longrightarrow> unat (of_nat (unat x) :: u32) = unat x"
proof -
  have "unat v < 2 ^ 32" using unsigned_less [of v, where 'a = nat] by simp
  then show "unat (usize_from_u32 v) = unat v"
    unfolding usize_from_u32_def by (subst unat_of_nat) simp
  show "unat x < 2 ^ 32 \<Longrightarrow> unat (of_nat (unat x) :: u32) = unat x"
    by (subst unat_of_nat) simp
qed

interpretation f_usize: wire_field put_usize_u32 get_usize_u32 "\<lambda>_. True"
proof
  fix cur and x :: usize and cur'
  have small: "unat (v :: u32) < 2 ^ 32" for v using unsigned_less [of v, where 'a = nat] by simp
  have "x = usize_from_u32 v \<longleftrightarrow> unat x < 2 ^ 32 \<and> v = of_nat (unat x)" for v
    using small [of v] usize_u32_unat by (metis word_unat_eq_iff)
  then show "get_usize_u32 cur = Inr (x, cur') \<longleftrightarrow> True \<and> decodes cur (put_usize_u32 x) cur'"
    by (auto simp: get_usize_u32_def f_u32.then_iff put_usize_u32_def decodes_def
        linorder_not_le eq_commute [of _ x] simp del: of_nat_unat)
qed

lemma if_Inr_iff:
  "(if b then r else r') = Inr y \<longleftrightarrow> (b \<and> r = Inr y) \<or> (\<not> b \<and> r' = Inr y)"
  by auto

interpretation f_bytes: wire_field "put_bytes m" "get_bytes m" "\<lambda>_. True" for m
proof
  fix cur x cur'
  have len: "unat (of_nat (length bs) :: u32) = length bs" if "length bs < 2 ^ 32" for bs :: bytes
    using that by (subst unat_of_nat) simp
  have "get_bytes m cur = Inr (x, cur') \<longleftrightarrow>
      (\<exists>n c. decodes cur (Inr (put_u32 n)) c \<and> unat n \<le> m \<and> length x = unat n \<and> consumes c x cur')"
    by (simp add: get_bytes_def f_u32.then_iff if_Inr_iff cursor_take_iff linorder_not_less)
  also have "\<dots> \<longleftrightarrow> (length x \<le> m \<and> length x < 2 ^ 32 \<and>
      (\<exists>c. decodes cur (Inr (put_u32 (of_nat (length x)))) c \<and> consumes c x cur'))"
    using len [of x] unsigned_less [where 'a = nat and 'b = 32] by auto (metis len)+
  also have "\<dots> \<longleftrightarrow> decodes cur (put_bytes m x) cur'"
    by (auto simp: put_bytes_def decodes_def consumes_append)
  finally show "get_bytes m cur = Inr (x, cur') \<longleftrightarrow> True \<and> decodes cur (put_bytes m x) cur'"
    by simp
qed

interpretation f_string: wire_field "put_string m" "get_string m" is_text for m
  by unfold_locales (auto simp: get_string_def put_string_def and_then_eq_Inr f_bytes.get_iff
      from_utf8_iff)

interpretation f_opt: wire_field "put_optional_string m" "get_optional_string m"
  "\<lambda>opt. pred_option is_text opt" for m
proof
  fix cur x cur'
  show "get_optional_string m cur = Inr (x, cur') \<longleftrightarrow>
      pred_option is_text x \<and> decodes cur (put_optional_string m x) cur'"
    by (cases x) (auto simp: get_optional_string_def byte.then_iff f_string.then_iff if_Inr_iff
        put_optional_string_def decodes_simps)
qed

fun auth_text :: "AuthRequest option \<Rightarrow> bool" where
  "auth_text (Some (AuthPassword s)) = is_text s"
| "auth_text (Some (AuthKeyboardInteractive s)) = is_text s"
| "auth_text (Some (AuthPrivateKey p pass)) = (is_text p \<and> pred_option is_text pass)"
| "auth_text _ = True"

interpretation f_auth: wire_field put_auth get_auth auth_text
proof
  fix cur x cur'
  show "get_auth cur = Inr (x, cur') \<longleftrightarrow> auth_text x \<and> decodes cur (put_auth x) cur'"
    by (cases x rule: put_auth.cases)
      (auto simp: get_auth_def byte.then_iff f_string.then_iff f_opt.then_iff if_Inr_iff
        decodes_simps simp del: put_all.simps)
qed


subsection \<open>Frames\<close>

text \<open>A \<open>String\<close> of the source holds Unicode scalar values only.\<close>

fun client_text :: "ClientFrame \<Rightarrow> bool" where
  "client_text (Disconnect a) = is_text a"
| "client_text (Exec a auth cmd as_user) =
     (is_text a \<and> auth_text auth \<and> is_text cmd \<and> pred_option is_text as_user)"
| "client_text (Shell a auth trm columns rows as_user) =
     (is_text a \<and> auth_text auth \<and> is_text trm \<and> pred_option is_text as_user)"
| "client_text (JumpAuthResponse auth) = auth_text auth"
| "client_text _ = True"

fun server_text :: "ServerFrame \<Rightarrow> bool" where
  "server_text (Error message) = is_text message"
| "server_text (JumpAuthChallenge index total_n attempt a host port failed) =
     (is_text a \<and> is_text host)"
| "server_text _ = True"

lemmas field_iffs =
  byte.then_iff f_u16.then_iff f_u32.then_iff f_u64.then_iff f_bool.then_iff f_usize.then_iff
  f_bytes.then_iff f_string.then_iff f_opt.then_iff f_auth.then_iff

interpretation client: wire_field encode_client read_client client_text
proof
  fix cur x cur'
  show "read_client cur = Inr (x, cur') \<longleftrightarrow> client_text x \<and> decodes cur (encode_client x) cur'"
    by (cases x; simp add: read_client_def field_iffs if_Inr_iff decodes_simps protocol_tags
        del: put_all.simps; blast)
qed

lemma put_u32_not_Nil [simp]: "put_u32 v \<noteq> []"
  by (simp add: put_u32_def flip: length_greater_0_conv)

interpretation server: wire_field encode_server read_server server_text
proof
  fix cur x cur'
  show "read_server cur = Inr (x, cur') \<longleftrightarrow> server_text x \<and> decodes cur (encode_server x) cur'"
    by (cases x; simp add: read_server_def field_iffs if_Inr_iff decodes_simps decodes_Cons
        protocol_tags split: option.splits del: put_all.simps; blast)
qed

lemma decode_client_iff:
  "length payload < 2 ^ 64 \<Longrightarrow>
   decode_client payload = Inr f \<longleftrightarrow> client_text f \<and> encode_client f = Inr payload"
  unfolding decode_client_def by (rule client.payload_iff)

lemma decode_server_iff:
  "length payload < 2 ^ 64 \<Longrightarrow>
   decode_server payload = Inr f \<longleftrightarrow> server_text f \<and> encode_server f = Inr payload"
  unfolding decode_server_def by (rule server.payload_iff)

subsection \<open>Sizes\<close>

lemma put_bytes_length: "put_bytes m bs = Inr out \<Longrightarrow> length out \<le> 4 + m"
  by (auto simp: put_bytes_def put_u32_def split: if_splits)

lemma put_string_length: "put_string m s = Inr out \<Longrightarrow> length out \<le> 4 + m"
  unfolding put_string_def by (rule put_bytes_length)

lemma put_optional_length: "put_optional_string m opt = Inr out \<Longrightarrow> length out \<le> 5 + m"
  by (auto simp: put_optional_string_def map_ok_eq_Inr dest!: put_string_length split: option.splits)

lemma put_auth_length: "put_auth auth = Inr out \<Longrightarrow> length out \<le> 70000"
  by (cases auth rule: put_auth.cases)
    (auto simp: and_then_eq_Inr protocol_limits dest!: put_string_length put_optional_length)

lemma encode_client_size:
  "encode_client f = Inr out \<Longrightarrow> out \<noteq> [] \<and> length out \<le> MAX_FRAME_BYTES"
  by (cases f)
    (auto simp: and_then_eq_Inr protocol_limits put_u32_def
      dest!: put_string_length put_optional_length put_auth_length put_bytes_length)

lemma encode_server_size:
  "encode_server f = Inr out \<Longrightarrow> out \<noteq> [] \<and> length out \<le> MAX_FRAME_BYTES"
  by (cases f)
    (auto simp: and_then_eq_Inr protocol_limits put_u32_def put_u16_def put_u64_def put_bool_def
      put_usize_u32_def dest!: put_string_length put_bytes_length split: option.splits if_splits)

subsection \<open>Streams\<close>

lemma read_payload_write:
  assumes "write_payload payload = Inr out"
  shows "read_payload (out @ stream) = Inr (Some payload, stream)"
proof -
  let ?n = "length payload"
  from assms have n: "payload \<noteq> []" "?n \<le> 1048576"
      "out = put_u32 (of_nat ?n) @ payload"
    by (auto simp: write_payload_def protocol_limits split: if_splits)
  have len: "length (put_u32 (of_nat ?n)) = 4" by (simp add: put_u32_def)
  have "unat (of_nat ?n :: u32) = ?n" using n(2) by (subst unat_of_nat) simp
  then have val: "from_be (put_u32 (of_nat ?n)) = ?n"
    using n(2) by (simp add: put_u32_def from_be_bytes)
  obtain a b where ab: "put_u32 (of_nat ?n) = [a] @ b" "length b = 3"
    using len by (cases "put_u32 (of_nat ?n)") auto
  have "read_exact 1 (out @ stream) = Some ([a], b @ payload @ stream)"
    by (simp add: n(3) ab read_exact_def)
  moreover have "read_exact 3 (b @ payload @ stream) = Some (b, payload @ stream)"
    using ab(2) by (simp add: read_exact_def)
  moreover have "read_exact ?n (payload @ stream) = Some (payload, stream)"
    by (simp add: read_exact_def)
  moreover have "from_be ([a] @ b) = ?n" using val ab by simp
  ultimately show ?thesis using n by (simp add: read_payload_def protocol_limits)
qed


text \<open>Reading a given sequence of frames off a stream, with what is left of the stream.\<close>

fun read_each :: "(bytes \<Rightarrow> proto_error + ('f option \<times> bytes)) \<Rightarrow> 'f list \<Rightarrow> bytes \<Rightarrow> bytes option" where
  "read_each next [] stream = Some stream"
| "read_each next (f # fs) stream = (case next stream of
       Inr (Some g, stream') \<Rightarrow> if g = f then read_each next fs stream' else None
     | _ \<Rightarrow> None)"

lemma put_all_Inr:
  "put_all (r # rs) = Inr out \<longleftrightarrow> (\<exists>a b. r = Inr a \<and> put_all rs = Inr b \<and> out = a @ b)"
  by (auto simp: and_then_eq_Inr)

lemma read_each_written:
  assumes "\<And>f out stream. ok f \<Longrightarrow> write f = Inr out \<Longrightarrow> next (out @ stream) = Inr (Some f, stream)"
  shows "\<forall>f \<in> set fs. ok f \<Longrightarrow> put_all (map write fs) = Inr out \<Longrightarrow>
    read_each next fs (out @ stream) = Some stream"
proof (induction fs arbitrary: out)
  case (Cons f fs)
  then obtain a b where "write f = Inr a" "put_all (map write fs) = Inr b" "out = a @ b"
    by (auto simp: put_all_Inr simp del: put_all.simps)
  moreover from this Cons.prems have "next (a @ b @ stream) = Inr (Some f, b @ stream)"
    using assms by simp
  ultimately show ?case using Cons.IH Cons.prems by simp
qed simp

lemma read_client_written:
  assumes "client_text f" and "write_client_frame f = Inr out"
  shows "read_client_frame (out @ stream) = Inr (Some f, stream)"
proof -
  obtain payload where p: "encode_client f = Inr payload" "write_payload payload = Inr out"
    using assms(2) by (auto simp: write_client_frame_def and_then_eq_Inr)
  have "length payload < 2 ^ 64"
    using encode_client_size [OF p(1)] by (simp add: protocol_limits)
  then have "decode_client payload = Inr f" using assms(1) p(1) by (simp only: decode_client_iff)
  with p(2) show ?thesis by (simp add: read_client_frame_def read_payload_write)
qed

lemma read_server_written:
  assumes "server_text f" and "write_server_frame f = Inr out"
  shows "read_server_frame (out @ stream) = Inr (Some f, stream)"
proof -
  obtain payload where p: "encode_server f = Inr payload" "write_payload payload = Inr out"
    using assms(2) by (auto simp: write_server_frame_def and_then_eq_Inr)
  have "length payload < 2 ^ 64"
    using encode_server_size [OF p(1)] by (simp add: protocol_limits)
  then have "decode_server payload = Inr f" using assms(1) p(1) by (simp only: decode_server_iff)
  with p(2) show ?thesis by (simp add: read_server_frame_def read_payload_write)
qed

lemma read_payload_truncated:
  assumes "write_payload payload = Inr out" and "0 < k" and "k < length out"
  shows "read_payload (take k out) = Inl (if k < 4 then LengthTruncated else PayloadTruncated)"
proof -
  let ?n = "length payload"
  from assms(1) have n: "payload \<noteq> []" "?n \<le> 1048576" "out = put_u32 (of_nat ?n) @ payload"
    by (auto simp: write_payload_def protocol_limits split: if_splits)
  have len: "length (put_u32 (of_nat ?n)) = 4" by (simp add: put_u32_def)
  have "unat (of_nat ?n :: u32) = ?n" using n(2) by (subst unat_of_nat) simp
  then have val: "from_be (put_u32 (of_nat ?n)) = ?n"
    using n(2) by (simp add: put_u32_def from_be_bytes)
  have first: "read_exact 1 (take k out) = Some (take 1 (take k out), drop 1 (take k out))"
    using assms(2,3) by (simp add: read_exact_def)
  show ?thesis
  proof (cases "k < 4")
    case True
    then have "read_exact 3 (drop 1 (take k out)) = None" using assms(3) by (simp add: read_exact_def)
    with first True show ?thesis by (simp add: read_payload_def)
  next
    case False
    then obtain j where k: "k = 4 + j" by (metis add.commute le_Suc_ex not_less)
    have t: "take k out = put_u32 (of_nat ?n) @ take j payload" using len n(3) k by simp
    have j: "j < ?n" using assms(3) n(3) len k by simp
    have "take 1 (take k out) @ take 3 (drop 1 (take k out)) = put_u32 (of_nat ?n)"
      unfolding t using len by (simp add: take_add [symmetric] flip: take_add)
    moreover have "read_exact 3 (drop 1 (take k out)) =
        Some (take 3 (drop 1 (take k out)), take j payload)"
      unfolding t using len by (simp add: read_exact_def)
    moreover have "read_exact ?n (take j payload) = None" using j by (simp add: read_exact_def)
    ultimately show ?thesis
      using first n val False by (simp add: read_payload_def protocol_limits)
  qed
qed


subsection \<open>Properties of the protocol\<close>

text \<open>
  C12. Client frames have one form on the wire. \<open>decode_client\<close> accepts a payload exactly when it is
  the encoding of the frame it returns: whatever \<open>encode_client\<close> produces is read back unchanged
  (aliases, secrets, commands, terminal sizes), and truncated fields, unknown tags and flags,
  overlong or ill-formed UTF-8, fields above their limit and trailing bytes are all rejected.
\<close>

theorem client_frame_exact:
  assumes "length payload < 2 ^ 64"
  shows "decode_client payload = Inr f \<longleftrightarrow> client_text f \<and> encode_client f = Inr payload"
  by (rule decode_client_iff [OF assms])

theorem client_frame_exact_witness:
  "decode_client [TAG_RESIZE, 0, 0, 0, 80, 0, 0, 0, 24] = Inr (Resize 80 24)"
proof -
  have "encode_client (Resize 80 24) = Inr [TAG_RESIZE, 0, 0, 0, 80, 0, 0, 0, 24]" by code_simp
  then show ?thesis using client_frame_exact [of "[TAG_RESIZE, 0, 0, 0, 80, 0, 0, 0, 24]"] by simp
qed

text \<open>
  C13. The same for the daemon's answers: output chunks, exit status, pool statistics, cache notice
  and the challenge for a jump host are decoded exactly from their encoding.
\<close>

theorem server_frame_exact:
  assumes "length payload < 2 ^ 64"
  shows "decode_server payload = Inr f \<longleftrightarrow> server_text f \<and> encode_server f = Inr payload"
  by (rule decode_server_iff [OF assms])

theorem server_frame_exact_witness:
  "decode_server [TAG_EXIT, 1, 0, 0, 0, 255] = Inr (Exit (Some 255))"
proof -
  have "encode_server (Exit (Some 255)) = Inr [TAG_EXIT, 1, 0, 0, 0, 255]" by code_simp
  then show ?thesis using server_frame_exact [of "[TAG_EXIT, 1, 0, 0, 0, 255]"] by simp
qed

text \<open>
  A conversation survives the stream. Client frames written one after the other are read back
  as the same sequence, and what follows them on the stream is left untouched.
\<close>

theorem client_stream_roundtrip:
  assumes "\<forall>f \<in> set fs. client_text f" and "put_all (map write_client_frame fs) = Inr out"
  shows "read_each read_client_frame fs (out @ stream) = Some stream"
  using read_each_written [of client_text write_client_frame read_client_frame]
    read_client_written assms by blast

definition sample_client_frames :: "ClientFrame list" where
  "sample_client_frames =
     [Exec (lit ''prod'') (Some (AuthPassword (lit ''secret''))) (lit ''uname -a'') (Some (lit ''root'')),
      Input [104, 105], Resize 80 24, Eof]"

theorem client_stream_roundtrip_witness:
  "\<exists>out. put_all (map write_client_frame sample_client_frames) = Inr out \<and>
     read_each read_client_frame sample_client_frames (out @ [7]) = Some [7]"
proof -
  have "is_ok (put_all (map write_client_frame sample_client_frames))" by code_simp
  moreover have "\<forall>f \<in> set sample_client_frames. client_text f" by code_simp
  ultimately show ?thesis using client_stream_roundtrip unfolding is_ok_iff by blast
qed

text \<open>
  The same for the frames of the daemon.
\<close>

theorem server_stream_roundtrip:
  assumes "\<forall>f \<in> set fs. server_text f" and "put_all (map write_server_frame fs) = Inr out"
  shows "read_each read_server_frame fs (out @ stream) = Some stream"
  using read_each_written [of server_text write_server_frame read_server_frame]
    read_server_written assms by blast

definition sample_server_frames :: "ServerFrame list" where
  "sample_server_frames =
     [Cache True, JumpAuthChallenge 0 2 1 (lit ''bastion'') (lit ''10.0.0.1'') 22 False,
      Stdout [104, 105, 10], Exit (Some 0)]"

theorem server_stream_roundtrip_witness:
  "\<exists>out. put_all (map write_server_frame sample_server_frames) = Inr out \<and>
     read_each read_server_frame sample_server_frames (out @ []) = Some []"
proof -
  have "is_ok (put_all (map write_server_frame sample_server_frames))" by code_simp
  moreover have "\<forall>f \<in> set sample_server_frames. server_text f" by code_simp
  ultimately show ?thesis using server_stream_roundtrip unfolding is_ok_iff by blast
qed

text \<open>
  The frame limit never bites: a frame whose fields are within their own limits always fits the
  1 MiB limit of the framing, so writing it fails only when encoding it fails, with the same error.
\<close>

theorem frame_limit_never_bites:
  "write_client_frame f = Inl e \<longleftrightarrow> encode_client f = Inl e"
proof (cases "encode_client f")
  case (Inr payload)
  with encode_client_size [OF Inr] show ?thesis
    by (simp add: write_client_frame_def write_payload_def)
qed (simp add: write_client_frame_def)

text \<open>
  A connection that is cut in the middle of a frame is an error, not a silent end: every
  non-empty proper prefix of a frame is reported as a truncated length or payload, while a stream
  that ends between frames is the orderly end.
\<close>

theorem truncated_frame_is_error:
  assumes "write_client_frame f = Inr out" and "k < length out"
  shows "read_client_frame (take k out) =
    (if k = 0 then Inr (None, []) else if k < 4 then Inl LengthTruncated else Inl PayloadTruncated)"
proof -
  obtain payload where p: "write_payload payload = Inr out"
    using assms(1) by (auto simp: write_client_frame_def and_then_eq_Inr)
  show ?thesis
    using read_payload_truncated [OF p _ assms(2)]
    by (cases "k = 0") (simp_all add: read_client_frame_def read_payload_def read_exact_def)
qed

theorem truncated_frame_is_error_witness:
  "read_client_frame (take 6 [0, 0, 0, 9, TAG_RESIZE, 0, 0, 0, 80, 0, 0, 0, 24]) = Inl PayloadTruncated"
proof -
  have "write_client_frame (Resize 80 24) = Inr [0, 0, 0, 9, TAG_RESIZE, 0, 0, 0, 80, 0, 0, 0, 24]"
    by code_simp
  from truncated_frame_is_error [OF this, of 6] show ?thesis by simp
qed

end
