(* ===== verification/Command_Classify.thy ===== *)
theory Command_Classify
  imports Rust_Text
begin

section \<open>Risk classification of shell commands\<close>

text \<open>
  Model of \<open>command_classify.rs\<close> of the desktop backend: a command proposed by the assistant is cut
  into segments by a small quote-aware shell lexer, each segment gets a risk level from its first
  word and its arguments, the command gets the highest level of its segments, and the permission
  mode decides from the level whether the user must approve.

  The lexer of the source walks over UTF-8 bytes with indices \<open>start\<close> and \<open>i\<close>. Every byte it
  compares with is ASCII and a byte below 128 never occurs inside a multi-byte character, so the
  model walks over code points: \<open>cur\<close> is \<open>command[start..i]\<close>. (An escape skips one byte; the other
  bytes of an escaped multi-byte character are then ordinary bytes and leave a tail other than
  \<open>2\<close>, as the skipped character does here.) \<open>U\<close> is the table of \<open>char::is_alphabetic\<close> above ASCII.
\<close>

datatype RiskLevel = ReadOnly | Modify | Delete | Dangerous

fun risk_as_str :: "RiskLevel \<Rightarrow> rstring" where
  "risk_as_str ReadOnly = lit ''readOnly''"
| "risk_as_str Modify = lit ''modify''"
| "risk_as_str Delete = lit ''delete''"
| "risk_as_str Dangerous = lit ''dangerous''"

text \<open>The derived order: the order of the constructors.\<close>

fun risk_rank :: "RiskLevel \<Rightarrow> nat" where
  "risk_rank ReadOnly = 0"
| "risk_rank Modify = 1"
| "risk_rank Delete = 2"
| "risk_rank Dangerous = 3"

lemma risk_rank_inject [simp]: "risk_rank a = risk_rank b \<longleftrightarrow> a = b"
  by (cases a; cases b) auto

instantiation RiskLevel :: linorder
begin

definition less_eq_RiskLevel :: "RiskLevel \<Rightarrow> RiskLevel \<Rightarrow> bool" where
  "a \<le> b \<longleftrightarrow> risk_rank a \<le> risk_rank b"

definition less_RiskLevel :: "RiskLevel \<Rightarrow> RiskLevel \<Rightarrow> bool" where
  "a < b \<longleftrightarrow> risk_rank a < risk_rank b"

instance
  by standard (auto simp: less_eq_RiskLevel_def less_RiskLevel_def)

end

subsection \<open>Command tables\<close>

definition READONLY_CMDS :: "rstring list" where
  "READONLY_CMDS = map lit [
    ''ls'', ''ll'', ''pwd'', ''cat'', ''less'', ''more'', ''head'', ''tail'', ''df'', ''du'',
    ''free'', ''ps'', ''top'', ''htop'', ''uptime'', ''uname'', ''whoami'', ''id'', ''w'',
    ''who'', ''last'', ''ip'', ''ifconfig'', ''ss'', ''netstat'', ''ping'', ''traceroute'',
    ''tracepath'', ''dig'', ''nslookup'', ''host'', ''curl'', ''wget'', ''grep'', ''egrep'',
    ''fgrep'', ''find'', ''locate'', ''which'', ''whereis'', ''type'', ''env'', ''printenv'',
    ''echo'', ''printf'', ''date'', ''cal'', ''history'', ''lscpu'', ''lsblk'', ''lsusb'',
    ''lspci'', ''lsmod'', ''vmstat'', ''iostat'', ''mpstat'', ''sar'', ''dmesg'', ''journalctl'',
    ''stat'', ''file'', ''wc'', ''sort'', ''uniq'', ''diff'', ''comm'', ''awk'', ''cut'', ''tr'',
    ''man'', ''info'', ''help'', ''alias'', ''jobs'', ''mount'', ''lsmount'', ''blkid'',
    ''fdisk'', ''smartctl'', ''ethtool'', ''hostname'', ''hostnamectl'', ''timedatectl'',
    ''localectl'', ''getent'', ''groups'', ''crontab'', ''atq'', ''lpq'', ''sensors'',
    ''nvidia-smi'', ''systemctl'', ''service'', ''chkconfig'', ''arp'', ''route'', ''mtr'',
    ''tcpdump'', ''iftop'', ''nload'', ''lsof'', ''fuser'', ''pgrep'', ''pidof'', ''pstree'',
    ''tree'', ''sha256sum'', ''md5sum'', ''sha1sum'', ''cksum'', ''base64'', ''od'', ''hexdump'',
    ''strings'', ''zcat'', ''zgrep'', ''bzcat'', ''xzcat'', ''tar'', ''zipinfo'', ''unzip'',
    ''rpm'', ''dpkg'', ''apt-cache'', ''yum'', ''dnf'', ''snap'', ''flatpak'', ''pip'', ''pip3'',
    ''npm'', ''screen'', ''tmux'', ''exit'', ''logout'', ''true'', ''test'', ''['', ''cd'',
    ''clear'']"

definition DELETE_CMDS :: "rstring list" where
  "DELETE_CMDS = map lit [
    ''rm'', ''rmdir'', ''shred'', ''wipe'', ''unlink'', ''userdel'', ''groupdel'', ''deluser'',
    ''delgroup'', ''shutdown'', ''poweroff'', ''halt'', ''reboot'', ''init'', ''telinit'',
    ''kill'', ''killall'', ''pkill'', ''skill'', ''swapoff'']"

definition DANGEROUS_PATTERNS :: "rstring list" where
  "DANGEROUS_PATTERNS = map lit [
    '':(){ :|:& };:'', '':(){:|:&};:'', ''mkfs'', ''mkswap'', ''> /dev/sd'', ''> /dev/nvme'',
    ''> /dev/hd'', ''of=/dev/sd'', ''of=/dev/nvme'', ''of=/dev/hd'', ''dd of=/dev/'']"

definition MODIFY_CMDS :: "rstring list" where
  "MODIFY_CMDS = map lit [
    ''mkdir'', ''touch'', ''cp'', ''mv'', ''ln'', ''install'', ''chmod'', ''chown'', ''chgrp'',
    ''chattr'', ''setfacl'', ''apt'', ''apt-get'', ''apt-mark'', ''dpkg-reconfigure'', ''yum'',
    ''dnf'', ''zypper'', ''pacman'', ''snap'', ''flatpak'', ''pip'', ''pip3'', ''npm'', ''yarn'',
    ''pnpm'', ''gem'', ''cargo'', ''systemctl'', ''service'', ''chkconfig'', ''update-rc.d'',
    ''useradd'', ''adduser'', ''usermod'', ''groupadd'', ''addgroup'', ''groupmod'', ''passwd'',
    ''chpasswd'', ''visudo'', ''crontab'', ''at'', ''mount'', ''umount'', ''swapon'', ''mkfs'',
    ''fdisk'', ''parted'', ''sgdisk'', ''lvcreate'', ''lvremove'', ''vgcreate'', ''pvcreate'',
    ''sed'', ''patch'', ''git'', ''helm'', ''compose'', ''ssh'', ''scp'', ''sftp'', ''rsync'',
    ''vim'', ''vi'', ''nano'', ''emacs'', ''ed'', ''ex'', ''tee'', ''rename'',
    ''update-alternatives'', ''alternatives'', ''locale-gen'', ''timedatectl'', ''hostnamectl'',
    ''localectl'', ''firewall-cmd'', ''ufw'', ''iptables'', ''ip6tables'', ''nft'', ''tc'',
    ''ip'', ''route'', ''ifconfig'', ''ifup'', ''ifdown'', ''netplan'', ''nmcli'', ''ethtool'',
    ''sysctl'', ''modprobe'', ''insmod'', ''rmmod'', ''depmod'', ''grub-install'',
    ''update-grub'', ''dpkg'', ''rpm'', ''make'', ''cmake'', ''ninja'', ''meson'', ''gcc'',
    ''g++'', ''cc'', ''ld'', ''strip'', ''objcopy'', ''tar'', ''zip'', ''unzip'', ''gzip'',
    ''gunzip'', ''bzip2'', ''bunzip2'', ''xz'', ''unxz'', ''7z'', ''rar'', ''unrar'',
    ''truncate'', ''fallocate'', ''split'', ''csplit'', ''dd'', ''badblocks'', ''fsck'',
    ''e2fsck'', ''xfs_repair'', ''tune2fs'', ''resize2fs'', ''mountpoint'', ''losetup'',
    ''kpartx'', ''dmsetup'', ''cryptsetup'', ''lvm'', ''mdadm'', ''zfs'', ''zpool'', ''btrfs'',
    ''xfs_admin'']"

definition UPLOAD_FLAGS :: "rstring list" where
  "UPLOAD_FLAGS = map lit [
    ''-F'', ''--form'', ''-d'', ''--data'', ''--data-binary'', ''--data-raw'',
    ''--data-urlencode'', ''-T'', ''--upload-file'', ''--post301'', ''--post302'', ''--post303'',
    ''--body-file'', ''--post-data'', ''--post-file'']"

definition WINDOWS_READONLY_CMDS :: "rstring list" where
  "WINDOWS_READONLY_CMDS = map lit [
    ''ver'', ''systeminfo'', ''tasklist'', ''netstat'', ''findstr'', ''find'', ''ipconfig'',
    ''whoami'', ''hostname'', ''dir'', ''type'', ''echo'', ''chcp'', ''date'', ''time'', ''set'',
    ''ping'', ''tracert'', ''pathping'', ''nslookup'', ''arp'', ''getmac'', ''driverquery'',
    ''qprocess'', ''tree'', ''where'', ''more'', ''sort'', ''cls'', ''help'']"

definition WINDOWS_DELETE_CMDS :: "rstring list" where
  "WINDOWS_DELETE_CMDS = map lit [
    ''del'', ''erase'', ''rd'', ''rmdir'', ''taskkill'', ''shutdown'']"

definition WINDOWS_DANGEROUS_PATTERNS :: "rstring list" where
  "WINDOWS_DANGEROUS_PATTERNS = map lit [
    ''format c:'', ''format d:'']"

definition POWERSHELL_WRITE_VERBS :: "rstring list" where
  "POWERSHELL_WRITE_VERBS = map lit [
    ''set-'', ''new-'', ''remove-'', ''stop-'', ''start-'', ''restart-'', ''clear-'',
    ''rename-'', ''copy-'', ''move-'', ''out-file'', ''add-content'', ''set-content'',
    ''invoke-'', ''iex'', ''del'', ''rm'', ''rmdir'', ''format-'']"

subsection \<open>Words of a segment\<close>

definition is_alphabetic :: "(uchar \<Rightarrow> bool) \<Rightarrow> uchar \<Rightarrow> bool" where
  "is_alphabetic U c \<longleftrightarrow> is_ascii_alphabetic c \<or> (127 < c \<and> U c)"

text \<open>\<open>rsplit(p).next()\<close>: the text after the last separator.\<close>

definition rsplit_last :: "(uchar \<Rightarrow> bool) \<Rightarrow> rstring \<Rightarrow> rstring" where
  "rsplit_last p s = rev (takeWhile (\<lambda>c. \<not> p c) (rev s))"

text \<open>\<open>trim_end_matches\<close> and \<open>trim_start_matches\<close> with a text pattern remove every repetition.\<close>

function trim_end_str :: "rstring \<Rightarrow> rstring \<Rightarrow> rstring" where
  "trim_end_str p s =
     (if p \<noteq> [] \<and> ends_with p s then trim_end_str p (take (length s - length p) s) else s)"
  by pat_completeness auto
termination
  by (relation "measure (\<lambda>(p, s). length s)") (auto simp: ends_with_iff)

function trim_start_str :: "rstring \<Rightarrow> rstring \<Rightarrow> rstring" where
  "trim_start_str p s =
     (if p \<noteq> [] \<and> starts_with p s then trim_start_str p (drop (length p) s) else s)"
  by pat_completeness auto
termination
  by (relation "measure (\<lambda>(p, s). length s)") (auto simp: starts_with_iff)

declare trim_end_str.simps [simp del] trim_start_str.simps [simp del]

definition is_assignment :: "(uchar \<Rightarrow> bool) \<Rightarrow> rstring \<Rightarrow> bool" where
  "is_assignment U word \<longleftrightarrow>
     61 \<in> set word \<and> \<not> starts_with [61] word \<and>
     (case word of [] \<Rightarrow> False | c # _ \<Rightarrow> is_alphabetic U c \<or> c = 95)"

definition PREFIX_WORDS :: "rstring list" where
  "PREFIX_WORDS = map lit [
    ''sudo'', ''doas'', ''nice'', ''ionice'', ''nohup'', ''timeout'', ''env'', ''command'',
    ''builtin'', ''exec'', ''time'', ''stdbuf'', ''chrt'', ''taskset'', ''runuser'']"

definition is_prefix :: "rstring \<Rightarrow> bool" where
  "is_prefix word \<longleftrightarrow> to_ascii_lowercase word \<in> set PREFIX_WORDS"

fun skip_prefix_words :: "(uchar \<Rightarrow> bool) \<Rightarrow> rstring list \<Rightarrow> rstring list" where
  "skip_prefix_words U [] = []"
| "skip_prefix_words U (word # ws) =
     (if is_assignment U word \<or> is_prefix word then skip_prefix_words U ws else word # ws)"

definition RM_NEUTRAL_FLAGS :: "rstring list" where
  "RM_NEUTRAL_FLAGS = map lit [
    ''--no-preserve-root'', ''--preserve-root'', ''-d'', ''--dir'', ''-v'', ''--verbose'',
    ''-i'', ''-I'', ''--interactive'']"

definition RM_CRITICAL_TARGETS :: "rstring list" where
  "RM_CRITICAL_TARGETS = map lit [
    ''/'', ''/*'', ''//'', ''~'', ''~/'', ''~/*'', ''/.'', ''/..'', ''/home'', ''/home/*'',
    ''/etc'', ''/usr'', ''/usr/*'', ''/var'', ''/boot'', ''/root'', ''/root/*'', ''/bin'',
    ''/sbin'', ''/lib'', ''/lib64'']"

text \<open>The loop over the arguments of \<open>rm\<close>: flags seen so far and the other arguments.\<close>

fun rm_scan :: "bool \<Rightarrow> bool \<Rightarrow> rstring list \<Rightarrow> rstring list \<Rightarrow> bool \<times> bool \<times> rstring list" where
  "rm_scan recursive force targets [] = (recursive, force, targets)"
| "rm_scan recursive force targets (arg # args) =
     (if arg = lit ''--recursive'' then rm_scan True force targets args
      else if arg = lit ''--force'' then rm_scan recursive True targets args
      else if arg \<in> set RM_NEUTRAL_FLAGS then rm_scan recursive force targets args
      else case strip_prefix [45] arg of
        Some flags \<Rightarrow>
          if flags \<noteq> [] \<and> list_all is_ascii_alphabetic flags
          then rm_scan (recursive \<or> 114 \<in> set flags \<or> 82 \<in> set flags)
                       (force \<or> 102 \<in> set flags) targets args
          else rm_scan recursive force (targets @ [arg]) args
      | None \<Rightarrow> rm_scan recursive force (targets @ [arg]) args)"

definition is_dangerous_rm :: "(uchar \<Rightarrow> bool) \<Rightarrow> rstring \<Rightarrow> bool" where
  "is_dangerous_rm U segment =
     (case skip_prefix_words U (split_whitespace segment) of
        [] \<Rightarrow> False
      | cmd # args \<Rightarrow>
          if rsplit_last (\<lambda>c. c = 47) cmd \<noteq> lit ''rm'' then False
          else case rm_scan False False [] args of (recursive, force, targets) \<Rightarrow>
            if \<not> (recursive \<and> force) then False
            else list_ex (\<lambda>arg. arg \<in> set RM_CRITICAL_TARGETS) targets)"

text \<open>The loop of \<open>first_token\<close>; \<open>rest\<close> never starts with white space.\<close>

function first_token_from :: "(uchar \<Rightarrow> bool) \<Rightarrow> rstring \<Rightarrow> rstring" where
  "first_token_from U rest =
     (let token = takeWhile (\<lambda>c. \<not> is_whitespace c) rest;
          tail = dropWhile (\<lambda>c. \<not> is_whitespace c) rest in
      if token = [] then []
      else if is_assignment U token then first_token_from U (trim_start tail)
      else if is_prefix token then first_token_from U (trim_start tail)
      else token)"
  by pat_completeness auto
termination
proof (relation "measure (\<lambda>(U, rest). length rest)"; simp)
  fix rest :: rstring
  assume ne: "takeWhile (\<lambda>c. \<not> is_whitespace c) rest \<noteq> []"
  have "length (trim_start t) \<le> length t" for t
    by (simp add: trim_start_matches_def length_dropWhile_le)
  moreover have "length (dropWhile (\<lambda>c. \<not> is_whitespace c) rest) < length rest"
    using ne by (cases rest) (auto simp: less_Suc_eq_le length_dropWhile_le)
  ultimately show
    "length (trim_start (dropWhile (\<lambda>c. \<not> is_whitespace c) rest)) < length rest"
    "length (trim_start (dropWhile (\<lambda>c. \<not> is_whitespace c) rest)) < length rest"
    by (meson le_less_trans)+
qed

declare first_token_from.simps [simp del]

definition first_token :: "(uchar \<Rightarrow> bool) \<Rightarrow> rstring \<Rightarrow> rstring" where
  "first_token U segment = first_token_from U (trim_start segment)"

subsection \<open>Arguments with side effects\<close>

definition find_has_exec_side_effect :: "rstring list \<Rightarrow> bool" where
  "find_has_exec_side_effect words =
     list_ex (\<lambda>w. w \<in> set (map lit [''-exec'', ''-execdir'', ''-ok'', ''-okdir'', ''-delete'']))
       words"

definition awk_has_side_effect :: "rstring \<Rightarrow> bool" where
  "awk_has_side_effect segment \<longleftrightarrow>
     contains (lit ''system('') segment \<or> contains (lit ''| getline'') segment \<or>
     contains (lit ''getline <'') segment"

definition is_write_method :: "rstring \<Rightarrow> bool" where
  "is_write_method m \<longleftrightarrow>
     to_ascii_uppercase m \<in> set (map lit [''POST'', ''PUT'', ''DELETE'', ''PATCH''])"

fun download_tool_uploads :: "rstring list \<Rightarrow> bool" where
  "download_tool_uploads [] = False"
| "download_tool_uploads (word # rest) =
     (if list_ex (\<lambda>f. word = f \<or> starts_with (f @ [61]) word) UPLOAD_FLAGS then True
      else if (word = lit ''-X'' \<or> word = lit ''--request'') \<and>
              (case rest of [] \<Rightarrow> False | m # _ \<Rightarrow> is_write_method m) then True
      else if starts_with (lit ''--request='') word \<and>
              is_write_method (trim_start_str (lit ''--request='') word) then True
      else download_tool_uploads rest)"

text \<open>\<open>words.get(i).copied().unwrap_or_default()\<close>\<close>

definition word_at :: "nat \<Rightarrow> rstring list \<Rightarrow> rstring" where
  "word_at i ws = (if i < length ws then ws ! i else [])"

subsection \<open>Classification of one segment\<close>

definition has_dangerous_pattern :: "rstring \<Rightarrow> bool" where
  "has_dangerous_pattern s =
     list_ex (\<lambda>pattern. contains pattern (to_ascii_lowercase s)) DANGEROUS_PATTERNS"

definition classify_service :: "rstring \<Rightarrow> RiskLevel" where
  "classify_service segment =
     (if list_ex (\<lambda>sub. list_ex (\<lambda>word. word = sub) (split_whitespace segment))
           (map lit [''status'', ''show'', ''list-units'', ''list-unit-files'', ''list-timers'',
              ''is-active'', ''is-enabled'', ''is-failed'', ''cat'', ''help'', ''--version'',
              ''list-dependencies'', ''list-sockets'', ''list-jobs''])
      then ReadOnly else Modify)"

definition classify_container :: "rstring \<Rightarrow> RiskLevel" where
  "classify_container segment =
     (let words = split_whitespace segment; sub = word_at 1 words; sub2 = word_at 2 words in
      if sub \<in> set (map lit [''ps'', ''images'', ''inspect'', ''logs'', ''stats'', ''version'',
              ''info'', ''top'', ''diff'', ''history'', ''port'', ''search'', ''df'']) \<or>
         (sub \<in> set (map lit [''container'', ''image'']) \<and>
          sub2 \<in> set (map lit [''ls'', ''inspect'', ''logs'', ''stats'', ''top'', ''history'']))
      then ReadOnly
      else if sub \<in> set (map lit [''rm'', ''rmi'', ''kill'']) \<or>
         (sub \<in> set (map lit [''container'', ''image'', ''volume'', ''network'', ''system'']) \<and>
          sub2 \<in> set (map lit [''rm'', ''prune''])) \<or>
         sub = lit ''stop''
      then Delete
      else Modify)"

definition classify_kubectl :: "rstring \<Rightarrow> RiskLevel" where
  "classify_kubectl segment =
     (let sub = word_at 1 (split_whitespace segment) in
      if sub \<in> set (map lit [''get'', ''describe'', ''logs'', ''top'', ''version'',
              ''api-resources'', ''api-versions'', ''cluster-info'', ''config'', ''explain''])
      then ReadOnly
      else if sub = lit ''delete'' then Delete
      else Modify)"

definition classify_segment :: "(uchar \<Rightarrow> bool) \<Rightarrow> rstring \<Rightarrow> bool \<Rightarrow> RiskLevel" where
  "classify_segment U segment has_write_redirect =
     (if has_dangerous_pattern segment then Dangerous
      else if is_dangerous_rm U segment then Dangerous
      else
        let token = to_ascii_lowercase (first_token U segment);
            base = rsplit_last (\<lambda>c. c = 47) token in
        if base \<in> set (map lit [''systemctl'', ''service'']) then classify_service segment
        else if base \<in> set (map lit [''docker'', ''podman'', ''nerdctl''])
        then classify_container segment
        else if base = lit ''kubectl'' then classify_kubectl segment
        else if has_write_redirect \<and> token \<noteq> [] \<and> base \<noteq> [] then Modify
        else
          let words = split_whitespace segment in
          if base = lit ''find'' \<and> find_has_exec_side_effect words then Modify
          else if base = lit ''awk'' \<and> awk_has_side_effect segment then Modify
          else if base \<in> set (map lit [''curl'', ''wget'']) \<and> download_tool_uploads words
          then Modify
          else if base \<in> set DELETE_CMDS then Delete
          else if base \<in> set MODIFY_CMDS then Modify
          else if base \<in> set READONLY_CMDS then ReadOnly
          else Modify)"

subsection \<open>The lexer\<close>

record Segment =
  seg_text :: rstring
  seg_write :: bool

abbreviation Seg :: "rstring \<Rightarrow> bool \<Rightarrow> Segment" where
  "Seg t w \<equiv> \<lparr>seg_text = t, seg_write = w\<rparr>"

text \<open>
  The body of the loop at the byte \<open>b\<close>, \<open>rest\<close> being what follows it. \<open>Keep k sq dq w p\<close> is
  \<open>i += k\<close> with the new values of \<open>in_single\<close>, \<open>in_double\<close>, \<open>has_write\<close> and \<open>prev_word_tail\<close>;
  \<open>Cut k\<close> is \<open>split_here!(k)\<close>. \<open>get_byte n rest\<close> is \<open>bytes.get(i + 1 + n)\<close>.
\<close>

datatype lex_action = Keep nat bool bool bool "uchar option" | Cut nat

definition get_byte :: "nat \<Rightarrow> rstring \<Rightarrow> uchar option" where
  "get_byte n s = (if n < length s then Some (s ! n) else None)"

definition lex_step ::
  "bool \<Rightarrow> bool \<Rightarrow> bool \<Rightarrow> uchar option \<Rightarrow> uchar \<Rightarrow> rstring \<Rightarrow> lex_action" where
  "lex_step in_single in_double has_write prev b rest =
     (let nxt = get_byte 0 rest in
      if in_single then Keep 1 (b \<noteq> 39) in_double has_write prev
      else if in_double then
        if b = 34 then Keep 1 in_single False has_write prev
        else if b = 92 then Keep 2 in_single in_double has_write prev
        else Keep 1 in_single in_double has_write prev
      else if b = 92 then Keep 2 in_single in_double has_write nxt
      else if b = 39 then Keep 1 True in_double has_write prev
      else if b = 34 then Keep 1 in_single True has_write prev
      else if b = 59 \<or> b = 10 \<or> b = 13 then Cut 1
      else if b = 38 then
        if nxt = Some 38 then Cut 2
        else if nxt = Some 62 then Keep 2 in_single in_double True None
        else Cut 1
      else if b = 124 then
        if nxt = Some 124 then Cut 2 else Cut 1
      else if b = 62 then
        let is_stderr_fd = (prev = Some 50) in
        if nxt = Some 38 then
          let fd_copy = (case get_byte 1 rest of None \<Rightarrow> False
                         | Some c \<Rightarrow> is_ascii_digit c \<or> c = 45) in
          Keep 2 in_single in_double (if \<not> fd_copy then True else has_write) None
        else if nxt = Some 62 then
          Keep 2 in_single in_double (if \<not> is_stderr_fd then True else has_write) None
        else Keep 1 in_single in_double (if \<not> is_stderr_fd then True else has_write) None
      else if b = 32 \<or> b = 9 then Keep 1 in_single in_double has_write None
      else Keep 1 in_single in_double has_write (Some b))"

lemma lex_step_advances:
  "lex_step sq dq hw p b rest = Keep k sq' dq' hw' p' \<Longrightarrow> 0 < k"
  "lex_step sq dq hw p b rest = Cut k \<Longrightarrow> 0 < k"
  by (auto simp: lex_step_def Let_def split: if_splits)

text \<open>The loop; after its end a segment that is not empty is pushed.\<close>

function lex_from ::
  "bool \<Rightarrow> bool \<Rightarrow> bool \<Rightarrow> uchar option \<Rightarrow> rstring \<Rightarrow> rstring \<Rightarrow> Segment list" where
  "lex_from in_single in_double has_write prev cur [] =
     (if cur \<noteq> [] then [Seg cur has_write] else [])"
| "lex_from in_single in_double has_write prev cur (b # rest) =
     (case lex_step in_single in_double has_write prev b rest of
        Keep k sq dq w p \<Rightarrow> lex_from sq dq w p (cur @ take k (b # rest)) (drop k (b # rest))
      | Cut k \<Rightarrow>
          Seg cur has_write # lex_from in_single in_double False None [] (drop k (b # rest)))"
  by pat_completeness auto
termination
  by (relation "measure (\<lambda>(sq, dq, w, p, cur, s). length s)")
     (auto dest: lex_step_advances simp: less_Suc_eq_le)

definition lex_segments :: "rstring \<Rightarrow> Segment list" where
  "lex_segments command = lex_from False False False None [] command"

definition has_subshell_syntax :: "rstring \<Rightarrow> bool" where
  "has_subshell_syntax command \<longleftrightarrow>
     contains (lit ''$('') command \<or> 96 \<in> set command \<or>
     contains (lit ''<('') command \<or> contains (lit ''>('') command"

text \<open>\<open>Iterator::max\<close>\<close>

fun iter_max :: "'a::linorder list \<Rightarrow> 'a option" where
  "iter_max [] = None"
| "iter_max (x # xs) = (case iter_max xs of None \<Rightarrow> Some x | Some y \<Rightarrow> Some (max x y))"

definition highest :: "(rstring \<Rightarrow> bool \<Rightarrow> RiskLevel) \<Rightarrow> Segment list \<Rightarrow> RiskLevel" where
  "highest classify segments =
     (case iter_max (map (\<lambda>s. classify (seg_text s) (seg_write s)) segments) of
        None \<Rightarrow> ReadOnly | Some level \<Rightarrow> level)"

definition classify_command :: "(uchar \<Rightarrow> bool) \<Rightarrow> rstring \<Rightarrow> RiskLevel" where
  "classify_command U command =
     (if has_subshell_syntax command then Dangerous
      else if has_dangerous_pattern command then Dangerous
      else highest (classify_segment U) (lex_segments command))"

subsection \<open>Windows targets\<close>

datatype TargetPlatform = Unix | Windows

definition platform_parse :: "rstring \<Rightarrow> TargetPlatform" where
  "platform_parse v = (if eq_ignore_ascii_case v (lit ''windows'') then Windows else Unix)"

definition is_dangerous_windows_delete :: "rstring \<Rightarrow> rstring \<Rightarrow> bool" where
  "is_dangerous_windows_delete segment base =
     (if base \<notin> set (map lit [''del'', ''erase'', ''rd'', ''rmdir'']) then False
      else
        let words = split_whitespace (to_ascii_lowercase segment) in
        if \<not> list_ex (\<lambda>w. starts_with (lit ''/s'') w \<or> starts_with (lit ''-s'') w) words
        then False
        else list_ex (\<lambda>w. w \<in> set [lit ''c:'' @ [92], lit ''c:'' @ [92] @ lit ''*'',
               lit ''c:'' @ [92] @ lit ''windows'', lit ''c:'' @ [92] @ lit ''windows'' @ [92] @ lit ''*'',
               lit ''%systemroot%'']) words)"

text \<open>\<open>words.get(i).is_some_and(...)\<close>\<close>

definition word_is :: "nat \<Rightarrow> (rstring \<Rightarrow> bool) \<Rightarrow> rstring list \<Rightarrow> bool" where
  "word_is i p ws \<longleftrightarrow> i < length ws \<and> p (ws ! i)"

definition classify_windows_segment :: "(uchar \<Rightarrow> bool) \<Rightarrow> rstring \<Rightarrow> bool \<Rightarrow> RiskLevel" where
  "classify_windows_segment U segment has_write_redirect =
     (if list_ex (\<lambda>pattern. contains pattern (to_ascii_lowercase segment))
           WINDOWS_DANGEROUS_PATTERNS then Dangerous
      else
        let token = to_ascii_lowercase (first_token U segment);
            base = trim_end_str (lit ''.com'') (trim_end_str (lit ''.exe'')
              (rsplit_last (\<lambda>c. c = 47 \<or> c = 92) token));
            words = split_whitespace segment in
        if is_dangerous_windows_delete segment base then Dangerous
        else if base = lit ''sc'' then
          if word_is 1 (\<lambda>w. to_ascii_lowercase w \<in>
               set (map lit [''query'', ''queryex'', ''qc'', ''enumdepend''])) words
          then ReadOnly else Modify
        else if base = lit ''reg'' then
          if word_is 1 (eq_ignore_ascii_case (lit ''query'')) words then ReadOnly else Modify
        else if base = lit ''route'' then
          if list_ex (eq_ignore_ascii_case (lit ''print'')) words then ReadOnly else Modify
        else if base = lit ''net'' then
          if word_is 1 (eq_ignore_ascii_case (lit ''view'')) words then ReadOnly else Modify
        else if base = lit ''wmic'' then
          if word_is 2 (\<lambda>w. eq_ignore_ascii_case (lit ''get'') w \<or>
               eq_ignore_ascii_case (lit ''list'') w) words then ReadOnly else Modify
        else if base \<in> set (map lit [''powershell'', ''pwsh'']) then
          if list_ex (\<lambda>w. starts_with (lit ''get-'') (to_ascii_lowercase w)) words \<and>
             \<not> list_ex (\<lambda>w. list_ex (\<lambda>verb. starts_with verb (to_ascii_lowercase w))
                 POWERSHELL_WRITE_VERBS) words \<and>
             \<not> has_write_redirect
          then ReadOnly else Modify
        else if base \<in> set (map lit [''rm'', ''shred'', ''dd'', ''mkfs'']) then Dangerous
        else if has_write_redirect \<and> token \<noteq> [] then Modify
        else if base \<in> set WINDOWS_DELETE_CMDS then Delete
        else if base \<in> set WINDOWS_READONLY_CMDS then ReadOnly
        else Modify)"

definition classify_command_for ::
  "(uchar \<Rightarrow> bool) \<Rightarrow> rstring \<Rightarrow> TargetPlatform \<Rightarrow> RiskLevel" where
  "classify_command_for U command platform =
     (if platform = Unix then classify_command U command
      else if has_subshell_syntax command then Dangerous
      else if has_dangerous_pattern command then Dangerous
      else highest (classify_windows_segment U) (lex_segments command))"

subsection \<open>Permission modes\<close>

datatype PermissionMode = Strict | Approval | Full

definition mode_from_str :: "rstring \<Rightarrow> PermissionMode" where
  "mode_from_str v =
     (if v = lit ''strict'' then Strict else if v = lit ''full'' then Full else Approval)"

fun mode_as_str :: "PermissionMode \<Rightarrow> rstring" where
  "mode_as_str Strict = lit ''strict''"
| "mode_as_str Approval = lit ''approval''"
| "mode_as_str Full = lit ''full''"

fun needs_approval :: "PermissionMode \<Rightarrow> RiskLevel \<Rightarrow> bool" where
  "needs_approval mode Dangerous = True"
| "needs_approval mode Delete = True"
| "needs_approval mode Modify = (mode \<noteq> Full)"
| "needs_approval mode ReadOnly = (mode = Strict)"

subsection \<open>The highest level of the segments\<close>

lemma risk_bounds [simp]: "ReadOnly \<le> r" "r \<le> Dangerous" "r \<le> ReadOnly \<longleftrightarrow> r = ReadOnly"
    "Dangerous \<le> r \<longleftrightarrow> r = Dangerous"
  by (cases r; simp add: less_eq_RiskLevel_def)+

lemma iter_max_None [simp]: "iter_max xs = None \<longleftrightarrow> xs = []"
  by (cases xs) (auto split: option.splits)

lemma iter_max_Max: "xs \<noteq> [] \<Longrightarrow> iter_max xs = Some (Max (set xs))"
proof (induction xs)
  case (Cons x xs)
  then show ?case by (cases "xs = []") auto
qed simp

abbreviation level_of :: "(rstring \<Rightarrow> bool \<Rightarrow> RiskLevel) \<Rightarrow> Segment \<Rightarrow> RiskLevel" where
  "level_of f s \<equiv> f (seg_text s) (seg_write s)"

lemma highest_alt: "highest f ss = (if ss = [] then ReadOnly else Max (level_of f ` set ss))"
  by (simp add: highest_def iter_max_Max)

lemma highest_le: "highest f ss \<le> r \<longleftrightarrow> (\<forall>s \<in> set ss. level_of f s \<le> r)"
  by (simp add: highest_alt)

lemma highest_mono: "set ss \<subseteq> set ts \<Longrightarrow> highest f ss \<le> highest f ts"
  using highest_le [of f ss "highest f ts"] highest_le [of f ts "highest f ts"] by auto

definition classify_on ::
  "(uchar \<Rightarrow> bool) \<Rightarrow> TargetPlatform \<Rightarrow> rstring \<Rightarrow> bool \<Rightarrow> RiskLevel" where
  "classify_on U platform = (if platform = Unix then classify_segment U else classify_windows_segment U)"

lemma classify_command_for_alt:
  "classify_command_for U c p =
     (if has_subshell_syntax c \<or> has_dangerous_pattern c then Dangerous
      else highest (classify_on U p) (lex_segments c))"
  by (cases p) (simp_all add: classify_command_for_def classify_command_def classify_on_def)

subsection \<open>The lexer covers the command\<close>

text \<open>\<open>shell_closed sq dq s\<close>: from the given quote state, \<open>s\<close> ends outside quotes and escapes.\<close>

fun shell_closed :: "bool \<Rightarrow> bool \<Rightarrow> rstring \<Rightarrow> bool" where
  "shell_closed sq dq [] = (\<not> sq \<and> \<not> dq)"
| "shell_closed sq dq (b # rest) =
     (if sq then shell_closed (b \<noteq> 39) dq rest
      else if dq \<and> b = 34 then shell_closed sq False rest
      else if b = 92 then (case rest of [] \<Rightarrow> False | _ # rest' \<Rightarrow> shell_closed sq dq rest')
      else if dq then shell_closed sq dq rest
      else if b = 39 then shell_closed True dq rest
      else if b = 34 then shell_closed sq True rest
      else shell_closed sq dq rest)"














lemma lex_step_chain:
  assumes "shell_closed sq dq (x # xs)" and "sep \<in> {59, 10, 13}"
  shows "lex_step sq dq hw p x (xs @ sep # b) = lex_step sq dq hw p x xs"
proof (cases xs)
  case Nil
  then show ?thesis using assms by (auto simp: lex_step_def Let_def get_byte_def split: if_splits)
next
  case (Cons y ys)
  show ?thesis
  proof (cases ys)
    case Nil
    with Cons show ?thesis using assms by (auto simp: lex_step_def Let_def get_byte_def is_ascii_digit_def)
  next
    case (Cons z zs)
    with \<open>xs = y # ys\<close> show ?thesis by (simp add: lex_step_def Let_def get_byte_def)
  qed
qed

lemma lex_step_closed:
  assumes "shell_closed sq dq (x # xs)"
  shows "lex_step sq dq hw p x xs = Keep k sq' dq' w p' \<Longrightarrow>
      shell_closed sq' dq' (drop k (x # xs)) \<and> k \<le> length (x # xs)"
    and "lex_step sq dq hw p x xs = Cut k \<Longrightarrow>
      shell_closed sq dq (drop k (x # xs)) \<and> k \<le> length (x # xs)"
proof -
  assume "lex_step sq dq hw p x xs = Keep k sq' dq' w p'"
  then show "shell_closed sq' dq' (drop k (x # xs)) \<and> k \<le> length (x # xs)" using assms
    by (cases xs) (auto simp: lex_step_def Let_def get_byte_def numeral_2_eq_2 split: if_splits list.splits)
next
  assume "lex_step sq dq hw p x xs = Cut k"
  then show "shell_closed sq dq (drop k (x # xs)) \<and> k \<le> length (x # xs)" using assms
    by (cases xs) (auto simp: lex_step_def Let_def get_byte_def numeral_2_eq_2 split: if_splits list.splits)
qed

lemma take_drop_chain:
  assumes "k \<le> length (x # xs)"
  shows "take k (x # xs @ t) = take k (x # xs)" and "drop k (x # xs @ t) = drop k (x # xs) @ t"
  using assms take_append [of k "x # xs" t] drop_append [of k "x # xs" t] by simp_all

lemma lex_from_chain:
  assumes sep: "sep \<in> {59, 10, 13}"
  shows "shell_closed sq dq a \<Longrightarrow>
    set (lex_from sq dq hw p cur a) \<union> set (lex_segments b)
      \<subseteq> set (lex_from sq dq hw p cur (a @ sep # b))"
proof (induction sq dq hw p cur a rule: lex_from.induct)
  case 1
  then show ?case using sep by (auto simp: lex_segments_def lex_step_def Let_def)
next
  case (2 sq dq hw p cur x rest)
  note same = lex_step_chain [OF 2(3) sep]
  show ?case
  proof (cases "lex_step sq dq hw p x rest")
    case (Keep k sq' dq' w p')
    note closed = lex_step_closed(1) [OF 2(3) Keep]
    note cut = take_drop_chain [OF closed [THEN conjunct2]]
    show ?thesis using 2(1) [OF Keep] closed same [of hw p b] Keep
      by (simp add: cut del: take_Cons' drop_Cons')
  next
    case (Cut k)
    note closed = lex_step_closed(2) [OF 2(3) Cut]
    note cut = take_drop_chain [OF closed [THEN conjunct2]]
    show ?thesis using 2(2) [OF Cut] closed same [of hw p b] Cut
      by (auto simp add: cut simp del: take_Cons' drop_Cons')
  qed
qed

subsection \<open>The first word\<close>

lemma split_nonempty_skip: "split_nonempty q (dropWhile q s) = split_nonempty q s"
  by (induction s) (auto simp: split_nonempty_def)

lemma split_nonempty_word:
  "\<not> q c \<Longrightarrow> split_nonempty q (c # s) =
     (c # takeWhile (\<lambda>x. \<not> q x) s) # split_nonempty q (dropWhile (\<lambda>x. \<not> q x) s)"
  by (induction s arbitrary: c) (auto simp: split_nonempty_def split: list.splits)

lemma first_token_from_words:
  "rest = [] \<or> \<not> is_whitespace (hd rest) \<Longrightarrow>
     first_token_from U rest =
       (case skip_prefix_words U (split_whitespace rest) of [] \<Rightarrow> [] | w # _ \<Rightarrow> w)"
proof (induction U rest rule: first_token_from.induct)
  case (1 U rest)
  show ?case
  proof (cases rest)
    case Nil
    then show ?thesis by (simp add: first_token_from.simps split_nonempty_def)
  next
    case (Cons c s)
    let ?token = "takeWhile (\<lambda>c. \<not> is_whitespace c) rest"
    let ?tail = "dropWhile (\<lambda>c. \<not> is_whitespace c) rest"
    have token: "?token \<noteq> []" "split_whitespace rest = ?token # split_whitespace (trim_start ?tail)"
      using "1.prems" Cons
      by (auto simp: split_nonempty_word split_nonempty_skip trim_start_matches_def)
    have start: "trim_start ?tail = [] \<or> \<not> is_whitespace (hd (trim_start ?tail))"
      using hd_dropWhile [of is_whitespace ?tail] by (auto simp: trim_start_matches_def)
    show ?thesis
    proof (cases "is_assignment U ?token \<or> is_prefix ?token")
      case True
      then have "first_token_from U rest = first_token_from U (trim_start ?tail)"
        using token(1) by (subst first_token_from.simps) (auto simp: Let_def)
      also have "\<dots> = (case skip_prefix_words U (split_whitespace (trim_start ?tail)) of
          [] \<Rightarrow> [] | w # _ \<Rightarrow> w)"
        using "1.IH" token(1) True start by blast
      finally show ?thesis using True token(2) by simp
    next
      case False
      then show ?thesis using token by (subst first_token_from.simps) (simp add: Let_def)
    qed
  qed
qed

lemma first_token_words:
  "first_token U s = (case skip_prefix_words U (split_whitespace s) of [] \<Rightarrow> [] | w # _ \<Rightarrow> w)"
  using first_token_from_words [of "trim_start s" U] hd_dropWhile [of is_whitespace s]
  by (auto simp: first_token_def trim_start_matches_def split_nonempty_skip)

subsection \<open>Levels of a segment\<close>

definition command_base :: "(uchar \<Rightarrow> bool) \<Rightarrow> rstring \<Rightarrow> rstring" where
  "command_base U segment = rsplit_last (\<lambda>c. c = 47) (to_ascii_lowercase (first_token U segment))"

definition SUBCOMMAND_TOOLS :: "rstring list" where
  "SUBCOMMAND_TOOLS =
     map lit [''systemctl'', ''service'', ''docker'', ''podman'', ''nerdctl'', ''kubectl'']"

lemma lit_Nil_right [simp]: "[] = lit s \<longleftrightarrow> s = []"
  by (metis lit_Nil)

lemma rsplit_last_Nil [simp]: "rsplit_last q [] = []"
  by (simp add: rsplit_last_def)

text \<open>Tools with sub-commands aside, only a listed command without redirection is read-only.\<close>

lemma classify_segment_readonly:
  assumes "classify_segment U seg w = ReadOnly"
  shows "\<not> has_dangerous_pattern seg \<and> \<not> is_dangerous_rm U seg \<and>
    (command_base U seg \<in> set SUBCOMMAND_TOOLS \<or>
     command_base U seg \<in> set READONLY_CMDS - set DELETE_CMDS - set MODIFY_CMDS \<and> \<not> w)"
proof -
  have "[] \<notin> set READONLY_CMDS" by code_simp
  then show ?thesis
    using assms unfolding classify_segment_def command_base_def SUBCOMMAND_TOOLS_def
    by (auto simp: Let_def split: if_splits)
qed

definition windows_base :: "(uchar \<Rightarrow> bool) \<Rightarrow> rstring \<Rightarrow> rstring" where
  "windows_base U segment = trim_end_str (lit ''.com'') (trim_end_str (lit ''.exe'')
     (rsplit_last (\<lambda>c. c = 47 \<or> c = 92) (to_ascii_lowercase (first_token U segment))))"

definition WINDOWS_SUBCOMMAND_TOOLS :: "rstring list" where
  "WINDOWS_SUBCOMMAND_TOOLS = map lit [''sc'', ''reg'', ''route'', ''net'', ''wmic'', ''powershell'', ''pwsh'']"

lemma classify_windows_readonly:
  assumes "classify_windows_segment U seg w = ReadOnly"
  shows "\<not> list_ex (\<lambda>pattern. contains pattern (to_ascii_lowercase seg)) WINDOWS_DANGEROUS_PATTERNS \<and>
    \<not> is_dangerous_windows_delete seg (windows_base U seg) \<and>
    (windows_base U seg \<in> set WINDOWS_SUBCOMMAND_TOOLS \<or>
     windows_base U seg \<in> set WINDOWS_READONLY_CMDS - set WINDOWS_DELETE_CMDS \<and> \<not> w)"
proof -
  have "[] \<notin> set WINDOWS_READONLY_CMDS" by code_simp
  moreover have "windows_base U seg = []" if "to_ascii_lowercase (first_token U seg) = []"
    unfolding windows_base_def that by (simp add: trim_end_str.simps ends_with_iff)
  ultimately show ?thesis
    using assms
    unfolding classify_windows_segment_def Let_def windows_base_def [symmetric] WINDOWS_SUBCOMMAND_TOOLS_def
    by (auto split: if_splits)
qed

text \<open>The segments that may run unasked in mode \<open>Approval\<close>.\<close>

definition autorun_segment :: "(uchar \<Rightarrow> bool) \<Rightarrow> TargetPlatform \<Rightarrow> Segment \<Rightarrow> bool" where
  "autorun_segment U P s \<longleftrightarrow>
     (if P = Unix then
        \<not> is_dangerous_rm U (seg_text s) \<and>
        (command_base U (seg_text s) \<in> set SUBCOMMAND_TOOLS \<or>
         command_base U (seg_text s) \<in> set READONLY_CMDS - set DELETE_CMDS - set MODIFY_CMDS \<and> \<not> seg_write s)
      else
        \<not> list_ex (\<lambda>pattern. contains pattern (to_ascii_lowercase (seg_text s))) WINDOWS_DANGEROUS_PATTERNS \<and>
        \<not> is_dangerous_windows_delete (seg_text s) (windows_base U (seg_text s)) \<and>
        (windows_base U (seg_text s) \<in> set WINDOWS_SUBCOMMAND_TOOLS \<or>
         windows_base U (seg_text s) \<in> set WINDOWS_READONLY_CMDS - set WINDOWS_DELETE_CMDS \<and> \<not> seg_write s))"

lemma delete_tables:
  assumes "base \<in> set DELETE_CMDS"
  shows "base \<noteq> []" "base \<notin> set (map lit [''systemctl'', ''service''])"
    "base \<notin> set (map lit [''docker'', ''podman'', ''nerdctl''])" "base \<noteq> lit ''kubectl''"
    "base \<noteq> lit ''find''" "base \<noteq> lit ''awk''" "base \<notin> set (map lit [''curl'', ''wget''])"
  using assms by (auto simp: DELETE_CMDS_def)

lemma classify_delete_segment:
  assumes "command_base U seg \<in> set DELETE_CMDS"
  shows "classify_segment U seg w =
    (if has_dangerous_pattern seg \<or> is_dangerous_rm U seg then Dangerous
     else if w then Modify else Delete)"
  using delete_tables [OF assms] assms
  unfolding classify_segment_def command_base_def
  by (cases "first_token U seg = []") (simp_all add: Let_def del: set_map list.map(2))

lemma contains_append: "contains p s \<Longrightarrow> contains p (s @ t)" "contains p t \<Longrightarrow> contains p (s @ t)"
  unfolding contains_iff by (metis append.assoc)+

lemma whole_checks_append:
  "has_subshell_syntax s \<or> has_subshell_syntax t \<Longrightarrow> has_subshell_syntax (s @ t)"
  "has_dangerous_pattern s \<or> has_dangerous_pattern t \<Longrightarrow> has_dangerous_pattern (s @ t)"
  by (auto simp: has_subshell_syntax_def has_dangerous_pattern_def list_ex_iff intro: contains_append)

lemma classify_chain:
  assumes "shell_closed False False a" and "sep \<in> {59, 10, 13}"
  shows "classify_command_for U a P \<le> classify_command_for U (a @ sep # b) P"
    and "classify_command_for U b P \<le> classify_command_for U (a @ sep # b) P"
proof -
  note chain = lex_from_chain [OF assms(2) assms(1), of False None "[]" b]
  have "a @ sep # b = (a @ [sep]) @ b" by simp
  then have sub: "has_subshell_syntax a \<or> has_subshell_syntax b \<Longrightarrow> has_subshell_syntax (a @ sep # b)"
    and pat: "has_dangerous_pattern a \<or> has_dangerous_pattern b \<Longrightarrow> has_dangerous_pattern (a @ sep # b)"
    using whole_checks_append by metis+
  show "classify_command_for U a P \<le> classify_command_for U (a @ sep # b) P"
    using sub pat chain highest_mono by (auto simp: classify_command_for_alt lex_segments_def)
  show "classify_command_for U b P \<le> classify_command_for U (a @ sep # b) P"
    using sub pat chain highest_mono by (auto simp: classify_command_for_alt lex_segments_def)
qed

lemma needs_approval_mono: "r \<le> r' \<Longrightarrow> needs_approval m r \<Longrightarrow> needs_approval m r'"
  by (cases m; cases r; cases r') (simp_all add: less_eq_RiskLevel_def)

lemma needs_approval_Delete: "Delete \<le> r \<Longrightarrow> needs_approval m r"
  by (cases r) (simp_all add: less_eq_RiskLevel_def)

lemma segment_le_command:
  "s \<in> set (lex_segments c) \<Longrightarrow> level_of (classify_on U P) s \<le> classify_command_for U c P"
  using highest_le [of "classify_on U P" "lex_segments c" "highest (classify_on U P) (lex_segments c)"]
  by (simp add: classify_command_for_alt)

subsection \<open>Properties of the classifier\<close>


text \<open>
  C14. Chaining never lowers the risk: when a command ends outside quotes and escapes, the level of
  that command followed by a semicolon or a line end and any other text is at least the level of
  either part, so a dangerous command cannot be hidden behind or in front of a harmless one; in
  every mode the chain needs approval when one part does.
\<close>

theorem chaining_never_lowers_risk:
  assumes "shell_closed False False a" and "sep \<in> {59, 10, 13}"
  shows "max (classify_command_for U a P) (classify_command_for U b P)
           \<le> classify_command_for U (a @ sep # b) P \<and>
         (needs_approval m (classify_command_for U a P) \<or> needs_approval m (classify_command_for U b P)
           \<longrightarrow> needs_approval m (classify_command_for U (a @ sep # b) P))"
  using classify_chain [OF assms, where U = U and P = P and b = b] needs_approval_mono by auto

theorem chaining_never_lowers_risk_witness:
  "classify_command_for (\<lambda>_. False) (lit ''ls -la'' @ 10 # lit ''rm -rf /'') Unix = Dangerous \<and>
   classify_command_for (\<lambda>_. False) (lit ''ls -la'') Unix = ReadOnly"
proof -
  have "shell_closed False False (lit ''ls -la'')" by code_simp
  moreover have "classify_command_for (\<lambda>_. False) (lit ''rm -rf /'') Unix = Dangerous"
    "classify_command_for (\<lambda>_. False) (lit ''ls -la'') Unix = ReadOnly" by code_simp+
  ultimately show ?thesis
    using chaining_never_lowers_risk [of "lit ''ls -la''" 10 "\<lambda>_. False" Unix "lit ''rm -rf /''" Strict]
    by simp
qed

text \<open>
  C15. What runs without asking in the default mode, on either platform. If a command needs no approval in
  mode \<open>Approval\<close>, it has no sub-shell or command substitution and no dangerous pattern, no segment is a
  recursive deletion of a critical path, and the command of every segment (the first word that is no
  assignment or prefix, without directory and in lower case) is one of the tools with sub-commands, or it
  is on the read-only list and on none of the others and the lexer has not flagged a write redirection.
  The flag is the lexer's reading of the text, which is not always the shell's: a \<open>>\<close> after the character
  \<open>2\<close> counts as a redirection of standard error.
\<close>

theorem autorun_only_whitelisted:
  assumes "\<not> needs_approval Approval (classify_command_for U c P)"
  shows "\<not> has_subshell_syntax c \<and> \<not> has_dangerous_pattern c \<and> list_all (autorun_segment U P) (lex_segments c)"
proof -
  have level: "classify_command_for U c P = ReadOnly"
    using assms by (cases "classify_command_for U c P") auto
  then have "\<not> has_subshell_syntax c \<and> \<not> has_dangerous_pattern c"
    by (simp add: classify_command_for_alt split: if_splits)
  moreover have "autorun_segment U P s" if "s \<in> set (lex_segments c)" for s
  proof -
    have "level_of (classify_on U P) s = ReadOnly" using segment_le_command [OF that, of U P] level by simp
    then show ?thesis
      using classify_segment_readonly [of U "seg_text s" "seg_write s"]
        classify_windows_readonly [of U "seg_text s" "seg_write s"]
      by (cases P) (simp_all add: autorun_segment_def classify_on_def)
  qed
  ultimately show ?thesis by (simp add: list_all_iff)
qed

theorem autorun_only_whitelisted_witness:
  "command_base (\<lambda>_. False) (lit ''cat a'') \<in> set READONLY_CMDS - set DELETE_CMDS - set MODIFY_CMDS"
proof -
  have "\<not> needs_approval Approval (classify_command_for (\<lambda>_. False) (lit ''cat a'') Unix)" by code_simp
  from autorun_only_whitelisted [OF this]
  have "list_all (autorun_segment (\<lambda>_. False) Unix) (lex_segments (lit ''cat a''))" by blast
  moreover have "lex_segments (lit ''cat a'') = [Seg (lit ''cat a'') False]" by code_simp
  moreover have "command_base (\<lambda>_. False) (lit ''cat a'') \<notin> set SUBCOMMAND_TOOLS" by code_simp
  ultimately show ?thesis by (simp add: autorun_segment_def)
qed

text \<open>
  Deleting commands. A segment whose command is on the delete list is dangerous when it matches a
  pattern or is a recursive forced \<open>rm\<close> of a critical path, and otherwise \<open>Delete\<close>, which needs
  approval in every mode, but only without a write redirection: with one it is a mere \<open>Modify\<close>,
  so that \<open>rm -r data >log\<close> runs unasked in mode \<open>Full\<close>.
\<close>

theorem delete_segment_level:
  assumes "command_base U (seg_text s) \<in> set DELETE_CMDS"
  shows "level_of (classify_segment U) s =
      (if has_dangerous_pattern (seg_text s) \<or> is_dangerous_rm U (seg_text s) then Dangerous
       else if seg_write s then Modify else Delete) \<and>
    (\<not> seg_write s \<longrightarrow> needs_approval mode (level_of (classify_segment U) s))"
  using classify_delete_segment [OF assms] by simp

theorem delete_segment_level_witness:
  "lex_segments (lit ''rm -r data >log'') = [Seg (lit ''rm -r data >log'') True] \<and>
   classify_segment (\<lambda>_. False) (lit ''rm -r data >log'') True = Modify \<and>
   \<not> needs_approval Full (classify_command (\<lambda>_. False) (lit ''rm -r data >log''))"
proof (intro conjI)
  let ?s = "Seg (lit ''rm -r data >log'') True"
  have "command_base (\<lambda>_. False) (seg_text ?s) \<in> set DELETE_CMDS"
    "\<not> has_dangerous_pattern (seg_text ?s)" "\<not> is_dangerous_rm (\<lambda>_. False) (seg_text ?s)"
    by code_simp+
  then show "classify_segment (\<lambda>_. False) (lit ''rm -r data >log'') True = Modify"
    using delete_segment_level [of "\<lambda>_. False" ?s] by simp
  show "lex_segments (lit ''rm -r data >log'') = [?s]" by code_simp
  show "\<not> needs_approval Full (classify_command (\<lambda>_. False) (lit ''rm -r data >log''))" by code_simp
qed

text \<open>
  \<open>first_token\<close> and the check for a dangerous \<open>rm\<close> read a segment the same way: the first token
  is the first word left after skipping assignments and wrapper commands, so a segment reported by
  \<open>is_dangerous_rm\<close> is one whose first token is \<open>rm\<close>.
\<close>

theorem first_token_is_first_word:
  "first_token U s = (case skip_prefix_words U (split_whitespace s) of [] \<Rightarrow> [] | w # _ \<Rightarrow> w) \<and>
   (is_dangerous_rm U s \<longrightarrow> rsplit_last (\<lambda>c. c = 47) (first_token U s) = lit ''rm'')"
  by (auto simp: first_token_words is_dangerous_rm_def split: list.splits if_splits prod.splits)

theorem first_token_is_first_word_witness:
  "rsplit_last (\<lambda>c. c = 47) (first_token (\<lambda>_. False) (lit ''sudo A=1 /bin/rm -r -f /'')) = lit ''rm''"
proof -
  have "is_dangerous_rm (\<lambda>_. False) (lit ''sudo A=1 /bin/rm -r -f /'')" by code_simp
  then show ?thesis
    using first_token_is_first_word [of "\<lambda>_. False" "lit ''sudo A=1 /bin/rm -r -f /''"] by blast
qed

text \<open>
  Redirections and wrappers the classifier misreads: a word ending in \<open>2\<close> before \<open>>\<close> is taken for
  the descriptor of standard error, the tools with sub-commands are classified before the
  redirection is looked at, and the argument of a wrapper such as \<open>timeout\<close> or an option of \<open>sudo\<close>
  is taken for the command.
\<close>

theorem misread_redirects_and_wrappers:
  "classify_command U (lit ''echo a2>/etc/passwd'') = ReadOnly \<and>
   classify_command U (lit ''echo a>/etc/passwd'') = Modify \<and>
   classify_command U (lit ''systemctl status > /etc/passwd'') = ReadOnly \<and>
   classify_command U (lit ''rm -rf /'') = Dangerous \<and>
   classify_command U (lit ''timeout 10 rm -rf /'') = Modify \<and>
   classify_command U (lit ''sudo -u root rm -rf /'') = Modify"
  by (intro conjI; code_simp)

end
