(* ===== verification/Connection_Target.thy ===== *)
theory Connection_Target
  imports Connection_Config
begin

section \<open>Command-line targets\<close>

text \<open>
  Model of \<open>target.rs\<close>: the target argument \<open>[user@]host\<close> of the command line, where the host may
  be an IPv6 address in brackets and a port is refused.
\<close>

datatype (plugins only: code size) target_error =
    TargetEmpty | TargetWhitespace | TargetUserEmpty | TargetHostEmpty | TargetManyAts
  | TargetBracketMissing | TargetBracketed | TargetBrackets | TargetPort

record ConnectionTarget =
  t_host :: rstring
  t_username :: "rstring option"

definition normalize_host :: "rstring \<Rightarrow> target_error + rstring" where
  "normalize_host v =
     (case strip_prefix [91] v of
        Some rest \<Rightarrow>
          if \<not> ends_with [93] rest then Inl TargetBracketMissing
          else
            let host = butlast rest in
            if host = [] then Inl TargetHostEmpty
            else if 91 \<in> set host \<or> 93 \<in> set host then Inl TargetBracketed
            else Inr host
      | None \<Rightarrow>
          if 91 \<in> set v \<or> 93 \<in> set v then Inl TargetBrackets
          else if count_list v 58 = 1 then
            (case rsplit_once 58 v of
               None \<Rightarrow> Inr v
             | Some (host, port) \<Rightarrow>
                 if host \<noteq> [] \<and> port \<noteq> [] \<and> list_all is_ascii_digit port then Inl TargetPort
                 else Inr v)
          else Inr v)"

definition target_parse :: "rstring \<Rightarrow> target_error + ConnectionTarget" where
  "target_parse v =
     (if v = [] then Inl TargetEmpty
      else if list_ex (\<lambda>ch. is_whitespace ch \<or> is_control ch) v then Inl TargetWhitespace
      else
        and_then
          (case rsplit_once 64 v of
             Some (username, host) \<Rightarrow>
               if username = [] then Inl TargetUserEmpty
               else if host = [] then Inl TargetHostEmpty
               else if 64 \<in> set username \<or> 64 \<in> set host then Inl TargetManyAts
               else Inr (Some username, host)
           | None \<Rightarrow> Inr (None, v))
          (\<lambda>(username, raw_host).
            and_then (normalize_host raw_host) (\<lambda>host.
              Inr \<lparr>t_host = host, t_username = username\<rparr>)))"

subsection \<open>What a target denotes\<close>

lemma normalize_host_ok:
  assumes "normalize_host v = Inr h" and "v \<noteq> []"
  shows "h \<noteq> [] \<and> 91 \<notin> set h \<and> 93 \<notin> set h \<and> (v = h \<or> v = 91 # h @ [93])"
proof (cases "strip_prefix [91] v")
  case None
  then show ?thesis using assms
    by (auto simp: normalize_host_def split: if_splits option.splits)
next
  case (Some rest)
  then have v: "v = 91 # rest" by (simp add: strip_prefix_Some)
  have e: "ends_with [93] rest" and h: "h = butlast rest" "h \<noteq> []" "91 \<notin> set h" "93 \<notin> set h"
    using assms Some by (auto simp: normalize_host_def Let_def split: if_splits)
  have "rest = butlast rest @ [93]" using e by (auto simp: ends_with_iff)
  then show ?thesis using v h by simp
qed

text \<open>
  A target means what it says: when the argument is accepted, it is the user, an at sign and the
  host, or the host alone, with brackets around the host at most; user and host are not empty and
  free of white space, control characters, at signs and (for the host) brackets.
\<close>

theorem target_denotes:
  assumes "target_parse v = Inr t"
  shows "(v = (case t_username t of Some u \<Rightarrow> u @ [64] | None \<Rightarrow> []) @ t_host t \<or>
      v = (case t_username t of Some u \<Rightarrow> u @ [64] | None \<Rightarrow> []) @ [91] @ t_host t @ [93]) \<and>
      t_host t \<noteq> [] \<and> 91 \<notin> set (t_host t) \<and> 93 \<notin> set (t_host t) \<and>
      list_all (\<lambda>c. \<not> is_whitespace c \<and> \<not> is_control c \<and> c \<noteq> 64) (t_host t) \<and>
      pred_option (\<lambda>u. u \<noteq> [] \<and> 64 \<notin> set u) (t_username t)"
proof -
  have ok: "v \<noteq> []" "\<forall>c \<in> set v. \<not> is_whitespace c \<and> \<not> is_control c"
    using assms by (auto simp: target_parse_def list_ex_iff split: if_splits)
  obtain u raw where split: "normalize_host raw = Inr (t_host t)" "t_username t = u" "raw \<noteq> []"
      "v = (case u of Some u \<Rightarrow> u @ [64] | None \<Rightarrow> []) @ raw" "64 \<notin> set raw"
      "pred_option (\<lambda>u. u \<noteq> [] \<and> 64 \<notin> set u) u"
  proof (cases "rsplit_once 64 v")
    case None
    then have "64 \<notin> set v" by (simp add: rsplit_once_None)
    then show thesis using that [of v None] assms ok None
      by (auto simp: target_parse_def and_then_eq_Inr split: if_splits)
  next
    case (Some ab)
    obtain a b where ab: "ab = (a, b)" by (cases ab)
    then have "v = a @ 64 # b" "64 \<notin> set b" using Some by (simp_all add: rsplit_once_Some)
    then show thesis using that [of b "Some a"] assms ok(1) Some ab
      by (auto simp: target_parse_def and_then_eq_Inr simp del: list_ex_append split: if_splits)
  qed
  note n = normalize_host_ok [OF split(1,3)]
  have "v = (case t_username t of Some u \<Rightarrow> u @ [64] | None \<Rightarrow> []) @ t_host t \<or>
      v = (case t_username t of Some u \<Rightarrow> u @ [64] | None \<Rightarrow> []) @ [91] @ t_host t @ [93]"
    using n split(2,4) by auto
  moreover have "set (t_host t) \<subseteq> set raw" using n by auto
  ultimately show ?thesis
    using n split ok(2) by (auto simp: list_all_iff)
qed

theorem target_denotes_witness:
  "\<exists>t. target_parse (lit ''ops@[2001:db8::1]'') = Inr t \<and> t_host t \<noteq> []"
proof -
  have "is_ok (target_parse (lit ''ops@[2001:db8::1]''))" by code_simp
  then obtain t where t: "target_parse (lit ''ops@[2001:db8::1]'') = Inr t" by (auto simp: is_ok_iff)
  from target_denotes [OF this] t show ?thesis by blast
qed

end
