(* ===== verification/Remote_Command.thy ===== *)
theory Remote_Command
  imports Connection_Config
begin

section \<open>Commands for the remote shell\<close>

text \<open>
  Model of \<open>command.rs\<close> (\<open>RemoteCommandSpec\<close>) and of the command builders of \<open>client.rs\<close>:
  \<open>quote_posix\<close>, \<open>command_for_user\<close>, \<open>sudo_login_shell\<close> and the expansion of \<open>ProxyCommand\<close>. The
  byte-wise tests of the source are tests on characters here: every byte of a character outside
  ASCII is at least 128, so such a character fails the test in both readings.

  The second half is the specification: the part of the POSIX shell grammar that reads the
  rendered text back (token recognition with quoting, the and-list, simple commands with their
  assignment prefix). The reader gives up (\<open>None\<close>) on every unquoted character to which the shell
  gives a meaning of its own, so that reading a text successfully says that nothing of it is
  expanded, redirected or run in another way.
\<close>

subsection \<open>The command specification\<close>

record RemoteCommandSpec =
  rc_program :: rstring
  rc_arguments :: "rstring list"
  rc_environment :: "(rstring \<times> rstring) list"
  rc_working_directory :: "rstring option"

datatype nul_label = InProgram | InArgument | InDirectory | InEnvironmentValue

datatype (plugins only: code size) command_error =
    ProgramEmpty | DirectoryEmpty | NulByte nul_label
  | InvalidEnvironmentName rstring | DuplicateEnvironmentName rstring

definition command_new :: "rstring \<Rightarrow> RemoteCommandSpec" where
  "command_new program =
     \<lparr>rc_program = program, rc_arguments = [], rc_environment = [], rc_working_directory = None\<rparr>"

definition reject_nul :: "nul_label \<Rightarrow> rstring \<Rightarrow> command_error + unit" where
  "reject_nul label v = (if 0 \<in> set v then Inl (NulByte label) else Inr ())"

fun valid_environment_name :: "rstring \<Rightarrow> bool" where
  "valid_environment_name [] = False"
| "valid_environment_name (c # s) =
     ((is_ascii_alphabetic c \<or> c = 95) \<and> list_all (\<lambda>d. is_ascii_alphanumeric d \<or> d = 95) s)"

fun validate_environment ::
  "rstring set \<Rightarrow> (rstring \<times> rstring) list \<Rightarrow> command_error + unit" where
  "validate_environment names [] = Inr ()"
| "validate_environment names ((name, v) # rest) =
     (if \<not> valid_environment_name name then Inl (InvalidEnvironmentName name)
      else if name \<in> names then Inl (DuplicateEnvironmentName name)
      else and_then (reject_nul InEnvironmentValue v) (\<lambda>_.
        validate_environment (insert name names) rest))"

definition validated :: "RemoteCommandSpec \<Rightarrow> command_error + unit" where
  "validated spec =
     (if rc_program spec = [] then Inl ProgramEmpty
      else
        and_then (reject_nul InProgram (rc_program spec)) (\<lambda>_.
        and_then (try_each (reject_nul InArgument) (rc_arguments spec)) (\<lambda>_.
        and_then
          (case rc_working_directory spec of
             None \<Rightarrow> Inr ()
           | Some directory \<Rightarrow>
               if directory = [] then Inl DirectoryEmpty else reject_nul InDirectory directory) (\<lambda>_.
        validate_environment {} (rc_environment spec)))))"

definition safe_cd_operand :: "rstring \<Rightarrow> rstring" where
  "safe_cd_operand directory =
     (if starts_with [45] directory then lit ''./'' @ directory else directory)"

subsection \<open>Quoting\<close>

text \<open>\<open>value.replace(c, replacement)\<close> for a single character.\<close>

definition replace_char :: "uchar \<Rightarrow> rstring \<Rightarrow> rstring \<Rightarrow> rstring" where
  "replace_char c replacement v = concat (map (\<lambda>d. if d = c then replacement else [d]) v)"

definition posix_safe :: "uchar \<Rightarrow> bool" where
  "posix_safe c \<longleftrightarrow> is_ascii_alphanumeric c \<or> c \<in> set (lit ''_+-./:@%,='')"

definition quote_posix :: "rstring \<Rightarrow> rstring" where
  "quote_posix v =
     (if v = [] then [39, 39]
      else if list_all posix_safe v then v
      else [39] @ replace_char 39 [39, 34, 39, 34, 39] v @ [39])"

definition cmd_special :: "uchar \<Rightarrow> bool" where
  "cmd_special c \<longleftrightarrow> is_whitespace c \<or> c \<in> {34, 38, 124, 60, 62, 94}"

definition quote_cmd :: "rstring \<Rightarrow> rstring" where
  "quote_cmd token =
     (if token \<noteq> [] \<and> \<not> list_ex cmd_special token then token
      else [34] @ replace_char 34 [34, 34] token @ [34])"

subsection \<open>Rendering\<close>

definition posix_text :: "RemoteCommandSpec \<Rightarrow> rstring" where
  "posix_text spec =
     (case rc_working_directory spec of
        None \<Rightarrow> []
      | Some directory \<Rightarrow>
          lit ''cd '' @ quote_posix (safe_cd_operand directory) @ lit '' && '') @
     concat (map (\<lambda>(name, v). name @ [61] @ quote_posix v @ [32]) (rc_environment spec)) @
     quote_posix (rc_program spec) @
     concat (map (\<lambda>argument. [32] @ quote_posix argument) (rc_arguments spec))"

definition render_posix :: "RemoteCommandSpec \<Rightarrow> command_error + rstring" where
  "render_posix spec = and_then (validated spec) (\<lambda>_. Inr (posix_text spec))"

definition cmd_text :: "RemoteCommandSpec \<Rightarrow> rstring" where
  "cmd_text spec =
     (case rc_working_directory spec of
        None \<Rightarrow> []
      | Some directory \<Rightarrow> lit ''cd /d '' @ quote_cmd directory @ lit '' && '') @
     concat (map (\<lambda>(name, v). lit ''set '' @ name @ [61] @ quote_cmd v @ lit '' && '')
       (rc_environment spec)) @
     quote_cmd (if eq_ignore_ascii_case (rc_program spec) (lit ''cmd'') then lit ''cmd.exe''
                else rc_program spec) @
     concat (map (\<lambda>argument. [32] @ quote_cmd argument) (rc_arguments spec))"

definition render_cmd :: "RemoteCommandSpec \<Rightarrow> command_error + rstring" where
  "render_cmd spec = and_then (validated spec) (\<lambda>_. Inr (cmd_text spec))"

subsection \<open>Commands for another user\<close>

datatype RemoteUser = Current | Sudo rstring
datatype RemotePlatform = Unix | Windows

datatype user_error = SudoOnWindows

definition command_for_user ::
  "rstring \<Rightarrow> RemoteUser \<Rightarrow> RemotePlatform \<Rightarrow> user_error + rstring" where
  "command_for_user command remote_user platform =
     (case remote_user of
        Current \<Rightarrow> Inr command
      | Sudo user \<Rightarrow>
          if platform = Windows then Inl SudoOnWindows
          else Inr (lit ''sudo -n -u '' @ quote_posix user @ lit '' -- sh -lc '' @ quote_posix command))"

definition sudo_login_shell :: "rstring \<Rightarrow> rstring" where
  "sudo_login_shell user = lit ''sudo -iu '' @ quote_posix user"

subsection \<open>Expansion of a proxy command\<close>

datatype proxy_label = ProxyHost | ProxyUsername | ProxyAlias
datatype proxy_error = ExpansionEmpty proxy_label | ExpansionUnsafe proxy_label

definition proxy_safe :: "uchar \<Rightarrow> bool" where
  "proxy_safe c \<longleftrightarrow> is_ascii_alphanumeric c \<or> c \<in> set (lit ''._:@+-[]'')"

definition validate_proxy_expansion_value :: "proxy_label \<Rightarrow> rstring \<Rightarrow> proxy_error + unit" where
  "validate_proxy_expansion_value label v =
     (if v = [] then Inl (ExpansionEmpty label)
      else if \<not> list_all proxy_safe v then Inl (ExpansionUnsafe label)
      else Inr ())"

fun expand_proxy :: "ConnectionConfig \<Rightarrow> rstring \<Rightarrow> rstring \<Rightarrow> proxy_error + rstring" where
  "expand_proxy config out [] = Inr out"
| "expand_proxy config out [c] = Inr (out @ [c])"
| "expand_proxy config out (c # d # rest) =
     (if c \<noteq> 37 then expand_proxy config (out @ [c]) (d # rest)
      else if d = 37 then expand_proxy config (out @ [37]) rest
      else if d = 104 then
        and_then (validate_proxy_expansion_value ProxyHost (cc_host config)) (\<lambda>_.
          expand_proxy config (out @ cc_host config) rest)
      else if d = 112 then expand_proxy config (out @ dec (unat (cc_port config))) rest
      else if d = 114 then
        and_then (validate_proxy_expansion_value ProxyUsername (cc_username config)) (\<lambda>_.
          expand_proxy config (out @ cc_username config) rest)
      else if d = 110 then
        and_then (validate_proxy_expansion_value ProxyAlias (cc_alias config)) (\<lambda>_.
          expand_proxy config (out @ cc_alias config) rest)
      else expand_proxy config (out @ [37, d]) rest)"

definition expand_proxy_command :: "rstring \<Rightarrow> ConnectionConfig \<Rightarrow> proxy_error + rstring" where
  "expand_proxy_command template config = expand_proxy config [] template"

section \<open>Specification: how a POSIX shell reads a command\<close>

text \<open>A word keeps for each character whether it was quoted.\<close>

type_synonym qword = "(uchar \<times> bool) list"

datatype sh_token = QWord qword | AndIf | OrIf | Semi
datatype sh_mode = Bare | InSingle | InDouble

fun flush :: "qword option \<Rightarrow> sh_token list \<Rightarrow> sh_token list" where
  "flush None ts = ts"
| "flush (Some w) ts = QWord w # ts"

definition started :: "qword option \<Rightarrow> qword" where
  "started w = (case w of None \<Rightarrow> [] | Some v \<Rightarrow> v)"

fun sh_lex :: "sh_mode \<Rightarrow> qword option \<Rightarrow> rstring \<Rightarrow> sh_token list option" where
  "sh_lex m w [] = (if m = Bare then Some (flush w []) else None)"
| "sh_lex Bare w (c # s) =
     (if c = 0 then None
      else if c = 32 then map_option (flush w) (sh_lex Bare None s)
      else if c = 59 then map_option (\<lambda>ts. flush w (Semi # ts)) (sh_lex Bare None s)
      else if c = 38 \<or> c = 124 then
        (case s of
           [] \<Rightarrow> None
         | d # s' \<Rightarrow>
             if d = c then
               map_option (\<lambda>ts. flush w ((if c = 38 then AndIf else OrIf) # ts)) (sh_lex Bare None s')
             else None)
      else if c = 39 then sh_lex InSingle (Some (started w)) s
      else if c = 34 then sh_lex InDouble (Some (started w)) s
      else sh_lex Bare (Some (started w @ [(c, False)])) s)"
| "sh_lex InSingle w (c # s) =
     (if c = 0 then None
      else if c = 39 then sh_lex Bare w s
      else sh_lex InSingle (Some (started w @ [(c, True)])) s)"
| "sh_lex InDouble w (c # s) =
     (if c \<in> {0, 36, 92, 96} then None
      else if c = 34 then sh_lex Bare w s
      else sh_lex InDouble (Some (started w @ [(c, True)])) s)"

text \<open>
  A word is taken literally when none of its unquoted characters has a meaning for the shell. The
  characters listed are those of the shell's own syntax that are never active inside a word; the
  words \<open>[\<close>, \<open>]\<close> and \<open>{}\<close> are literal when they stand alone.
\<close>

definition inert :: "uchar \<Rightarrow> bool" where
  "inert c \<longleftrightarrow> is_ascii_alphanumeric c \<or> c \<in> set (lit ''_+-./:@%,='')"

definition literal_word :: "qword \<Rightarrow> bool" where
  "literal_word w \<longleftrightarrow>
     list_all (\<lambda>(c, q). q \<or> inert c) w \<or> map fst w \<in> {[91], [93], [123, 125]}"

abbreviation word_text :: "qword \<Rightarrow> rstring" where
  "word_text w \<equiv> map fst w"

abbreviation unquoted :: "qword \<Rightarrow> bool" where
  "unquoted w \<equiv> list_all (\<lambda>(c, q). \<not> q) w"

definition as_assignment :: "qword \<Rightarrow> (rstring \<times> rstring) option" where
  "as_assignment w =
     (let name = takeWhile (\<lambda>(c, q). c \<noteq> 61) w in
      case drop (length name) w of
        [] \<Rightarrow> None
      | eq # v \<Rightarrow>
          if \<not> snd eq \<and> unquoted name \<and> valid_environment_name (word_text name)
          then Some (word_text name, word_text v) else None)"

definition RESERVED_WORDS :: "rstring list" where
  "RESERVED_WORDS = map lit [''!'', ''{'', ''}'', ''case'', ''do'', ''done'', ''elif'', ''else'',
     ''esac'', ''fi'', ''for'', ''if'', ''in'', ''then'', ''until'', ''while'']"

text \<open>The assignment prefix of a simple command and the words after it.\<close>

fun simple_command ::
  "(rstring \<times> rstring) list \<Rightarrow> qword list \<Rightarrow> (rstring \<times> rstring) list \<times> rstring list" where
  "simple_command env [] = (env, [])"
| "simple_command env (w # ws) =
     (case as_assignment w of
        Some a \<Rightarrow> simple_command (env @ [a]) ws
      | None \<Rightarrow> (env, word_text w # map word_text ws))"

definition read_simple ::
  "qword list \<Rightarrow> ((rstring \<times> rstring) list \<times> rstring list) option" where
  "read_simple ws =
     (if ws \<noteq> [] \<and> list_all literal_word ws \<and>
         \<not> (unquoted (hd ws) \<and> word_text (hd ws) \<in> set RESERVED_WORDS)
      then Some (simple_command [] ws) else None)"

fun read_and_list ::
  "qword list \<Rightarrow> sh_token list \<Rightarrow> ((rstring \<times> rstring) list \<times> rstring list) list option" where
  "read_and_list ws [] = map_option (\<lambda>c. [c]) (read_simple ws)"
| "read_and_list ws (QWord w # ts) = read_and_list (ws @ [w]) ts"
| "read_and_list ws (AndIf # ts) =
     (case read_simple ws of
        None \<Rightarrow> None
      | Some c \<Rightarrow> map_option (\<lambda>cs. c # cs) (read_and_list [] ts))"
| "read_and_list ws (OrIf # ts) = None"
| "read_and_list ws (Semi # ts) = None"

definition sh_read :: "rstring \<Rightarrow> ((rstring \<times> rstring) list \<times> rstring list) list option" where
  "sh_read s = (case sh_lex Bare None s of None \<Rightarrow> None | Some ts \<Rightarrow> read_and_list [] ts)"

section \<open>Lemmas: quoting is undone by the shell\<close>

definition quoted_word :: "rstring \<Rightarrow> qword" where
  "quoted_word v = map (\<lambda>c. (c, \<not> list_all posix_safe v)) v"

lemma word_text_quoted [simp]: "word_text (quoted_word v) = v"
  by (simp add: quoted_word_def comp_def)

lemma quoted_word_empty [simp]: "quoted_word [] = []"
  by (simp add: quoted_word_def)

lemma started_simps [simp]: "started None = []" "started (Some w) = w"
  by (simp_all add: started_def)

lemma posix_safe_inert [simp]: "posix_safe c \<Longrightarrow> inert c"
  by (simp add: posix_safe_def inert_def)

lemma posix_safe_not_syntax:
  "posix_safe c \<Longrightarrow> c \<noteq> 0 \<and> c \<noteq> 32 \<and> c \<noteq> 59 \<and> c \<noteq> 38 \<and> c \<noteq> 124 \<and> c \<noteq> 39 \<and> c \<noteq> 34"
  by (auto simp: posix_safe_def char_class_defs lit_simps)

lemma quoted_word_inert: "(c, q) \<in> set (quoted_word v) \<Longrightarrow> q \<or> inert c"
  by (auto simp: quoted_word_def list_all_iff)

lemma literal_quoted [simp]: "literal_word (quoted_word v)"
  using quoted_word_inert [of _ _ v] by (auto simp: literal_word_def list_all_iff)

lemma lex_bare_char:
  "posix_safe c \<Longrightarrow> sh_lex Bare w (c # s) = sh_lex Bare (Some (started w @ [(c, False)])) s"
  using posix_safe_not_syntax [of c] by simp

lemma lex_bare_word:
  "list_all posix_safe v \<Longrightarrow> v \<noteq> [] \<Longrightarrow>
     sh_lex Bare w (v @ rest) = sh_lex Bare (Some (started w @ map (\<lambda>c. (c, False)) v)) rest"
proof (induction v arbitrary: w)
  case (Cons c v)
  then show ?case by (cases "v = []") (simp_all add: lex_bare_char del: sh_lex.simps)
qed simp

lemma replace_char_simps [simp]:
  "replace_char c r [] = []"
  "replace_char c r (d # v) = (if d = c then r else [d]) @ replace_char c r v"
  by (simp_all add: replace_char_def)

lemma lex_single_body:
  "0 \<notin> set v \<Longrightarrow>
     sh_lex InSingle (Some w) (replace_char 39 [39, 34, 39, 34, 39] v @ 39 # rest) =
     sh_lex Bare (Some (w @ map (\<lambda>c. (c, True)) v)) rest"
  by (induction v arbitrary: w) auto

lemma lex_quote_posix:
  assumes "0 \<notin> set v"
  shows "sh_lex Bare w (quote_posix v @ rest) = sh_lex Bare (Some (started w @ quoted_word v)) rest"
proof -
  consider "v = []" | "v \<noteq> []" "list_all posix_safe v" | "v \<noteq> []" "\<not> list_all posix_safe v" by blast
  then show ?thesis
    by cases
      (use assms in \<open>simp_all add: quote_posix_def quoted_word_def lex_bare_word lex_single_body\<close>)
qed

lemma lex_quote_posix_end:
  "0 \<notin> set v \<Longrightarrow> sh_lex Bare w (quote_posix v) = Some [QWord (started w @ quoted_word v)]"
  using lex_quote_posix [of v w "[]"] by simp

lemma lex_space [simp]: "sh_lex Bare w (32 # s) = map_option (flush w) (sh_lex Bare None s)"
  by simp

lemma valid_name_safe:
  "valid_environment_name n \<Longrightarrow> list_all posix_safe n \<and> n \<noteq> [] \<and> 61 \<notin> set n"
  by (cases n) (auto simp: posix_safe_def list_all_iff char_class_defs lit_simps)

definition assignment_word :: "rstring \<Rightarrow> rstring \<Rightarrow> qword" where
  "assignment_word n v = map (\<lambda>c. (c, False)) n @ [(61, False)] @ quoted_word v"

lemma lex_assignment:
  assumes "valid_environment_name n" "0 \<notin> set v"
  shows "sh_lex Bare None (n @ 61 # quote_posix v @ rest) = sh_lex Bare (Some (assignment_word n v)) rest"
proof -
  have "sh_lex Bare None ((n @ [61]) @ quote_posix v @ rest) =
        sh_lex Bare (Some (map (\<lambda>c. (c, False)) (n @ [61]))) (quote_posix v @ rest)"
    using valid_name_safe [OF assms(1)]
    by (subst lex_bare_word) (auto simp: posix_safe_def lit_simps)
  then show ?thesis
    using assms(2) by (simp add: lex_quote_posix assignment_word_def)
qed

lemma takeWhile_no_eq:
  "61 \<notin> set n \<Longrightarrow>
     takeWhile (\<lambda>(c, q). c \<noteq> 61) (map (\<lambda>c. (c, b)) n @ (61, b') # r) = map (\<lambda>c. (c, b)) n"
  by (induction n) auto

lemma as_assignment_word:
  "valid_environment_name n \<Longrightarrow> as_assignment (assignment_word n v) = Some (n, v)"
  using valid_name_safe [of n]
  by (simp add: as_assignment_def assignment_word_def takeWhile_no_eq comp_def list_all_iff)

lemma literal_assignment: "valid_environment_name n \<Longrightarrow> literal_word (assignment_word n v)"
proof -
  assume "valid_environment_name n"
  then have "list_all (\<lambda>(c, q). q \<or> inert c) (map (\<lambda>c. (c, False)) n @ [(61, False)])"
    using valid_name_safe [of n] by (auto simp: list_all_iff inert_def [of 61] lit_simps)
  then show ?thesis
    using quoted_word_inert [of _ _ v] by (auto simp: literal_word_def assignment_word_def list_all_iff)
qed

subsection \<open>What the rendered text is read as\<close>

text \<open>
  A program name is rendered without quotes when all its characters are safe, and the equals sign
  is one of them: a name of the form \<open>NAME=rest\<close> is then an assignment for the shell. So is a
  reserved word, when it is the first word of the command.
\<close>

definition assignment_like :: "rstring \<Rightarrow> bool" where
  "assignment_like p \<longleftrightarrow>
     list_all posix_safe p \<and>
     (case split_once 61 p of None \<Rightarrow> False | Some (n, v) \<Rightarrow> valid_environment_name n)"

definition plain_program :: "RemoteCommandSpec \<Rightarrow> bool" where
  "plain_program spec \<longleftrightarrow>
     \<not> assignment_like (rc_program spec) \<and>
     (rc_environment spec = [] \<longrightarrow>
        \<not> (list_all posix_safe (rc_program spec) \<and> rc_program spec \<in> set RESERVED_WORDS))"

definition intended :: "RemoteCommandSpec \<Rightarrow> ((rstring \<times> rstring) list \<times> rstring list) list" where
  "intended spec =
     (case rc_working_directory spec of
        None \<Rightarrow> [] | Some d \<Rightarrow> [([], [lit ''cd'', safe_cd_operand d])]) @
     [(rc_environment spec, rc_program spec # rc_arguments spec)]"

lemma as_assignment_quoted:
  "as_assignment (quoted_word p) = None \<longleftrightarrow> \<not> assignment_like p"
proof (cases "split_once 61 p")
  case None
  then have "61 \<notin> set p" by (simp add: split_once_None)
  then have "takeWhile (\<lambda>(c, q). c \<noteq> 61) (quoted_word p) = quoted_word p"
    by (auto simp: takeWhile_eq_all_conv quoted_word_def)
  then have "as_assignment (quoted_word p) = None" by (simp only: as_assignment_def Let_def) simp
  with None show ?thesis by (simp add: assignment_like_def)
next
  case (Some nv)
  obtain n v where nv: "nv = (n, v)" by (cases nv)
  then have p: "p = n @ 61 # v" "61 \<notin> set n" using Some by (simp_all add: split_once_Some)
  define b where "b = (\<not> list_all posix_safe p)"
  have q: "quoted_word p = map (\<lambda>c. (c, b)) n @ (61, b) # map (\<lambda>c. (c, b)) v"
    by (simp add: p(1) quoted_word_def b_def)
  have tw: "takeWhile (\<lambda>(c, q). c \<noteq> 61) (quoted_word p) = map (\<lambda>c. (c, b)) n"
    unfolding q by (rule takeWhile_no_eq [OF p(2)])
  have "unquoted (map (\<lambda>c. (c, b)) n) \<longleftrightarrow> \<not> b \<or> n = []"
    by (auto simp: list_all_iff)
  then have "as_assignment (quoted_word p) =
        (if \<not> b \<and> valid_environment_name n then Some (n, v) else None)"
    unfolding as_assignment_def Let_def tw by (auto simp: q comp_def)
  then show ?thesis using Some nv by (simp add: assignment_like_def b_def)
qed

lemma simple_command_env:
  "\<forall>(n, v) \<in> set env. valid_environment_name n \<Longrightarrow>
     simple_command acc (map (\<lambda>(n, v). assignment_word n v) env @ ws) = simple_command (acc @ env) ws"
  by (induction env arbitrary: acc) (auto simp: as_assignment_word)

lemma simple_command_words_le:
  "length (snd (simple_command acc ws)) \<le> length ws"
proof (induction ws arbitrary: acc)
  case (Cons w ws)
  then show ?case by (auto split: option.splits intro: le_SucI)
qed simp

text \<open>The tokens of a simple command rendered with its words separated by blanks.\<close>

definition command_words :: "RemoteCommandSpec \<Rightarrow> qword list" where
  "command_words spec =
     map (\<lambda>(n, v). assignment_word n v) (rc_environment spec) @
     quoted_word (rc_program spec) # map quoted_word (rc_arguments spec)"

lemma lex_environment:
  "\<forall>(n, v) \<in> set env. valid_environment_name n \<and> 0 \<notin> set v \<Longrightarrow>
     sh_lex Bare None (concat (map (\<lambda>(n, v). n @ [61] @ quote_posix v @ [32]) env) @ rest) =
     map_option (\<lambda>ts. map (\<lambda>(n, v). QWord (assignment_word n v)) env @ ts) (sh_lex Bare None rest)"
proof (induction env)
  case (Cons e env)
  then show ?case
    by (cases e) (simp add: lex_assignment option.map_comp comp_def del: sh_lex.simps)
qed (cases "sh_lex Bare None rest"; simp del: sh_lex.simps)

lemma lex_arguments:
  "\<forall>a \<in> set args. 0 \<notin> set a \<Longrightarrow>
     sh_lex Bare (Some w) (concat (map (\<lambda>a. 32 # quote_posix a) args)) =
     Some (QWord w # map (\<lambda>a. QWord (quoted_word a)) args)"
proof (induction args arbitrary: w)
  case (Cons a args)
  then show ?case by (simp add: lex_quote_posix del: sh_lex.simps(2-))
qed simp

lemma read_and_list_words:
  "read_and_list ws (map QWord vs @ ts) = read_and_list (ws @ vs) ts"
  by (induction vs arbitrary: ws) auto

lemma validate_environment_ok:
  "validate_environment names env = Inr () \<longleftrightarrow>
     (\<forall>(n, v) \<in> set env. valid_environment_name n \<and> 0 \<notin> set v) \<and>
     distinct (map fst env) \<and> fst ` set env \<inter> names = {}"
  by (induction names env rule: validate_environment.induct)
     (auto simp: reject_nul_def)

lemma validated_ok:
  "validated spec = Inr () \<longleftrightarrow>
     rc_program spec \<noteq> [] \<and> 0 \<notin> set (rc_program spec) \<and>
     (\<forall>a \<in> set (rc_arguments spec). 0 \<notin> set a) \<and>
     pred_option (\<lambda>d. d \<noteq> [] \<and> 0 \<notin> set d) (rc_working_directory spec) \<and>
     (\<forall>(n, v) \<in> set (rc_environment spec). valid_environment_name n \<and> 0 \<notin> set v) \<and>
     distinct (map fst (rc_environment spec))"
  by (auto simp: validated_def reject_nul_def result_simps validate_environment_ok
        split: option.splits if_splits)

lemma lex_command_words:
  assumes "validated spec = Inr ()"
  shows "sh_lex Bare None
           (concat (map (\<lambda>(name, v). name @ [61] @ quote_posix v @ [32]) (rc_environment spec)) @
            quote_posix (rc_program spec) @
            concat (map (\<lambda>argument. [32] @ quote_posix argument) (rc_arguments spec))) =
         Some (map QWord (command_words spec))"
  using assms unfolding validated_ok
  by (subst lex_environment)
     (simp_all add: lex_quote_posix lex_arguments command_words_def comp_def split_def
        del: sh_lex.simps)

lemma lex_cd:
  assumes "0 \<notin> set d"
  shows "sh_lex Bare None (lit ''cd '' @ quote_posix d @ lit '' && '' @ rest) =
         map_option (\<lambda>ts. QWord (quoted_word (lit ''cd'')) # QWord (quoted_word d) # AndIf # ts)
           (sh_lex Bare None rest)"
proof -
  have cd: "quoted_word [99, 100] = [(99, False), (100, False)]" by code_simp
  show ?thesis
    using assms
    by (simp add: lex_quote_posix lit_simps cd option.map_comp comp_def)
qed

lemma read_simple_command:
  assumes "validated spec = Inr ()"
  shows "read_simple (command_words spec) = Some (rc_environment spec, rc_program spec # rc_arguments spec)
         \<longleftrightarrow> plain_program spec"
proof -
  have env: "\<forall>(n, v) \<in> set (rc_environment spec). valid_environment_name n"
    using assms by (auto simp: validated_ok)
  have literal: "list_all literal_word (command_words spec)"
    using env by (auto simp: command_words_def list_all_iff literal_assignment)
  let ?q = "quoted_word (rc_program spec)" and ?args = "map quoted_word (rc_arguments spec)"
  have parsed: "simple_command [] (command_words spec) = (rc_environment spec, rc_program spec # rc_arguments spec)
        \<longleftrightarrow> \<not> assignment_like (rc_program spec)"
  proof (cases "as_assignment ?q")
    case None
    then show ?thesis
      using as_assignment_quoted [of "rc_program spec"] simple_command_env [OF env]
      by (simp add: command_words_def comp_def)
  next
    case (Some a)
    then have "simple_command [] (command_words spec) = simple_command (rc_environment spec @ [a]) ?args"
      using simple_command_env [OF env] by (simp add: command_words_def)
    then have "length (snd (simple_command [] (command_words spec))) \<le> length (rc_arguments spec)"
      using simple_command_words_le [of "rc_environment spec @ [a]" ?args] by simp
    then show ?thesis
      using Some as_assignment_quoted [of "rc_program spec"] by auto
  qed
  have first: "unquoted (hd (command_words spec)) \<and> word_text (hd (command_words spec)) \<in> set RESERVED_WORDS
        \<longleftrightarrow> rc_environment spec = [] \<and> list_all posix_safe (rc_program spec) \<and>
            rc_program spec \<in> set RESERVED_WORDS"
  proof (cases "rc_environment spec")
    case Nil
    have "rc_program spec \<noteq> []" using assms by (simp add: validated_ok)
    then have "unquoted ?q \<longleftrightarrow> list_all posix_safe (rc_program spec)"
      by (auto simp: quoted_word_def list_all_iff)
    with Nil show ?thesis by (simp add: command_words_def)
  next
    case (Cons e rest)
    then have "61 \<in> set (word_text (hd (command_words spec)))"
      by (cases e) (simp add: command_words_def assignment_word_def)
    moreover have "\<forall>w \<in> set RESERVED_WORDS. 61 \<notin> set w" by code_simp
    ultimately show ?thesis using Cons by (metis list.distinct(1))
  qed
  show ?thesis
    unfolding read_simple_def plain_program_def using literal parsed first
    by (auto simp: command_words_def)
qed

text \<open>A command without environment and directory, its words quoted one by one.\<close>

definition quoted_line :: "rstring \<Rightarrow> rstring list \<Rightarrow> rstring" where
  "quoted_line w args = quote_posix w @ concat (map (\<lambda>a. 32 # quote_posix a) args)"

lemma sh_read_quoted_line:
  assumes "0 \<notin> set w" "\<forall>a \<in> set args. 0 \<notin> set a"
    and "\<not> assignment_like w" "w \<notin> set RESERVED_WORDS"
  shows "sh_read (quoted_line w args) = Some [([], w # args)]"
proof -
  have lex: "sh_lex Bare None (quoted_line w args) = Some (map QWord (map quoted_word (w # args)))"
    using assms(1,2) by (simp add: quoted_line_def lex_quote_posix lex_arguments del: sh_lex.simps)
  have "as_assignment (quoted_word w) = None"
    using assms(3) by (simp add: as_assignment_quoted)
  then have simple: "read_simple (map quoted_word (w # args)) = Some ([], w # args)"
    using assms(4) by (simp add: read_simple_def list_all_iff comp_def)
  show ?thesis
    using lex read_and_list_words [of "[]" "map quoted_word (w # args)" "[]"]
    by (simp only: sh_read_def option.case append_Nil2 append_Nil read_and_list.simps simple option.map)
qed

lemma lex_bare_no_nul:
  assumes "sh_lex Bare w (c # s) = Some ts"
  shows "c \<noteq> 0 \<and> (\<exists>m w' s' ts'. sh_lex m w' s' = Some ts' \<and> (s = s' \<or> (s = c # s')))"
proof -
  have "c \<noteq> 0" using assms by (cases "c = 0") simp_all
  moreover have "\<exists>m w' s' ts'. sh_lex m w' s' = Some ts' \<and> (s = s' \<or> (s = c # s'))"
  proof (cases "c = 38 \<or> c = 124")
    case True
    then show ?thesis using assms by (cases s) (auto split: if_splits)
  next
    case False
    then show ?thesis using assms \<open>c \<noteq> 0\<close> by (simp split: if_splits) blast+
  qed
  ultimately show ?thesis by blast
qed

lemma lex_no_nul: "sh_lex m w s = Some ts \<Longrightarrow> 0 \<notin> set s"
proof (induction "length s" arbitrary: m w s ts rule: less_induct)
  case less
  show ?case
  proof (cases s)
    case (Cons c s')
    have "c \<noteq> 0 \<and> (\<exists>m w r ts'. sh_lex m w r = Some ts' \<and> (s' = r \<or> s' = c # r))"
    proof (cases m)
      case Bare
      then show ?thesis using lex_bare_no_nul less.prems Cons by blast
    qed (use less.prems Cons in \<open>auto split: if_splits\<close>)
    then obtain m' w' r ts' where r: "sh_lex m' w' r = Some ts'" "s' = r \<or> s' = c # r" and "c \<noteq> 0"
      by blast
    moreover have "0 \<notin> set r" using less.hyps [OF _ r(1)] r(2) Cons by auto
    ultimately show ?thesis using Cons by auto
  qed simp
qed

lemma sh_read_no_nul: "sh_read s = Some cs \<Longrightarrow> 0 \<notin> set s"
  by (auto simp: sh_read_def lex_no_nul split: option.splits)

lemma sh_read_posix_text:
  assumes ok: "validated spec = Inr ()"
  shows "sh_read (posix_text spec) = Some (intended spec) \<longleftrightarrow> plain_program spec"
proof (cases "rc_working_directory spec")
  case None
  have "sh_read (posix_text spec) = map_option (\<lambda>c. [c]) (read_simple (command_words spec))"
    using None lex_command_words [OF ok] read_and_list_words [of "[]" "command_words spec" "[]"]
    by (simp add: posix_text_def sh_read_def del: sh_lex.simps)
  then show ?thesis
    using None read_simple_command [OF ok] by (simp add: intended_def)
next
  case (Some d)
  have nul: "0 \<notin> set (safe_cd_operand d)"
    using ok Some by (auto simp: validated_ok safe_cd_operand_def lit_simps)
  have "as_assignment (quoted_word (lit ''cd'')) = None" "lit ''cd'' \<notin> set RESERVED_WORDS"
    by code_simp+
  then have cd: "read_simple [quoted_word (lit ''cd''), quoted_word (safe_cd_operand d)] =
              Some ([], [lit ''cd'', safe_cd_operand d])"
    by (simp add: read_simple_def)
  have "sh_read (posix_text spec) = map_option (\<lambda>c. [([], [lit ''cd'', safe_cd_operand d]), c])
          (read_simple (command_words spec))"
    using Some lex_command_words [OF ok] lex_cd [OF nul]
      read_and_list_words [of "[]" "command_words spec" "[]"]
    by (simp add: posix_text_def sh_read_def cd option.map_comp comp_def del: sh_lex.simps)
  then show ?thesis
    using Some read_simple_command [OF ok] by (simp add: intended_def)
qed

lemma sh_read_sudo:
  assumes "command_for_user command (Sudo user) platform = Inr s" "0 \<notin> set user" "0 \<notin> set command"
  shows "sh_read s = Some [([], [lit ''sudo'', lit ''-n'', lit ''-u'', user, lit ''--'', lit ''sh'',
           lit ''-lc'', command])]"
proof -
  have safe: "quote_posix (lit ''sudo'') = lit ''sudo''" "quote_posix (lit ''-n'') = lit ''-n''"
    "quote_posix (lit ''-u'') = lit ''-u''" "quote_posix (lit ''--'') = lit ''--''"
    "quote_posix (lit ''sh'') = lit ''sh''" "quote_posix (lit ''-lc'') = lit ''-lc''"
    by code_simp+
  have s: "s = quoted_line (lit ''sudo'')
      [lit ''-n'', lit ''-u'', user, lit ''--'', lit ''sh'', lit ''-lc'', command]"
    using assms(1) by (simp only: quoted_line_def list.map concat.simps safe)
      (auto simp add: command_for_user_def lit_simps split: if_splits)
  have "\<not> assignment_like (lit ''sudo'')" "lit ''sudo'' \<notin> set RESERVED_WORDS" by code_simp+
  then show ?thesis
    unfolding s using assms(2,3) by (subst sh_read_quoted_line) (auto simp: lit_simps)
qed

section \<open>Theorems\<close>

text \<open>
  C31. A validated command specification is rendered so that a POSIX shell reads back exactly the
  change of directory, the environment assignments, the program and the arguments it holds, each
  as one literal word, if and only if the program name itself is not taken for an assignment or a
  reserved word.
\<close>

theorem render_posix_reads_back:
  assumes "render_posix spec = Inr s"
  shows "sh_read s = Some (intended spec) \<longleftrightarrow> plain_program spec"
  using assms sh_read_posix_text by (auto simp: render_posix_def result_simps)

definition sample_command :: RemoteCommandSpec where
  "sample_command =
     \<lparr>rc_program = lit ''printf'', rc_arguments = [lit ''%s $HOME;'', [105, 116, 39, 115], []],
      rc_environment = [(lit ''APP_ENV'', lit ''prod west'')],
      rc_working_directory = Some (lit ''-app release'')\<rparr>"

theorem render_posix_reads_back_witness:
  "sh_read (posix_text sample_command) = Some (intended sample_command) \<and>
   sh_read (lit ''A=B'') \<noteq> Some (intended (command_new (lit ''A=B'')))"
proof -
  have "render_posix sample_command = Inr (posix_text sample_command)" by code_simp
  moreover have "plain_program sample_command" by code_simp
  moreover have "render_posix (command_new (lit ''A=B'')) = Inr (lit ''A=B'')" by code_simp
  moreover have "\<not> plain_program (command_new (lit ''A=B''))" by code_simp
  ultimately show ?thesis using render_posix_reads_back by blast
qed

text \<open>
  C32. Rendering and the wrapping for another user together, for a user name without NUL and a specification
  whose program is plain (not of the form \<open>A=B\<close>, which the inner shell would take for an assignment, and without
  environment no reserved word): the shell starts \<open>sudo\<close> with the user name and the whole command as single arguments, and
  the shell that \<open>sudo\<close> starts reads that command back as the specification. On Windows the wrapping
  is refused.
\<close>

theorem exec_spec_as_user:
  assumes "render_posix spec = Inr command" "plain_program spec" "0 \<notin> set user"
  shows "\<exists>s. command_for_user command (Sudo user) Unix = Inr s \<and>
           sh_read s = Some [([], [lit ''sudo'', lit ''-n'', lit ''-u'', user, lit ''--'',
             lit ''sh'', lit ''-lc'', command])] \<and>
           sh_read command = Some (intended spec) \<and>
           command_for_user command (Sudo user) Windows = Inl SudoOnWindows"
proof -
  have "validated spec = Inr ()" "command = posix_text spec"
    using assms(1) by (auto simp: render_posix_def result_simps)
  then have inner: "sh_read command = Some (intended spec)"
    using assms(2) sh_read_posix_text by blast
  obtain s where s: "command_for_user command (Sudo user) Unix = Inr s"
    by (simp add: command_for_user_def)
  show ?thesis
    using s inner sh_read_sudo [OF s assms(3) sh_read_no_nul [OF inner]]
    by (auto simp: command_for_user_def)
qed

theorem exec_spec_as_user_witness:
  "\<exists>s. command_for_user (posix_text sample_command) (Sudo (lit ''deploy user'')) Unix = Inr s \<and>
     sh_read s = Some [([], [lit ''sudo'', lit ''-n'', lit ''-u'', lit ''deploy user'', lit ''--'',
       lit ''sh'', lit ''-lc'', posix_text sample_command])]"
proof -
  have "render_posix sample_command = Inr (posix_text sample_command)" by code_simp
  moreover have "plain_program sample_command" by code_simp
  moreover have "0 \<notin> set (lit ''deploy user'')" by code_simp
  ultimately show ?thesis using exec_spec_as_user by blast
qed

text \<open>The login shell of another user is started with the user name as one argument.\<close>

lemma sudo_login_shell_reads_back:
  assumes "0 \<notin> set user"
  shows "sh_read (sudo_login_shell user) = Some [([], [lit ''sudo'', lit ''-iu'', user])]"
proof -
  have safe: "quote_posix (lit ''sudo'') = lit ''sudo''" "quote_posix (lit ''-iu'') = lit ''-iu''"
    by code_simp+
  have line: "sudo_login_shell user = quoted_line (lit ''sudo'') [lit ''-iu'', user]"
    by (simp only: quoted_line_def list.map concat.simps safe) (simp add: sudo_login_shell_def lit_simps)
  have "\<not> assignment_like (lit ''sudo'')" "lit ''sudo'' \<notin> set RESERVED_WORDS" by code_simp+
  then show ?thesis
    unfolding line using assms by (subst sh_read_quoted_line) (auto simp: lit_simps)
qed

subsection \<open>Proxy commands\<close>

text \<open>
  Specification of the expansion: the template is a sequence of pieces, each literal text or a
  reference to a value; a percent sign before any other character, or at the end, stands for itself.
\<close>

datatype proxy_piece = Literal rstring | HostRef | PortRef | UserRef | AliasRef

fun proxy_pieces :: "rstring \<Rightarrow> proxy_piece list" where
  "proxy_pieces [] = []"
| "proxy_pieces [c] = [Literal [c]]"
| "proxy_pieces (c # d # rest) =
     (if c \<noteq> 37 then Literal [c] # proxy_pieces (d # rest)
      else (if d = 37 then Literal [37] else if d = 104 then HostRef else if d = 112 then PortRef
            else if d = 114 then UserRef else if d = 110 then AliasRef else Literal [37, d])
           # proxy_pieces rest)"

fun piece_value :: "ConnectionConfig \<Rightarrow> proxy_piece \<Rightarrow> rstring" where
  "piece_value config (Literal s) = s"
| "piece_value config HostRef = cc_host config"
| "piece_value config PortRef = dec (unat (cc_port config))"
| "piece_value config UserRef = cc_username config"
| "piece_value config AliasRef = cc_alias config"

definition value_safe :: "rstring \<Rightarrow> bool" where
  "value_safe v \<longleftrightarrow> v \<noteq> [] \<and> list_all proxy_safe v"

lemma validate_proxy_ok:
  "validate_proxy_expansion_value l v = Inr () \<longleftrightarrow> value_safe v"
  by (simp add: validate_proxy_expansion_value_def value_safe_def)

lemma port_text_safe: "value_safe (dec n)"
  using dec_digits [of _ n]
  by (auto simp: value_safe_def list_all_iff proxy_safe_def is_ascii_alphanumeric_def)

lemma expand_proxy_pieces:
  "expand_proxy config out template = Inr s \<longleftrightarrow>
     s = out @ concat (map (piece_value config) (proxy_pieces template)) \<and>
     (\<forall>p \<in> set (proxy_pieces template). (\<forall>t. p \<noteq> Literal t) \<longrightarrow> value_safe (piece_value config p))"
proof (induction config out template rule: expand_proxy.induct)
  case (3 config out c d rest)
  consider "c \<noteq> 37" | "c = 37" "d = 37" | "c = 37" "d = 104" | "c = 37" "d = 112" | "c = 37" "d = 114" | "c = 37" "d = 110"
    | "c = 37" "d \<notin> {37, 104, 112, 114, 110}"
    by blast
  then show ?case
  proof cases
    case 1
    then show ?thesis using "3.IH"(1) by auto
  next
    case 2
    then show ?thesis using "3.IH"(2) by auto
  next
    case 3
    then show ?thesis using "3.IH"(3) by (auto simp: and_then_eq_Inr validate_proxy_ok)
  next
    case 4
    then show ?thesis using "3.IH"(4) by (auto simp: port_text_safe)
  next
    case 5
    then show ?thesis using "3.IH"(5) by (auto simp: and_then_eq_Inr validate_proxy_ok)
  next
    case 6
    then show ?thesis using "3.IH"(6) by (auto simp: and_then_eq_Inr validate_proxy_ok)
  next
    case 7
    then show ?thesis using "3.IH"(7) by auto
  qed
qed auto

text \<open>
  A proxy command is expanded piece by piece, and the expansion succeeds exactly when every
  referenced host name, user name and alias is a non-empty word over letters, digits and
  \<open>._:@+-[]\<close>: no referenced value can add a blank, a quote, an operator or an expansion to the
  command line handed to the local shell.
\<close>

theorem proxy_command_expansion:
  "expand_proxy_command template config = Inr s \<longleftrightarrow>
     s = concat (map (piece_value config) (proxy_pieces template)) \<and>
     (\<forall>p \<in> set (proxy_pieces template). (\<forall>t. p \<noteq> Literal t) \<longrightarrow> value_safe (piece_value config p))"
  by (simp add: expand_proxy_command_def expand_proxy_pieces)

theorem proxy_command_expansion_witness:
  "expand_proxy_command (lit ''nc -X 5 %h %p %%'') (config_new (lit ''db.example'') (lit ''root''))
     = Inr (lit ''nc -X 5 db.example 22 %'')"
proof -
  have "\<forall>p \<in> set (proxy_pieces (lit ''nc -X 5 %h %p %%'')).
          (case p of Literal t \<Rightarrow> True
           | _ \<Rightarrow> value_safe (piece_value (config_new (lit ''db.example'') (lit ''root'')) p))"
    by code_simp
  then have "\<forall>p \<in> set (proxy_pieces (lit ''nc -X 5 %h %p %%'')). (\<forall>t. p \<noteq> Literal t) \<longrightarrow>
          value_safe (piece_value (config_new (lit ''db.example'') (lit ''root'')) p)"
    by (fastforce split: proxy_piece.splits)
  moreover have "lit ''nc -X 5 db.example 22 %'' = concat (map (piece_value
      (config_new (lit ''db.example'') (lit ''root''))) (proxy_pieces (lit ''nc -X 5 %h %p %%'')))"
    by code_simp
  ultimately show ?thesis
    by (intro proxy_command_expansion [THEN iffD2] conjI)
qed

subsection \<open>Windows command lines\<close>

text \<open>
  Specification: how \<open>cmd.exe\<close> splits a line into commands. A double quote switches the quoted
  state; outside quotes \<open>&&\<close> separates commands, and a line with a single \<open>&\<close>, a pipe, a
  redirection, a caret, an end of line or an open quote is not read at all.
\<close>

fun cmd_split :: "bool \<Rightarrow> rstring \<Rightarrow> rstring \<Rightarrow> rstring list option" where
  "cmd_split q cur [] = (if q then None else Some [cur])"
| "cmd_split q cur (c # s) =
     (if c = 10 \<or> c = 13 then None
      else if c = 34 then cmd_split (\<not> q) (cur @ [c]) s
      else if q then cmd_split q (cur @ [c]) s
      else if c = 38 then
        (case s of
           [] \<Rightarrow> None
         | d # s' \<Rightarrow> if d = 38 then map_option (\<lambda>cs. cur # cs) (cmd_split False [] s') else None)
      else if c \<in> {124, 60, 62, 94} then None
      else cmd_split q (cur @ [c]) s)"

definition one_line :: "rstring \<Rightarrow> bool" where
  "one_line v \<longleftrightarrow> 10 \<notin> set v \<and> 13 \<notin> set v"

text \<open>A text that stays inside one command wherever it is put outside quotes.\<close>

definition cmd_closed :: "rstring \<Rightarrow> bool" where
  "cmd_closed v \<longleftrightarrow> (\<forall>cur rest. cmd_split False cur (v @ rest) = cmd_split False (cur @ v) rest)"

lemma cmd_closed_append: "cmd_closed u \<Longrightarrow> cmd_closed v \<Longrightarrow> cmd_closed (u @ v)"
  by (simp add: cmd_closed_def)

lemma cmd_closed_concat: "\<forall>v \<in> set vs. cmd_closed v \<Longrightarrow> cmd_closed (concat vs)"
  by (induction vs) (simp_all add: cmd_closed_append, simp add: cmd_closed_def)

lemma cmd_closed_plain:
  "list_all (\<lambda>c. c \<notin> {10, 13, 34, 38, 124, 60, 62, 94}) v \<Longrightarrow> cmd_closed v"
proof (induction v)
  case (Cons c v)
  then have "cmd_closed [c]" "cmd_closed v" by (auto simp: cmd_closed_def)
  then show ?case using cmd_closed_append [of "[c]" v] by simp
qed (simp add: cmd_closed_def)

lemma cmd_split_body:
  "one_line v \<Longrightarrow>
     cmd_split True cur (replace_char 34 [34, 34] v @ 34 # rest) =
     cmd_split False (cur @ replace_char 34 [34, 34] v @ [34]) rest"
  by (induction v arbitrary: cur) (auto simp: one_line_def)

lemma cmd_closed_quote:
  assumes "one_line v"
  shows "cmd_closed (quote_cmd v)"
proof (cases "v \<noteq> [] \<and> \<not> list_ex cmd_special v")
  case True
  then have "list_all (\<lambda>c. c \<notin> {10, 13, 34, 38, 124, 60, 62, 94}) v"
    using assms by (auto simp: list_all_iff list_ex_iff cmd_special_def one_line_def)
  then show ?thesis using True by (simp add: quote_cmd_def cmd_closed_plain)
next
  case False
  then have "quote_cmd v = [34] @ replace_char 34 [34, 34] v @ [34]" by (auto simp: quote_cmd_def)
  then show ?thesis using cmd_split_body [OF assms] by (simp add: cmd_closed_def)
qed

fun cmd_join :: "rstring list \<Rightarrow> rstring" where
  "cmd_join [] = []"
| "cmd_join [c] = c"
| "cmd_join (c # d # cs) = c @ lit '' && '' @ cmd_join (d # cs)"

text \<open>The blanks around \<open>&&\<close> belong to the commands on both sides.\<close>

fun with_blanks :: "rstring \<Rightarrow> rstring list \<Rightarrow> rstring list" where
  "with_blanks lead [] = []"
| "with_blanks lead [c] = [lead @ c]"
| "with_blanks lead (c # d # cs) = (lead @ c @ [32]) # with_blanks [32] (d # cs)"

lemma cmd_split_join:
  "\<forall>c \<in> set cs. cmd_closed c \<Longrightarrow> cs \<noteq> [] \<Longrightarrow>
     cmd_split False lead (cmd_join cs) = Some (with_blanks lead cs)"
proof (induction lead cs rule: with_blanks.induct)
  case (2 lead c)
  then have "\<forall>rest. cmd_split False lead (c @ rest) = cmd_split False (lead @ c) rest"
    by (simp add: cmd_closed_def)
  from spec [OF this, of "[]"]
  show ?case by simp
next
  case (3 lead c d cs)
  then have "cmd_split False lead (c @ lit '' && '' @ cmd_join (d # cs)) =
      cmd_split False (lead @ c) (lit '' && '' @ cmd_join (d # cs))"
    by (simp add: cmd_closed_def)
  then show ?case using 3 by (simp add: lit_simps)
qed simp

definition cmd_commands :: "RemoteCommandSpec \<Rightarrow> rstring list" where
  "cmd_commands spec =
     (case rc_working_directory spec of None \<Rightarrow> [] | Some d \<Rightarrow> [lit ''cd /d '' @ quote_cmd d]) @
     map (\<lambda>(n, v). lit ''set '' @ n @ [61] @ quote_cmd v) (rc_environment spec) @
     [quote_cmd (if eq_ignore_ascii_case (rc_program spec) (lit ''cmd'') then lit ''cmd.exe''
                 else rc_program spec) @
      concat (map (\<lambda>a. [32] @ quote_cmd a) (rc_arguments spec))]"

lemma cmd_join_environment:
  "cmd_join (map (\<lambda>(n, v). lit ''set '' @ n @ [61] @ quote_cmd v) env @ [c]) =
     concat (map (\<lambda>(n, v). lit ''set '' @ n @ [61] @ quote_cmd v @ lit '' && '') env) @ c"
proof (induction env)
  case (Cons e env)
  have join: "xs \<noteq> [] \<Longrightarrow> cmd_join (x # xs) = x @ lit '' && '' @ cmd_join xs" for x xs
    by (cases xs) simp_all
  show ?case using Cons by (cases e) (simp add: join)
qed simp

lemma cmd_text_join: "cmd_text spec = cmd_join (cmd_commands spec)"
proof -
  have join: "xs \<noteq> [] \<Longrightarrow> cmd_join (x # xs) = x @ lit '' && '' @ cmd_join xs" for x xs
    by (cases xs) simp_all
  show ?thesis
    using cmd_join_environment
    by (cases "rc_working_directory spec") (simp_all add: cmd_text_def cmd_commands_def join)
qed

definition single_line :: "RemoteCommandSpec \<Rightarrow> bool" where
  "single_line spec \<longleftrightarrow>
     one_line (rc_program spec) \<and> list_all one_line (rc_arguments spec) \<and>
     list_all (\<lambda>e. one_line (snd e)) (rc_environment spec) \<and>
     pred_option one_line (rc_working_directory spec)"

lemma cmd_commands_closed:
  assumes "validated spec = Inr ()" "single_line spec" "c \<in> set (cmd_commands spec)"
  shows "cmd_closed c"
proof -
  have quote: "cmd_closed (lit ''cmd.exe'')" "cmd_closed (lit ''cd /d '')" "cmd_closed [32]"
    by (rule cmd_closed_plain, simp add: lit_simps)+
  have env: "cmd_closed (lit ''set '' @ n @ [61] @ quote_cmd v)" if "(n, v) \<in> set (rc_environment spec)" for n v
  proof -
    have "valid_environment_name n" "one_line v"
      using that assms(1,2) by (auto simp: validated_ok single_line_def list_all_iff)
    moreover from this have "cmd_closed (lit ''set '' @ n @ [61])"
      by (intro cmd_closed_plain, cases n) (auto simp: list_all_iff char_class_defs lit_simps)
    ultimately show ?thesis
      using cmd_closed_append [OF _ cmd_closed_quote, of "lit ''set '' @ n @ [61]" v] by simp
  qed
  have "one_line (lit ''cmd.exe'')" by code_simp
  then have line: "cmd_closed (quote_cmd (if eq_ignore_ascii_case (rc_program spec) (lit ''cmd'')
        then lit ''cmd.exe'' else rc_program spec) @
      concat (map (\<lambda>a. [32] @ quote_cmd a) (rc_arguments spec)))"
    using assms(2)
    by (intro cmd_closed_append cmd_closed_quote cmd_closed_concat)
       (auto simp: single_line_def list_all_iff intro: cmd_closed_append [OF quote(3), simplified] cmd_closed_quote)
  consider d where "rc_working_directory spec = Some d" "c = lit ''cd /d '' @ quote_cmd d"
    | n v where "(n, v) \<in> set (rc_environment spec)" "c = lit ''set '' @ n @ [61] @ quote_cmd v"
    | "c = quote_cmd (if eq_ignore_ascii_case (rc_program spec) (lit ''cmd'')
        then lit ''cmd.exe'' else rc_program spec) @
      concat (map (\<lambda>a. [32] @ quote_cmd a) (rc_arguments spec))"
    using assms(3) unfolding cmd_commands_def by (cases "rc_working_directory spec") auto
  then show ?thesis
  proof cases
    case 1
    then show ?thesis
      using assms(2) quote(2) by (simp add: single_line_def cmd_closed_append cmd_closed_quote)
  next
    case 2
    then show ?thesis using env by blast
  next
    case 3
    then show ?thesis using line by blast
  qed
qed

text \<open>
  For a Windows server the rendered line is split by \<open>cmd.exe\<close> into exactly the commands of the
  specification: no character of a program, an argument, a value or a directory starts another
  command, as long as none of them contains an end of line. The blank before \<open>&&\<close> becomes part of
  the \<open>set\<close> command, hence of the variable's value.
\<close>

theorem render_cmd_splits:
  assumes "render_cmd spec = Inr s" "single_line spec"
  shows "cmd_split False [] s = Some (with_blanks [] (cmd_commands spec))"
proof -
  have "validated spec = Inr ()" "s = cmd_text spec"
    using assms(1) by (auto simp: render_cmd_def result_simps)
  moreover have "cmd_commands spec \<noteq> []" by (simp add: cmd_commands_def)
  ultimately show ?thesis
    using cmd_split_join cmd_commands_closed [OF _ assms(2)] by (simp add: cmd_text_join)
qed

theorem render_cmd_splits_witness:
  "cmd_split False [] (cmd_text sample_command) =
     Some (with_blanks [] (cmd_commands sample_command))"
proof -
  have "render_cmd sample_command = Inr (cmd_text sample_command)" by code_simp
  moreover have "single_line sample_command" by code_simp
  ultimately show ?thesis by (rule render_cmd_splits)
qed

end
