(* ===== verification/Remote_Path.thy ===== *)
theory Remote_Path
  imports Rust_Text
begin

section \<open>Remote relative paths\<close>

text \<open>
  Model of \<open>remote_path.rs\<close> of the transfer crate: the checks on names returned by a server's
  directory listing and on the relative paths of a synchronisation plan, and the two ways such a
  path is used, below a remote root and as a local path. \<open>Path::components\<close> and \<open>PathBuf::push\<close>
  are the standard library's for Unix; the lexical meaning of a path (dot entries dropped, a
  parent entry removing the entry before it) is \<open>resolve_components\<close>, used in the statements only.
\<close>

datatype (plugins only: code size) path_error =
    EntryEmpty | EntryTraversal rstring | EntryNotSingle rstring | EntryControl
  | EntryColon rstring | EntryTrailing rstring | EntryReserved rstring
  | PathEmpty | PathNotRelative rstring | PathNul | PathNotNormal rstring

definition RESERVED_STEMS :: "rstring list" where
  "RESERVED_STEMS = map lit [
    ''CON'', ''PRN'', ''AUX'', ''NUL'', ''COM1'', ''COM2'', ''COM3'', ''COM4'', ''COM5'', ''COM6'',
    ''COM7'', ''COM8'', ''COM9'', ''LPT1'', ''LPT2'', ''LPT3'', ''LPT4'', ''LPT5'', ''LPT6'',
    ''LPT7'', ''LPT8'', ''LPT9'']"

definition validate_remote_child_name :: "rstring \<Rightarrow> path_error + unit" where
  "validate_remote_child_name name =
     (if name = [] then Inl EntryEmpty
      else if name = lit ''.'' \<or> name = lit ''..'' then Inl (EntryTraversal name)
      else if 47 \<in> set name \<or> 92 \<in> set name then Inl (EntryNotSingle name)
      else if list_ex is_control name then Inl EntryControl
      else if 58 \<in> set name then Inl (EntryColon name)
      else if ends_with (lit ''.'') name \<or> ends_with (lit '' '') name then Inl (EntryTrailing name)
      else if to_ascii_uppercase (hd (split_on (\<lambda>c. c = 46) name)) \<in> set RESERVED_STEMS
      then Inl (EntryReserved name)
      else Inr ())"

definition validate_remote_relative_path :: "rstring \<Rightarrow> path_error + unit" where
  "validate_remote_relative_path path =
     (if path = [] then Inl PathEmpty
      else if starts_with [47] path \<or> starts_with [92] path then Inl (PathNotRelative path)
      else if 0 \<in> set path then Inl PathNul
      else try_each validate_remote_child_name (split_on (\<lambda>c. c = 47) path))"

definition join_remote_under_root :: "rstring \<Rightarrow> rstring \<Rightarrow> path_error + rstring" where
  "join_remote_under_root root relative =
     and_then (validate_remote_relative_path relative) (\<lambda>_.
       Inr (if root = [] \<or> root = lit ''.'' then relative
            else if root = lit ''/'' then 47 # relative
            else if ends_with [47] root then root @ relative
            else root @ [47] @ relative))"

subsection \<open>Paths of the standard library (Unix)\<close>

datatype Component = RootDir | CurDir | ParentDir | Normal rstring

definition component_of :: "rstring \<Rightarrow> Component" where
  "component_of w = (if w = lit ''..'' then ParentDir else Normal w)"

definition body_components :: "rstring list \<Rightarrow> Component list" where
  "body_components ws = map component_of (filter (\<lambda>w. w \<noteq> [] \<and> w \<noteq> lit ''.'') ws)"

definition components :: "rstring \<Rightarrow> Component list" where
  "components p =
     (let ws = split_on (\<lambda>c. c = 47) p in
      (if starts_with [47] p then [RootDir] else if hd ws = lit ''.'' then [CurDir] else []) @
      body_components ws)"

definition path_push :: "rstring \<Rightarrow> rstring \<Rightarrow> rstring" where
  "path_push p c =
     (if starts_with [47] c then c
      else if p = [] \<or> ends_with [47] p then p @ c
      else p @ [47] @ c)"

fun push_components :: "rstring \<Rightarrow> rstring list \<Rightarrow> path_error + rstring" where
  "push_components path [] = Inr path"
| "push_components path (c # cs) =
     (case components c of
        [Normal _] \<Rightarrow> push_components (path_push path c) cs
      | _ \<Rightarrow> Inl (PathNotNormal c))"

definition local_path_from_remote_relative :: "rstring \<Rightarrow> path_error + rstring" where
  "local_path_from_remote_relative relative =
     and_then (validate_remote_relative_path relative) (\<lambda>_.
       push_components [] (split_on (\<lambda>c. c = 47) relative))"

subsection \<open>Lexical resolution\<close>

fun resolve_step :: "Component list \<Rightarrow> Component \<Rightarrow> Component list" where
  "resolve_step acc RootDir = [RootDir]"
| "resolve_step acc CurDir = acc"
| "resolve_step acc ParentDir =
     (case rev acc of
        [] \<Rightarrow> [ParentDir]
      | Normal _ # rest \<Rightarrow> rev rest
      | RootDir # _ \<Rightarrow> acc
      | _ \<Rightarrow> acc @ [ParentDir])"
| "resolve_step acc (Normal w) = acc @ [Normal w]"

definition resolve_components :: "Component list \<Rightarrow> Component list" where
  "resolve_components cs = foldl resolve_step [] cs"

lemma resolve_append_normal:
  "resolve_components (cs @ map Normal ws) = resolve_components cs @ map Normal ws"
proof -
  have "foldl resolve_step acc (map Normal ws) = acc @ map Normal ws" for acc
    by (induction ws arbitrary: acc) auto
  then show ?thesis by (simp add: resolve_components_def)
qed

subsection \<open>Splitting and joining\<close>

lemma split_on_append: "q c \<Longrightarrow> split_on q (a @ c # b) = split_on q a @ split_on q b"
  by (induction a) (auto split: list.splits)

lemma split_on_single: "\<forall>c \<in> set s. \<not> q c \<Longrightarrow> split_on q s = [s]"
  by (induction s) auto

definition plain_name :: "rstring \<Rightarrow> bool" where
  "plain_name w \<longleftrightarrow> w \<noteq> [] \<and> w \<noteq> lit ''.'' \<and> w \<noteq> lit ''..'' \<and> 47 \<notin> set w"

lemma validate_child_plain: "validate_remote_child_name w = Inr () \<Longrightarrow> plain_name w"
  by (auto simp: validate_remote_child_name_def plain_name_def split: if_splits)

lemma validate_relative_plain:
  assumes "validate_remote_relative_path p = Inr ()"
  shows "\<forall>w \<in> set (split_on (\<lambda>c. c = 47) p). plain_name w"
  using assms validate_child_plain
  by (auto simp: validate_remote_relative_path_def try_each_ok split: if_splits)

lemma body_plain: "\<forall>w \<in> set ws. plain_name w \<Longrightarrow> body_components ws = map Normal ws"
  by (induction ws) (auto simp: body_components_def plain_name_def component_of_def)

lemma body_append: "body_components (vs @ ws) = body_components vs @ body_components ws"
  by (simp add: body_components_def)

lemma body_components_Nil [simp]: "body_components [[]] = []"
  by (simp add: body_components_def)

lemma components_under:
  assumes "\<forall>w \<in> set (split_on (\<lambda>c. c = 47) rel). plain_name w" and "root \<noteq> []"
  shows "components (root @ 47 # rel) = components root @ map Normal (split_on (\<lambda>c. c = 47) rel)"
proof -
  have "starts_with [47] (root @ 47 # rel) = starts_with [47] root"
    using assms(2) by (cases root) auto
  then show ?thesis
    using assms(1) by (simp add: components_def split_on_append body_append body_plain)
qed

lemma components_trailing_slash:
  assumes "\<forall>w \<in> set (split_on (\<lambda>c. c = 47) rel). plain_name w"
  shows "components (r @ 47 # rel) =
    components (r @ [47]) @ map Normal (split_on (\<lambda>c. c = 47) rel)"
proof -
  have "starts_with [47] (r @ 47 # rel) = starts_with [47] (r @ [47])" by (cases r) auto
  then show ?thesis
    using assms by (simp add: components_def split_on_append body_append body_plain)
qed

lemma components_relative:
  assumes "\<forall>w \<in> set (split_on (\<lambda>c. c = 47) rel). plain_name w"
  shows "components rel = map Normal (split_on (\<lambda>c. c = 47) rel)"
proof -
  have "plain_name (hd (split_on (\<lambda>c. c = 47) rel))" using assms by (simp add: hd_in_set)
  moreover have "\<not> starts_with [47] rel"
  proof
    assume "starts_with [47] rel"
    then obtain t where "rel = 47 # t" by (auto simp: starts_with_iff)
    with calculation show False by (simp add: plain_name_def)
  qed
  ultimately show ?thesis using assms by (simp add: components_def body_plain plain_name_def)
qed

lemma resolve_CurDir: "resolve_components (components (lit ''.'')) = []"
  by code_simp

lemma join_resolves:
  assumes "join_remote_under_root root rel = Inr p"
  shows "resolve_components (components p) =
    resolve_components (components root) @ map Normal (split_on (\<lambda>c. c = 47) rel)"
proof -
  have v: "validate_remote_relative_path rel = Inr ()"
    using assms by (auto simp: join_remote_under_root_def and_then_eq_Inr)
  note plain = validate_relative_plain [OF v]
  consider "root = [] \<or> root = lit ''.''" "p = rel" | r where "root = r @ [47]" "p = r @ 47 # rel"
    | "root \<noteq> []" "p = root @ 47 # rel"
    using assms v
    by (auto simp: join_remote_under_root_def ends_with_iff lit_simps split: if_splits)
  then show ?thesis
  proof cases
    case 1
    then have "resolve_components (components root) = []"
      using resolve_CurDir by (auto simp: components_def body_components_def resolve_components_def)
    then show ?thesis
      using 1 resolve_append_normal [of "[]"]
      by (simp add: components_relative [OF plain] resolve_components_def)
  next
    case 2
    then show ?thesis using components_trailing_slash [OF plain] resolve_append_normal by simp
  next
    case 3
    then show ?thesis using components_under [OF plain] resolve_append_normal by simp
  qed
qed

fun slash_join :: "rstring list \<Rightarrow> rstring" where
  "slash_join [] = []"
| "slash_join [w] = w"
| "slash_join (w # ws) = w @ [47] @ slash_join ws"

lemma slash_join_split: "slash_join (split_on (\<lambda>c. c = 47) s) = s"
proof (induction s)
  case (Cons c s)
  then show ?case
    by (cases "split_on (\<lambda>c. c = 47) s" rule: slash_join.cases) (auto simp: neq_Nil_conv)
qed simp

lemma ends_with_append: "w \<noteq> [] \<Longrightarrow> ends_with [47] (p @ w) = ends_with [47] w"
  by (cases "rev w") (auto simp: ends_with_def)

lemma push_plain:
  assumes "\<forall>w \<in> set ws. plain_name w" and "p = [] \<or> \<not> ends_with [47] p"
  shows "push_components p ws =
    Inr (if p = [] then slash_join ws else if ws = [] then p else p @ [47] @ slash_join ws)"
  using assms
proof (induction ws arbitrary: p)
  case (Cons w ws)
  have w: "plain_name w" using Cons.prems by simp
  then have "split_on (\<lambda>c. c = 47) w = [w]"
    by (intro split_on_single) (auto simp: plain_name_def)
  with w have comp: "components w = [Normal w]" using components_relative [of w] by simp
  have ends: "\<not> ends_with [47] w" "\<not> starts_with [47] w" "w \<noteq> []"
    using w by (auto simp: plain_name_def ends_with_iff starts_with_iff)
  then have "\<not> ends_with [47] (path_push p w)" "path_push p w \<noteq> []"
    using Cons.prems(2) by (auto simp: path_push_def ends_with_append [of w "p @ [47]", simplified])
  then show ?case
    using Cons comp ends by (cases ws) (auto simp: path_push_def)
qed simp

subsection \<open>Properties of remote paths\<close>

text \<open>
  C17. A joined remote path never leaves the root. Whatever the root and whatever relative path the
  server or the plan supplies, when \<open>join_remote_under_root\<close> accepts it the result names, after
  resolving dot and parent entries, exactly the root's own location followed by the components of
  the relative path.
\<close>

theorem join_stays_under_root:
  assumes "join_remote_under_root root relative = Inr path"
  shows "resolve_components (components path) =
    resolve_components (components root) @ map Normal (split_on (\<lambda>c. c = 47) relative)"
  using assms by (rule join_resolves)

theorem join_stays_under_root_witness:
  "resolve_components (components (lit ''/srv/../data/a/b'')) =
   [RootDir, Normal (lit ''data''), Normal (lit ''a''), Normal (lit ''b'')]"
proof -
  have "join_remote_under_root (lit ''/srv/../data/'') (lit ''a/b'') = Inr (lit ''/srv/../data/a/b'')"
    by code_simp
  from join_stays_under_root [OF this] show ?thesis
    by (simp add: resolve_components_def) code_simp
qed

text \<open>
  On Unix a validated relative path is always usable as a local path: every component is an
  ordinary file name, the conversion succeeds and gives the same text, which is relative and
  resolves to its own components below the download root.
\<close>

theorem local_path_of_validated:
  assumes "validate_remote_relative_path relative = Inr ()"
  shows "local_path_from_remote_relative relative = Inr relative \<and>
    components relative = map Normal (split_on (\<lambda>c. c = 47) relative) \<and>
    resolve_components (components relative) = components relative"
  using assms validate_relative_plain [OF assms] components_relative [of relative]
    push_plain [of "split_on (\<lambda>c. c = 47) relative" "[]"] resolve_append_normal [of "[]"]
  by (simp add: local_path_from_remote_relative_def slash_join_split resolve_components_def)

theorem local_path_of_validated_witness:
  "local_path_from_remote_relative (lit ''logs/app.log'') = Inr (lit ''logs/app.log'')"
proof -
  have "validate_remote_relative_path (lit ''logs/app.log'') = Inr ()" by code_simp
  then show ?thesis using local_path_of_validated by simp
qed

end
