(* ===== verification/Transfer_Task.thy ===== *)
theory Transfer_Task
  imports Machine BTree_Map Rust_Text
begin

section \<open>The transfer task registry (kaduox-ssh-transfer/src/transfer\_task.rs)\<close>

text \<open>
  The registry of uploads and downloads that the applications show, cancel and retry. Every
  method holds the registry mutex for its whole body, so concurrent callers interleave whole
  calls: a history of commands is any interleaving. The map of tasks is keyed by the task id, the
  shared cancellation flag of a task (an \<open>Arc<AtomicBool>\<close>) is a field of its record, and
  \<open>token_cancel\<close> is a holder of a clone setting it. Poisoning of the mutex is not modelled.
\<close>

type_synonym task_id = u64

datatype (plugins only: code size) task_error =
    RetentionZero | RetentionTooLarge | TextEmpty | TextTooLarge
  | DestinationBusy rstring | RegistryFull nat | IdOverflow
  | UnknownTask task_id | NotRetryable task_id | NotQueued task_id | NotRunning task_id
  | WrongDirection task_id | NotCancellable task_id

definition DEFAULT_TRANSFER_TASK_RETENTION :: nat where "DEFAULT_TRANSFER_TASK_RETENTION = 128"
definition MAX_TRANSFER_TASK_RETENTION :: nat where "MAX_TRANSFER_TASK_RETENTION = 1024"
definition MAX_TRANSFER_TASK_TEXT_BYTES :: nat where "MAX_TRANSFER_TASK_TEXT_BYTES = 16 * 1024"

lemmas task_limits =
  DEFAULT_TRANSFER_TASK_RETENTION_def MAX_TRANSFER_TASK_RETENTION_def
  MAX_TRANSFER_TASK_TEXT_BYTES_def

datatype TransferDirection = Upload | Download

datatype TransferTaskKind = UploadFile | UploadDirectory | DownloadFile | DownloadDirectory

fun direction :: "TransferTaskKind \<Rightarrow> TransferDirection" where
  "direction UploadFile = Upload"
| "direction UploadDirectory = Upload"
| "direction DownloadFile = Download"
| "direction DownloadDirectory = Download"

fun recursive :: "TransferTaskKind \<Rightarrow> bool" where
  "recursive UploadDirectory = True"
| "recursive DownloadDirectory = True"
| "recursive _ = False"

datatype TransferTaskState = Queued | Running | Completed | Cancelled | Failed

fun is_terminal :: "TransferTaskState \<Rightarrow> bool" where
  "is_terminal Completed = True"
| "is_terminal Cancelled = True"
| "is_terminal Failed = True"
| "is_terminal _ = False"

record TransferEvent =
  e_direction :: TransferDirection
  e_path :: rstring
  e_bytes_transferred :: u64
  e_total_bytes :: "u64 option"
  e_completed :: bool

record TransferSummary =
  files :: u64
  directories :: u64
  sum_bytes :: u64
  skipped :: u64

record TransferTaskProgress =
  p_path :: rstring
  p_bytes_transferred :: u64
  p_total_bytes :: "u64 option"
  p_completed :: bool

record TransferTaskSnapshot =
  s_id :: task_id
  s_kind :: TransferTaskKind
  s_source :: rstring
  s_destination :: rstring
  s_state :: TransferTaskState
  s_cancel_requested :: bool
  s_progress :: "TransferTaskProgress option"
  s_summary :: "TransferSummary option"
  s_error :: "rstring option"
  s_retry_of :: "task_id option"

record TaskRecord =
  snapshot :: TransferTaskSnapshot
  cancelled :: bool

record RegistryInner =
  next_id :: u64
  max_retained :: nat
  tasks :: "(task_id, TaskRecord) btmap"
  order :: "task_id list"

type_synonym 'a task_call = "(task_error + 'a) \<times> RegistryInner"

subsection \<open>Texts\<close>

fun is_char_boundary :: "rstring \<Rightarrow> nat \<Rightarrow> bool" where
  "is_char_boundary [] k = (k = 0)"
| "is_char_boundary (c # s) k =
     (k = 0 \<or> (utf8_len c \<le> k \<and> is_char_boundary s (k - utf8_len c)))"

text \<open>\<open>value[..end]\<close> for a byte index at a boundary.\<close>

fun slice_to :: "rstring \<Rightarrow> nat \<Rightarrow> rstring" where
  "slice_to [] k = []"
| "slice_to (c # s) k = (if utf8_len c \<le> k then c # slice_to s (k - utf8_len c) else [])"

fun floor_boundary :: "rstring \<Rightarrow> nat \<Rightarrow> nat" where
  "floor_boundary s 0 = 0"
| "floor_boundary s (Suc k) =
     (if is_char_boundary s (Suc k) then Suc k else floor_boundary s k)"

definition bounded_text :: "rstring \<Rightarrow> rstring" where
  "bounded_text value =
     (if str_len value \<le> MAX_TRANSFER_TASK_TEXT_BYTES then value
      else slice_to value (floor_boundary value MAX_TRANSFER_TASK_TEXT_BYTES) @ lit ''...'')"

definition validate_task_text :: "rstring \<Rightarrow> task_error + unit" where
  "validate_task_text value =
     (if value = [] then Inl TextEmpty
      else if MAX_TRANSFER_TASK_TEXT_BYTES < str_len value then Inl TextTooLarge
      else Inr ())"

definition validate_retention :: "nat \<Rightarrow> task_error + unit" where
  "validate_retention n =
     (if n = 0 then Inl RetentionZero
      else if MAX_TRANSFER_TASK_RETENTION < n then Inl RetentionTooLarge
      else Inr ())"

subsection \<open>Creating a registry\<close>

definition empty_registry :: "nat \<Rightarrow> RegistryInner" where
  "empty_registry n = \<lparr>next_id = 1, max_retained = n, tasks = [], order = []\<rparr>"

definition registry_default :: RegistryInner where
  "registry_default = empty_registry DEFAULT_TRANSFER_TASK_RETENTION"

definition registry_new :: "nat \<Rightarrow> task_error + RegistryInner" where
  "registry_new n = and_then (validate_retention n) (\<lambda>_. Inr (empty_registry n))"

subsection \<open>Registration\<close>

definition position :: "('a \<Rightarrow> bool) \<Rightarrow> 'a list \<Rightarrow> nat option" where
  "position P xs =
     (let i = length (takeWhile (\<lambda>x. \<not> P x) xs) in if i < length xs then Some i else None)"

definition evictable :: "RegistryInner \<Rightarrow> task_id \<Rightarrow> bool" where
  "evictable r i = (case bt_get (tasks r) i of
       None \<Rightarrow> True
     | Some record \<Rightarrow> is_terminal (s_state (snapshot record)))"

function make_capacity :: "RegistryInner \<Rightarrow> unit task_call" where
  "make_capacity r =
     (if max_retained r \<le> length (tasks r) then
        (case position (evictable r) (order r) of
           None \<Rightarrow> (Inl (RegistryFull (length (tasks r))), r)
         | Some p \<Rightarrow>
             make_capacity (r\<lparr>order := take p (order r) @ drop (Suc p) (order r),
               tasks := bt_remove (order r ! p) (tasks r)\<rparr>))
      else (Inr (), r))"
  by pat_completeness auto
termination
  by (relation "measure (\<lambda>r. length (order r))") (auto simp: position_def Let_def split: if_splits)

declare make_capacity.simps [simp del]

definition conflicts :: "TransferTaskKind \<Rightarrow> rstring \<Rightarrow> TaskRecord \<Rightarrow> bool" where
  "conflicts kind destination record \<longleftrightarrow>
     \<not> is_terminal (s_state (snapshot record)) \<and>
     direction (s_kind (snapshot record)) = direction kind \<and>
     s_destination (snapshot record) = destination"

definition new_snapshot ::
  "task_id \<Rightarrow> TransferTaskKind \<Rightarrow> rstring \<Rightarrow> rstring \<Rightarrow> task_id option \<Rightarrow> TransferTaskSnapshot" where
  "new_snapshot i kind source destination retry_of =
     \<lparr>s_id = i, s_kind = kind, s_source = source, s_destination = destination, s_state = Queued,
      s_cancel_requested = False, s_progress = None, s_summary = None, s_error = None,
      s_retry_of = retry_of\<rparr>"

definition register_locked ::
  "TransferTaskKind \<Rightarrow> rstring \<Rightarrow> rstring \<Rightarrow> task_id option \<Rightarrow> RegistryInner \<Rightarrow> task_id task_call" where
  "register_locked kind source destination retry_of r =
     (if \<exists>record \<in> set (bt_values (tasks r)). conflicts kind destination record
      then (Inl (DestinationBusy destination), r)
      else case make_capacity r of
          (Inl e, r) \<Rightarrow> (Inl e, r)
        | (Inr _, r) \<Rightarrow>
            (case checked_add_u64 (next_id r) 1 of
               None \<Rightarrow> (Inl IdOverflow, r)
             | Some n \<Rightarrow>
                 let i = next_id r;
                     record = \<lparr>snapshot = new_snapshot i kind source destination retry_of,
                               cancelled = False\<rparr>
                 in (Inr i, r\<lparr>next_id := n, tasks := bt_insert i record (tasks r),
                      order := order r @ [i]\<rparr>)))"

definition register ::
  "TransferTaskKind \<Rightarrow> rstring \<Rightarrow> rstring \<Rightarrow> RegistryInner \<Rightarrow> task_id task_call" where
  "register kind source destination r =
     (case and_then (validate_task_text source) (\<lambda>_. validate_task_text destination) of
        Inl e \<Rightarrow> (Inl e, r)
      | Inr _ \<Rightarrow> register_locked kind source destination None r)"

definition register_retry :: "task_id \<Rightarrow> RegistryInner \<Rightarrow> task_id task_call" where
  "register_retry previous r = (case bt_get (tasks r) previous of
       None \<Rightarrow> (Inl (UnknownTask previous), r)
     | Some record \<Rightarrow>
         let s = snapshot record in
         if s_state s \<noteq> Cancelled \<and> s_state s \<noteq> Failed then (Inl (NotRetryable previous), r)
         else register_locked (s_kind s) (s_source s) (s_destination s) (Some previous) r)"

subsection \<open>Updates of one task\<close>

text \<open>
  \<open>task_mut\<close> and the update of the record in place: the update returns a result and, where it
  changes the record, the record afterwards.
\<close>

definition with_task ::
  "task_id \<Rightarrow> (TaskRecord \<Rightarrow> task_error + ('a \<times> TaskRecord)) \<Rightarrow> RegistryInner \<Rightarrow> 'a task_call" where
  "with_task i f r = (case bt_get (tasks r) i of
       None \<Rightarrow> (Inl (UnknownTask i), r)
     | Some record \<Rightarrow> (case f record of
           Inl e \<Rightarrow> (Inl e, r)
         | Inr (x, record') \<Rightarrow> (Inr x, r\<lparr>tasks := bt_insert i record' (tasks r)\<rparr>)))"

definition set_state :: "TransferTaskState \<Rightarrow> TaskRecord \<Rightarrow> TaskRecord" where
  "set_state st record = record\<lparr>snapshot := (snapshot record)\<lparr>s_state := st\<rparr>\<rparr>"

definition mark_running :: "task_id \<Rightarrow> RegistryInner \<Rightarrow> unit task_call" where
  "mark_running i = with_task i (\<lambda>record.
     if s_state (snapshot record) \<noteq> Queued then Inl (NotQueued i)
     else Inr ((), set_state Running record))"

definition record_progress :: "task_id \<Rightarrow> TransferEvent \<Rightarrow> RegistryInner \<Rightarrow> unit task_call" where
  "record_progress i event = with_task i (\<lambda>record.
     if s_state (snapshot record) \<noteq> Running then Inl (NotRunning i)
     else if e_direction event \<noteq> direction (s_kind (snapshot record)) then Inl (WrongDirection i)
     else Inr ((), record\<lparr>snapshot := (snapshot record)\<lparr>s_progress := Some
       \<lparr>p_path = bounded_text (e_path event), p_bytes_transferred = e_bytes_transferred event,
        p_total_bytes = e_total_bytes event, p_completed = e_completed event\<rparr>\<rparr>\<rparr>))"

definition request_cancel :: "task_id \<Rightarrow> RegistryInner \<Rightarrow> bool task_call" where
  "request_cancel i = with_task i (\<lambda>record.
     if is_terminal (s_state (snapshot record)) then Inr (False, record)
     else if s_cancel_requested (snapshot record) then Inr (False, record)
     else Inr (True, record\<lparr>snapshot := (snapshot record)\<lparr>s_cancel_requested := True\<rparr>,
       cancelled := True\<rparr>))"

definition complete :: "task_id \<Rightarrow> TransferSummary \<Rightarrow> RegistryInner \<Rightarrow> unit task_call" where
  "complete i summary = with_task i (\<lambda>record.
     if s_state (snapshot record) \<noteq> Running then Inl (NotRunning i)
     else Inr ((), record\<lparr>snapshot := (snapshot record)\<lparr>s_state := Completed,
       s_summary := Some summary, s_error := None\<rparr>\<rparr>))"

definition mark_cancelled :: "task_id \<Rightarrow> RegistryInner \<Rightarrow> unit task_call" where
  "mark_cancelled i = with_task i (\<lambda>record.
     if s_state (snapshot record) \<noteq> Queued \<and> s_state (snapshot record) \<noteq> Running
     then Inl (NotCancellable i)
     else Inr ((), record\<lparr>snapshot := (snapshot record)\<lparr>s_cancel_requested := True,
       s_state := Cancelled\<rparr>, cancelled := True\<rparr>))"

definition fail :: "task_id \<Rightarrow> rstring \<Rightarrow> RegistryInner \<Rightarrow> unit task_call" where
  "fail i message = with_task i (\<lambda>record.
     if s_state (snapshot record) \<noteq> Running then Inl (NotRunning i)
     else Inr ((), record\<lparr>snapshot := (snapshot record)\<lparr>s_state := Failed,
       s_error := Some (bounded_text message)\<rparr>\<rparr>))"

text \<open>A holder of a clone of the cancellation token sets the flag without the registry.\<close>

definition token_cancel :: "task_id \<Rightarrow> RegistryInner \<Rightarrow> unit task_call" where
  "token_cancel i r = (case bt_get (tasks r) i of
       None \<Rightarrow> (Inr (), r)
     | Some record \<Rightarrow>
         (Inr (), r\<lparr>tasks := bt_insert i (record\<lparr>cancelled := True\<rparr>) (tasks r)\<rparr>))"

subsection \<open>Queries and clearing\<close>

definition get_task :: "task_id \<Rightarrow> RegistryInner \<Rightarrow> TransferTaskSnapshot option" where
  "get_task i r = map_option snapshot (bt_get (tasks r) i)"

definition cancellation :: "task_id \<Rightarrow> RegistryInner \<Rightarrow> task_error + bool" where
  "cancellation i r = map_ok cancelled (ok_or (UnknownTask i) (bt_get (tasks r) i))"

definition recent :: "nat \<Rightarrow> RegistryInner \<Rightarrow> TransferTaskSnapshot list" where
  "recent limit r = List.map_filter (\<lambda>i. get_task i r) (take limit (rev (order r)))"

definition is_finished :: "RegistryInner \<Rightarrow> task_id \<Rightarrow> bool" where
  "is_finished r i = (case bt_get (tasks r) i of
       None \<Rightarrow> False
     | Some record \<Rightarrow> is_terminal (s_state (snapshot record)))"

definition clear_finished :: "RegistryInner \<Rightarrow> nat task_call" where
  "clear_finished r =
     (let finished = filter (is_finished r) (order r) in
      (Inr (length finished),
       r\<lparr>tasks := fold bt_remove finished (tasks r),
         order := filter (\<lambda>i. i \<notin> set finished) (order r)\<rparr>))"


subsection \<open>The life of a task\<close>

inductive task_step :: "TransferTaskState \<Rightarrow> TransferTaskState \<Rightarrow> bool" where
  start: "task_step Queued Running"
| finish_ok: "task_step Running Completed"
| finish_err: "task_step Running Failed"
| cancel_queued: "task_step Queued Cancelled"
| cancel_running: "task_step Running Cancelled"

inductive_simps task_step_simps [simp]:
  "task_step Queued b" "task_step Running b" "task_step Completed b" "task_step Cancelled b"
  "task_step Failed b"

lemma task_step_not_terminal: "task_step a b \<Longrightarrow> \<not> is_terminal a"
  by (induction rule: task_step.induct) auto

text \<open>What a command may do to a task that stays in the registry.\<close>

definition evolves :: "TaskRecord \<Rightarrow> TaskRecord \<Rightarrow> bool" where
  "evolves a b \<longleftrightarrow>
     s_id (snapshot b) = s_id (snapshot a) \<and> s_kind (snapshot b) = s_kind (snapshot a) \<and>
     s_source (snapshot b) = s_source (snapshot a) \<and>
     s_destination (snapshot b) = s_destination (snapshot a) \<and>
     s_retry_of (snapshot b) = s_retry_of (snapshot a) \<and>
     (s_state (snapshot b) = s_state (snapshot a) \<or>
      task_step (s_state (snapshot a)) (s_state (snapshot b))) \<and>
     (is_terminal (s_state (snapshot a)) \<longrightarrow> snapshot b = snapshot a) \<and>
     (s_cancel_requested (snapshot a) \<longrightarrow> s_cancel_requested (snapshot b)) \<and>
     (cancelled a \<longrightarrow> cancelled b)"

lemma evolves_refl [simp]: "evolves a a"
  by (simp add: evolves_def)

abbreviation live :: "TaskRecord \<Rightarrow> bool" where
  "live record \<equiv> \<not> is_terminal (s_state (snapshot record))"

lemma evolves_live: "evolves a b \<Longrightarrow> live b \<Longrightarrow> live a"
  by (auto simp: evolves_def)

definition text_bound :: nat where
  "text_bound = MAX_TRANSFER_TASK_TEXT_BYTES + 3"

text \<open>The fields of one task agree with its state.\<close>

definition record_ok :: "task_id \<Rightarrow> TaskRecord \<Rightarrow> bool" where
  "record_ok i record \<longleftrightarrow> (let s = snapshot record in
     s_id s = i \<and>
     (s_cancel_requested s \<longrightarrow> cancelled record) \<and>
     (s_state s = Cancelled \<longrightarrow> s_cancel_requested s) \<and>
     (s_summary s \<noteq> None \<longleftrightarrow> s_state s = Completed) \<and>
     (s_error s \<noteq> None \<longleftrightarrow> s_state s = Failed) \<and>
     (s_progress s \<noteq> None \<longrightarrow> s_state s \<noteq> Queued) \<and>
     s_source s \<noteq> [] \<and> str_len (s_source s) \<le> MAX_TRANSFER_TASK_TEXT_BYTES \<and>
     s_destination s \<noteq> [] \<and> str_len (s_destination s) \<le> MAX_TRANSFER_TASK_TEXT_BYTES \<and>
     (\<forall>e. s_error s = Some e \<longrightarrow> str_len e \<le> text_bound) \<and>
     (\<forall>pr. s_progress s = Some pr \<longrightarrow> str_len (p_path pr) \<le> text_bound))"

subsection \<open>Shortened texts\<close>

lemma is_char_boundary_0 [simp]: "is_char_boundary s 0"
  by (cases s) auto

lemma floor_boundary_is: "is_char_boundary s (floor_boundary s k)"
  by (induction k) auto

lemma floor_boundary_le: "floor_boundary s k \<le> k"
  by (induction k) (auto intro: le_SucI)

lemma floor_boundary_greatest: "is_char_boundary s j \<Longrightarrow> j \<le> k \<Longrightarrow> j \<le> floor_boundary s k"
  by (induction k) (auto simp: le_Suc_eq)

lemma slice_boundary:
  "is_char_boundary s k \<Longrightarrow> \<exists>t. s = slice_to s k @ t \<and> str_len (slice_to s k) = k"
proof (induction s arbitrary: k)
  case (Cons c s)
  show ?case
  proof (cases "utf8_len c \<le> k")
    case True
    then have "is_char_boundary s (k - utf8_len c)" using Cons.prems by (cases "k = 0") auto
    from Cons.IH [OF this] True show ?thesis by auto
  next
    case False
    then show ?thesis using Cons.prems by auto
  qed
qed simp

lemma prefix_boundary: "is_char_boundary (s @ t) (str_len s)"
  by (induction s) auto

lemma bounded_text_long:
  assumes "MAX_TRANSFER_TASK_TEXT_BYTES < str_len v"
  shows "\<exists>u t. v = u @ t \<and> bounded_text v = u @ lit ''...'' \<and>
    str_len u \<le> MAX_TRANSFER_TASK_TEXT_BYTES \<and>
    (\<forall>u' t'. v = u' @ t' \<and> str_len u' \<le> MAX_TRANSFER_TASK_TEXT_BYTES \<longrightarrow> str_len u' \<le> str_len u)"
proof -
  let ?k = "floor_boundary v MAX_TRANSFER_TASK_TEXT_BYTES"
  obtain t where t: "v = slice_to v ?k @ t" "str_len (slice_to v ?k) = ?k"
    using slice_boundary [OF floor_boundary_is] by blast
  have "str_len u' \<le> ?k"
    if "v = u' @ t'" "str_len u' \<le> MAX_TRANSFER_TASK_TEXT_BYTES" for u' t'
    using that prefix_boundary [of u' t'] by (intro floor_boundary_greatest) simp_all
  moreover have "bounded_text v = slice_to v ?k @ lit ''...''"
    using assms by (simp add: bounded_text_def)
  ultimately show ?thesis
    using t floor_boundary_le [of v MAX_TRANSFER_TASK_TEXT_BYTES] by metis
qed

lemma str_len_dots: "str_len (lit ''...'') = 3"
  by (simp add: lit_simps utf8_len_def)

lemma bounded_text_length: "str_len (bounded_text v) \<le> text_bound"
proof (cases "str_len v \<le> MAX_TRANSFER_TASK_TEXT_BYTES")
  case True
  then show ?thesis by (simp add: bounded_text_def text_bound_def)
next
  case False
  then have "MAX_TRANSFER_TASK_TEXT_BYTES < str_len v" by simp
  then obtain u where "bounded_text v = u @ lit ''...''"
    "str_len u \<le> MAX_TRANSFER_TASK_TEXT_BYTES" using bounded_text_long by blast
  then show ?thesis by (simp add: text_bound_def str_len_dots)
qed

subsection \<open>The registry invariant\<close>

definition reg_ok :: "RegistryInner \<Rightarrow> bool" where
  "reg_ok r \<longleftrightarrow>
     bt_ok (tasks r) \<and> distinct (order r) \<and> set (order r) = fst ` set (tasks r) \<and>
     0 < max_retained r \<and> length (tasks r) \<le> max_retained r \<and>
     (\<forall>i a. bt_get (tasks r) i = Some a \<longrightarrow> record_ok i a \<and> i < next_id r) \<and>
     (\<forall>i j a b. bt_get (tasks r) i = Some a \<and> bt_get (tasks r) j = Some b \<and> live a \<and> live b \<and>
        direction (s_kind (snapshot a)) = direction (s_kind (snapshot b)) \<and>
        s_destination (snapshot a) = s_destination (snapshot b) \<longrightarrow> i = j)"

lemma reg_ok_empty: "0 < n \<Longrightarrow> reg_ok (empty_registry n)"
  by (simp add: reg_ok_def empty_registry_def bt.get_empty)

lemma reg_okD:
  assumes "reg_ok r"
  shows "bt_ok (tasks r)" "distinct (order r)" "set (order r) = fst ` set (tasks r)"
    "0 < max_retained r" "length (tasks r) \<le> max_retained r"
    "bt_get (tasks r) i = Some a \<Longrightarrow> record_ok i a" "bt_get (tasks r) i = Some a \<Longrightarrow> i < next_id r"
  using assms unfolding reg_ok_def by blast+

lemma reg_ok_exclusive:
  assumes "reg_ok r" and "bt_get (tasks r) i = Some a" and "bt_get (tasks r) j = Some b"
    and "live a" and "live b"
    and "direction (s_kind (snapshot a)) = direction (s_kind (snapshot b))"
    and "s_destination (snapshot a) = s_destination (snapshot b)"
  shows "i = j"
  using assms unfolding reg_ok_def by blast

lemma reg_ok_update:
  assumes ok: "reg_ok r" and a: "bt_get (tasks r) i = Some a"
    and b: "record_ok i b" "evolves a b"
  shows "reg_ok (r\<lparr>tasks := bt_insert i b (tasks r)\<rparr>)"
proof -
  have bt: "bt_ok (tasks r)" using ok by (simp add: reg_ok_def)
  have mem: "i \<in> fst ` set (tasks r)" using a bt_contains_iff [of "tasks r" i] by blast
  have same: "s_kind (snapshot b) = s_kind (snapshot a)"
    "s_destination (snapshot b) = s_destination (snapshot a)" "live b \<Longrightarrow> live a"
    using b(2) evolves_live by (auto simp: evolves_def)
  show ?thesis
    unfolding reg_ok_def
  proof (intro conjI allI impI)
    show "length (tasks (r\<lparr>tasks := bt_insert i b (tasks r)\<rparr>)) \<le>
        max_retained (r\<lparr>tasks := bt_insert i b (tasks r)\<rparr>)"
      using ok a bt by (simp add: reg_ok_def length_bt_insert)
  next
    fix j k x y
    assume h: "bt_get (tasks (r\<lparr>tasks := bt_insert i b (tasks r)\<rparr>)) j = Some x \<and>
      bt_get (tasks (r\<lparr>tasks := bt_insert i b (tasks r)\<rparr>)) k = Some y \<and> live x \<and> live y \<and>
      direction (s_kind (snapshot x)) = direction (s_kind (snapshot y)) \<and>
      s_destination (snapshot x) = s_destination (snapshot y)"
    let ?x = "if j = i then a else x" and ?y = "if k = i then a else y"
    have "bt_get (tasks r) j = Some ?x \<and> bt_get (tasks r) k = Some ?y \<and> live ?x \<and> live ?y \<and>
      direction (s_kind (snapshot ?x)) = direction (s_kind (snapshot ?y)) \<and>
      s_destination (snapshot ?x) = s_destination (snapshot ?y)"
      using h a same bt by (auto simp: bt.get_put split: if_splits)
    then show "j = k" using reg_ok_exclusive [OF ok] by blast
  next
    fix j x
    assume "bt_get (tasks (r\<lparr>tasks := bt_insert i b (tasks r)\<rparr>)) j = Some x"
    then show "record_ok j x" "j < next_id (r\<lparr>tasks := bt_insert i b (tasks r)\<rparr>)"
      using ok a b(1) bt by (auto simp: reg_ok_def bt.get_put split: if_splits)
  qed (use ok bt mem in \<open>auto simp: reg_ok_def bt.ok_put fst_set_bt_insert\<close>)
qed


subsection \<open>Updates of one task\<close>

text \<open>An operation that updates one task in place and respects the life of the task.\<close>

definition lawful :: "task_id \<Rightarrow> (TaskRecord \<Rightarrow> task_error + ('a \<times> TaskRecord)) \<Rightarrow> bool" where
  "lawful i f \<longleftrightarrow> (\<forall>a x b. record_ok i a \<longrightarrow> f a = Inr (x, b) \<longrightarrow> record_ok i b \<and> evolves a b)"

definition lawful_op :: "task_id \<Rightarrow> (RegistryInner \<Rightarrow> 'a task_call) \<Rightarrow> bool" where
  "lawful_op i opr \<longleftrightarrow> (\<exists>f. opr = with_task i f \<and> lawful i f)"

lemma lawful_opI:
  assumes "opr = with_task i f"
    and "\<And>a x b. record_ok i a \<Longrightarrow> f a = Inr (x, b) \<Longrightarrow> record_ok i b \<and> evolves a b"
  shows "lawful_op i opr"
  using assms unfolding lawful_op_def lawful_def by blast

lemma lawful_op_cases:
  assumes "reg_ok r" and "lawful_op i opr"
  obtains "snd (opr r) = r"
    | a b where "bt_get (tasks r) i = Some a" "record_ok i b" "evolves a b"
      "snd (opr r) = r\<lparr>tasks := bt_insert i b (tasks r)\<rparr>"
proof -
  obtain f where f: "opr = with_task i f" "lawful i f" using assms(2) by (auto simp: lawful_op_def)
  show thesis
  proof (cases "bt_get (tasks r) i")
    case None
    then show thesis using that(1) by (simp add: f(1) with_task_def)
  next
    case (Some a)
    show thesis
    proof (cases "f a")
      case (Inl e)
      with Some show thesis using that(1) by (simp add: f(1) with_task_def)
    next
      case (Inr xb)
      obtain x b where xb: "xb = (x, b)" by (cases xb)
      have "record_ok i b \<and> evolves a b"
        using f(2) reg_okD(6) [OF assms(1) Some] Inr xb unfolding lawful_def by blast
      moreover have "snd (opr r) = r\<lparr>tasks := bt_insert i b (tasks r)\<rparr>"
        using Some Inr xb by (simp add: f(1) with_task_def)
      ultimately show thesis using that(2) [OF Some] by blast
    qed
  qed
qed

lemma lawful_op_keeps:
  assumes "reg_ok r" and "lawful_op i opr"
  shows "reg_ok (snd (opr r))"
  using assms by (cases rule: lawful_op_cases) (simp_all add: assms(1) reg_ok_update)

lemma lawful_op_get:
  assumes "reg_ok r" and "lawful_op i opr" and "bt_get (tasks r) j = Some a"
  shows "\<exists>b. bt_get (tasks (snd (opr r))) j = Some b \<and> evolves a b"
  using assms(1,2)
proof (cases rule: lawful_op_cases)
  case (2 c b)
  with assms(3) show ?thesis using reg_okD(1) [OF assms(1)] by (auto simp: bt.get_put)
qed (use assms(3) in simp)

lemma lawful_op_unchanged: "lawful_op i opr \<Longrightarrow> fst (opr r) = Inl e \<Longrightarrow> snd (opr r) = r"
  by (auto simp: lawful_op_def with_task_def split: option.splits sum.splits)

lemma lawful_op_rest:
  "lawful_op i opr \<Longrightarrow> next_id (snd (opr r)) = next_id r \<and> max_retained (snd (opr r)) = max_retained r"
  by (auto simp: lawful_op_def with_task_def split: option.splits sum.splits)

lemmas record_defs = record_ok_def evolves_def set_state_def Let_def bounded_text_length

lemma mark_running_lawful: "lawful_op i (mark_running i)"
  by (rule lawful_opI [OF mark_running_def]) (auto simp: record_defs split: if_splits)

lemma record_progress_lawful: "lawful_op i (record_progress i event)"
  by (rule lawful_opI [OF record_progress_def]) (auto simp: record_defs split: if_splits)

lemma request_cancel_lawful: "lawful_op i (request_cancel i)"
  by (rule lawful_opI [OF request_cancel_def]) (auto simp: record_defs split: if_splits)

lemma complete_lawful: "lawful_op i (complete i summary)"
  by (rule lawful_opI [OF complete_def]) (auto simp: record_defs split: if_splits)

lemma mark_cancelled_lawful: "lawful_op i (mark_cancelled i)"
proof (rule lawful_opI [OF mark_cancelled_def])
  fix a x b
  assume "record_ok i a" and "(if s_state (snapshot a) \<noteq> Queued \<and> s_state (snapshot a) \<noteq> Running
     then Inl (NotCancellable i)
     else Inr ((), a\<lparr>snapshot := (snapshot a)\<lparr>s_cancel_requested := True,
       s_state := Cancelled\<rparr>, cancelled := True\<rparr>)) = Inr (x, b)"
  then show "record_ok i b \<and> evolves a b"
    by (cases "s_state (snapshot a)") (auto simp: record_defs)
qed

lemma fail_lawful: "lawful_op i (fail i message)"
  by (rule lawful_opI [OF fail_def]) (auto simp: record_defs split: if_splits)

lemmas lawful_ops =
  mark_running_lawful record_progress_lawful request_cancel_lawful complete_lawful
  mark_cancelled_lawful fail_lawful

lemma token_cancel_keeps:
  assumes "reg_ok r"
  shows "reg_ok (snd (token_cancel i r))"
proof (cases "bt_get (tasks r) i")
  case (Some a)
  have "record_ok i (a\<lparr>cancelled := True\<rparr>)" "evolves a (a\<lparr>cancelled := True\<rparr>)"
    using reg_okD(6) [OF assms Some] by (simp_all add: record_ok_def evolves_def Let_def)
  with reg_ok_update [OF assms Some] Some show ?thesis by (simp add: token_cancel_def)
qed (use assms in \<open>simp add: token_cancel_def\<close>)

lemma token_cancel_get:
  assumes "reg_ok r" and "bt_get (tasks r) j = Some a"
  shows "\<exists>b. bt_get (tasks (snd (token_cancel i r))) j = Some b \<and> evolves a b"
  using assms by (auto simp: token_cancel_def reg_ok_def bt.get_put evolves_def split: option.splits)

subsection \<open>Making room\<close>

definition evict :: "nat \<Rightarrow> RegistryInner \<Rightarrow> RegistryInner" where
  "evict p r = r\<lparr>order := take p (order r) @ drop (Suc p) (order r),
     tasks := bt_remove (order r ! p) (tasks r)\<rparr>"

lemma position_Some:
  assumes "position P xs = Some p"
  shows "p < length xs" and "P (xs ! p)" and "\<forall>q < p. \<not> P (xs ! q)"
proof -
  from assms have p: "p = length (takeWhile (\<lambda>x. \<not> P x) xs)" "p < length xs"
    by (auto simp: position_def Let_def split: if_splits)
  show "p < length xs" by (fact p(2))
  show "P (xs ! p)" using p nth_length_takeWhile [of "\<lambda>x. \<not> P x" xs] by simp
  show "\<forall>q < p. \<not> P (xs ! q)"
    using p(1) by (metis nth_mem set_takeWhileD takeWhile_nth)
qed

lemma position_None: "position P xs = None \<longleftrightarrow> (\<forall>x \<in> set xs. \<not> P x)"
proof -
  have "position P xs = None \<longleftrightarrow> length (takeWhile (\<lambda>x. \<not> P x) xs) = length xs"
    using length_takeWhile_le [of "\<lambda>x. \<not> P x" xs] by (auto simp: position_def Let_def)
  also have "\<dots> \<longleftrightarrow> takeWhile (\<lambda>x. \<not> P x) xs = xs"
    by (metis append_eq_conv_conj take_all_iff takeWhile_eq_take order_refl)
  finally show ?thesis by (simp add: takeWhile_eq_all_conv)
qed

lemma set_remove_nth:
  assumes "distinct xs" and "p < length xs"
  shows "set (take p xs @ drop (Suc p) xs) = set xs - {xs ! p}"
    and "distinct (take p xs @ drop (Suc p) xs)"
proof -
  have xs: "xs = take p xs @ xs ! p # drop (Suc p) xs" using assms(2) by (rule id_take_nth_drop)
  then have "distinct (take p xs @ xs ! p # drop (Suc p) xs)" using assms(1) by simp
  then show "distinct (take p xs @ drop (Suc p) xs)" by simp
  have "set xs = insert (xs ! p) (set (take p xs @ drop (Suc p) xs))"
    by (subst xs) simp
  moreover have "xs ! p \<notin> set (take p xs @ drop (Suc p) xs)"
    using \<open>distinct (take p xs @ xs ! p # drop (Suc p) xs)\<close> by simp
  ultimately show "set (take p xs @ drop (Suc p) xs) = set xs - {xs ! p}" by auto
qed

lemma reg_ok_evict:
  assumes ok: "reg_ok r" and p: "p < length (order r)"
  shows "reg_ok (evict p r)" and "length (tasks (evict p r)) < length (tasks r)"
proof -
  let ?i = "order r ! p"
  have bt: "bt_ok (tasks r)" and d: "distinct (order r)"
    and dom: "set (order r) = fst ` set (tasks r)" using ok by (auto simp: reg_ok_def)
  have "?i \<in> fst ` set (tasks r)" using p dom by (metis nth_mem)
  then have "bt_contains (tasks r) ?i" by (simp add: bt_get_None_iff)
  then show len: "length (tasks (evict p r)) < length (tasks r)"
    by (simp add: evict_def bt_remove_length)
  have "fst ` set (bt_remove ?i (tasks r)) = fst ` set (tasks r) - {?i}"
    by (force simp: set_bt_remove)
  then have dom': "set (order (evict p r)) = fst ` set (tasks (evict p r))"
    using set_remove_nth [OF d p] dom by (simp add: evict_def)
  have get: "bt_get (tasks (evict p r)) = (bt_get (tasks r))(?i := None)"
    using bt by (simp add: evict_def bt.get_remove)
  have "bt_ok (tasks (evict p r))" "distinct (order (evict p r))"
    "max_retained (evict p r) = max_retained r" "next_id (evict p r) = next_id r"
    using set_remove_nth(2) [OF d p] bt by (simp_all add: evict_def bt.ok_remove)
  moreover have "length (tasks (evict p r)) \<le> max_retained r"
    using len reg_okD(5) [OF ok] by simp
  moreover have prev: "bt_get (tasks (evict p r)) j = Some a \<Longrightarrow> bt_get (tasks r) j = Some a"
    for j a using get by (auto split: if_splits)
  moreover have "\<forall>i j a b. bt_get (tasks (evict p r)) i = Some a \<and>
      bt_get (tasks (evict p r)) j = Some b \<and> live a \<and> live b \<and>
      direction (s_kind (snapshot a)) = direction (s_kind (snapshot b)) \<and>
      s_destination (snapshot a) = s_destination (snapshot b) \<longrightarrow> i = j"
    using prev reg_ok_exclusive [OF ok] by blast
  moreover have "\<forall>i a. bt_get (tasks (evict p r)) i = Some a \<longrightarrow> record_ok i a \<and> i < next_id r"
    using prev reg_okD(6,7) [OF ok] by blast
  ultimately show "reg_ok (evict p r)"
    using dom' reg_okD(4) [OF ok] unfolding reg_ok_def by simp
qed

lemma make_capacity_eq:
  assumes "reg_ok r"
  shows "make_capacity r =
    (if length (tasks r) < max_retained r then (Inr (), r)
     else case position (evictable r) (order r) of
         None \<Rightarrow> (Inl (RegistryFull (length (tasks r))), r)
       | Some p \<Rightarrow> (Inr (), evict p r))"
proof (cases "position (evictable r) (order r)")
  case None
  then show ?thesis by (subst make_capacity.simps) simp
next
  case (Some p)
  have "length (tasks (evict p r)) < max_retained (evict p r)"
    using reg_ok_evict(2) [OF assms position_Some(1) [OF Some]] assms
    by (simp add: reg_ok_def evict_def)
  then have "make_capacity (evict p r) = (Inr (), evict p r)"
    by (subst make_capacity.simps) simp
  with Some show ?thesis by (subst make_capacity.simps) (simp add: evict_def)
qed


subsection \<open>Registration\<close>

lemma evict_get:
  assumes "reg_ok r" and "position (evictable r) (order r) = Some p"
    and "bt_get (tasks r) j = Some a"
  shows "bt_get (tasks (evict p r)) j = Some a \<or>
    (j = order r ! p \<and> bt_get (tasks (evict p r)) j = None \<and> \<not> live a)"
  using position_Some(2) [OF assms(2)] assms(3) reg_okD(1) [OF assms(1)]
  by (auto simp: evict_def bt.get_remove evictable_def)

text \<open>What is left of the registry once there is room for one more task.\<close>

lemma make_capacity_result:
  assumes ok: "reg_ok r"
  shows "reg_ok (snd (make_capacity r))"
    and "fst (make_capacity r) = Inr () \<Longrightarrow>
      length (tasks (snd (make_capacity r))) < max_retained r"
    and "fst (make_capacity r) = Inl e \<Longrightarrow> snd (make_capacity r) = r"
    and "next_id (snd (make_capacity r)) = next_id r"
    and "max_retained (snd (make_capacity r)) = max_retained r"
    and "bt_get (tasks (snd (make_capacity r))) j = Some a \<Longrightarrow> bt_get (tasks r) j = Some a"
    and "bt_get (tasks r) j = Some a \<Longrightarrow> bt_get (tasks (snd (make_capacity r))) j = Some a \<or>
      (bt_get (tasks (snd (make_capacity r))) j = None \<and> \<not> live a)"
proof -
  have evict: "reg_ok (evict p r)" "length (tasks (evict p r)) < max_retained r"
      "bt_get (tasks (evict p r)) j = Some a \<Longrightarrow> bt_get (tasks r) j = Some a"
    if "position (evictable r) (order r) = Some p" for p
    using reg_ok_evict [OF ok position_Some(1) [OF that]] reg_okD(1,5) [OF ok]
    by (auto simp: evict_def bt.get_remove split: if_splits)
  note cases = make_capacity_eq [OF ok]
  show "reg_ok (snd (make_capacity r))"
    "fst (make_capacity r) = Inr () \<Longrightarrow> length (tasks (snd (make_capacity r))) < max_retained r"
    "fst (make_capacity r) = Inl e \<Longrightarrow> snd (make_capacity r) = r"
    "bt_get (tasks (snd (make_capacity r))) j = Some a \<Longrightarrow> bt_get (tasks r) j = Some a"
    using evict ok unfolding cases by (auto split: if_splits option.splits)
  show "next_id (snd (make_capacity r)) = next_id r"
    "max_retained (snd (make_capacity r)) = max_retained r"
    unfolding cases by (auto simp: evict_def split: option.splits)
  show "bt_get (tasks r) j = Some a \<Longrightarrow> bt_get (tasks (snd (make_capacity r))) j = Some a \<or>
      (bt_get (tasks (snd (make_capacity r))) j = None \<and> \<not> live a)"
    using evict_get [OF ok, of _ j a] unfolding cases by (auto split: option.splits)
qed

lemma new_record_ok:
  assumes "source \<noteq> []" "str_len source \<le> MAX_TRANSFER_TASK_TEXT_BYTES"
    and "dest \<noteq> []" "str_len dest \<le> MAX_TRANSFER_TASK_TEXT_BYTES"
  shows "record_ok i \<lparr>snapshot = new_snapshot i kind source dest retry_of, cancelled = False\<rparr>"
  using assms by (simp add: record_ok_def new_snapshot_def Let_def)

lemma reg_ok_add:
  assumes ok: "reg_ok r" and room: "length (tasks r) < max_retained r"
    and n: "checked_add_u64 (next_id r) 1 = Some n"
    and rec: "record_ok (next_id r) b"
    and free: "\<forall>a \<in> set (bt_values (tasks r)). \<not> conflicts (s_kind (snapshot b)) (s_destination (snapshot b)) a"
  shows "reg_ok (r\<lparr>next_id := n, tasks := bt_insert (next_id r) b (tasks r),
    order := order r @ [next_id r]\<rparr>)"
proof -
  let ?i = "next_id r"
  have bt: "bt_ok (tasks r)" by (rule reg_okD(1) [OF ok])
  have fresh: "bt_get (tasks r) ?i = None" using reg_okD(7) [OF ok, of ?i] by (cases "bt_get (tasks r) ?i") auto
  have less: "?i < n" using checked_add_u64_Some [OF n] by (simp add: word_less_nat_alt)
  have fresh': "?i \<notin> fst ` set (tasks r)" using fresh by (simp add: bt_get_None_iff)
  have old: "bt_get (tasks r) j = Some a \<Longrightarrow> live a \<Longrightarrow> live b \<Longrightarrow>
      direction (s_kind (snapshot a)) = direction (s_kind (snapshot b)) \<Longrightarrow>
      s_destination (snapshot a) \<noteq> s_destination (snapshot b)" for j a
    using free by (auto simp: conflicts_def dest!: bt_get_SomeD)
  let ?r = "r\<lparr>next_id := n, tasks := bt_insert ?i b (tasks r), order := order r @ [?i]\<rparr>"
  have get: "bt_get (tasks ?r) = (bt_get (tasks r))(?i \<mapsto> b)"
    using bt by (simp add: bt.get_put)
  have "j = k" if "bt_get (tasks ?r) j = Some x" "bt_get (tasks ?r) k = Some y" "live x" "live y"
      "direction (s_kind (snapshot x)) = direction (s_kind (snapshot y))"
      "s_destination (snapshot x) = s_destination (snapshot y)" for j k x y
  proof (cases "j = ?i \<or> k = ?i")
    case True
    with that old [of j x] old [of k y] show ?thesis unfolding get by (auto split: if_splits)
  next
    case False
    with that show ?thesis
      unfolding get by (intro reg_ok_exclusive [OF ok, of j x k y]) auto
  qed
  moreover have "record_ok j a \<and> j < n" if "bt_get (tasks ?r) j = Some a" for j a
    using that reg_okD(6) [OF ok] reg_okD(7) [OF ok, THEN less_trans, OF _ less] rec less
    unfolding get by (auto split: if_splits)
  moreover have "length (tasks ?r) \<le> max_retained ?r"
    using room bt fresh by (simp add: length_bt_insert)
  ultimately show ?thesis
    using reg_okD(2-4) [OF ok] bt fresh'
    unfolding reg_ok_def by (auto simp: bt.ok_put fst_set_bt_insert)
qed


lemma register_locked_keeps:
  assumes ok: "reg_ok r"
    and text_ok: "source \<noteq> []" "str_len source \<le> MAX_TRANSFER_TASK_TEXT_BYTES"
      "dest \<noteq> []" "str_len dest \<le> MAX_TRANSFER_TASK_TEXT_BYTES"
  shows "reg_ok (snd (register_locked kind source dest retry_of r))"
proof (cases "\<exists>a \<in> set (bt_values (tasks r)). conflicts kind dest a")
  case True
  then show ?thesis using ok by (simp only: register_locked_def if_True snd_conv)
next
  case False
  note mc = make_capacity_result [OF ok]
  obtain res r' where m: "make_capacity r = (res, r')" by (cases "make_capacity r")
  have ok': "reg_ok r'" using mc(1) m by simp
  show ?thesis
  proof (cases "res = Inr () \<and> checked_add_u64 (next_id r') 1 \<noteq> None")
    case True
    then obtain n where n: "checked_add_u64 (next_id r') 1 = Some n" by blast
    have room: "length (tasks r') < max_retained r'" using mc(2,5) m True by simp
    have "set (bt_values (tasks r')) \<subseteq> set (bt_values (tasks r))"
    proof
      fix a assume "a \<in> set (bt_values (tasks r'))"
      then obtain j where "(j, a) \<in> set (tasks r')" by auto
      then have "bt_get (tasks r') j = Some a" by (simp add: bt_get_iff reg_okD(1) [OF ok'])
      then have "bt_get (tasks r) j = Some a" using mc(6) [of j a] m by simp
      then show "a \<in> set (bt_values (tasks r))" by (force dest: bt_get_SomeD)
    qed
    with False have "\<forall>a \<in> set (bt_values (tasks r')). \<not> conflicts kind dest a" by blast
    with reg_ok_add [OF ok' room n new_record_ok [OF text_ok], of kind retry_of] True m n False
    show ?thesis
      by (simp add: register_locked_def Let_def new_snapshot_def del: set_map)
  next
    case no: False
    with False ok' m show ?thesis
      by (auto simp: register_locked_def split: sum.splits option.splits)
  qed
qed

lemma register_keeps: "reg_ok r \<Longrightarrow> reg_ok (snd (register kind source dest r))"
  using register_locked_keeps [of r source dest kind None]
  by (auto simp: register_def validate_task_text_def and_then_eq_Inr split: sum.splits if_splits)

lemma register_retry_keeps:
  assumes "reg_ok r"
  shows "reg_ok (snd (register_retry i r))"
proof (cases "bt_get (tasks r) i")
  case (Some a)
  have "record_ok i a" using reg_okD(6) [OF assms Some] .
  then show ?thesis
    using Some assms by (auto simp: register_retry_def Let_def record_ok_def register_locked_keeps)
qed (use assms in \<open>simp add: register_retry_def\<close>)

text \<open>A registration leaves every task as it is, except that it may evict a finished one.\<close>

lemma register_locked_get:
  assumes ok: "reg_ok r" and "bt_get (tasks r) j = Some a"
  shows "bt_get (tasks (snd (register_locked kind source dest retry_of r))) j = Some a \<or>
    (bt_get (tasks (snd (register_locked kind source dest retry_of r))) j = None \<and> \<not> live a)"
proof -
  note mc = make_capacity_result [OF ok]
  obtain res r' where m: "make_capacity r = (res, r')" by (cases "make_capacity r")
  have bt: "bt_ok (tasks r')" and ne: "j \<noteq> next_id r'"
    using reg_okD(1) [OF mc(1)] reg_okD(7) [OF ok assms(2)] mc(4) m by auto
  have "bt_get (tasks r') j = Some a \<or> (bt_get (tasks r') j = None \<and> \<not> live a)"
    using mc(7) [OF assms(2)] m by simp
  then show ?thesis
    using m assms(2) bt ne
    by (auto simp: register_locked_def Let_def bt.get_put split: sum.splits option.splits)
qed

lemma register_get:
  assumes "reg_ok r" and "bt_get (tasks r) j = Some a"
  shows "bt_get (tasks (snd (register kind source dest r))) j = Some a \<or>
    (bt_get (tasks (snd (register kind source dest r))) j = None \<and> \<not> live a)"
  using register_locked_get [OF assms] assms(2)
  by (auto simp: register_def split: sum.splits)

lemma register_retry_get:
  assumes "reg_ok r" and "bt_get (tasks r) j = Some a"
  shows "bt_get (tasks (snd (register_retry i r))) j = Some a \<or>
    (bt_get (tasks (snd (register_retry i r))) j = None \<and> \<not> live a)"
  using register_locked_get [OF assms] assms(2)
  by (auto simp: register_retry_def Let_def split: option.splits)

subsection \<open>Clearing\<close>

lemma fold_bt_remove_get:
  "bt_ok m \<Longrightarrow> bt_ok (fold bt_remove ks m) \<and>
   bt_get (fold bt_remove ks m) k = (if k \<in> set ks then None else bt_get m k)"
  by (induction ks arbitrary: m) (auto simp: bt_laws)

lemma length_fold_remove: "length (fold bt_remove ks m) \<le> length m"
proof (induction ks arbitrary: m)
  case (Cons k ks)
  from Cons.IH [of "bt_remove k m"] length_bt_remove [of k m] show ?case by simp
qed simp

lemma clear_finished_get:
  assumes "reg_ok r"
  shows "bt_get (tasks (snd (clear_finished r))) j =
    (case bt_get (tasks r) j of Some a \<Rightarrow> if live a then Some a else None | None \<Rightarrow> None)"
proof -
  have "bt_get (tasks r) j = Some a \<Longrightarrow> j \<in> set (order r)" for a
    using reg_okD(3) [OF assms] bt_contains_iff [of "tasks r" j] by auto
  then show ?thesis
    using fold_bt_remove_get [OF reg_okD(1) [OF assms], of "filter (is_finished r) (order r)" j]
    by (auto simp: clear_finished_def Let_def is_finished_def split: option.splits)
qed

lemma clear_finished_keeps:
  assumes ok: "reg_ok r"
  shows "reg_ok (snd (clear_finished r))"
proof -
  let ?r = "snd (clear_finished r)" and ?f = "filter (is_finished r) (order r)"
  have bt: "bt_ok (tasks ?r)"
    using fold_bt_remove_get [OF reg_okD(1) [OF ok]] by (simp add: clear_finished_def Let_def)
  have sub: "bt_get (tasks ?r) j = Some a \<Longrightarrow> bt_get (tasks r) j = Some a" for j a
    by (auto simp: clear_finished_get [OF ok] split: option.splits if_splits)
  have "j \<in> fst ` set (tasks ?r) \<longleftrightarrow> j \<in> set (order ?r)" for j
  proof -
    have "j \<in> fst ` set (tasks ?r) \<longleftrightarrow> j \<in> fst ` set (tasks r) \<and> j \<notin> set ?f"
      using fold_bt_remove_get [OF reg_okD(1) [OF ok], of ?f j]
        bt_contains_iff [of "tasks ?r" j] bt_contains_iff [of "tasks r" j]
      by (auto simp: clear_finished_def Let_def split: if_splits)
    then show ?thesis using reg_okD(3) [OF ok] by (simp add: clear_finished_def Let_def)
  qed
  then have "set (order ?r) = fst ` set (tasks ?r)" by blast
  moreover have "distinct (order ?r)" "max_retained ?r = max_retained r" "next_id ?r = next_id r"
    using reg_okD(2) [OF ok] by (simp_all add: clear_finished_def Let_def)
  moreover have "length (tasks ?r) \<le> max_retained r"
    using length_fold_remove [of ?f "tasks r"] reg_okD(5) [OF ok]
    by (simp add: clear_finished_def Let_def)
  moreover have "\<forall>i j a b. bt_get (tasks ?r) i = Some a \<and> bt_get (tasks ?r) j = Some b \<and>
      live a \<and> live b \<and> direction (s_kind (snapshot a)) = direction (s_kind (snapshot b)) \<and>
      s_destination (snapshot a) = s_destination (snapshot b) \<longrightarrow> i = j"
    using sub reg_ok_exclusive [OF ok] by blast
  moreover have "\<forall>i a. bt_get (tasks ?r) i = Some a \<longrightarrow> record_ok i a \<and> i < next_id r"
    using sub reg_okD(6,7) [OF ok] by blast
  ultimately show ?thesis using bt reg_okD(4) [OF ok] unfolding reg_ok_def by simp
qed


subsection \<open>The registry as a machine\<close>

datatype task_cmd =
    Register TransferTaskKind rstring rstring
  | Retry task_id
  | MarkRunning task_id
  | Progress task_id TransferEvent
  | RequestCancel task_id
  | Complete task_id TransferSummary
  | MarkCancelled task_id
  | Fail task_id rstring
  | TokenCancel task_id
  | ClearFinished

definition done_call :: "'a task_call \<Rightarrow> unit task_call" where
  "done_call c = (map_ok (\<lambda>_. ()) (fst c), snd c)"

fun task_exec :: "task_cmd \<Rightarrow> RegistryInner \<Rightarrow> unit task_call" where
  "task_exec (Register kind source dest) r = done_call (register kind source dest r)"
| "task_exec (Retry i) r = done_call (register_retry i r)"
| "task_exec (MarkRunning i) r = mark_running i r"
| "task_exec (Progress i event) r = record_progress i event r"
| "task_exec (RequestCancel i) r = done_call (request_cancel i r)"
| "task_exec (Complete i summary) r = complete i summary r"
| "task_exec (MarkCancelled i) r = mark_cancelled i r"
| "task_exec (Fail i message) r = fail i message r"
| "task_exec (TokenCancel i) r = token_cancel i r"
| "task_exec ClearFinished r = done_call (clear_finished r)"

lemma snd_done_call [simp]: "snd (done_call c) = snd c"
  by (simp add: done_call_def)

lemma lawful_keeps_all:
  assumes "reg_ok r"
  shows "reg_ok (snd (mark_running i r))" "reg_ok (snd (record_progress i event r))"
    "reg_ok (snd (request_cancel i r))" "reg_ok (snd (complete i summary r))"
    "reg_ok (snd (mark_cancelled i r))" "reg_ok (snd (fail i message r))"
  using lawful_op_keeps [OF assms] lawful_ops by blast+

interpretation registry: machine task_exec reg_ok
proof
  show "reg_ok r \<Longrightarrow> reg_ok (snd (task_exec c r))" for r c
    by (cases c) (simp_all add: lawful_keeps_all register_keeps register_retry_keeps
        token_cancel_keeps clear_finished_keeps)
qed

lemma task_exec_get:
  assumes "reg_ok r" and "bt_get (tasks r) j = Some a"
  shows "(\<exists>b. bt_get (tasks (snd (task_exec c r))) j = Some b \<and> evolves a b) \<or>
    (bt_get (tasks (snd (task_exec c r))) j = None \<and> \<not> live a)"
proof (cases c)
  case (Register kind source dest)
  then show ?thesis using register_get [OF assms, of kind source dest] by auto
next
  case (Retry i)
  then show ?thesis using register_retry_get [OF assms, of i] by auto
next
  case (TokenCancel i)
  then show ?thesis using token_cancel_get [OF assms, of i] by auto
next
  case ClearFinished
  then show ?thesis using clear_finished_get [OF assms(1), of j] assms(2) by auto
qed (use lawful_op_get [OF assms(1) _ assms(2)] lawful_ops in \<open>simp, blast\<close>)+

lemmas lawful_max = lawful_ops [THEN lawful_op_rest, THEN conjunct2]

lemma register_locked_max:
  "reg_ok r \<Longrightarrow> max_retained (snd (register_locked kind source dest retry_of r)) = max_retained r"
  by (auto simp: register_locked_def Let_def make_capacity_eq evict_def
      split: sum.splits option.splits prod.splits if_splits)

lemma task_exec_max: "reg_ok r \<Longrightarrow> max_retained (snd (task_exec c r)) = max_retained r"
  by (cases c) (simp_all add: lawful_max register_def register_retry_def register_locked_max
      token_cancel_def clear_finished_def Let_def split: sum.splits option.splits)

subsection \<open>Properties of the registry\<close>

lemma reachable_reg_ok:
  assumes "registry_new n = Inr r0"
  shows "reg_ok (run task_exec cs r0)"
proof -
  have "reg_ok r0"
    using assms by (auto simp: registry_new_def and_then_eq_Inr validate_retention_def reg_ok_empty
        split: if_splits)
  then show ?thesis by (rule registry.run_keep)
qed

text \<open>
  C10. Two transfers never write the same file at the same time. In whatever order concurrent
  callers register, retry, start, cancel, finish and clear tasks, at most one unfinished task of
  each direction has a given destination.
\<close>

theorem one_writer_per_destination:
  assumes "registry_new n = Inr r0"
    and "get_task i (run task_exec cs r0) = Some s" and "get_task j (run task_exec cs r0) = Some t"
    and "\<not> is_terminal (s_state s)" and "\<not> is_terminal (s_state t)"
    and "direction (s_kind s) = direction (s_kind t)" and "s_destination s = s_destination t"
  shows "i = j"
  using reg_ok_exclusive [OF reachable_reg_ok [OF assms(1), of cs], of i _ j] assms(2-7)
  by (auto simp: get_task_def)

definition sample_tasks :: "task_cmd list" where
  "sample_tasks =
     [Register UploadFile (lit ''a'') (lit ''/srv/x''), Register UploadDirectory (lit ''b'') (lit ''/srv/x''),
      MarkRunning 1, Register DownloadFile (lit ''/srv/x'') (lit ''c''), Fail 1 (lit ''broken''),
      Retry 1, RequestCancel 2, MarkCancelled 2]"

theorem one_writer_per_destination_witness:
  "{i. \<exists>s. get_task i (run task_exec sample_tasks (empty_registry 3)) = Some s \<and>
      \<not> is_terminal (s_state s) \<and> direction (s_kind s) = Upload \<and> s_destination s = lit ''/srv/x''} = {3}"
proof -
  let ?r = "run task_exec sample_tasks (empty_registry 3)"
  have new: "registry_new 3 = Inr (empty_registry 3)" by code_simp
  have "case get_task 3 ?r of None \<Rightarrow> False
    | Some s \<Rightarrow> \<not> is_terminal (s_state s) \<and> direction (s_kind s) = Upload \<and> s_destination s = lit ''/srv/x''"
    by code_simp
  then obtain s where s: "get_task 3 ?r = Some s" "\<not> is_terminal (s_state s)"
    "direction (s_kind s) = Upload" "s_destination s = lit ''/srv/x''"
    by (auto split: option.splits)
  moreover have "i = 3" if "get_task i ?r = Some t" "\<not> is_terminal (s_state t)"
      "direction (s_kind t) = Upload" "s_destination t = lit ''/srv/x''" for i t
    using one_writer_per_destination [OF new that(1) s(1) that(2) s(2)] that s by simp
  ultimately show ?thesis by blast
qed

text \<open>
  The registry stays within its bounds and its two indexes agree. After any history the number
  of tasks is at most the configured retention (itself at most 1024), the insertion order lists
  exactly the registered ids, each once, and every task is filed under its own id.
\<close>

theorem registry_bounded:
  assumes "registry_new n = Inr r0" and "r = run task_exec cs r0"
  shows "length (tasks r) \<le> n \<and> n \<le> 1024 \<and> distinct (order r) \<and>
    set (order r) = {i. get_task i r \<noteq> None} \<and>
    (\<forall>i s. get_task i r = Some s \<longrightarrow> s_id s = i)"
proof -
  note ok = reachable_reg_ok [OF assms(1), of cs, folded assms(2)]
  have n: "0 < n" "n \<le> 1024" "r0 = empty_registry n"
    using assms(1) by (auto simp: registry_new_def and_then_eq_Inr validate_retention_def
        task_limits split: if_splits)
  have "max_retained (run task_exec cs x) = max_retained x" if "reg_ok x" for x
    using that by (induction cs arbitrary: x) (auto simp: registry.keep task_exec_max)
  then have max_r: "max_retained r = n" using n reg_ok_empty by (simp add: assms(2) empty_registry_def)
  have "set (order r) = {i. get_task i r \<noteq> None}"
    using reg_okD(3) [OF ok] by (auto simp: get_task_def bt_get_None_iff)
  moreover have "get_task i r = Some s \<Longrightarrow> s_id s = i" for i s
    using reg_okD(6) [OF ok] by (auto simp: get_task_def record_ok_def Let_def)
  ultimately show ?thesis using reg_okD(2,5) [OF ok] max_r n(2) by simp
qed

theorem registry_bounded_witness:
  "length (tasks (run task_exec sample_tasks (empty_registry 3))) \<le> 3"
  using registry_bounded [of 3 "empty_registry 3" _ sample_tasks]
  by (simp add: registry_new_def validate_retention_def task_limits)

text \<open>
  C36. A task moves only forward. Whatever command runs, a task that is still registered afterwards
  is the same transfer, its state is unchanged or one of Queued to Running, Running to Completed,
  Failed or Cancelled, Queued to Cancelled, and its cancellation is never withdrawn; once finished
  its snapshot never changes again; and only a finished task is ever dropped.
\<close>

theorem task_lifecycle:
  assumes "registry_new n = Inr r0" and "r = run task_exec cs r0"
    and "bt_get (tasks r) i = Some a"
  shows "(\<exists>b. bt_get (tasks (snd (task_exec c r))) i = Some b \<and> evolves a b) \<or>
    (bt_get (tasks (snd (task_exec c r))) i = None \<and> is_terminal (s_state (snapshot a)))"
  using task_exec_get [OF reachable_reg_ok [OF assms(1), of cs, folded assms(2)] assms(3)] by simp

theorem task_lifecycle_witness:
  "bt_get (tasks (snd (task_exec ClearFinished (run task_exec sample_tasks (empty_registry 3))))) 2 = None"
proof -
  let ?r = "run task_exec sample_tasks (empty_registry 3)"
  have new: "registry_new 3 = Inr (empty_registry 3)" by code_simp
  have "case bt_get (tasks ?r) 2 of None \<Rightarrow> False | Some a \<Rightarrow> is_terminal (s_state (snapshot a))"
    by code_simp
  then obtain a where a: "bt_get (tasks ?r) 2 = Some a" "is_terminal (s_state (snapshot a))"
    by (auto split: option.splits)
  from task_lifecycle [OF new refl a(1), of ClearFinished]
  show ?thesis
    using clear_finished_get [OF reachable_reg_ok [OF new], of sample_tasks 2] a by simp
qed

text \<open>
  What a task says of itself is consistent: a cancelled task has its cancellation flag set, a
  summary is present exactly for completed tasks and an error exactly for failed ones, progress is
  never reported before the start, and no stored text exceeds the limit by more than the ellipsis.
\<close>

theorem task_fields_consistent:
  assumes "registry_new n = Inr r0" and "bt_get (tasks (run task_exec cs r0)) i = Some a"
  shows "(s_cancel_requested (snapshot a) \<longrightarrow> cancelled a) \<and>
    (s_state (snapshot a) = Cancelled \<longrightarrow> s_cancel_requested (snapshot a)) \<and>
    (s_summary (snapshot a) \<noteq> None \<longleftrightarrow> s_state (snapshot a) = Completed) \<and>
    (s_error (snapshot a) \<noteq> None \<longleftrightarrow> s_state (snapshot a) = Failed) \<and>
    (s_progress (snapshot a) \<noteq> None \<longrightarrow> s_state (snapshot a) \<noteq> Queued) \<and>
    (\<forall>e. s_error (snapshot a) = Some e \<longrightarrow> str_len e \<le> 16387)"
  using reg_okD(6) [OF reachable_reg_ok [OF assms(1)] assms(2)]
  by (simp add: record_ok_def Let_def text_bound_def task_limits)

theorem task_fields_consistent_witness:
  "\<exists>a. bt_get (tasks (run task_exec sample_tasks (empty_registry 3))) 2 = Some a \<and> cancelled a"
proof -
  let ?r = "run task_exec sample_tasks (empty_registry 3)"
  have new: "registry_new 3 = Inr (empty_registry 3)" by code_simp
  have "case bt_get (tasks ?r) 2 of None \<Rightarrow> False | Some a \<Rightarrow> s_state (snapshot a) = Cancelled"
    by code_simp
  then obtain a where a: "bt_get (tasks ?r) 2 = Some a" "s_state (snapshot a) = Cancelled"
    by (auto split: option.splits)
  from task_fields_consistent [OF new a(1)] a show ?thesis by blast
qed


lemma register_locked_Inr:
  assumes "reg_ok r" and "fst (register_locked kind source dest retry_of r) = Inr i"
  shows "i = next_id r \<and> unat (next_id (snd (register_locked kind source dest retry_of r))) =
      unat (next_id r) + 1 \<and>
    get_task i (snd (register_locked kind source dest retry_of r)) =
      Some (new_snapshot i kind source dest retry_of)"
proof -
  note mc = make_capacity_result [OF assms(1)]
  obtain res r' where m: "make_capacity r = (res, r')" by (cases "make_capacity r")
  have "bt_ok (tasks r')" "next_id r' = next_id r" using reg_okD(1) [OF mc(1)] mc(4) m by auto
  with m assms(2) show ?thesis
    by (auto simp: register_locked_def Let_def get_task_def bt.get_put
        dest!: checked_add_u64_Some split: if_splits sum.splits option.splits)
qed

lemma register_locked_next:
  assumes "reg_ok r"
  shows "next_id r \<le> next_id (snd (register_locked kind source dest retry_of r))"
proof (cases "fst (register_locked kind source dest retry_of r)")
  case (Inl e)
  with make_capacity_result(4) [OF assms] show ?thesis
    by (cases "make_capacity r")
      (auto simp: register_locked_def Let_def split: if_splits sum.splits option.splits)
next
  case (Inr i)
  from register_locked_Inr [OF assms this] show ?thesis by (simp add: word_le_nat_alt)
qed

lemmas lawful_next = lawful_ops [THEN lawful_op_rest, THEN conjunct1]

lemma task_exec_next: "reg_ok r \<Longrightarrow> next_id r \<le> next_id (snd (task_exec c r))"
  by (cases c) (simp_all add: lawful_next register_def register_retry_def register_locked_next
      token_cancel_def clear_finished_def Let_def split: sum.splits option.splits)

lemma run_next: "reg_ok r \<Longrightarrow> next_id r \<le> next_id (run task_exec cs r)"
proof (induction cs arbitrary: r)
  case (Cons c cs)
  from task_exec_next [OF Cons.prems, of c] Cons.IH [OF registry.keep [OF Cons.prems, of c]]
  show ?case by simp
qed simp

text \<open>
  Ids are never reused: of two registrations in one history the later one has the greater id,
  even when the earlier task has been evicted or cleared in between.
\<close>

theorem ids_never_reused:
  assumes "registry_new n = Inr r0" and "r = run task_exec cs r0"
    and "register kind source dest r = (Inr i, r')"
    and "register kind' source' dest' (run task_exec cs' r') = (Inr j, r'')"
  shows "i < j"
proof -
  note ok = reachable_reg_ok [OF assms(1), of cs, folded assms(2)]
  have first: "register_locked kind source dest None r = (Inr i, r')"
    using assms(3) by (auto simp: register_def split: sum.splits)
  have ok': "reg_ok r'" using register_keeps [OF ok, of kind source dest] assms(3) by simp
  have "register_locked kind' source' dest' None (run task_exec cs' r') = (Inr j, r'')"
    using assms(4) by (auto simp: register_def split: sum.splits)
  then have "j = next_id (run task_exec cs' r')"
    using register_locked_Inr [OF registry.run_keep [OF ok']] by (metis fst_conv)
  moreover have "i < next_id r'"
    using register_locked_Inr [OF ok, of kind source dest None i] first
    by (simp add: word_less_nat_alt)
  ultimately show ?thesis using run_next [OF ok', of cs'] by simp
qed

theorem ids_never_reused_witness:
  "\<exists>i r' j r''. register UploadFile (lit ''a'') (lit ''/x'') (empty_registry 3) = (Inr i, r') \<and>
    register UploadFile (lit ''a'') (lit ''/y'') (run task_exec [MarkCancelled 1, ClearFinished] r') =
      (Inr j, r'') \<and> i < j"
proof -
  have new: "registry_new 3 = Inr (empty_registry 3)" by code_simp
  obtain i r' where a: "register UploadFile (lit ''a'') (lit ''/x'') (empty_registry 3) = (Inr i, r')"
    and b: "is_ok (fst (register UploadFile (lit ''a'') (lit ''/y'')
      (run task_exec [MarkCancelled 1, ClearFinished] r')))"
  proof -
    have "case register UploadFile (lit ''a'') (lit ''/x'') (empty_registry 3) of
        (Inl e, r') \<Rightarrow> False
      | (Inr i, r') \<Rightarrow> is_ok (fst (register UploadFile (lit ''a'') (lit ''/y'')
          (run task_exec [MarkCancelled 1, ClearFinished] r')))"
      by code_simp
    then show thesis using that by (auto split: prod.splits sum.splits)
  qed
  from b obtain j r'' where c: "register UploadFile (lit ''a'') (lit ''/y'')
      (run task_exec [MarkCancelled 1, ClearFinished] r') = (Inr j, r'')"
    by (metis is_ok_iff prod.collapse)
  have "i < j"
    using ids_never_reused [OF new _ a c, of "[]"] by simp
  with a c show ?thesis by blast
qed

text \<open>
  Registration is refused for exactly four reasons: an empty or oversized source or
  destination, an unfinished task with the same destination and direction, a registry full of
  unfinished tasks, or an exhausted id counter. In particular finished tasks never block a new one.
\<close>

theorem register_accepts_iff:
  assumes "registry_new n = Inr r0" and "r = run task_exec cs r0"
  shows "is_ok (fst (register kind source dest r)) \<longleftrightarrow>
    validate_task_text source = Inr () \<and> validate_task_text dest = Inr () \<and>
    (\<forall>a \<in> set (bt_values (tasks r)). \<not> conflicts kind dest a) \<and>
    (length (tasks r) < max_retained r \<or>
     (\<exists>a \<in> set (bt_values (tasks r)). is_terminal (s_state (snapshot a)))) \<and>
    unat (next_id r) + 1 < 2 ^ 64"
proof -
  note ok = reachable_reg_ok [OF assms(1), of cs, folded assms(2)]
  have evict: "(\<exists>i \<in> set (order r). evictable r i) \<longleftrightarrow>
      (\<exists>a \<in> set (bt_values (tasks r)). is_terminal (s_state (snapshot a)))"
  proof -
    have "(i, a) \<in> set (tasks r) \<Longrightarrow> evictable r i = is_terminal (s_state (snapshot a))" for i a
      by (simp add: evictable_def flip: bt_get_iff [OF reg_okD(1) [OF ok]])
    then show ?thesis unfolding reg_okD(3) [OF ok] by force
  qed
  have "is_ok (fst (make_capacity r)) \<longleftrightarrow> length (tasks r) < max_retained r \<or>
      (\<exists>a \<in> set (bt_values (tasks r)). is_terminal (s_state (snapshot a)))"
    using position_None [of "evictable r" "order r"] evict
    by (auto simp: make_capacity_eq [OF ok] split: option.splits)
  moreover have "checked_add_u64 (next_id r) 1 \<noteq> None \<longleftrightarrow> unat (next_id r) + 1 < 2 ^ 64"
    by (simp add: checked_add_u64_def)
  moreover have "next_id (snd (make_capacity r)) = next_id r" by (rule make_capacity_result(4) [OF ok])
  moreover have "is_ok (fst (register_locked kind source dest None r)) \<longleftrightarrow>
      (\<forall>a \<in> set (bt_values (tasks r)). \<not> conflicts kind dest a) \<and> is_ok (fst (make_capacity r)) \<and>
      checked_add_u64 (next_id (snd (make_capacity r))) 1 \<noteq> None"
    by (auto simp: register_locked_def Let_def split: prod.splits sum.splits option.splits
        simp del: set_map)
  moreover have "is_ok (fst (register kind source dest r)) \<longleftrightarrow>
      validate_task_text source = Inr () \<and> validate_task_text dest = Inr () \<and>
      is_ok (fst (register_locked kind source dest None r))"
    by (auto simp: register_def and_then_eq_Inr and_then_eq_Inl split: sum.splits)
  ultimately show ?thesis by (simp only: conj_assoc)
qed

theorem register_accepts_iff_witness:
  "is_ok (fst (register UploadFile (lit ''a'') (lit ''/x'') (empty_registry 3)))"
  using register_accepts_iff [of 3 "empty_registry 3" "empty_registry 3" "[]" UploadFile
      "lit ''a''" "lit ''/x''"]
  by (simp add: registry_new_def validate_retention_def task_limits validate_task_text_def
      empty_registry_def lit_simps utf8_len_def)

text \<open>
  A text longer than 16 KiB is cut at a character boundary: the result is the longest prefix
  that fits the limit, followed by three dots; a shorter text is kept as it is.
\<close>

theorem bounded_text_longest_prefix:
  "if str_len v \<le> 16384 then bounded_text v = v
   else \<exists>u t. v = u @ t \<and> bounded_text v = u @ lit ''...'' \<and> str_len u \<le> 16384 \<and>
     (\<forall>u' t'. v = u' @ t' \<and> str_len u' \<le> 16384 \<longrightarrow> str_len u' \<le> str_len u)"
proof (cases "str_len v \<le> 16384")
  case False
  then have "MAX_TRANSFER_TASK_TEXT_BYTES < str_len v" by (simp add: task_limits)
  from bounded_text_long [OF this] False show ?thesis by (simp add: task_limits)
qed (simp add: bounded_text_def task_limits)

theorem bounded_text_longest_prefix_witness:
  "bounded_text (lit ''short'') = lit ''short''"
  using bounded_text_longest_prefix [of "lit ''short''"] by (simp add: lit_simps utf8_len_def)

end
