(* ===== verification/Privileged_Install.thy ===== *)
theory Privileged_Install
  imports Remote_Command Remote_Path Transfer_Task "HOL-Library.Sublist"
begin

section \<open>Uploads installed as another user\<close>

text \<open>
  Model of \<open>privileged.rs\<close> and of \<open>unique_staging_path\<close> of \<open>transfer.rs\<close>: an upload is staged under
  \<open>/tmp\<close> as the login user and then moved into place by a shell command run through \<open>sudo\<close>. The
  SSH channel and the SFTP session are a parameter, the record \<open>Remote\<close>: what each request answers
  and how it changes the server, a state of any type. \<open>sent\<close> is a history variable: the command
  lines handed to the server, in order. Of \<open>TransferOptions\<close> the two handles \<open>cancellation\<close> and
  \<open>progress\<close> are left out, since this code only passes them on. A mode is printed in octal.
\<close>

record TransferOptions =
  to_resume :: bool
  to_atomic :: bool
  to_file_concurrency :: nat
  to_sftp_write_concurrency :: nat
  to_sftp_packet_size :: u32
  to_request_timeout_secs :: u64

record CommandOutput =
  co_stdout :: "u8 list"
  co_stderr :: "u8 list"
  co_exit_status :: "u32 option"

datatype FileKind = SymlinkEntry | DirectoryEntry | OtherEntry

datatype (plugins only: code size) privileged_error =
    InvalidMode u32 | RemotePathEmpty | DestinationIsRoot | DestinationHasDots
  | StagingFailed rstring | SourceNotStat rstring | SourceNotDirectory
  | TmpNotInspected rstring | TmpIsSymlink | TmpNotDirectory | StagingNotExclusive rstring
  | SftpFailed rstring | ExecFailed rstring | SudoRefused user_error
  | InstallStatus u32 "u8 list" | InstallNoStatus

record 'w Remote =
  rm_platform :: RemotePlatform
  rm_exec :: "rstring \<Rightarrow> 'w \<Rightarrow> (rstring + CommandOutput) \<times> 'w"
  rm_upload :: "rstring \<Rightarrow> TransferOptions \<Rightarrow> 'w \<Rightarrow> (rstring + u64) \<times> 'w"
  rm_upload_recursive :: "rstring \<Rightarrow> TransferOptions \<Rightarrow> 'w \<Rightarrow> (rstring + TransferSummary) \<times> 'w"
  rm_sftp_open :: "'w \<Rightarrow> (rstring + unit) \<times> 'w"
  rm_sftp_lstat :: "rstring \<Rightarrow> 'w \<Rightarrow> rstring + FileKind"
  rm_sftp_mkdir :: "rstring \<Rightarrow> 'w \<Rightarrow> (rstring + unit) \<times> 'w"
  rm_sftp_close :: "'w \<Rightarrow> (rstring + unit) \<times> 'w"

record 'w Wire =
  server :: 'w
  sent :: "rstring list"

subsection \<open>Checks and command texts\<close>

fun octal :: "nat \<Rightarrow> rstring" where
  "octal n = (if n < 8 then [48 + n] else octal (n div 8) @ [48 + n mod 8])"

declare octal.simps [simp del]

definition validate_mode :: "u32 \<Rightarrow> privileged_error + unit" where
  "validate_mode mode = (if 0xFFF < mode then Inl (InvalidMode mode) else Inr ())"

definition validate_recursive_destination :: "rstring \<Rightarrow> privileged_error + unit" where
  "validate_recursive_destination p =
     (if p = [] \<or> p = [47] then Inl DestinationIsRoot
      else if list_ex (\<lambda>component. component = [46] \<or> component = [46, 46]) (split_on (\<lambda>c. c = 47) p)
      then Inl DestinationHasDots
      else Inr ())"

definition ensure_privileged_install_success :: "CommandOutput \<Rightarrow> privileged_error + unit" where
  "ensure_privileged_install_success out =
     (case co_exit_status out of
        Some status \<Rightarrow> if status = 0 then Inr () else Inl (InstallStatus status (co_stderr out))
      | None \<Rightarrow> Inl InstallNoStatus)"

definition privileged_tree_install_command ::
  "rstring \<Rightarrow> rstring \<Rightarrow> rstring \<Rightarrow> u32 \<Rightarrow> u32 \<Rightarrow> rstring" where
  "privileged_tree_install_command staging_path remote_path work_path file_mode directory_mode =
     (let staging = quote_posix staging_path; target = quote_posix remote_path;
          work = quote_posix work_path;
          fm = octal (unat file_mode); dm = octal (unat directory_mode) in
      lit ''set -e; rm -rf -- '' @ work @ lit ''; install -d -m '' @ dm @ lit '' -- '' @ work @
      lit ''; cp -R -- '' @ staging @ lit ''/. '' @ work @ lit ''/; find '' @ work @
      lit '' -type d -exec chmod '' @ dm @ lit '' -- {} +; find '' @ work @
      lit '' -type f -exec chmod '' @ fm @ lit '' -- {} +; if [ -e '' @ target @
      lit '' ] || [ -L '' @ target @ lit '' ]; then rm -rf -- '' @ target @
      lit ''; fi; mv -- '' @ work @ lit '' '' @ target)"

definition safe_name_char :: "uchar \<Rightarrow> uchar" where
  "safe_name_char c = (if is_ascii_alphanumeric c \<or> c \<in> {46, 45, 95} then c else 95)"

text \<open>\<open>stamp\<close> is the clock reading in nanoseconds.\<close>

definition unique_staging_path :: "nat \<Rightarrow> rstring \<Rightarrow> rstring" where
  "unique_staging_path stamp file_name =
     lit ''/tmp/.kaduox-'' @ dec stamp @ [45] @ map safe_name_char file_name"

definition privileged_work_path :: "rstring \<Rightarrow> rstring" where
  "privileged_work_path remote_path = remote_path @ lit ''.kaduox.privileged.part''"

definition install_file_command :: "rstring \<Rightarrow> rstring \<Rightarrow> u32 \<Rightarrow> rstring" where
  "install_file_command staging_path remote_path mode =
     lit ''install -m '' @ octal (unat mode) @ lit '' -- '' @ quote_posix staging_path @ [32] @
     quote_posix (privileged_work_path remote_path) @ lit '' && mv -f -- '' @
     quote_posix (privileged_work_path remote_path) @ [32] @ quote_posix remote_path"

subsection \<open>The operations\<close>

text \<open>\<open>SshClient::exec\<close>: the command is wrapped for the user, then sent.\<close>

definition exec ::
  "'w Remote \<Rightarrow> rstring \<Rightarrow> RemoteUser \<Rightarrow> 'w Wire \<Rightarrow> (privileged_error + CommandOutput) \<times> 'w Wire" where
  "exec r command remote_user w =
     (case command_for_user command remote_user (rm_platform r) of
        Inl e \<Rightarrow> (Inl (SudoRefused e), w)
      | Inr line \<Rightarrow>
          (case rm_exec r line (server w) of
             (res, s') \<Rightarrow> (map_err ExecFailed res, \<lparr>server = s', sent = sent w @ [line]\<rparr>)))"

definition upload_privileged ::
  "'w Remote \<Rightarrow> nat \<Rightarrow> rstring option \<Rightarrow> rstring \<Rightarrow> rstring \<Rightarrow> u32 \<Rightarrow> TransferOptions \<Rightarrow>
   'w Wire \<Rightarrow> (privileged_error + u64) \<times> 'w Wire" where
  "upload_privileged r stamp local_name remote_path as_user mode options w =
     (case validate_mode mode of
        Inl e \<Rightarrow> (Inl e, w)
      | Inr _ \<Rightarrow>
          if remote_path = [] then (Inl RemotePathEmpty, w)
          else
            let staging_path =
                  unique_staging_path stamp (case local_name of Some n \<Rightarrow> n | None \<Rightarrow> lit ''upload'');
                staging_options = options\<lparr>to_resume := False, to_atomic := True\<rparr>
            in case rm_upload r staging_path staging_options (server w) of
                 (Inl e, s') \<Rightarrow> (Inl (StagingFailed e), w\<lparr>server := s'\<rparr>)
               | (Inr bytes, s') \<Rightarrow>
                   let (result, w2) =
                         exec r (install_file_command staging_path remote_path mode) (Sudo as_user)
                           (w\<lparr>server := s'\<rparr>);
                       (_, w3) = exec r (lit ''rm -f -- '' @ quote_posix staging_path) Current w2
                   in (and_then result (\<lambda>out.
                       and_then (ensure_privileged_install_success out) (\<lambda>_. Inr bytes)), w3))"

definition create_privileged_staging_directory ::
  "'w Remote \<Rightarrow> rstring \<Rightarrow> 'w Wire \<Rightarrow> (privileged_error + unit) \<times> 'w Wire" where
  "create_privileged_staging_directory r staging_path w =
     (case rm_sftp_open r (server w) of
        (Inl e, s1) \<Rightarrow> (Inl (SftpFailed e), w\<lparr>server := s1\<rparr>)
      | (Inr _, s1) \<Rightarrow>
          let (result, s2) =
                (case rm_sftp_lstat r (lit ''/tmp'') s1 of
                   Inl e \<Rightarrow> (Inl (TmpNotInspected e), s1)
                 | Inr SymlinkEntry \<Rightarrow> (Inl TmpIsSymlink, s1)
                 | Inr OtherEntry \<Rightarrow> (Inl TmpNotDirectory, s1)
                 | Inr DirectoryEntry \<Rightarrow>
                     (case rm_sftp_mkdir r staging_path s1 of
                        (res, s') \<Rightarrow> (map_err StagingNotExclusive res, s')));
              (close_result, s3) = rm_sftp_close r s2
          in (and_then result (\<lambda>_. map_err SftpFailed close_result), w\<lparr>server := s3\<rparr>))"

text \<open>\<open>upload_privileged_recursive\<close> in three parts: the checks, the transfer and install into an owned
  staging directory, and the whole.\<close>

definition recursive_checks ::
  "u32 \<Rightarrow> u32 \<Rightarrow> rstring \<Rightarrow> rstring + FileKind \<Rightarrow> privileged_error + unit" where
  "recursive_checks file_mode directory_mode remote_path local_kind =
     and_then (validate_mode file_mode) (\<lambda>_.
     and_then (validate_mode directory_mode) (\<lambda>_.
     and_then (validate_recursive_destination remote_path) (\<lambda>_.
     and_then (map_err SourceNotStat local_kind) (\<lambda>kind.
       if kind \<noteq> DirectoryEntry then Inl SourceNotDirectory else Inr ()))))"

definition upload_staged_tree ::
  "'w Remote \<Rightarrow> rstring \<Rightarrow> rstring \<Rightarrow> rstring \<Rightarrow> u32 \<Rightarrow> u32 \<Rightarrow> TransferOptions \<Rightarrow> 'w Wire \<Rightarrow>
   (privileged_error + TransferSummary) \<times> 'w Wire" where
  "upload_staged_tree r staging_path remote_path as_user file_mode directory_mode staging_options w =
     (let work_path = privileged_work_path remote_path;
          staging_cleanup = lit ''rm -rf -- '' @ quote_posix staging_path
      in case rm_upload_recursive r staging_path staging_options (server w) of
           (Inl e, s') \<Rightarrow>
             (Inl (StagingFailed e), snd (exec r staging_cleanup Current (w\<lparr>server := s'\<rparr>)))
         | (Inr summary, s') \<Rightarrow>
             let (result, w2) =
                   exec r (privileged_tree_install_command staging_path remote_path work_path
                     file_mode directory_mode) (Sudo as_user) (w\<lparr>server := s'\<rparr>);
                 (_, w3) = exec r staging_cleanup Current w2;
                 (_, w4) = exec r (lit ''rm -rf -- '' @ quote_posix work_path) (Sudo as_user) w3
             in (and_then result (\<lambda>out.
                 and_then (ensure_privileged_install_success out) (\<lambda>_. Inr summary)), w4))"

definition upload_privileged_recursive ::
  "'w Remote \<Rightarrow> nat \<Rightarrow> rstring + FileKind \<Rightarrow> rstring option \<Rightarrow> rstring \<Rightarrow> rstring \<Rightarrow> u32 \<Rightarrow> u32 \<Rightarrow>
   TransferOptions \<Rightarrow> 'w Wire \<Rightarrow> (privileged_error + TransferSummary) \<times> 'w Wire" where
  "upload_privileged_recursive r stamp local_kind local_name remote_path as_user file_mode
       directory_mode options w =
     (case recursive_checks file_mode directory_mode remote_path local_kind of
        Inl e \<Rightarrow> (Inl e, w)
      | Inr _ \<Rightarrow>
          let staging_path =
                unique_staging_path stamp (case local_name of Some n \<Rightarrow> n | None \<Rightarrow> lit ''tree'')
          in case create_privileged_staging_directory r staging_path w of
               (Inl e, w1) \<Rightarrow> (Inl e, w1)
             | (Inr _, w1) \<Rightarrow>
                 upload_staged_tree r staging_path remote_path as_user file_mode directory_mode
                   (options\<lparr>to_resume := False, to_atomic := True\<rparr>) w1)"

section \<open>Lemmas: reading command templates\<close>

text \<open>
  A template is a sequence of atoms: quoted values, raw text without quotes, blanks or operators,
  and the separators. The lexer reads it atom by atom.
\<close>

datatype atom = Quoted rstring | Raw rstring | Blank | SemiAtom | OrAtom | AndAtom

fun atom_text :: "atom \<Rightarrow> rstring" where
  "atom_text (Quoted v) = quote_posix v"
| "atom_text (Raw v) = v"
| "atom_text Blank = [32]"
| "atom_text SemiAtom = [59]"
| "atom_text OrAtom = [124, 124]"
| "atom_text AndAtom = [38, 38]"

definition raw_char :: "uchar \<Rightarrow> bool" where
  "raw_char c \<longleftrightarrow> c \<notin> {0, 32, 59, 38, 124, 39, 34}"

fun atom_ok :: "atom \<Rightarrow> bool" where
  "atom_ok (Quoted v) = (0 \<notin> set v)"
| "atom_ok (Raw v) = (v \<noteq> [] \<and> list_all raw_char v)"
| "atom_ok a = True"

fun atoms_lex :: "qword option \<Rightarrow> atom list \<Rightarrow> sh_token list" where
  "atoms_lex w [] = flush w []"
| "atoms_lex w (Quoted v # as) = atoms_lex (Some (started w @ quoted_word v)) as"
| "atoms_lex w (Raw v # as) = atoms_lex (Some (started w @ map (\<lambda>c. (c, False)) v)) as"
| "atoms_lex w (Blank # as) = flush w (atoms_lex None as)"
| "atoms_lex w (SemiAtom # as) = flush w (Semi # atoms_lex None as)"
| "atoms_lex w (OrAtom # as) = flush w (OrIf # atoms_lex None as)"
| "atoms_lex w (AndAtom # as) = flush w (AndIf # atoms_lex None as)"

lemma lex_raw:
  "v \<noteq> [] \<Longrightarrow> list_all raw_char v \<Longrightarrow>
     sh_lex Bare w (v @ rest) = sh_lex Bare (Some (started w @ map (\<lambda>c. (c, False)) v)) rest"
proof (induction v arbitrary: w)
  case (Cons c v)
  have "sh_lex Bare w (c # v @ rest) = sh_lex Bare (Some (started w @ [(c, False)])) (v @ rest)"
    using Cons.prems by (simp add: raw_char_def)
  then show ?case using Cons by (cases "v = []") (simp_all del: sh_lex.simps)
qed simp

lemma lex_atoms:
  "list_all atom_ok as \<Longrightarrow> sh_lex Bare w (concat (map atom_text as)) = Some (atoms_lex w as)"
proof (induction w as rule: atoms_lex.induct)
  case (2 w v as)
  then show ?case by (simp add: lex_quote_posix del: sh_lex.simps)
next
  case (3 w v as)
  then show ?case by (simp add: lex_raw del: sh_lex.simps)
qed auto

text \<open>The tokens of a text, with the words as plain text; \<open>None\<close> when one is not literal.\<close>

datatype plain_token = W rstring | Op sh_token

fun plain :: "sh_token \<Rightarrow> plain_token option" where
  "plain (QWord w) = (if literal_word w then Some (W (word_text w)) else None)"
| "plain t = Some (Op t)"

definition sh_tokens :: "rstring \<Rightarrow> plain_token list option" where
  "sh_tokens s =
     (case sh_lex Bare None s of None \<Rightarrow> None | Some ts \<Rightarrow> those (map plain ts))"

definition words :: "string list \<Rightarrow> plain_token list" where
  "words xs = map (\<lambda>x. W (lit x)) xs"

lemma octal_digits: "c \<in> set (octal n) \<Longrightarrow> is_ascii_digit c"
proof (induction n rule: octal.induct)
  case (1 n)
  then show ?case by (subst (asm) octal.simps) (auto simp: is_ascii_digit_def split: if_splits)
qed

lemma octal_not_Nil [simp]: "octal n \<noteq> []"
  by (subst octal.simps) simp

lemma digit_raw: "is_ascii_digit c \<Longrightarrow> raw_char c"
  by (auto simp: raw_char_def is_ascii_digit_def)

lemma octal_raw [simp]: "list_all raw_char (octal n)"
  using octal_digits [of _ n] by (simp add: list_all_iff digit_raw)

lemma octal_inert [simp]: "list_all inert (octal n)"
  using octal_digits [of _ n] by (simp add: list_all_iff inert_def is_ascii_alphanumeric_def)

definition inert_word :: "qword \<Rightarrow> bool" where
  "inert_word w \<longleftrightarrow> list_all (\<lambda>(c, q). q \<or> inert c) w"

lemma inert_word_append [simp]: "inert_word (u @ v) \<longleftrightarrow> inert_word u \<and> inert_word v"
  by (simp add: inert_word_def)

lemma inert_word_unquoted [simp]: "inert_word (map (\<lambda>c. (c, False)) t) \<longleftrightarrow> list_all inert t"
  by (simp add: inert_word_def list_all_iff)

lemma inert_word_quoted [simp]: "inert_word (quoted_word t)"
  unfolding inert_word_def list_all_iff by (auto dest: quoted_word_inert)

lemma plain_inert: "inert_word w \<Longrightarrow> plain (QWord w) = Some (W (word_text w))"
  by (simp add: literal_word_def inert_word_def)

lemma word_text_unquoted [simp]: "word_text (map (\<lambda>c. (c, False)) t) = t"
  by (simp add: comp_def)

text \<open>The words that are literal only when they stand alone.\<close>

lemma plain_symbol:
  "t \<in> {[91], [93], [123, 125]} \<Longrightarrow> plain (QWord (map (\<lambda>c. (c, False)) t)) = Some (W t)"
  by (auto simp: literal_word_def)

text \<open>The install script as a template.\<close>

definition tree_install_atoms :: "rstring \<Rightarrow> rstring \<Rightarrow> rstring \<Rightarrow> rstring \<Rightarrow> rstring \<Rightarrow> atom list" where
  "tree_install_atoms s t w fm dm =
     (let raw = (\<lambda>x. [Raw (lit x), Blank]) in
      raw ''set'' @ [Raw (lit ''-e''), SemiAtom, Blank] @
      raw ''rm'' @ raw ''-rf'' @ raw ''--'' @ [Quoted w, SemiAtom, Blank] @
      raw ''install'' @ raw ''-d'' @ raw ''-m'' @ [Raw dm, Blank] @ raw ''--'' @ [Quoted w, SemiAtom, Blank] @
      raw ''cp'' @ raw ''-R'' @ raw ''--'' @ [Quoted s, Raw (lit ''/.''), Blank, Quoted w, Raw (lit ''/''), SemiAtom, Blank] @
      raw ''find'' @ [Quoted w, Blank] @ raw ''-type'' @ raw ''d'' @ raw ''-exec'' @ raw ''chmod'' @ [Raw dm, Blank] @
      raw ''--'' @ raw ''{}'' @ [Raw (lit ''+''), SemiAtom, Blank] @
      raw ''find'' @ [Quoted w, Blank] @ raw ''-type'' @ raw ''f'' @ raw ''-exec'' @ raw ''chmod'' @ [Raw fm, Blank] @
      raw ''--'' @ raw ''{}'' @ [Raw (lit ''+''), SemiAtom, Blank] @
      raw ''if'' @ raw ''['' @ raw ''-e'' @ [Quoted t, Blank] @ raw '']'' @ [OrAtom, Blank] @
      raw ''['' @ raw ''-L'' @ [Quoted t, Blank, Raw (lit '']''), SemiAtom, Blank] @
      raw ''then'' @ raw ''rm'' @ raw ''-rf'' @ raw ''--'' @ [Quoted t, SemiAtom, Blank] @
      [Raw (lit ''fi''), SemiAtom, Blank] @
      raw ''mv'' @ raw ''--'' @ [Quoted w, Blank, Quoted t])"

lemma tree_install_text:
  "privileged_tree_install_command s t w fm dm =
     concat (map atom_text (tree_install_atoms s t w (octal (unat fm)) (octal (unat dm))))"
  by (simp add: privileged_tree_install_command_def tree_install_atoms_def Let_def lit_simps)

lemma tree_install_ok:
  assumes "0 \<notin> set s" "0 \<notin> set t" "0 \<notin> set w"
  shows "list_all atom_ok (tree_install_atoms s t w (octal m) (octal n))"
  using assms by (simp add: tree_install_atoms_def Let_def lit_simps raw_char_def)


lemma those_Cons_Some: "those (Some x # xs) = map_option (\<lambda>ys. x # ys) (those xs)"
  by simp

lemma inert_literals:
  "list_all (\<lambda>x. list_all inert (lit x))
     [''set'', ''-e'', ''rm'', ''-rf'', ''--'', ''install'', ''-d'', ''-m'', ''cp'', ''-R'', ''/.'', ''/'',
      ''find'', ''-type'', ''d'', ''f'', ''-exec'', ''chmod'', ''+'', ''if'', ''-L'', ''then'', ''fi'',
      ''mv'', ''-f'']"
  by code_simp

lemmas inert_literal_simps = inert_literals [unfolded list.pred_inject]

lemma symbol_literals:
  "plain (QWord (map (\<lambda>c. (c, False)) (lit ''['')))= Some (W (lit ''[''))"
  "plain (QWord (map (\<lambda>c. (c, False)) (lit '']''))) = Some (W (lit '']''))"
  "plain (QWord (map (\<lambda>c. (c, False)) (lit ''{}''))) = Some (W (lit ''{}''))"
  by code_simp+

definition tree_install_tokens :: "rstring \<Rightarrow> rstring \<Rightarrow> rstring \<Rightarrow> rstring \<Rightarrow> rstring \<Rightarrow> plain_token list" where
  "tree_install_tokens s t w fm dm =
     words [''set'', ''-e''] @ [Op Semi] @
     words [''rm'', ''-rf'', ''--''] @ [W w, Op Semi] @
     words [''install'', ''-d'', ''-m''] @ [W dm] @ words [''--''] @ [W w, Op Semi] @
     words [''cp'', ''-R'', ''--''] @ [W (s @ lit ''/.''), W (w @ lit ''/''), Op Semi] @
     words [''find''] @ [W w] @ words [''-type'', ''d'', ''-exec'', ''chmod''] @ [W dm] @
     words [''--'', ''{}'', ''+''] @ [Op Semi] @
     words [''find''] @ [W w] @ words [''-type'', ''f'', ''-exec'', ''chmod''] @ [W fm] @
     words [''--'', ''{}'', ''+''] @ [Op Semi] @
     words [''if'', ''['', ''-e''] @ [W t] @ words ['']''] @ [Op OrIf] @
     words [''['', ''-L''] @ [W t] @ words ['']''] @ [Op Semi] @
     words [''then'', ''rm'', ''-rf'', ''--''] @ [W t, Op Semi] @
     words [''fi''] @ [Op Semi] @
     words [''mv'', ''--''] @ [W w, W t]"

lemma sh_tokens_tree_install:
  assumes "0 \<notin> set s" "0 \<notin> set t" "0 \<notin> set w"
  shows "sh_tokens (privileged_tree_install_command s t w fm dm) =
         Some (tree_install_tokens s t w (octal (unat fm)) (octal (unat dm)))"
proof -
  have "sh_lex Bare None (privileged_tree_install_command s t w fm dm) =
        Some (atoms_lex None (tree_install_atoms s t w (octal (unat fm)) (octal (unat dm))))"
    unfolding tree_install_text by (rule lex_atoms [OF tree_install_ok [OF assms]])
  then show ?thesis
    by (simp add: sh_tokens_def tree_install_atoms_def tree_install_tokens_def Let_def words_def
          plain_inert inert_literal_simps symbol_literals comp_def del: plain.simps(1))
qed

lemma sh_tokens_install_file:
  assumes "0 \<notin> set s" "0 \<notin> set p"
  shows "sh_tokens (install_file_command s p mode) =
         Some (words [''install'', ''-m''] @ [W (octal (unat mode))] @ words [''--''] @
           [W s, W (privileged_work_path p), Op AndIf] @
           words [''mv'', ''-f'', ''--''] @ [W (privileged_work_path p), W p])"
proof -
  let ?work = "privileged_work_path p"
  let ?atoms = "[Raw (lit ''install''), Blank, Raw (lit ''-m''), Blank, Raw (octal (unat mode)), Blank,
     Raw (lit ''--''), Blank, Quoted s, Blank, Quoted ?work, Blank, AndAtom, Blank, Raw (lit ''mv''), Blank,
     Raw (lit ''-f''), Blank, Raw (lit ''--''), Blank, Quoted ?work, Blank, Quoted p]"
  have "0 \<notin> set ?work" using assms(2) by (auto simp: privileged_work_path_def lit_simps)
  then have "list_all atom_ok ?atoms" using assms by (simp add: lit_simps raw_char_def)
  moreover have "install_file_command s p mode = concat (map atom_text ?atoms)"
    by (simp add: install_file_command_def lit_simps)
  ultimately have "sh_lex Bare None (install_file_command s p mode) = Some (atoms_lex None ?atoms)"
    using lex_atoms by metis
  then show ?thesis
    by (simp add: sh_tokens_def words_def plain_inert inert_literal_simps comp_def del: plain.simps(1))
qed

subsection \<open>Paths\<close>

definition path_components :: "rstring \<Rightarrow> rstring list" where
  "path_components p = filter (\<lambda>c. c \<noteq> []) (split_on (\<lambda>c. c = 47) p)"

lemma split_on_append_plain:
  "\<forall>c \<in> set t. \<not> f c \<Longrightarrow> split_on f (s @ t) = butlast (split_on f s) @ [last (split_on f s) @ t]"
proof (induction s)
  case Nil
  then show ?case by (induction t) auto
next
  case (Cons c s)
  then show ?case by (cases "split_on f s") (auto split: if_splits)
qed

lemma split_on_last_empty: "last (split_on f s) = [] \<longleftrightarrow> s = [] \<or> f (last s)"
proof (cases s rule: rev_cases)
  case (snoc t c)
  then show ?thesis
    using split_on_append_plain [of "[c]" f t] split_on_append [of f c t "[]"] by (cases "f c") auto
qed simp

lemma filter_snoc_last:
  "xs \<noteq> [] \<Longrightarrow> filter P xs = filter P (butlast xs) @ (if P (last xs) then [last xs] else [])"
  by (cases xs rule: rev_cases) auto

abbreviation work_suffix :: rstring where
  "work_suffix \<equiv> lit ''.kaduox.privileged.part''"

lemma work_path_components:
  "path_components (privileged_work_path p) =
     (if p = [] \<or> last p = 47 then path_components p @ [work_suffix]
      else butlast (path_components p) @ [last (path_components p) @ work_suffix])"
proof -
  let ?cs = "split_on (\<lambda>c. c = 47) p"
  have "\<forall>c \<in> set work_suffix. c \<noteq> 47" by code_simp
  then have work: "path_components (privileged_work_path p) =
      filter (\<lambda>c. c \<noteq> []) (butlast ?cs) @ [last ?cs @ work_suffix]"
    by (simp add: path_components_def privileged_work_path_def split_on_append_plain)
  have comps: "path_components p =
      filter (\<lambda>c. c \<noteq> []) (butlast ?cs) @ (if last ?cs \<noteq> [] then [last ?cs] else [])"
    unfolding path_components_def by (rule filter_snoc_last) simp
  show ?thesis
    using work comps split_on_last_empty [of "\<lambda>c. c = 47" p] by auto
qed

lemma path_components_Nil: "path_components p = [] \<longleftrightarrow> set p \<subseteq> {47}"
proof (induction p)
  case (Cons c p)
  then show ?case
    by (cases "split_on (\<lambda>c. c = 47) p") (auto simp: path_components_def)
qed (simp add: path_components_def)

lemma validate_recursive_destination_ok:
  "validate_recursive_destination p = Inr () \<longleftrightarrow>
     p \<noteq> [] \<and> p \<noteq> [47] \<and> [46] \<notin> set (path_components p) \<and> [46, 46] \<notin> set (path_components p)"
  by (auto simp: validate_recursive_destination_def path_components_def list_ex_iff)

text \<open>Specification of \<open>rm -rf\<close> on a file tree given as the list of its paths.\<close>

definition remove_tree :: "rstring list \<Rightarrow> rstring list list \<Rightarrow> rstring list list" where
  "remove_tree p fs = filter (\<lambda>q. \<not> prefix p q) fs"

lemma sibling_not_under:
  assumes "cs \<noteq> []" "prefix (butlast cs @ [last cs @ suf]) q" "prefix cs q" "suf \<noteq> []"
  shows False
proof -
  have "length (butlast cs @ [last cs @ suf]) = length cs" using assms(1) by simp
  then have "butlast cs @ [last cs @ suf] = cs"
    using assms(2,3) by (metis prefix_def append_eq_append_conv)
  then have "last cs @ suf = last cs" using assms(1) by (metis last_snoc)
  then show False using assms(4) by simp
qed

subsection \<open>The commands sent\<close>

lemma staging_path_no_nul: "0 \<notin> set (unique_staging_path stamp n)"
proof -
  have "0 \<notin> set (dec stamp)" using dec_digits [of 0 stamp] by (auto simp: is_ascii_digit_def)
  moreover have "safe_name_char c \<noteq> 0" for c by (auto simp: safe_name_char_def char_class_defs)
  then have "0 \<notin> set (map safe_name_char n)" by (metis ex_map_conv)
  moreover have "0 \<notin> set (lit ''/tmp/.kaduox-'')" by code_simp
  ultimately show ?thesis by (simp add: unique_staging_path_def)
qed

lemma exec_current:
  "exec r command Current w = (case rm_exec r command (server w) of
     (res, s') \<Rightarrow> (map_err ExecFailed res, \<lparr>server = s', sent = sent w @ [command]\<rparr>))"
  by (simp add: exec_def command_for_user_def)

lemma exec_current_sent: "sent (snd (exec r command Current w)) = sent w @ [command]"
  by (simp add: exec_current split: prod.splits)

text \<open>A command sent for another user only grows the history, and succeeds only when it was sent.\<close>

lemma exec_sent_grows: "\<exists>more. sent (snd (exec r command user w)) = sent w @ more"
  by (auto simp: exec_def split: sum.splits prod.splits)

lemma create_staging_sent: "sent (snd (create_privileged_staging_directory r staging w)) = sent w"
  by (auto simp: create_privileged_staging_directory_def Let_def
        split: prod.splits sum.splits FileKind.splits)

lemma staged_tree_cleanup:
  "\<exists>pre post. sent (snd (upload_staged_tree r staging p user fm dm opts w)) =
     sent w @ pre @ (lit ''rm -rf -- '' @ quote_posix staging) # post"
proof -
  let ?rm = "lit ''rm -rf -- '' @ quote_posix staging"
  obtain up s' where up: "rm_upload_recursive r staging opts (server w) = (up, s')" by fastforce
  show ?thesis
  proof (cases up)
    case (Inl e)
    then show ?thesis using up by (auto simp: upload_staged_tree_def Let_def exec_current_sent)
  next
    case (Inr summary)
    let ?w2 = "snd (exec r (privileged_tree_install_command staging p (privileged_work_path p) fm dm)
                 (Sudo user) (w\<lparr>server := s'\<rparr>))"
    let ?w3 = "snd (exec r ?rm Current ?w2)"
    let ?w4 = "snd (exec r (lit ''rm -rf -- '' @ quote_posix (privileged_work_path p)) (Sudo user) ?w3)"
    have end_state: "snd (upload_staged_tree r staging p user fm dm opts w) = ?w4"
      using Inr up by (simp add: upload_staged_tree_def Let_def split_def)
    obtain pre where pre: "sent ?w2 = sent w @ pre"
      using exec_sent_grows [of r _ "Sudo user" "w\<lparr>server := s'\<rparr>"] by fastforce
    obtain post where "sent ?w4 = sent ?w3 @ post"
      using exec_sent_grows [of r _ "Sudo user" ?w3] by blast
    then show ?thesis using pre end_state by (auto simp: exec_current_sent)
  qed
qed

lemma exec_sudo_ok:
  assumes "exec r command (Sudo user) w = (Inr out, w')"
  obtains line where "command_for_user command (Sudo user) Unix = Inr line" "rm_platform r = Unix"
    "sent w' = sent w @ [line]" "fst (rm_exec r line (server w)) = Inr out"
  using assms
  by (cases "rm_platform r"; cases "rm_exec r (lit ''sudo -n -u '' @ quote_posix user @ lit '' -- sh -lc '' @ quote_posix command) (server w)")
     (auto simp: exec_def command_for_user_def split: sum.splits)

section \<open>Theorems\<close>

text \<open>
  The install script removes the destination and then moves the work tree there. The work tree
  survives that removal exactly when the destination was given without a trailing slash: with one,
  the work tree lies inside the destination and is deleted with it.
\<close>

theorem work_tree_survives_iff:
  assumes "validate_recursive_destination p = Inr ()"
  shows "(\<forall>fs. filter (prefix (path_components (privileged_work_path p)))
                 (remove_tree (path_components p) fs) =
               filter (prefix (path_components (privileged_work_path p))) fs)
         \<longleftrightarrow> last p \<noteq> 47"
proof -
  let ?cs = "path_components p" and ?work = "path_components (privileged_work_path p)"
  have p: "p \<noteq> []" using assms by (simp add: validate_recursive_destination_ok)
  show ?thesis
  proof (cases "last p = 47")
    case True
    then have "prefix ?cs ?work" by (simp add: work_path_components)
    then have "filter (prefix ?work) (remove_tree ?cs [?work]) = []" by (simp add: remove_tree_def)
    then show ?thesis using True by (metis (mono_tags) filter.simps list.distinct(1) prefix_order.refl)
  next
    case False
    then have "?cs \<noteq> []" using p path_components_Nil [of p] by (metis last_in_set singletonD subsetD)
    then have "\<not> prefix ?cs q" if "prefix ?work q" for q
      using that sibling_not_under [of ?cs work_suffix q] False p by (auto simp: work_path_components)
    then have "filter (prefix ?work) (remove_tree ?cs fs) = filter (prefix ?work) fs" for fs
      unfolding remove_tree_def filter_filter by (intro filter_cong) auto
    then show ?thesis using False by blast
  qed
qed

theorem work_tree_survives_iff_witness:
  "(\<forall>fs. filter (prefix (path_components (privileged_work_path (lit ''/srv/app''))))
            (remove_tree (path_components (lit ''/srv/app'')) fs) =
          filter (prefix (path_components (privileged_work_path (lit ''/srv/app'')))) fs) \<and>
   \<not> (\<forall>fs. filter (prefix (path_components (privileged_work_path (lit ''/srv/app/''))))
            (remove_tree (path_components (lit ''/srv/app/'')) fs) =
          filter (prefix (path_components (privileged_work_path (lit ''/srv/app/'')))) fs)"
proof -
  have ok: "validate_recursive_destination (lit ''/srv/app'') = Inr ()"
    "validate_recursive_destination (lit ''/srv/app/'') = Inr ()" by code_simp+
  have "last (lit ''/srv/app'') \<noteq> 47" "last (lit ''/srv/app/'') = 47" by code_simp+
  then show ?thesis
    using work_tree_survives_iff [OF ok(1)] work_tree_survives_iff [OF ok(2)] by blast
qed

text \<open>
  The check that keeps the root directory from being a recursive destination compares with the
  text \<open>/\<close> only: the paths it accepts that still name the root are those of two or more slashes.
\<close>

theorem root_destination_gap:
  "validate_recursive_destination p = Inr () \<and> path_components p = [] \<longleftrightarrow>
     (\<exists>n \<ge> 2. p = replicate n 47)"
proof
  assume *: "validate_recursive_destination p = Inr () \<and> path_components p = []"
  then have p: "p = replicate (length p) 47"
    by (metis path_components_Nil replicate_length_same singletonD subsetD)
  moreover have "p \<noteq> []" "p \<noteq> [47]" using * by (simp_all add: validate_recursive_destination_ok)
  then have "length p \<ge> 2" using p by (cases p; cases "tl p") auto
  ultimately show "\<exists>n \<ge> 2. p = replicate n 47" by blast
next
  assume "\<exists>n \<ge> 2. p = replicate n 47"
  then obtain n where n: "n \<ge> 2" "p = replicate n 47" by blast
  then have "path_components p = []" by (auto simp: path_components_Nil)
  then show "validate_recursive_destination p = Inr () \<and> path_components p = []"
    using n by (cases n; cases "n - 1") (auto simp: validate_recursive_destination_ok)
qed

theorem root_destination_gap_witness:
  "validate_recursive_destination (lit ''//'') = Inr () \<and> path_components (lit ''//'') = []"
proof -
  have "lit ''//'' = replicate 2 47" by code_simp
  then have "\<exists>n \<ge> 2. lit ''//'' = replicate n 47" by blast
  then show ?thesis by (rule root_destination_gap [THEN iffD2])
qed

text \<open>
  A privileged upload reports success only when the mode is a valid one, the file was staged, and
  the server answered the install command with status zero. It has then sent exactly two commands:
  the install command, run by \<open>sudo\<close> as the target user, whose words are the staging path, the work
  path and the destination as given, and the removal of the staged file.
\<close>

theorem upload_privileged_success:
  assumes "upload_privileged r stamp name p user mode options w = (Inr bytes, w')"
    and "0 \<notin> set user" "0 \<notin> set p"
  shows "\<exists>staging install line state.
           staging = unique_staging_path stamp (case name of Some n \<Rightarrow> n | None \<Rightarrow> lit ''upload'') \<and>
           mode \<le> 0xFFF \<and>
           fst (rm_upload r staging (options\<lparr>to_resume := False, to_atomic := True\<rparr>) (server w)) = Inr bytes \<and>
           sent w' = sent w @ [line, lit ''rm -f -- '' @ quote_posix staging] \<and>
           (\<exists>out. fst (rm_exec r line state) = Inr out \<and> co_exit_status out = Some 0) \<and>
           sh_read line = Some [([], [lit ''sudo'', lit ''-n'', lit ''-u'', user, lit ''--'', lit ''sh'',
             lit ''-lc'', install])] \<and>
           sh_tokens install =
             Some (words [''install'', ''-m''] @ [W (octal (unat mode))] @ words [''--''] @
               [W staging, W (privileged_work_path p), Op AndIf] @
               words [''mv'', ''-f'', ''--''] @ [W (privileged_work_path p), W p])"
proof -
  let ?staging = "unique_staging_path stamp (case name of Some n \<Rightarrow> n | None \<Rightarrow> lit ''upload'')"
  let ?opts = "options\<lparr>to_resume := False, to_atomic := True\<rparr>"
  let ?install = "install_file_command ?staging p mode"
  let ?rm = "lit ''rm -f -- '' @ quote_posix ?staging"
  have mode: "mode \<le> 0xFFF" "p \<noteq> []"
    using assms(1) by (auto simp: upload_privileged_def validate_mode_def split: if_splits)
  obtain s' where up: "rm_upload r ?staging ?opts (server w) = (Inr bytes, s')" 
    and rest: "(let (result, w2) = exec r ?install (Sudo user) (w\<lparr>server := s'\<rparr>);
                    (_, w3) = exec r ?rm Current w2
                in (and_then result (\<lambda>out.
                    and_then (ensure_privileged_install_success out) (\<lambda>_. Inr bytes)), w3)) = (Inr bytes, w')"
    using assms(1) mode
    by (cases "rm_upload r ?staging ?opts (server w)")
       (auto simp: upload_privileged_def validate_mode_def Let_def and_then_eq_Inr
          split: if_splits sum.splits prod.splits)
  obtain res w2 where run: "exec r ?install (Sudo user) (w\<lparr>server := s'\<rparr>) = (res, w2)" by fastforce
  obtain out where out: "res = Inr out" "ensure_privileged_install_success out = Inr ()"
    and w': "w' = snd (exec r ?rm Current w2)"
    using rest by (auto simp: run Let_def and_then_eq_Inr split: prod.splits)
  obtain line where line: "command_for_user ?install (Sudo user) Unix = Inr line"
    "sent w2 = sent w @ [line]" "fst (rm_exec r line s') = Inr out"
    using exec_sudo_ok [OF run [unfolded out(1)]] by auto
  have nul: "0 \<notin> set ?staging" by (rule staging_path_no_nul)
  have tokens: "sh_tokens ?install = Some (words [''install'', ''-m''] @ [W (octal (unat mode))] @ words [''--''] @
      [W ?staging, W (privileged_work_path p), Op AndIf] @
      words [''mv'', ''-f'', ''--''] @ [W (privileged_work_path p), W p])"
    by (rule sh_tokens_install_file [OF nul assms(3)])
  then have "0 \<notin> set ?install" by (auto simp: sh_tokens_def lex_no_nul split: option.splits)
  then have "sh_read line = Some [([], [lit ''sudo'', lit ''-n'', lit ''-u'', user, lit ''--'', lit ''sh'',
             lit ''-lc'', ?install])]"
    using sh_read_sudo [OF line(1) assms(2)] by blast
  moreover have "co_exit_status out = Some 0"
    using out(2) by (auto simp: ensure_privileged_install_success_def split: option.splits if_splits)
  moreover have "sent w' = sent w @ [line, ?rm]" using w' line(2) by (simp add: exec_current_sent)
  ultimately show ?thesis using mode up line(3) tokens by (metis fst_conv)
qed

text \<open>A server on which everything works, and one transfer on it.\<close>

definition sample_remote :: "unit Remote" where
  "sample_remote =
     \<lparr>rm_platform = Unix,
      rm_exec = (\<lambda>_ s. (Inr \<lparr>co_stdout = [], co_stderr = [], co_exit_status = Some 0\<rparr>, s)),
      rm_upload = (\<lambda>_ _ s. (Inr 5, s)),
      rm_upload_recursive = (\<lambda>_ _ s.
        (Inr \<lparr>files = 1, directories = 1, sum_bytes = 5, skipped = 0\<rparr>, s)),
      rm_sftp_open = (\<lambda>s. (Inr (), s)),
      rm_sftp_lstat = (\<lambda>_ _. Inr DirectoryEntry),
      rm_sftp_mkdir = (\<lambda>_ s. (Inr (), s)),
      rm_sftp_close = (\<lambda>s. (Inr (), s))\<rparr>"

definition sample_options :: TransferOptions where
  "sample_options =
     \<lparr>to_resume = True, to_atomic = False, to_file_concurrency = 1, to_sftp_write_concurrency = 1,
      to_sftp_packet_size = 32768, to_request_timeout_secs = 30\<rparr>"

definition fresh_wire :: "unit Wire" where
  "fresh_wire = \<lparr>server = (), sent = []\<rparr>"

theorem upload_privileged_success_witness:
  "\<exists>line. sent (snd (upload_privileged sample_remote 7 (Some (lit ''a b'')) (lit ''/etc/x'') (lit ''root'') 420
      sample_options fresh_wire)) = [line, lit ''rm -f -- /tmp/.kaduox-7-a_b'']"
proof -
  let ?run = "upload_privileged sample_remote 7 (Some (lit ''a b'')) (lit ''/etc/x'') (lit ''root'') 420
      sample_options fresh_wire"
  have "fst ?run = Inr 5" by code_simp
  then have "?run = (Inr 5, snd ?run)" by (metis prod.collapse)
  moreover have "0 \<notin> set (lit ''root'')" "0 \<notin> set (lit ''/etc/x'')" by code_simp+
  moreover have "lit ''rm -f -- '' @ quote_posix (unique_staging_path 7 (case Some (lit ''a b'') of
      Some n \<Rightarrow> n | None \<Rightarrow> lit ''upload'')) = lit ''rm -f -- /tmp/.kaduox-7-a_b''" by code_simp
  moreover have "sent fresh_wire = []" by code_simp
  ultimately show ?thesis using upload_privileged_success by fastforce
qed

text \<open>
  Once a recursive upload owns its staging directory, the command that removes it is sent whatever
  happens afterwards: failed transfer, refused or failed install, or success. Before that point no
  command is sent at all and the upload fails.
\<close>

theorem recursive_staging_cleaned:
  assumes "upload_privileged_recursive r stamp kind name p user fm dm options w = (res, w')"
    and "staging = unique_staging_path stamp (case name of Some n \<Rightarrow> n | None \<Rightarrow> lit ''tree'')"
    and "created \<longleftrightarrow> recursive_checks fm dm p kind = Inr () \<and>
           fst (create_privileged_staging_directory r staging w) = Inr ()"
  shows "(created \<longrightarrow> (\<exists>pre post. sent w' = sent w @ pre @ (lit ''rm -rf -- '' @ quote_posix staging) # post)) \<and>
         (\<not> created \<longrightarrow> sent w' = sent w \<and> (\<exists>e. res = Inl e))"
proof (cases "recursive_checks fm dm p kind")
  case (Inl e)
  then show ?thesis using assms by (auto simp: upload_privileged_recursive_def)
next
  case (Inr u)
  obtain made w1 where made: "create_privileged_staging_directory r staging w = (made, w1)" by fastforce
  have sent1: "sent w1 = sent w" using create_staging_sent [of r staging w] made by simp
  have run: "(res, w') = (case made of Inl e \<Rightarrow> (Inl e, w1)
      | Inr _ \<Rightarrow> upload_staged_tree r staging p user fm dm (options\<lparr>to_resume := False, to_atomic := True\<rparr>) w1)"
    using assms(1) Inr made by (simp add: upload_privileged_recursive_def assms(2) split: sum.splits)
  show ?thesis
  proof (cases made)
    case (Inl e)
    then show ?thesis using run sent1 made assms(3) by auto
  next
    case made_ok: (Inr u)
    then have "w' = snd (upload_staged_tree r staging p user fm dm (options\<lparr>to_resume := False, to_atomic := True\<rparr>) w1)"
      using run by (metis old.sum.simps(6) snd_conv)
    then show ?thesis
      using staged_tree_cleanup [of r staging p user fm dm _ w1] sent1 made made_ok Inr assms(3) by simp
  qed
qed

theorem recursive_staging_cleaned_witness:
  "\<exists>pre post. sent (snd (upload_privileged_recursive sample_remote 7 (Inr DirectoryEntry) None (lit ''/srv/app'')
       (lit ''root'') 420 493 sample_options fresh_wire)) =
     pre @ lit ''rm -rf -- /tmp/.kaduox-7-tree'' # post"
proof -
  let ?staging = "unique_staging_path 7 (case None of Some n \<Rightarrow> n | None \<Rightarrow> lit ''tree'')"
  let ?run = "upload_privileged_recursive sample_remote 7 (Inr DirectoryEntry) None (lit ''/srv/app'')
       (lit ''root'') 420 493 sample_options fresh_wire"
  have "?run = (fst ?run, snd ?run)" by simp
  moreover have "recursive_checks 420 493 (lit ''/srv/app'') (Inr DirectoryEntry) = Inr () \<and>
      fst (create_privileged_staging_directory sample_remote ?staging fresh_wire) = Inr ()" by code_simp
  ultimately have "\<exists>pre post. sent (snd ?run) = sent fresh_wire @ pre @ (lit ''rm -rf -- '' @ quote_posix ?staging) # post"
    using recursive_staging_cleaned by blast
  moreover have "lit ''rm -rf -- '' @ quote_posix ?staging = lit ''rm -rf -- /tmp/.kaduox-7-tree''" by code_simp
  moreover have "sent fresh_wire = []" by code_simp
  ultimately show ?thesis by simp
qed

end
