(* ===== verification/Host_Trust.thy ===== *)
theory Host_Trust
  imports Connection_Config Openssh_Match "HOL-Library.While_Combinator"
begin

section \<open>Trust in a server's host key\<close>

text \<open>
  Model of \<open>host_trust.rs\<close> and of \<open>check_server_key\<close> in \<open>handler.rs\<close>. Keys, certificates, the parser
  of host patterns, the keyed hash of hashed host names and the ordinary \<open>known_hosts\<close> check belong
  to the SSH library: they are the parameter \<open>TrustLib\<close>, over any type of keys and of fingerprints.
  The file system is a function from paths to what opening and reading the file gives. The matcher
  of host patterns is the source's loop on indices, as \<open>while_option\<close> on a record of its variables;
  an early \<open>return false\<close> is the field \<open>failed\<close>.
\<close>

definition MAX_KNOWN_HOSTS_BYTES :: nat where "MAX_KNOWN_HOSTS_BYTES = 8 * 1024 * 1024"

datatype HostPatterns = Patterns "rstring list" | HashedName "u8 list" "u8 list"

datatype Algorithm = Ed25519 | Ecdsa | OtherAlgorithm

datatype CertType = UserCert | HostCert

record 'k Certificate =
  ce_type :: CertType
  ce_public_key :: 'k
  ce_signature_key :: 'k
  ce_critical_options :: "(rstring \<times> rstring) list"
  ce_valid_principals :: "rstring list"

record ('k, 'f) TrustLib =
  parse_patterns :: "rstring \<Rightarrow> HostPatterns option"
  from_openssh_key :: "rstring \<Rightarrow> 'k option"
  hmac_sha1_verify :: "u8 list \<Rightarrow> u8 list \<Rightarrow> u8 list \<Rightarrow> bool option"
  key_algorithm :: "'k \<Rightarrow> Algorithm"
  fingerprint :: "'k \<Rightarrow> 'f"
  validate_certificate :: "'k Certificate \<Rightarrow> 'f list \<Rightarrow> bool"

datatype (plugins only: code size) trust_error =
    UnsupportedMarker nat | MissingPatterns nat | InvalidPatterns nat | MissingAlgorithm nat
  | MissingKeyData nat | EmptyPattern | EmptyNegatedPattern | HmacFailed | InvalidKey nat
  | UserCertificate | CertifiedKeyRevoked | SigningCaRevoked | CaAlgorithmDisabled | NoTrustedCa
  | CertificateInvalid | CriticalOptions | PrincipalMismatch
  | KnownHostsOpen | KnownHostsRead | KnownHostsTooLarge | NoHomeDirectory
  | CertificateUnderInsecure | KeyRevoked | KnownHostsCheck | KnownHostsLearn

subsection \<open>Host patterns\<close>

definition known_hosts_target :: "rstring \<Rightarrow> u16 \<Rightarrow> rstring" where
  "known_hosts_target host port =
     (if port = 22 then host else [91] @ host @ lit '']:'' @ dec (unat port))"

text \<open>\<open>u8::eq_ignore_ascii_case\<close>\<close>

definition byte_lower :: "u8 \<Rightarrow> u8" where
  "byte_lower b = (if 65 \<le> b \<and> b \<le> 90 then b + 32 else b)"

record match_state =
  pattern_index :: nat
  candidate_index :: nat
  star_index :: "nat option"
  star_candidate :: nat
  failed :: bool

definition match_start :: match_state where
  "match_start =
     \<lparr>pattern_index = 0, candidate_index = 0, star_index = None, star_candidate = 0, failed = False\<rparr>"

definition match_continues :: "u8 list \<Rightarrow> match_state \<Rightarrow> bool" where
  "match_continues cand st \<longleftrightarrow> \<not> failed st \<and> candidate_index st < length cand"

definition match_step :: "u8 list \<Rightarrow> u8 list \<Rightarrow> match_state \<Rightarrow> match_state" where
  "match_step pat cand st =
     (let pi = pattern_index st; ci = candidate_index st in
      if pi < length pat \<and> (pat ! pi = 63 \<or> byte_lower (pat ! pi) = byte_lower (cand ! ci)) then
        st\<lparr>pattern_index := pi + 1, candidate_index := ci + 1\<rparr>
      else if pi < length pat \<and> pat ! pi = 42 then
        st\<lparr>star_index := Some pi, pattern_index := pi + 1, star_candidate := ci\<rparr>
      else case star_index st of
        Some star \<Rightarrow>
          st\<lparr>pattern_index := star + 1, star_candidate := star_candidate st + 1,
             candidate_index := star_candidate st + 1\<rparr>
      | None \<Rightarrow> st\<lparr>failed := True\<rparr>)"

definition host_wildcard_match :: "u8 list \<Rightarrow> u8 list \<Rightarrow> bool" where
  "host_wildcard_match pat cand =
     (case while_option (match_continues cand) (match_step pat cand) match_start of
        None \<Rightarrow> False
      | Some st \<Rightarrow> \<not> failed st \<and> skip_stars pat (pattern_index st) = length pat)"

fun clear_patterns_loop :: "rstring \<Rightarrow> bool \<Rightarrow> rstring list \<Rightarrow> trust_error + bool" where
  "clear_patterns_loop target positive [] = Inr positive"
| "clear_patterns_loop target positive (p # rest) =
     (if p = [] then Inl EmptyPattern
      else case strip_prefix [33] p of
        Some q \<Rightarrow>
          if q = [] then Inl EmptyNegatedPattern
          else if host_wildcard_match (as_bytes q) (as_bytes target) then Inr False
          else clear_patterns_loop target positive rest
      | None \<Rightarrow>
          clear_patterns_loop target
            (positive \<or> host_wildcard_match (as_bytes p) (as_bytes target)) rest)"

definition clear_host_patterns_match :: "rstring \<Rightarrow> rstring list \<Rightarrow> trust_error + bool" where
  "clear_host_patterns_match target patterns =
     clear_patterns_loop (to_ascii_lowercase target) False patterns"

definition hashed_host_matches ::
  "('k, 'f) TrustLib \<Rightarrow> rstring \<Rightarrow> u8 list \<Rightarrow> u8 list \<Rightarrow> trust_error + bool" where
  "hashed_host_matches lib target salt expected_hash =
     ok_or HmacFailed (hmac_sha1_verify lib salt (as_bytes target) expected_hash)"

fun host_patterns_match ::
  "('k, 'f) TrustLib \<Rightarrow> rstring \<Rightarrow> HostPatterns \<Rightarrow> trust_error + bool" where
  "host_patterns_match lib target (Patterns patterns) = clear_host_patterns_match target patterns"
| "host_patterns_match lib target (HashedName salt hash) = hashed_host_matches lib target salt hash"

definition host_principal_matches :: "rstring \<Rightarrow> rstring \<Rightarrow> bool" where
  "host_principal_matches host pat =
     host_wildcard_match (as_bytes (to_ascii_lowercase pat)) (as_bytes (to_ascii_lowercase host))"

subsection \<open>The trust policy\<close>

record 'k HostTrustPolicy =
  trusted_certificate_authorities :: "'k list"
  revoked_keys :: "'k list"

definition policy_default :: "'k HostTrustPolicy" where
  "policy_default = \<lparr>trusted_certificate_authorities = [], revoked_keys = []\<rparr>"

definition dedup_public_keys :: "'k list \<Rightarrow> 'k list" where
  "dedup_public_keys keys =
     fold (\<lambda>key unique. if key \<in> set unique then unique else unique @ [key]) keys []"

datatype marker = CertAuthority | Revoked

text \<open>The body of the loop over the lines: what one line adds to the policy.\<close>

definition parse_marker_line ::
  "('k, 'f) TrustLib \<Rightarrow> rstring \<Rightarrow> nat \<Rightarrow> rstring \<Rightarrow> trust_error + (marker \<times> 'k) option" where
  "parse_marker_line lib target number raw_line =
     (let line = trim raw_line in
      if line = [] \<or> starts_with [35] line \<or> \<not> starts_with [64] line then Inr None
      else case split_ascii_whitespace line of
        [] \<Rightarrow> Inl (UnsupportedMarker number)
      | marker # fields1 \<Rightarrow>
          if marker \<noteq> lit ''@cert-authority'' \<and> marker \<noteq> lit ''@revoked'' then
            Inl (UnsupportedMarker number)
          else case fields1 of
            [] \<Rightarrow> Inl (MissingPatterns number)
          | patterns_text # fields2 \<Rightarrow>
              and_then (ok_or (InvalidPatterns number) (parse_patterns lib patterns_text)) (\<lambda>patterns.
                case fields2 of
                  [] \<Rightarrow> Inl (MissingAlgorithm number)
                | [_] \<Rightarrow> Inl (MissingKeyData number)
                | algorithm # encoded_key # _ \<Rightarrow>
                    and_then (host_patterns_match lib target patterns) (\<lambda>matches.
                      if \<not> matches then Inr None
                      else
                        and_then (ok_or (InvalidKey number)
                          (from_openssh_key lib (algorithm @ [32] @ encoded_key))) (\<lambda>key.
                          Inr (Some (if marker = lit ''@revoked'' then Revoked else CertAuthority, key))))))"

fun parse_marker_lines ::
  "('k, 'f) TrustLib \<Rightarrow> rstring \<Rightarrow> nat \<Rightarrow> 'k HostTrustPolicy \<Rightarrow> rstring list \<Rightarrow>
   trust_error + 'k HostTrustPolicy" where
  "parse_marker_lines lib target number policy [] = Inr policy"
| "parse_marker_lines lib target number policy (raw_line # rest) =
     and_then (parse_marker_line lib target number raw_line) (\<lambda>entry.
       parse_marker_lines lib target (number + 1)
         (case entry of
            None \<Rightarrow> policy
          | Some (CertAuthority, key) \<Rightarrow>
              policy\<lparr>trusted_certificate_authorities := trusted_certificate_authorities policy @ [key]\<rparr>
          | Some (Revoked, key) \<Rightarrow> policy\<lparr>revoked_keys := revoked_keys policy @ [key]\<rparr>) rest)"

definition trust_parse ::
  "('k, 'f) TrustLib \<Rightarrow> rstring \<Rightarrow> u16 \<Rightarrow> rstring \<Rightarrow> trust_error + 'k HostTrustPolicy" where
  "trust_parse lib host port contents =
     and_then (parse_marker_lines lib (known_hosts_target host port) 1 policy_default (lines_of contents))
       (\<lambda>policy. Inr
         \<lparr>trusted_certificate_authorities = dedup_public_keys (trusted_certificate_authorities policy),
          revoked_keys = dedup_public_keys (revoked_keys policy)\<rparr>)"

datatype known_hosts_file = FileMissing | FileUnreadable | FileBytes "u8 list"

definition read_known_hosts_bounded :: "known_hosts_file \<Rightarrow> trust_error + rstring option" where
  "read_known_hosts_bounded file =
     (case file of
        FileMissing \<Rightarrow> Inr None
      | FileUnreadable \<Rightarrow> Inl KnownHostsOpen
      | FileBytes bytes \<Rightarrow>
          (case from_utf8 (take (MAX_KNOWN_HOSTS_BYTES + 1) bytes) of
             None \<Rightarrow> Inl KnownHostsRead
           | Some contents \<Rightarrow>
               if MAX_KNOWN_HOSTS_BYTES < str_len contents then Inl KnownHostsTooLarge
               else Inr (Some contents)))"

definition trust_load ::
  "('k, 'f) TrustLib \<Rightarrow> (rstring \<Rightarrow> known_hosts_file) \<Rightarrow> rstring option \<Rightarrow> rstring \<Rightarrow> u16 \<Rightarrow>
   rstring option \<Rightarrow> trust_error + 'k HostTrustPolicy" where
  "trust_load lib files default_path host port known_hosts_file =
     and_then
       (case known_hosts_file of Some p \<Rightarrow> Inr p | None \<Rightarrow> ok_or NoHomeDirectory default_path) (\<lambda>p.
     and_then (read_known_hosts_bounded (files p)) (\<lambda>contents.
       case contents of
         None \<Rightarrow> Inr policy_default
       | Some text \<Rightarrow> trust_parse lib host port text))"

definition is_verifiable_certificate_authority :: "('k, 'f) TrustLib \<Rightarrow> 'k \<Rightarrow> bool" where
  "is_verifiable_certificate_authority lib key \<longleftrightarrow> key_algorithm lib key \<in> {Ed25519, Ecdsa}"

definition has_certificate_authority :: "('k, 'f) TrustLib \<Rightarrow> 'k HostTrustPolicy \<Rightarrow> bool" where
  "has_certificate_authority lib policy \<longleftrightarrow>
     list_ex (is_verifiable_certificate_authority lib) (trusted_certificate_authorities policy)"

definition is_revoked :: "'k HostTrustPolicy \<Rightarrow> 'k \<Rightarrow> bool" where
  "is_revoked policy key \<longleftrightarrow> list_ex (\<lambda>revoked. revoked = key) (revoked_keys policy)"

definition verify_host_certificate ::
  "('k, 'f) TrustLib \<Rightarrow> 'k HostTrustPolicy \<Rightarrow> rstring \<Rightarrow> 'k Certificate \<Rightarrow> trust_error + unit" where
  "verify_host_certificate lib policy host certificate =
     (if ce_type certificate \<noteq> HostCert then Inl UserCertificate
      else if is_revoked policy (ce_public_key certificate) then Inl CertifiedKeyRevoked
      else if is_revoked policy (ce_signature_key certificate) then Inl SigningCaRevoked
      else if \<not> is_verifiable_certificate_authority lib (ce_signature_key certificate) then
        Inl CaAlgorithmDisabled
      else
        let ca_fingerprints = map (fingerprint lib)
              (filter (is_verifiable_certificate_authority lib) (trusted_certificate_authorities policy))
        in
        if ca_fingerprints = [] then Inl NoTrustedCa
        else if \<not> validate_certificate lib certificate ca_fingerprints then Inl CertificateInvalid
        else if ce_critical_options certificate \<noteq> [] then Inl CriticalOptions
        else if ce_valid_principals certificate \<noteq> [] \<and>
                \<not> list_ex (host_principal_matches host) (ce_valid_principals certificate) then
          Inl PrincipalMismatch
        else Inr ())"

subsection \<open>The decision on a server key\<close>

datatype HostKeyVerification = Known | Learned | InsecureAccepted

datatype 'k ServerKey = PlainKey 'k | CertKey "'k Certificate"

text \<open>
  What the connection knows: the ordinary \<open>known_hosts\<close> entries live in the SSH library, so that
  checking and learning a key are parameters; \<open>hs_learned\<close> records the keys learned.
\<close>

record ('k, 'f) HandlerWorld =
  hw_lib :: "('k, 'f) TrustLib"
  hw_files :: "rstring \<Rightarrow> known_hosts_file"
  hw_default_path :: "rstring option"
  hw_check_known_hosts :: "rstring \<Rightarrow> u16 \<Rightarrow> 'k \<Rightarrow> rstring option \<Rightarrow> bool option"
  hw_learn_known_hosts :: "rstring \<Rightarrow> u16 \<Rightarrow> 'k \<Rightarrow> rstring option \<Rightarrow> bool"

record 'k ClientHandler =
  ch_host :: rstring
  ch_port :: u16
  ch_policy :: HostKeyPolicy
  ch_known_hosts_file :: "rstring option"
  ch_recorded :: "('k \<times> HostKeyVerification) option"
  ch_learned :: "'k list"

definition record_server_host_key ::
  "'k \<Rightarrow> HostKeyVerification \<Rightarrow> 'k ClientHandler \<Rightarrow> 'k ClientHandler" where
  "record_server_host_key key verification h = h\<lparr>ch_recorded := Some (key, verification)\<rparr>"

definition check_plain_key ::
  "('k, 'f) HandlerWorld \<Rightarrow> 'k ClientHandler \<Rightarrow> 'k \<Rightarrow> (trust_error + bool) \<times> 'k ClientHandler" where
  "check_plain_key world h key =
     (case trust_load (hw_lib world) (hw_files world) (hw_default_path world) (ch_host h) (ch_port h)
             (ch_known_hosts_file h) of
        Inl e \<Rightarrow> (Inl e, h)
      | Inr trust \<Rightarrow>
          if is_revoked trust key then (Inl KeyRevoked, h)
          else if ch_policy h = Insecure then
            (Inr True, record_server_host_key key InsecureAccepted h)
          else case hw_check_known_hosts world (ch_host h) (ch_port h) key (ch_known_hosts_file h) of
            None \<Rightarrow> (Inl KnownHostsCheck, h)
          | Some known \<Rightarrow>
              if known then (Inr True, record_server_host_key key Known h)
              else if ch_policy h = Strict then (Inr False, h)
              else if \<not> hw_learn_known_hosts world (ch_host h) (ch_port h) key (ch_known_hosts_file h)
              then (Inl KnownHostsLearn, h)
              else (Inr True,
                    record_server_host_key key Learned (h\<lparr>ch_learned := ch_learned h @ [key]\<rparr>)))"

definition check_server_key ::
  "('k, 'f) HandlerWorld \<Rightarrow> 'k ClientHandler \<Rightarrow> 'k ServerKey \<Rightarrow>
   (trust_error + bool) \<times> 'k ClientHandler" where
  "check_server_key world h server_key =
     (case server_key of
        CertKey certificate \<Rightarrow>
          if ch_policy h = Insecure then (Inl CertificateUnderInsecure, h)
          else
            (case and_then (trust_load (hw_lib world) (hw_files world) (hw_default_path world)
                        (ch_host h) (ch_port h) (ch_known_hosts_file h)) (\<lambda>trust.
                    verify_host_certificate (hw_lib world) trust (ch_host h) certificate) of
               Inl e \<Rightarrow> (Inl e, h)
             | Inr _ \<Rightarrow> (Inr True, record_server_host_key (ce_public_key certificate) Known h))
      | PlainKey key \<Rightarrow> check_plain_key world h key)"

section \<open>Lemmas: the matching loop\<close>

text \<open>
  The loop keeps one star to fall back to. Between it and the current positions lies a segment of
  the pattern without stars that matches the candidate byte by byte. The invariant says that the
  whole match succeeds exactly when the part after the star matches from the fall-back position or
  a later one.
\<close>

definition byte_matches :: "u8 \<Rightarrow> u8 \<Rightarrow> bool" where
  "byte_matches p c \<longleftrightarrow> p \<noteq> 42 \<and> (p = 63 \<or> byte_lower p = byte_lower c)"

definition glob_ci :: "u8 list \<Rightarrow> u8 list \<Rightarrow> bool" where
  "glob_ci pat cand = glob (map byte_lower pat) (map byte_lower cand)"

lemma byte_lower_special [simp]:
  "byte_lower 42 = 42" "byte_lower 63 = 63"
  by (simp_all add: byte_lower_def)

lemma byte_lower_eq:
  "byte_lower b = 42 \<longleftrightarrow> b = 42" "byte_lower b = 63 \<longleftrightarrow> b = 63"
  by (auto simp: byte_lower_def; unat_arith)+

lemma glob_ci_Nil [simp]: "glob_ci [] c \<longleftrightarrow> c = []"
  by (simp add: glob_ci_def)

lemma glob_ci_star: "glob_ci (42 # ps) c \<longleftrightarrow> (\<exists>k \<le> length c. glob_ci ps (drop k c))"
  by (simp add: glob_ci_def glob_star drop_map)

lemma glob_ci_other:
  "p \<noteq> 42 \<Longrightarrow> glob_ci (p # ps) c \<longleftrightarrow> c \<noteq> [] \<and> byte_matches p (hd c) \<and> glob_ci ps (tl c)"
  by (cases c) (auto simp: glob_ci_def glob_other byte_matches_def byte_lower_eq map_tl)

lemma glob_ci_drop_other:
  assumes "a < length pat" "pat ! a \<noteq> 42"
  shows "glob_ci (drop a pat) (drop k cand) \<longleftrightarrow>
         k < length cand \<and> byte_matches (pat ! a) (cand ! k) \<and>
         glob_ci (drop (Suc a) pat) (drop (Suc k) cand)"
  using assms
  by (subst Cons_nth_drop_Suc [symmetric]) (auto simp: glob_ci_other hd_drop_conv_nth tl_drop drop_Suc)

lemma glob_ci_drop_star:
  assumes "a < length pat" "pat ! a = 42" "k \<le> length cand"
  shows "glob_ci (drop a pat) (drop k cand) \<longleftrightarrow>
         (\<exists>j. k \<le> j \<and> j \<le> length cand \<and> glob_ci (drop (Suc a) pat) (drop j cand))"
proof -
  have "drop a pat = 42 # drop (Suc a) pat" using assms by (metis Cons_nth_drop_Suc)
  then have "glob_ci (drop a pat) (drop k cand) \<longleftrightarrow>
      (\<exists>j \<le> length cand - k. glob_ci (drop (Suc a) pat) (drop (k + j) cand))"
    by (simp add: glob_ci_star add.commute)
  also have "\<dots> \<longleftrightarrow> (\<exists>j. k \<le> j \<and> j \<le> length cand \<and> glob_ci (drop (Suc a) pat) (drop j cand))"
    using assms(3) by (metis add_diff_inverse_nat diff_le_mono le_add1 le_diff_conv2 add.commute not_less)
  finally show ?thesis .
qed

text \<open>A segment without stars consumes one byte for each of its own.\<close>

lemma glob_ci_segment:
  assumes "\<forall>i < n. pat ! (a + i) \<noteq> 42" "a + n \<le> length pat" "k \<le> length cand"
  shows "glob_ci (drop a pat) (drop k cand) \<longleftrightarrow>
         k + n \<le> length cand \<and> (\<forall>i < n. byte_matches (pat ! (a + i)) (cand ! (k + i))) \<and>
         glob_ci (drop (a + n) pat) (drop (k + n) cand)"
  using assms
proof (induction n arbitrary: a k)
  case (Suc n)
  have first: "glob_ci (drop a pat) (drop k cand) \<longleftrightarrow>
      k < length cand \<and> byte_matches (pat ! a) (cand ! k) \<and> glob_ci (drop (Suc a) pat) (drop (Suc k) cand)"
    using Suc.prems(1) [rule_format, of 0] Suc.prems(2) by (intro glob_ci_drop_other) auto
  have rest: "\<forall>i < n. pat ! (Suc a + i) \<noteq> 42" using Suc.prems(1) by auto
  have IH: "k < length cand \<Longrightarrow> glob_ci (drop (Suc a) pat) (drop (Suc k) cand) \<longleftrightarrow>
      Suc k + n \<le> length cand \<and> (\<forall>i < n. byte_matches (pat ! (Suc a + i)) (cand ! (Suc k + i))) \<and>
      glob_ci (drop (Suc a + n) pat) (drop (Suc k + n) cand)"
    using Suc.IH [OF rest] Suc.prems(2) by auto
  have all: "(\<forall>i < Suc n. byte_matches (pat ! (a + i)) (cand ! (k + i))) \<longleftrightarrow>
      byte_matches (pat ! a) (cand ! k) \<and> (\<forall>i < n. byte_matches (pat ! (Suc a + i)) (cand ! (Suc k + i)))"
    by (auto simp: less_Suc_eq_0_disj)
  show ?case using first IH all by auto
qed simp

definition match_inv :: "u8 list \<Rightarrow> u8 list \<Rightarrow> match_state \<Rightarrow> bool" where
  "match_inv pat cand st \<longleftrightarrow>
     pattern_index st \<le> length pat \<and> candidate_index st \<le> length cand \<and>
     star_candidate st \<le> candidate_index st \<and>
     (if failed st then \<not> glob_ci pat cand
      else case star_index st of
        None \<Rightarrow> star_candidate st = 0 \<and> (glob_ci pat cand \<longleftrightarrow>
          glob_ci (drop (pattern_index st) pat) (drop (candidate_index st) cand))
      | Some s \<Rightarrow>
          pattern_index st = s + 1 + (candidate_index st - star_candidate st) \<and>
          (\<forall>i < candidate_index st - star_candidate st.
             byte_matches (pat ! (s + 1 + i)) (cand ! (star_candidate st + i))) \<and>
          (glob_ci pat cand \<longleftrightarrow>
             (\<exists>k. star_candidate st \<le> k \<and> k \<le> length cand \<and>
                  glob_ci (drop (s + 1) pat) (drop k cand))))"

lemma match_inv_start: "match_inv pat cand match_start"
  by (simp add: match_inv_def match_start_def)

lemma byte_matches_not_star: "byte_matches p c \<Longrightarrow> p \<noteq> 42"
  by (simp add: byte_matches_def)

lemma match_inv_advance:
  assumes "match_inv pat cand st" "\<not> failed st" "candidate_index st < length cand"
    and "pattern_index st < length pat"
    and "byte_matches (pat ! pattern_index st) (cand ! candidate_index st)"
  shows "match_inv pat cand
    (st\<lparr>pattern_index := pattern_index st + 1, candidate_index := candidate_index st + 1\<rparr>)"
proof (cases "star_index st")
  case None
  then show ?thesis
    using assms glob_ci_drop_other [OF assms(4) byte_matches_not_star [OF assms(5)]]
    by (simp add: match_inv_def)
next
  case (Some s)
  let ?n = "candidate_index st - star_candidate st"
  have inv: "star_candidate st \<le> candidate_index st" "pattern_index st = s + 1 + ?n"
    using assms(1,2) Some by (auto simp: match_inv_def)
  have "byte_matches (pat ! (s + 1 + i)) (cand ! (star_candidate st + i))" if "i < Suc ?n" for i
  proof (cases "i = ?n")
    case True
    then show ?thesis using assms(5) inv by simp
  next
    case False
    then show ?thesis using that assms(1,2) Some by (auto simp: match_inv_def)
  qed
  then show ?thesis
    using assms(1-4) Some inv by (auto simp: match_inv_def Suc_diff_le)
qed

lemma match_inv_star:
  assumes "match_inv pat cand st" "\<not> failed st" "candidate_index st < length cand"
    and "pattern_index st < length pat" "pat ! pattern_index st = 42"
  shows "match_inv pat cand (st\<lparr>star_index := Some (pattern_index st),
    pattern_index := pattern_index st + 1, star_candidate := candidate_index st\<rparr>)"
proof -
  let ?pi = "pattern_index st" and ?ci = "candidate_index st" and ?sc = "star_candidate st"
  let ?new = "\<exists>k. ?ci \<le> k \<and> k \<le> length cand \<and> glob_ci (drop (?pi + 1) pat) (drop k cand)"
  have here: "glob_ci (drop ?pi pat) (drop k cand) \<longleftrightarrow>
      (\<exists>j. k \<le> j \<and> j \<le> length cand \<and> glob_ci (drop (?pi + 1) pat) (drop j cand))" if "k \<le> length cand" for k
    using glob_ci_drop_star [OF assms(4,5) that] by simp
  have "glob_ci pat cand \<longleftrightarrow> ?new"
  proof (cases "star_index st")
    case None
    then show ?thesis using assms(1-3) here [of ?ci] by (simp add: match_inv_def)
  next
    case (Some s)
    let ?n = "?ci - ?sc"
    have inv: "?sc \<le> ?ci" "?pi = s + 1 + ?n"
      "\<forall>i < ?n. byte_matches (pat ! (s + 1 + i)) (cand ! (?sc + i))"
      "glob_ci pat cand \<longleftrightarrow> (\<exists>k. ?sc \<le> k \<and> k \<le> length cand \<and> glob_ci (drop (s + 1) pat) (drop k cand))"
      using assms(1,2) Some by (auto simp: match_inv_def)
    have seg: "glob_ci (drop (s + 1) pat) (drop k cand) \<longleftrightarrow>
        k + ?n \<le> length cand \<and> (\<forall>i < ?n. byte_matches (pat ! (s + 1 + i)) (cand ! (k + i))) \<and>
        glob_ci (drop ?pi pat) (drop (k + ?n) cand)" if "k \<le> length cand" for k
      using glob_ci_segment [of ?n pat "s + 1" k cand] inv(2,3) that assms(4) byte_matches_not_star by auto
    show ?thesis
    proof
      assume "glob_ci pat cand"
      then obtain k where k: "?sc \<le> k" "k \<le> length cand" "glob_ci (drop (s + 1) pat) (drop k cand)"
        using inv(4) by blast
      then have "k + ?n \<le> length cand" "glob_ci (drop ?pi pat) (drop (k + ?n) cand)" using seg by auto
      then obtain j where "k + ?n \<le> j" "j \<le> length cand" "glob_ci (drop (?pi + 1) pat) (drop j cand)"
        using here by blast
      moreover have "?ci \<le> k + ?n" using k(1) inv(1) by linarith
      ultimately show ?new using le_trans by blast
    next
      assume ?new
      then have "glob_ci (drop ?pi pat) (drop ?ci cand)" using here assms(3) by auto
      moreover have "?sc + ?n = ?ci" using inv(1) by simp
      ultimately have "glob_ci (drop (s + 1) pat) (drop ?sc cand)" using seg [of ?sc] inv(3) assms(3) by simp
      then show "glob_ci pat cand" using inv(1,4) assms(3) by (metis le_trans less_imp_le order_refl)
    qed
  qed
  then show ?thesis using assms(1-4) by (simp add: match_inv_def)
qed

lemma match_inv_mismatch:
  assumes "match_inv pat cand st" "\<not> failed st" "candidate_index st < length cand"
    and "\<not> (pattern_index st < length pat \<and>
             (pat ! pattern_index st = 42 \<or> byte_matches (pat ! pattern_index st) (cand ! candidate_index st)))"
  shows "match_inv pat cand (case star_index st of
      Some star \<Rightarrow> st\<lparr>pattern_index := star + 1, star_candidate := star_candidate st + 1,
             candidate_index := star_candidate st + 1\<rparr>
    | None \<Rightarrow> st\<lparr>failed := True\<rparr>)"
proof -
  let ?pi = "pattern_index st" and ?ci = "candidate_index st" and ?sc = "star_candidate st"
  have stuck: "\<not> glob_ci (drop ?pi pat) (drop ?ci cand)"
    using assms(3,4) glob_ci_drop_other [of ?pi pat ?ci cand] by (cases "?pi < length pat") auto
  show ?thesis
  proof (cases "star_index st")
    case None
    then show ?thesis using assms(1-3) stuck by (simp add: match_inv_def)
  next
    case (Some s)
    let ?n = "?ci - ?sc"
    have inv: "?sc \<le> ?ci" "?pi = s + 1 + ?n" "?pi \<le> length pat"
      "\<forall>i < ?n. byte_matches (pat ! (s + 1 + i)) (cand ! (?sc + i))"
      "glob_ci pat cand \<longleftrightarrow> (\<exists>k. ?sc \<le> k \<and> k \<le> length cand \<and> glob_ci (drop (s + 1) pat) (drop k cand))"
      using assms(1,2) Some by (auto simp: match_inv_def)
    have "\<not> glob_ci (drop (s + 1) pat) (drop ?sc cand)"
      using glob_ci_segment [of ?n pat "s + 1" ?sc cand] inv(1-4) stuck assms(3) byte_matches_not_star
      by auto
    then have "glob_ci pat cand \<longleftrightarrow>
        (\<exists>k. ?sc + 1 \<le> k \<and> k \<le> length cand \<and> glob_ci (drop (s + 1) pat) (drop k cand))"
      unfolding inv(5) by (metis Suc_eq_plus1 Suc_leD Suc_leI le_neq_implies_less)
    then show ?thesis using Some inv(1-3) assms(2,3) by (simp add: match_inv_def)
  qed
qed

lemma match_inv_step:
  assumes "match_inv pat cand st" "match_continues cand st" "42 \<notin> set cand"
  shows "match_inv pat cand (match_step pat cand st)"
proof -
  let ?pi = "pattern_index st" and ?ci = "candidate_index st"
  have go: "\<not> failed st" "?ci < length cand" using assms(2) by (simp_all add: match_continues_def)
  have no_star: "byte_lower (cand ! ?ci) \<noteq> 42" using assms(3) go(2) byte_lower_eq(1) by (metis nth_mem)
  then have lit: "pat ! ?pi = 63 \<or> byte_lower (pat ! ?pi) = byte_lower (cand ! ?ci) \<longleftrightarrow>
      byte_matches (pat ! ?pi) (cand ! ?ci)"
    by (auto simp: byte_matches_def)
  consider "?pi < length pat" "byte_matches (pat ! ?pi) (cand ! ?ci)"
    | "?pi < length pat" "pat ! ?pi = 42"
    | "\<not> (?pi < length pat \<and> (pat ! ?pi = 42 \<or> byte_matches (pat ! ?pi) (cand ! ?ci)))"
    by blast
  then show ?thesis
  proof cases
    case 1
    then show ?thesis
      using match_inv_advance [OF assms(1) go 1] by (simp add: match_step_def Let_def lit)
  next
    case 2
    then show ?thesis
      using match_inv_star [OF assms(1) go 2]
      by (simp add: match_step_def Let_def lit byte_matches_def no_star)
  next
    case 3
    then have "match_step pat cand st = (case star_index st of
        Some star \<Rightarrow> st\<lparr>pattern_index := star + 1, star_candidate := star_candidate st + 1,
             candidate_index := star_candidate st + 1\<rparr>
      | None \<Rightarrow> st\<lparr>failed := True\<rparr>)"
      unfolding match_step_def Let_def lit by auto
    then show ?thesis using match_inv_mismatch [OF assms(1) go 3] by simp
  qed
qed

text \<open>
  The loop ends on every input, also on candidates with a star of their own: each fall-back moves
  the fall-back position, each new star has a later index, and otherwise the candidate advances.
\<close>

definition match_bounds :: "u8 list \<Rightarrow> u8 list \<Rightarrow> match_state \<Rightarrow> bool" where
  "match_bounds pat cand st \<longleftrightarrow>
     pattern_index st \<le> length pat \<and> candidate_index st \<le> length cand \<and>
     star_candidate st \<le> candidate_index st \<and>
     (case star_index st of None \<Rightarrow> star_candidate st = 0 | Some s \<Rightarrow> s < pattern_index st)"

lemma match_bounds_step:
  assumes "match_bounds pat cand st" "match_continues cand st"
  shows "match_bounds pat cand (match_step pat cand st)"
  using assms
  by (cases "star_index st") (auto simp: match_bounds_def match_continues_def match_step_def Let_def)

definition match_measure :: "u8 list \<Rightarrow> u8 list \<Rightarrow> match_state \<Rightarrow> nat \<times> nat \<times> nat \<times> nat" where
  "match_measure pat cand st =
     (length cand - star_candidate st,
      (case star_index st of None \<Rightarrow> length pat + 1 | Some s \<Rightarrow> length pat - s),
      length cand - candidate_index st,
      if failed st then 0 else 1)"

lemma match_measure_decreases:
  assumes "match_bounds pat cand st" "match_continues cand st"
  shows "(match_measure pat cand (match_step pat cand st), match_measure pat cand st)
         \<in> less_than <*lex*> less_than <*lex*> less_than <*lex*> less_than"
  using assms
  by (cases "star_index st")
     (auto simp: match_bounds_def match_continues_def match_step_def match_measure_def Let_def)

lemma match_loop_ends:
  "\<exists>st. while_option (match_continues cand) (match_step pat cand) match_start = Some st"
proof (rule wf_rel_while_option_Some [where P = "match_bounds pat cand"])
  show "wf (inv_image (less_than <*lex*> less_than <*lex*> less_than <*lex*> less_than) (match_measure pat cand))"
    by (intro wf_inv_image wf_lex_prod wf_less_than)
qed (auto simp: match_bounds_step match_measure_decreases, simp add: match_bounds_def match_start_def)

lemma skip_stars_glob: "n \<le> length pat \<Longrightarrow> skip_stars pat n = length pat \<longleftrightarrow> glob_ci (drop n pat) []"
proof (induction pat n rule: skip_stars.induct)
  case (1 pat n)
  show ?case
  proof (cases "n < length pat")
    case True
    then show ?thesis
    proof (cases "pat ! n = 42")
      case star: True
      have "glob_ci (drop n pat) [] \<longleftrightarrow> glob_ci (drop (n + 1) pat) []"
        using glob_ci_drop_star [OF True star, of 0 "[]"] by simp
      then show ?thesis using 1(1) True star by (subst skip_stars.simps) simp
    next
      case False
      then show ?thesis
        using True glob_ci_drop_other [of n pat 0 "[]"] by (subst skip_stars.simps) simp
    qed
  next
    case False
    then show ?thesis using 1 by (subst skip_stars.simps) simp
  qed
qed

lemma match_inv_end:
  assumes "match_inv pat cand st" "\<not> match_continues cand st"
  shows "\<not> failed st \<and> skip_stars pat (pattern_index st) = length pat \<longleftrightarrow> glob_ci pat cand"
proof (cases "failed st")
  case True
  then show ?thesis using assms(1) by (simp add: match_inv_def)
next
  case False
  let ?pi = "pattern_index st" and ?sc = "star_candidate st"
  have ci: "candidate_index st = length cand" "?pi \<le> length pat" "?sc \<le> length cand"
    using assms False by (auto simp: match_inv_def match_continues_def)
  have done_iff: "skip_stars pat ?pi = length pat \<longleftrightarrow> glob_ci (drop ?pi pat) []"
    by (rule skip_stars_glob [OF ci(2)])
  show ?thesis
  proof (cases "star_index st")
    case None
    then show ?thesis using assms(1) False ci done_iff by (simp add: match_inv_def)
  next
    case (Some s)
    let ?n = "length cand - ?sc"
    have inv: "?pi = s + 1 + ?n" "\<forall>i < ?n. byte_matches (pat ! (s + 1 + i)) (cand ! (?sc + i))"
      "glob_ci pat cand \<longleftrightarrow> (\<exists>k. ?sc \<le> k \<and> k \<le> length cand \<and> glob_ci (drop (s + 1) pat) (drop k cand))"
      using assms(1) False Some ci by (auto simp: match_inv_def)
    have "glob_ci (drop (s + 1) pat) (drop k cand) \<longleftrightarrow>
        k + ?n \<le> length cand \<and> (\<forall>i < ?n. byte_matches (pat ! (s + 1 + i)) (cand ! (k + i))) \<and>
        glob_ci (drop ?pi pat) (drop (k + ?n) cand)" if "k \<le> length cand" for k
      using glob_ci_segment [of ?n pat "s + 1" k cand] inv(1,2) that ci byte_matches_not_star by auto
    then have "(\<exists>k. ?sc \<le> k \<and> k \<le> length cand \<and> glob_ci (drop (s + 1) pat) (drop k cand)) \<longleftrightarrow>
        glob_ci (drop ?pi pat) []"
      using ci inv(2) by (auto 4 4 intro!: exI [of _ ?sc])
    then show ?thesis using inv(3) False done_iff by simp
  qed
qed

lemma host_wildcard_match_glob:
  assumes "42 \<notin> set cand"
  shows "host_wildcard_match pat cand \<longleftrightarrow> glob_ci pat cand"
proof -
  obtain st where st: "while_option (match_continues cand) (match_step pat cand) match_start = Some st"
    using match_loop_ends by blast
  have "match_inv pat cand st"
    using while_option_rule [where P = "match_inv pat cand", OF _ st] match_inv_step assms match_inv_start
    by blast
  moreover have "\<not> match_continues cand st" by (rule while_option_stop [OF st])
  ultimately show ?thesis using match_inv_end st by (simp add: host_wildcard_match_def)
qed

text \<open>
  With a star in the candidate the loop may take a star of the pattern for that character and miss a match,
  but what it accepts is always a match.
\<close>

definition sound_inv :: "u8 list \<Rightarrow> u8 list \<Rightarrow> match_state \<Rightarrow> bool" where
  "sound_inv pat cand st \<longleftrightarrow>
     pattern_index st \<le> length pat \<and> candidate_index st \<le> length cand \<and> star_candidate st \<le> candidate_index st \<and>
     (glob_ci (drop (pattern_index st) pat) (drop (candidate_index st) cand) \<longrightarrow> glob_ci pat cand) \<and>
     (\<forall>s. star_index st = Some s \<longrightarrow> s < length pat \<and>
        (\<forall>k. star_candidate st \<le> k \<and> k \<le> length cand \<and> glob_ci (drop (Suc s) pat) (drop k cand) \<longrightarrow> glob_ci pat cand))"

lemma sound_inv_step:
  assumes "sound_inv pat cand st" "match_continues cand st"
  shows "sound_inv pat cand (match_step pat cand st)"
proof -
  let ?pi = "pattern_index st" and ?ci = "candidate_index st"
  have ci: "?ci < length cand" using assms(2) by (simp add: match_continues_def)
  show ?thesis
  proof (cases "?pi < length pat \<and> (pat ! ?pi = 63 \<or> byte_lower (pat ! ?pi) = byte_lower (cand ! ?ci))")
    case True
    have "glob_ci (drop ?pi pat) (drop ?ci cand)" if "glob_ci (drop (Suc ?pi) pat) (drop (Suc ?ci) cand)"
    proof (cases "pat ! ?pi = 42")
      case star: True
      then show ?thesis using that glob_ci_drop_star [OF _ star, of ?ci cand] True ci by (auto intro: exI [of _ "Suc ?ci"])
    next
      case False
      then show ?thesis using that glob_ci_drop_other [of ?pi pat ?ci cand] True ci by (auto simp: byte_matches_def)
    qed
    then show ?thesis using assms(1) True ci by (auto simp: match_step_def sound_inv_def Let_def)
  next
    case False
    show ?thesis
    proof (cases "?pi < length pat \<and> pat ! ?pi = 42")
      case star: True
      then show ?thesis
        using assms(1) False ci glob_ci_drop_star [of ?pi pat ?ci cand]
        by (auto simp: match_step_def sound_inv_def Let_def)
    next
      case other: False
      then show ?thesis
        using assms(1) False ci by (auto simp: match_step_def sound_inv_def Let_def split: option.splits)
    qed
  qed
qed

lemma host_wildcard_match_sound:
  assumes "host_wildcard_match pat cand"
  shows "glob_ci pat cand"
proof -
  obtain st where st: "while_option (match_continues cand) (match_step pat cand) match_start = Some st"
      "\<not> failed st" "skip_stars pat (pattern_index st) = length pat"
    using assms by (auto simp: host_wildcard_match_def split: option.splits)
  have "sound_inv pat cand match_start" by (simp add: sound_inv_def match_start_def)
  then have inv: "sound_inv pat cand st"
    using while_option_rule [where P = "sound_inv pat cand", OF _ st(1)] sound_inv_step by blast
  moreover have "\<not> match_continues cand st" by (rule while_option_stop [OF st(1)])
  ultimately have "drop (candidate_index st) cand = []" using st(2) by (simp add: match_continues_def)
  moreover have "glob_ci (drop (pattern_index st) pat) []"
    using skip_stars_glob [of "pattern_index st" pat] inv st(3) by (simp add: sound_inv_def)
  ultimately show ?thesis using inv by (simp add: sound_inv_def)
qed

section \<open>Lemmas: pattern lists and policies\<close>

fun pattern_negated :: "rstring \<Rightarrow> bool" where
  "pattern_negated p = starts_with [33] p"

definition pattern_body :: "rstring \<Rightarrow> rstring" where
  "pattern_body p = (if pattern_negated p then tl p else p)"

definition pattern_well_formed :: "rstring \<Rightarrow> bool" where
  "pattern_well_formed p \<longleftrightarrow> pattern_body p \<noteq> []"

definition pattern_hits :: "rstring \<Rightarrow> rstring \<Rightarrow> bool" where
  "pattern_hits target p \<longleftrightarrow> glob_ci (as_bytes (pattern_body p)) (as_bytes target)"

lemma clear_patterns_loop_ok:
  assumes "42 \<notin> set (as_bytes target)" "\<forall>p \<in> set ps. pattern_well_formed p"
  shows "clear_patterns_loop target positive ps =
    Inr ((positive \<or> (\<exists>p \<in> set ps. \<not> pattern_negated p \<and> pattern_hits target p)) \<and>
         \<not> (\<exists>p \<in> set ps. pattern_negated p \<and> pattern_hits target p))"
  using assms(2)
proof (induction ps arbitrary: positive)
  case (Cons p ps)
  show ?case
  proof (cases "starts_with [33] p")
    case True
    then obtain q where p: "p = 33 # q" by (cases p) auto
    then show ?thesis
      using Cons host_wildcard_match_glob [OF assms(1), of "as_bytes q"]
      by (auto simp: strip_prefix_def pattern_well_formed_def pattern_body_def pattern_hits_def)
  next
    case False
    then show ?thesis
      using Cons host_wildcard_match_glob [OF assms(1), of "as_bytes p"]
      by (auto simp: strip_prefix_def pattern_well_formed_def pattern_body_def pattern_hits_def)
  qed
qed simp

lemma dedup_fold_set:
  "set (fold (\<lambda>key unique. if key \<in> set unique then unique else unique @ [key]) keys acc) = set keys \<union> set acc"
  by (induction keys arbitrary: acc) auto

lemma dedup_set [simp]: "set (dedup_public_keys keys) = set keys"
  by (simp add: dedup_public_keys_def dedup_fold_set)

lemma dedup_distinct: "distinct (dedup_public_keys keys)"
proof -
  have "distinct acc \<Longrightarrow>
      distinct (fold (\<lambda>key unique. if key \<in> set unique then unique else unique @ [key]) keys acc)" for acc
    by (induction keys arbitrary: acc) auto
  then show ?thesis by (simp add: dedup_public_keys_def)
qed

text \<open>The entry that the line with the given index contributes.\<close>

definition line_entry ::
  "('k, 'f) TrustLib \<Rightarrow> rstring \<Rightarrow> nat \<Rightarrow> rstring list \<Rightarrow> nat \<Rightarrow> trust_error + (marker \<times> 'k) option" where
  "line_entry lib target number ls i = parse_marker_line lib target (number + i) (ls ! i)"

lemma parse_marker_lines_ok:
  assumes "parse_marker_lines lib target number policy ls = Inr policy'"
  shows "(\<forall>i < length ls. is_ok (line_entry lib target number ls i)) \<and>
    set (trusted_certificate_authorities policy') = set (trusted_certificate_authorities policy) \<union>
      {k. \<exists>i < length ls. line_entry lib target number ls i = Inr (Some (CertAuthority, k))} \<and>
    set (revoked_keys policy') = set (revoked_keys policy) \<union>
      {k. \<exists>i < length ls. line_entry lib target number ls i = Inr (Some (Revoked, k))}"
  using assms
proof (induction ls arbitrary: number policy)
  case (Cons l ls)
  have shift: "line_entry lib target number (l # ls) 0 = parse_marker_line lib target number l"
    "line_entry lib target number (l # ls) (Suc i) = line_entry lib target (number + 1) ls i" for i
    by (simp_all add: line_entry_def)
  obtain entry where entry: "parse_marker_line lib target number l = Inr entry"
    and rest: "parse_marker_lines lib target (number + 1) (case entry of
            None \<Rightarrow> policy
          | Some (CertAuthority, key) \<Rightarrow>
              policy\<lparr>trusted_certificate_authorities := trusted_certificate_authorities policy @ [key]\<rparr>
          | Some (Revoked, key) \<Rightarrow> policy\<lparr>revoked_keys := revoked_keys policy @ [key]\<rparr>) ls = Inr policy'"
    using Cons.prems by (auto simp: and_then_eq_Inr)
  show ?case
    using Cons.IH [OF rest] entry
    by (auto simp: shift less_Suc_eq_0_disj split: option.splits prod.splits marker.splits)
qed simp

lemma parse_marker_lines_is_ok:
  "is_ok (parse_marker_lines lib target number policy ls) \<longleftrightarrow>
     (\<forall>i < length ls. is_ok (line_entry lib target number ls i))"
proof (induction ls arbitrary: number policy)
  case (Cons l ls)
  have shift: "line_entry lib target number (l # ls) 0 = parse_marker_line lib target number l"
    "line_entry lib target number (l # ls) (Suc i) = line_entry lib target (number + 1) ls i" for i
    by (simp_all add: line_entry_def)
  show ?case
    using Cons.IH [of "number + 1"]
    by (cases "parse_marker_line lib target number l") (auto simp: shift less_Suc_eq_0_disj)
qed simp

lemma verify_host_certificate_ok:
  "verify_host_certificate lib policy host c = Inr () \<longleftrightarrow>
     ce_type c = HostCert \<and> \<not> is_revoked policy (ce_public_key c) \<and>
     \<not> is_revoked policy (ce_signature_key c) \<and>
     is_verifiable_certificate_authority lib (ce_signature_key c) \<and>
     has_certificate_authority lib policy \<and>
     validate_certificate lib c (map (fingerprint lib)
       (filter (is_verifiable_certificate_authority lib) (trusted_certificate_authorities policy))) \<and>
     ce_critical_options c = [] \<and>
     (ce_valid_principals c = [] \<or> list_ex (host_principal_matches host) (ce_valid_principals c))"
  by (auto simp: verify_host_certificate_def Let_def has_certificate_authority_def list_ex_iff
        filter_empty_conv)

section \<open>Theorems\<close>

text \<open>
  C37. The matching loop, which keeps a single star to fall back to, decides the same as matching a
  pattern against a text with every choice for every star, without regard to ASCII case, for every
  candidate that does not itself contain a star. On every input, such candidates included, it ends and
  accepts nothing that does not match.
\<close>

theorem host_wildcard_match_correct:
  shows "(\<exists>st. while_option (match_continues cand) (match_step pat cand) match_start = Some st) \<and>
         (host_wildcard_match pat cand \<longrightarrow> glob (map byte_lower pat) (map byte_lower cand)) \<and>
         (42 \<notin> set cand \<longrightarrow>
            (host_wildcard_match pat cand \<longleftrightarrow> glob (map byte_lower pat) (map byte_lower cand)))"
  using match_loop_ends host_wildcard_match_sound host_wildcard_match_glob by (auto simp: glob_ci_def)

theorem host_wildcard_match_correct_witness:
  "host_wildcard_match (as_bytes (lit ''*.Prod.*ple'')) (as_bytes (lit ''db.prod.example''))"
proof -
  have "42 \<notin> set (as_bytes (lit ''db.prod.example''))" by code_simp
  moreover have "glob (map byte_lower (as_bytes (lit ''*.Prod.*ple'')))
      (map byte_lower (as_bytes (lit ''db.prod.example'')))" by code_simp
  ultimately show ?thesis using host_wildcard_match_correct by blast
qed

text \<open>Without that condition the first test takes a star of the pattern for the star of the candidate
  and the loop never falls back to it.\<close>

lemma star_candidate_missed:
  "\<not> host_wildcard_match [42] [42, 97]" "glob [42] [42, 97]"
  by code_simp+

text \<open>
  A list of host patterns applies to a host exactly when some plain pattern matches it and no
  negated one does, in whatever order the list gives them.
\<close>

theorem clear_host_patterns_match_correct:
  assumes "42 \<notin> set (as_bytes (to_ascii_lowercase target))" "\<forall>p \<in> set ps. pattern_well_formed p"
  shows "clear_host_patterns_match target ps =
    Inr ((\<exists>p \<in> set ps. \<not> pattern_negated p \<and> pattern_hits (to_ascii_lowercase target) p) \<and>
         \<not> (\<exists>p \<in> set ps. pattern_negated p \<and> pattern_hits (to_ascii_lowercase target) p))"
  using clear_patterns_loop_ok [OF assms] by (simp add: clear_host_patterns_match_def)

theorem clear_host_patterns_match_correct_witness:
  "clear_host_patterns_match (lit ''Api.prod.example'') [lit ''*.example'', lit ''!api.prod.example''] = Inr False"
proof -
  have "42 \<notin> set (as_bytes (to_ascii_lowercase (lit ''Api.prod.example'')))" by code_simp
  moreover have "\<forall>p \<in> set [lit ''*.example'', lit ''!api.prod.example'']. pattern_well_formed p" by code_simp
  moreover have "pattern_negated (lit ''!api.prod.example'') \<and>
      pattern_hits (to_ascii_lowercase (lit ''Api.prod.example'')) (lit ''!api.prod.example'')" by code_simp
  ultimately show ?thesis
    by (subst clear_host_patterns_match_correct) (auto simp del: pattern_negated.simps)
qed

text \<open>
  Reading the trust markers fails closed: it succeeds exactly when every line is well-formed, and
  then a key is revoked, or is a trusted authority, exactly when some line that applies to the host
  says so; no key is listed twice.
\<close>

theorem trust_parse_correct:
  "(is_ok (trust_parse lib host port contents) \<longleftrightarrow>
      (\<forall>i < length (lines_of contents).
         is_ok (line_entry lib (known_hosts_target host port) 1 (lines_of contents) i))) \<and>
   (\<forall>policy key. trust_parse lib host port contents = Inr policy \<longrightarrow>
      (is_revoked policy key \<longleftrightarrow>
         (\<exists>i < length (lines_of contents).
            line_entry lib (known_hosts_target host port) 1 (lines_of contents) i = Inr (Some (Revoked, key)))) \<and>
      (key \<in> set (trusted_certificate_authorities policy) \<longleftrightarrow>
         (\<exists>i < length (lines_of contents).
            line_entry lib (known_hosts_target host port) 1 (lines_of contents) i = Inr (Some (CertAuthority, key)))) \<and>
      distinct (revoked_keys policy) \<and> distinct (trusted_certificate_authorities policy))"
proof (intro conjI [of "is_ok _ \<longleftrightarrow> _"] allI impI)
  have "is_ok (trust_parse lib host port contents) \<longleftrightarrow>
      is_ok (parse_marker_lines lib (known_hosts_target host port) 1 policy_default (lines_of contents))"
    unfolding trust_parse_def
    by (cases "parse_marker_lines lib (known_hosts_target host port) 1 policy_default (lines_of contents)") auto
  then show "is_ok (trust_parse lib host port contents) \<longleftrightarrow>
      (\<forall>i < length (lines_of contents).
         is_ok (line_entry lib (known_hosts_target host port) 1 (lines_of contents) i))"
    by (simp only: parse_marker_lines_is_ok)
next
  fix policy key
  assume "trust_parse lib host port contents = Inr policy"
  then obtain p where p: "parse_marker_lines lib (known_hosts_target host port) 1 policy_default
        (lines_of contents) = Inr p"
    and policy: "policy = \<lparr>trusted_certificate_authorities = dedup_public_keys (trusted_certificate_authorities p),
          revoked_keys = dedup_public_keys (revoked_keys p)\<rparr>"
    by (auto simp: trust_parse_def and_then_eq_Inr)
  show "(is_revoked policy key \<longleftrightarrow>
         (\<exists>i < length (lines_of contents).
            line_entry lib (known_hosts_target host port) 1 (lines_of contents) i = Inr (Some (Revoked, key)))) \<and>
      (key \<in> set (trusted_certificate_authorities policy) \<longleftrightarrow>
         (\<exists>i < length (lines_of contents).
            line_entry lib (known_hosts_target host port) 1 (lines_of contents) i = Inr (Some (CertAuthority, key)))) \<and>
      distinct (revoked_keys policy) \<and> distinct (trusted_certificate_authorities policy)"
    using parse_marker_lines_ok [OF p]
    by (auto simp: policy is_revoked_def list_ex_iff dedup_distinct policy_default_def)
qed

text \<open>A library over textual keys, and a file with one authority and one revoked key.\<close>

definition sample_lib :: "(rstring, rstring) TrustLib" where
  "sample_lib =
     \<lparr>parse_patterns = (\<lambda>t. Some (Patterns (split_on (\<lambda>c. c = 44) t))),
      from_openssh_key = Some,
      hmac_sha1_verify = (\<lambda>_ _ _. None),
      key_algorithm = (\<lambda>_. Ed25519),
      fingerprint = (\<lambda>k. k),
      validate_certificate = (\<lambda>c fs. list_ex (\<lambda>f. f = ce_signature_key c) fs)\<rparr>"

definition sample_known_hosts :: rstring where
  "sample_known_hosts =
     lit ''@cert-authority *.example ssh-ed25519 CA'' @ [10] @ lit ''@revoked bad.example ssh-ed25519 BAD'' @ [10]"

theorem trust_parse_correct_witness:
  "\<exists>policy. trust_parse sample_lib (lit ''bad.example'') 22 sample_known_hosts = Inr policy \<and>
     is_revoked policy (lit ''ssh-ed25519 BAD'')"
proof -
  have "is_ok (trust_parse sample_lib (lit ''bad.example'') 22 sample_known_hosts)" by code_simp
  then obtain policy where p: "trust_parse sample_lib (lit ''bad.example'') 22 sample_known_hosts = Inr policy"
    by (auto simp: is_ok_iff)
  have "1 < length (lines_of sample_known_hosts) \<and>
      line_entry sample_lib (known_hosts_target (lit ''bad.example'') 22) 1 (lines_of sample_known_hosts) 1 =
      Inr (Some (Revoked, lit ''ssh-ed25519 BAD''))" by code_simp
  then have "is_revoked policy (lit ''ssh-ed25519 BAD'')"
    using trust_parse_correct [of sample_lib "lit ''bad.example''" 22 sample_known_hosts] p by blast
  with p show ?thesis by blast
qed

text \<open>
  C19. A server key is accepted only on these grounds, under a policy file that could be read. A
  certificate: the policy is not the insecure one, neither the certified key nor the signing
  authority is revoked, the authority is of a verifiable kind and the certificate validates against
  the trusted ones, it has no critical option and its principals cover the host. A plain key: it is
  not revoked, and the policy is the insecure one, or the key is known, or the policy accepts new
  keys and the key has been stored.
\<close>

theorem server_key_accepted_iff:
  "fst (check_server_key world h server_key) = Inr True \<longleftrightarrow>
     (\<exists>trust. trust_load (hw_lib world) (hw_files world) (hw_default_path world) (ch_host h) (ch_port h)
        (ch_known_hosts_file h) = Inr trust \<and>
      (case server_key of
         CertKey c \<Rightarrow>
           ch_policy h \<noteq> Insecure \<and> ce_type c = HostCert \<and>
           \<not> is_revoked trust (ce_public_key c) \<and> \<not> is_revoked trust (ce_signature_key c) \<and>
           is_verifiable_certificate_authority (hw_lib world) (ce_signature_key c) \<and>
           has_certificate_authority (hw_lib world) trust \<and>
           validate_certificate (hw_lib world) c (map (fingerprint (hw_lib world))
             (filter (is_verifiable_certificate_authority (hw_lib world))
                (trusted_certificate_authorities trust))) \<and>
           ce_critical_options c = [] \<and>
           (ce_valid_principals c = [] \<or>
             list_ex (host_principal_matches (ch_host h)) (ce_valid_principals c))
       | PlainKey k \<Rightarrow>
           \<not> is_revoked trust k \<and>
           (ch_policy h = Insecure \<or>
            hw_check_known_hosts world (ch_host h) (ch_port h) k (ch_known_hosts_file h) = Some True \<or>
            ch_policy h = AcceptNew \<and>
            hw_check_known_hosts world (ch_host h) (ch_port h) k (ch_known_hosts_file h) = Some False \<and>
            hw_learn_known_hosts world (ch_host h) (ch_port h) k (ch_known_hosts_file h))))"
proof (cases server_key)
  case (CertKey c)
  let ?load = "trust_load (hw_lib world) (hw_files world) (hw_default_path world) (ch_host h) (ch_port h)
        (ch_known_hosts_file h)"
  have "fst (check_server_key world h server_key) = Inr True \<longleftrightarrow> ch_policy h \<noteq> Insecure \<and>
      (\<exists>trust. ?load = Inr trust \<and> verify_host_certificate (hw_lib world) trust (ch_host h) c = Inr ())"
    using CertKey by (cases ?load) (auto simp: check_server_key_def split: sum.splits)
  then show ?thesis by (simp only: CertKey ServerKey.case verify_host_certificate_ok) blast
next
  case (PlainKey k)
  then show ?thesis
    by (cases "ch_policy h")
       (auto simp: check_server_key_def check_plain_key_def split: sum.splits option.splits)
qed

text \<open>
  Nothing is recorded or stored for a key that is not accepted, a key is stored only under the
  policy that accepts new keys, and what is recorded is the key presented.
\<close>

theorem server_key_effects:
  "(fst (check_server_key world h server_key) \<noteq> Inr True \<longrightarrow> snd (check_server_key world h server_key) = h) \<and>
   (ch_learned (snd (check_server_key world h server_key)) \<noteq> ch_learned h \<longrightarrow>
      ch_policy h = AcceptNew \<and> (\<exists>k. server_key = PlainKey k \<and>
        ch_learned (snd (check_server_key world h server_key)) = ch_learned h @ [k])) \<and>
   (fst (check_server_key world h server_key) = Inr True \<longrightarrow>
      (\<exists>v. ch_recorded (snd (check_server_key world h server_key)) =
        Some (case server_key of PlainKey k \<Rightarrow> k | CertKey c \<Rightarrow> ce_public_key c, v)))"
  by (cases server_key; cases "ch_policy h")
     (auto simp: check_server_key_def check_plain_key_def record_server_host_key_def
        split: sum.splits option.splits)

definition sample_handler_world :: "(rstring, rstring) HandlerWorld" where
  "sample_handler_world =
     \<lparr>hw_lib = sample_lib, hw_files = (\<lambda>_. FileBytes (as_bytes sample_known_hosts)), hw_default_path = None,
      hw_check_known_hosts = (\<lambda>_ _ _ _. Some False), hw_learn_known_hosts = (\<lambda>_ _ _ _. True)\<rparr>"

definition sample_handler :: "HostKeyPolicy \<Rightarrow> rstring ClientHandler" where
  "sample_handler policy =
     \<lparr>ch_host = lit ''bad.example'', ch_port = 22, ch_policy = policy,
      ch_known_hosts_file = Some (lit ''known_hosts''), ch_recorded = None, ch_learned = []\<rparr>"

theorem server_key_effects_witness:
  "snd (check_server_key sample_handler_world (sample_handler Insecure) (PlainKey (lit ''ssh-ed25519 BAD''))) =
     sample_handler Insecure \<and>
   (\<exists>v. ch_recorded (snd (check_server_key sample_handler_world (sample_handler AcceptNew)
      (PlainKey (lit ''ssh-ed25519 NEW'')))) = Some (lit ''ssh-ed25519 NEW'', v))"
proof -
  have "fst (check_server_key sample_handler_world (sample_handler Insecure)
      (PlainKey (lit ''ssh-ed25519 BAD''))) = Inl KeyRevoked" by code_simp
  then have "fst (check_server_key sample_handler_world (sample_handler Insecure)
      (PlainKey (lit ''ssh-ed25519 BAD''))) \<noteq> Inr True" by simp
  moreover have "fst (check_server_key sample_handler_world (sample_handler AcceptNew)
      (PlainKey (lit ''ssh-ed25519 NEW''))) = Inr True" by code_simp
  ultimately show ?thesis
    using server_key_effects [of sample_handler_world "sample_handler Insecure" "PlainKey (lit ''ssh-ed25519 BAD'')"]
      server_key_effects [of sample_handler_world "sample_handler AcceptNew" "PlainKey (lit ''ssh-ed25519 NEW'')"]
    by auto
qed

end
