(* ===== verification/Connection_Pool.thy ===== *)
theory Connection_Pool
  imports Connection_Config Machine "HOL-Library.AList"
begin

section \<open>The pool of authenticated connections\<close>

text \<open>
  Model of \<open>manager.rs\<close> and \<open>manager/jump.rs\<close>, with \<open>Authentication::reuse_key\<close> of \<open>auth.rs\<close>. Calls
  of \<open>connect\<close> run concurrently; each is a task with a program counter, and every section of the
  code that holds a lock, or does nothing another task can see, is one step. Managed connections are
  objects on a heap: \<open>mc_handles\<close> counts the \<open>Arc\<close>s of the wrapper held outside the pool's map,
  \<open>mc_clients\<close> the \<open>Arc\<close>s of the client held outside the wrapper. An object is freed, and its
  capacity permit returned, when the map and all handles have let go of it. A call
  of \<open>remove\<close> or \<open>close_all\<close> owns what it has taken out of the map until its \<open>close\<close> is over. The transport itself is
  not modelled: dialling succeeds or fails, and a connection may die at any moment. Times are
  readings of one clock. A task may be cancelled at every point where the code awaits.
\<close>

subsection \<open>Reuse of an authentication\<close>

datatype Authentication =
    Password rstring
  | KeyboardInteractive rstring
  | PrivateKey rstring "rstring option"
  | Agent
  | Auto "rstring list" "rstring option"

datatype AuthenticationReuseKey =
    PrivateKeyReuse rstring | AgentReuse | AutoReuse "rstring list" | NonReusable

fun can_reuse_with :: "AuthenticationReuseKey \<Rightarrow> AuthenticationReuseKey \<Rightarrow> bool" where
  "can_reuse_with (PrivateKeyReuse existing) (PrivateKeyReuse requested) = (existing = requested)"
| "can_reuse_with AgentReuse AgentReuse = True"
| "can_reuse_with (AutoReuse existing) (AutoReuse requested) = (existing = requested)"
| "can_reuse_with _ _ = False"

fun reuse_key :: "Authentication \<Rightarrow> AuthenticationReuseKey" where
  "reuse_key (Password _) = NonReusable"
| "reuse_key (KeyboardInteractive _) = NonReusable"
| "reuse_key (PrivateKey key_path passphrase) =
     (if passphrase \<noteq> None then NonReusable else PrivateKeyReuse key_path)"
| "reuse_key Agent = AgentReuse"
| "reuse_key (Auto identity_files passphrase) =
     (if passphrase \<noteq> None \<or> identity_files = [] then NonReusable else AutoReuse identity_files)"

subsection \<open>State\<close>

type_synonym cid = nat
type_synonym tid = nat

record ManagedConnection =
  mc_config :: ConnectionConfig
  mc_authentication :: AuthenticationReuseKey
  mc_last_used :: nat
  mc_active_leases :: nat
  mc_alive :: bool
  mc_handles :: nat
  mc_clients :: nat
  mc_closing :: nat

datatype (plugins only: code size) pool_error =
    NameEmpty | DifferentConfiguration | DifferentAuthentication | CapacityReached | ConnectFailed

text \<open>
  Where a call of \<open>connect\<close> stands. From \<open>Leading\<close> to \<open>Dropping\<close> it holds the leader guard of its
  name; from \<open>Dialing\<close> to \<open>Inserting\<close> it holds a capacity permit.
\<close>

datatype phase =
    Start | StartEvict cid | Claiming | Waiting tid | Following | FollowEvict cid
  | Leading | LeadEvict cid | Pruning | Acquiring | Dialing | Inserting
  | Dropping "pool_error + cid" | Finished "pool_error + cid"

record connect_task =
  ct_name :: rstring
  ct_config :: ConnectionConfig
  ct_key :: AuthenticationReuseKey
  ct_jump :: bool
  ct_phase :: phase

record ConnectionManager =
  max_connections :: nat
  idle_timeout :: nat
  clock :: nat
  capacity :: nat
  connections :: "(rstring \<times> cid) list"
  connecting :: "(rstring \<times> tid) list"
  heap :: "cid \<rightharpoonup> ManagedConnection"
  next_cid :: cid
  tasks :: "tid \<rightharpoonup> connect_task"

definition manager_new :: "nat \<Rightarrow> nat \<Rightarrow> ConnectionManager" where
  "manager_new max_conns timeout =
     \<lparr>max_connections = max_conns, idle_timeout = timeout, clock = 0, capacity = max_conns,
      connections = [], connecting = [], heap = Map.empty, next_cid = 0, tasks = Map.empty\<rparr>"

subsection \<open>Ownership\<close>

definition upd :: "cid \<Rightarrow> (ManagedConnection \<Rightarrow> ManagedConnection) \<Rightarrow> ConnectionManager \<Rightarrow> ConnectionManager" where
  "upd c f p = (case heap p c of None \<Rightarrow> p | Some m \<Rightarrow> p\<lparr>heap := (heap p)(c \<mapsto> f m)\<rparr>)"

definition touch :: "cid \<Rightarrow> ConnectionManager \<Rightarrow> ConnectionManager" where
  "touch c p = upd c (\<lambda>m. m\<lparr>mc_last_used := clock p\<rparr>) p"

definition add_handle :: "cid \<Rightarrow> ConnectionManager \<Rightarrow> ConnectionManager" where
  "add_handle c p = upd c (\<lambda>m. m\<lparr>mc_handles := mc_handles m + 1\<rparr>) p"

text \<open>Freeing an object that neither the map nor a handle owns returns its permit.\<close>

definition reap :: "cid \<Rightarrow> ConnectionManager \<Rightarrow> ConnectionManager" where
  "reap c p =
     (case heap p c of
        None \<Rightarrow> p
      | Some m \<Rightarrow>
          if mc_handles m = 0 \<and> c \<notin> snd ` set (connections p)
          then p\<lparr>heap := (heap p)(c := None), capacity := capacity p + 1\<rparr> else p)"

definition drop_handle :: "cid \<Rightarrow> ConnectionManager \<Rightarrow> ConnectionManager" where
  "drop_handle c p = reap c (upd c (\<lambda>m. m\<lparr>mc_handles := mc_handles m - 1\<rparr>) p)"

definition unmap :: "rstring \<Rightarrow> ConnectionManager \<Rightarrow> ConnectionManager" where
  "unmap name p =
     (case map_of (connections p) name of
        None \<Rightarrow> p
      | Some c \<Rightarrow> reap c (p\<lparr>connections := AList.delete name (connections p)\<rparr>))"

subsection \<open>Lookups\<close>

definition alive :: "ConnectionManager \<Rightarrow> cid \<Rightarrow> bool" where
  "alive p c \<longleftrightarrow> (case heap p c of None \<Rightarrow> False | Some m \<Rightarrow> mc_alive m)"

definition ensure_config_matches ::
  "ConnectionConfig \<Rightarrow> ConnectionConfig \<Rightarrow> pool_error + unit" where
  "ensure_config_matches existing requested =
     (if existing \<noteq> requested then Inl DifferentConfiguration else Inr ())"

definition ensure_reusable ::
  "ConnectionConfig \<Rightarrow> ConnectionConfig \<Rightarrow> AuthenticationReuseKey \<Rightarrow> AuthenticationReuseKey \<Rightarrow>
   pool_error + unit" where
  "ensure_reusable existing requested existing_auth requested_auth =
     (if existing \<noteq> requested then Inl DifferentConfiguration
      else if \<not> can_reuse_with existing_auth requested_auth then Inl DifferentAuthentication
      else Inr ())"

datatype lookup = Missing | DeadEntry cid | Refused pool_error | Reusable cid

definition get_reusable_managed_inner ::
  "ConnectionManager \<Rightarrow> rstring \<Rightarrow> ConnectionConfig \<Rightarrow> AuthenticationReuseKey \<Rightarrow> bool \<Rightarrow> lookup" where
  "get_reusable_managed_inner p name config key allow_non_reusable_pair =
     (case map_of (connections p) name of
        None \<Rightarrow> Missing
      | Some c \<Rightarrow>
          (case heap p c of
             None \<Rightarrow> Missing
           | Some m \<Rightarrow>
               if \<not> mc_alive m then DeadEntry c
               else
                 (case (if can_reuse_with (mc_authentication m) key \<or>
                           allow_non_reusable_pair \<and> mc_authentication m = NonReusable \<and> key = NonReusable
                        then ensure_config_matches (mc_config m) config
                        else ensure_reusable (mc_config m) config (mc_authentication m) key) of
                    Inl e \<Rightarrow> Refused e
                  | Inr _ \<Rightarrow> Reusable c)))"

text \<open>\<open>get_managed\<close>: whatever live connection the name has.\<close>

definition get_managed :: "ConnectionManager \<Rightarrow> rstring \<Rightarrow> lookup" where
  "get_managed p name =
     (case map_of (connections p) name of
        None \<Rightarrow> Missing
      | Some c \<Rightarrow> if alive p c then Reusable c else DeadEntry c)"

definition evict_dead :: "rstring \<Rightarrow> cid \<Rightarrow> ConnectionManager \<Rightarrow> ConnectionManager" where
  "evict_dead name observed p =
     (if map_of (connections p) name = Some observed \<and> \<not> alive p observed then unmap name p else p)"

subsection \<open>Pruning\<close>

definition expired :: "ConnectionManager \<Rightarrow> cid \<Rightarrow> bool" where
  "expired p c \<longleftrightarrow>
     (case heap p c of
        None \<Rightarrow> False
      | Some m \<Rightarrow>
          mc_handles m = 0 \<and> mc_clients m = 0 \<and> mc_active_leases m = 0 \<and>
          idle_timeout p \<le> clock p - mc_last_used m)"

definition prune_idle :: "ConnectionManager \<Rightarrow> nat \<times> ConnectionManager" where
  "prune_idle p =
     (let names = map fst (filter (\<lambda>(_, c). expired p c) (connections p))
      in (length names, fold unmap names p))"

subsection \<open>The steps of a call\<close>

definition goto :: "tid \<Rightarrow> phase \<Rightarrow> ConnectionManager \<Rightarrow> ConnectionManager" where
  "goto t ph p =
     (case tasks p t of
        None \<Rightarrow> p
      | Some ct \<Rightarrow> p\<lparr>tasks := (tasks p)(t \<mapsto> ct\<lparr>ct_phase := ph\<rparr>)\<rparr>)"

text \<open>A lookup by a task: a dead entry is remembered with a handle, a usable one is touched and kept.\<close>

definition after_lookup ::
  "tid \<Rightarrow> lookup \<Rightarrow> (cid \<Rightarrow> phase) \<Rightarrow> phase \<Rightarrow> (pool_error + cid \<Rightarrow> phase) \<Rightarrow> ConnectionManager \<Rightarrow>
   ConnectionManager" where
  "after_lookup t found evicting missing return p =
     (case found of
        Missing \<Rightarrow> goto t missing p
      | DeadEntry c \<Rightarrow> goto t (evicting c) (add_handle c p)
      | Refused e \<Rightarrow> goto t (return (Inl e)) p
      | Reusable c \<Rightarrow> goto t (return (Inr c)) (add_handle c (touch c p)))"

text \<open>\<open>Drop for ConnectLeader\<close>\<close>

definition drop_guard :: "tid \<Rightarrow> rstring \<Rightarrow> ConnectionManager \<Rightarrow> ConnectionManager" where
  "drop_guard t name p =
     (if map_of (connecting p) name = Some t
      then p\<lparr>connecting := AList.delete name (connecting p)\<rparr> else p)"

text \<open>The entry that an inserting call respects: in \<open>manager.rs\<close> a live one, in \<open>jump.rs\<close> any.\<close>

definition live_existing :: "ConnectionManager \<Rightarrow> rstring \<Rightarrow> cid option" where
  "live_existing p name =
     (case map_of (connections p) name of
        Some c \<Rightarrow> if alive p c then Some c else None
      | None \<Rightarrow> None)"

definition jump_existing :: "ConnectionManager \<Rightarrow> rstring \<Rightarrow> cid option" where
  "jump_existing p name = map_of (connections p) name"

text \<open>The leader of a name, or the task as its new leader.\<close>

definition claim_connect :: "tid \<Rightarrow> rstring \<Rightarrow> ConnectionManager \<Rightarrow> tid + ConnectionManager" where
  "claim_connect t name p =
     (case map_of (connecting p) name of
        Some leader \<Rightarrow> Inl leader
      | None \<Rightarrow> Inr (p\<lparr>connecting := AList.update name t (connecting p)\<rparr>))"

text \<open>The insertion of a connected candidate, after \<open>ManagedConnection::new\<close>.\<close>

definition insert_candidate ::
  "tid \<Rightarrow> connect_task \<Rightarrow> ConnectionManager \<Rightarrow> ConnectionManager" where
  "insert_candidate t ct p =
     (let existing =
            (if ct_jump ct then jump_existing p (ct_name ct) else live_existing p (ct_name ct))
      in case existing of
           None \<Rightarrow>
             let c = next_cid p;
                 m = \<lparr>mc_config = ct_config ct, mc_authentication = ct_key ct, mc_last_used = clock p,
                      mc_active_leases = 0, mc_alive = True, mc_handles = 1, mc_clients = 0, mc_closing = 0\<rparr>;
                 replaced = map_of (connections p) (ct_name ct);
                 p1 = p\<lparr>heap := (heap p)(c \<mapsto> m), next_cid := c + 1,
                        connections := AList.update (ct_name ct) c (connections p)\<rparr>;
                 p2 = (case replaced of None \<Rightarrow> p1 | Some d \<Rightarrow> reap d p1)
             in goto t (Dropping (Inr c)) p2
         | Some c \<Rightarrow>
             let p1 = p\<lparr>capacity := capacity p + 1\<rparr> in
             (case heap p c of
                None \<Rightarrow> goto t (Dropping (Inl ConnectFailed)) p1
              | Some m \<Rightarrow>
                  (case ensure_reusable (mc_config m) (ct_config ct) (mc_authentication m) (ct_key ct) of
                     Inl e \<Rightarrow> goto t (Dropping (Inl e)) p1
                   | Inr _ \<Rightarrow> goto t (Dropping (Inr c)) (add_handle c (touch c p1)))))"

definition call_step :: "tid \<Rightarrow> bool \<Rightarrow> ConnectionManager \<Rightarrow> ConnectionManager option" where
  "call_step t dialled p =
     (case tasks p t of
        None \<Rightarrow> None
      | Some ct \<Rightarrow>
          let name = ct_name ct;
              look = get_reusable_managed_inner p name (ct_config ct) (ct_key ct)
          in case ct_phase ct of
               Start \<Rightarrow> Some (after_lookup t (look False) StartEvict Claiming Finished p)
             | StartEvict c \<Rightarrow> Some (goto t Claiming (drop_handle c (evict_dead name c p)))
             | Claiming \<Rightarrow>
                 (case claim_connect t name p of
                    Inl leader \<Rightarrow> Some (goto t (Waiting leader) p)
                  | Inr q \<Rightarrow> Some (goto t Leading q))
             | Waiting leader \<Rightarrow>
                 if map_of (connecting p) name = Some leader then None
                 else Some (goto t (if ct_jump ct then Start else Following) p)
             | Following \<Rightarrow> Some (after_lookup t (look True) FollowEvict Start Finished p)
             | FollowEvict c \<Rightarrow> Some (goto t Start (drop_handle c (evict_dead name c p)))
             | Leading \<Rightarrow> Some (after_lookup t (look False) LeadEvict Pruning Dropping p)
             | LeadEvict c \<Rightarrow> Some (goto t Pruning (drop_handle c (evict_dead name c p)))
             | Pruning \<Rightarrow> Some (goto t Acquiring (snd (prune_idle p)))
             | Acquiring \<Rightarrow>
                 if capacity p = 0 then Some (goto t (Dropping (Inl CapacityReached)) p)
                 else Some (goto t Dialing (p\<lparr>capacity := capacity p - 1\<rparr>))
             | Dialing \<Rightarrow>
                 if dialled then Some (goto t Inserting p)
                 else Some (goto t (Dropping (Inl ConnectFailed)) (p\<lparr>capacity := capacity p + 1\<rparr>))
             | Inserting \<Rightarrow> Some (insert_candidate t ct p)
             | Dropping result \<Rightarrow> Some (goto t (Finished result) (drop_guard t name p))
             | Finished result \<Rightarrow> None)"

text \<open>Cancellation drops what the call owns: handles, the permit, the leader guard.\<close>

definition forget :: "tid \<Rightarrow> ConnectionManager \<Rightarrow> ConnectionManager" where
  "forget t p = p\<lparr>tasks := (tasks p)(t := None)\<rparr>"

definition cancel :: "tid \<Rightarrow> ConnectionManager \<Rightarrow> ConnectionManager option" where
  "cancel t p =
     (case tasks p t of
        None \<Rightarrow> None
      | Some ct \<Rightarrow>
          let guardless = drop_guard t (ct_name ct) in
          (case ct_phase ct of
             Start \<Rightarrow> Some (forget t p)
           | StartEvict c \<Rightarrow> Some (forget t (drop_handle c p))
           | Waiting _ \<Rightarrow> Some (forget t p)
           | Following \<Rightarrow> Some (forget t p)
           | FollowEvict c \<Rightarrow> Some (forget t (drop_handle c p))
           | Leading \<Rightarrow> Some (forget t (guardless p))
           | LeadEvict c \<Rightarrow> Some (forget t (guardless (drop_handle c p)))
           | Pruning \<Rightarrow> Some (forget t (guardless p))
           | Dialing \<Rightarrow> Some (forget t (guardless (p\<lparr>capacity := capacity p + 1\<rparr>)))
           | Inserting \<Rightarrow> Some (forget t (guardless (p\<lparr>capacity := capacity p + 1\<rparr>)))
           | _ \<Rightarrow> None))"

subsection \<open>The other operations\<close>

definition spawn ::
  "tid \<Rightarrow> rstring \<Rightarrow> ConnectionConfig \<Rightarrow> Authentication \<Rightarrow> bool \<Rightarrow> ConnectionManager \<Rightarrow>
   ConnectionManager option" where
  "spawn t name config authentication jump p =
     (if tasks p t \<noteq> None then None
      else Some (p\<lparr>tasks := (tasks p)(t \<mapsto>
        \<lparr>ct_name = name, ct_config = config, ct_key = reuse_key authentication, ct_jump = jump,
         ct_phase = (if name = [] then Finished (Inl NameEmpty) else Start)\<rparr>)\<rparr>))"

definition acquire_lease :: "cid \<Rightarrow> ConnectionManager \<Rightarrow> ConnectionManager" where
  "acquire_lease c p = touch c (upd c (\<lambda>m. m\<lparr>mc_active_leases := mc_active_leases m + 1\<rparr>) p)"

definition release_lease :: "cid \<Rightarrow> ConnectionManager \<Rightarrow> ConnectionManager" where
  "release_lease c p = touch c (upd c (\<lambda>m. m\<lparr>mc_active_leases := mc_active_leases m - 1\<rparr>) p)"

text \<open>The end of \<open>connect_lease\<close> (a lease is made) and of \<open>connect\<close> (the client is cloned).\<close>

definition collect :: "tid \<Rightarrow> bool \<Rightarrow> ConnectionManager \<Rightarrow> ConnectionManager option" where
  "collect t as_lease p =
     (case tasks p t of
        None \<Rightarrow> None
      | Some ct \<Rightarrow>
          (case ct_phase ct of
             Finished (Inl e) \<Rightarrow> Some (forget t p)
           | Finished (Inr c) \<Rightarrow>
               Some (forget t
                 (if as_lease \<and> \<not> ct_jump ct then acquire_lease c p
                  else drop_handle c (upd c (\<lambda>m. m\<lparr>mc_clients := mc_clients m + 1\<rparr>) p)))
           | _ \<Rightarrow> None))"

definition get_client :: "rstring \<Rightarrow> ConnectionManager \<Rightarrow> ConnectionManager option" where
  "get_client name p =
     (case get_managed p name of
        Reusable c \<Rightarrow> Some (upd c (\<lambda>m. m\<lparr>mc_clients := mc_clients m + 1\<rparr>) (touch c p))
      | DeadEntry c \<Rightarrow> Some (evict_dead name c p)
      | _ \<Rightarrow> None)"

definition get_lease :: "rstring \<Rightarrow> ConnectionManager \<Rightarrow> ConnectionManager option" where
  "get_lease name p =
     (case get_managed p name of
        Reusable c \<Rightarrow> Some (acquire_lease c (add_handle c (touch c p)))
      | DeadEntry c \<Rightarrow> Some (evict_dead name c p)
      | _ \<Rightarrow> None)"

definition leased :: "ConnectionManager \<Rightarrow> cid \<Rightarrow> bool" where
  "leased p c \<longleftrightarrow> (case heap p c of None \<Rightarrow> False | Some m \<Rightarrow> 0 < mc_active_leases m)"

definition clone_lease :: "cid \<Rightarrow> ConnectionManager \<Rightarrow> ConnectionManager option" where
  "clone_lease c p = (if leased p c then Some (add_handle c (acquire_lease c p)) else None)"

definition drop_lease :: "cid \<Rightarrow> ConnectionManager \<Rightarrow> ConnectionManager option" where
  "drop_lease c p = (if leased p c then Some (drop_handle c (release_lease c p)) else None)"

definition drop_client :: "cid \<Rightarrow> ConnectionManager \<Rightarrow> ConnectionManager" where
  "drop_client c p = upd c (\<lambda>m. m\<lparr>mc_clients := mc_clients m - 1\<rparr>) p"

definition die :: "cid \<Rightarrow> ConnectionManager \<Rightarrow> ConnectionManager" where
  "die c p = upd c (\<lambda>m. m\<lparr>mc_alive := False\<rparr>) p"

text \<open>
  \<open>remove\<close> and \<open>close_all\<close> take wrappers out of the map and own them until \<open>close().await\<close> is over:
  \<open>mc_closing\<close> counts the handles such a call holds. \<open>close_done\<close> is the end of one close, with success, with
  an error, or because the call was cancelled; the wrapper is dropped in all three cases.
\<close>

definition take_out :: "rstring \<Rightarrow> cid \<Rightarrow> ConnectionManager \<Rightarrow> ConnectionManager" where
  "take_out name c p = unmap name (upd c (\<lambda>m. m\<lparr>mc_handles := mc_handles m + 1, mc_closing := mc_closing m + 1\<rparr>) p)"

definition remove :: "rstring \<Rightarrow> ConnectionManager \<Rightarrow> bool \<times> ConnectionManager" where
  "remove name p =
     (case map_of (connections p) name of
        None \<Rightarrow> (False, p)
      | Some c \<Rightarrow> (True, take_out name c p))"

definition closing :: "ConnectionManager \<Rightarrow> cid \<Rightarrow> bool" where
  "closing p c \<longleftrightarrow> (case heap p c of None \<Rightarrow> False | Some m \<Rightarrow> 0 < mc_closing m)"

definition close_done :: "cid \<Rightarrow> bool \<Rightarrow> ConnectionManager \<Rightarrow> ConnectionManager option" where
  "close_done c closed p =
     (if closing p c
      then Some (drop_handle c (upd c (\<lambda>m. m\<lparr>mc_closing := mc_closing m - 1, mc_alive := mc_alive m \<and> \<not> closed\<rparr>) p))
      else None)"

definition close_all :: "ConnectionManager \<Rightarrow> ConnectionManager" where
  "close_all p = fold (\<lambda>name q. snd (remove name q)) (map fst (connections p)) p"

subsection \<open>Snapshots\<close>

definition managed_is_in_use :: "ManagedConnection \<Rightarrow> bool" where
  "managed_is_in_use m \<longleftrightarrow> mc_active_leases m \<noteq> 0 \<or> 0 < mc_handles m \<or> 0 < mc_clients m"

record ConnectionManagerSnapshot =
  total_connections :: nat
  in_use_connections :: nat
  active_leases :: nat
  sn_max_connections :: nat
  available_capacity :: nat

text \<open>Counts are naturals: the sum that saturates in the source is far below the limit.\<close>

definition snapshot_pool :: "ConnectionManager \<Rightarrow> ConnectionManagerSnapshot" where
  "snapshot_pool p =
     (let objects = List.map_filter (\<lambda>(_, c). heap p c) (connections p) in
      \<lparr>total_connections = length (connections p),
       in_use_connections = length (filter managed_is_in_use objects),
       active_leases = fold (\<lambda>m total. total + mc_active_leases m) objects 0,
       sn_max_connections = max_connections p,
       available_capacity = capacity p\<rparr>)"

subsection \<open>Events\<close>

datatype event =
    Spawn tid rstring ConnectionConfig Authentication bool
  | Run tid bool | Cancel tid | Collect tid bool
  | GetClient rstring | GetLease rstring | CloneLease cid | DropLease cid | DropClient cid
  | Remove rstring | Prune | CloseAll | CloseDone cid bool | Die cid | Tick nat

fun apply_event :: "event \<Rightarrow> ConnectionManager \<Rightarrow> ConnectionManager option" where
  "apply_event (Spawn t name config authentication jump) p = spawn t name config authentication jump p"
| "apply_event (Run t dialled) p = call_step t dialled p"
| "apply_event (Cancel t) p = cancel t p"
| "apply_event (Collect t as_lease) p = collect t as_lease p"
| "apply_event (GetClient name) p = get_client name p"
| "apply_event (GetLease name) p = get_lease name p"
| "apply_event (CloneLease c) p = clone_lease c p"
| "apply_event (DropLease c) p = drop_lease c p"
| "apply_event (DropClient c) p = Some (drop_client c p)"
| "apply_event (Remove name) p = Some (snd (remove name p))"
| "apply_event Prune p = Some (snd (prune_idle p))"
| "apply_event CloseAll p = Some (close_all p)"
| "apply_event (CloseDone c closed) p = close_done c closed p"
| "apply_event (Die c) p = Some (die c p)"
| "apply_event (Tick n) p = Some (p\<lparr>clock := clock p + n\<rparr>)"

inductive reachable :: "nat \<Rightarrow> nat \<Rightarrow> ConnectionManager \<Rightarrow> bool" for n timeout where
  initial: "reachable n timeout (manager_new n timeout)"
| step: "reachable n timeout p \<Longrightarrow> apply_event e p = Some q \<Longrightarrow> reachable n timeout q"

fun run_events :: "event list \<Rightarrow> ConnectionManager \<Rightarrow> ConnectionManager option" where
  "run_events [] p = Some p"
| "run_events (e # es) p = (case apply_event e p of None \<Rightarrow> None | Some q \<Rightarrow> run_events es q)"

section \<open>Lemmas: operations that only let go\<close>

definition mem_wf :: "ConnectionManager \<Rightarrow> bool" where
  "mem_wf p \<longleftrightarrow>
     finite (dom (heap p)) \<and> snd ` set (connections p) \<subseteq> dom (heap p) \<and>
     distinct (map fst (connections p)) \<and> distinct (map snd (connections p)) \<and>
     dom (heap p) \<subseteq> {..<next_cid p}"

text \<open>
  Most operations create no connection and bind no name: they leave the calls alone, keep the sum
  of free and used capacity, unbind names at most and revive nothing.
\<close>

definition shrinks :: "ConnectionManager \<Rightarrow> ConnectionManager \<Rightarrow> bool" where
  "shrinks p q \<longleftrightarrow>
     mem_wf q \<and> tasks q = tasks p \<and> connecting q = connecting p \<and>
     max_connections q = max_connections p \<and>
     capacity q + card (dom (heap q)) = capacity p + card (dom (heap p)) \<and>
     map_of (connections q) \<subseteq>\<^sub>m map_of (connections p) \<and> (\<forall>c. alive q c \<longrightarrow> alive p c)"

lemma shrinks_wf: "shrinks p q \<Longrightarrow> mem_wf q"
  by (simp add: shrinks_def)

lemma shrinks_refl: "mem_wf p \<Longrightarrow> shrinks p p"
  by (simp add: shrinks_def)

lemma shrinks_trans: "shrinks p q \<Longrightarrow> shrinks q r \<Longrightarrow> shrinks p r"
  unfolding shrinks_def by (auto intro: map_le_trans)

lemma shrinks_then: "shrinks p q \<Longrightarrow> (mem_wf q \<Longrightarrow> shrinks q r) \<Longrightarrow> shrinks p r"
  using shrinks_trans shrinks_wf by blast

lemma shrinks_compose:
  assumes "mem_wf p" "shrinks p (f p)" "\<And>q. mem_wf q \<Longrightarrow> shrinks q (g q)"
  shows "shrinks p (g (f p))"
  using assms shrinks_trans shrinks_wf by blast

lemma upd_simps [simp]:
  "tasks (upd c f p) = tasks p" "connecting (upd c f p) = connecting p"
  "connections (upd c f p) = connections p" "capacity (upd c f p) = capacity p"
  "max_connections (upd c f p) = max_connections p" "next_cid (upd c f p) = next_cid p"
  "clock (upd c f p) = clock p" "idle_timeout (upd c f p) = idle_timeout p"
  "dom (heap (upd c f p)) = dom (heap p)"
  by (auto simp: upd_def split: option.splits)

lemma heap_upd: "heap (upd c f p) d = (if d = c then map_option f (heap p d) else heap p d)"
  by (simp add: upd_def split: option.splits)

lemma shrinks_upd:
  assumes "mem_wf p" "\<And>m. mc_alive (f m) \<Longrightarrow> mc_alive m"
  shows "shrinks p (upd c f p)"
  using assms
  by (auto simp: shrinks_def mem_wf_def alive_def heap_upd split: option.splits if_splits)

lemma shrinks_touch: "mem_wf p \<Longrightarrow> shrinks p (touch c p)"
  unfolding touch_def by (rule shrinks_upd) simp_all

lemma shrinks_add_handle: "mem_wf p \<Longrightarrow> shrinks p (add_handle c p)"
  unfolding add_handle_def by (rule shrinks_upd) simp_all

lemma shrinks_die: "mem_wf p \<Longrightarrow> shrinks p (die c p)"
  unfolding die_def by (rule shrinks_upd) simp_all

lemma shrinks_reap:
  assumes "mem_wf p"
  shows "shrinks p (reap c p)"
proof (cases "\<exists>m. heap p c = Some m \<and> mc_handles m = 0 \<and> c \<notin> snd ` set (connections p)")
  case True
  then obtain m where m: "heap p c = Some m" "mc_handles m = 0" "c \<notin> snd ` set (connections p)" by blast
  then have reap: "reap c p = p\<lparr>heap := (heap p)(c := None), capacity := capacity p + 1\<rparr>"
    by (simp add: reap_def)
  have "c \<in> dom (heap p)" "finite (dom (heap p))" using m assms by (auto simp: mem_wf_def)
  then have "Suc (card (dom (heap p) - {c})) = card (dom (heap p))" by (metis card.remove Suc_eq_plus1 plus_1_eq_Suc)
  then show ?thesis
    using assms m by (auto simp: reap shrinks_def mem_wf_def alive_def split: if_splits)
next
  case False
  then have "reap c p = p" by (auto simp: reap_def split: option.splits)
  then show ?thesis using assms by (simp add: shrinks_refl)
qed

lemma shrinks_drop_handle: "mem_wf p \<Longrightarrow> shrinks p (drop_handle c p)"
  unfolding drop_handle_def
  by (rule shrinks_compose [where g = "reap c"]) (auto intro!: shrinks_upd shrinks_reap)

lemma shrinks_unbind:
  assumes "mem_wf p"
  shows "shrinks p (p\<lparr>connections := AList.delete name (connections p)\<rparr>)"
proof -
  have "set (AList.delete name (connections p)) \<subseteq> set (connections p)"
    by (simp add: AList.delete_eq)
  moreover have "distinct (map snd (AList.delete name (connections p)))"
    using assms by (simp add: mem_wf_def AList.delete_eq distinct_map_filter)
  moreover have "map_of (AList.delete name (connections p)) \<subseteq>\<^sub>m map_of (connections p)"
    by (simp add: AList.delete_conv' map_le_def)
  ultimately show ?thesis
    using assms by (auto simp: shrinks_def mem_wf_def alive_def AList.distinct_delete)
qed

lemma shrinks_unmap: "mem_wf p \<Longrightarrow> shrinks p (unmap name p)"
  unfolding unmap_def
  by (cases "map_of (connections p) name")
     (auto simp: shrinks_refl intro: shrinks_compose [where g = "reap _"] shrinks_unbind shrinks_reap)

lemma shrinks_fold: "mem_wf p \<Longrightarrow> (\<And>x q. mem_wf q \<Longrightarrow> shrinks q (f x q)) \<Longrightarrow> shrinks p (fold f xs p)"
proof (induction xs arbitrary: p)
  case (Cons x xs)
  then have "shrinks p (f x p)" by blast
  then show ?case using Cons shrinks_trans shrinks_wf by (metis fold_simps(2))
qed (simp add: shrinks_refl)

lemma shrinks_prune: "mem_wf p \<Longrightarrow> shrinks p (snd (prune_idle p))"
  by (simp add: prune_idle_def Let_def shrinks_fold shrinks_unmap)

lemma shrinks_evict: "mem_wf p \<Longrightarrow> shrinks p (evict_dead name c p)"
  by (simp add: evict_dead_def shrinks_unmap shrinks_refl)

lemma shrinks_take_out: "mem_wf p \<Longrightarrow> shrinks p (take_out name c p)"
  unfolding take_out_def
  by (rule shrinks_compose [where g = "unmap name"]) (auto intro!: shrinks_upd shrinks_unmap)

lemma shrinks_remove: "mem_wf p \<Longrightarrow> shrinks p (snd (remove name p))"
  by (simp add: remove_def shrinks_refl shrinks_take_out split: option.splits)

lemma shrinks_close_done: "mem_wf p \<Longrightarrow> close_done c closed p = Some q \<Longrightarrow> shrinks p q"
  by (auto simp: close_done_def intro!: shrinks_compose [where g = "drop_handle c"] shrinks_upd shrinks_drop_handle
      split: if_splits)

lemma shrinks_close_all: "mem_wf p \<Longrightarrow> shrinks p (close_all p)"
  unfolding close_all_def by (rule shrinks_fold) (simp_all add: shrinks_remove)

lemma shrinks_acquire_lease: "mem_wf p \<Longrightarrow> shrinks p (acquire_lease c p)"
  unfolding acquire_lease_def
  by (rule shrinks_compose [where g = "touch c"]) (auto intro!: shrinks_upd shrinks_touch)

lemma shrinks_release_lease: "mem_wf p \<Longrightarrow> shrinks p (release_lease c p)"
  unfolding release_lease_def
  by (rule shrinks_compose [where g = "touch c"]) (auto intro!: shrinks_upd shrinks_touch)

lemmas shrinks_intros =
  shrinks_touch shrinks_add_handle shrinks_die shrinks_drop_handle shrinks_prune shrinks_evict
  shrinks_remove shrinks_close_all shrinks_close_done shrinks_acquire_lease shrinks_release_lease

section \<open>Lemmas: the invariant of the pool\<close>

definition guarded :: "phase \<Rightarrow> bool" where
  "guarded ph \<longleftrightarrow>
     (case ph of Leading \<Rightarrow> True | LeadEvict _ \<Rightarrow> True | Pruning \<Rightarrow> True | Acquiring \<Rightarrow> True | Dialing \<Rightarrow> True
      | Inserting \<Rightarrow> True | Dropping _ \<Rightarrow> True | _ \<Rightarrow> False)"

definition holds_permit :: "phase \<Rightarrow> bool" where
  "holds_permit ph \<longleftrightarrow> ph = Dialing \<or> ph = Inserting"

definition permit_holders :: "ConnectionManager \<Rightarrow> tid set" where
  "permit_holders p = {t. \<exists>ct. tasks p t = Some ct \<and> holds_permit (ct_phase ct)}"

text \<open>What a leader has established about its name in the map.\<close>

fun leader_view :: "ConnectionManager \<Rightarrow> rstring \<Rightarrow> phase \<Rightarrow> bool" where
  "leader_view p name (LeadEvict c) =
     (map_of (connections p) name = None \<or> map_of (connections p) name = Some c \<and> \<not> alive p c)"
| "leader_view p name Pruning = (map_of (connections p) name = None)"
| "leader_view p name Acquiring = (map_of (connections p) name = None)"
| "leader_view p name Dialing = (map_of (connections p) name = None)"
| "leader_view p name Inserting = (map_of (connections p) name = None)"
| "leader_view p name _ = True"

definition capacity_ok :: "ConnectionManager \<Rightarrow> bool" where
  "capacity_ok p \<longleftrightarrow>
     finite (dom (tasks p)) \<and>
     capacity p + card (dom (heap p)) + card (permit_holders p) = max_connections p"

definition guards_ok :: "ConnectionManager \<Rightarrow> bool" where
  "guards_ok p \<longleftrightarrow>
     distinct (map fst (connecting p)) \<and>
     (\<forall>name t. map_of (connecting p) name = Some t \<longleftrightarrow>
        (\<exists>ct. tasks p t = Some ct \<and> ct_name ct = name \<and> guarded (ct_phase ct)))"

definition views_ok :: "ConnectionManager \<Rightarrow> bool" where
  "views_ok p \<longleftrightarrow> (\<forall>t ct. tasks p t = Some ct \<longrightarrow> leader_view p (ct_name ct) (ct_phase ct))"

definition pool_inv :: "ConnectionManager \<Rightarrow> bool" where
  "pool_inv p \<longleftrightarrow> mem_wf p \<and> capacity_ok p \<and> guards_ok p \<and> views_ok p"

lemma pool_inv_wf: "pool_inv p \<Longrightarrow> mem_wf p"
  by (simp add: pool_inv_def)

lemma leader_view_shrinks:
  assumes "shrinks p q" "leader_view p name ph"
  shows "leader_view q name ph"
proof -
  have none: "map_of (connections q) name = None" if "map_of (connections p) name = None"
    using assms(1) that by (auto simp: shrinks_def map_le_def dom_def)
  have some: "map_of (connections q) name = None \<or> map_of (connections q) name = Some c"
    if "map_of (connections p) name = Some c" for c
    using assms(1) that unfolding shrinks_def map_le_def by (metis domIff option.distinct(1))
  have dead: "\<not> alive p c \<Longrightarrow> \<not> alive q c" for c using assms(1) by (auto simp: shrinks_def)
  show ?thesis
    using assms(2) none some dead by (cases "(p, name, ph)" rule: leader_view.cases) auto
qed

lemma pool_inv_shrinks:
  assumes "pool_inv p" "shrinks p q"
  shows "pool_inv q"
proof -
  have "permit_holders q = permit_holders p" using assms(2) by (simp add: permit_holders_def shrinks_def)
  then have "capacity_ok q" using assms by (simp add: pool_inv_def capacity_ok_def shrinks_def)
  moreover have "views_ok q"
    using assms leader_view_shrinks [OF assms(2)] by (auto simp: pool_inv_def views_ok_def shrinks_def)
  ultimately show ?thesis using assms by (simp add: pool_inv_def guards_ok_def shrinks_def)
qed

text \<open>Changing one task, with the permit and the guard that go with it.\<close>

lemma permit_holders_update:
  "permit_holders (p\<lparr>tasks := (tasks p)(t := x)\<rparr>) =
     (if \<exists>ct. x = Some ct \<and> holds_permit (ct_phase ct) then insert t (permit_holders p)
      else permit_holders p - {t})"
  by (auto simp: permit_holders_def split: if_splits)

lemma finite_permit_holders: "finite (dom (tasks p)) \<Longrightarrow> finite (permit_holders p)"
  by (rule finite_subset [of _ "dom (tasks p)"]) (auto simp: permit_holders_def)

text \<open>A change of phase that moves neither permit nor guard.\<close>

lemma pool_inv_goto:
  assumes inv: "pool_inv p" and t: "tasks p t = Some ct"
    and same: "guarded ph = guarded (ct_phase ct)" "holds_permit ph = holds_permit (ct_phase ct)"
    and view: "leader_view p (ct_name ct) ph"
  shows "pool_inv (goto t ph p)"
proof -
  have goto: "goto t ph p = p\<lparr>tasks := (tasks p)(t \<mapsto> ct\<lparr>ct_phase := ph\<rparr>)\<rparr>"
    using t by (simp add: goto_def)
  have "permit_holders (goto t ph p) = permit_holders p"
    unfolding goto permit_holders_update using t same(2) by (auto simp: permit_holders_def)
  then have "capacity_ok (goto t ph p)"
    using inv by (simp add: pool_inv_def capacity_ok_def goto)
  moreover have "guards_ok (goto t ph p)"
    using inv t same(1) by (auto simp: pool_inv_def guards_ok_def goto split: if_splits)
  moreover have "leader_view (goto t ph p) = leader_view p"
    by (intro ext, rename_tac n x, case_tac "(p, n, x)" rule: leader_view.cases) (auto simp: goto alive_def)
  then have "views_ok (goto t ph p)"
    using inv view by (auto simp: pool_inv_def views_ok_def goto split: if_splits)
  ultimately show ?thesis using inv by (simp add: pool_inv_def mem_wf_def goto)
qed

definition permit_of :: "connect_task option \<Rightarrow> nat" where
  "permit_of x = (case x of Some ct \<Rightarrow> if holds_permit (ct_phase ct) then 1 else 0 | None \<Rightarrow> 0)"

lemma leader_view_cong:
  "connections q = connections p \<Longrightarrow> heap q = heap p \<Longrightarrow> leader_view q = leader_view p"
  by (intro ext, rename_tac n x, case_tac "(p, n, x)" rule: leader_view.cases) (auto simp: alive_def)

lemma card_permit_holders:
  assumes "finite (dom (tasks p))" "tasks q = (tasks p)(t := x)"
  shows "card (permit_holders q) + permit_of (tasks p t) = card (permit_holders p) + permit_of x"
proof -
  have q: "permit_holders q = permit_holders (p\<lparr>tasks := (tasks p)(t := x)\<rparr>)"
    by (simp add: permit_holders_def assms(2))
  have old: "t \<in> permit_holders p \<longleftrightarrow> permit_of (tasks p t) = 1" "permit_of (tasks p t) \<le> 1"
    by (auto simp: permit_holders_def permit_of_def split: option.splits)
  have new: "(\<exists>ct. x = Some ct \<and> holds_permit (ct_phase ct)) \<longleftrightarrow> permit_of x = 1" "permit_of x \<le> 1"
    by (auto simp: permit_of_def split: option.splits)
  have fin: "finite (permit_holders p)" by (rule finite_permit_holders [OF assms(1)])
  show ?thesis
  proof (cases "t \<in> permit_holders p")
    case True
    then have "card (permit_holders p - {t}) + 1 = card (permit_holders p)"
      using fin by (metis Suc_eq_plus1 card.remove)
    then show ?thesis
      using True old new unfolding q permit_holders_update by (auto simp: insert_absorb)
  next
    case False
    then show ?thesis
      using fin old new unfolding q permit_holders_update by auto
  qed
qed

lemma pool_inv_retask:
  assumes inv: "pool_inv p"
    and mem: "heap q = heap p" "connections q = connections p" "next_cid q = next_cid p"
      "max_connections q = max_connections p"
    and tasks: "tasks q = (tasks p)(t := x)"
    and guards: "guards_ok q"
    and cap: "capacity q + permit_of x = capacity p + permit_of (tasks p t)"
    and view: "\<And>ct. x = Some ct \<Longrightarrow> leader_view p (ct_name ct) (ct_phase ct)"
  shows "pool_inv q"
proof -
  have fin: "finite (dom (tasks p))" using inv by (simp add: pool_inv_def capacity_ok_def)
  have "finite (dom (tasks q))" using fin by (simp add: tasks)
  then have "capacity_ok q"
    using inv card_permit_holders [OF fin tasks] cap mem by (simp add: pool_inv_def capacity_ok_def)
  moreover have "views_ok q"
    using inv view leader_view_cong [OF mem(2,1)] by (auto simp: pool_inv_def views_ok_def tasks split: if_splits)
  moreover have "mem_wf q" using inv mem by (simp add: pool_inv_def mem_wf_def)
  ultimately show ?thesis using guards by (simp add: pool_inv_def)
qed

definition guards :: "ConnectionManager \<Rightarrow> rstring \<Rightarrow> tid \<Rightarrow> bool" where
  "guards p name t \<longleftrightarrow> (\<exists>ct. tasks p t = Some ct \<and> ct_name ct = name \<and> guarded (ct_phase ct))"

lemma guards_ok_iff:
  "guards_ok p \<longleftrightarrow> distinct (map fst (connecting p)) \<and>
     (\<forall>name t. map_of (connecting p) name = Some t \<longleftrightarrow> guards p name t)"
  by (simp add: guards_ok_def guards_def)

lemma guards_update:
  "tasks q = (tasks p)(t := x) \<Longrightarrow> guards q name s \<longleftrightarrow>
     (if s = t then \<exists>ct. x = Some ct \<and> ct_name ct = name \<and> guarded (ct_phase ct) else guards p name s)"
  by (auto simp: guards_def)

lemma guards_claim:
  assumes ok: "guards_ok p" and t: "tasks p t = Some ct" and free: "map_of (connecting p) (ct_name ct) = None"
    and connecting: "connecting q = AList.update (ct_name ct) t (connecting p)"
    and tasks: "tasks q = (tasks p)(t \<mapsto> ct\<lparr>ct_phase := Leading\<rparr>)"
  shows "guards_ok q"
proof -
  have own: "map_of (connecting p) name = Some s \<longleftrightarrow> guards p name s" for name s
    using ok by (simp add: guards_ok_iff)
  have "\<not> guards p name t" for name
    using own [of "ct_name ct" t] free t by (auto simp: guards_def)
  moreover have "\<not> guards p (ct_name ct) s" for s using own free by (metis option.distinct(1))
  moreover have "guards q name s \<longleftrightarrow> (if s = t then name = ct_name ct else guards p name s)" for name s
    unfolding guards_update [OF tasks] by (auto simp: guarded_def)
  moreover have "map_of (connecting q) name = Some s \<longleftrightarrow>
      (if name = ct_name ct then s = t else guards p name s)" for name s
    by (simp add: connecting AList.update_conv' own del: map_of_eq_Some_iff) auto
  ultimately have "map_of (connecting q) name = Some s \<longleftrightarrow> guards q name s" for name s by metis
  then show ?thesis
    using ok by (simp add: guards_ok_iff connecting AList.distinct_update)
qed

lemma guards_release:
  assumes ok: "guards_ok p" and t: "tasks p t = Some ct"
    and x: "\<And>ct'. x = Some ct' \<Longrightarrow> \<not> guarded (ct_phase ct')"
    and connecting: "connecting q = connecting (drop_guard t (ct_name ct) p)"
    and tasks: "tasks q = (tasks p)(t := x)"
  shows "guards_ok q"
proof -
  have own: "map_of (connecting p) name = Some s \<longleftrightarrow> guards p name s" for name s
    using ok by (simp add: guards_ok_iff)
  have mine: "guards p name t \<Longrightarrow> name = ct_name ct" for name using t by (auto simp: guards_def)
  have "guards q name s \<longleftrightarrow> s \<noteq> t \<and> guards p name s" for name s
    unfolding guards_update [OF tasks] using x by auto
  moreover have "map_of (connecting q) name = Some s \<longleftrightarrow> s \<noteq> t \<and> guards p name s" for name s
  proof (cases "map_of (connecting p) (ct_name ct) = Some t")
    case True
    then have "map_of (connecting q) = (map_of (connecting p))(ct_name ct := None)"
      by (simp add: connecting drop_guard_def AList.delete_conv')
    moreover have "guards p (ct_name ct) s \<Longrightarrow> s = t" using True own by (metis option.inject)
    ultimately show ?thesis using own mine by (auto simp del: map_of_eq_Some_iff)
  next
    case False
    then have "map_of (connecting q) = map_of (connecting p)" by (simp add: connecting drop_guard_def)
    moreover have "\<not> guards p name t" using False own mine by metis
    ultimately show ?thesis using own by auto
  qed
  ultimately show ?thesis
    using ok by (simp add: guards_ok_iff connecting drop_guard_def AList.distinct_delete)
qed

lemma drop_guard_simps [simp]:
  "heap (drop_guard t n p) = heap p" "connections (drop_guard t n p) = connections p"
  "next_cid (drop_guard t n p) = next_cid p" "max_connections (drop_guard t n p) = max_connections p"
  "tasks (drop_guard t n p) = tasks p" "capacity (drop_guard t n p) = capacity p"
  by (simp_all add: drop_guard_def)

text \<open>The end of a task, whatever it holds: guard and permit are given back.\<close>

lemma pool_inv_end:
  assumes inv: "pool_inv p" and t: "tasks p t = Some ct"
    and x: "x = None \<or> (\<exists>r. x = Some (ct\<lparr>ct_phase := Finished r\<rparr>))"
    and q: "tasks q = (tasks p)(t := x)" "connecting q = connecting (drop_guard t (ct_name ct) p)"
      "heap q = heap p" "connections q = connections p" "next_cid q = next_cid p"
      "max_connections q = max_connections p" "capacity q = capacity p + permit_of (Some ct)"
  shows "pool_inv q"
proof (rule pool_inv_retask [OF inv, of q t x])
  show "guards_ok q"
    using inv t x q(1,2) by (intro guards_release [of p t ct x q]) (auto simp: pool_inv_def guarded_def)
  show "capacity q + permit_of x = capacity p + permit_of (tasks p t)"
    using x t q(7) by (auto simp: permit_of_def holds_permit_def)
qed (use q x in auto)

lemma lookup_missing:
  assumes "mem_wf p" "get_reusable_managed_inner p name config key allow = Missing"
  shows "map_of (connections p) name = None"
proof (rule ccontr)
  assume "map_of (connections p) name \<noteq> None"
  then obtain c where c: "map_of (connections p) name = Some c" by blast
  then have "c \<in> dom (heap p)" using assms(1) by (force simp: mem_wf_def dest: map_of_SomeD)
  then show False
    using assms(2) c by (auto simp: get_reusable_managed_inner_def split: if_splits sum.splits)
qed

lemma lookup_dead:
  "get_reusable_managed_inner p name config key allow = DeadEntry c \<Longrightarrow>
     map_of (connections p) name = Some c \<and> \<not> alive p c"
  by (auto simp: get_reusable_managed_inner_def alive_def split: option.splits if_splits sum.splits)

lemma pool_inv_shrink_goto:
  assumes "pool_inv p" "shrinks p q" "tasks p t = Some ct"
    and "guarded ph = guarded (ct_phase ct)" "holds_permit ph = holds_permit (ct_phase ct)"
    and "leader_view q (ct_name ct) ph"
  shows "pool_inv (goto t ph q)"
proof -
  have "tasks q t = Some ct" using assms(2,3) by (simp add: shrinks_def)
  then show ?thesis using assms pool_inv_shrinks by (intro pool_inv_goto) auto
qed

lemma pool_inv_after_lookup:
  assumes inv: "pool_inv p" and t: "tasks p t = Some ct"
    and found: "found = get_reusable_managed_inner p (ct_name ct) (ct_config ct) (ct_key ct) allow"
    and guard: "guarded missing = guarded (ct_phase ct)" "\<And>c. guarded (evicting c) = guarded (ct_phase ct)"
      "\<And>r. guarded (return r) = guarded (ct_phase ct)"
    and permit: "\<not> holds_permit (ct_phase ct)" "\<not> holds_permit missing" "\<And>c. \<not> holds_permit (evicting c)"
      "\<And>r. \<not> holds_permit (return r)"
    and view: "map_of (connections p) (ct_name ct) = None \<Longrightarrow> leader_view p (ct_name ct) missing"
      "\<And>c. map_of (connections p) (ct_name ct) = Some c \<Longrightarrow> \<not> alive p c \<Longrightarrow> leader_view p (ct_name ct) (evicting c)"
      "\<And>r q. leader_view q (ct_name ct) (return r)"
  shows "pool_inv (after_lookup t found evicting missing return p)"
proof -
  have wf: "mem_wf p" by (rule pool_inv_wf [OF inv])
  note move = pool_inv_shrink_goto [OF inv _ t]
  show ?thesis
  proof (cases found)
    case Missing
    then show ?thesis
      using move [OF shrinks_refl [OF wf]] lookup_missing [OF wf] found guard permit view
      by (simp add: after_lookup_def)
  next
    case (DeadEntry c)
    then show ?thesis
      using move [OF shrinks_add_handle [OF wf, of c]] lookup_dead [of p] found guard permit view
        leader_view_shrinks [OF shrinks_add_handle [OF wf, of c]]
      by (simp add: after_lookup_def)
  next
    case (Refused e)
    then show ?thesis
      using move [OF shrinks_refl [OF wf]] guard permit view by (simp add: after_lookup_def)
  next
    case (Reusable c)
    have "shrinks p (add_handle c (touch c p))"
      by (rule shrinks_compose [where g = "add_handle c", OF wf]) (simp_all add: shrinks_touch shrinks_add_handle wf)
    then show ?thesis
      using Reusable move guard permit view by (simp add: after_lookup_def)
  qed
qed

lemma connections_drop_handle [simp]: "connections (drop_handle c p) = connections p"
  by (simp add: drop_handle_def reap_def split: option.splits)

lemma connections_unmap: "map_of (connections (unmap name p)) name = None"
  by (auto simp: unmap_def reap_def AList.delete_conv' split: option.splits)

lemma evicted_unbound:
  assumes "leader_view p name (LeadEvict c)"
  shows "map_of (connections (drop_handle c (evict_dead name c p))) name = None"
  using assms connections_unmap [of name p] by (auto simp: evict_dead_def)

lemma shrinks_evict_drop: "mem_wf p \<Longrightarrow> shrinks p (drop_handle c (evict_dead name c p))"
  by (rule shrinks_compose [where g = "drop_handle c"]) (simp_all add: shrinks_evict shrinks_drop_handle)

lemma alist_update_append: "k \<notin> fst ` set al \<Longrightarrow> AList.update k v al = al @ [(k, v)]"
  by (induction al) auto

text \<open>The insertion: the leader's name is unbound, so a fresh connection is bound to it.\<close>

lemma insert_candidate_fresh:
  assumes "map_of (connections p) (ct_name ct) = None" "tasks p t = Some ct"
  shows "insert_candidate t ct p = p\<lparr>
      heap := (heap p)(next_cid p \<mapsto> \<lparr>mc_config = ct_config ct, mc_authentication = ct_key ct,
        mc_last_used = clock p, mc_active_leases = 0, mc_alive = True, mc_handles = 1, mc_clients = 0, mc_closing = 0\<rparr>),
      next_cid := next_cid p + 1, connections := connections p @ [(ct_name ct, next_cid p)],
      tasks := (tasks p)(t \<mapsto> ct\<lparr>ct_phase := Dropping (Inr (next_cid p))\<rparr>)\<rparr>"
proof -
  have "ct_name ct \<notin> fst ` set (connections p)" using assms(1) by (simp add: map_of_eq_None_iff)
  then have "AList.update (ct_name ct) c (connections p) = connections p @ [(ct_name ct, c)]" for c
    by (simp add: alist_update_append)
  then show ?thesis
    using assms by (simp add: insert_candidate_def live_existing_def jump_existing_def Let_def goto_def)
qed

lemma leader_view_guarded: "\<not> guarded ph \<Longrightarrow> leader_view p name ph"
  by (cases "(p, name, ph)" rule: leader_view.cases) (auto simp: guarded_def)

lemma pool_inv_insert:
  assumes inv: "pool_inv p" and t: "tasks p t = Some ct" and ph: "ct_phase ct = Inserting"
  shows "pool_inv (insert_candidate t ct p)"
proof -
  let ?c = "next_cid p" and ?n = "ct_name ct" and ?q = "insert_candidate t ct p"
  have free: "map_of (connections p) ?n = None"
    using inv t ph by (force simp: pool_inv_def views_ok_def)
  note q = insert_candidate_fresh [OF free t]
  have fresh: "?c \<notin> dom (heap p)" using inv by (auto simp: pool_inv_def mem_wf_def)
  have wf: "mem_wf ?q"
    using inv free fresh unfolding q pool_inv_def mem_wf_def
    by (auto simp: map_of_eq_None_iff less_Suc_eq)
  have fin: "finite (dom (tasks p))" using inv by (simp add: pool_inv_def capacity_ok_def)
  have tasks: "tasks ?q = (tasks p)(t \<mapsto> ct\<lparr>ct_phase := Dropping (Inr ?c)\<rparr>)" by (simp add: q)
  have "card (dom (heap ?q)) = card (dom (heap p)) + 1"
    using inv fresh by (simp add: q pool_inv_def mem_wf_def)
  then have cap: "capacity_ok ?q"
    using inv card_permit_holders [OF fin tasks] t ph fin
    by (simp add: q pool_inv_def capacity_ok_def permit_of_def holds_permit_def)
  have guards: "guards_ok ?q"
  proof -
    have "guards ?q name s \<longleftrightarrow> guards p name s" for name s
      unfolding guards_update [OF tasks] using t ph by (auto simp: guards_def guarded_def)
    then show ?thesis using inv by (simp add: pool_inv_def guards_ok_iff q)
  qed
  have "leader_view ?q (ct_name cs) (ct_phase cs)" if s: "tasks ?q s = Some cs" for s cs
  proof (cases "s = t \<or> \<not> guarded (ct_phase cs)")
    case True
    then show ?thesis using s by (auto simp: q leader_view_guarded)
  next
    case False
    then have old: "tasks p s = Some cs" using s by (simp add: q)
    then have "guards p (ct_name cs) s" "guards p ?n t"
      using False t ph by (auto simp: guards_def guarded_def)
    then have other: "ct_name cs \<noteq> ?n"
      using inv False unfolding pool_inv_def guards_ok_iff by (metis option.inject)
    have view: "leader_view p (ct_name cs) (ct_phase cs)" using inv old by (auto simp: pool_inv_def views_ok_def)
    have same: "map_of (connections ?q) (ct_name cs) = map_of (connections p) (ct_name cs)"
      using other by (simp add: q map_add_def split: option.splits)
    have "alive ?q d \<longleftrightarrow> alive p d" if "map_of (connections p) (ct_name cs) = Some d" for d
    proof -
      have "d \<in> dom (heap p)" using that inv by (force simp: pool_inv_def mem_wf_def dest: map_of_SomeD)
      then have "d \<noteq> ?c" using fresh by blast
      then show ?thesis by (simp add: q alive_def)
    qed
    then show ?thesis
      using view same by (cases "(p, ct_name cs, ct_phase cs)" rule: leader_view.cases) auto
  qed
  then have "views_ok ?q" by (simp add: views_ok_def)
  then show ?thesis using wf cap guards by (simp add: pool_inv_def)
qed

lemma goto_task: "tasks p t = Some ct \<Longrightarrow> goto t ph p = p\<lparr>tasks := (tasks p)(t \<mapsto> ct\<lparr>ct_phase := ph\<rparr>)\<rparr>"
  by (simp add: goto_def)

lemma pool_inv_claim:
  assumes inv: "pool_inv p" and t: "tasks p t = Some ct" and ph: "ct_phase ct = Claiming"
    and free: "map_of (connecting p) (ct_name ct) = None"
  shows "pool_inv (goto t Leading (p\<lparr>connecting := AList.update (ct_name ct) t (connecting p)\<rparr>))"
proof (rule pool_inv_retask [OF inv, where t = t and x = "Some (ct\<lparr>ct_phase := Leading\<rparr>)"])
  show "guards_ok (goto t Leading (p\<lparr>connecting := AList.update (ct_name ct) t (connecting p)\<rparr>))"
    by (rule guards_claim [of p t ct]) (use inv t free in \<open>simp_all add: pool_inv_def goto_def\<close>)
qed (use t ph in \<open>simp_all add: goto_def permit_of_def holds_permit_def\<close>)

lemma pool_inv_permit:
  assumes inv: "pool_inv p" and t: "tasks p t = Some ct"
    and guard: "guarded ph = guarded (ct_phase ct)" and view: "leader_view p (ct_name ct) ph"
    and cap: "k + permit_of (Some (ct\<lparr>ct_phase := ph\<rparr>)) = capacity p + permit_of (Some ct)"
  shows "pool_inv (goto t ph (p\<lparr>capacity := k\<rparr>))"
proof (rule pool_inv_retask [OF inv, where t = t and x = "Some (ct\<lparr>ct_phase := ph\<rparr>)"])
  have "guards (goto t ph (p\<lparr>capacity := k\<rparr>)) name s \<longleftrightarrow> guards p name s" for name s
    using t guard by (auto simp: guards_def goto_def)
  then show "guards_ok (goto t ph (p\<lparr>capacity := k\<rparr>))"
    using inv t by (simp add: pool_inv_def guards_ok_iff goto_def)
qed (use t view cap in \<open>simp_all add: goto_def\<close>)

lemma pool_inv_call_step:
  assumes inv: "pool_inv p" and step: "call_step t dialled p = Some q"
  shows "pool_inv q"
proof -
  obtain ct where t: "tasks p t = Some ct" using step by (auto simp: call_step_def split: option.splits)
  have wf: "mem_wf p" by (rule pool_inv_wf [OF inv])
  have view: "leader_view p (ct_name ct) (ct_phase ct)" using inv t by (auto simp: pool_inv_def views_ok_def)
  note move = pool_inv_shrink_goto [OF inv _ t] and stay = pool_inv_goto [OF inv t]
  note look = pool_inv_after_lookup [OF inv t refl]
  note phases = guarded_def holds_permit_def
  show ?thesis
  proof (cases "ct_phase ct")
    case Start
    then show ?thesis using step t look by (auto simp: call_step_def phases)
  next
    case (StartEvict c)
    then show ?thesis
      using step t move [OF shrinks_evict_drop [OF wf]] by (auto simp: call_step_def phases)
  next
    case Claiming
    then show ?thesis
      using step t stay pool_inv_claim [OF inv t Claiming]
      by (cases "map_of (connecting p) (ct_name ct)") (auto simp: call_step_def claim_connect_def phases)
  next
    case (Waiting leader)
    then show ?thesis using step t stay by (auto simp: call_step_def phases split: if_splits)
  next
    case Following
    then show ?thesis using step t look by (auto simp: call_step_def phases)
  next
    case (FollowEvict c)
    then show ?thesis
      using step t move [OF shrinks_evict_drop [OF wf]] by (auto simp: call_step_def phases)
  next
    case Leading
    then show ?thesis using step t look by (auto simp: call_step_def phases)
  next
    case (LeadEvict c)
    then show ?thesis
      using step t move [OF shrinks_evict_drop [OF wf]] evicted_unbound [of p "ct_name ct" c] view
      by (auto simp: call_step_def phases)
  next
    case Pruning
    then show ?thesis
      using step t move [OF shrinks_prune [OF wf]] view
        leader_view_shrinks [OF shrinks_prune [OF wf], of "ct_name ct" Pruning]
      by (auto simp: call_step_def phases)
  next
    case Acquiring
    then show ?thesis
      using step t stay view pool_inv_permit [OF inv t, of Dialing "capacity p - 1"]
      by (auto simp: call_step_def phases permit_of_def split: if_splits)
  next
    case Dialing
    then show ?thesis
      using step t stay view pool_inv_permit [OF inv t, of "Dropping _" "capacity p + 1"]
      by (auto simp: call_step_def phases permit_of_def split: if_splits)
  next
    case Inserting
    then show ?thesis using step t pool_inv_insert [OF inv t] by (simp add: call_step_def)
  next
    case (Dropping r)
    then have q: "q = goto t (Finished r) (drop_guard t (ct_name ct) p)" using step t by (simp add: call_step_def)
    show ?thesis
      by (rule pool_inv_end [OF inv t, of "Some (ct\<lparr>ct_phase := Finished r\<rparr>)"])
         (auto simp: q goto_def t Dropping permit_of_def holds_permit_def)
  next
    case (Finished r)
    then show ?thesis using step t by (simp add: call_step_def)
  qed
qed

lemma forget_simps [simp]:
  "heap (forget t p) = heap p" "connections (forget t p) = connections p" "next_cid (forget t p) = next_cid p"
  "max_connections (forget t p) = max_connections p" "capacity (forget t p) = capacity p"
  "connecting (forget t p) = connecting p" "tasks (forget t p) = (tasks p)(t := None)"
  by (simp_all add: forget_def)

text \<open>A task that holds no guard has none to drop.\<close>

lemma drop_guard_unguarded:
  assumes "pool_inv p" "tasks p t = Some ct" "\<not> guarded (ct_phase ct)"
  shows "drop_guard t (ct_name ct) p = p"
  using assms by (auto simp: drop_guard_def pool_inv_def guards_ok_def simp del: map_of_eq_Some_iff)

lemma pool_inv_forget:
  assumes inv: "pool_inv p" and t: "tasks p t = Some ct" and "\<not> guarded (ct_phase ct)"
  shows "pool_inv (forget t p)"
proof (rule pool_inv_end [OF inv t, of None])
  show "capacity (forget t p) = capacity p + permit_of (Some ct)"
    using assms(3) by (auto simp: permit_of_def guarded_def holds_permit_def)
qed (simp_all add: drop_guard_unguarded [OF assms])

lemma pool_inv_forget_guarded:
  assumes "pool_inv p" "tasks p t = Some ct"
    and "k = capacity p + permit_of (Some ct)"
  shows "pool_inv (forget t (drop_guard t (ct_name ct) (p\<lparr>capacity := k\<rparr>)))"
  by (rule pool_inv_end [OF assms(1,2), of None]) (simp_all add: assms(3) drop_guard_def)

lemma pool_inv_cancel:
  assumes inv: "pool_inv p" and step: "cancel t p = Some q"
  shows "pool_inv q"
proof -
  obtain ct where t: "tasks p t = Some ct" using step by (auto simp: cancel_def split: option.splits)
  have handle: "pool_inv (drop_handle c p)" "tasks (drop_handle c p) t = Some ct" for c
    using pool_inv_shrinks [OF inv shrinks_drop_handle [OF pool_inv_wf [OF inv]]]
      shrinks_drop_handle [OF pool_inv_wf [OF inv], of c] t
    by (simp_all add: shrinks_def)
  note plain = pool_inv_forget [OF inv t] pool_inv_forget [OF handle]
  note guarded = pool_inv_forget_guarded [OF inv t] pool_inv_forget_guarded [OF handle]
  have same: "p = p\<lparr>capacity := capacity p\<rparr>" "drop_handle c p = (drop_handle c p)\<lparr>capacity := capacity (drop_handle c p)\<rparr>"
    for c by simp_all
  show ?thesis
    using step t plain guarded [of "capacity p"] guarded [of "capacity p + 1"]
      pool_inv_forget_guarded [OF handle refl] pool_inv_forget_guarded [OF inv t refl]
    by (auto simp: cancel_def Let_def permit_of_def holds_permit_def guarded_def split: phase.splits)
qed

lemma pool_inv_spawn:
  assumes inv: "pool_inv p" and step: "spawn t name config authentication jump p = Some q"
  shows "pool_inv q"
proof -
  have t: "tasks p t = None" using step by (auto simp: spawn_def split: if_splits)
  obtain ct where q: "q = p\<lparr>tasks := (tasks p)(t \<mapsto> ct)\<rparr>"
    and ph: "ct_phase ct = Start \<or> (\<exists>r. ct_phase ct = Finished r)"
    using step by (auto simp: spawn_def split: if_splits)
  show ?thesis
  proof (rule pool_inv_retask [OF inv, where t = t and x = "Some ct"])
    have "guards q name s \<longleftrightarrow> guards p name s" for name s
      using t ph by (auto simp: q guards_def guarded_def)
    then show "guards_ok q" using inv by (simp add: q pool_inv_def guards_ok_iff)
  qed (use t ph in \<open>auto simp: q permit_of_def holds_permit_def\<close>)
qed

lemma shrinks_add_client: "mem_wf p \<Longrightarrow> shrinks p (upd c (\<lambda>m. m\<lparr>mc_clients := mc_clients m + 1\<rparr>) p)"
  by (rule shrinks_upd) simp_all

lemma shrinks_hand_out:
  "mem_wf p \<Longrightarrow> shrinks p (drop_handle c (upd c (\<lambda>m. m\<lparr>mc_clients := mc_clients m + 1\<rparr>) p))"
  by (rule shrinks_compose [where g = "drop_handle c"]) (simp_all add: shrinks_add_client [simplified] shrinks_drop_handle)

lemma pool_inv_collect:
  assumes inv: "pool_inv p" and step: "collect t as_lease p = Some q"
  shows "pool_inv q"
proof -
  obtain ct r where t: "tasks p t = Some ct" "ct_phase ct = Finished r"
    using step by (auto simp: collect_def split: option.splits phase.splits)
  obtain p' where p': "shrinks p p'" "q = forget t p'"
  proof (cases r)
    case (Inl e)
    then show thesis
      using that [of p] step t pool_inv_wf [OF inv] by (simp add: collect_def shrinks_refl)
  next
    case (Inr c)
    then show thesis
      using that [OF shrinks_acquire_lease [OF pool_inv_wf [OF inv], of c]]
        that [OF shrinks_hand_out [OF pool_inv_wf [OF inv], of c]] step t
      by (cases "as_lease \<and> \<not> ct_jump ct") (auto simp: collect_def)
  qed
  have "pool_inv p'" "tasks p' t = Some ct"
    using pool_inv_shrinks [OF inv p'(1)] p'(1) t by (simp_all add: shrinks_def)
  then show ?thesis using pool_inv_forget t(2) p'(2) by (simp add: guarded_def)
qed

lemma shrinks_outside_event:
  assumes wf: "mem_wf p" and step: "apply_event e p = Some q"
    and e: "\<forall>t n c a j. e \<noteq> Spawn t n c a j" "\<forall>t d. e \<noteq> Run t d" "\<forall>t. e \<noteq> Cancel t" "\<forall>t l. e \<noteq> Collect t l"
  shows "shrinks p q"
proof -
  have lease: "shrinks p (acquire_lease c (add_handle c (touch c p)))" for c
    by (rule shrinks_then [OF shrinks_then [OF shrinks_touch [OF wf] shrinks_add_handle] shrinks_acquire_lease])
  have client: "shrinks p (upd c (\<lambda>m. m\<lparr>mc_clients := mc_clients m + 1\<rparr>) (touch c p))" for c
    by (rule shrinks_then [OF shrinks_touch [OF wf] shrinks_add_client])
  have clone: "shrinks p (add_handle c (acquire_lease c p))" for c
    by (rule shrinks_then [OF shrinks_acquire_lease [OF wf] shrinks_add_handle])
  have release: "shrinks p (drop_handle c (release_lease c p))" for c
    by (rule shrinks_then [OF shrinks_release_lease [OF wf] shrinks_drop_handle])
  have drop_client: "shrinks p (drop_client c p)" for c
    unfolding drop_client_def by (rule shrinks_upd [OF wf]) simp
  have tick: "shrinks p (p\<lparr>clock := clock p + n\<rparr>)" for n
    using wf by (simp add: shrinks_def mem_wf_def alive_def)
  show ?thesis
    using step e wf lease client clone release drop_client tick
    by (cases e)
       (auto simp: get_client_def get_lease_def clone_lease_def drop_lease_def
          intro: shrinks_intros split: lookup.splits if_splits)
qed

lemma pool_inv_event:
  assumes inv: "pool_inv p" and step: "apply_event e p = Some q"
  shows "pool_inv q"
proof (cases e)
  case (Spawn t name config authentication jump)
  then show ?thesis using step pool_inv_spawn [OF inv] by simp
next
  case (Run t dialled)
  then show ?thesis using step pool_inv_call_step [OF inv] by simp
next
  case (Cancel t)
  then show ?thesis using step pool_inv_cancel [OF inv] by simp
next
  case (Collect t as_lease)
  then show ?thesis using step pool_inv_collect [OF inv] by simp
qed (use pool_inv_shrinks [OF inv shrinks_outside_event [OF pool_inv_wf [OF inv] step]] in simp_all)

lemma pool_inv_new: "pool_inv (manager_new n timeout)"
  by (simp add: pool_inv_def mem_wf_def capacity_ok_def guards_ok_def views_ok_def permit_holders_def
        manager_new_def)

text \<open>
  The pool as a machine: an event that is not enabled changes nothing. Reachable states are the
  ends of histories, so the invariant holds in all of them.
\<close>

definition pool_step :: "event \<Rightarrow> ConnectionManager \<Rightarrow> (unit + unit) \<times> ConnectionManager" where
  "pool_step e p = (case apply_event e p of None \<Rightarrow> (Inl (), p) | Some q \<Rightarrow> (Inr (), q))"

interpretation pool: atomic_machine pool_step pool_inv "\<lambda>_. True"
  by unfold_locales (auto simp: pool_step_def pool_inv_event split: option.splits)

lemma reachable_history:
  "reachable n timeout p \<Longrightarrow> \<exists>es. p = run pool_step es (manager_new n timeout)"
proof (induction rule: reachable.induct)
  case initial
  show ?case by (metis run_simps(1))
next
  case (step p e q)
  then obtain es where "p = run pool_step es (manager_new n timeout)" by blast
  then have "q = run pool_step (es @ [e]) (manager_new n timeout)"
    using step by (simp add: run_append pool_step_def)
  then show ?case by blast
qed

lemma pool_inv_reachable: "reachable n timeout p \<Longrightarrow> pool_inv p"
  using reachable_history pool.run_keep [OF pool_inv_new] by blast

subsection \<open>Further facts\<close>

lemma max_connections_simps [simp]:
  "max_connections (goto t ph p) = max_connections p" "max_connections (reap c p) = max_connections p"
  "max_connections (drop_handle c p) = max_connections p" "max_connections (unmap name p) = max_connections p"
  "max_connections (touch c p) = max_connections p" "max_connections (add_handle c p) = max_connections p"
  "max_connections (evict_dead name c p) = max_connections p" "max_connections (acquire_lease c p) = max_connections p"
  "max_connections (release_lease c p) = max_connections p" "max_connections (drop_client c p) = max_connections p"
  "max_connections (die c p) = max_connections p" "max_connections (take_out name c p) = max_connections p"
  "max_connections (upd c f p) = max_connections p"
  by (auto simp: goto_def reap_def drop_handle_def unmap_def touch_def add_handle_def evict_dead_def
        acquire_lease_def release_lease_def drop_client_def die_def take_out_def upd_def split: option.splits)

lemma max_connections_fold:
  "(\<And>x q. max_connections (f x q) = max_connections q) \<Longrightarrow> max_connections (fold f xs p) = max_connections p"
  by (induction xs arbitrary: p) simp_all

lemma max_connections_bulk [simp]:
  "max_connections (snd (prune_idle p)) = max_connections p" "max_connections (snd (remove name p)) = max_connections p"
  "max_connections (close_all p) = max_connections p"
proof -
  show remove: "max_connections (snd (remove name p)) = max_connections p" for name p
    by (simp add: remove_def split: option.splits)
  show "max_connections (snd (prune_idle p)) = max_connections p"
    by (simp add: prune_idle_def Let_def max_connections_fold)
  show "max_connections (close_all p) = max_connections p"
    unfolding close_all_def by (rule max_connections_fold) (rule remove)
qed

lemma max_connections_insert [simp]: "max_connections (insert_candidate t ct p) = max_connections p"
  by (simp add: insert_candidate_def Let_def split: option.splits sum.splits)

lemma max_connections_call_step: "call_step t d p = Some q \<Longrightarrow> max_connections q = max_connections p"
  by (auto simp: call_step_def Let_def after_lookup_def claim_connect_def drop_guard_def
        split: option.splits phase.splits lookup.splits if_splits)

lemma max_connections_event:
  assumes "apply_event e p = Some q"
  shows "max_connections q = max_connections p"
proof (cases e)
  case (Run t dialled)
  then show ?thesis using assms max_connections_call_step by simp
qed (use assms in \<open>auto simp: spawn_def cancel_def collect_def get_client_def get_lease_def clone_lease_def
       drop_lease_def close_done_def Let_def split: if_splits option.splits phase.splits sum.splits lookup.splits\<close>)

lemma max_connections_reachable: "reachable n timeout p \<Longrightarrow> max_connections p = n"
  by (induction rule: reachable.induct) (auto simp: max_connections_event, simp add: manager_new_def)

lemma bound_le_heap:
  assumes "mem_wf p"
  shows "length (connections p) \<le> card (dom (heap p))"
proof -
  have "length (connections p) = card (snd ` set (connections p))"
    using assms by (metis distinct_card length_map list.set_map mem_wf_def)
  also have "\<dots> \<le> card (dom (heap p))" using assms by (simp add: card_mono mem_wf_def)
  finally show ?thesis .
qed

lemma fold_unmap_map_of:
  "map_of (connections (fold unmap names p)) = map_of (connections p) |` (- set names)"
proof (induction names arbitrary: p)
  case (Cons n names)
  have "map_of (connections (unmap n p)) = (map_of (connections p))(n := None)"
    by (auto simp: unmap_def reap_def AList.delete_conv' split: option.splits)
  then show ?case using Cons by (auto simp: restrict_map_def fun_eq_iff)
qed (simp add: restrict_map_def)

lemma run_events_reachable:
  "reachable n timeout p \<Longrightarrow> run_events es p = Some q \<Longrightarrow> reachable n timeout q"
proof (induction es arbitrary: p)
  case (Cons e es)
  then show ?case by (auto split: option.splits intro: reachable.step)
qed simp

text \<open>Two calls for one name in a pool of one connection: the first is dialling, the second waits.\<close>

definition sample_events :: "event list" where
  "sample_events =
     [Spawn 0 (lit ''db'') (config_new (lit ''db.example'') (lit ''root'')) Agent False,
      Spawn 1 (lit ''db'') (config_new (lit ''db.example'') (lit ''root'')) Agent True,
      Run 0 True, Run 1 True, Run 0 True, Run 1 True, Run 0 True, Run 0 True, Run 0 True]"

lemma sample_run:
  obtains p ct0 ct1 where "run_events sample_events (manager_new 1 5) = Some p" "reachable 1 5 p"
    "tasks p 0 = Some ct0" "ct_phase ct0 = Dialing" "tasks p 1 = Some ct1" "ct_phase ct1 = Waiting 0"
proof -
  have "map_option (\<lambda>p. (map_option ct_phase (tasks p 0), map_option ct_phase (tasks p 1)))
      (run_events sample_events (manager_new 1 5)) = Some (Some Dialing, Some (Waiting 0))"
    by code_simp
  then show thesis using that run_events_reachable [OF reachable.initial] by auto
qed

section \<open>Theorems\<close>

text \<open>
  C20. Capacity: in every reachable state the free permits, the connections that anyone still owns and
  the calls that are dialling add up to the configured maximum; so the pool never has more names
  bound than that.
\<close>

theorem pool_capacity:
  assumes "reachable n timeout p"
  shows "capacity p + card (dom (heap p)) + card (permit_holders p) = n \<and> length (connections p) \<le> n"
proof -
  have inv: "pool_inv p" by (rule pool_inv_reachable [OF assms])
  then have "capacity p + card (dom (heap p)) + card (permit_holders p) = n"
    using max_connections_reachable [OF assms] by (simp add: pool_inv_def capacity_ok_def)
  then show ?thesis using bound_le_heap [OF pool_inv_wf [OF inv]] by linarith
qed

theorem pool_capacity_witness:
  "\<exists>p. run_events sample_events (manager_new 1 5) = Some p \<and>
     capacity p + card (dom (heap p)) + card (permit_holders p) = 1 \<and> length (connections p) \<le> 1"
proof -
  obtain p where "run_events sample_events (manager_new 1 5) = Some p" "reachable 1 5 p" by (rule sample_run)
  then show ?thesis using pool_capacity by blast
qed

text \<open>
  C21. Single flight: at most one call at a time dials for a name, and when it inserts its connection
  the name is unbound. The branch of the code for a connection that appeared meanwhile is therefore
  never taken, and the variants of \<open>manager.rs\<close> and \<open>jump.rs\<close>, which differ there, do the same.
\<close>

theorem single_flight:
  assumes "reachable n timeout p" "tasks p t = Some ct"
  shows "(\<forall>s cs. tasks p s = Some cs \<and> ct_name cs = ct_name ct \<and> guarded (ct_phase cs) \<and>
            guarded (ct_phase ct) \<longrightarrow> s = t) \<and>
         (ct_phase ct = Inserting \<longrightarrow> map_of (connections p) (ct_name ct) = None \<and>
            insert_candidate t (ct\<lparr>ct_jump := True\<rparr>) p = insert_candidate t (ct\<lparr>ct_jump := False\<rparr>) p)"
proof (intro conjI allI impI)
  have inv: "pool_inv p" by (rule pool_inv_reachable [OF assms(1)])
  fix s cs
  assume "tasks p s = Some cs \<and> ct_name cs = ct_name ct \<and> guarded (ct_phase cs) \<and> guarded (ct_phase ct)"
  then have "guards p (ct_name ct) s" "guards p (ct_name ct) t" using assms(2) by (auto simp: guards_def)
  then show "s = t" using inv unfolding pool_inv_def guards_ok_iff by (metis option.inject)
next
  assume "ct_phase ct = Inserting"
  moreover have "leader_view p (ct_name ct) (ct_phase ct)"
    using pool_inv_reachable [OF assms(1)] assms(2) by (simp add: pool_inv_def views_ok_def)
  ultimately show free: "map_of (connections p) (ct_name ct) = None" by simp
  then show "insert_candidate t (ct\<lparr>ct_jump := True\<rparr>) p = insert_candidate t (ct\<lparr>ct_jump := False\<rparr>) p"
    by (simp add: insert_candidate_def live_existing_def jump_existing_def Let_def goto_def split: option.splits)
qed

theorem single_flight_witness:
  "\<exists>p ct. run_events (sample_events @ [Run 0 True]) (manager_new 1 5) = Some p \<and> tasks p 0 = Some ct \<and>
     map_of (connections p) (ct_name ct) = None"
proof -
  let ?run = "run_events (sample_events @ [Run 0 True]) (manager_new 1 5)"
  have "map_option (\<lambda>p. map_option ct_phase (tasks p 0)) ?run = Some (Some Inserting)" by code_simp
  then obtain p ct where p: "?run = Some p" "tasks p 0 = Some ct" "ct_phase ct = Inserting" by auto
  have "reachable 1 5 p" by (rule run_events_reachable [OF reachable.initial p(1)])
  then show ?thesis using single_flight p by blast
qed

text \<open>
  C22. Progress: a call that has not finished can take its next step, or it waits for the leader of its
  name, and that leader can take its next step. No follower is left waiting for a leader that is
  gone, whether it succeeded, failed or was cancelled.
\<close>

theorem connect_progress:
  assumes "reachable n timeout p" "tasks p t = Some ct" "\<forall>r. ct_phase ct \<noteq> Finished r"
  shows "call_step t dialled p \<noteq> None \<or>
         (\<exists>leader cl. ct_phase ct = Waiting leader \<and> tasks p leader = Some cl \<and> ct_name cl = ct_name ct \<and>
            call_step leader dialled p \<noteq> None)"
proof (cases "\<exists>leader. ct_phase ct = Waiting leader \<and> map_of (connecting p) (ct_name ct) = Some leader")
  case True
  then obtain leader where w: "ct_phase ct = Waiting leader" "map_of (connecting p) (ct_name ct) = Some leader"
    by blast
  then obtain cl where cl: "tasks p leader = Some cl" "ct_name cl = ct_name ct" "guarded (ct_phase cl)"
    using pool_inv_reachable [OF assms(1)] by (auto simp: pool_inv_def guards_ok_def simp del: map_of_eq_Some_iff)
  then have "call_step leader dialled p \<noteq> None"
    by (cases "ct_phase cl") (auto simp: call_step_def Let_def guarded_def)
  then show ?thesis using w cl by blast
next
  case False
  then have "call_step t dialled p \<noteq> None"
    using assms(2,3) by (cases "ct_phase ct") (auto simp: call_step_def Let_def split: option.splits sum.splits)
  then show ?thesis by blast
qed

theorem connect_progress_witness:
  "\<exists>p. run_events sample_events (manager_new 1 5) = Some p \<and> tasks p 1 \<noteq> None \<and>
     (call_step 1 True p \<noteq> None \<or> (\<exists>leader. call_step leader True p \<noteq> None))"
proof -
  obtain p ct0 ct1 where p: "run_events sample_events (manager_new 1 5) = Some p" "reachable 1 5 p"
    "tasks p 1 = Some ct1" "ct_phase ct1 = Waiting 0" by (rule sample_run)
  then have "\<forall>r. ct_phase ct1 \<noteq> Finished r" by simp
  then have "call_step 1 True p \<noteq> None \<or> (\<exists>leader. call_step leader True p \<noteq> None)"
    using connect_progress [OF p(2,3)] by blast
  then show ?thesis using p(1,3) by blast
qed

text \<open>
  Reuse: a lookup hands out an existing connection exactly when it is alive, was made with the same
  configuration and has a compatible authentication; for a follower of a concurrent call, two
  authentications that depend on a secret count as compatible.
\<close>

theorem reuse_iff_compatible:
  "get_reusable_managed_inner p name config key allow = Reusable c \<longleftrightarrow>
     (\<exists>m. map_of (connections p) name = Some c \<and> heap p c = Some m \<and> mc_alive m \<and> mc_config m = config \<and>
        (can_reuse_with (mc_authentication m) key \<or>
         allow \<and> mc_authentication m = NonReusable \<and> key = NonReusable))"
  by (auto simp: get_reusable_managed_inner_def ensure_config_matches_def ensure_reusable_def
        simp del: map_of_eq_Some_iff split: option.splits if_splits)

text \<open>What a snapshot reports as in use is never pruned, and its figures respect the maximum.\<close>

lemma in_use_not_expired: "heap p c = Some m \<Longrightarrow> managed_is_in_use m \<Longrightarrow> \<not> expired p c"
  by (auto simp: managed_is_in_use_def expired_def)

lemma snapshot_within_capacity:
  assumes "reachable n timeout p"
  shows "total_connections (snapshot_pool p) + available_capacity (snapshot_pool p) \<le> n \<and>
         in_use_connections (snapshot_pool p) \<le> total_connections (snapshot_pool p) \<and>
         sn_max_connections (snapshot_pool p) = n"
proof -
  have inv: "pool_inv p" by (rule pool_inv_reachable [OF assms])
  have "length (List.map_filter f xs) \<le> length xs" for f :: "rstring \<times> cid \<Rightarrow> ManagedConnection option" and xs
    by (simp add: List.map_filter_def)
  then have "length (filter managed_is_in_use (List.map_filter (\<lambda>(_, c). heap p c) (connections p)))
      \<le> length (connections p)"
    using length_filter_le le_trans by blast
  then show ?thesis
    using bound_le_heap [OF pool_inv_wf [OF inv]] max_connections_reachable [OF assms] inv
    by (simp add: snapshot_pool_def Let_def pool_inv_def capacity_ok_def)
qed

text \<open>
  Pruning unbinds exactly the names whose connection nobody owns, no lease is held on, and that has
  been idle for the configured time.
\<close>

theorem prune_exactly_idle:
  assumes "reachable n timeout p"
  shows "map_of (connections (snd (prune_idle p))) name = Some c \<longleftrightarrow>
         map_of (connections p) name = Some c \<and> \<not> expired p c"
proof -
  let ?names = "map fst (filter (\<lambda>(_, c). expired p c) (connections p))"
  have keys: "distinct (map fst (connections p))"
    using pool_inv_reachable [OF assms] by (simp add: pool_inv_def mem_wf_def)
  have "name \<in> set ?names \<longleftrightarrow> (\<exists>d. map_of (connections p) name = Some d \<and> expired p d)"
    using keys by force
  then have "name \<in> set ?names \<longleftrightarrow> expired p c" if "map_of (connections p) name = Some c"
    using that by simp
  then show ?thesis
    using fold_unmap_map_of [of ?names p]
    by (auto simp: prune_idle_def Let_def restrict_map_def simp del: map_of_eq_Some_iff split: if_splits)
qed

theorem prune_exactly_idle_witness:
  "\<exists>p. run_events (sample_events @ [Run 0 True, Run 0 True, Run 0 True, Collect 0 True, Tick 9]) (manager_new 1 5) =
     Some p \<and> map_of (connections (snd (prune_idle p))) (lit ''db'') = Some 0"
proof -
  let ?run = "run_events (sample_events @ [Run 0 True, Run 0 True, Run 0 True, Collect 0 True, Tick 9]) (manager_new 1 5)"
  have "map_option (\<lambda>p. (map_of (connections p) (lit ''db''), expired p 0)) ?run = Some (Some 0, False)" by code_simp
  then obtain p where p: "?run = Some p" "map_of (connections p) (lit ''db'') = Some 0" "\<not> expired p 0" by auto
  have "reachable 1 5 p" by (rule run_events_reachable [OF reachable.initial p(1)])
  then show ?thesis using prune_exactly_idle p by blast
qed

text \<open>
  Two concurrent calls for one name with different passwords: the follower is given the connection
  that the leader authenticated, although its own password was never checked.
\<close>

theorem follower_shares_password_login:
  assumes "name \<noteq> []"
  shows "map_option (\<lambda>p. map_option ct_phase (tasks p 1))
    (run_events
       [Spawn 0 name config (Password pw0) False, Spawn 1 name config (Password pw1) False,
        Run 0 True, Run 1 True, Run 0 True, Run 1 True,
        Run 0 True, Run 0 True, Run 0 True, Run 0 True, Run 0 True, Run 0 True,
        Run 1 True, Run 1 True] (manager_new 1 timeout)) = Some (Some (Finished (Inr 0)))"
  using assms
  by (simp add: manager_new_def spawn_def call_step_def get_reusable_managed_inner_def after_lookup_def goto_def
        prune_idle_def insert_candidate_def drop_guard_def ensure_config_matches_def touch_def claim_connect_def live_existing_def
        add_handle_def upd_def)

theorem follower_shares_password_login_witness:
  "map_option (\<lambda>p. map_option ct_phase (tasks p 1))
    (run_events
       [Spawn 0 (lit ''db'') (config_new (lit ''h'') (lit ''u'')) (Password (lit ''right'')) False,
        Spawn 1 (lit ''db'') (config_new (lit ''h'') (lit ''u'')) (Password (lit ''wrong'')) False,
        Run 0 True, Run 1 True, Run 0 True, Run 1 True,
        Run 0 True, Run 0 True, Run 0 True, Run 0 True, Run 0 True, Run 0 True,
        Run 1 True, Run 1 True] (manager_new 1 60)) = Some (Some (Finished (Inr 0)))"
proof -
  have "lit ''db'' \<noteq> []" by code_simp
  then show ?thesis by (rule follower_shares_password_login)
qed

end
