(* ===== verification/Include_Paths.thy ===== *)
theory Include_Paths
  imports Openssh_Match Remote_Path
begin

section \<open>Include arguments: quoting, expansion and globs\<close>

text \<open>
  Model of the pure half of \<open>openssh_include.rs\<close> and of \<open>openssh_include/env.rs\<close>: the arguments of an
  \<open>Include\<close> line, their \<open>${...}\<close> and percent expansion, the anchoring below the home directory, and the
  expansion of \<open>*\<close> and \<open>?\<close> over directories. The operating system is the parameter record
  \<open>FsWorld\<close>, one snapshot of the file system seen by a whole expansion: \<open>fs::canonicalize\<close>,
  \<open>fs::metadata\<close>, \<open>fs::read_dir\<close>, \<open>File::open\<close>, \<open>std::env::var\<close>, \<open>gethostname\<close> and \<open>getuid\<close>. Paths are
  Unix paths as texts; they are ordered by their components, as \<open>Path::cmp\<close> does. A directory entry
  whose name is not UTF-8 only keeps the fact whether it starts with a period. Byte counts are
  naturals: a text in memory is far below \<open>usize::MAX\<close>, so the \<open>checked_add\<close>s cannot fail.
\<close>

datatype (plugins only: code size) include_error =
    IncompleteEscape | UnterminatedQuote
  | UnterminatedVariable | EmptyVariable | MissingVariable rstring
  | IncompletePercent | UnsupportedPercent uchar
  | HostnameUnavailable | HostnameTooLong | HostnameEmpty | HostnameNotUtf8 | ExpansionTooLong
  | IncludePathEmpty | IncludePathTooLong | IncludePathControl | ExpandedControl
  | BracketGlob rstring | TildeUser rstring
  | GlobTooLong | GlobIncompleteEscape | GlobNotUtf8Entry | GlobTooMany | DirectoryError | EntryFailed
  | NotAFile rstring | InspectError rstring
  | NestingTooDeep | TooManyFiles | ResolveFailed rstring | IncludeCycle rstring
  | OpenFailed rstring | NotRegular rstring | BadOwner rstring | BadMode rstring | ReadFailed rstring
  | FileTooLarge rstring | InputTooLarge | OutputTooLarge | NoArguments nat | TooManyPaths nat
  | HostInvalid nat | MatchInvalid nat match_error | OptionInvalid nat | IncludeInvalid nat include_error
  | WhileExpanding nat include_error

definition MAX_INCLUDE_DEPTH :: nat where "MAX_INCLUDE_DEPTH = 16"
definition MAX_INCLUDE_FILES :: nat where "MAX_INCLUDE_FILES = 256"
definition MAX_INCLUDE_ARGUMENTS_PER_LINE :: nat where "MAX_INCLUDE_ARGUMENTS_PER_LINE = 64"
definition MAX_INCLUDE_PATH_BYTES :: nat where "MAX_INCLUDE_PATH_BYTES = 16 * 1024"
definition MAX_GLOB_COMPONENT_BYTES :: nat where "MAX_GLOB_COMPONENT_BYTES = 1024"
definition HOST_NAME_BUFFER_BYTES :: nat where "HOST_NAME_BUFFER_BYTES = 256"

datatype 'a io_result = IoOk 'a | IoNotFound | IoError

datatype dir_entry = EntryError | EntryName rstring | EntryNotUtf8 bool

record open_file =
  is_file :: bool
  owner :: u32
  mode_bits :: u32
  bytes :: "u8 list"

record FsWorld =
  fs_canonicalize :: "rstring \<Rightarrow> rstring option"
  fs_metadata :: "rstring \<Rightarrow> bool io_result"
  fs_read_dir :: "rstring \<Rightarrow> dir_entry list io_result"
  fs_open :: "rstring \<Rightarrow> open_file option"
  fs_env :: "rstring \<Rightarrow> rstring option"
  fs_hostname :: "u8 list option"
  fs_uid :: u32
  fs_probe_port :: "rstring \<Rightarrow> rstring \<Rightarrow> u16 option"

subsection \<open>Arguments of an Include line\<close>

record arg_state =
  collected :: "rstring list"
  current :: rstring
  quote :: "uchar option"
  escaped :: bool

text \<open>One character of the loop; \<open>None\<close> is the \<open>break\<close> at a comment sign.\<close>

definition arg_step :: "arg_state \<Rightarrow> uchar \<Rightarrow> arg_state option" where
  "arg_step st ch =
     (if escaped st then
        Some (st\<lparr>current := current st @ (if ch \<in> {42, 63, 92} then [92, ch] else [ch]),
                 escaped := False\<rparr>)
      else if ch = 92 \<and> quote st \<noteq> Some 39 then Some (st\<lparr>escaped := True\<rparr>)
      else case quote st of
        Some active \<Rightarrow>
          if ch = active then Some (st\<lparr>quote := None\<rparr>)
          else Some (st\<lparr>current := current st @ [ch]\<rparr>)
      | None \<Rightarrow>
          if ch = 39 \<or> ch = 34 then Some (st\<lparr>quote := Some ch\<rparr>)
          else if ch = 35 then None
          else if is_ascii_whitespace ch then
            if current st \<noteq> [] then Some (st\<lparr>collected := collected st @ [current st], current := []\<rparr>)
            else Some st
          else Some (st\<lparr>current := current st @ [ch]\<rparr>))"

fun arg_loop :: "arg_state \<Rightarrow> rstring \<Rightarrow> arg_state" where
  "arg_loop st [] = st"
| "arg_loop st (ch # rest) = (case arg_step st ch of None \<Rightarrow> st | Some st' \<Rightarrow> arg_loop st' rest)"

definition arg_finish :: "arg_state \<Rightarrow> include_error + rstring list" where
  "arg_finish st =
     (if escaped st then Inl IncompleteEscape
      else if quote st \<noteq> None then Inl UnterminatedQuote
      else Inr (if current st \<noteq> [] then collected st @ [current st] else collected st))"

definition arg_start :: arg_state where
  "arg_start = \<lparr>collected = [], current = [], quote = None, escaped = False\<rparr>"

definition parse_include_arguments :: "rstring \<Rightarrow> include_error + rstring list" where
  "parse_include_arguments input = arg_finish (arg_loop arg_start input)"

definition include_arguments :: "rstring \<Rightarrow> include_error + rstring list option" where
  "include_arguments line =
     (case directive_key line of
        None \<Rightarrow> Inr None
      | Some key \<Rightarrow>
          if \<not> eq_ignore_ascii_case key (lit ''include'') then Inr None
          else map_ok Some (parse_include_arguments
                 (trim_start_matches directive_sep (drop (length key) (trim_start line)))))"

definition validate_include_arguments :: "nat \<Rightarrow> rstring list \<Rightarrow> include_error + unit" where
  "validate_include_arguments index arguments =
     (if arguments = [] then Inl (NoArguments (index + 1))
      else if MAX_INCLUDE_ARGUMENTS_PER_LINE < length arguments then Inl (TooManyPaths (index + 1))
      else Inr ())"

subsection \<open>Environment variables and percent tokens\<close>

definition env_push_bounded :: "rstring \<Rightarrow> rstring \<Rightarrow> nat \<Rightarrow> include_error + rstring" where
  "env_push_bounded out v max_bytes =
     (if max_bytes < str_len out + str_len v then Inl ExpansionTooLong else Inr (out @ v))"

definition hostname_from_buffer :: "u8 list \<Rightarrow> include_error + rstring" where
  "hostname_from_buffer buffer =
     (let bs = takeWhile (\<lambda>b. b \<noteq> 0) buffer in
      if HOST_NAME_BUFFER_BYTES \<le> length bs then Inl HostnameTooLong
      else if bs = [] then Inl HostnameEmpty
      else ok_or HostnameNotUtf8 (from_utf8 bs))"

definition query_local_hostname :: "FsWorld \<Rightarrow> include_error + rstring" where
  "query_local_hostname w = and_then (ok_or HostnameUnavailable (fs_hostname w)) hostname_from_buffer"

definition query_local_hostnames :: "FsWorld \<Rightarrow> include_error + rstring \<times> rstring" where
  "query_local_hostnames w =
     and_then (query_local_hostname w) (\<lambda>full.
       if full = [] then Inl HostnameEmpty
       else Inr (full, hd (split_on (\<lambda>c. c = 46) full)))"

type_synonym local_names = "(rstring \<times> rstring) option"

text \<open>The cache \<open>local_names\<close> is filled by the first token that needs it.\<close>

definition cached_names :: "FsWorld \<Rightarrow> local_names \<Rightarrow> include_error + rstring \<times> rstring" where
  "cached_names w names = (case names of Some n \<Rightarrow> Inr n | None \<Rightarrow> query_local_hostnames w)"

definition percent_token ::
  "FsWorld \<Rightarrow> uchar \<Rightarrow> rstring \<Rightarrow> nat \<Rightarrow> local_names \<Rightarrow> include_error + rstring \<times> local_names" where
  "percent_token w token out max_bytes names =
     (if token = 37 then map_ok (\<lambda>out'. (out', names)) (env_push_bounded out [37] max_bytes)
      else if token = 108 \<or> token = 76 then
        and_then (cached_names w names) (\<lambda>(full, short).
          map_ok (\<lambda>out'. (out', Some (full, short)))
            (env_push_bounded out (if token = 108 then full else short) max_bytes))
      else Inl (UnsupportedPercent token))"

function expand_percent_tokens ::
  "FsWorld \<Rightarrow> rstring \<Rightarrow> rstring \<Rightarrow> nat \<Rightarrow> local_names \<Rightarrow> include_error + rstring \<times> local_names" where
  "expand_percent_tokens w out rest max_bytes names =
     (case split_once 37 rest of
        None \<Rightarrow> map_ok (\<lambda>out'. (out', names)) (env_push_bounded out rest max_bytes)
      | Some (before_percent, after_percent) \<Rightarrow>
          and_then (env_push_bounded out before_percent max_bytes) (\<lambda>out'.
            case after_percent of
              [] \<Rightarrow> Inl IncompletePercent
            | token # rest' \<Rightarrow>
                and_then (percent_token w token out' max_bytes names) (\<lambda>(out'', names').
                  expand_percent_tokens w out'' rest' max_bytes names')))"
  by pat_completeness auto
termination
  by (relation "measure (\<lambda>(w, out, rest, m, names). length rest)") (auto simp: split_once_Some)

text \<open>\<open>rest.find\<close> of \<open>${\<close>: the text before the first occurrence and the text after it.\<close>

fun find_variable :: "rstring \<Rightarrow> (rstring \<times> rstring) option" where
  "find_variable [] = None"
| "find_variable (c # s) =
     (if starts_with (lit ''${'') (c # s) then Some ([], tl s)
      else map_option (\<lambda>(a, b). (c # a, b)) (find_variable s))"

lemma find_variable_length: "find_variable s = Some (a, b) \<Longrightarrow> length b < length s"
  by (induction s arbitrary: a b) (auto simp: lit_simps split: if_splits)

function expand_variables ::
  "FsWorld \<Rightarrow> rstring \<Rightarrow> rstring \<Rightarrow> nat \<Rightarrow> local_names \<Rightarrow> include_error + rstring" where
  "expand_variables w out rest max_bytes names =
     (case find_variable rest of
        None \<Rightarrow> map_ok fst (expand_percent_tokens w out rest max_bytes names)
      | Some (plain, variable_and_rest) \<Rightarrow>
          and_then (expand_percent_tokens w out plain max_bytes names) (\<lambda>(out', names').
          and_then (ok_or UnterminatedVariable (split_once 125 variable_and_rest)) (\<lambda>(name, rest').
            if name = [] then Inl EmptyVariable
            else
              and_then (ok_or (MissingVariable name) (fs_env w name)) (\<lambda>v.
              and_then (env_push_bounded out' v max_bytes) (\<lambda>out''.
                expand_variables w out'' rest' max_bytes names')))))"
  by pat_completeness auto
termination
  by (relation "measure (\<lambda>(w, out, rest, m, names). length rest)")
     (auto simp: split_once_Some dest!: find_variable_length)

declare expand_percent_tokens.simps [simp del] expand_variables.simps [simp del]

definition expand_include_environment :: "FsWorld \<Rightarrow> rstring \<Rightarrow> nat \<Rightarrow> include_error + rstring" where
  "expand_include_environment w v max_bytes = expand_variables w [] v max_bytes None"

subsection \<open>Anchoring below the home directory\<close>

definition anchor_path :: "rstring \<Rightarrow> rstring \<Rightarrow> include_error + rstring" where
  "anchor_path home v =
     (if v = lit ''~'' then Inr home
      else case strip_prefix (lit ''~/'') v of
        Some rest \<Rightarrow> Inr (path_push home rest)
      | None \<Rightarrow> (case strip_prefix [126, 92] v of
          Some rest \<Rightarrow> Inr (path_push home rest)
        | None \<Rightarrow>
            if starts_with [126] v then Inl (TildeUser v)
            else if starts_with [47] v then Inr v
            else Inr (path_push (path_push home (lit ''.ssh'')) v)))"

definition anchor_user_include :: "FsWorld \<Rightarrow> rstring \<Rightarrow> rstring \<Rightarrow> include_error + rstring" where
  "anchor_user_include w home v =
     (if v = [] then Inl IncludePathEmpty
      else if MAX_INCLUDE_PATH_BYTES < str_len v then Inl IncludePathTooLong
      else if list_ex is_control v then Inl IncludePathControl
      else
        and_then (expand_include_environment w v MAX_INCLUDE_PATH_BYTES) (\<lambda>v'.
          if list_ex is_control v' then Inl ExpandedControl
          else if list_ex (\<lambda>c. c = 91 \<or> c = 93) v' then Inl (BracketGlob v')
          else anchor_path home v'))"

subsection \<open>Globs with escapes\<close>

text \<open>The \<open>for\<close> loop over candidate positions: stops at the first match and at the first error.\<close>

fun find_memo :: "('a \<Rightarrow> 'm \<Rightarrow> 'e + bool \<times> 'm) \<Rightarrow> 'a list \<Rightarrow> 'm \<Rightarrow> 'e + bool \<times> 'm" where
  "find_memo g [] m = Inr (False, m)"
| "find_memo g (x # xs) m =
     and_then (g x m) (\<lambda>(r, m'). if r then Inr (True, m') else find_memo g xs m')"

lemma find_memo_cong [fundef_cong]:
  "xs = ys \<Longrightarrow> m = m' \<Longrightarrow> (\<And>x n. x \<in> set ys \<Longrightarrow> g x n = h x n) \<Longrightarrow> find_memo g xs m = find_memo h ys m'"
proof (induction xs arbitrary: ys m m')
  case (Cons x xs)
  have "find_memo g xs n = find_memo h xs n" for n using Cons.IH [of xs n n] Cons.prems by auto
  with Cons.prems show ?case by (auto intro!: and_then_cong split: prod.splits)
qed simp

definition guarded :: "bool \<Rightarrow> 'm \<Rightarrow> 'e + bool \<times> 'm \<Rightarrow> 'e + bool \<times> 'm" where
  "guarded c m r = (if c then r else Inr (False, m))"

lemma guarded_cong [fundef_cong]:
  "c = c' \<Longrightarrow> m = m' \<Longrightarrow> (c' \<Longrightarrow> r = r') \<Longrightarrow> guarded c m r = guarded c' m' r'"
  by (auto simp: guarded_def)

function glob_inner ::
  "u8 list \<Rightarrow> u8 list \<Rightarrow> nat \<Rightarrow> nat \<Rightarrow> memo \<Rightarrow> include_error + bool \<times> memo" where
  "glob_inner pat cand pi ci memo =
     (case memo (pi, ci) of
        Some result \<Rightarrow> Inr (result, memo)
      | None \<Rightarrow>
          if length pat \<le> pi then Inr (length cand \<le> ci, memo)
          else
            map_ok (\<lambda>(result, memo'). (result, memo'((pi, ci) \<mapsto> result)))
              (if pat ! pi = 42 then
                 let nxt = skip_stars pat (pi + 1) in
                 if length pat \<le> nxt then Inr (True, memo)
                 else find_memo (\<lambda>c m. glob_inner pat cand nxt c m) [ci..<length cand + 1] memo
               else if pat ! pi = 63 then
                 guarded (ci < length cand) memo (glob_inner pat cand (pi + 1) (ci + 1) memo)
               else if pat ! pi = 92 then
                 let literal_index = pi + 1 in
                 if length pat \<le> literal_index then Inl GlobIncompleteEscape
                 else guarded (ci < length cand \<and> cand ! ci = pat ! literal_index) memo
                        (glob_inner pat cand (literal_index + 1) (ci + 1) memo)
               else
                 guarded (ci < length cand \<and> cand ! ci = pat ! pi) memo
                   (glob_inner pat cand (pi + 1) (ci + 1) memo)))"
  by pat_completeness auto
termination
proof (relation "measure (\<lambda>(pat, cand, pi, ci, m). length pat - pi)"; simp)
  fix pat :: "u8 list" and pi :: nat
  assume "\<not> length pat \<le> pi" "\<not> length pat \<le> skip_stars pat (Suc pi)"
  then show "length pat - skip_stars pat (Suc pi) < length pat - pi"
    using skip_stars_ge [of "Suc pi" pat] by linarith
qed

declare glob_inner.simps [simp del]

definition glob_match :: "u8 list \<Rightarrow> u8 list \<Rightarrow> include_error + bool" where
  "glob_match pat cand = map_ok fst (glob_inner pat cand 0 0 (\<lambda>_. None))"

definition contains_glob_meta :: "rstring \<Rightarrow> bool" where
  "contains_glob_meta segment \<longleftrightarrow> list_ex (\<lambda>c. c = 42 \<or> c = 63) segment"

definition validate_glob_component :: "rstring \<Rightarrow> include_error + unit" where
  "validate_glob_component pat =
     (if MAX_GLOB_COMPONENT_BYTES < str_len pat then Inl GlobTooLong else Inr ())"

definition pattern_explicitly_starts_with_period :: "rstring \<Rightarrow> bool" where
  "pattern_explicitly_starts_with_period pat \<longleftrightarrow> starts_with [46] pat \<or> starts_with [92, 46] pat"

fun entry_hidden :: "dir_entry \<Rightarrow> bool" where
  "entry_hidden EntryError = False"
| "entry_hidden (EntryName name) = starts_with [46] name"
| "entry_hidden (EntryNotUtf8 hidden) = hidden"

fun glob_segment_matches :: "rstring \<Rightarrow> dir_entry \<Rightarrow> include_error + rstring option" where
  "glob_segment_matches pat EntryError = Inl EntryFailed"
| "glob_segment_matches pat (EntryNotUtf8 _) = Inl GlobNotUtf8Entry"
| "glob_segment_matches pat (EntryName name) =
     map_ok (\<lambda>m. if m then Some name else None) (glob_match (as_bytes pat) (as_bytes name))"

fun glob_entries ::
  "rstring \<Rightarrow> bool \<Rightarrow> rstring \<Rightarrow> dir_entry list \<Rightarrow> rstring list \<Rightarrow> include_error + rstring list" where
  "glob_entries segment allow_hidden candidate [] found = Inr found"
| "glob_entries segment allow_hidden candidate (entry # rest) found =
     (if entry = EntryError then Inl EntryFailed
      else if \<not> allow_hidden \<and> entry_hidden entry then
        glob_entries segment allow_hidden candidate rest found
      else
        and_then (glob_segment_matches segment entry) (\<lambda>m.
          case m of
            None \<Rightarrow> glob_entries segment allow_hidden candidate rest found
          | Some name \<Rightarrow>
              let found' = found @ [path_push candidate name] in
              if MAX_INCLUDE_FILES < length found' then Inl GlobTooMany
              else glob_entries segment allow_hidden candidate rest found'))"

fun glob_directories ::
  "FsWorld \<Rightarrow> rstring \<Rightarrow> bool \<Rightarrow> rstring list \<Rightarrow> rstring list \<Rightarrow> include_error + rstring list" where
  "glob_directories w segment allow_hidden [] found = Inr found"
| "glob_directories w segment allow_hidden (candidate # rest) found =
     (case fs_read_dir w (if candidate = [] then lit ''.'' else candidate) of
        IoOk entries \<Rightarrow>
          and_then (glob_entries segment allow_hidden candidate entries found)
            (glob_directories w segment allow_hidden rest)
      | IoNotFound \<Rightarrow> glob_directories w segment allow_hidden rest found
      | IoError \<Rightarrow> Inl DirectoryError)"

text \<open>\<open>Path::cmp\<close> and \<open>Path::eq\<close> compare components; \<open>sort\<close> is stable, \<open>dedup\<close> drops neighbours.\<close>

fun component_key :: "Component \<Rightarrow> nat list" where
  "component_key RootDir = [1]"
| "component_key CurDir = [2]"
| "component_key ParentDir = [3]"
| "component_key (Normal s) = 4 # s"

definition path_key :: "rstring \<Rightarrow> nat list list" where
  "path_key p = map component_key (components p)"

fun dedup_by :: "('a \<Rightarrow> 'k) \<Rightarrow> 'a list \<Rightarrow> 'a list" where
  "dedup_by f [] = []"
| "dedup_by f [x] = [x]"
| "dedup_by f (x # y # zs) = (if f x = f y then dedup_by f (x # zs) else x # dedup_by f (y # zs))"

definition sort_dedup :: "rstring list \<Rightarrow> rstring list" where
  "sort_dedup ps = dedup_by path_key (sort_key path_key ps)"

fun component_text :: "Component \<Rightarrow> rstring" where
  "component_text RootDir = lit ''/''"
| "component_text CurDir = lit ''.''"
| "component_text ParentDir = lit ''..''"
| "component_text (Normal s) = s"

definition expand_component ::
  "FsWorld \<Rightarrow> Component \<Rightarrow> rstring list \<Rightarrow> include_error + rstring list" where
  "expand_component w component candidates =
     (case component of
        Normal segment \<Rightarrow>
          if contains_glob_meta segment then
            and_then (validate_glob_component segment) (\<lambda>_.
              map_ok sort_dedup
                (glob_directories w segment (pattern_explicitly_starts_with_period segment) candidates []))
          else Inr (map (\<lambda>c. path_push c segment) candidates)
      | _ \<Rightarrow> Inr (map (\<lambda>c. path_push c (component_text component)) candidates))"

fun expand_components ::
  "FsWorld \<Rightarrow> Component list \<Rightarrow> rstring list \<Rightarrow> include_error + rstring list" where
  "expand_components w [] candidates = Inr candidates"
| "expand_components w (c # cs) candidates =
     and_then (expand_component w c candidates) (expand_components w cs)"

fun existing_files :: "FsWorld \<Rightarrow> rstring list \<Rightarrow> include_error + rstring list" where
  "existing_files w [] = Inr []"
| "existing_files w (c # cs) =
     (case fs_metadata w c of
        IoOk True \<Rightarrow> map_ok ((#) c) (existing_files w cs)
      | IoOk False \<Rightarrow> Inl (NotAFile c)
      | IoNotFound \<Rightarrow> existing_files w cs
      | IoError \<Rightarrow> Inl (InspectError c))"

definition expand_path_pattern :: "FsWorld \<Rightarrow> rstring \<Rightarrow> include_error + rstring list" where
  "expand_path_pattern w pat =
     and_then (expand_components w (components pat) [[]]) (\<lambda>candidates.
       map_ok sort_dedup (existing_files w candidates))"

subsection \<open>Globs: the reference matcher\<close>

datatype gtok = GStar | GAny | GByte u8

text \<open>A pattern is read once into tokens; a backslash takes the next byte literally.\<close>

fun glob_tokens :: "u8 list \<Rightarrow> gtok list option" where
  "glob_tokens [] = Some []"
| "glob_tokens (p # ps) =
     (if p = 42 then map_option ((#) GStar) (glob_tokens ps)
      else if p = 63 then map_option ((#) GAny) (glob_tokens ps)
      else if p = 92 then (case ps of [] \<Rightarrow> None | c # ps' \<Rightarrow> map_option ((#) (GByte c)) (glob_tokens ps'))
      else map_option ((#) (GByte p)) (glob_tokens ps))"

fun tok_match :: "gtok list \<Rightarrow> u8 list \<Rightarrow> bool" where
  "tok_match [] s = (s = [])"
| "tok_match (GStar # ts) s = list_ex (\<lambda>k. tok_match ts (drop k s)) [0..<length s + 1]"
| "tok_match (GAny # ts) s = (s \<noteq> [] \<and> tok_match ts (tl s))"
| "tok_match (GByte c # ts) s = (s \<noteq> [] \<and> hd s = c \<and> tok_match ts (tl s))"

definition pattern_accepts :: "u8 list \<Rightarrow> u8 list \<Rightarrow> bool" where
  "pattern_accepts pat s = (case glob_tokens pat of None \<Rightarrow> False | Some ts \<Rightarrow> tok_match ts s)"

lemma tok_match_star: "tok_match (GStar # ts) s \<longleftrightarrow> (\<exists>k \<le> length s. tok_match ts (drop k s))"
proof -
  have "tok_match (GStar # ts) s \<longleftrightarrow> (\<exists>k \<in> set [0..<length s + 1]. tok_match ts (drop k s))"
    by (simp add: list_ex_iff del: upt_Suc)
  also have "\<dots> \<longleftrightarrow> (\<exists>k \<le> length s. tok_match ts (drop k s))"
    unfolding set_upt by (auto simp: less_Suc_eq_le)
  finally show ?thesis .
qed

declare tok_match.simps(2) [simp del]

lemma accepts_Nil [simp]: "pattern_accepts [] s \<longleftrightarrow> s = []"
  by (simp add: pattern_accepts_def)

lemma accepts_star: "pattern_accepts (42 # ps) s \<longleftrightarrow> (\<exists>k \<le> length s. pattern_accepts ps (drop k s))"
  by (cases "glob_tokens ps") (auto simp: pattern_accepts_def tok_match_star)

lemma accepts_any: "pattern_accepts (63 # ps) s \<longleftrightarrow> s \<noteq> [] \<and> pattern_accepts ps (tl s)"
  by (cases "glob_tokens ps") (auto simp: pattern_accepts_def)

lemma accepts_escape:
  "pattern_accepts (92 # c # ps) s \<longleftrightarrow> s \<noteq> [] \<and> hd s = c \<and> pattern_accepts ps (tl s)"
  by (cases "glob_tokens ps") (auto simp: pattern_accepts_def)

lemma accepts_literal:
  "p \<notin> {42, 63, 92} \<Longrightarrow> pattern_accepts (p # ps) s \<longleftrightarrow> s \<noteq> [] \<and> hd s = p \<and> pattern_accepts ps (tl s)"
  by (cases "glob_tokens ps") (auto simp: pattern_accepts_def)

lemma accepts_star_star: "pattern_accepts (42 # 42 # ps) s \<longleftrightarrow> pattern_accepts (42 # ps) s"
proof
  assume "pattern_accepts (42 # 42 # ps) s"
  then obtain k j where "k \<le> length s" "j \<le> length (drop k s)" "pattern_accepts ps (drop j (drop k s))"
    unfolding accepts_star by blast
  then have "j + k \<le> length s" "pattern_accepts ps (drop (j + k) s)" by simp_all
  then show "pattern_accepts (42 # ps) s" unfolding accepts_star by blast
next
  assume "pattern_accepts (42 # ps) s"
  then show "pattern_accepts (42 # 42 # ps) s"
    unfolding accepts_star [of "42 # ps"] by (intro exI [of _ 0]) simp
qed

lemma accepts_skip_stars:
  "pattern_accepts (42 # drop n pat) s \<longleftrightarrow> pattern_accepts (42 # drop (skip_stars pat n) pat) s"
proof (induction pat n rule: skip_stars.induct)
  case (1 pat n)
  show ?case
  proof (cases "n < length pat \<and> pat ! n = 42")
    case True
    then have "drop n pat = 42 # drop (n + 1) pat" using Cons_nth_drop_Suc [of n pat] by simp
    moreover have "skip_stars pat n = skip_stars pat (n + 1)"
      using True by (subst skip_stars.simps) simp
    ultimately show ?thesis using 1 [OF True] by (simp only: accepts_star_star)
  next
    case False
    then show ?thesis by (subst skip_stars.simps) auto
  qed
qed

lemma tokens_skip_stars: "glob_tokens (drop (skip_stars pat n) pat) = None \<longleftrightarrow> glob_tokens (drop n pat) = None"
proof (induction pat n rule: skip_stars.induct)
  case (1 pat n)
  show ?case
  proof (cases "n < length pat \<and> pat ! n = 42")
    case True
    then have "drop n pat = 42 # drop (n + 1) pat" using Cons_nth_drop_Suc [of n pat] by simp
    moreover have "skip_stars pat n = skip_stars pat (n + 1)"
      using True by (subst skip_stars.simps) simp
    ultimately show ?thesis using 1 [OF True] by simp
  next
    case False
    then show ?thesis by (subst skip_stars.simps) auto
  qed
qed

lemma accepts_drop_star:
  assumes "pi < length pat" and "pat ! pi = 42" and "ci \<le> length cand"
  shows "pattern_accepts (drop pi pat) (drop ci cand) \<longleftrightarrow>
    (let nxt = skip_stars pat (pi + 1) in
     length pat \<le> nxt \<or> list_ex (\<lambda>c. pattern_accepts (drop nxt pat) (drop c cand)) [ci..<length cand + 1])"
proof -
  let ?nxt = "skip_stars pat (pi + 1)"
  have "pattern_accepts (drop pi pat) (drop ci cand) \<longleftrightarrow> pattern_accepts (42 # drop ?nxt pat) (drop ci cand)"
    using assms Cons_nth_drop_Suc [of pi pat] accepts_skip_stars [of "pi + 1" pat] by simp
  also have "\<dots> \<longleftrightarrow> (\<exists>k \<le> length cand - ci. pattern_accepts (drop ?nxt pat) (drop (k + ci) cand))"
    by (simp add: accepts_star)
  also have "\<dots> \<longleftrightarrow> (\<exists>c \<in> {ci..<length cand + 1}. pattern_accepts (drop ?nxt pat) (drop c cand))"
  proof
    assume "\<exists>k \<le> length cand - ci. pattern_accepts (drop ?nxt pat) (drop (k + ci) cand)"
    then obtain k where "k \<le> length cand - ci" "pattern_accepts (drop ?nxt pat) (drop (k + ci) cand)" by blast
    with assms(3) show "\<exists>c \<in> {ci..<length cand + 1}. pattern_accepts (drop ?nxt pat) (drop c cand)"
      by (intro bexI [of _ "k + ci"]) auto
  next
    assume "\<exists>c \<in> {ci..<length cand + 1}. pattern_accepts (drop ?nxt pat) (drop c cand)"
    then obtain c where "ci \<le> c" "c \<le> length cand" "pattern_accepts (drop ?nxt pat) (drop c cand)" by auto
    then show "\<exists>k \<le> length cand - ci. pattern_accepts (drop ?nxt pat) (drop (k + ci) cand)"
      by (intro exI [of _ "c - ci"]) auto
  qed
  also have "\<dots> \<longleftrightarrow> length pat \<le> ?nxt \<or>
      list_ex (\<lambda>c. pattern_accepts (drop ?nxt pat) (drop c cand)) [ci..<length cand + 1]"
  proof (cases "length pat \<le> ?nxt")
    case True
    then show ?thesis using assms(3) by (auto intro!: bexI [of _ "length cand"])
  next
    case False
    then show ?thesis unfolding list_ex_iff set_upt by blast
  qed
  finally show ?thesis by (simp add: Let_def)
qed

text \<open>What a call of the matcher may return: the right answer, or the dangling-escape error.\<close>

definition table_ok :: "u8 list \<Rightarrow> u8 list \<Rightarrow> memo \<Rightarrow> bool" where
  "table_ok pat cand m \<longleftrightarrow> (\<forall>i j r. m (i, j) = Some r \<longrightarrow> r = pattern_accepts (drop i pat) (drop j cand))"

definition answers :: "(memo \<Rightarrow> bool) \<Rightarrow> bool \<Rightarrow> bool \<Rightarrow> include_error + bool \<times> memo \<Rightarrow> bool" where
  "answers ok bad b r =
     (case r of Inl e \<Rightarrow> e = GlobIncompleteEscape \<and> bad | Inr (b', m) \<Rightarrow> b' = b \<and> ok m)"

lemma find_memo_answers:
  assumes "\<And>x m. x \<in> set xs \<Longrightarrow> ok m \<Longrightarrow> answers ok bad (P x) (g x m)" and "ok m"
  shows "answers ok bad (list_ex P xs) (find_memo g xs m)"
  using assms
proof (induction xs arbitrary: m)
  case (Cons x xs)
  have head: "answers ok bad (P x) (g x m)" using Cons.prems by simp
  have tail: "answers ok bad (list_ex P xs) (find_memo g xs n)" if "ok n" for n
    using Cons.IH [OF Cons.prems(1) that] by simp
  show ?case
  proof (cases "g x m")
    case (Inr rm)
    then obtain r n where "g x m = Inr (r, n)" by (cases rm) simp
    then show ?thesis using head tail [of n] by (cases "P x") (auto simp: answers_def)
  qed (use head in \<open>simp add: answers_def\<close>)
qed (simp add: answers_def)

lemma answers_memo:
  assumes "answers (table_ok pat cand) bad b r" and "b = pattern_accepts (drop pi pat) (drop ci cand)"
  shows "answers (table_ok pat cand) bad b (map_ok (\<lambda>(res, m). (res, m((pi, ci) \<mapsto> res))) r)"
  using assms by (cases r) (auto simp: answers_def table_ok_def split: if_splits)

lemma answers_guarded:
  assumes "ok m" and "b' \<longleftrightarrow> c \<and> b" and "c \<Longrightarrow> answers ok bad b r"
  shows "answers ok bad b' (guarded c m r)"
  using assms by (cases c) (auto simp: guarded_def answers_def)

lemma answers_bad: "answers ok bad b r \<Longrightarrow> (bad \<Longrightarrow> bad') \<Longrightarrow> answers ok bad' b r"
  by (auto simp: answers_def split: sum.splits)

lemma glob_inner_answers:
  "ci \<le> length cand \<Longrightarrow> table_ok pat cand m \<Longrightarrow>
     answers (table_ok pat cand) (glob_tokens (drop pi pat) = None)
       (pattern_accepts (drop pi pat) (drop ci cand)) (glob_inner pat cand pi ci m)"
proof (induction "length pat - pi" arbitrary: pi ci m rule: less_induct)
  case less
  let ?ok = "table_ok pat cand" and ?bad = "glob_tokens (drop pi pat) = None"
  let ?acc = "pattern_accepts (drop pi pat) (drop ci cand)"
  note ok = less.prems(2)
  show ?case
  proof (cases "m (pi, ci) \<noteq> None \<or> length pat \<le> pi")
    case True
    have "r = ?acc" if "m (pi, ci) = Some r" for r using ok that by (simp add: table_ok_def)
    with True show ?thesis
      using ok less.prems(1)
      by (subst glob_inner.simps) (cases "m (pi, ci)"; auto simp: answers_def)
  next
    case False
    then have miss: "m (pi, ci) = None" "pi < length pat" by auto
    have split: "drop pi pat = pat ! pi # drop (pi + 1) pat"
      using Cons_nth_drop_Suc [OF miss(2)] by simp
    have cand: "drop ci cand \<noteq> [] \<longleftrightarrow> ci < length cand" "ci < length cand \<Longrightarrow> hd (drop ci cand) = cand ! ci"
        "tl (drop ci cand) = drop (ci + 1) cand"
      by (auto simp: hd_drop_conv_nth tl_drop drop_Suc)
    have rec: "answers ?ok (glob_tokens (drop k pat) = None) (pattern_accepts (drop k pat) (drop c cand))
        (glob_inner pat cand k c n)" if "pi < k" "c \<le> length cand" "?ok n" for k c n
      using less.hyps [of k c n] that miss(2) by simp
    note unfold = glob_inner.simps [of pat cand pi ci m]
    consider (star) "pat ! pi = 42" | (any) "pat ! pi = 63" | (esc) "pat ! pi = 92"
      | (other) "pat ! pi \<notin> {42, 63, 92}" by blast
    then show ?thesis
    proof cases
      case star
      let ?nxt = "skip_stars pat (pi + 1)"
      have le: "pi < ?nxt" using skip_stars_ge [of "pi + 1" pat] by linarith
      have bad: "?bad \<longleftrightarrow> glob_tokens (drop ?nxt pat) = None"
        using tokens_skip_stars [of pat "pi + 1"] star by (subst split) simp
      note g = accepts_drop_star [OF miss(2) star less.prems(1), unfolded Let_def]
      have "answers ?ok ?bad ?acc (if length pat \<le> ?nxt then Inr (True, m)
          else find_memo (\<lambda>c m. glob_inner pat cand ?nxt c m) [ci..<length cand + 1] m)"
      proof (cases "length pat \<le> ?nxt")
        case True
        then show ?thesis using g ok by (simp add: answers_def)
      next
        case False
        have "answers ?ok ?bad (list_ex (\<lambda>c. pattern_accepts (drop ?nxt pat) (drop c cand)) [ci..<length cand + 1])
            (find_memo (\<lambda>c m. glob_inner pat cand ?nxt c m) [ci..<length cand + 1] m)"
          by (rule find_memo_answers [of _ ?ok, OF _ ok]) (use rec [OF le] bad in \<open>auto simp del: upt_Suc\<close>)
        with False g show ?thesis by simp
      qed
      from answers_memo [OF this refl] show ?thesis
        using miss star
        by (cases "length pat \<le> skip_stars pat (Suc pi)") (simp_all add: unfold Let_def del: upt_Suc)
    next
      case any
      have "?acc \<longleftrightarrow> ci < length cand \<and> pattern_accepts (drop (pi + 1) pat) (drop (ci + 1) cand)"
        using any cand by (subst split) (simp add: accepts_any)
      moreover have "answers ?ok ?bad (pattern_accepts (drop (pi + 1) pat) (drop (ci + 1) cand))
          (glob_inner pat cand (pi + 1) (ci + 1) m)" if "ci < length cand"
        by (rule answers_bad [OF rec [of "pi + 1" "ci + 1" m]]) (use that ok any in \<open>auto simp: split\<close>)
      ultimately have "answers ?ok ?bad ?acc (guarded (ci < length cand) m (glob_inner pat cand (pi + 1) (ci + 1) m))"
        by (rule answers_guarded [of ?ok, OF ok]) blast
      then show ?thesis using miss any by (simp add: unfold answers_memo)
    next
      case esc
      show ?thesis
      proof (cases "length pat \<le> pi + 1")
        case True
        then have "?bad" using esc by (subst split) simp
        then show ?thesis using True miss esc by (simp add: unfold answers_def)
      next
        case False
        have split2: "drop (pi + 1) pat = pat ! (pi + 1) # drop (pi + 2) pat"
          using Cons_nth_drop_Suc [of "pi + 1" pat] False by simp
        have "?acc \<longleftrightarrow> (ci < length cand \<and> cand ! ci = pat ! (pi + 1)) \<and>
            pattern_accepts (drop (pi + 2) pat) (drop (ci + 1) cand)"
          using esc cand by (subst split, subst split2) (auto simp: accepts_escape)
        moreover have "answers ?ok ?bad (pattern_accepts (drop (pi + 2) pat) (drop (ci + 1) cand))
            (glob_inner pat cand (pi + 2) (ci + 1) m)" if "ci < length cand"
          by (rule answers_bad [OF rec [of "pi + 2" "ci + 1" m]])
             (use that ok esc split2 in \<open>auto simp: split\<close>)
        ultimately have "answers ?ok ?bad ?acc (guarded (ci < length cand \<and> cand ! ci = pat ! (pi + 1)) m
            (glob_inner pat cand (pi + 2) (ci + 1) m))"
          by (rule answers_guarded [of ?ok, OF ok]) blast
        then show ?thesis using miss esc False by (simp add: unfold Let_def answers_memo)
      qed
    next
      case other
      have "?acc \<longleftrightarrow> (ci < length cand \<and> cand ! ci = pat ! pi) \<and>
          pattern_accepts (drop (pi + 1) pat) (drop (ci + 1) cand)"
        using other cand by (subst split) (auto simp: accepts_literal)
      moreover have "answers ?ok ?bad (pattern_accepts (drop (pi + 1) pat) (drop (ci + 1) cand))
          (glob_inner pat cand (pi + 1) (ci + 1) m)" if "ci < length cand"
        by (rule answers_bad [OF rec [of "pi + 1" "ci + 1" m]]) (use that ok other in \<open>auto simp: split\<close>)
      ultimately have "answers ?ok ?bad ?acc (guarded (ci < length cand \<and> cand ! ci = pat ! pi) m
          (glob_inner pat cand (pi + 1) (ci + 1) m))"
        by (rule answers_guarded [of ?ok, OF ok]) blast
      then show ?thesis using miss other by (simp add: unfold answers_memo)
    qed
  qed
qed

lemma glob_match_answers:
  "(case glob_match pat cand of
      Inl e \<Rightarrow> e = GlobIncompleteEscape \<and> glob_tokens pat = None
    | Inr b \<Rightarrow> b = pattern_accepts pat cand)"
  using glob_inner_answers [of 0 cand pat "\<lambda>_. None" 0]
  by (cases "glob_inner pat cand 0 0 (\<lambda>_. None)")
     (auto simp: glob_match_def answers_def table_ok_def)

subsection \<open>Expansion reads its input once\<close>

text \<open>
  The reference reading of an argument, one character after the other: a percent sign and its token,
  a variable, or a plain character. Substituted text is never looked at again.
\<close>

inductive reads :: "FsWorld \<Rightarrow> rstring \<Rightarrow> rstring \<Rightarrow> bool" for w where
  reads_end: "reads w [] []"
| reads_plain: "c \<noteq> 37 \<Longrightarrow> \<not> starts_with (lit ''${'') (c # s) \<Longrightarrow> reads w s v \<Longrightarrow> reads w (c # s) (c # v)"
| reads_percent: "reads w s v \<Longrightarrow> reads w (37 # 37 # s) (37 # v)"
| reads_full: "query_local_hostnames w = Inr (full, short) \<Longrightarrow> reads w s v \<Longrightarrow> reads w (37 # 108 # s) (full @ v)"
| reads_short: "query_local_hostnames w = Inr (full, short) \<Longrightarrow> reads w s v \<Longrightarrow> reads w (37 # 76 # s) (short @ v)"
| reads_var: "name \<noteq> [] \<Longrightarrow> 125 \<notin> set name \<Longrightarrow> fs_env w name = Some x \<Longrightarrow> reads w s v \<Longrightarrow>
    reads w (lit ''${'' @ name @ 125 # s) (x @ v)"

definition clear :: "rstring \<Rightarrow> rstring \<Rightarrow> bool" where
  "clear p t \<longleftrightarrow> (\<forall>a b. p = a @ b \<longrightarrow> b \<noteq> [] \<longrightarrow> \<not> starts_with (lit ''${'') (b @ t))"

lemma clear_suffix: "clear (a @ b) t \<Longrightarrow> clear b t"
  unfolding clear_def by (metis append_assoc)

lemma clear_prefix: "clear (a @ b) t \<Longrightarrow> clear a (b @ t)"
proof (unfold clear_def, intro allI impI)
  fix x y
  assume "\<forall>aa ba. a @ b = aa @ ba \<longrightarrow> ba \<noteq> [] \<longrightarrow> \<not> starts_with (lit ''${'') (ba @ t)" "a = x @ y" "y \<noteq> []"
  then have "\<not> starts_with (lit ''${'') ((y @ b) @ t)" by (metis append_assoc append_is_Nil_conv)
  then show "\<not> starts_with (lit ''${'') (y @ b @ t)" by simp
qed

lemma reads_plain_run:
  "37 \<notin> set p \<Longrightarrow> clear p t \<Longrightarrow> reads w t u \<Longrightarrow> reads w (p @ t) (p @ u)"
proof (induction p)
  case (Cons c p)
  have "clear p t" using Cons.prems(2) clear_suffix [of "[c]" p t] by simp
  moreover have "\<not> starts_with (lit ''${'') (c # p @ t)"
    using Cons.prems(2) unfolding clear_def by (metis append_Cons append_Nil list.distinct(1))
  ultimately show ?case using Cons by (auto intro: reads_plain)
qed simp

definition names_ok :: "FsWorld \<Rightarrow> local_names \<Rightarrow> bool" where
  "names_ok w names \<longleftrightarrow> (\<forall>n. names = Some n \<longrightarrow> query_local_hostnames w = Inr n)"

lemma cached_names_ok: "names_ok w names \<Longrightarrow> cached_names w names = Inr n \<Longrightarrow> query_local_hostnames w = Inr n"
  by (auto simp: names_ok_def cached_names_def split: option.splits)

lemma env_push_ok [result_simps]:
  "env_push_bounded out v m = Inr out' \<longleftrightarrow> out' = out @ v \<and> str_len out' \<le> m"
  by (auto simp: env_push_bounded_def)

lemma percent_token_reads:
  assumes "percent_token w token out m names = Inr (out', names')" and "names_ok w names"
  shows "\<exists>v. out' = out @ v \<and> names_ok w names' \<and> str_len out' \<le> m \<and>
    (\<forall>t u. reads w t u \<longrightarrow> reads w (37 # token # t) (v @ u))"
proof -
  consider (pct) "token = 37" | (name) "token = 108 \<or> token = 76"
    using assms(1) by (auto simp: percent_token_def split: if_splits)
  then show ?thesis
  proof cases
    case pct
    with assms show ?thesis
      by (intro exI [of _ "[37]"]) (auto simp: percent_token_def map_ok_eq_Inr env_push_ok intro: reads_percent)
  next
    case name
    then obtain full short where n: "cached_names w names = Inr (full, short)"
        "out' = out @ (if token = 108 then full else short)" "str_len out' \<le> m" "names' = Some (full, short)"
      using assms(1)
      by (auto simp: percent_token_def map_ok_eq_Inr env_push_ok and_then_eq_Inr split: if_splits)
    have q: "query_local_hostnames w = Inr (full, short)" by (rule cached_names_ok [OF assms(2) n(1)])
    then have "names_ok w names'" by (simp add: names_ok_def n(4))
    with name n q show ?thesis
      by (intro exI [of _ "if token = 108 then full else short"]) (auto intro: reads_full reads_short)
  qed
qed

lemma expand_percent_reads:
  "expand_percent_tokens w out rest m names = Inr (out', names') \<Longrightarrow> names_ok w names \<Longrightarrow>
     \<exists>v. out' = out @ v \<and> names_ok w names' \<and> str_len out' \<le> m \<and>
       (\<forall>t u. reads w t u \<longrightarrow> clear rest t \<longrightarrow> reads w (rest @ t) (v @ u))"
proof (induction w out rest m names arbitrary: out' names' rule: expand_percent_tokens.induct)
  case (1 w out rest m names)
  show ?case
  proof (cases "split_once 37 rest")
    case None
    then have "37 \<notin> set rest" by (simp add: split_once_None)
    moreover have "out' = out @ rest" "str_len out' \<le> m" "names' = names"
      using "1.prems"(1) None
      by (subst (asm) expand_percent_tokens.simps, auto simp: map_ok_eq_Inr env_push_ok)+
    ultimately show ?thesis
      using "1.prems"(2) by (intro exI [of _ rest]) (auto intro: reads_plain_run)
  next
    case (Some pr)
    then obtain p a where pa: "split_once 37 rest = Some (p, a)" by (cases pr) auto
    then obtain token rest' out1 out2 names1
      where push: "env_push_bounded out p m = Inr out1" and a: "a = token # rest'"
        and tok: "percent_token w token out1 m names = Inr (out2, names1)"
        and rec: "expand_percent_tokens w out2 rest' m names1 = Inr (out', names')"
      using "1.prems"(1) [unfolded expand_percent_tokens.simps [of w out rest m names]]
      by (cases a) (auto simp: and_then_eq_Inr)
    obtain v1 where v1: "out2 = out1 @ v1" "names_ok w names1"
        "\<And>t u. reads w t u \<Longrightarrow> reads w (37 # token # t) (v1 @ u)"
      using percent_token_reads [OF tok "1.prems"(2)] by blast
    obtain v2 where v2: "out' = out2 @ v2" "names_ok w names'" "str_len out' \<le> m"
        "\<And>t u. reads w t u \<Longrightarrow> clear rest' t \<Longrightarrow> reads w (rest' @ t) (v2 @ u)"
      using "1.IH" [OF pa refl push a tok refl rec v1(2)] by blast
    have rest: "rest = p @ 37 # token # rest'" "37 \<notin> set p" using pa a by (auto simp: split_once_Some)
    have "reads w (rest @ t) ((p @ v1 @ v2) @ u)" if "reads w t u" "clear rest t" for t u
    proof -
      have "clear rest' t" using clear_suffix [of "p @ [37, token]" rest' t] that(2) rest by simp
      then have "reads w (37 # token # rest' @ t) (v1 @ v2 @ u)" using v1(3) v2(4) that(1) by blast
      moreover have "clear p ((37 # token # rest') @ t)" using clear_prefix that(2) rest(1) by blast
      ultimately show ?thesis using reads_plain_run rest by fastforce
    qed
    moreover have "out' = out @ p @ v1 @ v2" using push v1(1) v2(1) by (simp add: env_push_ok)
    ultimately show ?thesis using v2 by (intro exI [of _ "p @ v1 @ v2"]) auto
  qed
qed

lemma find_variable_Some:
  "find_variable s = Some (a, b) \<Longrightarrow> s = a @ lit ''${'' @ b \<and> clear a (lit ''${'' @ b)"
proof (induction s arbitrary: a b)
  case (Cons c s)
  show ?case
  proof (cases "starts_with (lit ''${'') (c # s)")
    case True
    then have "a = []" "c # s = lit ''${'' @ b" using Cons.prems by (auto simp: starts_with_iff lit_simps)
    then show ?thesis by (simp add: clear_def)
  next
    case False
    then obtain a' where a': "find_variable s = Some (a', b)" "a = c # a'" using Cons.prems by auto
    note IH = Cons.IH [OF a'(1)]
    have "clear (c # a') (lit ''${'' @ b)"
      using IH False unfolding clear_def by (auto simp: Cons_eq_append_conv)
    with IH a' show ?thesis by simp
  qed
qed simp

lemma find_variable_None: "find_variable s = None \<Longrightarrow> clear s []"
proof (induction s)
  case (Cons c s)
  then show ?case by (auto simp: clear_def Cons_eq_append_conv split: if_splits)
qed (simp add: clear_def)

lemma expand_variables_reads:
  "expand_variables w out rest m names = Inr out' \<Longrightarrow> names_ok w names \<Longrightarrow>
     \<exists>v. out' = out @ v \<and> reads w rest v \<and> str_len out' \<le> m"
proof (induction w out rest m names arbitrary: out' rule: expand_variables.induct)
  case (1 w out rest m names)
  show ?case
  proof (cases "find_variable rest")
    case None
    then obtain names' where "expand_percent_tokens w out rest m names = Inr (out', names')"
      using "1.prems"(1) by (subst (asm) expand_variables.simps) (auto simp: map_ok_eq_Inr)
    from expand_percent_reads [OF this "1.prems"(2)] show ?thesis
      using find_variable_None [OF None] reads_end by (metis append_Nil2)
  next
    case (Some pr)
    then obtain p b where pb: "find_variable rest = Some (p, b)" by (cases pr) auto
    then obtain out1 names1 name rest' x out2
      where pct: "expand_percent_tokens w out p m names = Inr (out1, names1)"
        and sp: "split_once 125 b = Some (name, rest')" and ne: "name \<noteq> []"
        and env: "fs_env w name = Some x" and push: "env_push_bounded out1 x m = Inr out2"
        and rec: "expand_variables w out2 rest' m names1 = Inr out'"
      using "1.prems"(1) [unfolded expand_variables.simps [of w out rest m names]]
      by (auto simp: and_then_eq_Inr split: if_splits)
    obtain v1 where v1: "out1 = out @ v1" "names_ok w names1"
        "\<And>t u. reads w t u \<Longrightarrow> clear p t \<Longrightarrow> reads w (p @ t) (v1 @ u)"
      using expand_percent_reads [OF pct "1.prems"(2)] by blast
    have "ok_or UnterminatedVariable (split_once 125 b) = Inr (name, rest')" using sp by simp
    moreover have "ok_or (MissingVariable name) (fs_env w name) = Inr x" using env by simp
    ultimately obtain v2 where v2: "out' = out2 @ v2" "reads w rest' v2" "str_len out' \<le> m"
      using "1.IH" [OF pb refl pct refl _ refl ne _ push rec v1(2)] by blast
    have b: "b = name @ 125 # rest'" "125 \<notin> set name" using sp by (auto simp: split_once_Some)
    have "reads w (lit ''${'' @ b) (x @ v2)" using reads_var [OF ne b(2) env v2(2)] b(1) by simp
    then have "reads w rest (v1 @ x @ v2)" using v1(3) find_variable_Some [OF pb] by simp
    then show ?thesis using v1(1) v2 push by (intro exI [of _ "v1 @ x @ v2"]) (simp add: env_push_ok)
  qed
qed

subsection \<open>Path patterns\<close>

lemma dedup_by_set: "set (dedup_by f xs) \<subseteq> set xs"
  by (induction f xs rule: dedup_by.induct) auto

lemma dedup_by_length: "length (dedup_by f xs) \<le> length xs"
  by (induction f xs rule: dedup_by.induct) auto

lemma dedup_by_hd: "xs \<noteq> [] \<Longrightarrow> dedup_by f xs \<noteq> [] \<and> hd (dedup_by f xs) = hd xs"
  by (induction f xs rule: dedup_by.induct) auto

lemma dedup_by_strict:
  fixes f :: "'a \<Rightarrow> 'k::linorder"
  shows "sorted (map f xs) \<Longrightarrow> sorted_wrt (<) (map f (dedup_by f xs))"
proof (induction f xs rule: dedup_by.induct)
  case (3 f x y zs)
  show ?case
  proof (cases "f x = f y")
    case True
    then show ?thesis using "3.IH"(1) "3.prems" by simp
  next
    case False
    have "\<forall>z \<in> set (dedup_by f (y # zs)). f x < f z"
      using "3.prems" False dedup_by_set [of f "y # zs"] by force
    with False "3.IH"(2) "3.prems" show ?thesis by simp
  qed
qed auto

lemma sort_dedup_facts:
  "sorted_wrt (<) (map path_key (sort_dedup ps))" "set (sort_dedup ps) \<subseteq> set ps"
  "length (sort_dedup ps) \<le> length ps"
  unfolding sort_dedup_def
  using dedup_by_strict [of path_key "sort_key path_key ps"] dedup_by_set [of path_key "sort_key path_key ps"]
    dedup_by_length [of path_key "sort_key path_key ps"] by simp_all

lemma glob_entries_bound:
  "glob_entries seg hid cand es found = Inr out \<Longrightarrow> length found \<le> MAX_INCLUDE_FILES \<Longrightarrow>
     length out \<le> MAX_INCLUDE_FILES"
proof (induction es arbitrary: found)
  case (Cons e es)
  then show ?case by (auto simp: and_then_eq_Inr Let_def split: if_splits option.splits)
qed simp

lemma glob_directories_bound:
  "glob_directories w seg hid cs found = Inr out \<Longrightarrow> length found \<le> MAX_INCLUDE_FILES \<Longrightarrow>
     length out \<le> MAX_INCLUDE_FILES"
proof (induction cs arbitrary: found)
  case (Cons c cs)
  then show ?case
    by (auto simp: and_then_eq_Inr split: io_result.splits dest: glob_entries_bound)
qed simp

lemma expand_component_bound:
  assumes "expand_component w c cands = Inr out" and "length cands \<le> MAX_INCLUDE_FILES"
  shows "length out \<le> MAX_INCLUDE_FILES"
proof (cases "\<exists>seg. c = Normal seg \<and> contains_glob_meta seg")
  case True
  then obtain seg found where "glob_directories w seg (pattern_explicitly_starts_with_period seg) cands [] = Inr found"
      "out = sort_dedup found"
    using assms(1) by (auto simp: expand_component_def and_then_eq_Inr map_ok_eq_Inr)
  then show ?thesis
    using glob_directories_bound sort_dedup_facts(3) [of found] le_trans by fastforce
next
  case False
  then have "length out = length cands" using assms(1) by (auto simp: expand_component_def split: Component.splits)
  then show ?thesis using assms(2) by simp
qed

lemma expand_components_bound:
  "expand_components w cs cands = Inr out \<Longrightarrow> length cands \<le> MAX_INCLUDE_FILES \<Longrightarrow>
     length out \<le> MAX_INCLUDE_FILES"
  by (induction cs arbitrary: cands) (auto simp: and_then_eq_Inr dest: expand_component_bound)

lemma existing_files_ok:
  "existing_files w cs = Inr fs \<Longrightarrow> (\<forall>f \<in> set fs. fs_metadata w f = IoOk True) \<and> length fs \<le> length cs"
proof (induction cs arbitrary: fs)
  case (Cons c cs)
  consider "fs_metadata w c = IoOk True" | "fs_metadata w c = IoNotFound"
    using Cons.prems by (cases "fs_metadata w c") (auto split: bool.splits)
  then show ?case
  proof cases
    case 1
    then obtain gs where "existing_files w cs = Inr gs" "fs = c # gs" using Cons.prems by (auto simp: map_ok_eq_Inr)
    then show ?thesis using Cons.IH 1 by auto
  next
    case 2
    then show ?thesis using Cons.IH [of fs] Cons.prems by simp
  qed
qed simp

lemma expand_path_pattern_ok:
  assumes "expand_path_pattern w pat = Inr files"
  shows "(\<forall>f \<in> set files. fs_metadata w f = IoOk True) \<and> sorted_wrt (<) (map path_key files) \<and>
    length files \<le> MAX_INCLUDE_FILES"
proof -
  obtain cands fs where c: "expand_components w (components pat) [[]] = Inr cands"
      "existing_files w cands = Inr fs" "files = sort_dedup fs"
    using assms by (auto simp: expand_path_pattern_def and_then_eq_Inr map_ok_eq_Inr)
  have "length cands \<le> MAX_INCLUDE_FILES"
    by (rule expand_components_bound [OF c(1)]) (simp add: MAX_INCLUDE_FILES_def)
  with existing_files_ok [OF c(2)] sort_dedup_facts [of fs] c(3) show ?thesis by fastforce
qed

subsection \<open>Properties of Include arguments\<close>

text \<open>
  C30. The glob matcher with its memo table and escapes accepts a name exactly when the pattern, read once
  into stars, question marks and literal bytes, matches it; the only error is a dangling escape.
\<close>

theorem include_glob_correct:
  "(glob_match pat cand = Inr True \<longleftrightarrow> pattern_accepts pat cand) \<and>
   (is_ok (glob_match pat cand) \<or> (glob_match pat cand = Inl GlobIncompleteEscape \<and> glob_tokens pat = None))"
proof (cases "glob_match pat cand")
  case (Inl e)
  then show ?thesis using glob_match_answers [of pat cand] by (simp add: pattern_accepts_def)
next
  case (Inr b)
  then show ?thesis using glob_match_answers [of pat cand] by simp
qed

definition sample_fs :: FsWorld where
  "sample_fs =
     \<lparr>fs_canonicalize = Some, fs_metadata = (\<lambda>_. IoNotFound), fs_read_dir = (\<lambda>_. IoNotFound),
      fs_open = (\<lambda>_. None), fs_env = (\<lambda>n. if n = lit ''X'' then Some (lit ''%l${Y}'') else None),
      fs_hostname = Some (as_bytes (lit ''box.lan'') @ [0]), fs_uid = 1000,
      fs_probe_port = (\<lambda>_ _. Some 65535)\<rparr>"

text \<open>
  Expansion is a single pass: the result is the argument read once from left to right with each
  percent token and each variable replaced, the replacements are not scanned again, and the result
  fits the limit.
\<close>

theorem include_expansion_single_pass:
  assumes "expand_include_environment w v limit = Inr out"
  shows "reads w v out \<and> str_len out \<le> limit"
  using expand_variables_reads [OF assms [unfolded expand_include_environment_def]]
  by (simp add: names_ok_def)

theorem include_expansion_single_pass_witness:
  "reads sample_fs (lit ''%L/${X}.d'') (lit ''box/%l${Y}.d'')"
proof -
  have "expand_include_environment sample_fs (lit ''%L/${X}.d'') 100 = Inr (lit ''box/%l${Y}.d'')"
    by code_simp
  then show ?thesis using include_expansion_single_pass by blast
qed

text \<open>
  The files of a pattern: every path returned names an existing regular file, they come in strictly
  increasing path order (so none twice), and there are at most \<open>MAX_INCLUDE_FILES\<close> of them.
\<close>

theorem include_pattern_files:
  assumes "expand_path_pattern w pat = Inr files"
  shows "list_all (\<lambda>f. fs_metadata w f = IoOk True) files \<and> sorted_wrt (<) (map path_key files) \<and>
    length files \<le> MAX_INCLUDE_FILES"
  using expand_path_pattern_ok [OF assms] by (simp add: list_all_iff)

theorem include_pattern_files_witness:
  "length [lit ''/c/a.conf'', lit ''/c/b.conf''] \<le> MAX_INCLUDE_FILES"
proof -
  let ?w = "sample_fs\<lparr>fs_metadata := (\<lambda>_. IoOk True),
    fs_read_dir := (\<lambda>_. IoOk (map EntryName [lit ''b.conf'', lit ''.h.conf'', lit ''x'', lit ''a.conf'']))\<rparr>"
  have "expand_path_pattern ?w (lit ''/c/*.conf'') = Inr [lit ''/c/a.conf'', lit ''/c/b.conf'']"
    by code_simp
  then show ?thesis using include_pattern_files by blast
qed

text \<open>
  An escaped backslash stays doubled: the argument parser turns it into an escape for the glob
  matcher, but a path component without \<open>*\<close> or \<open>?\<close> never reaches the matcher, so a file whose name
  holds one backslash is looked up under a name with two.
\<close>

lemma escaped_backslash_doubled:
  "include_arguments (lit ''Include a'' @ [92, 92] @ lit ''b'') = Inr (Some [lit ''a'' @ [92, 92] @ lit ''b''])"
  "expand_component w (Normal (lit ''a'' @ [92, 92] @ lit ''b'')) [lit ''/d''] =
     Inr [lit ''/d/a'' @ [92, 92] @ lit ''b'']"
proof -
  show "include_arguments (lit ''Include a'' @ [92, 92] @ lit ''b'') = Inr (Some [lit ''a'' @ [92, 92] @ lit ''b''])"
    by code_simp
  have "\<not> contains_glob_meta (lit ''a'' @ [92, 92] @ lit ''b'')"
    "path_push (lit ''/d'') (lit ''a'' @ [92, 92] @ lit ''b'') = lit ''/d/a'' @ [92, 92] @ lit ''b''"
    by code_simp+
  then show "expand_component w (Normal (lit ''a'' @ [92, 92] @ lit ''b'')) [lit ''/d''] =
     Inr [lit ''/d/a'' @ [92, 92] @ lit ''b'']"
    by (simp add: expand_component_def)
qed

text \<open>
  A home-relative path that goes on with a slash leaves the home directory: joining an absolute path
  replaces the base.
\<close>

lemma tilde_slash_slash_absolute: "anchor_path home (lit ''~//etc/extra'') = Inr (lit ''/etc/extra'')"
  by (simp add: anchor_path_def strip_prefix_def path_push_def lit_simps)

end
