(* ===== verification/Openssh_Include.thy ===== *)
theory Openssh_Include
  imports Include_Paths Connection_Config
begin

section \<open>The Include expander\<close>

text \<open>
  Model of the stateful half of \<open>openssh_include.rs\<close> and of \<open>openssh_config_trust.rs\<close> (Unix): which
  files may be read, and the two expanders. \<open>expand_user_config\<close> flattens what is active for one host
  into a single \<open>Host *\<close> stream; \<open>expand_user_config_for_catalog\<close> keeps every line and only replaces
  \<open>Include\<close>. The mutable \<open>ExpansionState\<close> is passed along; it dies with the first error, so errors
  carry none. The evaluation of one \<open>Host\<close> line is a question to the third-party parser, the
  parameter \<open>fs_probe_port\<close> (the port \<open>russh_config::parse\<close> finds in a probe text for a host).
\<close>

definition MAX_CONFIG_FILE_BYTES :: nat where "MAX_CONFIG_FILE_BYTES = 4 * 1024 * 1024"
definition ACTIVE_PROBE_PORT :: u16 where "ACTIVE_PROBE_PORT = 65534"
definition FALLBACK_PROBE_PORT :: u16 where "FALLBACK_PROBE_PORT = 65535"

subsection \<open>Trusted reading\<close>

unbundle bit_operations_syntax

definition verify_platform_trust :: "FsWorld \<Rightarrow> rstring \<Rightarrow> open_file \<Rightarrow> include_error + unit" where
  "verify_platform_trust w path f =
     (if owner f \<noteq> fs_uid w \<and> owner f \<noteq> 0 then Inl (BadOwner path)
      else
        let mode = mode_bits f AND 0xFFF in
        if mode AND 0x12 \<noteq> 0 then Inl (BadMode path) else Inr ())"

definition read_user_config_file :: "FsWorld \<Rightarrow> rstring \<Rightarrow> include_error + rstring" where
  "read_user_config_file w path =
     (case fs_open w path of
        None \<Rightarrow> Inl (OpenFailed path)
      | Some f \<Rightarrow>
          if \<not> is_file f then Inl (NotRegular path)
          else
            and_then (verify_platform_trust w path f) (\<lambda>_.
            and_then (ok_or (ReadFailed path) (from_utf8 (take (MAX_CONFIG_FILE_BYTES + 1) (bytes f))))
              (\<lambda>contents.
                if MAX_CONFIG_FILE_BYTES < str_len contents then Inl (FileTooLarge path)
                else Inr contents)))"

subsection \<open>State and limits\<close>

record ExpansionState =
  files_seen :: nat
  bytes_read :: nat
  active_paths :: "rstring set"

definition expansion_new :: ExpansionState where
  "expansion_new = \<lparr>files_seen = 0, bytes_read = 0, active_paths = {}\<rparr>"

definition enter_file ::
  "FsWorld \<Rightarrow> rstring \<Rightarrow> nat \<Rightarrow> ExpansionState \<Rightarrow> include_error + rstring \<times> ExpansionState" where
  "enter_file w path depth st =
     (if MAX_INCLUDE_DEPTH < depth then Inl NestingTooDeep
      else if MAX_INCLUDE_FILES \<le> files_seen st then Inl TooManyFiles
      else case fs_canonicalize w path of
        None \<Rightarrow> Inl (ResolveFailed path)
      | Some identity \<Rightarrow>
          if identity \<in> active_paths st then Inl (IncludeCycle path)
          else Inr (identity, st\<lparr>active_paths := insert identity (active_paths st),
                                 files_seen := files_seen st + 1\<rparr>))"

definition leave_file :: "rstring \<Rightarrow> ExpansionState \<Rightarrow> ExpansionState" where
  "leave_file identity st = st\<lparr>active_paths := active_paths st - {identity}\<rparr>"

definition account_input_bytes :: "nat \<Rightarrow> ExpansionState \<Rightarrow> include_error + ExpansionState" where
  "account_input_bytes additional st =
     (if MAX_CONFIG_BYTES < bytes_read st + additional then Inl InputTooLarge
      else Inr (st\<lparr>bytes_read := bytes_read st + additional\<rparr>))"

definition read_config ::
  "FsWorld \<Rightarrow> rstring \<Rightarrow> ExpansionState \<Rightarrow> include_error + rstring \<times> ExpansionState" where
  "read_config w path st =
     and_then (read_user_config_file w path) (\<lambda>contents.
       map_ok (Pair contents) (account_input_bytes (str_len contents) st))"

definition push_bounded :: "rstring \<Rightarrow> rstring \<Rightarrow> include_error + rstring" where
  "push_bounded out t = (if MAX_CONFIG_BYTES < str_len out + str_len t then Inl OutputTooLarge else Inr (out @ t))"

definition push_include_line :: "rstring \<Rightarrow> rstring \<Rightarrow> include_error + rstring" where
  "push_include_line out line = and_then (push_bounded out line) (\<lambda>out'. push_bounded out' [10])"

subsection \<open>Scopes\<close>

definition probe_text :: "rstring \<Rightarrow> rstring" where
  "probe_text line = line @ [10] @ lit ''  Port '' @ dec (unat ACTIVE_PROBE_PORT) @ [10] @ lit ''Host *'' @ [10]
     @ lit ''  Port '' @ dec (unat FALLBACK_PROBE_PORT) @ [10]"

definition host_directive_matches :: "FsWorld \<Rightarrow> nat \<Rightarrow> rstring \<Rightarrow> rstring \<Rightarrow> include_error + bool" where
  "host_directive_matches w index line host =
     map_ok (\<lambda>port. port = ACTIVE_PROBE_PORT) (ok_or (HostInvalid (index + 1)) (fs_probe_port w (probe_text line) host))"

definition supported_match_directive_matches ::
  "FsWorld \<Rightarrow> nat \<Rightarrow> rstring \<Rightarrow> rstring \<Rightarrow> include_error + bool" where
  "supported_match_directive_matches w index line host =
     and_then (map_err (MatchInvalid (index + 1)) (rewrite_supported_match_config (probe_text line) host)) (\<lambda>rewritten.
       map_ok (\<lambda>port. port = ACTIVE_PROBE_PORT) (ok_or (HostInvalid (index + 1)) (fs_probe_port w rewritten host)))"

definition validate_inactive_option :: "FsWorld \<Rightarrow> nat \<Rightarrow> rstring \<Rightarrow> rstring \<Rightarrow> include_error + unit" where
  "validate_inactive_option w index line host =
     (case directive_key line of
        None \<Rightarrow> Inr ()
      | Some key \<Rightarrow>
          let v = trim (trim_start_matches directive_sep (drop (length key) (trim_start line)));
              valid = (case parse_u16 v of None \<Rightarrow> False | Some port \<Rightarrow> 0 < port) in
          if eq_ignore_ascii_case key (lit ''port'') \<and> \<not> valid then Inl (OptionInvalid (index + 1))
          else map_ok (\<lambda>_. ())
            (ok_or (OptionInvalid (index + 1)) (fs_probe_port w (lit ''Host *'' @ [10] @ line @ [10]) host)))"

definition key_is :: "string \<Rightarrow> rstring \<Rightarrow> bool" where
  "key_is name line = (case directive_key line of None \<Rightarrow> False
     | Some key \<Rightarrow> eq_ignore_ascii_case key (lit name))"

subsection \<open>The expanders\<close>

fun try_fold :: "('a \<Rightarrow> 's \<Rightarrow> 'e + 's) \<Rightarrow> 'a list \<Rightarrow> 's \<Rightarrow> 'e + 's" where
  "try_fold f [] s = Inr s"
| "try_fold f (x # xs) s = and_then (f x s) (try_fold f xs)"

text \<open>
  The two loops of an \<open>Include\<close> line, over its arguments and over the files of each; \<open>child\<close> is the
  recursive call, \<open>newline\<close> the condition under which a line end is added.
\<close>

definition splice_file ::
  "(rstring \<Rightarrow> ExpansionState \<Rightarrow> include_error + rstring \<times> ExpansionState) \<Rightarrow> (rstring \<Rightarrow> bool) \<Rightarrow>
   nat \<Rightarrow> rstring \<Rightarrow> rstring \<times> ExpansionState \<Rightarrow> include_error + rstring \<times> ExpansionState" where
  "splice_file child newline index file s =
     (case s of (out, st) \<Rightarrow>
       and_then (map_err (WhileExpanding (index + 1)) (child file st)) (\<lambda>(included, st').
       and_then (push_bounded out included) (\<lambda>out'.
         if newline included then map_ok (\<lambda>out''. (out'', st')) (push_bounded out' [10])
         else Inr (out', st'))))"

definition splice_argument ::
  "FsWorld \<Rightarrow> rstring \<Rightarrow> (rstring \<Rightarrow> ExpansionState \<Rightarrow> include_error + rstring \<times> ExpansionState) \<Rightarrow>
   (rstring \<Rightarrow> bool) \<Rightarrow> nat \<Rightarrow> rstring \<Rightarrow> rstring \<times> ExpansionState \<Rightarrow> include_error + rstring \<times> ExpansionState" where
  "splice_argument w home child newline index argument s =
     and_then (anchor_user_include w home argument) (\<lambda>pat.
     and_then (expand_path_pattern w pat) (\<lambda>files.
       try_fold (splice_file child newline index) files s))"

definition splice_arguments ::
  "FsWorld \<Rightarrow> rstring \<Rightarrow> (rstring \<Rightarrow> ExpansionState \<Rightarrow> include_error + rstring \<times> ExpansionState) \<Rightarrow>
   (rstring \<Rightarrow> bool) \<Rightarrow> nat \<Rightarrow> rstring list \<Rightarrow> rstring \<times> ExpansionState \<Rightarrow> include_error + rstring \<times> ExpansionState" where
  "splice_arguments w home child newline index arguments s =
     and_then (validate_include_arguments index arguments) (\<lambda>_.
       try_fold (splice_argument w home child newline index) arguments s)"

type_synonym child_call =
  "rstring \<Rightarrow> bool \<Rightarrow> bool \<Rightarrow> ExpansionState \<Rightarrow> include_error + rstring \<times> ExpansionState"

text \<open>One line of \<open>expand_connection_file_inner\<close>; the scope \<open>active\<close> is local to the file.\<close>

definition connection_line ::
  "FsWorld \<Rightarrow> rstring \<Rightarrow> rstring \<Rightarrow> child_call \<Rightarrow> bool \<Rightarrow> nat \<times> rstring \<Rightarrow>
   bool \<times> rstring \<times> ExpansionState \<Rightarrow> include_error + bool \<times> rstring \<times> ExpansionState" where
  "connection_line w home host child never_match il s =
     (case (il, s) of ((index, line), (active, out, st)) \<Rightarrow>
       if key_is ''host'' line then
         map_ok (\<lambda>matched. (\<not> never_match \<and> matched, out, st)) (host_directive_matches w index line host)
       else if key_is ''match'' line then
         map_ok (\<lambda>matched. (\<not> never_match \<and> matched, out, st))
           (supported_match_directive_matches w index line host)
       else
         and_then (map_err (IncludeInvalid (index + 1)) (include_arguments line)) (\<lambda>arguments.
           case arguments of
             None \<Rightarrow>
               if active then map_ok (\<lambda>out'. (active, out', st)) (push_include_line out line)
               else map_ok (\<lambda>_. (active, out, st)) (validate_inactive_option w index line host)
           | Some args \<Rightarrow>
               map_ok (Pair active)
                 (splice_arguments w home (\<lambda>file. child file active (never_match \<or> \<not> active))
                    (\<lambda>included. included \<noteq> [] \<and> \<not> ends_with [10] included) index args (out, st))))"

definition expand_connection_file_inner ::
  "FsWorld \<Rightarrow> rstring \<Rightarrow> rstring \<Rightarrow> child_call \<Rightarrow> rstring \<Rightarrow> bool \<Rightarrow> bool \<Rightarrow>
   ExpansionState \<Rightarrow> include_error + rstring \<times> ExpansionState" where
  "expand_connection_file_inner w home host child path inherited_active never_match st =
     and_then (read_config w path st) (\<lambda>(contents, st').
       map_ok snd
         (try_fold (connection_line w home host child never_match) (enumerate 0 (lines_of contents))
            (inherited_active \<and> \<not> never_match, [], st')))"

lemma enter_file_depth: "enter_file w path depth st = Inr r \<Longrightarrow> depth \<le> MAX_INCLUDE_DEPTH"
  by (auto simp: enter_file_def split: if_splits)

function expand_connection_file ::
  "FsWorld \<Rightarrow> rstring \<Rightarrow> rstring \<Rightarrow> nat \<Rightarrow> rstring \<Rightarrow> bool \<Rightarrow> bool \<Rightarrow> ExpansionState \<Rightarrow>
   include_error + rstring \<times> ExpansionState" where
  "expand_connection_file w home host depth path inherited_active never_match st =
     and_then (enter_file w path depth st) (\<lambda>(identity, st').
       map_ok (\<lambda>(out, st''). (out, leave_file identity st''))
         (expand_connection_file_inner w home host (expand_connection_file w home host (depth + 1))
            path inherited_active never_match st'))"
  by pat_completeness auto
termination
  by (relation "measure (\<lambda>(w, home, host, depth, r). Suc MAX_INCLUDE_DEPTH - depth)")
     (auto dest: enter_file_depth)

declare expand_connection_file.simps [simp del]

definition expand_user_config_fs :: "FsWorld \<Rightarrow> rstring \<Rightarrow> rstring \<Rightarrow> rstring \<Rightarrow> include_error + rstring" where
  "expand_user_config_fs w root home host =
     and_then (expand_connection_file w home host 0 root True False expansion_new) (\<lambda>(contents, _).
       push_bounded (lit ''Host *'' @ [10]) contents)"

definition catalog_line ::
  "FsWorld \<Rightarrow> rstring \<Rightarrow> (rstring \<Rightarrow> ExpansionState \<Rightarrow> include_error + rstring \<times> ExpansionState) \<Rightarrow>
   nat \<times> rstring \<Rightarrow> rstring \<times> ExpansionState \<Rightarrow> include_error + rstring \<times> ExpansionState" where
  "catalog_line w home child il s =
     (case (il, s) of ((index, line), (out, st)) \<Rightarrow>
       and_then (map_err (IncludeInvalid (index + 1)) (include_arguments line)) (\<lambda>arguments.
         case arguments of
           None \<Rightarrow> map_ok (\<lambda>out'. (out', st)) (push_include_line out line)
         | Some args \<Rightarrow>
             splice_arguments w home child (\<lambda>included. \<not> ends_with [10] included) index args (out, st)))"

definition expand_catalog_file_inner ::
  "FsWorld \<Rightarrow> rstring \<Rightarrow> (rstring \<Rightarrow> ExpansionState \<Rightarrow> include_error + rstring \<times> ExpansionState) \<Rightarrow>
   rstring \<Rightarrow> ExpansionState \<Rightarrow> include_error + rstring \<times> ExpansionState" where
  "expand_catalog_file_inner w home child path st =
     and_then (read_config w path st) (\<lambda>(contents, st').
       try_fold (catalog_line w home child) (enumerate 0 (lines_of contents)) ([], st'))"

function expand_catalog_file ::
  "FsWorld \<Rightarrow> rstring \<Rightarrow> nat \<Rightarrow> rstring \<Rightarrow> ExpansionState \<Rightarrow> include_error + rstring \<times> ExpansionState" where
  "expand_catalog_file w home depth path st =
     and_then (enter_file w path depth st) (\<lambda>(identity, st').
       map_ok (\<lambda>(out, st''). (out, leave_file identity st''))
         (expand_catalog_file_inner w home (expand_catalog_file w home (depth + 1)) path st'))"
  by pat_completeness auto
termination
  by (relation "measure (\<lambda>(w, home, depth, r). Suc MAX_INCLUDE_DEPTH - depth)")
     (auto dest: enter_file_depth)

declare expand_catalog_file.simps [simp del]

definition expand_user_config_for_catalog :: "FsWorld \<Rightarrow> rstring \<Rightarrow> rstring \<Rightarrow> include_error + rstring" where
  "expand_user_config_for_catalog w root home =
     map_ok fst (expand_catalog_file w home 0 root expansion_new)"

subsection \<open>The reference flattening\<close>

text \<open>
  What a configuration means for one host, without limits, state or error checks: the lines of a
  file that stand in a matching scope, with each \<open>Include\<close> of a matching scope replaced by the lines
  of its files. An \<open>Include\<close> in a scope that does not match is not followed at all. The first
  argument bounds the nesting.
\<close>

definition files_of :: "FsWorld \<Rightarrow> rstring \<Rightarrow> rstring \<Rightarrow> rstring list" where
  "files_of w home argument =
     (case and_then (anchor_user_include w home argument) (expand_path_pattern w) of
        Inl _ \<Rightarrow> [] | Inr files \<Rightarrow> files)"

definition included_files :: "FsWorld \<Rightarrow> rstring \<Rightarrow> rstring \<Rightarrow> rstring list" where
  "included_files w home line =
     (case include_arguments line of
        Inr (Some arguments) \<Rightarrow> concat (map (files_of w home) arguments)
      | _ \<Rightarrow> [])"

definition opens_scope :: "rstring \<Rightarrow> bool" where
  "opens_scope line \<longleftrightarrow> key_is ''host'' line \<or> key_is ''match'' line"

definition scope_matches :: "FsWorld \<Rightarrow> rstring \<Rightarrow> rstring \<Rightarrow> bool" where
  "scope_matches w host line =
     (let probe = (if key_is ''host'' line then Inr (probe_text line)
                   else rewrite_supported_match_config (probe_text line) host) in
      case probe of
        Inl _ \<Rightarrow> False
      | Inr t \<Rightarrow> fs_probe_port w t host = Some ACTIVE_PROBE_PORT)"

fun scoped_lines ::
  "FsWorld \<Rightarrow> rstring \<Rightarrow> rstring \<Rightarrow> (rstring \<Rightarrow> rstring list) \<Rightarrow> bool \<Rightarrow> rstring list \<Rightarrow> rstring list" where
  "scoped_lines w home host sub active [] = []"
| "scoped_lines w home host sub active (l # ls) =
     (if opens_scope l then scoped_lines w home host sub (scope_matches w host l) ls
      else (if \<not> active then []
            else if key_is ''include'' l then concat (map sub (included_files w home l))
            else [l]) @ scoped_lines w home host sub active ls)"

definition file_lines :: "FsWorld \<Rightarrow> rstring \<Rightarrow> rstring list" where
  "file_lines w p = (case read_user_config_file w p of Inl _ \<Rightarrow> [] | Inr c \<Rightarrow> lines_of c)"

primrec flattened :: "nat \<Rightarrow> FsWorld \<Rightarrow> rstring \<Rightarrow> rstring \<Rightarrow> rstring \<Rightarrow> rstring list" where
  "flattened 0 w home host p = []"
| "flattened (Suc n) w home host p =
     scoped_lines w home host (flattened n w home host) True (file_lines w p)"

definition pad :: "bool \<Rightarrow> rstring list \<Rightarrow> rstring list" where
  "pad b ls = (if b \<and> ls = [] then [[]] else ls)"

primrec catalogued :: "nat \<Rightarrow> FsWorld \<Rightarrow> rstring \<Rightarrow> rstring \<Rightarrow> rstring list" where
  "catalogued 0 w home p = []"
| "catalogued (Suc n) w home p =
     concat (map (\<lambda>l. if key_is ''include'' l
                      then concat (map (\<lambda>f. pad True (catalogued n w home f)) (included_files w home l))
                      else [l]) (file_lines w p))"

subsection \<open>Frames\<close>

definition frame :: "ExpansionState \<Rightarrow> ExpansionState \<Rightarrow> bool" where
  "frame st st' \<longleftrightarrow> active_paths st' = active_paths st \<and>
     files_seen st \<le> files_seen st' \<and> (files_seen st \<le> MAX_INCLUDE_FILES \<longrightarrow> files_seen st' \<le> MAX_INCLUDE_FILES) \<and>
     bytes_read st \<le> bytes_read st' \<and> (bytes_read st \<le> MAX_CONFIG_BYTES \<longrightarrow> bytes_read st' \<le> MAX_CONFIG_BYTES)"

lemma frame_refl [simp]: "frame st st"
  by (simp add: frame_def)

lemma frame_trans: "frame a b \<Longrightarrow> frame b c \<Longrightarrow> frame a c"
  by (auto simp: frame_def)

lemma read_config_frame: "read_config w p st = Inr (c, st') \<Longrightarrow> frame st st' \<and> read_user_config_file w p = Inr c"
  by (auto simp: read_config_def account_input_bytes_def frame_def and_then_eq_Inr map_ok_eq_Inr split: if_splits)

lemma enter_leave_frame:
  assumes "enter_file w p depth st = Inr (identity, st1)" and "frame st1 st2"
  shows "frame st (leave_file identity st2)"
proof -
  have "st1 = st\<lparr>active_paths := insert identity (active_paths st), files_seen := files_seen st + 1\<rparr>"
    and "identity \<notin> active_paths st" and "files_seen st < MAX_INCLUDE_FILES"
    using assms(1) by (simp_all add: enter_file_def split: if_splits option.splits)
  with assms(2) show ?thesis by (simp add: leave_file_def frame_def)
qed

lemma push_bounded_ok [result_simps]:
  "push_bounded out t = Inr out' \<longleftrightarrow> out' = out @ t \<and> str_len out' \<le> MAX_CONFIG_BYTES"
  by (auto simp: push_bounded_def)

lemma push_include_line_ok:
  "push_include_line out l = Inr out' \<Longrightarrow> out' = out @ unlines [l]"
  by (auto simp: push_include_line_def and_then_eq_Inr push_bounded_ok)

lemma unlines_ends: "ends_with [10] (unlines ls) \<longleftrightarrow> ls \<noteq> []"
proof (cases ls rule: rev_cases)
  case Nil
  then show ?thesis by (simp add: ends_with_iff)
next
  case (snoc ys y)
  then have "unlines ls = (unlines ys @ y) @ [10]" by simp
  then show ?thesis using snoc unfolding ends_with_iff by blast
qed

lemma unlines_Nil [simp]: "unlines ls = [] \<longleftrightarrow> ls = []"
  by (cases ls) auto

subsection \<open>Splicing included files\<close>

definition call_ok ::
  "(rstring \<Rightarrow> ExpansionState \<Rightarrow> include_error + rstring \<times> ExpansionState) \<Rightarrow> (rstring \<Rightarrow> rstring list) \<Rightarrow> bool" where
  "call_ok call sub \<longleftrightarrow> (\<forall>file st out st'. call file st = Inr (out, st') \<longrightarrow> out = unlines (sub file) \<and> frame st st')"

definition newline_pads :: "(rstring \<Rightarrow> bool) \<Rightarrow> bool \<Rightarrow> bool" where
  "newline_pads newline b \<longleftrightarrow> (\<forall>ls. newline (unlines ls) \<longleftrightarrow> b \<and> ls = [])"

lemma splice_file_ok:
  assumes "call_ok child sub" and "newline_pads newline b"
    and "splice_file child newline index file (out, st) = Inr (out', st')"
  shows "out' = out @ unlines (pad b (sub file)) \<and> frame st st'"
proof -
  obtain inc where inc: "child file st = Inr (inc, st')"
      "out' = out @ inc @ (if newline inc then [10] else [])"
    using assms(3) by (auto simp: splice_file_def and_then_eq_Inr map_ok_eq_Inr push_bounded_ok split: if_splits)
  have "inc = unlines (sub file)" "frame st st'" using assms(1) inc(1) unfolding call_ok_def by blast+
  moreover have "newline (unlines (sub file)) \<longleftrightarrow> b \<and> sub file = []"
    using assms(2) unfolding newline_pads_def by blast
  ultimately show ?thesis using inc(2) by (auto simp: pad_def)
qed

lemma splice_files_ok:
  assumes "call_ok child sub" and "newline_pads newline b"
  shows "try_fold (splice_file child newline index) files (out, st) = Inr (out', st') \<Longrightarrow>
    out' = out @ unlines (concat (map (\<lambda>f. pad b (sub f)) files)) \<and> frame st st'"
proof (induction files arbitrary: out st)
  case (Cons f files)
  then obtain out1 st1 where 1: "splice_file child newline index f (out, st) = Inr (out1, st1)"
      "try_fold (splice_file child newline index) files (out1, st1) = Inr (out', st')"
    by (auto simp: and_then_eq_Inr)
  show ?case using splice_file_ok [OF assms 1(1)] Cons.IH [OF 1(2)] frame_trans by fastforce
qed simp

lemma splice_arguments_fold:
  assumes "call_ok child sub" and "newline_pads newline b"
  shows "try_fold (splice_argument w home child newline index) args (out, st) = Inr (out', st') \<Longrightarrow>
    out' = out @ unlines (concat (map (\<lambda>f. pad b (sub f)) (concat (map (files_of w home) args)))) \<and> frame st st'"
proof (induction args arbitrary: out st)
  case (Cons a args)
  then obtain out1 st1 where 1: "splice_argument w home child newline index a (out, st) = Inr (out1, st1)"
      "try_fold (splice_argument w home child newline index) args (out1, st1) = Inr (out', st')"
    by (auto simp: and_then_eq_Inr)
  then obtain files where 2: "files_of w home a = files"
      "try_fold (splice_file child newline index) files (out, st) = Inr (out1, st1)"
    by (auto simp: splice_argument_def and_then_eq_Inr files_of_def)
  show ?case using splice_files_ok [OF assms 2(2)] 2(1) Cons.IH [OF 1(2)] frame_trans by fastforce
qed simp

lemma splice_arguments_ok:
  assumes "call_ok child sub" and "newline_pads newline b" and "include_arguments line = Inr (Some args)"
    and "splice_arguments w home child newline index args (out, st) = Inr (out', st')"
  shows "out' = out @ unlines (concat (map (\<lambda>f. pad b (sub f)) (included_files w home line))) \<and> frame st st'"
  using splice_arguments_fold [OF assms(1,2), of w home index args out st out' st'] assms(3,4)
  by (auto simp: splice_arguments_def and_then_eq_Inr included_files_def)

lemma include_arguments_key:
  "include_arguments line = Inr (Some args) \<Longrightarrow> key_is ''include'' line"
  "include_arguments line = Inr None \<Longrightarrow> \<not> key_is ''include'' line"
  by (auto simp: include_arguments_def key_is_def map_ok_eq_Inr split: option.splits if_splits)

subsection \<open>The expanders compute the reference\<close>

lemma host_directive_scope:
  assumes "host_directive_matches w index line host = Inr b" and "key_is ''host'' line"
  shows "b = scope_matches w host line"
  using assms by (auto simp: host_directive_matches_def scope_matches_def map_ok_eq_Inr)

lemma match_directive_scope:
  assumes "supported_match_directive_matches w index line host = Inr b" and "\<not> key_is ''host'' line"
  shows "b = scope_matches w host line"
  using assms
  by (auto simp: supported_match_directive_matches_def scope_matches_def map_ok_eq_Inr and_then_eq_Inr)

text \<open>What one call of the connection expander emits, for a scope that may match or never does.\<close>

definition emitted :: "bool \<Rightarrow> (rstring \<Rightarrow> rstring list) \<Rightarrow> rstring \<Rightarrow> rstring list" where
  "emitted never sub file = (if never then [] else sub file)"

lemma connection_line_ok:
  assumes child: "\<And>never. call_ok (\<lambda>file. child file (\<not> never) never) (emitted never sub)"
    and line: "connection_line w home host child never (index, l) (active, out, st) = Inr (active', out', st')"
    and act: "active \<Longrightarrow> \<not> never"
  shows "active' = (if opens_scope l then \<not> never \<and> scope_matches w host l else active) \<and> frame st st' \<and>
    out' = out @ unlines (if opens_scope l \<or> \<not> active then []
      else if key_is ''include'' l then concat (map sub (included_files w home l)) else [l])"
proof (cases "opens_scope l")
  case True
  then show ?thesis
    using line
    by (cases "key_is ''host'' l")
       (auto simp: connection_line_def opens_scope_def map_ok_eq_Inr dest: host_directive_scope match_directive_scope)
next
  case False
  then have keys: "\<not> key_is ''host'' l" "\<not> key_is ''match'' l" by (auto simp: opens_scope_def)
  obtain arguments where args: "include_arguments l = Inr arguments"
    using line keys by (auto simp: connection_line_def and_then_eq_Inr)
  show ?thesis
  proof (cases arguments)
    case None
    note opt = include_arguments_key(2) [OF args [unfolded None]]
    show ?thesis
      using line keys args None opt False
      by (auto simp: connection_line_def map_ok_eq_Inr split: if_splits dest!: push_include_line_ok)
  next
    case (Some as)
    note inc = include_arguments_key(1) [OF args [unfolded Some]]
    have ends: "newline_pads (\<lambda>inc. inc \<noteq> [] \<and> \<not> ends_with [10] inc) False"
      by (auto simp: newline_pads_def unlines_ends)
    have never: "(\<not> (never \<or> \<not> active)) = active" using act by blast
    have "active' = active" and sp: "splice_arguments w home (\<lambda>file. child file active (never \<or> \<not> active))
        (\<lambda>inc. inc \<noteq> [] \<and> \<not> ends_with [10] inc) index as (out, st) = Inr (out', st')"
      using line keys args Some by (auto simp: connection_line_def map_ok_eq_Inr)
    moreover have "out' = out @ unlines (concat (map (\<lambda>f. pad False (emitted (never \<or> \<not> active) sub f))
        (included_files w home l))) \<and> frame st st'"
      using splice_arguments_ok [OF child [of "never \<or> \<not> active", unfolded never] ends args [unfolded Some] sp] .
    ultimately show ?thesis using False inc act by (auto simp: pad_def emitted_def)
  qed
qed

lemma connection_lines_ok:
  assumes child: "\<And>never. call_ok (\<lambda>file. child file (\<not> never) never) (emitted never sub)"
  shows "try_fold (connection_line w home host child never) (enumerate n ls) (active, out, st) = Inr (active', out', st') \<Longrightarrow>
    (active \<Longrightarrow> \<not> never) \<Longrightarrow>
    out' = out @ unlines (if never then [] else scoped_lines w home host sub active ls) \<and> frame st st'"
proof (induction ls arbitrary: n active out st)
  case (Cons l ls)
  then obtain a1 out1 st1
    where 1: "connection_line w home host child never (n, l) (active, out, st) = Inr (a1, out1, st1)"
      "try_fold (connection_line w home host child never) (enumerate (Suc n) ls) (a1, out1, st1) = Inr (active', out', st')"
    by (auto simp: and_then_eq_Inr)
  note step = connection_line_ok [OF child 1(1) Cons.prems(2)]
  have "a1 \<Longrightarrow> \<not> never" using step Cons.prems(2) by (auto split: if_splits)
  note IH = Cons.IH [OF 1(2) this]
  show ?case using step IH Cons.prems(2) frame_trans by (auto split: if_splits)
qed simp

lemma expand_connection_flattened:
  "expand_connection_file w home host depth p (\<not> never) never st = Inr (out, st') \<Longrightarrow>
     out = unlines (emitted never (flattened (Suc MAX_INCLUDE_DEPTH - depth) w home host) p) \<and> frame st st'"
proof (induction "Suc MAX_INCLUDE_DEPTH - depth" arbitrary: depth p never st out st')
  case 0
  then show ?case
    by (subst (asm) expand_connection_file.simps) (auto simp: and_then_eq_Inr dest: enter_file_depth)
next
  case (Suc n)
  let ?sub = "flattened n w home host"
  have n: "n = Suc MAX_INCLUDE_DEPTH - (depth + 1)" using Suc.hyps(2) by simp
  have child: "call_ok (\<lambda>p. expand_connection_file w home host (depth + 1) p (\<not> nev) nev) (emitted nev ?sub)" for nev
    unfolding call_ok_def using Suc.hyps(1) [OF n] unfolding n by blast
  obtain identity st1 st2 contents st3 a
    where en: "enter_file w p depth st = Inr (identity, st1)" "read_config w p st1 = Inr (contents, st2)"
      and lines: "try_fold (connection_line w home host (expand_connection_file w home host (depth + 1)) never)
        (enumerate 0 (lines_of contents)) (\<not> never, [], st2) = Inr (a, out, st3)"
      and st': "st' = leave_file identity st3"
    using Suc.prems
    by (subst (asm) expand_connection_file.simps)
       (auto simp: expand_connection_file_inner_def and_then_eq_Inr map_ok_eq_Inr)
  note rd = read_config_frame [OF en(2)]
  note ls = connection_lines_ok [OF child lines]
  have fl: "file_lines w p = lines_of contents" using rd by (simp add: file_lines_def)
  have "frame st st'" unfolding st' by (rule enter_leave_frame [OF en(1)]) (use rd ls frame_trans in blast)
  moreover have "out = unlines (emitted never (flattened (Suc n) w home host) p)"
    using ls by (auto simp: emitted_def fl)
  ultimately show ?case using Suc.hyps(2) by simp
qed

lemma catalog_lines_ok:
  assumes child: "call_ok child sub"
  shows "try_fold (catalog_line w home child) (enumerate n ls) (out, st) = Inr (out', st') \<Longrightarrow>
    out' = out @ unlines (concat (map (\<lambda>l. if key_is ''include'' l
        then concat (map (\<lambda>f. pad True (sub f)) (included_files w home l)) else [l]) ls)) \<and> frame st st'"
proof (induction ls arbitrary: n out st)
  case (Cons l ls)
  then obtain out1 st1 where 1: "catalog_line w home child (n, l) (out, st) = Inr (out1, st1)"
      "try_fold (catalog_line w home child) (enumerate (Suc n) ls) (out1, st1) = Inr (out', st')"
    by (auto simp: and_then_eq_Inr)
  then obtain arguments where args: "include_arguments l = Inr arguments"
    by (auto simp: catalog_line_def and_then_eq_Inr)
  have ends: "newline_pads (\<lambda>inc. \<not> ends_with [10] inc) True" by (auto simp: newline_pads_def unlines_ends)
  have "out1 = out @ unlines (if key_is ''include'' l
        then concat (map (\<lambda>f. pad True (sub f)) (included_files w home l)) else [l]) \<and> frame st st1"
  proof (cases arguments)
    case None
    then show ?thesis using 1(1) args include_arguments_key(2) [of l]
      by (auto simp: catalog_line_def map_ok_eq_Inr dest!: push_include_line_ok)
  next
    case (Some as)
    then have "splice_arguments w home child (\<lambda>inc. \<not> ends_with [10] inc) n as (out, st) = Inr (out1, st1)"
      using 1(1) args by (auto simp: catalog_line_def)
    from splice_arguments_ok [OF child ends args [unfolded Some] this] show ?thesis
      using include_arguments_key(1) [OF args [unfolded Some]] by simp
  qed
  with Cons.IH [OF 1(2)] show ?case using frame_trans by fastforce
qed simp

lemma expand_catalog_catalogued:
  "expand_catalog_file w home depth p st = Inr (out, st') \<Longrightarrow>
     out = unlines (catalogued (Suc MAX_INCLUDE_DEPTH - depth) w home p) \<and> frame st st'"
proof (induction "Suc MAX_INCLUDE_DEPTH - depth" arbitrary: depth p st out st')
  case 0
  then show ?case
    by (subst (asm) expand_catalog_file.simps) (auto simp: and_then_eq_Inr dest: enter_file_depth)
next
  case (Suc n)
  have n: "n = Suc MAX_INCLUDE_DEPTH - (depth + 1)" using Suc.hyps(2) by simp
  have child: "call_ok (expand_catalog_file w home (depth + 1)) (catalogued n w home)"
    unfolding call_ok_def using Suc.hyps(1) [OF n] unfolding n by blast
  obtain identity st1 st2 contents st3
    where en: "enter_file w p depth st = Inr (identity, st1)" "read_config w p st1 = Inr (contents, st2)"
      and lines: "try_fold (catalog_line w home (expand_catalog_file w home (depth + 1)))
        (enumerate 0 (lines_of contents)) ([], st2) = Inr (out, st3)"
      and st': "st' = leave_file identity st3"
    using Suc.prems
    by (subst (asm) expand_catalog_file.simps)
       (auto simp: expand_catalog_file_inner_def and_then_eq_Inr map_ok_eq_Inr)
  note rd = read_config_frame [OF en(2)]
  note ls = catalog_lines_ok [OF child lines]
  have fl: "file_lines w p = lines_of contents" using rd by (simp add: file_lines_def)
  have "frame st st'" unfolding st' by (rule enter_leave_frame [OF en(1)]) (use rd ls frame_trans in blast)
  then show ?case using Suc.hyps(2) ls fl by (simp add: Suc.hyps(2) [symmetric])
qed

subsection \<open>Where the lines come from\<close>

text \<open>A trusted source: a regular file of the user or of root that nobody else may write.\<close>

definition trusted_file :: "FsWorld \<Rightarrow> open_file \<Rightarrow> bool" where
  "trusted_file w f \<longleftrightarrow> is_file f \<and> (owner f = fs_uid w \<or> owner f = 0) \<and> mode_bits f AND 0x12 = 0"

definition trusted_line :: "FsWorld \<Rightarrow> rstring \<Rightarrow> bool" where
  "trusted_line w l \<longleftrightarrow> (\<exists>p f c. fs_open w p = Some f \<and> trusted_file w f \<and> from_utf8 (bytes f) = Some c \<and>
     l \<in> set (lines_of c))"

lemma read_user_config_trusted:
  assumes "read_user_config_file w p = Inr c"
  shows "\<exists>f. fs_open w p = Some f \<and> trusted_file w f \<and> from_utf8 (bytes f) = Some c \<and>
    str_len c \<le> MAX_CONFIG_FILE_BYTES"
proof -
  obtain f where f: "fs_open w p = Some f" "is_file f" "verify_platform_trust w p f = Inr ()"
      "from_utf8 (take (MAX_CONFIG_FILE_BYTES + 1) (bytes f)) = Some c" "str_len c \<le> MAX_CONFIG_FILE_BYTES"
    using assms by (auto simp: read_user_config_file_def and_then_eq_Inr split: option.splits if_splits)
  have "length (take (MAX_CONFIG_FILE_BYTES + 1) (bytes f)) \<le> MAX_CONFIG_FILE_BYTES"
    using f(4,5) by (auto simp: from_utf8_iff simp del: length_take)
  then have "take (MAX_CONFIG_FILE_BYTES + 1) (bytes f) = bytes f" by simp
  moreover have "trusted_file w f"
    using f(2,3) by (auto simp: verify_platform_trust_def trusted_file_def Let_def and.assoc split: if_splits)
  ultimately show ?thesis using f by auto
qed

lemma file_lines_trusted: "l \<in> set (file_lines w p) \<Longrightarrow> trusted_line w l"
  by (cases "read_user_config_file w p")
     (auto simp: file_lines_def trusted_line_def dest!: read_user_config_trusted)

definition plain_option :: "FsWorld \<Rightarrow> rstring \<Rightarrow> bool" where
  "plain_option w l \<longleftrightarrow> trusted_line w l \<and> \<not> opens_scope l \<and> \<not> key_is ''include'' l"

lemma scoped_lines_plain:
  assumes "\<And>q. list_all (plain_option w) (sub q)" and "\<forall>l \<in> set ls. trusted_line w l"
  shows "list_all (plain_option w) (scoped_lines w home host sub active ls)"
  using assms(2)
proof (induction ls arbitrary: active)
  case (Cons l ls)
  have "list_all (plain_option w) (concat (map sub fs))" for fs
    using assms(1) by (induction fs) auto
  moreover have "plain_option w l" if "\<not> opens_scope l" "\<not> key_is ''include'' l"
    using that Cons.prems by (simp add: plain_option_def)
  ultimately show ?case using Cons by simp
qed simp

lemma flattened_plain: "list_all (plain_option w) (flattened n w home host p)"
proof (induction n arbitrary: p)
  case (Suc n)
  then show ?case using scoped_lines_plain [of w "flattened n w home host"] file_lines_trusted by simp
qed simp

lemma plain_option_structural: "plain_option w l \<Longrightarrow> \<not> structural l"
  by (auto simp: plain_option_def opens_scope_def structural_def key_is_def split: option.splits)

lemma plain_option_no_newline: "plain_option w l \<Longrightarrow> 10 \<notin> set l"
  using lines_of_no_newline by (auto simp: plain_option_def trusted_line_def)

lemma expand_user_config_fs_ok:
  assumes "expand_user_config_fs w root home host = Inr out"
  shows "out = unlines (host_star # flattened (Suc MAX_INCLUDE_DEPTH) w home host root) \<and>
    str_len out \<le> MAX_CONFIG_BYTES"
proof -
  obtain contents st where c: "expand_connection_file w home host 0 root (\<not> False) False expansion_new = Inr (contents, st)"
      "out = lit ''Host *'' @ [10] @ contents" "str_len out \<le> MAX_CONFIG_BYTES"
    using assms by (auto simp: expand_user_config_fs_def and_then_eq_Inr push_bounded_ok)
  from expand_connection_flattened [OF c(1)] c show ?thesis
    by (simp add: emitted_def host_star_def del: flattened.simps)
qed

lemma plain_lines_of:
  assumes "list_all (plain_option w) kept"
  shows "lines_of (unlines (host_star # kept)) = host_star # map strip_cr kept"
proof -
  have "10 \<notin> set host_star" "strip_cr host_star = host_star" by code_simp+
  then show ?thesis
    using lines_of_unlines_cr [of "host_star # kept"] assms plain_option_no_newline
    by (auto simp: list_all_iff)
qed

subsection \<open>Include cycles\<close>

definition pulls_in :: "FsWorld \<Rightarrow> rstring \<Rightarrow> rstring \<Rightarrow> rstring \<Rightarrow> bool" where
  "pulls_in w home p q \<longleftrightarrow> (\<exists>l \<in> set (file_lines w p). q \<in> set (included_files w home l))"

lemma try_fold_reaches:
  assumes "try_fold f xs s = Inr s'" and "x \<in> set xs" and "I s"
    and keep: "\<And>x s s'. x \<in> set xs \<Longrightarrow> I s \<Longrightarrow> f x s = Inr s' \<Longrightarrow> I s'"
  shows "\<exists>s1 s2. I s1 \<and> f x s1 = Inr s2"
  using assms
proof (induction xs arbitrary: s)
  case (Cons y xs)
  obtain s1 where 1: "f y s = Inr s1" "try_fold f xs s1 = Inr s'"
    using Cons.prems(1) by (auto simp: and_then_eq_Inr)
  have "I s1" by (rule Cons.prems(4) [OF _ Cons.prems(3) 1(1)]) simp
  show ?case
  proof (cases "x = y")
    case True
    then show ?thesis using Cons.prems(3) 1(1) by blast
  next
    case False
    then have "x \<in> set xs" using Cons.prems(2) by simp
    moreover have "I t'" if "z \<in> set xs" "I t" "f z t = Inr t'" for z t t'
      by (rule Cons.prems(4) [OF _ that(2,3)]) (use that(1) in simp)
    ultimately show ?thesis using Cons.IH [OF 1(2) _ \<open>I s1\<close>] by blast
  qed
qed simp

lemma splice_calls:
  assumes ok: "call_ok child sub" and nl: "newline_pads newline b" and line: "include_arguments l = Inr (Some args)"
    and sp: "splice_arguments w home child newline index args (out, st) = Inr r"
    and q: "q \<in> set (included_files w home l)"
  shows "\<exists>st1 r1. frame st st1 \<and> child q st1 = Inr r1"
proof -
  let ?I = "\<lambda>s. frame st (snd s)"
  have file_keep: "?I s'" if "?I s" "splice_file child newline index x s = Inr s'" for x s s'
    using splice_file_ok [OF ok nl, of index x "fst s" "snd s" "fst s'" "snd s'"] that frame_trans by auto
  have files_keep: "?I s'" if "?I s" "try_fold (splice_file child newline index) fs s = Inr s'" for fs s s'
    using splice_files_ok [OF ok nl, of index fs "fst s" "snd s" "fst s'" "snd s'"] that frame_trans by auto
  have arg_keep: "?I s'" if "?I s" "splice_argument w home child newline index a s = Inr s'" for a s s'
    using that files_keep [of s _ s'] by (auto simp: splice_argument_def and_then_eq_Inr simp del: split_paired_All)
  obtain a where a: "a \<in> set args" "q \<in> set (files_of w home a)"
    using q line by (auto simp: included_files_def)
  have fold: "try_fold (splice_argument w home child newline index) args (out, st) = Inr r"
    using sp by (auto simp: splice_arguments_def and_then_eq_Inr)
  obtain s1 s2 where s1: "?I s1" "splice_argument w home child newline index a s1 = Inr s2"
    using try_fold_reaches [OF fold a(1), of ?I] arg_keep by auto
  then obtain files where "try_fold (splice_file child newline index) files s1 = Inr s2" "q \<in> set files"
    using a(2) by (auto simp: splice_argument_def and_then_eq_Inr files_of_def)
  then obtain s3 s4 where s3: "?I s3" "splice_file child newline index q s3 = Inr s4"
    using try_fold_reaches [of "splice_file child newline index" files s1 s2 q ?I] s1(1) file_keep by auto
  then have "\<exists>r1. child q (snd s3) = Inr r1"
    by (cases s3) (auto simp: splice_file_def and_then_eq_Inr simp del: split_paired_Ex)
  with s3(1) show ?thesis by blast
qed

lemma expand_calls_included:
  assumes "expand_connection_file w home host depth p (\<not> never) never st = Inr r" and "pulls_in w home p q"
  shows "\<exists>identity never' st1 r1. fs_canonicalize w p = Some identity \<and> identity \<notin> active_paths st \<and>
    active_paths st1 = insert identity (active_paths st) \<and>
    expand_connection_file w home host (depth + 1) q (\<not> never') never' st1 = Inr r1"
proof -
  let ?child = "expand_connection_file w home host (depth + 1)"
  let ?sub = "flattened (Suc MAX_INCLUDE_DEPTH - (depth + 1)) w home host"
  have child: "call_ok (\<lambda>f. ?child f (\<not> nev) nev) (emitted nev ?sub)" for nev
    unfolding call_ok_def using expand_connection_flattened by blast
  obtain identity st1 st2 contents a
    where en: "enter_file w p depth st = Inr (identity, st1)" "read_config w p st1 = Inr (contents, st2)"
      and lines: "try_fold (connection_line w home host ?child never) (enumerate 0 (lines_of contents))
        (\<not> never, [], st2) = Inr a"
    using assms(1)
    by (subst (asm) expand_connection_file.simps)
       (auto simp: expand_connection_file_inner_def and_then_eq_Inr map_ok_eq_Inr)
  note rd = read_config_frame [OF en(2)]
  have id: "fs_canonicalize w p = Some identity" "identity \<notin> active_paths st"
      "active_paths st1 = insert identity (active_paths st)"
    using en(1) by (auto simp: enter_file_def split: if_splits option.splits)
  obtain l where l: "l \<in> set (lines_of contents)" "q \<in> set (included_files w home l)"
    using assms(2) rd by (auto simp: pulls_in_def file_lines_def)
  have "l \<in> snd ` set (enumerate 0 (lines_of contents))"
    using l(1) by (metis list.set_map map_snd_enumerate)
  then obtain i where i: "(i, l) \<in> set (enumerate 0 (lines_of contents))" by auto
  let ?I = "\<lambda>(active, out, s). (active \<longrightarrow> \<not> never) \<and> frame st2 s"
  have keep: "?I s'" if "?I s" "connection_line w home host ?child never x s = Inr s'" for x s s'
  proof -
    obtain active out s0 where s: "s = (active, out, s0)" by (cases s)
    obtain active' out' s0' where s': "s' = (active', out', s0')" by (cases s')
    obtain n l' where x: "x = (n, l')" by (cases x)
    have "active \<Longrightarrow> \<not> never" "frame st2 s0" using that(1) s by auto
    then show ?thesis
      using connection_line_ok [of ?child ?sub, OF child, of w home host never n l' active out s0 active' out' s0'] that(2) s s' x
        frame_trans by (auto split: if_splits)
  qed
  have "\<exists>s3 s4. ?I s3 \<and> connection_line w home host ?child never (i, l) s3 = Inr s4"
    by (rule try_fold_reaches [OF lines i, of ?I]) (simp, rule keep)
  then obtain s3 s4 where s3: "?I s3" "connection_line w home host ?child never (i, l) s3 = Inr s4" by blast
  obtain active out st3 where s3': "s3 = (active, out, st3)" by (cases s3)
  obtain args where args: "include_arguments l = Inr (Some args)"
    using l(2) unfolding included_files_def
    by (cases "include_arguments l"; cases "projr (include_arguments l)") auto
  have "\<not> key_is ''host'' l" "\<not> key_is ''match'' l"
    using include_arguments_key(1) [OF args]
    by (auto simp: key_is_def eq_ignore_ascii_case_def lit_simps split: option.splits)
  then obtain r2 where sp: "splice_arguments w home (\<lambda>f. ?child f active (never \<or> \<not> active))
      (\<lambda>inc. inc \<noteq> [] \<and> \<not> ends_with [10] inc) i args (out, st3) = Inr r2"
    using s3(2) args unfolding s3' by (auto simp: connection_line_def map_ok_eq_Inr)
  have nev: "(\<not> (never \<or> \<not> active)) = active" using s3(1) s3' by auto
  have ends: "newline_pads (\<lambda>inc. inc \<noteq> [] \<and> \<not> ends_with [10] inc) False"
    by (auto simp: newline_pads_def unlines_ends)
  obtain st4 r4 where st4: "frame st3 st4"
      and call: "?child q (\<not> (never \<or> \<not> active)) (never \<or> \<not> active) st4 = Inr r4"
    unfolding nev
    using splice_calls [OF child [of "never \<or> \<not> active", unfolded nev] ends args sp l(2)] by blast
  have "frame st2 st3" using s3(1) s3' by simp
  then have "frame st1 st4" using rd st4 frame_trans by blast
  then have "active_paths st4 = insert identity (active_paths st)" using id(3) by (simp add: frame_def)
  with id(1,2) call show ?thesis by blast
qed

lemma expand_reaches:
  assumes "(pulls_in w home)\<^sup>*\<^sup>* p q" and "expand_connection_file w home host depth p (\<not> never) never st = Inr r"
  shows "\<exists>depth' never' st' r'. active_paths st \<subseteq> active_paths st' \<and>
    (p = q \<and> st' = st \<or> (\<exists>i. fs_canonicalize w p = Some i \<and> i \<in> active_paths st')) \<and>
    expand_connection_file w home host depth' q (\<not> never') never' st' = Inr r'"
  using assms(1)
proof (induction rule: rtranclp_induct)
  case base
  then show ?case using assms(2) by blast
next
  case (step y z)
  then obtain d n s r' where y: "active_paths st \<subseteq> active_paths s"
      "p = y \<and> s = st \<or> (\<exists>i. fs_canonicalize w p = Some i \<and> i \<in> active_paths s)"
      "expand_connection_file w home host d y (\<not> n) n s = Inr r'" by blast
  obtain i n' s1 r1 where "fs_canonicalize w y = Some i" "active_paths s1 = insert i (active_paths s)"
      "expand_connection_file w home host (d + 1) z (\<not> n') n' s1 = Inr r1"
    using expand_calls_included [OF y(3) step.hyps(2)] by blast
  with y(1,2) show ?case by (metis insertCI subset_insertI2)
qed

lemma expand_enters:
  assumes "expand_connection_file w home host depth q act never st = Inr r"
  shows "\<exists>i. fs_canonicalize w q = Some i \<and> i \<notin> active_paths st"
  using assms
  by (subst (asm) expand_connection_file.simps)
     (auto simp: and_then_eq_Inr enter_file_def split: if_splits option.splits)

lemma expand_no_cycle:
  assumes "expand_connection_file w home host depth p (\<not> never) never st = Inr r"
    and "(pulls_in w home)\<^sup>*\<^sup>* p q" and "(pulls_in w home)\<^sup>+\<^sup>+ q q'"
  shows "fs_canonicalize w q \<noteq> fs_canonicalize w q'"
proof -
  obtain d n s r1 where q: "expand_connection_file w home host d q (\<not> n) n s = Inr r1"
    using expand_reaches [OF assms(2,1)] by blast
  obtain z where z: "pulls_in w home q z" "(pulls_in w home)\<^sup>*\<^sup>* z q'" using assms(3) by (meson tranclpD)
  obtain i n1 s1 r2 where i: "fs_canonicalize w q = Some i" "active_paths s1 = insert i (active_paths s)"
      "expand_connection_file w home host (d + 1) z (\<not> n1) n1 s1 = Inr r2"
    using expand_calls_included [OF q z(1)] by blast
  obtain d' n' s' r' where s': "active_paths s1 \<subseteq> active_paths s'"
      "expand_connection_file w home host d' q' (\<not> n') n' s' = Inr r'"
    using expand_reaches [OF z(2) i(3)] by blast
  have "i \<in> active_paths s'" using s'(1) i(2) by auto
  with expand_enters [OF s'(2)] i(1) show ?thesis by auto
qed

subsection \<open>Properties of the expander\<close>

text \<open>A small configuration with one included file, used by the witnesses.\<close>

definition sample_tree :: FsWorld where
  "sample_tree = sample_fs\<lparr>
     fs_metadata := (\<lambda>_. IoOk True),
     fs_read_dir := (\<lambda>_. IoOk [EntryName (lit ''c'')]),
     fs_open := (\<lambda>p. Some \<lparr>is_file = True, owner = 1000, mode_bits = 0x1A4,
        bytes = as_bytes (unlines (map lit
          (if p = lit ''/h/.ssh/config''
           then [''Host o'', ''Include d/*'', ''Host p'', ''Include d/*'', ''User u'']
           else [''Port 22'', ''Host o'', ''User y''])))\<rparr>),
     fs_probe_port := (\<lambda>t h. Some (if starts_with (lit ''Host '' @ h) t then 65534 else 65535))\<rparr>"

lemma sample_tree_expands:
  "expand_user_config_fs sample_tree (lit ''/h/.ssh/config'') (lit ''/h'') (lit ''p'') =
     Inr (unlines (map lit [''Host *'', ''Port 22'', ''User u'']))"
  by code_simp
text \<open>
  C7. Flattening for one host is exact: when the expansion succeeds, its text is \<open>Host *\<close> followed by the
  reference flattening of the configuration, in which every scope is decided on its own, an included
  file cannot change the scope of the file that includes it, and an \<open>Include\<close> in a scope that does not
  match contributes nothing, although the code walks through its files to check them.
\<close>

theorem expansion_flattens:
  assumes "expand_user_config_fs w root home host = Inr out"
  shows "out = unlines (host_star # flattened (Suc MAX_INCLUDE_DEPTH) w home host root)"
  using expand_user_config_fs_ok [OF assms] by blast

theorem expansion_flattens_witness:
  "unlines (map lit [''Host *'', ''Port 22'', ''User u'']) =
     unlines (host_star # flattened (Suc MAX_INCLUDE_DEPTH) sample_tree (lit ''/h'') (lit ''p'') (lit ''/h/.ssh/config''))"
  using expansion_flattens [OF sample_tree_expands] .

text \<open>
  C25. Every line the connection resolver gets to see, after the leading \<open>Host *\<close>, is a line of a regular
  file owned by the user or by root that group and others cannot write, and is neither \<open>Host\<close>,
  \<open>Match\<close> nor \<open>Include\<close>.
\<close>

theorem expanded_lines_trusted:
  assumes "expand_user_config_fs w root home host = Inr out"
  shows "\<exists>kept. out = unlines (host_star # kept) \<and>
    list_all (\<lambda>l. trusted_line w l \<and> \<not> opens_scope l \<and> \<not> key_is ''include'' l) kept"
  using expand_user_config_fs_ok [OF assms] flattened_plain [of w "Suc MAX_INCLUDE_DEPTH" home host root]
  unfolding plain_option_def by blast

theorem expanded_lines_trusted_witness:
  "\<exists>kept. unlines (map lit [''Host *'', ''Port 22'', ''User u'']) = unlines (host_star # kept) \<and>
     list_all (trusted_line sample_tree) kept"
  using expanded_lines_trusted [OF sample_tree_expands] by (auto simp: list_all_iff)

text \<open>
  The limits hold for a whole expansion: a successful call reads at most \<open>MAX_INCLUDE_FILES\<close> files and
  \<open>MAX_CONFIG_BYTES\<close> bytes, leaves the set of open files as it found it, and the text for the
  connection stays within \<open>MAX_CONFIG_BYTES\<close>.
\<close>

theorem expansion_limits:
  assumes "expand_connection_file w home host depth p (\<not> never) never st = Inr (out, st')"
    and "files_seen st \<le> MAX_INCLUDE_FILES" and "bytes_read st \<le> MAX_CONFIG_BYTES"
  shows "files_seen st' \<le> MAX_INCLUDE_FILES \<and> bytes_read st' \<le> MAX_CONFIG_BYTES \<and>
    active_paths st' = active_paths st \<and>
    (never \<longrightarrow> out = [])"
  using expand_connection_flattened [OF assms(1)] assms(2,3) by (auto simp: frame_def emitted_def)

theorem expansion_limits_witness:
  "\<exists>out st'. expand_connection_file sample_tree (lit ''/h'') (lit ''p'') 0 (lit ''/h/.ssh/d/c'') False True
      expansion_new = Inr (out, st') \<and> out = [] \<and> files_seen st' \<le> MAX_INCLUDE_FILES"
proof -
  have "is_ok (expand_connection_file sample_tree (lit ''/h'') (lit ''p'') 0 (lit ''/h/.ssh/d/c'') (\<not> True) True
      expansion_new)" by code_simp
  then obtain out st' where r: "expand_connection_file sample_tree (lit ''/h'') (lit ''p'') 0 (lit ''/h/.ssh/d/c'')
      (\<not> True) True expansion_new = Inr (out, st')" unfolding is_ok_iff by auto
  have "files_seen expansion_new \<le> MAX_INCLUDE_FILES" "bytes_read expansion_new \<le> MAX_CONFIG_BYTES"
    by (simp_all add: expansion_new_def)
  from expansion_limits [OF r this] r show ?thesis by auto
qed

text \<open>
  The flattened text passes the structural check that \<open>config.rs\<close> makes before it hands a text to the
  parser: the error of that check cannot occur after an expansion.
\<close>

theorem expansion_passes_structural_check:
  assumes "expand_user_config_fs w root home host = Inr out"
  shows "reject_unsupported_structural_directives out = Inr ()"
proof -
  let ?kept = "flattened (Suc MAX_INCLUDE_DEPTH) w home host root"
  have "lines_of out = host_star # map strip_cr ?kept"
    using expand_user_config_fs_ok [OF assms] plain_lines_of [OF flattened_plain] by (simp only:)
  moreover have "\<forall>l \<in> set ?kept. \<not> structural l"
    using flattened_plain [of w "Suc MAX_INCLUDE_DEPTH" home host root] plain_option_structural
    by (auto simp: list_all_iff simp del: flattened.simps)
  ultimately show ?thesis
    using host_star_plain by (auto simp: reject_unsupported_structural_directives_def reject_lines_ok)
qed

theorem expansion_passes_structural_check_witness:
  "reject_unsupported_structural_directives (unlines (map lit [''Host *'', ''Port 22'', ''User u''])) = Inr ()"
  using expansion_passes_structural_check [OF sample_tree_expands] .

text \<open>
  C29. Include cycles never go through: when an expansion succeeds, no file reachable from the root by
  \<open>Include\<close> lines, in matching scopes or not, reaches a file with the same canonical path again.
\<close>

theorem include_cycle_rejected:
  assumes "expand_user_config_fs w root home host = Inr out"
    and "(pulls_in w home)\<^sup>*\<^sup>* root q" and "(pulls_in w home)\<^sup>+\<^sup>+ q q'"
  shows "fs_canonicalize w q \<noteq> fs_canonicalize w q'"
proof -
  obtain r where "expand_connection_file w home host 0 root (\<not> False) False expansion_new = Inr r"
    using assms(1) by (auto simp: expand_user_config_fs_def and_then_eq_Inr)
  from expand_no_cycle [OF this assms(2,3)] show ?thesis .
qed

theorem include_cycle_rejected_witness:
  "fs_canonicalize sample_tree (lit ''/h/.ssh/config'') \<noteq> fs_canonicalize sample_tree (lit ''/h/.ssh/d/c'')"
proof -
  have "list_ex (\<lambda>l. lit ''/h/.ssh/d/c'' \<in> set (included_files sample_tree (lit ''/h'') l))
      (file_lines sample_tree (lit ''/h/.ssh/config''))" by code_simp
  then have "(pulls_in sample_tree (lit ''/h''))\<^sup>+\<^sup>+ (lit ''/h/.ssh/config'') (lit ''/h/.ssh/d/c'')"
    by (intro tranclp.r_into_trancl) (simp add: pulls_in_def list_ex_iff)
  from include_cycle_rejected [OF sample_tree_expands _ this] show ?thesis by blast
qed

text \<open>
  The catalogue keeps every line: a successful catalogue expansion is the configuration with each
  \<open>Include\<close> replaced by the lines of its files (an empty file by an empty line), whatever the scope.
\<close>

theorem catalog_expansion_exact:
  assumes "expand_user_config_for_catalog w root home = Inr out"
  shows "out = unlines (catalogued (Suc MAX_INCLUDE_DEPTH) w home root)"
proof -
  obtain st where "expand_catalog_file w home 0 root expansion_new = Inr (out, st)"
    using assms by (auto simp: expand_user_config_for_catalog_def map_ok_eq_Inr)
  from expand_catalog_catalogued [OF this] show ?thesis by (simp del: catalogued.simps)
qed

theorem catalog_expansion_exact_witness:
  "unlines (map lit [''Host o'', ''Port 22'', ''Host o'', ''User y'', ''Host p'',
      ''Port 22'', ''Host o'', ''User y'', ''User u'']) =
   unlines (catalogued (Suc MAX_INCLUDE_DEPTH) sample_tree (lit ''/h'') (lit ''/h/.ssh/config''))"
proof -
  have "expand_user_config_for_catalog sample_tree (lit ''/h/.ssh/config'') (lit ''/h'') =
     Inr (unlines (map lit [''Host o'', ''Port 22'', ''Host o'', ''User y'', ''Host p'',
      ''Port 22'', ''Host o'', ''User y'', ''User u'']))" by code_simp
  from catalog_expansion_exact [OF this] show ?thesis .
qed

end
