(* ===== verification/Sftp_Session.thy ===== *)
theory Sftp_Session
  imports Remote_Path Utf8
begin

section \<open>SFTP sessions\<close>

text \<open>
  The SFTP server is code outside the repository: a parameter of type \<open>server\<close> that answers a request
  and moves on to its next state, without any assumption. A session records the requests it has sent,
  so that what the program asks of a server, in which order, can be stated for every server. Programs
  are functions from sessions to a result and a session; \<open>io_bind\<close> is the sequencing of \<open>await?\<close>.
  The predicate \<open>emits\<close> and the triples \<open>valid\<close> are the proof rules for the requests of a program.
  A reply of a kind that does not belong to the request is a protocol error. Downloads change the local
  disk; their \<open>OnDisk\<close> requests go to the operating system, which is part of the same environment.
  The second half models \<open>remote_fs.rs\<close>.
\<close>

datatype RemoteFileType = Directory | File | Symlink | Other

text \<open>\<open>FileAttributes\<close>; \<open>at_type\<close> is the type the SFTP library reads off the permission bits.\<close>

record FileAttributes =
  at_type :: RemoteFileType
  at_size :: "u64 option"
  at_uid :: "u32 option"
  at_user :: "rstring option"
  at_gid :: "u32 option"
  at_group :: "rstring option"
  at_permissions :: "u32 option"
  at_atime :: "u32 option"
  at_mtime :: "u32 option"

datatype open_flag = CREATE | EXCLUDE | TRUNCATE | WRITE | READ

text \<open>
  Requests to the operating system: status without following links, creating a directory, opening a file
  exclusively, for writing, or without following links (created if absent, truncated on demand), writing,
  flushing to the disk, setting the time, links, renaming and removal.
\<close>

datatype disk_req =
    DStat rstring | DCreateDir rstring | DCreateNew rstring | DReopen rstring | DOpenNoFollow rstring bool
  | DWriteAt rstring nat "u8 list" | DSync rstring | DSetTime rstring u32
  | DHardLink rstring rstring | DRename rstring rstring | DRemove rstring

datatype sftp_req =
    OpenSession | CloseSession
  | LStat rstring | ReadDir rstring | ReadLink rstring | TryExists rstring
  | OpenFile rstring "open_flag list" | ReadUpTo rstring nat | WriteAt rstring nat "u8 list"
  | CloseFile rstring
  | CreateDir rstring | RemoveFile rstring | RemoveDir rstring | Rename rstring rstring
  | SetMetadata rstring "u32 option"
  | ReadAt rstring nat | OnDisk disk_req

datatype sftp_resp =
    RAttrs FileAttributes | RNames "(rstring \<times> FileAttributes) list" | RLink rstring | RBool bool
  | RData "u8 list" | ROk | RNoSuchFile | RExists | RFailed

datatype (plugins only: code size) sftp_error =
    NoSuchFile rstring | RequestFailed sftp_req
  | EntryName rstring | UnsafePath path_error
  | MutationEmpty | MutationControl | MutationRoot | MutationNotConcrete | MutationAmbiguous
  | RenameAcross | RenameSame | TargetExists rstring | NotEmpty rstring | Unsupported rstring
  | BudgetZero | BudgetTooLarge | BudgetExceeded | RootNotDirectory rstring | CounterOverflow
  | TreeChanged | TypeChanged rstring
  | ContentTooLarge | NotRegularFile rstring | FileTooBig rstring | TargetIsDirectory rstring
  | Cancelled | LinkRefused rstring | NotADirectory rstring | DotDot rstring | LeafUnsafe rstring
  | LeafNul | DestinationExists rstring | StagingExists rstring | StagingTooLarge rstring
  | StagingNotRegular rstring | DestinationOccupied rstring | LocalFailed rstring | LocalNotFile rstring
  | LocalLink rstring
  | TypeConflict rstring | StalePlan rstring | ContradictoryPlan rstring | DuplicateMutation rstring
  | DeleteAfterCreate rstring | AtomicOverwrite rstring | ParentReplaced rstring | RootNul
  | SourceSizeChanged rstring | SourceIsRoot | ConcurrencyBounds | PacketBounds | TimeoutZeroSecs
  | InFlightBudget
  | DepthExceeded rstring | NoTransferTask

type_synonym 'w server = "sftp_req \<Rightarrow> 'w \<Rightarrow> sftp_resp \<times> 'w"

record 'w session =
  world :: 'w
  sent :: "sftp_req list"

type_synonym ('w, 'a) io = "'w session \<Rightarrow> (sftp_error + 'a) \<times> 'w session"

definition ret :: "'a \<Rightarrow> ('w, 'a) io" where "ret x s = (Inr x, s)"

definition raise :: "sftp_error \<Rightarrow> ('w, 'a) io" where "raise e s = (Inl e, s)"

definition io_bind :: "('w, 'a) io \<Rightarrow> ('a \<Rightarrow> ('w, 'b) io) \<Rightarrow> ('w, 'b) io" where
  "io_bind m f s = (case m s of (Inl e, s') \<Rightarrow> (Inl e, s') | (Inr x, s') \<Rightarrow> f x s')"

text \<open>A pure result inside a program, and a program run for its result only after it was closed.\<close>

definition lift_result :: "sftp_error + 'a \<Rightarrow> ('w, 'a) io" where "lift_result r s = (r, s)"

definition request :: "'w server \<Rightarrow> sftp_req \<Rightarrow> ('w, sftp_resp) io" where
  "request srv q s =
     (case srv q (world s) of (r, w) \<Rightarrow> (Inr r, \<lparr>world = w, sent = sent s @ [q]\<rparr>))"

fun io_each :: "('a \<Rightarrow> ('w, unit) io) \<Rightarrow> 'a list \<Rightarrow> ('w, unit) io" where
  "io_each f [] = ret ()"
| "io_each f (x # xs) = io_bind (f x) (\<lambda>_. io_each f xs)"

definition bail_if :: "bool \<Rightarrow> sftp_error \<Rightarrow> ('w, unit) io" where
  "bail_if c e = (if c then raise e else ret ())"

text \<open>\<open>m.await.ok()\<close>: the error is dropped.\<close>

definition attempt :: "('w, 'a) io \<Rightarrow> ('w, 'a option) io" where
  "attempt m s = (case m s of (Inl _, s') \<Rightarrow> (Inr None, s') | (Inr x, s') \<Rightarrow> (Inr (Some x), s'))"

subsection \<open>Requests with their replies\<close>

definition ok_request :: "'w server \<Rightarrow> sftp_req \<Rightarrow> ('w, unit) io" where
  "ok_request srv q = io_bind (request srv q) (\<lambda>r.
     if r = ROk then ret () else raise (RequestFailed q))"

definition symlink_metadata :: "'w server \<Rightarrow> rstring \<Rightarrow> ('w, FileAttributes) io" where
  "symlink_metadata srv p = io_bind (request srv (LStat p)) (\<lambda>r.
     case r of RAttrs a \<Rightarrow> ret a | RNoSuchFile \<Rightarrow> raise (NoSuchFile p) | _ \<Rightarrow> raise (RequestFailed (LStat p)))"

definition remote_symlink_metadata_if_exists :: "'w server \<Rightarrow> rstring \<Rightarrow> ('w, FileAttributes option) io" where
  "remote_symlink_metadata_if_exists srv p = io_bind (request srv (LStat p)) (\<lambda>r.
     case r of RAttrs a \<Rightarrow> ret (Some a) | RNoSuchFile \<Rightarrow> ret None | _ \<Rightarrow> raise (RequestFailed (LStat p)))"

definition read_dir :: "'w server \<Rightarrow> rstring \<Rightarrow> ('w, (rstring \<times> FileAttributes) list) io" where
  "read_dir srv p = io_bind (request srv (ReadDir p)) (\<lambda>r.
     case r of RNames ns \<Rightarrow> ret ns | _ \<Rightarrow> raise (RequestFailed (ReadDir p)))"

definition try_exists :: "'w server \<Rightarrow> rstring \<Rightarrow> ('w, bool) io" where
  "try_exists srv p = io_bind (request srv (TryExists p)) (\<lambda>r.
     case r of RBool b \<Rightarrow> ret b | _ \<Rightarrow> raise (RequestFailed (TryExists p)))"

definition read_link :: "'w server \<Rightarrow> rstring \<Rightarrow> ('w, rstring) io" where
  "read_link srv p = io_bind (request srv (ReadLink p)) (\<lambda>r.
     case r of RLink t \<Rightarrow> ret t | _ \<Rightarrow> raise (RequestFailed (ReadLink p)))"

text \<open>Opening a session, the body, closing it: the body's error comes first, then the closing one.\<close>

definition with_session :: "'w server \<Rightarrow> ('w, 'a) io \<Rightarrow> ('w, 'a) io" where
  "with_session srv body = io_bind (ok_request srv OpenSession) (\<lambda>_ s.
     case body s of (r, s1) \<Rightarrow>
       case ok_request srv CloseSession s1 of (c, s2) \<Rightarrow>
         (and_then r (\<lambda>x. and_then c (\<lambda>_. Inr x)), s2))"

subsection \<open>Directory listings and file status (remote\_fs.rs)\<close>

record RemoteFileMetadata =
  file_type :: RemoteFileType
  md_size :: "u64 option"
  md_uid :: "u32 option"
  md_user :: "rstring option"
  md_gid :: "u32 option"
  md_group :: "rstring option"
  md_permissions :: "u32 option"
  accessed_at :: "u32 option"
  modified_at :: "u32 option"

record RemoteDirEntry =
  de_name :: rstring
  de_path :: rstring
  de_metadata :: RemoteFileMetadata

record RemoteFileStat =
  st_path :: rstring
  st_metadata :: RemoteFileMetadata
  symlink_target :: "rstring option"

definition validate_remote_entry_name :: "rstring \<Rightarrow> sftp_error + unit" where
  "validate_remote_entry_name name =
     (if name = [] \<or> name = lit ''.'' \<or> name = lit ''..'' then Inl (EntryName name)
      else if 47 \<in> set name \<or> 0 \<in> set name then Inl (EntryName name)
      else Inr ())"

definition join_remote_child :: "rstring \<Rightarrow> rstring \<Rightarrow> rstring" where
  "join_remote_child parent name =
     (if parent = lit ''/'' then 47 # name
      else if ends_with [47] parent then parent @ name
      else parent @ [47] @ name)"

definition map_metadata :: "FileAttributes \<Rightarrow> RemoteFileType \<Rightarrow> RemoteFileMetadata" where
  "map_metadata a t =
     \<lparr>file_type = t, md_size = (if t = Directory then None else at_size a), md_uid = at_uid a,
      md_user = at_user a, md_gid = at_gid a, md_group = at_group a, md_permissions = at_permissions a,
      accessed_at = at_atime a, modified_at = at_mtime a\<rparr>"

fun dir_entries :: "rstring \<Rightarrow> (rstring \<times> FileAttributes) list \<Rightarrow> sftp_error + RemoteDirEntry list" where
  "dir_entries p [] = Inr []"
| "dir_entries p ((name, a) # rest) =
     (if name = lit ''.'' \<or> name = lit ''..'' then dir_entries p rest
      else
        and_then (validate_remote_entry_name name) (\<lambda>_.
        map_ok (\<lambda>es. \<lparr>de_name = name, de_path = join_remote_child p name,
                      de_metadata = map_metadata a (at_type a)\<rparr> # es) (dir_entries p rest)))"

definition list_directory :: "'w server \<Rightarrow> rstring \<Rightarrow> ('w, RemoteDirEntry list) io" where
  "list_directory srv p = io_bind (read_dir srv p) (\<lambda>ns.
     lift_result (map_ok (sort_key de_name) (dir_entries p ns)))"

definition stat_path :: "'w server \<Rightarrow> rstring \<Rightarrow> ('w, RemoteFileStat) io" where
  "stat_path srv p = io_bind (symlink_metadata srv p) (\<lambda>a.
     let t = (if at_permissions a = None then Other else at_type a) in
     if t = Symlink then
       io_bind (read_link srv p) (\<lambda>target.
         ret \<lparr>st_path = p, st_metadata = map_metadata a t, symlink_target = Some target\<rparr>)
     else ret \<lparr>st_path = p, st_metadata = map_metadata a t, symlink_target = None\<rparr>)"

text \<open>\<open>u64::saturating_add\<close>\<close>

definition saturating_add_u64 :: "u64 \<Rightarrow> u64 \<Rightarrow> u64" where
  "saturating_add_u64 a b = (case checked_add_u64 a b of Some c \<Rightarrow> c | None \<Rightarrow> -1)"

fun add_sizes :: "RemoteDirEntry list \<Rightarrow> u64 \<times> rstring list \<Rightarrow> u64 \<times> rstring list" where
  "add_sizes [] acc = acc"
| "add_sizes (e # es) (sz, nxt) =
     add_sizes es
       (if file_type (de_metadata e) = Directory then (sz, nxt @ [de_path e])
        else (saturating_add_u64 sz (case md_size (de_metadata e) of None \<Rightarrow> 0 | Some n \<Rightarrow> n), nxt))"

fun size_level :: "'w server \<Rightarrow> rstring list \<Rightarrow> u64 \<times> rstring list \<Rightarrow> ('w, u64 \<times> rstring list) io" where
  "size_level srv [] acc = ret acc"
| "size_level srv (d # ds) acc = io_bind (list_directory srv d) (\<lambda>es. size_level srv ds (add_sizes es acc))"

text \<open>
  The walk goes level by level; the directories of one level are listed in turn (the code lists up to
  eight at a time and reads the replies in order). A server can make it endless, hence the fuel:
  \<open>None\<close> is a walk still going on after so many levels.
\<close>

fun directory_size_from :: "nat \<Rightarrow> 'w server \<Rightarrow> rstring list \<Rightarrow> u64 \<Rightarrow> ('w, u64 option) io" where
  "directory_size_from fuel srv [] sz = ret (Some sz)"
| "directory_size_from 0 srv (d # ds) sz = ret None"
| "directory_size_from (Suc n) srv (d # ds) sz =
     io_bind (size_level srv (d # ds) (sz, [])) (\<lambda>(sz', nxt). directory_size_from n srv nxt sz')"

definition directory_size :: "nat \<Rightarrow> 'w server \<Rightarrow> rstring \<Rightarrow> ('w, u64 option) io" where
  "directory_size fuel srv p = directory_size_from fuel srv [p] 0"

text \<open>\<open>str::parse::<u64>\<close>: an optional plus sign, then digits without overflow.\<close>

definition parse_u64 :: "rstring \<Rightarrow> u64 option" where
  "parse_u64 s =
     (let d = (case s of [] \<Rightarrow> [] | c # t \<Rightarrow> if c = 43 \<and> t \<noteq> [] then t else s) in
      if d \<noteq> [] \<and> list_all is_ascii_digit d then parse_u64_digits d else None)"

definition parse_du_bytes :: "u8 list \<Rightarrow> u64 option" where
  "parse_du_bytes stdout =
     (case from_utf8 stdout of
        None \<Rightarrow> None
      | Some t \<Rightarrow> (case lines_of t of
          [] \<Rightarrow> None
        | l # _ \<Rightarrow> parse_u64 (takeWhile (\<lambda>c. \<not> is_whitespace c) (trim l))))"

subsection \<open>Proof rules\<close>

named_theorems emits_rules \<open>which requests a program sends\<close>

definition emits :: "(sftp_req \<Rightarrow> bool) \<Rightarrow> ('w, 'a) io \<Rightarrow> bool" where
  "emits P m \<longleftrightarrow> (\<forall>s. \<exists>new. sent (snd (m s)) = sent s @ new \<and> list_all P new)"

lemma emits_ret [emits_rules]: "emits P (ret x)"
  by (simp add: emits_def ret_def)

lemma emits_raise [emits_rules]: "emits P (raise e)"
  by (simp add: emits_def raise_def)

lemma emits_lift [emits_rules]: "emits P (lift_result r)"
  by (simp add: emits_def lift_result_def)

lemma emits_attempt [emits_rules]: "emits P m \<Longrightarrow> emits P (attempt m)"
proof -
  have "snd (attempt m s) = snd (m s)" for s by (simp add: attempt_def split: prod.splits sum.splits)
  then show "emits P m \<Longrightarrow> emits P (attempt m)" by (simp add: emits_def)
qed

lemma emits_bail_if [emits_rules]: "emits P (bail_if c e)"
  by (simp add: bail_if_def emits_ret emits_raise)

lemma emits_request [emits_rules]: "P q \<Longrightarrow> emits P (request srv q)"
  by (simp add: emits_def request_def split: prod.splits)

lemma emits_bind [emits_rules]:
  assumes "emits P m" and "\<And>x. emits P (f x)"
  shows "emits P (io_bind m f)"
  unfolding emits_def
proof
  fix s
  obtain r s1 where m: "m s = (r, s1)" by (cases "m s")
  obtain new where new: "sent s1 = sent s @ new" "list_all P new"
    using assms(1) m unfolding emits_def by (metis snd_conv)
  show "\<exists>new. sent (snd (io_bind m f s)) = sent s @ new \<and> list_all P new"
  proof (cases r)
    case (Inl e)
    then show ?thesis using m new by (simp add: io_bind_def)
  next
    case (Inr x)
    obtain new' where "sent (snd (f x s1)) = sent s1 @ new'" "list_all P new'"
      using assms(2) unfolding emits_def by blast
    then show ?thesis using m new Inr by (intro exI [of _ "new @ new'"]) (simp add: io_bind_def)
  qed
qed

lemma emits_each [emits_rules]: "(\<And>x. x \<in> set xs \<Longrightarrow> emits P (f x)) \<Longrightarrow> emits P (io_each f xs)"
  by (induction xs) (auto intro: emits_rules)

lemma emits_mono: "emits P m \<Longrightarrow> (\<And>q. P q \<Longrightarrow> Q q) \<Longrightarrow> emits Q m"
  unfolding emits_def list_all_iff by blast

lemma emits_session [emits_rules]:
  assumes "emits P body" and "P OpenSession" and "P CloseSession"
  shows "emits P (with_session srv body)"
proof -
  have ok: "emits P (ok_request srv q)" if "P q" for q
    unfolding ok_request_def using that by (auto intro!: emits_rules)
  have "emits P (\<lambda>s. case body s of (r, s1) \<Rightarrow> case ok_request srv CloseSession s1 of (c, s2) \<Rightarrow>
      (and_then r (\<lambda>x. and_then c (\<lambda>_. Inr x)), s2))"
    unfolding emits_def
  proof
    fix s
    obtain r s1 where b: "body s = (r, s1)" by (cases "body s")
    obtain c s2 where k: "ok_request srv CloseSession s1 = (c, s2)" by (cases "ok_request srv CloseSession s1")
    obtain n1 where "sent s1 = sent s @ n1" "list_all P n1"
      using assms(1) b unfolding emits_def by (metis snd_conv)
    moreover obtain n2 where "sent s2 = sent s1 @ n2" "list_all P n2"
      using ok [OF assms(3)] k unfolding emits_def by (metis snd_conv)
    ultimately show "\<exists>new. sent (snd (case body s of (r, s1) \<Rightarrow> case ok_request srv CloseSession s1 of (c, s2) \<Rightarrow>
        (and_then r (\<lambda>x. and_then c (\<lambda>_. Inr x)), s2))) = sent s @ new \<and> list_all P new"
      using b k by (intro exI [of _ "n1 @ n2"]) simp
  qed
  then show ?thesis
    unfolding with_session_def using ok [OF assms(2)] by (intro emits_bind) simp_all
qed

text \<open>Requests that change nothing.\<close>

fun disk_read_only :: "disk_req \<Rightarrow> bool" where
  "disk_read_only (DStat _) = True"
| "disk_read_only _ = False"

fun read_only :: "sftp_req \<Rightarrow> bool" where
  "read_only (LStat _) = True"
| "read_only (ReadDir _) = True"
| "read_only (ReadLink _) = True"
| "read_only (TryExists _) = True"
| "read_only (ReadUpTo _ _) = True"
| "read_only (CloseFile _) = True"
| "read_only (OpenFile _ flags) = (flags = [READ])"
| "read_only (ReadAt _ _) = True"
| "read_only (OnDisk d) = disk_read_only d"
| "read_only OpenSession = True"
| "read_only CloseSession = True"
| "read_only _ = False"

lemma emits_ok [emits_rules]: "P q \<Longrightarrow> emits P (ok_request srv q)"
  unfolding ok_request_def by (auto intro!: emits_rules)

lemma emits_lstat [emits_rules]:
  "P (LStat p) \<Longrightarrow> emits P (symlink_metadata srv p)"
  "P (LStat p) \<Longrightarrow> emits P (remote_symlink_metadata_if_exists srv p)"
  unfolding symlink_metadata_def remote_symlink_metadata_if_exists_def
  by (auto intro!: emits_rules split: sftp_resp.splits)

lemma emits_read_dir [emits_rules]: "P (ReadDir p) \<Longrightarrow> emits P (read_dir srv p)"
  unfolding read_dir_def by (auto intro!: emits_rules split: sftp_resp.splits)

lemma emits_try_exists [emits_rules]: "P (TryExists p) \<Longrightarrow> emits P (try_exists srv p)"
  unfolding try_exists_def by (auto intro!: emits_rules split: sftp_resp.splits)

lemma emits_read_link [emits_rules]: "P (ReadLink p) \<Longrightarrow> emits P (read_link srv p)"
  unfolding read_link_def by (auto intro!: emits_rules split: sftp_resp.splits)

lemma emits_list_directory [emits_rules]: "P (ReadDir p) \<Longrightarrow> emits P (list_directory srv p)"
  unfolding list_directory_def by (auto intro!: emits_rules)

lemma emits_stat_path [emits_rules]: "P (LStat p) \<Longrightarrow> P (ReadLink p) \<Longrightarrow> emits P (stat_path srv p)"
  unfolding stat_path_def by (auto intro!: emits_rules simp: Let_def)

text \<open>Running a sequence to its end.\<close>

lemma io_bind_ok: "io_bind m f s = (Inr y, s') \<longleftrightarrow> (\<exists>x s1. m s = (Inr x, s1) \<and> f x s1 = (Inr y, s'))"
  by (auto simp: io_bind_def split: prod.splits sum.splits)

lemma ret_ok: "ret x s = (Inr y, s') \<longleftrightarrow> y = x \<and> s' = s"
  by (auto simp: ret_def)

lemma raise_ok: "raise e s = (Inr y, s') \<longleftrightarrow> False"
  by (simp add: raise_def)

lemma lift_ok: "lift_result r s = (Inr y, s') \<longleftrightarrow> r = Inr y \<and> s' = s"
  by (auto simp: lift_result_def)

lemma bail_if_ok: "bail_if c e s = (Inr y, s') \<longleftrightarrow> \<not> c \<and> s' = s"
  by (auto simp: bail_if_def ret_def raise_def)

lemmas io_simps = io_bind_ok ret_ok raise_ok lift_ok bail_if_ok

subsection \<open>Listings\<close>

lemma dir_entries_ok:
  assumes "dir_entries p ns = Inr es"
  shows "\<forall>e \<in> set es. validate_remote_entry_name (de_name e) = Inr () \<and> de_path e = join_remote_child p (de_name e) \<and>
    (\<exists>a. (de_name e, a) \<in> set ns \<and> de_metadata e = map_metadata a (at_type a))"
  using assms
  by (induction p ns arbitrary: es rule: dir_entries.induct)
     (fastforce simp: and_then_eq_Inr map_ok_eq_Inr split: if_splits)+

lemma list_directory_ok:
  assumes "list_directory srv p s = (Inr es, s')"
  shows "sorted (map de_name es) \<and>
    (\<forall>e \<in> set es. validate_remote_entry_name (de_name e) = Inr () \<and> de_path e = join_remote_child p (de_name e))"
proof -
  obtain ns fs where "dir_entries p ns = Inr fs" "es = sort_key de_name fs"
    using assms by (auto simp: list_directory_def io_simps map_ok_eq_Inr)
  with dir_entries_ok [of p ns fs] show ?thesis by simp
qed

end
