(* ===== verification/Remote_Mutation.thy ===== *)
theory Remote_Mutation
  imports Sftp_Session "HOL-Library.Sublist"
begin

section \<open>Remote file operations\<close>

text \<open>
  Model of \<open>remote_mutation.rs\<close> against an arbitrary SFTP server: creating, renaming and removing one
  entry, small files, and the two-phase recursive deletion (plan, then re-scan, compare and delete).
\<close>

definition DEFAULT_REMOTE_DELETE_MAX_ENTRIES :: nat where "DEFAULT_REMOTE_DELETE_MAX_ENTRIES = 10000"
definition MAX_REMOTE_DELETE_MAX_ENTRIES :: nat where "MAX_REMOTE_DELETE_MAX_ENTRIES = 100000"
definition MAX_SMALL_FILE_BYTES :: nat where "MAX_SMALL_FILE_BYTES = 1024 * 1024"

record RemoteDeleteOptions =
  max_entries :: nat

definition delete_options_default :: RemoteDeleteOptions where
  "delete_options_default = \<lparr>max_entries = DEFAULT_REMOTE_DELETE_MAX_ENTRIES\<rparr>"

definition delete_options_validated :: "RemoteDeleteOptions \<Rightarrow> sftp_error + RemoteDeleteOptions" where
  "delete_options_validated opts =
     (if max_entries opts = 0 then Inl BudgetZero
      else if MAX_REMOTE_DELETE_MAX_ENTRIES < max_entries opts then Inl BudgetTooLarge
      else Inr opts)"

record RemoteDeleteEntry =
  rd_path :: rstring
  rd_type :: RemoteFileType

record RemoteDeletePlan =
  rp_root :: rstring
  rp_files :: u64
  rp_directories :: u64
  rp_symlinks :: u64
  rp_entries :: "RemoteDeleteEntry list"

definition total_entries :: "RemoteDeletePlan \<Rightarrow> nat" where "total_entries plan = length (rp_entries plan)"

record RemoteDeleteSummary =
  rs_files :: u64
  rs_directories :: u64
  rs_symlinks :: u64

subsection \<open>Paths\<close>

definition mutation_body :: "rstring \<Rightarrow> rstring" where
  "mutation_body p =
     (case strip_prefix (lit ''./'') p of
        Some b \<Rightarrow> b
      | None \<Rightarrow> (case strip_prefix (lit ''/'') p of Some b \<Rightarrow> b | None \<Rightarrow> p))"

definition validate_mutation_path :: "rstring \<Rightarrow> sftp_error + unit" where
  "validate_mutation_path p =
     (if p = [] then Inl MutationEmpty
      else if list_ex is_control p \<or> 0 \<in> set p then Inl MutationControl
      else if p = lit ''/'' \<or> p = lit ''.'' then Inl MutationRoot
      else
        let body = mutation_body p in
        if body = [] \<or> ends_with [47] body then Inl MutationNotConcrete
        else try_each (\<lambda>c. if c = [] \<or> c = lit ''.'' \<or> c = lit ''..'' then Inl MutationAmbiguous else Inr ())
               (split_on (\<lambda>c. c = 47) body))"

definition remote_parent :: "rstring \<Rightarrow> rstring" where
  "remote_parent p =
     (case rsplit_once 47 p of
        Some (parent, _) \<Rightarrow> if parent = [] then lit ''/'' else parent
      | None \<Rightarrow> lit ''.'')"

definition ensure_same_parent :: "rstring \<Rightarrow> rstring \<Rightarrow> sftp_error + unit" where
  "ensure_same_parent source destination =
     (if remote_parent source \<noteq> remote_parent destination then Inl RenameAcross else Inr ())"

definition path_exists_no_follow :: "'w server \<Rightarrow> rstring \<Rightarrow> ('w, bool) io" where
  "path_exists_no_follow srv p = io_bind (request srv (LStat p)) (\<lambda>r.
     case r of RAttrs _ \<Rightarrow> ret True | RNoSuchFile \<Rightarrow> ret False | _ \<Rightarrow> raise (RequestFailed (LStat p)))"

subsection \<open>Single entries\<close>

definition create_directory :: "'w server \<Rightarrow> rstring \<Rightarrow> ('w, unit) io" where
  "create_directory srv p = io_bind (path_exists_no_follow srv p) (\<lambda>ex.
     if ex then raise (TargetExists p) else ok_request srv (CreateDir p))"

definition create_remote_directory :: "'w server \<Rightarrow> rstring \<Rightarrow> ('w, unit) io" where
  "create_remote_directory srv p =
     io_bind (lift_result (validate_mutation_path p)) (\<lambda>_. with_session srv (create_directory srv p))"

definition rename_path :: "'w server \<Rightarrow> rstring \<Rightarrow> rstring \<Rightarrow> ('w, RemoteFileType) io" where
  "rename_path srv source destination =
     io_bind (stat_path srv source) (\<lambda>st.
     io_bind (path_exists_no_follow srv destination) (\<lambda>ex.
       if ex then raise (TargetExists destination)
       else io_bind (ok_request srv (Rename source destination)) (\<lambda>_.
         ret (file_type (st_metadata st)))))"

definition rename_remote_path :: "'w server \<Rightarrow> rstring \<Rightarrow> rstring \<Rightarrow> ('w, RemoteFileType) io" where
  "rename_remote_path srv source destination =
     io_bind (lift_result (validate_mutation_path source)) (\<lambda>_.
     io_bind (lift_result (validate_mutation_path destination)) (\<lambda>_.
     io_bind (lift_result (ensure_same_parent source destination)) (\<lambda>_.
     io_bind (bail_if (source = destination) RenameSame) (\<lambda>_.
       with_session srv (rename_path srv source destination)))))"

definition remove_path :: "'w server \<Rightarrow> rstring \<Rightarrow> ('w, RemoteFileType) io" where
  "remove_path srv p =
     io_bind (stat_path srv p) (\<lambda>st.
       let t = file_type (st_metadata st) in
       case t of
         Directory \<Rightarrow>
           io_bind (list_directory srv p) (\<lambda>es.
             if es \<noteq> [] then raise (NotEmpty p)
             else io_bind (ok_request srv (RemoveDir p)) (\<lambda>_. ret t))
       | Other \<Rightarrow> raise (Unsupported p)
       | _ \<Rightarrow> io_bind (ok_request srv (RemoveFile p)) (\<lambda>_. ret t))"

definition remove_remote_path :: "'w server \<Rightarrow> rstring \<Rightarrow> ('w, RemoteFileType) io" where
  "remove_remote_path srv p =
     io_bind (lift_result (validate_mutation_path p)) (\<lambda>_. with_session srv (remove_path srv p))"

subsection \<open>Small files\<close>

definition create_file :: "'w server \<Rightarrow> rstring \<Rightarrow> ('w, unit) io" where
  "create_file srv p = io_bind (path_exists_no_follow srv p) (\<lambda>ex.
     if ex then raise (TargetExists p)
     else io_bind (ok_request srv (OpenFile p [CREATE, EXCLUDE, WRITE])) (\<lambda>_.
       ok_request srv (CloseFile p)))"

definition create_remote_file :: "'w server \<Rightarrow> rstring \<Rightarrow> ('w, unit) io" where
  "create_remote_file srv p =
     io_bind (lift_result (validate_mutation_path p)) (\<lambda>_. with_session srv (create_file srv p))"

text \<open>The reader keeps at most one byte more than the limit, whatever the server sends.\<close>

definition read_file :: "'w server \<Rightarrow> rstring \<Rightarrow> ('w, u8 list) io" where
  "read_file srv p =
     io_bind (stat_path srv p) (\<lambda>st.
     io_bind (bail_if (file_type (st_metadata st) \<noteq> File) (NotRegularFile p)) (\<lambda>_.
     io_bind (bail_if (case md_size (st_metadata st) of None \<Rightarrow> False | Some n \<Rightarrow> MAX_SMALL_FILE_BYTES < unat n)
                (FileTooBig p)) (\<lambda>_.
     io_bind (ok_request srv (OpenFile p [READ])) (\<lambda>_.
     io_bind (request srv (ReadUpTo p (MAX_SMALL_FILE_BYTES + 1))) (\<lambda>r.
       case r of
         RData data \<Rightarrow>
           let content = take (MAX_SMALL_FILE_BYTES + 1) data in
           if MAX_SMALL_FILE_BYTES < length content then raise (FileTooBig p) else ret content
       | _ \<Rightarrow> raise (RequestFailed (ReadUpTo p (MAX_SMALL_FILE_BYTES + 1))))))))"

definition read_remote_file :: "'w server \<Rightarrow> rstring \<Rightarrow> ('w, u8 list) io" where
  "read_remote_file srv p =
     io_bind (lift_result (validate_mutation_path p)) (\<lambda>_. with_session srv (read_file srv p))"

definition write_file :: "'w server \<Rightarrow> rstring \<Rightarrow> u8 list \<Rightarrow> ('w, unit) io" where
  "write_file srv p content =
     io_bind (attempt (stat_path srv p)) (\<lambda>st.
     io_bind (bail_if (case st of None \<Rightarrow> False | Some st \<Rightarrow> file_type (st_metadata st) = Directory)
                (TargetIsDirectory p)) (\<lambda>_.
     io_bind (ok_request srv (OpenFile p [CREATE, TRUNCATE, WRITE])) (\<lambda>_.
     io_bind (ok_request srv (WriteAt p 0 content)) (\<lambda>_.
       ok_request srv (CloseFile p)))))"

definition write_remote_file :: "'w server \<Rightarrow> rstring \<Rightarrow> u8 list \<Rightarrow> ('w, nat) io" where
  "write_remote_file srv p content =
     io_bind (lift_result (validate_mutation_path p)) (\<lambda>_.
     io_bind (bail_if (MAX_SMALL_FILE_BYTES < length content) ContentTooLarge) (\<lambda>_.
     io_bind (with_session srv (write_file srv p content)) (\<lambda>_. ret (length content))))"

subsection \<open>Recursive deletion\<close>

definition checked_increment :: "u64 \<Rightarrow> sftp_error + u64" where
  "checked_increment v = ok_or CounterOverflow (checked_add_u64 v 1)"

definition ensure_delete_plan_budget :: "RemoteDeletePlan \<Rightarrow> RemoteDeleteOptions \<Rightarrow> sftp_error + unit" where
  "ensure_delete_plan_budget plan opts =
     (if max_entries opts < total_entries plan then Inl BudgetExceeded else Inr ())"

text \<open>One entry of a listing: counted by type, pushed on the stack if a directory, recorded, bounded.\<close>

definition count_entry :: "RemoteFileType \<Rightarrow> rstring \<Rightarrow> RemoteDeletePlan \<Rightarrow> sftp_error + RemoteDeletePlan" where
  "count_entry t p plan =
     (case t of
        Directory \<Rightarrow> map_ok (\<lambda>n. plan\<lparr>rp_directories := n\<rparr>) (checked_increment (rp_directories plan))
      | File \<Rightarrow> map_ok (\<lambda>n. plan\<lparr>rp_files := n\<rparr>) (checked_increment (rp_files plan))
      | Symlink \<Rightarrow> map_ok (\<lambda>n. plan\<lparr>rp_symlinks := n\<rparr>) (checked_increment (rp_symlinks plan))
      | Other \<Rightarrow> Inl (Unsupported p))"

fun plan_entries ::
  "RemoteDeleteOptions \<Rightarrow> RemoteDirEntry list \<Rightarrow> RemoteDeletePlan \<Rightarrow> rstring list \<Rightarrow>
   sftp_error + RemoteDeletePlan \<times> rstring list" where
  "plan_entries opts [] plan dirs = Inr (plan, dirs)"
| "plan_entries opts (e # es) plan dirs =
     (let t = file_type (de_metadata e) in
      and_then (count_entry t (de_path e) plan) (\<lambda>plan1.
        let plan2 = plan1\<lparr>rp_entries := rp_entries plan1 @ [\<lparr>rd_path = de_path e, rd_type = t\<rparr>]\<rparr> in
        and_then (ensure_delete_plan_budget plan2 opts) (\<lambda>_.
          plan_entries opts es plan2 (if t = Directory then de_path e # dirs else dirs))))"

lemma count_entry_entries: "count_entry t p plan = Inr plan1 \<Longrightarrow> rp_entries plan1 = rp_entries plan \<and> rp_root plan1 = rp_root plan"
  by (auto simp: count_entry_def map_ok_eq_Inr split: RemoteFileType.splits)

abbreviation planned :: "RemoteDirEntry \<Rightarrow> RemoteDeleteEntry" where
  "planned e \<equiv> \<lparr>rd_path = de_path e, rd_type = file_type (de_metadata e)\<rparr>"

lemma plan_entries_step:
  assumes "plan_entries opts (e # es) plan dirs = Inr (plan', dirs')"
  shows "\<exists>plan1. count_entry (file_type (de_metadata e)) (de_path e) plan = Inr plan1 \<and>
    length (rp_entries plan) < max_entries opts \<and>
    plan_entries opts es (plan1\<lparr>rp_entries := rp_entries plan @ [planned e]\<rparr>)
      (if file_type (de_metadata e) = Directory then de_path e # dirs else dirs) = Inr (plan', dirs')"
proof -
  let ?t = "file_type (de_metadata e)"
  obtain plan1 where c: "count_entry ?t (de_path e) plan = Inr plan1"
      "ensure_delete_plan_budget (plan1\<lparr>rp_entries := rp_entries plan1 @ [planned e]\<rparr>) opts = Inr ()"
      "plan_entries opts es (plan1\<lparr>rp_entries := rp_entries plan1 @ [planned e]\<rparr>)
        (if ?t = Directory then de_path e # dirs else dirs) = Inr (plan', dirs')"
  proof (cases "count_entry ?t (de_path e) plan")
    case (Inl x)
    then show ?thesis using assms by (simp add: Let_def)
  next
    case (Inr plan1)
    let ?plan2 = "plan1\<lparr>rp_entries := rp_entries plan1 @ [planned e]\<rparr>"
    have r: "and_then (ensure_delete_plan_budget ?plan2 opts) (\<lambda>_.
        plan_entries opts es ?plan2 (if ?t = Directory then de_path e # dirs else dirs)) = Inr (plan', dirs')"
      using assms by (simp only: plan_entries.simps Let_def Inr and_then.simps)
    then have "ensure_delete_plan_budget ?plan2 opts = Inr ()"
      by (cases "ensure_delete_plan_budget ?plan2 opts") simp_all
    with r that [OF Inr] show ?thesis by (simp only: and_then.simps)
  qed
  have e: "rp_entries plan1 = rp_entries plan" using count_entry_entries [OF c(1)] by blast
  have "length (rp_entries plan) < max_entries opts"
    using c(2) by (simp add: ensure_delete_plan_budget_def total_entries_def e split: if_splits)
  with c(1,3) show ?thesis unfolding e by blast
qed

declare plan_entries.simps(2) [simp del]

lemma plan_entries_length:
  "plan_entries opts es plan dirs = Inr (plan', dirs') \<Longrightarrow>
     length (rp_entries plan') = length (rp_entries plan) + length es \<and>
     length dirs' \<le> length dirs + length es \<and>
     (es \<noteq> [] \<longrightarrow> length (rp_entries plan') \<le> max_entries opts)"
proof (induction es arbitrary: plan dirs)
  case (Cons e es)
  obtain plan1 where "length (rp_entries plan) < max_entries opts"
      "plan_entries opts es (plan1\<lparr>rp_entries := rp_entries plan @ [planned e]\<rparr>)
        (if file_type (de_metadata e) = Directory then de_path e # dirs else dirs) = Inr (plan', dirs')"
    using plan_entries_step [OF Cons.prems] by blast
  from Cons.IH [OF this(2)] this(1) show ?case by (cases "es = []") (auto split: if_splits)
qed simp

text \<open>The loop over the stack of directories; the budget on entries ends it for every server.\<close>

function delete_scan ::
  "'w server \<Rightarrow> RemoteDeleteOptions \<Rightarrow> RemoteDeletePlan \<Rightarrow> rstring list \<Rightarrow> ('w, RemoteDeletePlan) io" where
  "delete_scan srv opts plan [] s = (Inr plan, s)"
| "delete_scan srv opts plan (d # ds) s =
     (case list_directory srv d s of
        (Inl e, s1) \<Rightarrow> (Inl e, s1)
      | (Inr es, s1) \<Rightarrow>
          (case plan_entries opts es plan ds of
             Inl e \<Rightarrow> (Inl e, s1)
           | Inr (plan', ds') \<Rightarrow> delete_scan srv opts plan' ds' s1))"
  by pat_completeness auto
termination
proof (relation "measure (\<lambda>(srv, opts, plan, ds, s). 2 * (max_entries opts - length (rp_entries plan)) + length ds)")
  fix srv :: "'w server" and opts plan d ds s x s1 r es y plan' ds'
  assume "(x, s1) = list_directory srv d (s :: 'w session)" "x = Inr es" "plan_entries opts es plan ds = Inr y" "(plan', ds') = y"
  then have "plan_entries opts es plan ds = Inr (plan', ds')" by simp
  from plan_entries_length [OF this]
  show "((srv, opts, plan', ds', s1), srv, opts, plan, d # ds, s) \<in> measure
      (\<lambda>(srv, opts, plan, ds, s). 2 * (max_entries opts - length (rp_entries plan)) + length ds)"
    by (cases "es = []") auto
qed simp

definition initial_plan :: "rstring \<Rightarrow> RemoteDeletePlan" where
  "initial_plan root =
     \<lparr>rp_root = root, rp_files = 0, rp_directories = 1, rp_symlinks = 0,
      rp_entries = [\<lparr>rd_path = root, rd_type = Directory\<rparr>]\<rparr>"

definition build_delete_plan :: "'w server \<Rightarrow> rstring \<Rightarrow> RemoteDeleteOptions \<Rightarrow> ('w, RemoteDeletePlan) io" where
  "build_delete_plan srv root opts =
     io_bind (stat_path srv root) (\<lambda>st.
     io_bind (bail_if (file_type (st_metadata st) \<noteq> Directory) (RootNotDirectory root)) (\<lambda>_.
     io_bind (lift_result (ensure_delete_plan_budget (initial_plan root) opts)) (\<lambda>_.
       delete_scan srv opts (initial_plan root) [root])))"

definition delete_entry :: "'w server \<Rightarrow> RemoteDeleteEntry \<Rightarrow> ('w, unit) io" where
  "delete_entry srv e =
     io_bind (stat_path srv (rd_path e)) (\<lambda>st.
     io_bind (bail_if (file_type (st_metadata st) \<noteq> rd_type e) (TypeChanged (rd_path e))) (\<lambda>_.
       case rd_type e of
         Directory \<Rightarrow>
           io_bind (list_directory srv (rd_path e)) (\<lambda>remaining.
           io_bind (bail_if (remaining \<noteq> []) (NotEmpty (rd_path e))) (\<lambda>_.
             ok_request srv (RemoveDir (rd_path e))))
       | Other \<Rightarrow> raise (Unsupported (rd_path e))
       | _ \<Rightarrow> ok_request srv (RemoveFile (rd_path e))))"

definition execute_delete_plan ::
  "'w server \<Rightarrow> RemoteDeletePlan \<Rightarrow> RemoteDeleteOptions \<Rightarrow> ('w, RemoteDeleteSummary) io" where
  "execute_delete_plan srv approved opts =
     io_bind (build_delete_plan srv (rp_root approved) opts) (\<lambda>current.
     io_bind (bail_if (current \<noteq> approved) TreeChanged) (\<lambda>_.
     io_bind (io_each (delete_entry srv) (rev (rp_entries approved))) (\<lambda>_.
       ret \<lparr>rs_files = rp_files approved, rs_directories = rp_directories approved,
            rs_symlinks = rp_symlinks approved\<rparr>)))"

definition plan_remote_tree_removal ::
  "'w server \<Rightarrow> rstring \<Rightarrow> RemoteDeleteOptions \<Rightarrow> ('w, RemoteDeletePlan) io" where
  "plan_remote_tree_removal srv p opts =
     io_bind (lift_result (validate_mutation_path p)) (\<lambda>_.
     io_bind (lift_result (delete_options_validated opts)) (\<lambda>opts'.
       with_session srv (build_delete_plan srv p opts')))"

definition remove_remote_tree ::
  "'w server \<Rightarrow> RemoteDeletePlan \<Rightarrow> RemoteDeleteOptions \<Rightarrow> ('w, RemoteDeleteSummary) io" where
  "remove_remote_tree srv plan opts =
     io_bind (lift_result (validate_mutation_path (rp_root plan))) (\<lambda>_.
     io_bind (lift_result (delete_options_validated opts)) (\<lambda>opts'.
     io_bind (bail_if (max_entries opts' < total_entries plan) BudgetExceeded) (\<lambda>_.
       with_session srv (execute_delete_plan srv plan opts'))))"

subsection \<open>Footprints\<close>

text \<open>
  \<open>mutates m L\<close>: for every server, the requests of \<open>m\<close> that change something are an initial part of
  \<open>L\<close>, and all of \<open>L\<close> when \<open>m\<close> succeeds.
\<close>

named_theorems footprint \<open>which changing requests a program sends\<close>

definition mutations :: "sftp_req list \<Rightarrow> sftp_req list" where
  "mutations = filter (\<lambda>q. \<not> read_only q)"

definition mutates :: "('w, 'a) io \<Rightarrow> sftp_req list \<Rightarrow> bool" where
  "mutates m L \<longleftrightarrow> (\<forall>s. \<exists>new. sent (snd (m s)) = sent s @ new \<and> prefix (mutations new) L \<and>
     (is_ok (fst (m s)) \<longrightarrow> mutations new = L))"

lemma mutations_append [simp]: "mutations (a @ b) = mutations a @ mutations b"
  by (simp add: mutations_def)

lemma mutations_Nil [simp]: "mutations [] = []"
  by (simp add: mutations_def)

lemma mutates_reads [footprint]:
  assumes "emits read_only m"
  shows "mutates m []"
  unfolding mutates_def
proof
  fix s
  obtain new where "sent (snd (m s)) = sent s @ new" "list_all read_only new"
    using assms unfolding emits_def by blast
  moreover have "mutations new = []"
    using \<open>list_all read_only new\<close> by (simp add: mutations_def list_all_iff)
  ultimately show "\<exists>new. sent (snd (m s)) = sent s @ new \<and> prefix (mutations new) [] \<and>
      (is_ok (fst (m s)) \<longrightarrow> mutations new = [])" by auto
qed

lemma mutates_raise [footprint]: "mutates (raise e) L"
  by (simp add: mutates_def raise_def)

lemma mutates_ok [footprint]:
  assumes "\<not> read_only q"
  shows "mutates (ok_request srv q) [q]"
  unfolding mutates_def
proof
  fix s :: "'a session"
  obtain r w where "srv q (world s) = (r, w)" by (cases "srv q (world s)")
  then have "sent (snd (ok_request srv q s)) = sent s @ [q]"
    by (auto simp: ok_request_def io_bind_def request_def ret_def raise_def)
  moreover have "mutations [q] = [q]" using assms by (simp add: mutations_def)
  ultimately show "\<exists>new. sent (snd (ok_request srv q s)) = sent s @ new \<and> prefix (mutations new) [q] \<and>
      (is_ok (fst (ok_request srv q s)) \<longrightarrow> mutations new = [q])" by auto
qed

lemma mutates_bind [footprint]:
  assumes "mutates m A" and "\<And>x. mutates (f x) B"
  shows "mutates (io_bind m f) (A @ B)"
  unfolding mutates_def
proof
  fix s
  obtain r s1 where m: "m s = (r, s1)" by (cases "m s")
  obtain n1 where n1: "sent s1 = sent s @ n1" "prefix (mutations n1) A" "is_ok r \<longrightarrow> mutations n1 = A"
    using assms(1) m unfolding mutates_def by (metis fst_conv snd_conv)
  show "\<exists>new. sent (snd (io_bind m f s)) = sent s @ new \<and> prefix (mutations new) (A @ B) \<and>
      (is_ok (fst (io_bind m f s)) \<longrightarrow> mutations new = A @ B)"
  proof (cases r)
    case (Inl e)
    then show ?thesis using m n1 by (intro exI [of _ n1]) (simp add: io_bind_def)
  next
    case (Inr x)
    obtain n2 where "sent (snd (f x s1)) = sent s1 @ n2" "prefix (mutations n2) B"
        "is_ok (fst (f x s1)) \<longrightarrow> mutations n2 = B"
      using assms(2) unfolding mutates_def by metis
    then show ?thesis using m n1 Inr by (intro exI [of _ "n1 @ n2"]) (simp add: io_bind_def)
  qed
qed

lemma mutates_read_bind: "emits read_only m \<Longrightarrow> (\<And>x. mutates (f x) B) \<Longrightarrow> mutates (io_bind m f) B"
  using mutates_bind [of m "[]" f B] mutates_reads by auto

lemma mutates_bind_read: "mutates m A \<Longrightarrow> (\<And>x. emits read_only (f x)) \<Longrightarrow> mutates (io_bind m f) A"
  using mutates_bind [of m A f "[]"] mutates_reads by auto

lemma mutates_bail_bind: "(\<not> c \<Longrightarrow> mutates m B) \<Longrightarrow> mutates (io_bind (bail_if c e) (\<lambda>_. m)) B"
  by (cases c) (auto simp: bail_if_def io_bind_def raise_def ret_def mutates_def)

lemma mutates_each [footprint]:
  "(\<And>x. mutates (f x) [g x]) \<Longrightarrow> mutates (io_each f xs) (map g xs)"
proof (induction xs)
  case Nil
  show ?case using mutates_reads [OF emits_ret] by simp
next
  case (Cons x xs)
  show ?case using mutates_bind [OF Cons.prems Cons.IH [OF Cons.prems], of x] by simp
qed

lemma mutates_session [footprint]:
  assumes "mutates body L"
  shows "mutates (with_session srv body) L"
proof -
  have close: "mutates (\<lambda>s. case body s of (r, s1) \<Rightarrow> case ok_request srv CloseSession s1 of (c, s2) \<Rightarrow>
      (and_then r (\<lambda>x. and_then c (\<lambda>_. Inr x)), s2)) L"
    unfolding mutates_def
  proof
    fix s
    obtain r s1 where b: "body s = (r, s1)" by (cases "body s")
    obtain c s2 where k: "ok_request srv CloseSession s1 = (c, s2)" by (cases "ok_request srv CloseSession s1")
    obtain n1 where n1: "sent s1 = sent s @ n1" "prefix (mutations n1) L" "is_ok r \<longrightarrow> mutations n1 = L"
      using assms b unfolding mutates_def by (metis fst_conv snd_conv)
    have "mutates (ok_request srv CloseSession) []" by (rule mutates_reads) (simp add: emits_ok)
    then obtain n2 where n2: "sent s2 = sent s1 @ n2" "prefix (mutations n2) []"
      using k unfolding mutates_def by (metis snd_conv)
    show "\<exists>new. sent (snd (case body s of (r, s1) \<Rightarrow> case ok_request srv CloseSession s1 of (c, s2) \<Rightarrow>
        (and_then r (\<lambda>x. and_then c (\<lambda>_. Inr x)), s2))) = sent s @ new \<and> prefix (mutations new) L \<and>
        (is_ok (fst (case body s of (r, s1) \<Rightarrow> case ok_request srv CloseSession s1 of (c, s2) \<Rightarrow>
        (and_then r (\<lambda>x. and_then c (\<lambda>_. Inr x)), s2))) \<longrightarrow> mutations new = L)"
      using b k n1 n2 by (intro exI [of _ "n1 @ n2"]) (cases r; simp)
  qed
  then show ?thesis
    unfolding with_session_def by (intro mutates_read_bind) (simp_all add: emits_ok)
qed

lemma emits_path_exists [emits_rules]: "P (LStat p) \<Longrightarrow> emits P (path_exists_no_follow srv p)"
  unfolding path_exists_no_follow_def by (auto intro!: emits_rules split: sftp_resp.splits)

subsection \<open>Footprints of the operations\<close>

lemma create_directory_footprint: "mutates (create_directory srv p) [CreateDir p]"
  unfolding create_directory_def
  by (intro mutates_read_bind) (auto intro: emits_path_exists footprint)

lemma rename_path_footprint: "mutates (rename_path srv a b) [Rename a b]"
  unfolding rename_path_def
  by (intro mutates_read_bind emits_stat_path emits_path_exists)
     (auto intro!: mutates_bind_read emits_ret intro: footprint)

lemma create_file_footprint: "mutates (create_file srv p) [OpenFile p [CREATE, EXCLUDE, WRITE]]"
  unfolding create_file_def
  by (intro mutates_read_bind emits_path_exists)
     (auto intro!: mutates_bind_read emits_ok intro: footprint)

lemma write_file_footprint:
  "mutates (write_file srv p content) [OpenFile p [CREATE, TRUNCATE, WRITE], WriteAt p 0 content]"
proof -
  have "mutates (io_bind (ok_request srv (OpenFile p [CREATE, TRUNCATE, WRITE])) (\<lambda>_.
      io_bind (ok_request srv (WriteAt p 0 content)) (\<lambda>_. ok_request srv (CloseFile p))))
      ([OpenFile p [CREATE, TRUNCATE, WRITE]] @ [WriteAt p 0 content])"
    by (intro mutates_bind mutates_ok mutates_bind_read) (simp_all add: emits_ok)
  then show ?thesis
    unfolding write_file_def
    by (intro mutates_read_bind [OF emits_attempt [OF emits_stat_path]] mutates_bail_bind) simp_all
qed

lemma read_file_reads: "emits read_only (read_file srv p)"
  unfolding read_file_def by (auto intro!: emits_rules simp: Let_def split: sftp_resp.splits)

lemma delete_scan_reads: "emits read_only (delete_scan srv opts plan ds)"
proof -
  have "\<exists>new. sent (snd (delete_scan srv opts plan ds s)) = sent s @ new \<and> list_all read_only new" for s
  proof (induction srv opts plan ds s rule: delete_scan.induct)
    case (2 srv opts plan d ds s)
    obtain r s1 where l: "list_directory srv d s = (r, s1)" by (cases "list_directory srv d s")
    obtain n1 where n1: "sent s1 = sent s @ n1" "list_all read_only n1"
      using emits_list_directory [of read_only d srv] l unfolding emits_def by (metis read_only.simps(2) snd_conv)
    show ?case
    proof (cases r)
      case (Inl e)
      then show ?thesis using l n1 by simp
    next
      case (Inr es)
      show ?thesis
      proof (cases "plan_entries opts es plan ds")
        case (Inl e)
        then show ?thesis using l n1 Inr by simp
      next
        case (Inr y)
        obtain plan' ds' where y: "y = (plan', ds')" by (cases y)
        obtain n2 where "sent (snd (delete_scan srv opts plan' ds' s1)) = sent s1 @ n2" "list_all read_only n2"
          using "2.IH" [OF l [symmetric] \<open>r = Inr es\<close> Inr y [symmetric]] by blast
        then show ?thesis using l n1 Inr \<open>r = Inr es\<close> y by (intro exI [of _ "n1 @ n2"]) simp
      qed
    qed
  qed simp
  then show ?thesis by (simp add: emits_def)
qed

lemma build_delete_plan_reads [emits_rules]: "emits read_only (build_delete_plan srv root opts)"
  unfolding build_delete_plan_def by (auto intro!: emits_rules delete_scan_reads)

definition removal :: "RemoteDeleteEntry \<Rightarrow> sftp_req" where
  "removal e = (if rd_type e = Directory then RemoveDir (rd_path e) else RemoveFile (rd_path e))"

lemma delete_entry_footprint: "mutates (delete_entry srv e) [removal e]"
proof (cases "rd_type e")
  case Directory
  then show ?thesis
    unfolding delete_entry_def removal_def
    by (auto intro!: mutates_read_bind mutates_bail_bind emits_rules mutates_ok)
next
  case Other
  then show ?thesis
    unfolding delete_entry_def
    by (auto intro!: mutates_read_bind mutates_bail_bind emits_stat_path mutates_raise)
qed (auto simp: delete_entry_def removal_def intro!: mutates_read_bind mutates_bail_bind emits_stat_path mutates_ok)

lemma execute_footprint: "mutates (execute_delete_plan srv plan opts) (map removal (rev (rp_entries plan)))"
  unfolding execute_delete_plan_def
  by (intro mutates_read_bind build_delete_plan_reads mutates_bail_bind mutates_bind_read
        mutates_each delete_entry_footprint emits_ret)

lemma execute_unchanged:
  assumes "execute_delete_plan srv plan opts s = (r, s')" and "sent s' = sent s @ new" and "mutations new \<noteq> []"
  shows "\<exists>s1. build_delete_plan srv (rp_root plan) opts s = (Inr plan, s1)"
proof (rule ccontr)
  assume no: "\<not> ?thesis"
  obtain r1 s1 where b: "build_delete_plan srv (rp_root plan) opts s = (r1, s1)"
    by (cases "build_delete_plan srv (rp_root plan) opts s")
  have "s' = s1"
  proof (cases r1)
    case (Inl e)
    then show ?thesis using assms(1) b by (simp add: execute_delete_plan_def io_bind_def)
  next
    case (Inr current)
    then have "current \<noteq> plan" using no b by auto
    then show ?thesis using assms(1) b Inr by (simp add: execute_delete_plan_def io_bind_def bail_if_def raise_def)
  qed
  moreover obtain n where "sent s1 = sent s @ n" "list_all read_only n"
    using build_delete_plan_reads [of srv "rp_root plan" opts] b unfolding emits_def by (metis snd_conv)
  ultimately have "list_all read_only new" using assms(2) by simp
  with assms(3) show False by (simp add: mutations_def list_all_iff filter_empty_conv)
qed

subsection \<open>The shape of a deletion plan\<close>

text \<open>Every entry but the first was listed in a directory that stands before it.\<close>

definition tree_order :: "RemoteDeleteEntry list \<Rightarrow> bool" where
  "tree_order xs \<longleftrightarrow> (\<forall>i < length xs. 0 < i \<longrightarrow> (\<exists>j < i. rd_type (xs ! j) = Directory \<and>
     (\<exists>name. validate_remote_entry_name name = Inr () \<and> rd_path (xs ! i) = join_remote_child (rd_path (xs ! j)) name)))"

definition count_type :: "RemoteFileType \<Rightarrow> RemoteDeleteEntry list \<Rightarrow> nat" where
  "count_type t xs = length (filter (\<lambda>e. rd_type e = t) xs)"

lemma count_type_snoc [simp]: "count_type t (xs @ [e]) = count_type t xs + (if rd_type e = t then 1 else 0)"
  by (simp add: count_type_def)

definition plan_ok :: "RemoteDeleteOptions \<Rightarrow> RemoteDeletePlan \<Rightarrow> bool" where
  "plan_ok opts plan \<longleftrightarrow> tree_order (rp_entries plan) \<and>
     (\<exists>rest. rp_entries plan = \<lparr>rd_path = rp_root plan, rd_type = Directory\<rparr> # rest) \<and>
     length (rp_entries plan) \<le> max_entries opts \<and>
     unat (rp_files plan) = count_type File (rp_entries plan) \<and>
     unat (rp_directories plan) = count_type Directory (rp_entries plan) \<and>
     unat (rp_symlinks plan) = count_type Symlink (rp_entries plan) \<and>
     count_type Other (rp_entries plan) = 0"

definition known_directories :: "RemoteDeletePlan \<Rightarrow> rstring set \<Rightarrow> bool" where
  "known_directories plan ds \<longleftrightarrow> (\<forall>d \<in> ds. \<lparr>rd_path = d, rd_type = Directory\<rparr> \<in> set (rp_entries plan))"

lemma tree_order_snoc:
  assumes "tree_order xs" and "\<lparr>rd_path = d, rd_type = Directory\<rparr> \<in> set xs"
    and "validate_remote_entry_name name = Inr ()" and "rd_path e = join_remote_child d name"
  shows "tree_order (xs @ [e])"
  unfolding tree_order_def
proof (intro allI impI)
  fix i
  assume i: "i < length (xs @ [e])" "0 < i"
  show "\<exists>j<i. rd_type ((xs @ [e]) ! j) = Directory \<and> (\<exists>name. validate_remote_entry_name name = Inr () \<and>
      rd_path ((xs @ [e]) ! i) = join_remote_child (rd_path ((xs @ [e]) ! j)) name)"
  proof (cases "i < length xs")
    case True
    then obtain j where "j < i" "rd_type (xs ! j) = Directory" "\<exists>name. validate_remote_entry_name name = Inr () \<and>
        rd_path (xs ! i) = join_remote_child (rd_path (xs ! j)) name"
      using assms(1) i(2) unfolding tree_order_def by blast
    with True show ?thesis by (intro exI [of _ j]) (simp add: nth_append)
  next
    case False
    then have "i = length xs" using i(1) by simp
    moreover obtain j where "j < length xs" "xs ! j = \<lparr>rd_path = d, rd_type = Directory\<rparr>"
      using assms(2) by (auto simp: in_set_conv_nth)
    ultimately show ?thesis using assms(3,4) by (intro exI [of _ j]) (auto simp: nth_append)
  qed
qed

lemma count_entry_ok:
  assumes "count_entry t p plan = Inr plan1"
  shows "t \<noteq> Other \<and> unat (rp_files plan1) = unat (rp_files plan) + (if t = File then 1 else 0) \<and>
    unat (rp_directories plan1) = unat (rp_directories plan) + (if t = Directory then 1 else 0) \<and>
    unat (rp_symlinks plan1) = unat (rp_symlinks plan) + (if t = Symlink then 1 else 0)"
  using assms
  by (auto simp: count_entry_def checked_increment_def map_ok_eq_Inr split: RemoteFileType.splits
        dest!: checked_add_u64_Some)

lemma plan_entries_keep:
  assumes "plan_entries opts es plan dirs = Inr (plan', dirs')"
    and "\<forall>e \<in> set es. validate_remote_entry_name (de_name e) = Inr () \<and> de_path e = join_remote_child d (de_name e)"
    and "plan_ok opts plan" and "known_directories plan (insert d (set dirs))"
  shows "plan_ok opts plan' \<and> known_directories plan' (set dirs') \<and> rp_root plan' = rp_root plan"
  using assms
proof (induction es arbitrary: plan dirs)
  case Nil
  then show ?case by (auto simp: known_directories_def)
next
  case (Cons e es)
  let ?dirs = "if file_type (de_metadata e) = Directory then de_path e # dirs else dirs"
  obtain plan1 where c: "count_entry (file_type (de_metadata e)) (de_path e) plan = Inr plan1"
      "length (rp_entries plan) < max_entries opts"
      "plan_entries opts es (plan1\<lparr>rp_entries := rp_entries plan @ [planned e]\<rparr>) ?dirs = Inr (plan', dirs')"
    using plan_entries_step [OF Cons.prems(1)] by blast
  let ?plan2 = "plan1\<lparr>rp_entries := rp_entries plan @ [planned e]\<rparr>"
  note ce = count_entry_entries [OF c(1)] count_entry_ok [OF c(1)]
  have "tree_order (rp_entries ?plan2)"
    using tree_order_snoc [of "rp_entries plan" d "de_name e" "planned e"] Cons.prems(2-4)
    by (simp add: plan_ok_def known_directories_def)
  then have ok: "plan_ok opts ?plan2" using Cons.prems(3) ce c(2) by (auto simp: plan_ok_def)
  have "known_directories ?plan2 (insert d (set ?dirs))"
    using Cons.prems(4) by (auto simp: known_directories_def)
  from Cons.IH [OF c(3) _ ok this] Cons.prems(2) ce show ?case by simp
qed

lemma delete_scan_keep:
  "delete_scan srv opts plan ds s = (Inr plan', s') \<Longrightarrow> plan_ok opts plan \<Longrightarrow> known_directories plan (set ds) \<Longrightarrow>
     plan_ok opts plan' \<and> rp_root plan' = rp_root plan"
proof (induction srv opts plan ds s rule: delete_scan.induct)
  case (2 srv opts plan d ds s)
  obtain es s1 where l: "list_directory srv d s = (Inr es, s1)"
    using "2.prems"(1) by (auto split: prod.splits sum.splits)
  obtain plan1 ds1 where p: "plan_entries opts es plan ds = Inr (plan1, ds1)"
      "delete_scan srv opts plan1 ds1 s1 = (Inr plan', s')"
    using "2.prems"(1) l by (auto split: prod.splits sum.splits)
  have keep: "plan_ok opts plan1 \<and> known_directories plan1 (set ds1) \<and> rp_root plan1 = rp_root plan"
    using plan_entries_keep [OF p(1), of d] list_directory_ok [OF l] "2.prems"(2,3) by simp
  show ?case using "2.IH" [OF l [symmetric] refl p(1) refl p(2)] keep by simp
qed simp

lemma build_delete_plan_ok:
  assumes "build_delete_plan srv root opts s = (Inr plan, s')"
  shows "plan_ok opts plan \<and> rp_root plan = root"
proof -
  obtain s1 where "delete_scan srv opts (initial_plan root) [root] s1 = (Inr plan, s')"
      "length (rp_entries (initial_plan root)) \<le> max_entries opts"
    using assms
    by (auto simp: build_delete_plan_def io_simps ensure_delete_plan_budget_def total_entries_def split: if_splits)
  moreover have "plan_ok opts (initial_plan root)" if "length (rp_entries (initial_plan root)) \<le> max_entries opts"
    using that by (simp add: plan_ok_def initial_plan_def tree_order_def count_type_def)
  moreover have "known_directories (initial_plan root) (set [root])"
    by (simp add: known_directories_def initial_plan_def)
  ultimately show ?thesis using delete_scan_keep by (metis (no_types, lifting) initial_plan_def RemoteDeletePlan.select_convs(1))
qed

lemma with_session_run:
  assumes "with_session srv body s = (r, s')"
  shows "(\<exists>e. ok_request srv OpenSession s = (Inl e, s') \<and> r = Inl e) \<or>
    (\<exists>s0 rb s1 c. ok_request srv OpenSession s = (Inr (), s0) \<and> body s0 = (rb, s1) \<and>
       ok_request srv CloseSession s1 = (c, s') \<and> r = and_then rb (\<lambda>x. and_then c (\<lambda>_. Inr x)))"
proof -
  obtain r0 s0 where o: "ok_request srv OpenSession s = (r0, s0)" by (cases "ok_request srv OpenSession s")
  show ?thesis
  proof (cases r0)
    case (Inl e)
    then show ?thesis using assms o by (auto simp: with_session_def io_bind_def)
  next
    case (Inr u)
    obtain rb s1 where b: "body s0 = (rb, s1)" by (cases "body s0")
    obtain c s2 where k: "ok_request srv CloseSession s1 = (c, s2)" by (cases "ok_request srv CloseSession s1")
    show ?thesis using assms o Inr b k by (auto simp: with_session_def io_bind_def)
  qed
qed

lemma ok_request_sent: "ok_request srv q s = (r, s') \<Longrightarrow> sent s' = sent s @ [q]"
  by (auto simp: ok_request_def io_bind_def request_def ret_def raise_def split: prod.splits if_splits)

lemma remove_remote_tree_footprint: "mutates (remove_remote_tree srv plan opts) (map removal (rev (rp_entries plan)))"
  unfolding remove_remote_tree_def
  by (intro mutates_read_bind emits_lift mutates_bail_bind mutates_session execute_footprint)

lemma execute_rescan_first:
  assumes "execute_delete_plan srv plan opts s = (r, s')" and "sent s' = sent s @ new" and "mutations new \<noteq> []"
  shows "\<exists>s1 before after. build_delete_plan srv (rp_root plan) opts s = (Inr plan, s1) \<and>
    sent s1 = sent s @ before \<and> list_all read_only before \<and> new = before @ after"
proof -
  obtain s1 where b: "build_delete_plan srv (rp_root plan) opts s = (Inr plan, s1)"
    using execute_unchanged [OF assms] by blast
  obtain before where before: "sent s1 = sent s @ before" "list_all read_only before"
    using build_delete_plan_reads [of srv "rp_root plan" opts] b unfolding emits_def by (metis snd_conv)
  let ?rest = "io_bind (io_each (delete_entry srv) (rev (rp_entries plan))) (\<lambda>_.
      ret \<lparr>rs_files = rp_files plan, rs_directories = rp_directories plan, rs_symlinks = rp_symlinks plan\<rparr>)"
  have "?rest s1 = (r, s')"
    using assms(1) b by (simp add: execute_delete_plan_def io_bind_def bail_if_def ret_def)
  moreover have "mutates ?rest (map removal (rev (rp_entries plan)))"
    by (intro mutates_bind_read mutates_each delete_entry_footprint emits_ret)
  ultimately obtain after where "sent s' = sent s1 @ after" unfolding mutates_def by (metis snd_conv)
  then show ?thesis using b before assms(2) by auto
qed

lemma remove_remote_tree_rescan:
  assumes "remove_remote_tree srv plan opts s = (r, s')" and "sent s' = sent s @ new" and "mutations new \<noteq> []"
  shows "\<exists>s1 s2 before after. ok_request srv OpenSession s = (Inr (), s1) \<and>
    build_delete_plan srv (rp_root plan) opts s1 = (Inr plan, s2) \<and>
    sent s2 = sent s @ before \<and> new = before @ after \<and> mutations before = []"
proof -
  have moved: "s' \<noteq> s" using assms(2,3) by auto
  have v: "validate_mutation_path (rp_root plan) = Inr ()" "delete_options_validated opts = Inr opts"
      "\<not> max_entries opts < total_entries plan"
    using assms(1) moved
    by (auto simp: remove_remote_tree_def io_bind_def lift_result_def bail_if_def raise_def ret_def
        delete_options_validated_def split: sum.splits if_splits)
  then have ws: "with_session srv (execute_delete_plan srv plan opts) s = (r, s')"
    using assms(1) by (simp add: remove_remote_tree_def io_bind_def lift_result_def bail_if_def ret_def)
  from with_session_run [OF ws] show ?thesis
  proof (elim disjE exE conjE)
    fix e
    assume "ok_request srv OpenSession s = (Inl e, s')"
    then have "new = [OpenSession]" using ok_request_sent assms(2) by fastforce
    then show ?thesis using assms(3) by (simp add: mutations_def)
  next
    fix s0 rb s1 c
    assume o: "ok_request srv OpenSession s = (Inr (), s0)" and b: "execute_delete_plan srv plan opts s0 = (rb, s1)"
      and k: "ok_request srv CloseSession s1 = (c, s')"
    obtain n where n: "sent s1 = sent s0 @ n"
      using execute_footprint [of srv plan opts] b unfolding mutates_def by (metis snd_conv)
    have new: "new = OpenSession # n @ [CloseSession]"
      using ok_request_sent [OF o] ok_request_sent [OF k] n assms(2) by simp
    then have "mutations n \<noteq> []" using assms(3) by (simp add: mutations_def)
    then obtain s2 before after where r: "build_delete_plan srv (rp_root plan) opts s0 = (Inr plan, s2)"
        "sent s2 = sent s0 @ before" "list_all read_only before" "n = before @ after"
      using execute_rescan_first [OF b n] by blast
    have "mutations (OpenSession # before) = []" using r(3) by (simp add: mutations_def list_all_iff filter_empty_conv)
    moreover have "new = (OpenSession # before) @ after @ [CloseSession]" "sent s2 = sent s @ OpenSession # before"
      using new r(2,4) ok_request_sent [OF o] by simp_all
    ultimately show ?thesis using o r(1) by blast
  qed
qed

subsection \<open>A server for the witnesses\<close>

definition sample_attrs :: "RemoteFileType \<Rightarrow> FileAttributes" where
  "sample_attrs t = \<lparr>at_type = t, at_size = Some 3, at_uid = None, at_user = None, at_gid = None, at_group = None,
     at_permissions = Some 0, at_atime = None, at_mtime = None\<rparr>"

fun sample_server :: "(rstring \<times> FileAttributes) list server" where
  "sample_server (LStat p) w = (case map_of w p of Some a \<Rightarrow> RAttrs a | None \<Rightarrow> RNoSuchFile, w)"
| "sample_server (ReadDir p) w =
     (RNames (List.map_filter (\<lambda>(q, a). case strip_prefix (p @ [47]) q of
        Some name \<Rightarrow> if 47 \<in> set name then None else Some (name, a) | None \<Rightarrow> None) w), w)"
| "sample_server (RemoveFile p) w = (ROk, filter (\<lambda>(q, a). q \<noteq> p) w)"
| "sample_server (RemoveDir p) w = (ROk, filter (\<lambda>(q, a). q \<noteq> p) w)"
| "sample_server (CreateDir p) w = (ROk, (p, sample_attrs Directory) # w)"
| "sample_server (ReadUpTo p n) w = (RData [1, 2, 3], w)"
| "sample_server (ReadLink p) w = (RLink p, w)"
| "sample_server (TryExists p) w = (RBool (map_of w p \<noteq> None), w)"
| "sample_server (Rename p q) w = (ROk, map (\<lambda>(r, a). (if r = p then q else r, a)) w)"
| "sample_server (OpenFile p flags) w = (ROk, if map_of w p = None \<and> CREATE \<in> set flags then (p, sample_attrs File) # w else w)"
| "sample_server q w = (ROk, w)"

definition sample_remote :: "(rstring \<times> FileAttributes) list session" where
  "sample_remote =
     \<lparr>world = [(lit ''/d'', sample_attrs Directory), (lit ''/d/b'', sample_attrs Directory),
               (lit ''/d/b/x'', sample_attrs File), (lit ''/d/a'', sample_attrs Symlink)], sent = []\<rparr>"

definition sample_plan :: RemoteDeletePlan where
  "sample_plan =
     \<lparr>rp_root = lit ''/d'', rp_files = 1, rp_directories = 2, rp_symlinks = 1,
      rp_entries = [\<lparr>rd_path = lit ''/d'', rd_type = Directory\<rparr>, \<lparr>rd_path = lit ''/d/a'', rd_type = Symlink\<rparr>,
        \<lparr>rd_path = lit ''/d/b'', rd_type = Directory\<rparr>, \<lparr>rd_path = lit ''/d/b/x'', rd_type = File\<rparr>]\<rparr>"

subsection \<open>Properties of remote operations\<close>

text \<open>
  C4. Recursive deletion, for every server and every plan a caller may pass: the changing requests are the
  removals of the approved entries in reverse order, up to the first failure and all of them on
  success. If anything is removed at all, a re-scan of the root right after the session was opened had
  returned exactly the approved plan, and every changing request came after it; then the plan is in
  tree order, so that each entry is removed before the directory it was found in, its counters
  are the numbers of its entries, and it has no more entries than allowed.
\<close>

theorem remote_delete_exact:
  assumes "remove_remote_tree srv plan opts s = (r, s')"
  shows "\<exists>new. sent s' = sent s @ new \<and>
    prefix (mutations new) (map removal (rev (rp_entries plan))) \<and>
    (is_ok r \<longrightarrow> mutations new = map removal (rev (rp_entries plan))) \<and>
    (mutations new \<noteq> [] \<longrightarrow> plan_ok opts plan \<and>
       (\<exists>s1 s2 before after. ok_request srv OpenSession s = (Inr (), s1) \<and>
          build_delete_plan srv (rp_root plan) opts s1 = (Inr plan, s2) \<and>
          sent s2 = sent s @ before \<and> new = before @ after \<and> mutations before = []))"
proof -
  obtain new where new: "sent s' = sent s @ new" "prefix (mutations new) (map removal (rev (rp_entries plan)))"
      "is_ok r \<longrightarrow> mutations new = map removal (rev (rp_entries plan))"
    using remove_remote_tree_footprint [of srv plan opts] assms unfolding mutates_def by (metis fst_conv snd_conv)
  have "mutations new \<noteq> [] \<longrightarrow> plan_ok opts plan"
    using remove_remote_tree_rescan [OF assms new(1)] build_delete_plan_ok by blast
  with new remove_remote_tree_rescan [OF assms new(1)] show ?thesis by blast
qed

theorem remote_delete_exact_witness:
  "\<exists>new. sent (snd (remove_remote_tree sample_server sample_plan delete_options_default sample_remote)) = new \<and>
     mutations new = [RemoveFile (lit ''/d/b/x''), RemoveDir (lit ''/d/b''), RemoveFile (lit ''/d/a''), RemoveDir (lit ''/d'')]"
proof -
  let ?run = "remove_remote_tree sample_server sample_plan delete_options_default sample_remote"
  have "is_ok (fst ?run)" by code_simp
  moreover have "map removal (rev (rp_entries sample_plan)) =
      [RemoveFile (lit ''/d/b/x''), RemoveDir (lit ''/d/b''), RemoveFile (lit ''/d/a''), RemoveDir (lit ''/d'')]"
    by code_simp
  moreover have "sent sample_remote = []" by (simp add: sample_remote_def)
  ultimately show ?thesis
    using remote_delete_exact [of sample_server sample_plan delete_options_default sample_remote "fst ?run" "snd ?run"]
    by auto
qed

text \<open>
  Footprints: each operation changes the server only by the requests listed, in that order, whatever
  the server answers; planning a deletion and reading a file change nothing.
\<close>

theorem remote_operations_footprint:
  "mutates (create_remote_directory srv p) [CreateDir p] \<and>
   mutates (rename_remote_path srv p q) [Rename p q] \<and>
   mutates (create_remote_file srv p) [OpenFile p [CREATE, EXCLUDE, WRITE]] \<and>
   mutates (write_remote_file srv p content) [OpenFile p [CREATE, TRUNCATE, WRITE], WriteAt p 0 content] \<and>
   mutates (plan_remote_tree_removal srv p opts) [] \<and> mutates (read_remote_file srv p) []"
proof (intro conjI)
  show "mutates (create_remote_directory srv p) [CreateDir p]"
    unfolding create_remote_directory_def
    by (intro mutates_read_bind emits_lift mutates_session create_directory_footprint)
  show "mutates (rename_remote_path srv p q) [Rename p q]"
    unfolding rename_remote_path_def
    by (intro mutates_read_bind emits_lift emits_bail_if mutates_session rename_path_footprint)
  show "mutates (create_remote_file srv p) [OpenFile p [CREATE, EXCLUDE, WRITE]]"
    unfolding create_remote_file_def
    by (intro mutates_read_bind emits_lift mutates_session create_file_footprint)
  show "mutates (write_remote_file srv p content) [OpenFile p [CREATE, TRUNCATE, WRITE], WriteAt p 0 content]"
    unfolding write_remote_file_def
    by (intro mutates_read_bind emits_lift emits_bail_if mutates_bind_read emits_ret mutates_session write_file_footprint)
  show "mutates (plan_remote_tree_removal srv p opts) []"
    unfolding plan_remote_tree_removal_def
    by (intro mutates_read_bind emits_lift mutates_session mutates_reads build_delete_plan_reads)
  show "mutates (read_remote_file srv p) []"
    unfolding read_remote_file_def
    by (intro mutates_read_bind emits_lift mutates_session mutates_reads read_file_reads)
qed

text \<open>
  An accepted path for a change names a concrete entry: after an optional \<open>/\<close> or \<open>./\<close> come only plain
  names, at least one, so it is neither the root nor a path with \<open>..\<close>.
\<close>

theorem mutation_path_concrete:
  assumes "validate_mutation_path p = Inr ()"
  shows "\<exists>pre names. components p = pre @ map Normal names \<and> set pre \<subseteq> {RootDir, CurDir} \<and>
    names \<noteq> [] \<and> list_all plain_name names"
proof -
  let ?body = "mutation_body p" and ?q = "\<lambda>c. c = (47 :: uchar)"
  have parts: "\<forall>c \<in> set (split_on ?q ?body). c \<noteq> [] \<and> c \<noteq> lit ''.'' \<and> c \<noteq> lit ''..''"
    using assms by (auto simp: validate_mutation_path_def Let_def try_each_ok split: if_splits)
  have plain: "\<forall>w \<in> set (split_on ?q ?body). plain_name w"
    using parts split_on_no_sep [of _ ?q ?body] by (auto simp: plain_name_def)
  consider (dot) b where "p = lit ''./'' @ b" "?body = b" | (abs) b where "p = 47 # b" "?body = b" | (rel) "?body = p"
  proof (cases "strip_prefix (lit ''./'') p")
    case (Some b)
    moreover from Some have "p = lit ''./'' @ b" by (simp add: strip_prefix_Some)
    ultimately show ?thesis using that(1) [of b] by (simp add: mutation_body_def)
  next
    case None
    show ?thesis
    proof (cases "strip_prefix (lit ''/'') p")
      case (Some b)
      moreover from Some have "p = 47 # b" by (simp add: strip_prefix_Some lit_simps)
      ultimately show ?thesis using that(2) [of b] None by (simp add: mutation_body_def)
    qed (use that(3) None in \<open>simp add: mutation_body_def\<close>)
  qed
  then obtain pre where "components p = pre @ map Normal (split_on ?q ?body)" "set pre \<subseteq> {RootDir, CurDir}"
  proof cases
    case dot
    have "components (lit ''.'') = [CurDir]" by code_simp
    then have "components p = [CurDir] @ map Normal (split_on ?q ?body)"
      using components_under [of b "lit ''.''"] plain dot by (simp add: lit_simps)
    then show ?thesis using that by auto
  next
    case abs
    have "components [47] = [RootDir]" by code_simp
    then have "components p = [RootDir] @ map Normal (split_on ?q ?body)"
      using components_trailing_slash [of b "[]"] plain abs by simp
    then show ?thesis using that by auto
  next
    case rel
    then show ?thesis using that [of "[]"] components_relative plain by simp
  qed
  with plain show ?thesis
    by (intro exI [of _ pre] exI [of _ "split_on ?q ?body"]) (simp add: list_all_iff)
qed

theorem mutation_path_concrete_witness:
  "\<exists>pre names. components (lit ''/srv/app'') = pre @ map Normal names \<and> names \<noteq> []"
proof -
  have "validate_mutation_path (lit ''/srv/app'') = Inr ()" by code_simp
  from mutation_path_concrete [OF this] show ?thesis by blast
qed

text \<open>
  Reading a small file never returns more than \<open>MAX_SMALL_FILE_BYTES\<close> bytes, even from a server that
  gives no size and sends without end.
\<close>

theorem small_read_bounded:
  assumes "read_remote_file srv p s = (Inr content, s')"
  shows "length content \<le> MAX_SMALL_FILE_BYTES"
proof -
  obtain s1 where "with_session srv (read_file srv p) s1 = (Inr content, s')"
    using assms by (auto simp: read_remote_file_def io_simps)
  from with_session_run [OF this] obtain s2 s3 where "read_file srv p s2 = (Inr content, s3)"
    by (auto simp: and_then_eq_Inr dest!: sym [of "Inr content"])
  then obtain reply s4 where r: "(case reply of
         RData data \<Rightarrow>
           let content = take (MAX_SMALL_FILE_BYTES + 1) data in
           if MAX_SMALL_FILE_BYTES < length content then raise (FileTooBig p) else ret content
       | _ \<Rightarrow> raise (RequestFailed (ReadUpTo p (MAX_SMALL_FILE_BYTES + 1)))) s4 = (Inr content, s3)"
    unfolding read_file_def io_bind_ok by blast
  then show ?thesis by (cases reply) (auto simp: io_simps Let_def split: if_splits)
qed

theorem small_read_bounded_witness: "length [1, 2, 3 :: u8] \<le> MAX_SMALL_FILE_BYTES"
proof -
  have "fst (read_remote_file sample_server (lit ''/d/b/x'') sample_remote) = Inr [1, 2, 3]" by code_simp
  then obtain s' where "read_remote_file sample_server (lit ''/d/b/x'') sample_remote = (Inr [1, 2, 3], s')"
    by (metis prod.collapse)
  from small_read_bounded [OF this] show ?thesis .
qed

end
