(* ===== verification/Transfer_Upload.thy ===== *)
theory Transfer_Upload
  imports Remote_Mutation
begin

section \<open>Uploads\<close>

text \<open>
  Model of the upload half of \<open>transfer.rs\<close> (the engine) and of \<open>transfer_policy.rs\<close> (the policy in front
  of it) for one file. The local file system is a parameter: \<open>lf_stat\<close> is \<open>tokio::fs::symlink_metadata\<close>
  and \<open>lf_reads\<close> the buffers that successive reads deliver from an offset on; \<open>lf_fault\<close> says whether opening the
  file fails, or reading it after those buffers. Cancellation may come at any time: the flag is a function of the number of requests sent so far. The unique part of a fresh
  staging name (process, clock and counter) is the parameter \<open>nonce\<close>. Progress events are advisory and
  left out. On Unix the permissions of the source are always set with its time, so the request is always sent.
\<close>

definition TRANSFER_BUFFER_SIZE :: nat where "TRANSFER_BUFFER_SIZE = 255 * 1024"
definition MAX_FILE_CONCURRENCY :: nat where "MAX_FILE_CONCURRENCY = 128"
definition MAX_SFTP_WRITE_CONCURRENCY :: nat where "MAX_SFTP_WRITE_CONCURRENCY = 128"
definition MAX_SFTP_PACKET_SIZE :: nat where "MAX_SFTP_PACKET_SIZE = 4 * 1024 * 1024"
definition MAX_ESTIMATED_IN_FLIGHT_WRITE_BYTES :: nat where
  "MAX_ESTIMATED_IN_FLIGHT_WRITE_BYTES = 512 * 1024 * 1024"

record TransferOptions =
  resume :: bool
  atomic :: bool
  file_concurrency :: nat
  sftp_write_concurrency :: nat
  sftp_packet_size :: u32
  request_timeout_secs :: u64
  cancelled :: "nat \<Rightarrow> bool"

definition transfer_options_default :: TransferOptions where
  "transfer_options_default =
     \<lparr>resume = False, atomic = True, file_concurrency = 4, sftp_write_concurrency = 16,
      sftp_packet_size = 256 * 1024, request_timeout_secs = 30, cancelled = (\<lambda>_. False)\<rparr>"

definition transfer_options_validated :: "TransferOptions \<Rightarrow> sftp_error + unit" where
  "transfer_options_validated opt =
     (if file_concurrency opt = 0 \<or> MAX_FILE_CONCURRENCY < file_concurrency opt then Inl ConcurrencyBounds
      else if sftp_write_concurrency opt = 0 \<or> MAX_SFTP_WRITE_CONCURRENCY < sftp_write_concurrency opt
        then Inl ConcurrencyBounds
      else if unat (sftp_packet_size opt) < 4096 \<or> MAX_SFTP_PACKET_SIZE < unat (sftp_packet_size opt)
        then Inl PacketBounds
      else if request_timeout_secs opt = 0 then Inl TimeoutZeroSecs
      else if MAX_ESTIMATED_IN_FLIGHT_WRITE_BYTES
             < file_concurrency opt * sftp_write_concurrency opt * unat (sftp_packet_size opt)
        then Inl InFlightBudget
      else Inr ())"

datatype local_node =
    LocalMissing | LocalLinkNode | LocalFile "u8 list" "u32 option" | LocalDirectory | LocalOther

datatype local_fault = OpenFault | ReadFault

record LocalFs =
  lf_stat :: "rstring \<Rightarrow> local_node"
  lf_reads :: "rstring \<Rightarrow> nat \<Rightarrow> u8 list list"
  lf_fault :: "rstring \<Rightarrow> local_fault option"

definition check_cancelled :: "TransferOptions \<Rightarrow> ('w, unit) io" where
  "check_cancelled opt s = (if cancelled opt (length (sent s)) then (Inl Cancelled, s) else (Inr (), s))"

subsection \<open>Remote directories and names\<close>

definition join_remote :: "rstring \<Rightarrow> rstring \<Rightarrow> rstring" where
  "join_remote parent child =
     (if parent = [] \<or> parent = lit ''.'' then child
      else if parent = lit ''/'' then 47 # child
      else if ends_with [47] parent then parent @ child
      else parent @ [47] @ child)"

fun ensure_segments :: "'w server \<Rightarrow> rstring \<Rightarrow> rstring \<Rightarrow> rstring list \<Rightarrow> ('w, unit) io" where
  "ensure_segments srv p current [] = ret ()"
| "ensure_segments srv p current (seg # rest) =
     (if seg = lit ''.'' then ensure_segments srv p current rest
      else if seg = lit ''..'' then raise (DotDot p)
      else
        let current' = join_remote current seg in
        io_bind (remote_symlink_metadata_if_exists srv current') (\<lambda>m.
          case m of
            Some a \<Rightarrow>
              if at_type a = Symlink then raise (LinkRefused current')
              else if at_type a \<noteq> Directory then raise (NotADirectory current')
              else ensure_segments srv p current' rest
          | None \<Rightarrow>
              io_bind (ok_request srv (CreateDir current')) (\<lambda>_. ensure_segments srv p current' rest)))"

definition ensure_remote_dir :: "'w server \<Rightarrow> rstring \<Rightarrow> ('w, unit) io" where
  "ensure_remote_dir srv p =
     (if p = [] \<or> p = lit ''.'' \<or> p = lit ''/'' then ret ()
      else ensure_segments srv p (if starts_with [47] p then lit ''/'' else [])
             (filter (\<lambda>s. s \<noteq> []) (split_on (\<lambda>c. c = 47) p)))"

definition ensure_remote_parent :: "'w server \<Rightarrow> rstring \<Rightarrow> ('w, unit) io" where
  "ensure_remote_parent srv p =
     (case rsplit_once 47 p of
        Some (parent, _) \<Rightarrow> if parent \<noteq> [] then ensure_remote_dir srv parent else ret ()
      | None \<Rightarrow> ret ())"

definition validate_remote_file_leaf :: "rstring \<Rightarrow> sftp_error + unit" where
  "validate_remote_file_leaf p =
     (let leaf = last (split_on (\<lambda>c. c = 47) p) in
      if leaf = [] \<or> leaf = lit ''.'' \<or> leaf = lit ''..'' then Inl (LeafUnsafe p)
      else if 0 \<in> set leaf then Inl LeafNul
      else Inr ())"

definition resume_offset :: "u64 option \<Rightarrow> nat \<Rightarrow> bool \<Rightarrow> nat" where
  "resume_offset work_len full res =
     (if \<not> res then 0
      else case work_len of Some len \<Rightarrow> if unat len \<le> full then unat len else 0 | None \<Rightarrow> 0)"

definition attr_len :: "FileAttributes \<Rightarrow> nat" where
  "attr_len a = (case at_size a of None \<Rightarrow> 0 | Some n \<Rightarrow> unat n)"

definition stable_remote_staging_path :: "rstring \<Rightarrow> rstring" where
  "stable_remote_staging_path p = p @ lit ''.kaduox.part''"

definition unique_remote_staging_path :: "rstring \<Rightarrow> rstring \<Rightarrow> rstring" where
  "unique_remote_staging_path p nonce = p @ lit ''.kaduox.part.'' @ nonce"

definition atomic_open_flags :: "bool \<Rightarrow> open_flag list" where
  "atomic_open_flags existing_staging = (if existing_staging then [WRITE] else [CREATE, EXCLUDE, WRITE])"

subsection \<open>Copying\<close>

text \<open>\<open>copy_with_progress\<close>: cancellation is checked before each read, the counter cannot overflow silently.\<close>

fun copy_with_progress ::
  "'w server \<Rightarrow> TransferOptions \<Rightarrow> rstring \<Rightarrow> nat \<Rightarrow> nat \<Rightarrow> u8 list list \<Rightarrow> ('w, nat) io" where
  "copy_with_progress srv opt work initial copied [] = io_bind (check_cancelled opt) (\<lambda>_. ret copied)"
| "copy_with_progress srv opt work initial copied (chunk # rest) =
     io_bind (check_cancelled opt) (\<lambda>_.
     io_bind (ok_request srv (WriteAt work (initial + copied) chunk)) (\<lambda>_.
       if 2 ^ 64 \<le> initial + copied + length chunk then raise CounterOverflow
       else copy_with_progress srv opt work initial (copied + length chunk) rest))"

definition preserve_remote_mtime :: "'w server \<Rightarrow> rstring \<Rightarrow> u32 option \<Rightarrow> ('w, unit) io" where
  "preserve_remote_mtime srv p mtime = ok_request srv (SetMetadata p mtime)"

subsection \<open>Atomic uploads\<close>

definition ensure_remote_atomic_destination_absent :: "'w server \<Rightarrow> rstring \<Rightarrow> ('w, unit) io" where
  "ensure_remote_atomic_destination_absent srv p =
     io_bind (remote_symlink_metadata_if_exists srv p) (\<lambda>m.
       case m of
         None \<Rightarrow> ret ()
       | Some a \<Rightarrow> if at_type a = Symlink then raise (LinkRefused p) else raise (DestinationExists p))"

definition rename_into_place :: "'w server \<Rightarrow> rstring \<Rightarrow> rstring \<Rightarrow> ('w, unit) io" where
  "rename_into_place srv work p =
     io_bind (request srv (Rename work p)) (\<lambda>r.
       if r = ROk then ret ()
       else
         io_bind (remote_symlink_metadata_if_exists srv p) (\<lambda>m.
           case m of Some _ \<Rightarrow> raise (DestinationOccupied p) | None \<Rightarrow> raise (RequestFailed (Rename work p))))"

definition finish_remote_atomic :: "'w server \<Rightarrow> rstring \<Rightarrow> rstring \<Rightarrow> ('w, unit) io" where
  "finish_remote_atomic srv work p =
     io_bind (ensure_remote_atomic_destination_absent srv p) (\<lambda>_. rename_into_place srv work p)"

definition staging_offset :: "TransferOptions \<Rightarrow> rstring \<Rightarrow> nat \<Rightarrow> FileAttributes option \<Rightarrow> sftp_error + nat" where
  "staging_offset opt work full m =
     (case m of
        None \<Rightarrow> Inr 0
      | Some a \<Rightarrow>
          if \<not> resume opt then Inl (StagingExists work)
          else if at_type a = Symlink then Inl (LinkRefused work)
          else if at_type a \<noteq> File then Inl (StagingNotRegular work)
          else if full < attr_len a then Inl (StagingTooLarge work)
          else Inr (attr_len a))"

definition local_source :: "LocalFs \<Rightarrow> rstring \<Rightarrow> sftp_error + u8 list \<times> u32 option" where
  "local_source l p =
     (case lf_stat l p of
        LocalFile content mtime \<Rightarrow> Inr (content, mtime)
      | LocalMissing \<Rightarrow> Inl (LocalFailed p)
      | LocalLinkNode \<Rightarrow> Inl (LocalLink p)
      | _ \<Rightarrow> Inl (LocalNotFile p))"

text \<open>The part after the staging file is known: complete it if needed and publish it.\<close>

definition write_staging ::
  "'w server \<Rightarrow> LocalFs \<Rightarrow> TransferOptions \<Rightarrow> rstring \<Rightarrow> rstring \<Rightarrow> open_flag list \<Rightarrow> nat \<Rightarrow> ('w, nat) io" where
  "write_staging srv l opt local_path work flags offset =
     io_bind (ok_request srv (OpenFile work flags)) (\<lambda>_.
     io_bind (bail_if (lf_fault l local_path = Some OpenFault) (LocalFailed local_path)) (\<lambda>_.
     io_bind (copy_with_progress srv opt work offset 0 (lf_reads l local_path offset)) (\<lambda>copied.
     io_bind (bail_if (lf_fault l local_path = Some ReadFault) (LocalFailed local_path)) (\<lambda>_.
     io_bind (ok_request srv (CloseFile work)) (\<lambda>_. ret copied)))))"

definition upload_file_atomic ::
  "'w server \<Rightarrow> LocalFs \<Rightarrow> TransferOptions \<Rightarrow> rstring \<Rightarrow> rstring \<Rightarrow> rstring \<Rightarrow> ('w, nat) io" where
  "upload_file_atomic srv l opt nonce local_path remote_path =
     io_bind (check_cancelled opt) (\<lambda>_.
     io_bind (lift_result (local_source l local_path)) (\<lambda>(content, mtime).
     io_bind (ensure_remote_parent srv remote_path) (\<lambda>_.
     io_bind (ensure_remote_atomic_destination_absent srv remote_path) (\<lambda>_.
       let full = length content;
           work = (if resume opt then stable_remote_staging_path remote_path
                   else unique_remote_staging_path remote_path nonce) in
       io_bind (remote_symlink_metadata_if_exists srv work) (\<lambda>m.
       io_bind (lift_result (staging_offset opt work full m)) (\<lambda>offset.
         if resume opt \<and> offset = full \<and> full \<noteq> 0 then
           io_bind (finish_remote_atomic srv work remote_path) (\<lambda>_.
           io_bind (preserve_remote_mtime srv remote_path mtime) (\<lambda>_. ret 0))
         else
           io_bind (write_staging srv l opt local_path work (atomic_open_flags (m \<noteq> None)) offset) (\<lambda>copied.
           io_bind (finish_remote_atomic srv work remote_path) (\<lambda>_.
           io_bind (preserve_remote_mtime srv remote_path mtime) (\<lambda>_. ret copied)))))))))"

subsection \<open>The engine\<close>

definition transfer_remote_work_path :: "rstring \<Rightarrow> bool \<Rightarrow> rstring" where
  "transfer_remote_work_path p at = (if at then p @ lit ''.kaduox.part'' else p)"

definition finish_remote_engine :: "'w server \<Rightarrow> rstring \<Rightarrow> rstring \<Rightarrow> ('w, unit) io" where
  "finish_remote_engine srv work p =
     io_bind (request srv (Rename work p)) (\<lambda>r.
       if r = ROk then ret ()
       else
         io_bind (try_exists srv p) (\<lambda>ex.
           if ex then io_bind (ok_request srv (RemoveFile p)) (\<lambda>_. ok_request srv (Rename work p))
           else raise (RequestFailed (Rename work p))))"

definition engine_upload_file ::
  "'w server \<Rightarrow> LocalFs \<Rightarrow> TransferOptions \<Rightarrow> rstring \<Rightarrow> rstring \<Rightarrow> ('w, nat) io" where
  "engine_upload_file srv l opt local_path remote_path =
     io_bind (lift_result (transfer_options_validated opt)) (\<lambda>_.
     io_bind (check_cancelled opt) (\<lambda>_.
     io_bind (lift_result (local_source l local_path)) (\<lambda>(content, mtime).
     io_bind (lift_result (validate_remote_file_leaf remote_path)) (\<lambda>_.
     io_bind (ensure_remote_parent srv remote_path) (\<lambda>_.
       let full = length content; work = transfer_remote_work_path remote_path (atomic opt) in
       io_bind (remote_symlink_metadata_if_exists srv work) (\<lambda>m.
       io_bind (bail_if (case m of None \<Rightarrow> False | Some a \<Rightarrow> at_type a = Symlink) (LinkRefused work)) (\<lambda>_.
       io_bind (bail_if (case m of None \<Rightarrow> False | Some a \<Rightarrow> at_type a \<noteq> File) (StagingNotRegular work)) (\<lambda>_.
         let offset = resume_offset (map_option (\<lambda>a. of_nat (attr_len a)) m) full (resume opt) in
         if offset = full \<and> full \<noteq> 0 then
           io_bind (if atomic opt then finish_remote_engine srv work remote_path else ret ()) (\<lambda>_. ret 0)
         else
           io_bind (write_staging srv l opt local_path work
                      (if offset = 0 then [CREATE, TRUNCATE, WRITE] else [CREATE, WRITE]) offset) (\<lambda>copied.
           io_bind (if atomic opt then finish_remote_engine srv work remote_path else ret ()) (\<lambda>_.
           io_bind (preserve_remote_mtime srv remote_path mtime) (\<lambda>_. ret copied)))))))))))"

definition upload_file ::
  "'w server \<Rightarrow> LocalFs \<Rightarrow> TransferOptions \<Rightarrow> rstring \<Rightarrow> rstring \<Rightarrow> rstring \<Rightarrow> ('w, nat) io" where
  "upload_file srv l opt nonce local_path remote_path =
     io_bind (lift_result (transfer_options_validated opt)) (\<lambda>_.
     io_bind (lift_result (validate_remote_file_leaf remote_path)) (\<lambda>_.
       if \<not> atomic opt then engine_upload_file srv l opt local_path remote_path
       else upload_file_atomic srv l opt nonce local_path remote_path))"

subsection \<open>Requests of an upload\<close>

lemma emits_check [emits_rules]: "emits P (check_cancelled opt)"
  by (simp add: emits_def check_cancelled_def)

lemma emits_ensure_segments:
  "(\<And>d. P (LStat d)) \<Longrightarrow> (\<And>d. P (CreateDir d)) \<Longrightarrow> emits P (ensure_segments srv p cur segs)"
proof (induction segs arbitrary: cur)
  case (Cons seg segs)
  have rec: "emits P (ensure_segments srv p c segs)" for c using Cons by blast
  show ?case using rec Cons.prems by (auto intro!: emits_rules simp: Let_def split: option.splits)
qed (simp add: emits_ret)

lemma emits_ensure_parent [emits_rules]:
  "(\<And>d. P (LStat d)) \<Longrightarrow> (\<And>d. P (CreateDir d)) \<Longrightarrow> emits P (ensure_remote_parent srv p)"
  unfolding ensure_remote_parent_def ensure_remote_dir_def
  by (auto intro!: emits_rules emits_ensure_segments split: option.splits prod.splits)

lemma emits_copy [emits_rules]:
  "(\<And>off c. P (WriteAt work off c)) \<Longrightarrow> emits P (copy_with_progress srv opt work init k cs)"
  by (induction cs arbitrary: k) (auto intro!: emits_rules)

lemma emits_absent [emits_rules]: "P (LStat p) \<Longrightarrow> emits P (ensure_remote_atomic_destination_absent srv p)"
  unfolding ensure_remote_atomic_destination_absent_def by (auto intro!: emits_rules split: option.splits)

lemma emits_finish [emits_rules]:
  "P (LStat p) \<Longrightarrow> P (Rename work p) \<Longrightarrow> emits P (finish_remote_atomic srv work p)"
  unfolding finish_remote_atomic_def rename_into_place_def by (auto intro!: emits_rules split: option.splits)

lemma emits_write_staging [emits_rules]:
  "P (OpenFile work flags) \<Longrightarrow> (\<And>off c. P (WriteAt work off c)) \<Longrightarrow> P (CloseFile work) \<Longrightarrow>
     emits P (write_staging srv l opt lp work flags offset)"
  unfolding write_staging_def by (auto intro!: emits_rules)

definition staging_path :: "TransferOptions \<Rightarrow> rstring \<Rightarrow> rstring \<Rightarrow> rstring" where
  "staging_path opt nonce p =
     (if resume opt then stable_remote_staging_path p else unique_remote_staging_path p nonce)"

text \<open>What an atomic upload may ask for: nothing that truncates, removes, or writes to the final path.\<close>

fun upload_request :: "rstring \<Rightarrow> rstring \<Rightarrow> sftp_req \<Rightarrow> bool" where
  "upload_request work p (CreateDir d) = True"
| "upload_request work p (OpenFile q flags) = (q = work \<and> TRUNCATE \<notin> set flags)"
| "upload_request work p (WriteAt q off c) = (q = work)"
| "upload_request work p (Rename q r) = (q = work \<and> r = p)"
| "upload_request work p (SetMetadata q m) = (q = p)"
| "upload_request work p q = read_only q"

lemma staging_path_differs: "staging_path opt nonce p \<noteq> p"
  by (simp add: staging_path_def stable_remote_staging_path_def unique_remote_staging_path_def)

lemma upload_file_atomic_emits:
  "emits (upload_request (staging_path opt nonce p) p) (upload_file_atomic srv l opt nonce lp p)"
  unfolding upload_file_atomic_def Let_def staging_path_def [symmetric] preserve_remote_mtime_def
  by (auto intro!: emits_rules simp: atomic_open_flags_def split: prod.splits)

subsection \<open>Honest servers\<close>

text \<open>
  What uploads rely on, as the SFTP protocol documents it: status requests and directory creation
  leave files alone, the size reported for a regular file is the length of its content, exclusive
  creation succeeds only on an absent name, a write replaces bytes at its offset, a rename moves the
  content. \<open>view\<close> gives the content of the regular files in a server state.
\<close>

definition honest :: "'w server \<Rightarrow> ('w \<Rightarrow> rstring \<Rightarrow> u8 list option) \<Rightarrow> bool" where
  "honest srv view \<longleftrightarrow>
     (\<forall>p w r w'. srv (LStat p) w = (r, w') \<longrightarrow> view w' = view w \<and> (r = RNoSuchFile \<longrightarrow> view w p = None) \<and>
        (\<forall>a. r = RAttrs a \<longrightarrow> at_type a = File \<longrightarrow>
           (\<exists>c. view w p = Some c \<and> length c < 2 ^ 64 \<and> at_size a = Some (of_nat (length c))))) \<and>
     (\<forall>p w r w'. srv (CreateDir p) w = (r, w') \<longrightarrow> view w' = view w) \<and>
     (\<forall>p w w'. srv (OpenFile p [CREATE, EXCLUDE, WRITE]) w = (ROk, w') \<longrightarrow> view w p = None \<and> view w' = (view w)(p \<mapsto> [])) \<and>
     (\<forall>p w w'. srv (OpenFile p [CREATE, TRUNCATE, WRITE]) w = (ROk, w') \<longrightarrow> view w' = (view w)(p \<mapsto> [])) \<and>
     (\<forall>p w w'. srv (OpenFile p [WRITE]) w = (ROk, w') \<longrightarrow> view w' = view w) \<and>
     (\<forall>p off c d w w'. srv (WriteAt p off c) w = (ROk, w') \<longrightarrow> view w p = Some d \<longrightarrow>
        view w' = (view w)(p \<mapsto> take off d @ c @ drop (off + length c) d)) \<and>
     (\<forall>p w r w'. srv (CloseFile p) w = (r, w') \<longrightarrow> view w' = view w) \<and>
     (\<forall>p m w r w'. srv (SetMetadata p m) w = (r, w') \<longrightarrow> view w' = view w) \<and>
     (\<forall>p q w w'. srv (Rename p q) w = (ROk, w') \<longrightarrow> view w' = (view w)(q := view w p, p := None))"

definition reads_ok :: "LocalFs \<Rightarrow> bool" where
  "reads_ok l \<longleftrightarrow> (\<forall>p off c m. lf_stat l p = LocalFile c m \<longrightarrow> lf_fault l p = None \<longrightarrow> concat (lf_reads l p off) = drop off c)"

lemma honestD:
  assumes "honest srv view"
  shows "srv (LStat p) w = (r, w') \<Longrightarrow> view w' = view w"
    "srv (LStat p) w = (RNoSuchFile, w') \<Longrightarrow> view w p = None"
    "srv (LStat p) w = (RAttrs a, w') \<Longrightarrow> at_type a = File \<Longrightarrow>
       \<exists>c. view w p = Some c \<and> length c < 2 ^ 64 \<and> at_size a = Some (of_nat (length c))"
    "srv (CreateDir p) w = (r, w') \<Longrightarrow> view w' = view w"
    "srv (OpenFile p [CREATE, EXCLUDE, WRITE]) w = (ROk, w') \<Longrightarrow> view w' = (view w)(p \<mapsto> [])"
    "srv (OpenFile p [CREATE, TRUNCATE, WRITE]) w = (ROk, w') \<Longrightarrow> view w' = (view w)(p \<mapsto> [])"
    "srv (OpenFile p [WRITE]) w = (ROk, w') \<Longrightarrow> view w' = view w"
    "srv (WriteAt p off c) w = (ROk, w') \<Longrightarrow> view w p = Some d \<Longrightarrow>
       view w' = (view w)(p \<mapsto> take off d @ c @ drop (off + length c) d)"
    "srv (CloseFile p) w = (r, w') \<Longrightarrow> view w' = view w"
    "srv (SetMetadata p m) w = (r, w') \<Longrightarrow> view w' = view w"
    "srv (Rename p q) w = (ROk, w') \<Longrightarrow> view w' = (view w)(q := view w p, p := None)"
  by (insert assms, unfold honest_def, elim conjE) metis+

definition keeps :: "('w \<Rightarrow> 'v) \<Rightarrow> ('w, 'a) io \<Rightarrow> bool" where
  "keeps view m \<longleftrightarrow> (\<forall>s. view (world (snd (m s))) = view (world s))"

lemma keeps_bind: "keeps view m \<Longrightarrow> (\<And>x. keeps view (f x)) \<Longrightarrow> keeps view (io_bind m f)"
  unfolding keeps_def io_bind_def by (auto split: prod.splits sum.splits) (metis snd_conv)+

lemma keeps_pure: "keeps view (ret x)" "keeps view (raise e)" "keeps view (lift_result r)"
  "keeps view (check_cancelled opt)"
  by (simp_all add: keeps_def ret_def raise_def lift_result_def check_cancelled_def)

lemma keeps_request: "(\<And>w r w'. srv q w = (r, w') \<Longrightarrow> view w' = view w) \<Longrightarrow> keeps view (request srv q)"
  by (auto simp: keeps_def request_def split: prod.splits)

lemma keeps_ok_request: "(\<And>w r w'. srv q w = (r, w') \<Longrightarrow> view w' = view w) \<Longrightarrow> keeps view (ok_request srv q)"
  unfolding ok_request_def by (auto intro!: keeps_bind keeps_request keeps_pure)

lemma keeps_lstat: "honest srv view \<Longrightarrow> keeps view (remote_symlink_metadata_if_exists srv p)"
  unfolding remote_symlink_metadata_if_exists_def
  by (auto intro!: keeps_bind keeps_request keeps_pure dest: honestD(1) split: sftp_resp.splits)

lemma keeps_segments: "honest srv view \<Longrightarrow> keeps view (ensure_segments srv p cur segs)"
proof (induction segs arbitrary: cur)
  case (Cons seg segs)
  have rec: "keeps view (ensure_segments srv p c segs)" for c using Cons by blast
  show ?case
    using rec Cons.prems honestD(4) [OF Cons.prems]
    by (auto intro!: keeps_bind keeps_lstat keeps_pure keeps_ok_request simp: Let_def split: option.splits)
qed (simp add: keeps_pure)

lemma keeps_parent: "honest srv view \<Longrightarrow> keeps view (ensure_remote_parent srv p)"
  unfolding ensure_remote_parent_def ensure_remote_dir_def
  by (auto intro!: keeps_segments keeps_pure split: option.splits prod.splits)

lemma keeps_absent: "honest srv view \<Longrightarrow> keeps view (ensure_remote_atomic_destination_absent srv p)"
  unfolding ensure_remote_atomic_destination_absent_def
  by (auto intro!: keeps_bind keeps_lstat keeps_pure split: option.splits)

lemma keepsD: "keeps view m \<Longrightarrow> m s = (r, s') \<Longrightarrow> view (world s') = view (world s)"
  unfolding keeps_def by (metis snd_conv)

lemma ok_request_run: "ok_request srv q s = (Inr u, s') \<longleftrightarrow>
    (\<exists>w. srv q (world s) = (ROk, w) \<and> s' = \<lparr>world = w, sent = sent s @ [q]\<rparr>)"
  by (auto simp: ok_request_def request_def io_simps split: prod.splits if_splits)

lemma lstat_run:
  assumes "remote_symlink_metadata_if_exists srv p s = (Inr m, s')"
  shows "\<exists>w. srv (LStat p) (world s) = ((case m of None \<Rightarrow> RNoSuchFile | Some a \<Rightarrow> RAttrs a), w)"
  using assms
  by (auto simp: remote_symlink_metadata_if_exists_def request_def io_bind_ok split: prod.splits sftp_resp.splits
      simp: ret_ok raise_ok)

lemma copy_result:
  assumes "honest srv view"
  shows "copy_with_progress srv opt work init k cs s = (Inr n, s') \<Longrightarrow>
    view (world s) work = Some d \<Longrightarrow> length d = init + k \<Longrightarrow>
    view (world s') = (view (world s))(work \<mapsto> d @ concat cs)"
proof (induction cs arbitrary: k d s)
  case Nil
  then have "s' = s" by (auto simp: io_simps check_cancelled_def split: if_splits)
  then show ?case using Nil.prems(2) by (simp add: fun_upd_idem)
next
  case (Cons c cs)
  then obtain s1 where w: "ok_request srv (WriteAt work (init + k) c) s = (Inr (), s1)"
      "copy_with_progress srv opt work init (k + length c) cs s1 = (Inr n, s')"
    by (auto simp: io_simps check_cancelled_def split: if_splits)
  have v: "view (world s1) = (view (world s))(work \<mapsto> d @ c)"
    using w(1) honestD(8) [OF assms] Cons.prems(2,3) by (fastforce simp: ok_request_run)
  have "view (world s') = (view (world s1))(work \<mapsto> (d @ c) @ concat cs)"
    by (rule Cons.IH [OF w(2)]) (use v Cons.prems(3) in simp_all)
  then show ?case using v by simp
qed

lemma finish_result:
  assumes "honest srv view" and "finish_remote_atomic srv work p s = (Inr (), s')"
  shows "view (world s) p = None \<and> view (world s') = (view (world s))(p := view (world s) work, work := None)"
proof -
  obtain s1 where a: "ensure_remote_atomic_destination_absent srv p s = (Inr (), s1)"
      and r: "rename_into_place srv work p s1 = (Inr (), s')"
    using assms(2) by (auto simp: finish_remote_atomic_def io_bind_ok)
  have absent: "view (world s) p = None"
  proof -
    obtain m s2 where m: "remote_symlink_metadata_if_exists srv p s = (Inr m, s2)"
      and c: "(case m of None \<Rightarrow> ret () | Some a \<Rightarrow> if at_type a = Symlink then raise (LinkRefused p)
          else raise (DestinationExists p)) s2 = (Inr (), s1)"
      using a unfolding ensure_remote_atomic_destination_absent_def io_bind_ok by blast
    have "m = None" using c by (cases m) (auto simp: raise_def split: if_splits)
    then show ?thesis using lstat_run [OF m] honestD(2) [OF assms(1)] by auto
  qed
  have same: "view (world s1) = view (world s)" using keepsD [OF keeps_absent [OF assms(1)] a] .
  have "srv (Rename work p) (world s1) = (ROk, world s')"
    using r by (auto simp: rename_into_place_def request_def io_simps split: prod.splits if_splits option.splits)
  from honestD(11) [OF assms(1) this] show ?thesis using absent same by simp
qed

lemma mtime_keeps: "honest srv view \<Longrightarrow> keeps view (preserve_remote_mtime srv p m)"
  unfolding preserve_remote_mtime_def by (rule keeps_ok_request) (rule honestD(10))

lemma write_staging_result:
  assumes "honest srv view" and "reads_ok l" and "lf_stat l lp = LocalFile content m"
    and "write_staging srv l opt lp work flags offset s = (Inr n, s')"
    and start: "\<And>w. srv (OpenFile work flags) (world s) = (ROk, w) \<Longrightarrow> view w = (view (world s))(work \<mapsto> take offset content)"
    and "offset \<le> length content"
  shows "view (world s') = (view (world s))(work \<mapsto> content)"
proof -
  obtain s1 s2 where r: "ok_request srv (OpenFile work flags) s = (Inr (), s1)"
      "copy_with_progress srv opt work offset 0 (lf_reads l lp offset) s1 = (Inr n, s2)"
      "ok_request srv (CloseFile work) s2 = (Inr (), s')" and sound: "lf_fault l lp = None"
    using assms(4) by (cases "lf_fault l lp"; cases "the (lf_fault l lp)") (auto simp: write_staging_def io_simps)
  have v1: "view (world s1) = (view (world s))(work \<mapsto> take offset content)"
    using r(1) start by (auto simp: ok_request_run)
  have "concat (lf_reads l lp offset) = drop offset content" using assms(2,3) sound unfolding reads_ok_def by blast
  then have "view (world s2) = (view (world s1))(work \<mapsto> content)"
    using copy_result [OF assms(1) r(2), of "take offset content"] v1 assms(6) by simp
  moreover have "view (world s') = view (world s2)"
    using keepsD [OF keeps_ok_request r(3)] honestD(9) [OF assms(1)] by blast
  ultimately show ?thesis using v1 by simp
qed

text \<open>A staging file left by an earlier run holds an initial part of the source.\<close>

definition staged_prefix :: "('w \<Rightarrow> rstring \<Rightarrow> u8 list option) \<Rightarrow> 'w \<Rightarrow> rstring \<Rightarrow> u8 list \<Rightarrow> bool" where
  "staged_prefix view w work content \<longleftrightarrow> (\<forall>c. view w work = Some c \<longrightarrow> prefix c content)"

lemma staging_offset_result:
  assumes "honest srv view" and "remote_symlink_metadata_if_exists srv work s = (Inr m, s')"
    and "staging_offset opt work (length content) m = Inr offset"
    and "resume opt \<longrightarrow> staged_prefix view (world s) work content"
  shows "offset \<le> length content \<and>
    (m = None \<longrightarrow> offset = 0) \<and> (m \<noteq> None \<longrightarrow> resume opt \<and> view (world s) work = Some (take offset content))"
proof (cases m)
  case None
  then show ?thesis using assms(3) by (simp add: staging_offset_def)
next
  case (Some a)
  then have f: "resume opt" "at_type a = File" "attr_len a \<le> length content" "offset = attr_len a"
    using assms(3) by (auto simp: staging_offset_def split: if_splits)
  obtain c where c: "view (world s) work = Some c" "length c < 2 ^ 64" "at_size a = Some (of_nat (length c))"
    using lstat_run [OF assms(2)] Some honestD(3) [OF assms(1) _ f(2)] by fastforce
  have len: "offset = length c" using f(4) c(2,3) by (simp add: attr_len_def unat_of_nat)
  have "c = take (length c) content"
    using assms(4) c(1) f(1) by (auto simp: staged_prefix_def prefix_def)
  with f c(1) len Some show ?thesis by simp
qed

lemma upload_file_atomic_result:
  assumes h: "honest srv view" and l: "reads_ok l" and src: "lf_stat l lp = LocalFile content mtime"
    and run: "upload_file_atomic srv l opt nonce lp p s = (Inr n, s')"
    and staged: "resume opt \<longrightarrow> staged_prefix view (world s) (staging_path opt nonce p) content"
  shows "view (world s) p = None \<and>
    view (world s') = (view (world s))(p \<mapsto> content, staging_path opt nonce p := None)"
proof -
  let ?work = "staging_path opt nonce p"
  obtain s1 s2 m s3 offset where
      par: "ensure_remote_parent srv p s = (Inr (), s1)"
    and abs: "ensure_remote_atomic_destination_absent srv p s1 = (Inr (), s2)"
    and meta: "remote_symlink_metadata_if_exists srv ?work s2 = (Inr m, s3)"
    and off: "staging_offset opt ?work (length content) m = Inr offset"
    and rest: "(if resume opt \<and> offset = length content \<and> length content \<noteq> 0 then
           io_bind (finish_remote_atomic srv ?work p) (\<lambda>_.
           io_bind (preserve_remote_mtime srv p mtime) (\<lambda>_. ret 0))
         else
           io_bind (write_staging srv l opt lp ?work (atomic_open_flags (m \<noteq> None)) offset) (\<lambda>copied.
           io_bind (finish_remote_atomic srv ?work p) (\<lambda>_.
           io_bind (preserve_remote_mtime srv p mtime) (\<lambda>_. ret copied)))) s3 = (Inr n, s')"
    using run src
    by (auto simp: upload_file_atomic_def Let_def staging_path_def [symmetric] local_source_def io_bind_ok
        check_cancelled_def lift_ok split: if_splits)
  have v: "view (world s3) = view (world s)" "view (world s2) = view (world s)"
    using keepsD [OF keeps_parent [OF h] par] keepsD [OF keeps_absent [OF h] abs] keepsD [OF keeps_lstat [OF h] meta]
    by simp_all
  note so = staging_offset_result [OF h meta off, unfolded staged_prefix_def v, OF staged [unfolded staged_prefix_def]]
  show ?thesis
  proof (cases "resume opt \<and> offset = length content \<and> length content \<noteq> 0")
    case True
    then obtain s4 where f: "finish_remote_atomic srv ?work p s3 = (Inr (), s4)"
        "preserve_remote_mtime srv p mtime s4 = (Inr (), s')"
      using rest by (auto simp: io_simps)
    have "m \<noteq> None" using so True by auto
    then have "view (world s3) ?work = Some content" using so True v by simp
    then show ?thesis
      using finish_result [OF h f(1)] keepsD [OF mtime_keeps [OF h] f(2)] v by simp
  next
    case False
    then have b: "io_bind (write_staging srv l opt lp ?work (atomic_open_flags (m \<noteq> None)) offset) (\<lambda>copied.
           io_bind (finish_remote_atomic srv ?work p) (\<lambda>_.
           io_bind (preserve_remote_mtime srv p mtime) (\<lambda>_. ret copied))) s3 = (Inr n, s')"
      using rest by (simp only: if_False)
    then obtain k s4 s5 where w: "write_staging srv l opt lp ?work (atomic_open_flags (m \<noteq> None)) offset s3 = (Inr k, s4)"
        and f: "finish_remote_atomic srv ?work p s4 = (Inr (), s5)"
          "preserve_remote_mtime srv p mtime s5 = (Inr (), s')"
      unfolding io_bind_ok ret_ok by auto
    have start: "view x = (view (world s3))(?work \<mapsto> take offset content)"
      if "srv (OpenFile ?work (atomic_open_flags (m \<noteq> None))) (world s3) = (ROk, x)" for x
    proof (cases m)
      case None
      then show ?thesis using that so honestD(5) [OF h] by (simp add: atomic_open_flags_def)
    next
      case (Some a)
      then have "view (world s3) ?work = Some (take offset content)" using so v by simp
      then show ?thesis using that Some honestD(7) [OF h] by (simp add: atomic_open_flags_def fun_upd_idem)
    qed
    have v4: "view (world s4) = (view (world s3))(?work \<mapsto> content)"
      using write_staging_result [OF h l src w start] so by blast
    have "view (world s4) p = None" "view (world s5) = (view (world s4))(p \<mapsto> content, ?work := None)"
      using finish_result [OF h f(1)] v4 by simp_all
    then show ?thesis
      using v4 v staging_path_differs [of opt nonce p] keepsD [OF mtime_keeps [OF h] f(2)]
      by (auto simp: fun_upd_twist)
  qed
qed

subsection \<open>Properties of uploads\<close>

text \<open>A server that keeps regular files only, for the witnesses.\<close>

definition file_attrs :: "u8 list \<Rightarrow> FileAttributes" where
  "file_attrs c = \<lparr>at_type = File, at_size = Some (of_nat (length c)), at_uid = None, at_user = None,
     at_gid = None, at_group = None, at_permissions = Some 0, at_atime = None, at_mtime = None\<rparr>"

fun files_server :: "(rstring \<Rightarrow> u8 list option) server" where
  "files_server (LStat p) w =
     (case w p of None \<Rightarrow> RNoSuchFile | Some c \<Rightarrow> if length c < 2 ^ 64 then RAttrs (file_attrs c) else RFailed, w)"
| "files_server (OpenFile p flags) w =
     (if EXCLUDE \<in> set flags \<and> w p \<noteq> None then (RFailed, w)
      else if EXCLUDE \<in> set flags \<or> TRUNCATE \<in> set flags then (ROk, w(p \<mapsto> [])) else (ROk, w))"
| "files_server (WriteAt p off c) w =
     (case w p of None \<Rightarrow> (RFailed, w) | Some d \<Rightarrow> (ROk, w(p \<mapsto> take off d @ c @ drop (off + length c) d)))"
| "files_server (Rename p q) w = (ROk, w(q := w p, p := None))"
| "files_server q w = (ROk, w)"

lemma files_server_honest: "honest files_server (\<lambda>w. w)"
  unfolding honest_def by (auto simp: file_attrs_def split: option.splits if_splits)

definition sample_local :: LocalFs where
  "sample_local = \<lparr>lf_stat = (\<lambda>_. LocalFile [1, 2, 3] None), lf_reads = (\<lambda>_ off. [drop off [1, 2, 3]]),
     lf_fault = (\<lambda>_. None)\<rparr>"

lemma sample_local_reads: "reads_ok sample_local"
  by (simp add: reads_ok_def sample_local_def)

definition empty_remote :: "(rstring \<Rightarrow> u8 list option) session" where
  "empty_remote = \<lparr>world = (\<lambda>_. None), sent = []\<rparr>"

text \<open>
  C5. An atomic upload publishes the whole file or nothing else: when it succeeds against a server that
  behaves as the protocol documents, from a local file whose reads return its bytes, the destination was absent before, now holds exactly the bytes of
  the local file, the staging file is gone and the content of no other file has changed (directories above
  the destination may have been made). An upload that resumes takes the staging file for an initial part
  of the source, of which it compares only the length: for \<open>resume\<close> that it is one is a hypothesis.
\<close>

theorem atomic_upload_publishes:
  assumes "honest srv view" and "reads_ok l" and "lf_stat l lp = LocalFile content mtime" and "atomic opt"
    and "upload_file srv l opt nonce lp p s = (Inr n, s')"
    and "resume opt \<longrightarrow> staged_prefix view (world s) (staging_path opt nonce p) content"
  shows "view (world s) p = None \<and>
    view (world s') = (view (world s))(p \<mapsto> content, staging_path opt nonce p := None)"
proof -
  have "upload_file_atomic srv l opt nonce lp p s = (Inr n, s')"
    using assms(4,5) by (auto simp: upload_file_def io_simps)
  from upload_file_atomic_result [OF assms(1-3) this assms(6)] show ?thesis .
qed

theorem atomic_upload_publishes_witness:
  "world (snd (upload_file files_server sample_local transfer_options_default (lit ''1.2.3'') (lit ''/x'') (lit ''/d/f'')
     empty_remote)) (lit ''/d/f'') = Some [1, 2, 3]"
proof -
  let ?run = "upload_file files_server sample_local transfer_options_default (lit ''1.2.3'') (lit ''/x'') (lit ''/d/f'')
     empty_remote"
  let ?work = "staging_path transfer_options_default (lit ''1.2.3'') (lit ''/d/f'')"
  have "fst ?run = Inr 3" by code_simp
  then have run: "?run = (Inr 3, snd ?run)" by (metis prod.collapse)
  have pre: "lf_stat sample_local (lit ''/x'') = LocalFile [1, 2, 3] None" "atomic transfer_options_default"
      "resume transfer_options_default \<longrightarrow> staged_prefix (\<lambda>w. w) (world empty_remote) ?work [1, 2, 3]"
    by (simp_all add: sample_local_def transfer_options_default_def staged_prefix_def empty_remote_def)
  have "world (snd ?run) = (world empty_remote)(lit ''/d/f'' \<mapsto> [1, 2, 3], ?work := None)"
    using atomic_upload_publishes [OF files_server_honest sample_local_reads pre(1,2) run pre(3)] by simp
  then show ?thesis using staging_path_differs by (metis fun_upd_apply)
qed

text \<open>
  C28. For every server, whatever it answers: an atomic upload creates directories, opens and writes its
  staging file, renames it to the destination and sets the time of the destination; it never
  truncates or removes anything and never opens the destination for writing.
\<close>

theorem atomic_upload_requests:
  assumes "atomic opt" and "upload_file srv l opt nonce lp p s = (r, s')"
  shows "\<exists>new. sent s' = sent s @ new \<and> list_all (upload_request (staging_path opt nonce p) p) new \<and>
    staging_path opt nonce p \<noteq> p"
proof -
  have "emits (upload_request (staging_path opt nonce p) p) (upload_file srv l opt nonce lp p)"
    using assms(1) upload_file_atomic_emits unfolding upload_file_def
    by (intro emits_bind emits_lift) simp
  then obtain new where "sent s' = sent s @ new" "list_all (upload_request (staging_path opt nonce p) p) new"
    using assms(2) unfolding emits_def by (metis snd_conv)
  then show ?thesis using staging_path_differs by blast
qed

theorem atomic_upload_requests_witness:
  "list_all (upload_request (lit ''/f.kaduox.part.1'') (lit ''/f''))
     (sent (snd (upload_file files_server sample_local transfer_options_default (lit ''1'') (lit ''/x'') (lit ''/f'')
       empty_remote)))"
proof -
  have work: "staging_path transfer_options_default (lit ''1'') (lit ''/f'') = lit ''/f.kaduox.part.1''" by code_simp
  have at: "atomic transfer_options_default" by (simp add: transfer_options_default_def)
  show ?thesis
    using atomic_upload_requests [OF at, of files_server sample_local "lit ''1''" "lit ''/x''" "lit ''/f''" empty_remote]
    by (cases "upload_file files_server sample_local transfer_options_default (lit ''1'') (lit ''/x'') (lit ''/f'') empty_remote")
       (auto simp: work empty_remote_def)
qed

text \<open>
  Without atomic mode the work file is the destination itself, and resuming compares lengths only: an
  older file of the same length at the destination counts as a finished upload. The call reports
  success and the old content stays.
\<close>

theorem resume_keeps_stale_file:
  "let opt = transfer_options_default\<lparr>atomic := False, resume := True\<rparr>;
       run = upload_file files_server sample_local opt [] (lit ''/x'') (lit ''/f'')
               \<lparr>world = (\<lambda>_. None)(lit ''/f'' \<mapsto> [9, 9, 9]), sent = []\<rparr> in
   fst run = Inr 0 \<and> world (snd run) (lit ''/f'') = Some [9, 9, 9]"
  by code_simp

end
