(* ===== verification/Sync_Plan.thy ===== *)
theory Sync_Plan
  imports Transfer_Upload BTree_Map "HOL-Library.Product_Lexorder"
begin

section \<open>Synchronisation plans\<close>

text \<open>
  Model of \<open>sync.rs\<close>: the two scans, the planner, the validation of a plan and its application. The
  snapshots are ordered maps from relative paths to entries. What a plan means is stated against the
  reference semantics \<open>exec_plan\<close>: each action has its effect on a tree only where a file system
  would allow it (files are removed as files, directories only when empty, nothing is created without
  its parent directory). Counts of in-memory lists are compared with the range of \<open>u64\<close> where the code
  converts them.
\<close>

datatype SyncActionKind = DeleteRemoteFile | DeleteRemoteDirectory | CreateRemoteDirectory | UploadFile

record SyncAction =
  sa_kind :: SyncActionKind
  sa_path :: rstring
  sa_bytes :: u64

record SyncPlan =
  actions :: "SyncAction list"
  bytes_to_upload :: u64
  files_to_upload :: u64
  entries_to_delete :: u64
  directories_to_create :: u64

definition plan_is_empty :: "SyncPlan \<Rightarrow> bool" where "plan_is_empty plan \<longleftrightarrow> actions plan = []"

record SyncOptions =
  delete :: bool
  size_only :: bool
  transfer :: TransferOptions

datatype EntryKind = EkFile | EkDirectory | EkOther

record SnapshotEntry =
  se_kind :: EntryKind
  se_len :: u64
  se_mtime :: "u32 option"

type_synonym tree_snapshot = "(rstring, SnapshotEntry) btmap"

subsection \<open>Scanning\<close>

definition join_relative :: "rstring \<Rightarrow> rstring \<Rightarrow> rstring" where
  "join_relative parent child = (if parent = [] then child else parent @ [47] @ child)"

definition path_depth :: "rstring \<Rightarrow> nat" where
  "path_depth p = length (filter (\<lambda>w. w \<noteq> []) (split_on (\<lambda>c. c = 47) p))"

text \<open>\<open>local_mtime\<close>: whole seconds since 1970 when they fit 32 bits; a time before 1970 has none.\<close>

definition local_mtime :: "int \<Rightarrow> u32 option" where
  "local_mtime secs = (if 0 \<le> secs \<and> secs < 2 ^ 32 then Some (of_int secs) else None)"

text \<open>
  The entries of one directory: each name must be UTF-8 and is validated, links and special local files
  (\<open>None\<close>) are skipped, directories are pushed on the stack with the path to list them by.
\<close>

fun add_children ::
  "(rstring \<Rightarrow> path_error + rstring) \<Rightarrow> rstring \<Rightarrow> (rstring option \<times> SnapshotEntry option) list \<Rightarrow> tree_snapshot \<Rightarrow>
   (rstring \<times> rstring) list \<Rightarrow> sftp_error + tree_snapshot \<times> (rstring \<times> rstring) list" where
  "add_children child relative [] snap stack = Inr (snap, stack)"
| "add_children child relative ((name, entry) # rest) snap stack =
     and_then (ok_or (LocalFailed relative) name) (\<lambda>name.
     and_then (map_err UnsafePath (validate_remote_child_name name)) (\<lambda>_.
     and_then (map_err UnsafePath (child name)) (\<lambda>child_path.
       let child_relative = join_relative relative name in
       case entry of
         None \<Rightarrow> add_children child relative rest snap stack
       | Some e \<Rightarrow>
           add_children child relative rest (bt_insert child_relative e snap)
             (if se_kind e = EkDirectory then (child_path, child_relative) # stack else stack))))"

definition remote_kind :: "RemoteFileType \<Rightarrow> EntryKind" where
  "remote_kind t = (if t = Directory then EkDirectory else if t = File then EkFile else EkOther)"

definition remote_children :: "(rstring \<times> FileAttributes) list \<Rightarrow> (rstring option \<times> SnapshotEntry option) list" where
  "remote_children ns =
     map (\<lambda>(name, a). (Some name, Some \<lparr>se_kind = remote_kind (at_type a), se_len = of_nat (attr_len a), se_mtime = at_mtime a\<rparr>))
       (filter (\<lambda>(name, a). name \<noteq> lit ''.'' \<and> name \<noteq> lit ''..'') ns)"

text \<open>The walk has no bound in the code: \<open>None\<close> is a walk still going on when the fuel is used up.\<close>

fun scan_remote_from :: "nat \<Rightarrow> 'w server \<Rightarrow> tree_snapshot \<Rightarrow> (rstring \<times> rstring) list \<Rightarrow> ('w, tree_snapshot option) io" where
  "scan_remote_from fuel srv snap [] = ret (Some snap)"
| "scan_remote_from fuel srv snap ((directory, relative) # ds) =
     (if fuel = 0 then ret None
      else
        io_bind (read_dir srv directory) (\<lambda>ns.
        io_bind (lift_result (add_children (join_remote_under_root directory) relative (remote_children ns) snap ds)) (\<lambda>(snap', ds').
          scan_remote_from (fuel - 1) srv snap' ds')))"

definition scan_remote :: "nat \<Rightarrow> 'w server \<Rightarrow> rstring \<Rightarrow> ('w, tree_snapshot option) io" where
  "scan_remote fuel srv root =
     io_bind (try_exists srv root) (\<lambda>ex.
       if \<not> ex then ret (Some [])
       else
         io_bind (symlink_metadata srv root) (\<lambda>a.
         io_bind (bail_if (at_type a = Symlink) (LinkRefused root)) (\<lambda>_.
         io_bind (bail_if (at_type a \<noteq> Directory) (NotADirectory root)) (\<lambda>_.
           scan_remote_from fuel srv [] [(root, [])]))))"

text \<open>
  The local file system is a parameter as well: \<open>LocalFs\<close> for the status of a path, and the entries of a
  directory with their names (\<open>None\<close> when not UTF-8) and types.
\<close>

datatype local_type = LtLink | LtDirectory "u32 option" | LtFile u64 "u32 option" | LtOther

type_synonym local_dirs = "rstring \<Rightarrow> (rstring option \<times> local_type) list option"

fun local_entry :: "local_type \<Rightarrow> SnapshotEntry option" where
  "local_entry (LtDirectory m) = Some \<lparr>se_kind = EkDirectory, se_len = 0, se_mtime = m\<rparr>"
| "local_entry (LtFile n m) = Some \<lparr>se_kind = EkFile, se_len = n, se_mtime = m\<rparr>"
| "local_entry _ = None"

definition local_children :: "(rstring option \<times> local_type) list \<Rightarrow> (rstring option \<times> SnapshotEntry option) list" where
  "local_children es = map (\<lambda>(name, t). (name, local_entry t)) es"

fun scan_local_from :: "nat \<Rightarrow> local_dirs \<Rightarrow> tree_snapshot \<Rightarrow> (rstring \<times> rstring) list \<Rightarrow> sftp_error + tree_snapshot option" where
  "scan_local_from fuel dirs snap [] = Inr (Some snap)"
| "scan_local_from fuel dirs snap ((directory, relative) # ds) =
     (if fuel = 0 then Inr None
      else
        and_then (ok_or (LocalFailed directory) (dirs directory)) (\<lambda>es.
        and_then (add_children (\<lambda>name. Inr (path_push directory name)) relative (local_children es) snap ds) (\<lambda>(snap', ds').
          scan_local_from (fuel - 1) dirs snap' ds')))"

definition sync_root :: "LocalFs \<Rightarrow> rstring \<Rightarrow> sftp_error + unit" where
  "sync_root l root =
     (case lf_stat l root of
        LocalMissing \<Rightarrow> Inl (LocalFailed root)
      | LocalLinkNode \<Rightarrow> Inl (LocalLink root)
      | LocalDirectory \<Rightarrow> Inr ()
      | _ \<Rightarrow> Inl (NotADirectory root))"

definition scan_local :: "nat \<Rightarrow> LocalFs \<Rightarrow> local_dirs \<Rightarrow> rstring \<Rightarrow> sftp_error + tree_snapshot option" where
  "scan_local fuel l dirs root =
     and_then (sync_root l root) (\<lambda>_. scan_local_from fuel dirs [] [(root, [])])"

subsection \<open>Planning\<close>

definition abs_diff :: "u32 \<Rightarrow> u32 \<Rightarrow> nat" where
  "abs_diff a b = (if b \<le> a then unat a - unat b else unat b - unat a)"

definition files_match :: "SnapshotEntry \<Rightarrow> SnapshotEntry \<Rightarrow> bool \<Rightarrow> bool" where
  "files_match loc rem sz_only =
     (if se_len loc \<noteq> se_len rem then False
      else if sz_only then True
      else case (se_mtime loc, se_mtime rem) of
        (Some a, Some b) \<Rightarrow> abs_diff a b \<le> 1
      | _ \<Rightarrow> False)"

definition sync_action :: "SyncActionKind \<Rightarrow> rstring \<Rightarrow> u64 \<Rightarrow> SyncAction" where
  "sync_action k p n = \<lparr>sa_kind = k, sa_path = p, sa_bytes = n\<rparr>"

record Buckets =
  delete_files :: "SyncAction list"
  delete_directories :: "SyncAction list"
  create_directories :: "SyncAction list"
  uploads :: "SyncAction list"

definition push_create :: "rstring \<Rightarrow> SnapshotEntry \<Rightarrow> Buckets \<Rightarrow> Buckets" where
  "push_create p e b =
     (case se_kind e of
        EkDirectory \<Rightarrow> b\<lparr>create_directories := create_directories b @ [sync_action CreateRemoteDirectory p 0]\<rparr>
      | EkFile \<Rightarrow> b\<lparr>uploads := uploads b @ [sync_action UploadFile p (se_len e)]\<rparr>
      | EkOther \<Rightarrow> b)"

definition push_delete :: "rstring \<Rightarrow> SnapshotEntry \<Rightarrow> Buckets \<Rightarrow> Buckets" where
  "push_delete p e b =
     (case se_kind e of
        EkDirectory \<Rightarrow> b\<lparr>delete_directories := delete_directories b @ [sync_action DeleteRemoteDirectory p 0]\<rparr>
      | _ \<Rightarrow> b\<lparr>delete_files := delete_files b @ [sync_action DeleteRemoteFile p 0]\<rparr>)"

fun plan_local :: "tree_snapshot \<Rightarrow> SyncOptions \<Rightarrow> tree_snapshot \<Rightarrow> Buckets \<Rightarrow> sftp_error + Buckets" where
  "plan_local rem opt [] b = Inr b"
| "plan_local rem opt ((p, e) # rest) b =
     (case bt_get rem p of
        None \<Rightarrow> plan_local rem opt rest (push_create p e b)
      | Some r \<Rightarrow>
          if se_kind r = se_kind e then
            plan_local rem opt rest
              (if se_kind e = EkFile \<and> \<not> files_match e r (size_only opt)
               then b\<lparr>uploads := uploads b @ [sync_action UploadFile p (se_len e)]\<rparr> else b)
          else if \<not> delete opt then Inl (TypeConflict p)
          else plan_local rem opt rest (push_create p e (push_delete p r b)))"

fun plan_extras :: "tree_snapshot \<Rightarrow> tree_snapshot \<Rightarrow> Buckets \<Rightarrow> Buckets" where
  "plan_extras loc [] b = b"
| "plan_extras loc ((p, r) # rest) b =
     plan_extras loc rest (if bt_get loc p \<noteq> None then b else push_delete p r b)"

text \<open>\<open>sort_by\<close> is stable; a reversed comparison is the reverse of the ascending sort of the reverse.\<close>

definition by_depth :: "SyncAction \<Rightarrow> nat \<times> rstring" where "by_depth a = (path_depth (sa_path a), sa_path a)"

definition sort_buckets :: "Buckets \<Rightarrow> Buckets" where
  "sort_buckets b =
     \<lparr>delete_files = sort_key sa_path (delete_files b),
      delete_directories = rev (sort_key by_depth (rev (delete_directories b))),
      create_directories = sort_key by_depth (create_directories b),
      uploads = sort_key sa_path (uploads b)\<rparr>"

fun total_bytes :: "u64 \<Rightarrow> SyncAction list \<Rightarrow> sftp_error + u64" where
  "total_bytes acc [] = Inr acc"
| "total_bytes acc (a # as) = and_then (ok_or CounterOverflow (checked_add_u64 acc (sa_bytes a))) (\<lambda>acc'. total_bytes acc' as)"

definition count_u64 :: "nat \<Rightarrow> sftp_error + u64" where
  "count_u64 n = (if n < 2 ^ 64 then Inr (of_nat n) else Inl CounterOverflow)"

definition empty_buckets :: Buckets where
  "empty_buckets = \<lparr>delete_files = [], delete_directories = [], create_directories = [], uploads = []\<rparr>"

definition assemble :: "Buckets \<Rightarrow> sftp_error + SyncPlan" where
  "assemble b =
     and_then (count_u64 (length (delete_files b) + length (delete_directories b))) (\<lambda>dels.
     and_then (count_u64 (length (create_directories b))) (\<lambda>dirs.
     and_then (count_u64 (length (uploads b))) (\<lambda>ups.
     and_then (total_bytes 0 (uploads b)) (\<lambda>n.
       Inr \<lparr>actions = delete_files b @ delete_directories b @ create_directories b @ uploads b,
            bytes_to_upload = n, files_to_upload = ups, entries_to_delete = dels, directories_to_create = dirs\<rparr>))))"

definition build_push_plan :: "tree_snapshot \<Rightarrow> tree_snapshot \<Rightarrow> SyncOptions \<Rightarrow> sftp_error + SyncPlan" where
  "build_push_plan loc rem opt =
     and_then (plan_local rem opt loc empty_buckets) (\<lambda>b.
       assemble (sort_buckets (if delete opt then plan_extras loc rem b else b)))"

definition validate_sync_plan :: "SyncPlan \<Rightarrow> sftp_error + unit" where
  "validate_sync_plan plan =
     try_each (\<lambda>a. and_then (map_err UnsafePath (validate_remote_relative_path (sa_path a))) (\<lambda>_.
                   and_then (map_err UnsafePath (local_path_from_remote_relative (sa_path a))) (\<lambda>_. Inr ())))
       (actions plan)"

text \<open>\<open>plan_sync_to_remote\<close>: both scans, then the plan; the session is left open when a step fails.\<close>

definition plan_sync_to_remote ::
  "nat \<Rightarrow> 'w server \<Rightarrow> LocalFs \<Rightarrow> local_dirs \<Rightarrow> rstring \<Rightarrow> rstring \<Rightarrow> SyncOptions \<Rightarrow> ('w, SyncPlan option) io" where
  "plan_sync_to_remote fuel srv l dirs local_root remote_root opt =
     io_bind (lift_result (transfer_options_validated (transfer opt))) (\<lambda>_.
     io_bind (lift_result (scan_local fuel l dirs local_root)) (\<lambda>loc.
       case loc of None \<Rightarrow> ret None
       | Some loc \<Rightarrow>
           io_bind (ok_request srv OpenSession) (\<lambda>_.
           io_bind (scan_remote fuel srv remote_root) (\<lambda>rem.
             case rem of None \<Rightarrow> ret None
             | Some rem \<Rightarrow>
                 io_bind (lift_result (build_push_plan loc rem opt)) (\<lambda>plan.
                 io_bind (ok_request srv CloseSession) (\<lambda>_. ret (Some plan)))))))"

subsection \<open>What a plan means\<close>

type_synonym tree = "rstring \<Rightarrow> SnapshotEntry option"

definition parent_of :: "rstring \<Rightarrow> rstring option" where
  "parent_of p = map_option fst (rsplit_once 47 p)"

definition is_directory :: "tree \<Rightarrow> rstring \<Rightarrow> bool" where
  "is_directory t p \<longleftrightarrow> (\<exists>e. t p = Some e \<and> se_kind e = EkDirectory)"

definition has_parent :: "tree \<Rightarrow> rstring \<Rightarrow> bool" where
  "has_parent t p \<longleftrightarrow> (\<forall>d. parent_of p = Some d \<longrightarrow> is_directory t d)"

definition closed_tree :: "tree \<Rightarrow> bool" where
  "closed_tree t \<longleftrightarrow> (\<forall>p \<in> dom t. validate_remote_relative_path p = Inr () \<and> has_parent t p)"

definition new_directory :: SnapshotEntry where
  "new_directory = \<lparr>se_kind = EkDirectory, se_len = 0, se_mtime = None\<rparr>"

definition exec_action :: "tree \<Rightarrow> SyncAction \<Rightarrow> tree \<Rightarrow> tree option" where
  "exec_action loc a t =
     (let p = sa_path a in
      case sa_kind a of
        DeleteRemoteFile \<Rightarrow> if t p \<noteq> None \<and> \<not> is_directory t p then Some (t(p := None)) else None
      | DeleteRemoteDirectory \<Rightarrow>
          if is_directory t p \<and> (\<forall>q. parent_of q = Some p \<longrightarrow> t q = None) then Some (t(p := None)) else None
      | CreateRemoteDirectory \<Rightarrow>
          if is_directory t p then Some t
          else if t p = None \<and> has_parent t p then Some (t(p \<mapsto> new_directory)) else None
      | UploadFile \<Rightarrow> if has_parent t p \<and> \<not> is_directory t p then Some (t(p := loc p)) else None)"

fun exec_actions :: "tree \<Rightarrow> SyncAction list \<Rightarrow> tree \<Rightarrow> tree option" where
  "exec_actions loc [] t = Some t"
| "exec_actions loc (a # as) t = Option.bind (exec_action loc a t) (exec_actions loc as)"

text \<open>\<open>apply_sync_to_remote\<close> first runs through the actions that are not uploads, then uploads.\<close>

definition exec_plan :: "tree \<Rightarrow> SyncPlan \<Rightarrow> tree \<Rightarrow> tree option" where
  "exec_plan loc plan t =
     Option.bind (exec_actions loc (filter (\<lambda>a. sa_kind a \<noteq> UploadFile) (actions plan)) t)
       (exec_actions loc (filter (\<lambda>a. sa_kind a = UploadFile) (actions plan)))"

subsection \<open>The buckets of a plan\<close>

definition needs_upload :: "tree \<Rightarrow> bool \<Rightarrow> rstring \<Rightarrow> SnapshotEntry \<Rightarrow> bool" where
  "needs_upload R sz p e \<longleftrightarrow>
     se_kind e = EkFile \<and> (\<forall>r. R p = Some r \<and> se_kind r = EkFile \<longrightarrow> \<not> files_match e r sz)"

definition needs_create :: "tree \<Rightarrow> rstring \<Rightarrow> SnapshotEntry \<Rightarrow> bool" where
  "needs_create R p e \<longleftrightarrow> se_kind e = EkDirectory \<and> \<not> is_directory R p"

definition conflicting :: "tree \<Rightarrow> rstring \<Rightarrow> SnapshotEntry \<Rightarrow> bool" where
  "conflicting R p e \<longleftrightarrow> (\<exists>r. R p = Some r \<and> se_kind r \<noteq> se_kind e)"

definition acts ::
  "SyncActionKind \<Rightarrow> (SnapshotEntry \<Rightarrow> u64) \<Rightarrow> (rstring \<Rightarrow> SnapshotEntry \<Rightarrow> bool) \<Rightarrow> tree_snapshot \<Rightarrow> SyncAction list" where
  "acts k f Q es = map (\<lambda>(p, e). sync_action k p (f e)) (filter (\<lambda>(p, e). Q p e) es)"

lemma kind_acts: "a \<in> set (acts k f Q es) \<Longrightarrow> sa_kind a = k"
  by (auto simp: acts_def sync_action_def)

lemma paths_acts: "bt_ok es \<Longrightarrow> sa_path ` set (acts k f Q es) = {p. \<exists>e. bt_get es p = Some e \<and> Q p e}"
  by (force simp: acts_def bt_get_iff sync_action_def image_iff)

lemma distinct_acts: "bt_ok es \<Longrightarrow> distinct (map sa_path (acts k f Q es))"
proof -
  have "map sa_path (acts k f Q es) = map fst (filter (\<lambda>(p, e). Q p e) es)"
    by (auto simp: acts_def sync_action_def)
  moreover assume "bt_ok es"
  ultimately show ?thesis by (simp add: bt_ok_distinct distinct_map_filter)
qed

lemma distinct_two_acts:
  assumes "bt_ok xs" "bt_ok ys" "\<And>p e. Q' p e \<Longrightarrow> bt_get xs p = None"
  shows "distinct (map sa_path (acts k f Q xs @ acts k' g Q' ys))"
proof -
  have "sa_path ` set (acts k f Q xs) \<inter> sa_path ` set (acts k' g Q' ys) = {}"
    unfolding paths_acts [OF assms(1)] paths_acts [OF assms(2)] using assms(3) by fastforce
  then show ?thesis using assms distinct_acts by (simp only: map_append distinct_append set_map)
qed

lemmas bucket_defs = needs_upload_def needs_create_def conflicting_def is_directory_def push_create_def push_delete_def

lemma plan_local_buckets:
  assumes "plan_local rem opt es b = Inr b'"
  shows "uploads b' = uploads b @
      acts UploadFile se_len (needs_upload (bt_get rem) (size_only opt)) es"
    and "create_directories b' = create_directories b @
      acts CreateRemoteDirectory (\<lambda>_. 0) (needs_create (bt_get rem)) es"
    and "delete_files b' = delete_files b @
      acts DeleteRemoteFile (\<lambda>_. 0) (\<lambda>p e. conflicting (bt_get rem) p e \<and> \<not> is_directory (bt_get rem) p) es"
    and "delete_directories b' = delete_directories b @
      acts DeleteRemoteDirectory (\<lambda>_. 0) (\<lambda>p e. conflicting (bt_get rem) p e \<and> is_directory (bt_get rem) p) es"
    and "\<not> delete opt \<Longrightarrow> \<forall>(p, e) \<in> set es. \<not> conflicting (bt_get rem) p e"
  using assms
  by (induction rem opt es b rule: plan_local.induct)
    (auto simp: acts_def bucket_defs split: option.splits if_splits EntryKind.splits)

lemma plan_extras_buckets:
  "uploads (plan_extras loc es b) = uploads b"
  "create_directories (plan_extras loc es b) = create_directories b"
  "delete_files (plan_extras loc es b) = delete_files b @
     acts DeleteRemoteFile (\<lambda>_. 0) (\<lambda>p r. bt_get loc p = None \<and> se_kind r \<noteq> EkDirectory) es"
  "delete_directories (plan_extras loc es b) = delete_directories b @
     acts DeleteRemoteDirectory (\<lambda>_. 0) (\<lambda>p r. bt_get loc p = None \<and> se_kind r = EkDirectory) es"
  by (induction loc es b rule: plan_extras.induct) (auto simp: acts_def push_delete_def split: EntryKind.splits)

subsection \<open>The four phases on a tree\<close>

definition plain_path :: "rstring \<Rightarrow> bool" where
  "plain_path p \<longleftrightarrow> (\<forall>w \<in> set (split_on (\<lambda>c. c = 47) p). plain_name w)"

lemma closed_treeD:
  assumes "closed_tree t" and "t p = Some e"
  shows "plain_path p" and "parent_of p = Some d \<Longrightarrow> is_directory t d"
  using assms validate_relative_plain by (auto simp: closed_tree_def plain_path_def has_parent_def dom_def)

lemma parent_depth:
  assumes "parent_of q = Some p" and "plain_path q"
  shows "path_depth p < path_depth q"
proof -
  obtain n where q: "q = p @ 47 # n" "47 \<notin> set n"
    using assms(1) by (auto simp: parent_of_def rsplit_once_Some)
  have "split_on (\<lambda>c. c = 47) q = split_on (\<lambda>c. c = 47) p @ [n]"
    using q split_on_single [of n "\<lambda>c. c = 47"] by (auto simp: split_on_append)
  then show ?thesis using assms(2) by (auto simp: path_depth_def plain_path_def plain_name_def)
qed

lemma parent_neq: "parent_of q = Some p \<Longrightarrow> q \<noteq> p"
  by (auto simp: parent_of_def rsplit_once_Some)

lemma exec_append:
  "exec_actions loc (xs @ ys) t = Option.bind (exec_actions loc xs t) (exec_actions loc ys)"
  by (induction xs arbitrary: t) (auto simp: Option.bind_eq_Some_conv split: Option.bind_splits)

lemma exec_delete_files:
  assumes "distinct (map sa_path xs)" and "\<forall>a \<in> set xs. sa_kind a = DeleteRemoteFile"
    and "\<forall>a \<in> set xs. t (sa_path a) \<noteq> None \<and> \<not> is_directory t (sa_path a)"
  shows "exec_actions loc xs t = Some (t |` (- sa_path ` set xs))"
  using assms
proof (induction xs arbitrary: t)
  case (Cons a xs)
  let ?t = "t(sa_path a := None)"
  have other: "sa_path b \<noteq> sa_path a" if "b \<in> set xs" for b
    using Cons.prems(1) that by (metis distinct.simps(2) image_eqI list.map(2) set_map)
  have "exec_actions loc xs ?t = Some (?t |` (- sa_path ` set xs))"
  proof (rule Cons.IH)
    show "\<forall>b \<in> set xs. ?t (sa_path b) \<noteq> None \<and> \<not> is_directory ?t (sa_path b)"
      using Cons.prems(3) other by (simp add: is_directory_def)
  qed (use Cons.prems in auto)
  moreover have "?t |` (- sa_path ` set xs) = t |` (- sa_path ` set (a # xs))"
    by (auto simp: restrict_map_def fun_eq_iff)
  ultimately show ?case using Cons.prems by (simp add: exec_action_def)
qed (simp add: restrict_map_def)

lemma exec_delete_directories:
  assumes "distinct (map sa_path xs)" and "\<forall>a \<in> set xs. sa_kind a = DeleteRemoteDirectory"
    and "sorted_wrt (\<lambda>a b. path_depth (sa_path b) \<le> path_depth (sa_path a)) xs"
    and "\<forall>a \<in> set xs. is_directory t (sa_path a)"
    and "\<And>a q. a \<in> set xs \<Longrightarrow> parent_of q = Some (sa_path a) \<Longrightarrow> t q \<noteq> None \<Longrightarrow> q \<in> sa_path ` set xs"
    and "\<forall>q \<in> dom t. plain_path q"
  shows "exec_actions loc xs t = Some (t |` (- sa_path ` set xs))"
  using assms
proof (induction xs arbitrary: t)
  case (Cons a xs)
  let ?t = "t(sa_path a := None)"
  have other: "sa_path b \<noteq> sa_path a" if "b \<in> set xs" for b
    using Cons.prems(1) that by (metis distinct.simps(2) image_eqI list.map(2) set_map)
  have empty: "t q = None" if par: "parent_of q = Some (sa_path a)" for q
  proof (rule ccontr)
    assume some: "t q \<noteq> None"
    then have "path_depth (sa_path a) < path_depth q"
      using par Cons.prems(6) by (auto intro: parent_depth)
    moreover have "q \<in> sa_path ` set xs"
      using Cons.prems(5) [OF _ par some] parent_neq [OF par] by auto
    ultimately show False using Cons.prems(3) by auto
  qed
  have "exec_actions loc xs ?t = Some (?t |` (- sa_path ` set xs))"
  proof (rule Cons.IH)
    show "\<forall>b \<in> set xs. is_directory ?t (sa_path b)" using Cons.prems(4) other by (simp add: is_directory_def)
    show "q \<in> sa_path ` set xs" if "b \<in> set xs" "parent_of q = Some (sa_path b)" "?t q \<noteq> None" for b q
      using Cons.prems(5) [of b q] that by (auto split: if_splits)
    show "\<forall>q \<in> dom ?t. plain_path q" using Cons.prems(6) by auto
  qed (use Cons.prems in auto)
  moreover have "?t |` (- sa_path ` set xs) = t |` (- sa_path ` set (a # xs))"
    by (auto simp: restrict_map_def fun_eq_iff)
  ultimately show ?case using Cons.prems(2,4) empty by (simp add: exec_action_def)
qed (simp add: restrict_map_def)

definition with_directories :: "rstring set \<Rightarrow> tree \<Rightarrow> tree" where
  "with_directories D t = (\<lambda>p. if p \<in> D then Some new_directory else t p)"

lemma is_directory_with: "is_directory (with_directories D t) p \<longleftrightarrow> p \<in> D \<or> is_directory t p"
  by (simp add: is_directory_def with_directories_def new_directory_def)

lemma exec_create_directories:
  assumes "distinct (map sa_path xs)" and "\<forall>a \<in> set xs. sa_kind a = CreateRemoteDirectory"
    and "sorted_wrt (\<lambda>a b. path_depth (sa_path a) \<le> path_depth (sa_path b)) xs"
    and "\<forall>a \<in> set xs. t (sa_path a) = None \<and> plain_path (sa_path a)"
    and "\<And>a d. a \<in> set xs \<Longrightarrow> parent_of (sa_path a) = Some d \<Longrightarrow> is_directory t d \<or> d \<in> sa_path ` set xs"
  shows "exec_actions loc xs t = Some (with_directories (sa_path ` set xs) t)"
  using assms
proof (induction xs arbitrary: t)
  case (Cons a xs)
  let ?t = "t(sa_path a \<mapsto> new_directory)"
  have other: "sa_path b \<noteq> sa_path a" if "b \<in> set xs" for b
    using Cons.prems(1) that by (metis distinct.simps(2) image_eqI list.map(2) set_map)
  have dir: "is_directory ?t d \<longleftrightarrow> d = sa_path a \<or> is_directory t d" for d
    by (simp add: is_directory_def new_directory_def)
  have par: "has_parent t (sa_path a)"
    unfolding has_parent_def
  proof (intro allI impI)
    fix d assume d: "parent_of (sa_path a) = Some d"
    then have "path_depth d < path_depth (sa_path a)" using Cons.prems(4) by (auto intro: parent_depth)
    then have "d \<notin> sa_path ` set (a # xs)" using Cons.prems(3) by auto
    then show "is_directory t d" using Cons.prems(5) [OF _ d] by auto
  qed
  have "exec_actions loc xs ?t = Some (with_directories (sa_path ` set xs) ?t)"
  proof (rule Cons.IH)
    show "is_directory ?t d \<or> d \<in> sa_path ` set xs" if "b \<in> set xs" "parent_of (sa_path b) = Some d" for b d
      using Cons.prems(5) [of b d] that dir by auto
    show "\<forall>b \<in> set xs. ?t (sa_path b) = None \<and> plain_path (sa_path b)"
      using Cons.prems(4) other by simp
  qed (use Cons.prems in auto)
  moreover have "with_directories (sa_path ` set xs) ?t = with_directories (sa_path ` set (a # xs)) t"
    by (auto simp: with_directories_def fun_eq_iff)
  moreover have "\<not> is_directory t (sa_path a)" using Cons.prems(4) by (simp add: is_directory_def)
  ultimately show ?case using Cons.prems(2,4) par by (simp add: exec_action_def)
qed (simp add: with_directories_def)

lemma exec_uploads:
  assumes "\<forall>a \<in> set xs. sa_kind a = UploadFile \<and> has_parent t (sa_path a) \<and> \<not> is_directory t (sa_path a)"
    and "\<forall>a \<in> set xs. \<not> is_directory loc (sa_path a)"
  shows "exec_actions loc xs t = Some (override_on t loc (sa_path ` set xs))"
  using assms
proof (induction xs arbitrary: t)
  case (Cons a xs)
  let ?t = "t(sa_path a := loc (sa_path a))"
  have dir: "is_directory ?t = is_directory t"
    using Cons.prems by (auto simp: is_directory_def fun_eq_iff)
  have "exec_actions loc xs ?t = Some (override_on ?t loc (sa_path ` set xs))"
    using Cons.prems by (intro Cons.IH) (simp_all only: dir has_parent_def, simp_all)
  moreover have "override_on ?t loc (sa_path ` set xs) = override_on t loc (sa_path ` set (a # xs))"
    by (auto simp: override_on_def fun_eq_iff)
  ultimately show ?case using Cons.prems by (simp add: exec_action_def Let_def)
qed simp

subsection \<open>The shape of a plan\<close>

text \<open>The remote entries a plan removes, the directories it creates and the files it uploads.\<close>

definition removed :: "tree \<Rightarrow> tree \<Rightarrow> bool \<Rightarrow> rstring \<Rightarrow> bool" where
  "removed L R del p \<longleftrightarrow> del \<and> R p \<noteq> None \<and> (\<forall>e. L p = Some e \<longrightarrow> conflicting R p e)"

definition created :: "tree \<Rightarrow> tree \<Rightarrow> rstring set" where
  "created L R = {p. \<exists>e. L p = Some e \<and> needs_create R p e}"

definition uploaded :: "tree \<Rightarrow> tree \<Rightarrow> bool \<Rightarrow> rstring set" where
  "uploaded L R sz = {p. \<exists>e. L p = Some e \<and> needs_upload R sz p e}"

lemma sorted_by_depth:
  "sorted_wrt (\<lambda>a b. path_depth (sa_path a) \<le> path_depth (sa_path b)) (sort_key by_depth xs)"
proof (rule sorted_wrt_mono_rel)
  show "sorted_wrt (\<lambda>a b. by_depth a \<le> by_depth b) (sort_key by_depth xs)"
    using sorted_sort_key [of by_depth xs] by (simp add: sorted_map)
qed (auto simp: by_depth_def less_eq_prod_def)

definition parts_of :: "tree \<Rightarrow> tree \<Rightarrow> SyncOptions \<Rightarrow> Buckets \<Rightarrow> bool" where
  "parts_of L R opt b \<longleftrightarrow>
     (\<forall>a \<in> set (delete_files b). sa_kind a = DeleteRemoteFile) \<and>
     (\<forall>a \<in> set (delete_directories b). sa_kind a = DeleteRemoteDirectory) \<and>
     (\<forall>a \<in> set (create_directories b). sa_kind a = CreateRemoteDirectory) \<and>
     (\<forall>a \<in> set (uploads b). sa_kind a = UploadFile) \<and>
     distinct (map sa_path (delete_files b)) \<and> distinct (map sa_path (delete_directories b)) \<and>
     distinct (map sa_path (create_directories b)) \<and>
     sa_path ` set (delete_files b) = {p. removed L R (delete opt) p \<and> \<not> is_directory R p} \<and>
     sa_path ` set (delete_directories b) = {p. removed L R (delete opt) p \<and> is_directory R p} \<and>
     sa_path ` set (create_directories b) = created L R \<and>
     sa_path ` set (uploads b) = uploaded L R (size_only opt)"

lemma plan_local_parts:
  assumes ok: "bt_ok loc" "bt_ok rem" and plan: "plan_local rem opt loc empty_buckets = Inr b"
  shows "parts_of (bt_get loc) (bt_get rem) opt (if delete opt then plan_extras loc rem b else b)"
proof -
  let ?b = "if delete opt then plan_extras loc rem b else b" and ?R = "bt_get rem" and ?L = "bt_get loc"
  note b = plan_local_buckets [OF plan]
  define F where "F = (\<lambda>k P es. acts k (\<lambda>_. 0) (\<lambda>p e. conflicting ?R p e \<and> P p) es)"
  define X where "X = (\<lambda>k Q. if delete opt then acts k (\<lambda>_. 0) (\<lambda>p r. ?L p = None \<and> Q r) rem else [])"
  have buckets: "uploads ?b = acts UploadFile se_len (needs_upload ?R (size_only opt)) loc"
    "create_directories ?b = acts CreateRemoteDirectory (\<lambda>_. 0) (needs_create ?R) loc"
    "delete_files ?b = F DeleteRemoteFile (\<lambda>p. \<not> is_directory ?R p) loc @ X DeleteRemoteFile (\<lambda>r. se_kind r \<noteq> EkDirectory)"
    "delete_directories ?b = F DeleteRemoteDirectory (is_directory ?R) loc @ X DeleteRemoteDirectory (\<lambda>r. se_kind r = EkDirectory)"
    by (simp_all add: b plan_extras_buckets empty_buckets_def F_def X_def)
  have kinds: "a \<in> set (F k P loc @ X k Q) \<Longrightarrow> sa_kind a = k" for a k P Q
    by (auto simp: F_def X_def kind_acts split: if_splits)
  have dist: "distinct (map sa_path (F k P loc @ X k Q))" for k P Q
  proof (cases "delete opt")
    case True
    then show ?thesis unfolding F_def X_def if_P [OF True] by (intro distinct_two_acts ok) simp
  qed (use distinct_acts [OF ok(1)] in \<open>simp add: F_def X_def\<close>)
  have clean: "conflicting ?R p e \<Longrightarrow> ?L p = Some e \<Longrightarrow> delete opt" for p e
    using b(5) bt_get_SomeD by (cases "delete opt") force+
  have paths: "sa_path ` set (F k P loc @ X k Q) = {p. removed ?L ?R (delete opt) p \<and> P p}"
    if "\<And>p r. ?R p = Some r \<Longrightarrow> Q r = P p" for k P Q
  proof -
    have "sa_path ` set (X k Q) = {p. delete opt \<and> (\<exists>r. ?R p = Some r \<and> ?L p = None \<and> Q r)}"
      by (cases "delete opt") (simp_all add: X_def paths_acts [OF ok(2)])
    moreover have "sa_path ` set (F k P loc) = {p. \<exists>e. ?L p = Some e \<and> conflicting ?R p e \<and> P p}"
      by (simp add: F_def paths_acts [OF ok(1)])
    ultimately show ?thesis
      unfolding set_append image_Un using that clean by (auto simp: removed_def) (auto simp: conflicting_def)
  qed
  show ?thesis
    unfolding parts_of_def buckets created_def uploaded_def
    using kinds dist paths kind_acts distinct_acts [OF ok(1)] paths_acts [OF ok(1)]
    by (intro conjI ballI) (simp_all add: is_directory_def)
qed

lemma parts_of_sorted: "parts_of L R opt b \<Longrightarrow> parts_of L R opt (sort_buckets b)"
  by (simp add: parts_of_def sort_buckets_def distinct_map)

lemma build_plan_parts:
  assumes "bt_ok loc" "bt_ok rem" and plan: "build_push_plan loc rem opt = Inr plan"
  obtains b where "parts_of (bt_get loc) (bt_get rem) opt b"
    and "actions plan = delete_files b @ delete_directories b @ create_directories b @ uploads b"
    and "sorted_wrt (\<lambda>a b. path_depth (sa_path b) \<le> path_depth (sa_path a)) (delete_directories b)"
    and "sorted_wrt (\<lambda>a b. path_depth (sa_path a) \<le> path_depth (sa_path b)) (create_directories b)"
    and "delete opt \<or> (\<forall>p e. bt_get loc p = Some e \<longrightarrow> \<not> conflicting (bt_get rem) p e)"
proof -
  obtain b0 where b0: "plan_local rem opt loc empty_buckets = Inr b0"
    and as: "assemble (sort_buckets (if delete opt then plan_extras loc rem b0 else b0)) = Inr plan"
    using plan by (auto simp: build_push_plan_def result_simps)
  let ?b = "sort_buckets (if delete opt then plan_extras loc rem b0 else b0)"
  show ?thesis
  proof (rule that [of ?b])
    show "parts_of (bt_get loc) (bt_get rem) opt ?b"
      by (intro parts_of_sorted plan_local_parts assms b0)
    show "actions plan = delete_files ?b @ delete_directories ?b @ create_directories ?b @ uploads ?b"
      using as by (auto simp: assemble_def result_simps)
    show "sorted_wrt (\<lambda>a b. path_depth (sa_path b) \<le> path_depth (sa_path a)) (delete_directories ?b)"
      and "sorted_wrt (\<lambda>a b. path_depth (sa_path a) \<le> path_depth (sa_path b)) (create_directories ?b)"
      by (simp_all add: sort_buckets_def sorted_wrt_rev sorted_by_depth)
    show "delete opt \<or> (\<forall>p e. bt_get loc p = Some e \<longrightarrow> \<not> conflicting (bt_get rem) p e)"
      using plan_local_buckets(5) [OF b0] bt_get_SomeD by fast
  qed
qed

subsection \<open>Carrying out a plan\<close>

definition after_sync :: "tree \<Rightarrow> tree \<Rightarrow> SyncOptions \<Rightarrow> tree" where
  "after_sync L R opt =
     override_on (with_directories (created L R) (R |` {p. \<not> removed L R (delete opt) p})) L
       (uploaded L R (size_only opt))"

lemma removed_closed:
  assumes "closed_tree L" "closed_tree R" "removed L R del p" "parent_of q = Some p" "R q \<noteq> None"
    and "is_directory R p"
  shows "removed L R del q"
proof -
  have "\<not> is_directory L p"
    using assms(3,6) by (auto simp: removed_def conflicting_def is_directory_def)
  then have "L q = None"
    using closed_treeD(2) [OF assms(1) _ assms(4)] by fastforce
  then show ?thesis using assms(3,5) by (simp add: removed_def)
qed

lemma kept_directory:
  assumes "L p = Some e" "se_kind e = EkDirectory"
    and "del \<or> \<not> conflicting R p e"
  shows "p \<in> created L R \<or> is_directory (R |` {p. \<not> removed L R del p}) p"
  using assms by (auto simp: created_def needs_create_def is_directory_def removed_def conflicting_def)

lemma created_absent:
  assumes "p \<in> created L R" "del \<or> (\<forall>p e. L p = Some e \<longrightarrow> \<not> conflicting R p e)"
  shows "(R |` {p. \<not> removed L R del p}) p = None"
  using assms by (auto simp: created_def needs_create_def is_directory_def removed_def conflicting_def restrict_map_def)

lemma upload_not_directory:
  assumes "L p = Some e" "se_kind e = EkFile" "del \<or> (\<forall>p e. L p = Some e \<longrightarrow> \<not> conflicting R p e)"
  shows "\<not> is_directory (with_directories (created L R) (R |` {p. \<not> removed L R del p})) p"
proof -
  have "p \<notin> created L R" using assms(1,2) by (simp add: created_def needs_create_def)
  moreover have "\<not> is_directory (R |` {p. \<not> removed L R del p}) p"
  proof
    assume "is_directory (R |` {p. \<not> removed L R del p}) p"
    then have "R p \<noteq> None" "\<not> removed L R del p" and c: "conflicting R p e"
      using assms(2) by (auto simp: is_directory_def conflicting_def restrict_map_def split: if_splits)
    then show False using assms(1,3) c by (auto simp: removed_def)
  qed
  ultimately show ?thesis by (simp add: is_directory_with)
qed

lemma phase_files:
  assumes "distinct (map sa_path xs)" "\<forall>a \<in> set xs. sa_kind a = DeleteRemoteFile"
    and df: "sa_path ` set xs = {p. removed L R del p \<and> \<not> is_directory R p}"
  shows "exec_actions L xs R = Some (R |` (- {p. removed L R del p \<and> \<not> is_directory R p}))"
proof -
  have "\<forall>a \<in> set xs. R (sa_path a) \<noteq> None \<and> \<not> is_directory R (sa_path a)"
  proof
    fix a assume "a \<in> set xs"
    then have "sa_path a \<in> {p. removed L R del p \<and> \<not> is_directory R p}" using df by blast
    then show "R (sa_path a) \<noteq> None \<and> \<not> is_directory R (sa_path a)" by (simp add: removed_def)
  qed
  then have "exec_actions L xs R = Some (R |` (- sa_path ` set xs))" by (rule exec_delete_files [OF assms(1,2)])
  then show ?thesis unfolding df .
qed

lemma phase_directories:
  fixes L R :: tree and del :: bool
  defines "t1 \<equiv> R |` (- {p. removed L R del p \<and> \<not> is_directory R p})"
  assumes closed: "closed_tree L" "closed_tree R"
    and xs: "distinct (map sa_path xs)" "\<forall>a \<in> set xs. sa_kind a = DeleteRemoteDirectory"
      "sorted_wrt (\<lambda>a b. path_depth (sa_path b) \<le> path_depth (sa_path a)) xs"
    and dd: "sa_path ` set xs = {p. removed L R del p \<and> is_directory R p}"
  shows "exec_actions L xs t1 = Some (R |` {p. \<not> removed L R del p})"
proof -
  have "exec_actions L xs t1 = Some (t1 |` (- sa_path ` set xs))"
  proof (rule exec_delete_directories [OF xs])
    show "\<forall>a \<in> set xs. is_directory t1 (sa_path a)"
    proof
      fix a assume "a \<in> set xs"
      then have "sa_path a \<in> {p. removed L R del p \<and> is_directory R p}" using dd by blast
      then show "is_directory t1 (sa_path a)" by (simp add: t1_def is_directory_def restrict_map_def)
    qed
    show "q \<in> sa_path ` set xs" if a: "a \<in> set xs" and q: "parent_of q = Some (sa_path a)" "t1 q \<noteq> None" for a q
    proof -
      have "removed L R del (sa_path a)" "is_directory R (sa_path a)" using a dd by auto
      moreover have R: "R q \<noteq> None" "\<not> (removed L R del q \<and> \<not> is_directory R q)"
        using q(2) by (auto simp: t1_def restrict_map_def split: if_splits)
      ultimately have "removed L R del q" using removed_closed [OF closed _ q(1)] by blast
      then show ?thesis unfolding dd using R(2) by simp
    qed
    show "\<forall>q \<in> dom t1. plain_path q"
      using closed_treeD(1) [OF closed(2)] by (auto simp: t1_def restrict_map_def split: if_splits)
  qed
  moreover have "t1 |` (- sa_path ` set xs) = R |` {p. \<not> removed L R del p}"
    by (auto simp: dd t1_def restrict_map_def fun_eq_iff)
  ultimately show ?thesis by simp
qed

lemma phase_creates:
  fixes L R :: tree and del :: bool
  defines "t2 \<equiv> R |` {p. \<not> removed L R del p}"
  assumes closed: "closed_tree L" and clean: "del \<or> (\<forall>p e. L p = Some e \<longrightarrow> \<not> conflicting R p e)"
    and xs: "distinct (map sa_path xs)" "\<forall>a \<in> set xs. sa_kind a = CreateRemoteDirectory"
      "sorted_wrt (\<lambda>a b. path_depth (sa_path a) \<le> path_depth (sa_path b)) xs"
    and c: "sa_path ` set xs = created L R"
  shows "exec_actions L xs t2 = Some (with_directories (created L R) t2)"
proof -
  have L: "\<exists>e. L (sa_path a) = Some e" "sa_path a \<in> created L R" if "a \<in> set xs" for a
  proof -
    show "sa_path a \<in> created L R" using that c by blast
    then show "\<exists>e. L (sa_path a) = Some e" by (auto simp: created_def)
  qed
  have "exec_actions L xs t2 = Some (with_directories (sa_path ` set xs) t2)"
  proof (rule exec_create_directories [OF xs])
    show "\<forall>a \<in> set xs. t2 (sa_path a) = None \<and> plain_path (sa_path a)"
      using L created_absent [OF _ clean] closed_treeD(1) [OF closed] unfolding t2_def by blast
    show "is_directory t2 d \<or> d \<in> sa_path ` set xs" if a: "a \<in> set xs" and d: "parent_of (sa_path a) = Some d" for a d
    proof -
      obtain e where "L d = Some e" "se_kind e = EkDirectory"
        using L(1) [OF a] closed_treeD(2) [OF closed _ d] by (auto simp: is_directory_def)
      then show ?thesis unfolding c t2_def using kept_directory [of L d e del R] clean by blast
    qed
  qed
  then show ?thesis unfolding c .
qed

lemma phase_uploads:
  fixes L R :: tree and del :: bool
  defines "t3 \<equiv> with_directories (created L R) (R |` {p. \<not> removed L R del p})"
  assumes closed: "closed_tree L" and clean: "del \<or> (\<forall>p e. L p = Some e \<longrightarrow> \<not> conflicting R p e)"
    and kinds: "\<forall>a \<in> set xs. sa_kind a = UploadFile"
    and u: "sa_path ` set xs = uploaded L R sz"
  shows "exec_actions L xs t3 = Some (override_on t3 L (uploaded L R sz))"
proof -
  have ready: "has_parent t3 p \<and> \<not> is_directory t3 p \<and> \<not> is_directory L p" if up: "p \<in> uploaded L R sz" for p
  proof -
    obtain e where e: "L p = Some e" "se_kind e = EkFile" using up by (auto simp: uploaded_def needs_upload_def)
    have "is_directory t3 d" if d: "parent_of p = Some d" for d
    proof -
      obtain e' where "L d = Some e'" "se_kind e' = EkDirectory"
        using closed_treeD(2) [OF closed e(1) d] by (auto simp: is_directory_def)
      then show ?thesis unfolding t3_def is_directory_with using kept_directory [of L d e' del R] clean by blast
    qed
    then show ?thesis
      using upload_not_directory [OF e clean] e by (simp add: has_parent_def t3_def is_directory_def [of L])
  qed
  have "exec_actions L xs t3 = Some (override_on t3 L (sa_path ` set xs))"
    using u ready kinds by (intro exec_uploads) auto
  then show ?thesis unfolding u .
qed

lemma plan_executes:
  assumes ok: "bt_ok loc" "bt_ok rem" and closed: "closed_tree (bt_get loc)" "closed_tree (bt_get rem)"
    and plan: "build_push_plan loc rem opt = Inr plan"
  shows "exec_plan (bt_get loc) plan (bt_get rem) = Some (after_sync (bt_get loc) (bt_get rem) opt)"
proof -
  let ?L = "bt_get loc" and ?R = "bt_get rem"
  obtain b where b: "parts_of ?L ?R opt b"
    and actions: "actions plan = delete_files b @ delete_directories b @ create_directories b @ uploads b"
    and desc: "sorted_wrt (\<lambda>a b. path_depth (sa_path b) \<le> path_depth (sa_path a)) (delete_directories b)"
    and asc: "sorted_wrt (\<lambda>a b. path_depth (sa_path a) \<le> path_depth (sa_path b)) (create_directories b)"
    and clean: "delete opt \<or> (\<forall>p e. ?L p = Some e \<longrightarrow> \<not> conflicting ?R p e)"
    by (rule build_plan_parts [OF ok plan])
  have facts: "distinct (map sa_path (delete_files b))" "\<forall>a \<in> set (delete_files b). sa_kind a = DeleteRemoteFile"
    "distinct (map sa_path (delete_directories b))" "\<forall>a \<in> set (delete_directories b). sa_kind a = DeleteRemoteDirectory"
    "distinct (map sa_path (create_directories b))" "\<forall>a \<in> set (create_directories b). sa_kind a = CreateRemoteDirectory"
    "\<forall>a \<in> set (uploads b). sa_kind a = UploadFile"
    and df: "sa_path ` set (delete_files b) = {p. removed ?L ?R (delete opt) p \<and> \<not> is_directory ?R p}"
    and dd: "sa_path ` set (delete_directories b) = {p. removed ?L ?R (delete opt) p \<and> is_directory ?R p}"
    and c: "sa_path ` set (create_directories b) = created ?L ?R"
    and u: "sa_path ` set (uploads b) = uploaded ?L ?R (size_only opt)"
    using b unfolding parts_of_def by - (elim conjE, assumption)+
  have "filter (\<lambda>a. sa_kind a \<noteq> UploadFile) (actions plan) = delete_files b @ delete_directories b @ create_directories b"
    "filter (\<lambda>a. sa_kind a = UploadFile) (actions plan) = uploads b"
    using facts by (auto simp: actions filter_id_conv filter_empty_conv)
  then show ?thesis
    by (simp add: exec_plan_def exec_append after_sync_def phase_files [OF facts(1,2) df]
        phase_directories [OF closed facts(3,4) desc dd] phase_creates [OF closed(1) clean facts(5,6) asc c]
        phase_uploads [OF closed(1) clean facts(7) u])
qed

lemma after_sync_local:
  assumes "L p = Some e" "se_kind e \<noteq> EkOther" "delete opt \<or> \<not> conflicting R p e"
  shows "\<exists>e'. after_sync L R opt p = Some e' \<and> se_kind e' = se_kind e \<and>
    (se_kind e = EkFile \<longrightarrow> e' = e \<or> files_match e e' (size_only opt))"
proof (cases "R p")
  case None
  then show ?thesis
    using assms by (cases "se_kind e")
      (auto simp: after_sync_def override_on_def with_directories_def uploaded_def created_def needs_upload_def
        needs_create_def is_directory_def new_directory_def)
next
  case (Some r)
  then show ?thesis
    using assms by (cases "se_kind e"; cases "se_kind r"; cases "files_match e r (size_only opt)")
      (auto simp: after_sync_def override_on_def with_directories_def uploaded_def created_def needs_upload_def
        needs_create_def is_directory_def new_directory_def removed_def conflicting_def restrict_map_def)
qed

lemma after_sync_other:
  assumes "L p = None"
  shows "after_sync L R opt p = (if delete opt then None else R p)"
  using assms by (cases "R p")
    (auto simp: after_sync_def override_on_def with_directories_def uploaded_def created_def removed_def restrict_map_def)

lemma contract:
  assumes "bt_ok loc" "bt_ok rem" and "closed_tree (bt_get loc)" "closed_tree (bt_get rem)"
    and "\<forall>(p, e) \<in> set loc. se_kind e \<noteq> EkOther"
    and "build_push_plan loc rem opt = Inr plan"
  shows "\<exists>t. exec_plan (bt_get loc) plan (bt_get rem) = Some t \<and>
    (\<forall>p e. bt_get loc p = Some e \<longrightarrow>
       (\<exists>e'. t p = Some e' \<and> se_kind e' = se_kind e \<and>
          (se_kind e = EkFile \<longrightarrow> e' = e \<or> files_match e e' (size_only opt)))) \<and>
    (\<forall>p. bt_get loc p = None \<longrightarrow> t p = (if delete opt then None else bt_get rem p))"
proof -
  have clean: "delete opt \<or> (\<forall>p e. bt_get loc p = Some e \<longrightarrow> \<not> conflicting (bt_get rem) p e)"
    by (rule build_plan_parts [OF assms(1,2,6)])
  have other: "se_kind e \<noteq> EkOther" if "bt_get loc p = Some e" for p e
    using assms(5) bt_get_SomeD [OF that] by auto
  show ?thesis
    using after_sync_local [OF _ other, of "bt_get loc" _ _ _ opt "bt_get rem"] clean
    by (intro exI [of _ "after_sync (bt_get loc) (bt_get rem) opt"] conjI allI impI)
      (auto simp: plan_executes [OF assms(1,2,3,4,6)] after_sync_other)
qed

lemma has_parent_code:
  "has_parent t p \<longleftrightarrow>
     (case parent_of p of None \<Rightarrow> True
      | Some d \<Rightarrow> (case t d of None \<Rightarrow> False | Some e \<Rightarrow> se_kind e = EkDirectory))"
  by (auto simp: has_parent_def is_directory_def split: option.splits)

lemma closed_tree_list:
  "closed_tree (bt_get m) \<longleftrightarrow>
     list_all (\<lambda>(p, e). validate_remote_relative_path p = Inr () \<and>
       (case parent_of p of None \<Rightarrow> True
        | Some d \<Rightarrow> (case bt_get m d of None \<Rightarrow> False | Some e' \<Rightarrow> se_kind e' = EkDirectory))) m"
proof -
  have "dom (bt_get m) = fst ` set m" by (simp add: bt_get_def dom_map_of_conv_image_fst)
  then show ?thesis unfolding closed_tree_def has_parent_code list_all_iff by (simp add: case_prod_beta)
qed

text \<open>
  A local directory \<open>d\<close> with a file \<open>d/f\<close> against a remote link \<open>d\<close>, a changed file and a surplus
  directory.
\<close>

definition example_dir :: SnapshotEntry where "example_dir = \<lparr>se_kind = EkDirectory, se_len = 0, se_mtime = Some 7\<rparr>"

definition example_file :: "u64 \<Rightarrow> SnapshotEntry" where "example_file n = \<lparr>se_kind = EkFile, se_len = n, se_mtime = Some 9\<rparr>"

definition example_local :: tree_snapshot where
  "example_local = [(lit ''a'', example_file 3), (lit ''d'', example_dir), (lit ''d/f'', example_file 5)]"

definition example_remote :: tree_snapshot where
  "example_remote =
     [(lit ''a'', example_file 4), (lit ''d'', \<lparr>se_kind = EkOther, se_len = 1, se_mtime = None\<rparr>),
      (lit ''x'', example_dir), (lit ''x/y'', example_dir)]"

definition example_options :: SyncOptions where
  "example_options = \<lparr>delete = True, size_only = False, transfer = transfer_options_default\<rparr>"

lemma example_ok: "bt_ok example_local" "bt_ok example_remote"
  by (code_simp)+

lemma example_closed: "closed_tree (bt_get example_local)" "closed_tree (bt_get example_remote)"
  unfolding closed_tree_list by code_simp+

lemma example_no_other: "\<forall>(p, e) \<in> set example_local. se_kind e \<noteq> EkOther"
  by code_simp

definition example_plan :: SyncPlan where
  "example_plan = (case build_push_plan example_local example_remote example_options of Inr q \<Rightarrow> q)"

lemma example_plan_ok: "build_push_plan example_local example_remote example_options = Inr example_plan"
  by code_simp

subsection \<open>Convergence\<close>

lemma plan_local_settled:
  assumes "\<forall>(p, e) \<in> set es. \<exists>r. bt_get rem p = Some r \<and> se_kind r = se_kind e \<and>
    (se_kind e = EkFile \<longrightarrow> files_match e r (size_only opt))"
  shows "plan_local rem opt es b = Inr b"
  using assms by (induction rem opt es b rule: plan_local.induct) auto

lemma plan_extras_none: "\<forall>(p, r) \<in> set es. bt_get loc p \<noteq> None \<Longrightarrow> plan_extras loc es b = b"
  by (induction loc es b rule: plan_extras.induct) auto

lemma assemble_empty: "\<exists>plan. assemble (sort_buckets empty_buckets) = Inr plan \<and> plan_is_empty plan"
  by (simp add: assemble_def sort_buckets_def empty_buckets_def count_u64_def plan_is_empty_def)

lemma files_match_refl: "sz \<or> se_mtime e \<noteq> None \<Longrightarrow> files_match e e sz"
  by (auto simp: files_match_def abs_diff_def)

text \<open>
  C27. Synchronisation converges, for snapshots as the two scans produce them (every directory above an
  entry is an entry, local entries are files or directories): planning again against the tree that a plan
  leaves behind returns the empty plan, provided local files have a modification time the code can represent (or only sizes are
  compared).
\<close>

theorem sync_converges:
  assumes "bt_ok loc" "bt_ok rem" and "closed_tree (bt_get loc)" "closed_tree (bt_get rem)"
    and "\<forall>(p, e) \<in> set loc. se_kind e \<noteq> EkOther \<and> (size_only opt \<or> se_mtime e \<noteq> None)"
    and "build_push_plan loc rem opt = Inr plan"
    and "bt_ok rem'" "exec_plan (bt_get loc) plan (bt_get rem) = Some (bt_get rem')"
  shows "\<exists>plan'. build_push_plan loc rem' opt = Inr plan' \<and> plan_is_empty plan'"
proof -
  have after: "bt_get rem' = after_sync (bt_get loc) (bt_get rem) opt"
    using plan_executes [OF assms(1-4,6)] assms(8) by simp
  have clean: "delete opt \<or> (\<forall>p e. bt_get loc p = Some e \<longrightarrow> \<not> conflicting (bt_get rem) p e)"
    by (rule build_plan_parts [OF assms(1,2,6)])
  have "\<exists>r. bt_get rem' p = Some r \<and> se_kind r = se_kind e \<and> (se_kind e = EkFile \<longrightarrow> files_match e r (size_only opt))"
    if e: "(p, e) \<in> set loc" for p e
  proof -
    have *: "se_kind e \<noteq> EkOther" "size_only opt \<or> se_mtime e \<noteq> None" using assms(5) e by auto
    have "bt_get loc p = Some e" using e assms(1) by (simp add: bt_get_iff)
    then show ?thesis
      using after_sync_local [of "bt_get loc" p e opt "bt_get rem"] *(1) clean files_match_refl [OF *(2)] after by metis
  qed
  then have "plan_local rem' opt loc b = Inr b" for b
    by (intro plan_local_settled) auto
  moreover have "plan_extras loc rem' b = b" if "delete opt" for b
  proof (rule plan_extras_none)
    have "bt_get loc p \<noteq> None" if r: "(p, r) \<in> set rem'" for p r
    proof
      assume none: "bt_get loc p = None"
      have "bt_get rem' p = None" using after_sync_other [of "bt_get loc" p, OF none] after \<open>delete opt\<close> by simp
      then show False using r assms(7) by (simp add: bt_get_iff [symmetric])
    qed
    then show "\<forall>(p, r) \<in> set rem'. bt_get loc p \<noteq> None" by auto
  qed
  ultimately show ?thesis using assemble_empty by (auto simp: build_push_plan_def)
qed

definition one_file :: "u64 \<Rightarrow> tree_snapshot" where "one_file n = [(lit ''a'', example_file n)]"

lemma one_file_ok: "bt_ok (one_file n)"
  by (simp add: one_file_def bt_ok_def)

lemma one_file_closed: "closed_tree (bt_get (one_file n))"
proof -
  have "validate_remote_relative_path (lit ''a'') = Inr ()" "parent_of (lit ''a'') = None" by code_simp+
  then show ?thesis by (simp add: closed_tree_list one_file_def)
qed

lemma one_file_plan:
  obtains plan where "build_push_plan (one_file 3) (one_file 4) example_options = Inr plan"
    and "exec_plan (bt_get (one_file 3)) plan (bt_get (one_file 4)) = Some (bt_get (one_file 3))"
proof -
  have "map_ok actions (build_push_plan (one_file 3) (one_file 4) example_options) = Inr [sync_action UploadFile (lit ''a'') 3]"
    by code_simp
  then obtain plan where plan: "build_push_plan (one_file 3) (one_file 4) example_options = Inr plan"
    and actions: "actions plan = [sync_action UploadFile (lit ''a'') 3]"
    by (cases "build_push_plan (one_file 3) (one_file 4) example_options") auto
  have "parent_of (lit ''a'') = None" by code_simp
  then have "exec_plan (bt_get (one_file 3)) plan (bt_get (one_file 4)) = Some (bt_get (one_file 3))"
    by (auto simp: exec_plan_def actions sync_action_def exec_action_def has_parent_def is_directory_def Let_def
        one_file_def bt_get_def example_file_def fun_eq_iff)
  with plan show ?thesis by (rule that)
qed

theorem sync_converges_witness:
  "\<exists>plan'. build_push_plan (one_file 3) (one_file 3) example_options = Inr plan' \<and> plan_is_empty plan'"
proof -
  have entries: "\<forall>(p, e) \<in> set (one_file 3). se_kind e \<noteq> EkOther \<and> (size_only example_options \<or> se_mtime e \<noteq> None)"
    by (simp add: one_file_def example_file_def)
  obtain plan where "build_push_plan (one_file 3) (one_file 4) example_options = Inr plan"
    and "exec_plan (bt_get (one_file 3)) plan (bt_get (one_file 4)) = Some (bt_get (one_file 3))"
    by (rule one_file_plan)
  from sync_converges [OF one_file_ok one_file_ok one_file_closed one_file_closed entries this(1) one_file_ok this(2)]
  show ?thesis .
qed

subsection \<open>What a scan returns\<close>

definition child_of :: "rstring \<Rightarrow> rstring \<Rightarrow> bool" where
  "child_of rel q \<longleftrightarrow> parent_of q = (if rel = [] then None else Some rel)"

text \<open>
  The invariant of a scan: the snapshot is a closed tree, every directory still on the stack is in the
  snapshot and is on the stack once, and none of its children has been recorded.
\<close>

definition scan_ok :: "tree_snapshot \<Rightarrow> (rstring \<times> rstring) list \<Rightarrow> bool" where
  "scan_ok snap stack \<longleftrightarrow>
     bt_ok snap \<and> closed_tree (bt_get snap) \<and> distinct (map snd stack) \<and>
     (\<forall>rel \<in> snd ` set stack. (rel = [] \<or> is_directory (bt_get snap) rel) \<and>
        (\<forall>q \<in> dom (bt_get snap). \<not> child_of rel q))"

lemma child_of_join: "47 \<notin> set name \<Longrightarrow> child_of rel (join_relative rel name)"
  by (auto simp: child_of_def join_relative_def parent_of_def rsplit_once_Some rsplit_once_None)

lemma child_of_unique: "child_of rel q \<Longrightarrow> child_of rel' q \<Longrightarrow> rel = rel'"
  by (auto simp: child_of_def split: if_splits)

lemma join_relative_inj: "join_relative rel n = join_relative rel n' \<longleftrightarrow> n = n'"
  by (simp add: join_relative_def)

lemma join_relative_valid:
  assumes "rel = [] \<or> validate_remote_relative_path rel = Inr ()" and "validate_remote_child_name name = Inr ()"
  shows "validate_remote_relative_path (join_relative rel name) = Inr ()"
proof -
  have name: "47 \<notin> set name" "92 \<notin> set name" "name \<noteq> []" "\<forall>c \<in> set name. \<not> is_control c"
    using assms(2) by (auto simp: validate_remote_child_name_def list_ex_iff split: if_splits)
  have nul: "0 \<notin> set name" using name(4) by (auto simp: is_control_def)
  have one: "split_on (\<lambda>c. c = 47) name = [name]" using name(1) by (intro split_on_single) auto
  show ?thesis
  proof (cases "rel = []")
    case True
    then show ?thesis
      using name nul one assms(2)
      by (cases name) (auto simp: join_relative_def validate_remote_relative_path_def)
  next
    case False
    then have "starts_with [c] (rel @ 47 # name) = starts_with [c] rel" for c by (cases rel) auto
    moreover have "split_on (\<lambda>c. c = 47) (rel @ 47 # name) = split_on (\<lambda>c. c = 47) rel @ [name]"
      using split_on_append [of "\<lambda>c. c = 47" 47 rel name] one by simp
    ultimately show ?thesis
      using False assms nul
      by (auto simp: join_relative_def validate_remote_relative_path_def try_each_ok split: if_splits)
  qed
qed

lemma closed_tree_insert:
  assumes "closed_tree t" "t q = None" "validate_remote_relative_path q = Inr ()"
    and "has_parent t q"
  shows "closed_tree (t(q \<mapsto> e))"
proof -
  have dir: "is_directory (t(q \<mapsto> e)) d" if "is_directory t d" for d
    using that assms(2) by (auto simp: is_directory_def)
  show ?thesis using assms dir by (auto simp: closed_tree_def has_parent_def)
qed

lemma scan_ok_insert:
  assumes ok: "scan_ok snap stack" and rel: "rel = [] \<or> is_directory (bt_get snap) rel" "rel \<notin> snd ` set stack"
    and name: "validate_remote_child_name name = Inr ()" and fresh: "bt_get snap (join_relative rel name) = None"
  shows "scan_ok (bt_insert (join_relative rel name) e snap)
    (if se_kind e = EkDirectory then (child, join_relative rel name) # stack else stack)"
proof -
  let ?q = "join_relative rel name" and ?t = "bt_get snap"
  have bt: "bt_ok snap" and closed: "closed_tree ?t" and dist: "distinct (map snd stack)"
    and st: "\<And>r. r \<in> snd ` set stack \<Longrightarrow> (r = [] \<or> is_directory ?t r) \<and> (\<forall>q \<in> dom ?t. \<not> child_of r q)"
    using ok by (auto simp: scan_ok_def)
  have get: "bt_get (bt_insert ?q e snap) = ?t(?q \<mapsto> e)" using bt by (rule bt.get_put)
  have plain: "47 \<notin> set name" "name \<noteq> []" using validate_child_plain [OF name] by (auto simp: plain_name_def)
  have child: "child_of rel ?q" by (rule child_of_join [OF plain(1)])
  have ne: "?q \<noteq> []" using plain(2) by (simp add: join_relative_def)
  have "validate_remote_relative_path rel = Inr ()" if "rel \<noteq> []"
    using rel(1) that closed by (auto simp: closed_tree_def is_directory_def dom_def)
  then have valid: "validate_remote_relative_path ?q = Inr ()" using name by (intro join_relative_valid) auto
  have par: "has_parent ?t ?q" using child rel(1) by (auto simp: has_parent_def child_of_def split: if_splits)
  have nochild: "\<not> child_of ?q q" if "q \<in> dom ?t" for q
    using closed that ne fresh by (auto simp: closed_tree_def has_parent_def child_of_def is_directory_def dom_def)
  have self: "\<not> child_of ?q ?q" using ne by (auto simp: child_of_def dest: parent_neq)
  have other: "\<not> child_of r ?q" "r \<noteq> ?q" if "r \<in> snd ` set stack" for r
    using child_of_unique [OF _ child, of r] that rel(2) st [OF that] fresh ne by (auto simp: is_directory_def)
  have dir: "is_directory (?t(?q \<mapsto> e)) r" if "is_directory ?t r" for r
    using that fresh by (auto simp: is_directory_def)
  have new: "is_directory (?t(?q \<mapsto> e)) ?q" if "se_kind e = EkDirectory"
    using that by (simp add: is_directory_def)
  have old: "(r = [] \<or> is_directory (?t(?q \<mapsto> e)) r) \<and> (\<forall>q \<in> dom (?t(?q \<mapsto> e)). \<not> child_of r q)"
    if "r \<in> snd ` set stack" for r
    using st [OF that] dir other [OF that] by (simp add: dom_def) blast
  have top: "is_directory (?t(?q \<mapsto> e)) ?q \<and> (\<forall>q \<in> dom (?t(?q \<mapsto> e)). \<not> child_of ?q q)" if "se_kind e = EkDirectory"
    using new [OF that] nochild self by simp
  have "?q \<notin> snd ` set stack" using other(2) by blast
  then show ?thesis
    unfolding scan_ok_def get
    using bt.ok_put [OF bt] closed_tree_insert [OF closed fresh valid par] dist old top by simp
qed

lemma add_children_scan:
  assumes "add_children child rel es snap stack = Inr (snap', stack')"
    and "scan_ok snap stack" and "rel = [] \<or> is_directory (bt_get snap) rel" "rel \<notin> snd ` set stack"
    and "distinct (map fst es)" 
    and "\<And>name e. (Some name, Some e) \<in> set es \<Longrightarrow> 47 \<notin> set name \<Longrightarrow> bt_get snap (join_relative rel name) = None"
  shows "scan_ok snap' stack'"
  using assms
proof (induction child rel es snap stack rule: add_children.induct)
  case (2 child rel nm entry rest snap stack)
  obtain name cp where nm: "nm = Some name" and valid: "validate_remote_child_name name = Inr ()" and cp: "child name = Inr cp"
    using 2(3) by (auto simp: and_then_eq_Inr map_err_eq_Inr)
  show ?case
  proof (cases entry)
    case None
    then show ?thesis using 2 by (auto simp: nm valid cp)
  next
    case (Some e)
    let ?q = "join_relative rel name"
    let ?stack = "if se_kind e = EkDirectory then (cp, ?q) # stack else stack"
    have slash: "47 \<notin> set name" using validate_child_plain [OF valid] by (simp add: plain_name_def)
    have fresh: "bt_get snap ?q = None" using 2(8) [of name e] nm Some slash by simp
    have bt: "bt_ok snap" using 2(4) by (simp add: scan_ok_def)
    have get: "bt_get (bt_insert ?q e snap) = (bt_get snap)(?q \<mapsto> e)" using bt by (rule bt.get_put)
    have "?q \<noteq> rel" using validate_child_plain [OF valid] by (auto simp: join_relative_def plain_name_def)
    moreover have "add_children child rel rest (bt_insert ?q e snap) ?stack = Inr (snap', stack')"
      using 2(3) nm valid cp Some by (simp add: Let_def)
    moreover have "bt_get (bt_insert ?q e snap) (join_relative rel n) = None" if "(Some n, Some e') \<in> set rest" "47 \<notin> set n" for n e'
      using that 2(7,8) nm get by (force simp: join_relative_inj)
    moreover have "rel = [] \<or> is_directory (bt_get (bt_insert ?q e snap)) rel"
      using 2(5) fresh by (auto simp: get is_directory_def)
    ultimately show ?thesis
    proof -
      assume steps: "?q \<noteq> rel" "add_children child rel rest (bt_insert ?q e snap) ?stack = Inr (snap', stack')"
        "\<And>n e'. (Some n, Some e') \<in> set rest \<Longrightarrow> 47 \<notin> set n \<Longrightarrow> bt_get (bt_insert ?q e snap) (join_relative rel n) = None"
        "rel = [] \<or> is_directory (bt_get (bt_insert ?q e snap)) rel"
      show ?thesis
      proof (rule 2(2) [of name "()" cp ?q e, OF _ _ _ refl Some steps(2)])
        show "scan_ok (bt_insert ?q e snap) ?stack" by (rule scan_ok_insert [OF 2(4,5,6) valid fresh])
        show "rel \<notin> snd ` set ?stack" using 2(6) steps(1) by auto
        show "bt_get (bt_insert ?q e snap) (join_relative rel n) = None" if "(Some n, Some e') \<in> set rest" "47 \<notin> set n" for n e'
          by (rule steps(3) [OF that])
      qed (use nm valid cp steps(4) 2(7) in auto)
    qed
  qed
qed simp

lemma scan_step_ok:
  assumes "scan_ok snap ((directory, rel) # ds)" and "add_children child rel es snap ds = Inr (snap', ds')"
    and "distinct (map fst es)"
  shows "scan_ok snap' ds'"
proof (rule add_children_scan [OF assms(2)])
  show "bt_get snap (join_relative rel name) = None" if "47 \<notin> set name" for name
    using assms(1) child_of_join [OF that, of rel] by (auto simp: scan_ok_def dom_def)
qed (use assms in \<open>auto simp: scan_ok_def\<close>)

lemma add_children_entries:
  assumes "add_children child rel es snap stack = Inr (snap', stack')"
    and "\<forall>(p, e) \<in> set snap. P e" and "\<forall>(n, e) \<in> set es. pred_option P e"
  shows "\<forall>(p, e) \<in> set snap'. P e"
  using assms
proof (induction child rel es snap stack rule: add_children.induct)
  case (2 child rel nm entry rest snap stack)
  have keep: "\<forall>(p, e) \<in> set (bt_insert q x snap). P e" if "P x" for q x
    using 2(4) that set_bt_insert_subset [of q x snap] by auto
  obtain name cp where nm: "nm = Some name" "validate_remote_child_name name = Inr ()" "child name = Inr cp"
    using 2(3) by (auto simp: and_then_eq_Inr)
  have rest: "\<forall>(n, e) \<in> set rest. pred_option P e" using 2(5) by simp
  show ?case
  proof (cases entry)
    case None
    have "add_children child rel rest snap stack = Inr (snap', stack')" using 2(3) nm None by (simp add: Let_def)
    from 2(1) [of name "()" cp, OF _ _ _ refl None this 2(4) rest] show ?thesis using nm by simp
  next
    case (Some x)
    then have "P x" using 2(5) by simp
    have "add_children child rel rest (bt_insert (join_relative rel name) x snap)
        (if se_kind x = EkDirectory then (cp, join_relative rel name) # stack else stack) = Inr (snap', stack')"
      using 2(3) nm Some by (simp add: Let_def)
    from 2(2) [of name "()" cp, OF _ _ _ refl Some this keep [OF \<open>P x\<close>] rest] show ?thesis using nm by simp
  qed
qed auto

lemma remote_children_distinct: "distinct (map fst ns) \<Longrightarrow> distinct (map fst (remote_children ns))"
proof -
  have "map fst (remote_children ns) = map Some (map fst (filter (\<lambda>(name, a). name \<noteq> lit ''.'' \<and> name \<noteq> lit ''..'') ns))"
    by (auto simp: remote_children_def)
  moreover assume "distinct (map fst ns)"
  ultimately show ?thesis by (simp add: distinct_map_filter distinct_map [of Some] del: map_map)
qed

lemma scan_start: "scan_ok [] [(root, [])]"
  by (simp add: scan_ok_def bt_get_def closed_tree_def)

lemma scan_empty: "scan_ok [] []"
  by (simp add: scan_ok_def bt_get_def closed_tree_def)

lemma scan_done: "scan_ok snap [] \<Longrightarrow> bt_ok snap \<and> closed_tree (bt_get snap)"
  by (simp add: scan_ok_def)

lemma scan_local_from_ok:
  assumes "\<forall>d es. dirs d = Some es \<longrightarrow> distinct (map fst es)"
    and "scan_local_from fuel dirs snap stack = Inr (Some snap')" and "scan_ok snap stack"
    and "\<forall>(p, e) \<in> set snap. se_kind e \<noteq> EkOther"
  shows "bt_ok snap' \<and> closed_tree (bt_get snap') \<and> (\<forall>(p, e) \<in> set snap'. se_kind e \<noteq> EkOther)"
  using assms
proof (induction fuel dirs snap stack rule: scan_local_from.induct)
  case (1 fuel t snap)
  then show ?case using scan_done by simp
next
  case (2 fuel t snap directory relative ds)
  then obtain es snap1 ds1 where es: "t directory = Some es"
    and add: "add_children (\<lambda>name. Inr (path_push directory name)) relative (local_children es) snap ds = Inr (snap1, ds1)"
    and rest: "scan_local_from (fuel - 1) t snap1 ds1 = Inr (Some snap')" and "fuel \<noteq> 0"
    by (auto simp: and_then_eq_Inr split: if_splits)
  have dist: "distinct (map fst (local_children es))"
    using "2.prems"(1) es by (simp add: local_children_def comp_def case_prod_beta)
  have kinds: "\<forall>(p, e) \<in> set snap1. se_kind e \<noteq> EkOther"
  proof (rule add_children_entries [OF add "2.prems"(4)])
    have "pred_option (\<lambda>e. se_kind e \<noteq> EkOther) (local_entry t)" for t by (cases t) auto
    then show "\<forall>(n, e) \<in> set (local_children es). pred_option (\<lambda>e. se_kind e \<noteq> EkOther) e"
      by (auto simp: local_children_def)
  qed
  show ?case
    using "2.IH" [of es "(snap1, ds1)" snap1 ds1] es add rest \<open>fuel \<noteq> 0\<close> "2.prems"(1) scan_step_ok [OF "2.prems"(3) add dist] kinds
    by simp
qed

lemma scan_remote_from_ok:
  assumes "\<forall>d w ns. fst (srv (ReadDir d) w) = RNames ns \<longrightarrow> distinct (map fst ns)"
    and "scan_remote_from fuel srv snap stack s = (Inr (Some snap'), s')" and "scan_ok snap stack"
  shows "bt_ok snap' \<and> closed_tree (bt_get snap')"
  using assms
proof (induction fuel srv snap stack arbitrary: s rule: scan_remote_from.induct)
  case (1 fuel srv snap)
  then show ?case using scan_done by (simp add: ret_def)
next
  case (2 fuel srv snap directory relative ds)
  have fuel: "fuel \<noteq> 0" using "2.prems"(2) by (cases "fuel = 0") (auto simp: ret_def)
  obtain ns s1 where ns: "read_dir srv directory s = (Inr ns, s1)"
    using "2.prems"(2) fuel by (auto simp: io_bind_def split: prod.splits sum.splits)
  obtain snap1 ds1 where add: "add_children (join_remote_under_root directory) relative (remote_children ns) snap ds = Inr (snap1, ds1)"
    and rest: "scan_remote_from (fuel - 1) srv snap1 ds1 s1 = (Inr (Some snap'), s')"
    using "2.prems"(2) ns fuel by (auto simp: io_bind_def lift_result_def split: prod.splits sum.splits)
  have "fst (srv (ReadDir directory) (world s)) = RNames ns"
    using ns by (auto simp: read_dir_def io_bind_def request_def ret_def raise_def split: prod.splits sftp_resp.splits)
  then have "distinct (map fst (remote_children ns))"
    using "2.prems"(1) by (blast intro: remote_children_distinct)
  from scan_step_ok [OF "2.prems"(3) add this] show ?case
    using "2.IH" [OF fuel "2.prems"(1) rest] by simp
qed

lemma scan_local_ok:
  assumes "\<forall>d es. dirs d = Some es \<longrightarrow> distinct (map fst es)" and "scan_local fuel l dirs root = Inr (Some snap)"
  shows "bt_ok snap" "closed_tree (bt_get snap)" "\<forall>(p, e) \<in> set snap. se_kind e \<noteq> EkOther"
proof -
  have "scan_local_from fuel dirs [] [(root, [])] = Inr (Some snap)"
    using assms(2) by (auto simp: scan_local_def and_then_eq_Inr)
  from scan_local_from_ok [OF assms(1) this scan_start]
  show "bt_ok snap" "closed_tree (bt_get snap)" "\<forall>(p, e) \<in> set snap. se_kind e \<noteq> EkOther" by simp_all
qed

lemma scan_remote_ok:
  assumes "\<forall>d w ns. fst (srv (ReadDir d) w) = RNames ns \<longrightarrow> distinct (map fst ns)"
    and "scan_remote fuel srv root s = (Inr (Some snap), s')"
  shows "bt_ok snap" "closed_tree (bt_get snap)"
proof -
  have "snap = [] \<or> (\<exists>s1. scan_remote_from fuel srv [] [(root, [])] s1 = (Inr (Some snap), s'))"
    using assms(2) by (auto simp del: scan_remote_from.simps simp: scan_remote_def io_bind_def bail_if_def ret_def raise_def split: prod.splits sum.splits if_splits)
  then show "bt_ok snap" "closed_tree (bt_get snap)"
    using scan_remote_from_ok [OF assms(1) _ scan_start] scan_done [OF scan_empty] by blast+
qed

subsection \<open>From the two scans to the plan\<close>

lemma plan_sync_scans:
  assumes "plan_sync_to_remote fuel srv l dirs local_root remote_root opt s = (Inr (Some plan), s')"
  obtains loc rem s2 where "scan_local fuel l dirs local_root = Inr (Some loc)"
    and "scan_remote fuel srv remote_root (snd (ok_request srv OpenSession s)) = (Inr (Some rem), s2)" and "build_push_plan loc rem opt = Inr plan"
proof -
  obtain lo where lo: "scan_local fuel l dirs local_root = Inr lo"
    using assms by (auto simp: plan_sync_to_remote_def io_bind_def lift_result_def split: sum.splits prod.splits)
  obtain loc where loc: "lo = Some loc"
    using assms lo by (cases lo) (auto simp: plan_sync_to_remote_def io_bind_def lift_result_def ret_def split: sum.splits)
  obtain re s2 where re: "scan_remote fuel srv remote_root (snd (ok_request srv OpenSession s)) = (Inr re, s2)"
    and run: "(case re of None \<Rightarrow> ret None | Some rem \<Rightarrow>
        io_bind (lift_result (build_push_plan loc rem opt)) (\<lambda>plan.
        io_bind (ok_request srv CloseSession) (\<lambda>_. ret (Some plan)))) s2 = (Inr (Some plan), s')"
    using assms lo loc by (auto simp: plan_sync_to_remote_def io_bind_def lift_result_def split: sum.splits prod.splits)
  obtain rem where rem: "re = Some rem" using run by (cases re) (auto simp: ret_def)
  have "build_push_plan loc rem opt = Inr plan"
    using run rem by (auto simp: io_bind_def lift_result_def ret_def split: sum.splits prod.splits)
  with lo loc re rem show ?thesis by (blast intro: that)
qed

text \<open>
  C3. The contract of synchronisation for the trees that were really scanned: when directory listings do
  not repeat a name, whatever \<open>plan_sync_to_remote\<close> returns is a plan for the two scanned trees whose
  every action can be carried out in order, after which the remote tree has every scanned local entry
  and, when deletion was requested, nothing else.
\<close>

theorem planned_sync_refines:
  assumes "\<forall>d es. dirs d = Some es \<longrightarrow> distinct (map fst es)"
    and "\<forall>d w ns. fst (srv (ReadDir d) w) = RNames ns \<longrightarrow> distinct (map fst ns)"
    and "plan_sync_to_remote fuel srv l dirs local_root remote_root opt s = (Inr (Some plan), s')"
  shows "\<exists>loc rem s2 t. scan_local fuel l dirs local_root = Inr (Some loc) \<and>
    scan_remote fuel srv remote_root (snd (ok_request srv OpenSession s)) = (Inr (Some rem), s2) \<and>
    exec_plan (bt_get loc) plan (bt_get rem) = Some t \<and>
    (\<forall>p e. bt_get loc p = Some e \<longrightarrow>
       (\<exists>e'. t p = Some e' \<and> se_kind e' = se_kind e \<and>
          (se_kind e = EkFile \<longrightarrow> e' = e \<or> files_match e e' (size_only opt)))) \<and>
    (\<forall>p. bt_get loc p = None \<longrightarrow> t p = (if delete opt then None else bt_get rem p))"
proof -
  obtain loc rem s2 where scans: "scan_local fuel l dirs local_root = Inr (Some loc)"
      "scan_remote fuel srv remote_root (snd (ok_request srv OpenSession s)) = (Inr (Some rem), s2)" and plan: "build_push_plan loc rem opt = Inr plan"
    by (rule plan_sync_scans [OF assms(3)])
  from contract [OF scan_local_ok(1) [OF assms(1) scans(1)] scan_remote_ok(1) [OF assms(2) scans(2)]
      scan_local_ok(2) [OF assms(1) scans(1)] scan_remote_ok(2) [OF assms(2) scans(2)]
      scan_local_ok(3) [OF assms(1) scans(1)] plan]
  show ?thesis using scans by blast
qed

text \<open>A server with one file \<open>old\<close> below \<open>/r\<close>, a local directory \<open>/l\<close> with one file \<open>a\<close>.\<close>

fun tree_server :: "unit server" where
  "tree_server (LStat p) w = (RAttrs (sample_attrs Directory), w)"
| "tree_server (TryExists p) w = (RBool True, w)"
| "tree_server (ReadDir p) w = (RNames (if p = lit ''/r'' then [(lit ''old'', sample_attrs File)] else []), w)"
| "tree_server q w = (ROk, w)"

definition tree_dirs :: local_dirs where
  "tree_dirs d = (if d = lit ''/l'' then Some [(Some (lit ''a''), LtFile 3 (Some 9))] else None)"

definition tree_local :: LocalFs where
  "tree_local = \<lparr>lf_stat = (\<lambda>_. LocalDirectory), lf_reads = (\<lambda>_ _. []), lf_fault = (\<lambda>_. None)\<rparr>"

lemma tree_distinct:
  "\<forall>d es. tree_dirs d = Some es \<longrightarrow> distinct (map fst es)"
  "\<forall>d w ns. fst (tree_server (ReadDir d) w) = RNames ns \<longrightarrow> distinct (map fst ns)"
  by (auto simp: tree_dirs_def)

lemma tree_scanned: "scan_local 1 tree_local tree_dirs (lit ''/l'') = Inr (Some (one_file 3))"
  by code_simp

theorem planned_sync_refines_witness:
  "\<exists>plan rem t. fst (plan_sync_to_remote 1 tree_server tree_local tree_dirs (lit ''/l'') (lit ''/r'') example_options
       \<lparr>world = (), sent = []\<rparr>) = Inr (Some plan) \<and>
     exec_plan (bt_get (one_file 3)) plan (bt_get rem) = Some t \<and> t (lit ''a'') \<noteq> None \<and> t (lit ''old'') = None"
proof -
  let ?run = "plan_sync_to_remote 1 tree_server tree_local tree_dirs (lit ''/l'') (lit ''/r'') example_options
       \<lparr>world = (), sent = []\<rparr>"
  have "(case fst ?run of Inr (Some _) \<Rightarrow> True | _ \<Rightarrow> False)" by code_simp
  then obtain plan s' where run: "?run = (Inr (Some plan), s')"
    by (cases ?run) (auto split: sum.splits option.splits)
  have get: "bt_get (one_file 3) (lit ''a'') = Some (example_file 3)" "bt_get (one_file 3) (lit ''old'') = None"
    "delete example_options"
    by code_simp+
  obtain rem t where "exec_plan (bt_get (one_file 3)) plan (bt_get rem) = Some t"
    and "\<forall>p e. bt_get (one_file 3) p = Some e \<longrightarrow> (\<exists>e'. t p = Some e')"
    and "\<forall>p. bt_get (one_file 3) p = None \<longrightarrow> t p = None"
    using planned_sync_refines [OF tree_distinct run] unfolding tree_scanned sum.inject option.inject if_P [OF get(3)]
    by blast
  then show ?thesis
    using run get by (intro exI [of _ plan] exI [of _ rem] exI [of _ t]) auto
qed

lemma plan_paths:
  assumes "bt_ok loc" "bt_ok rem" "build_push_plan loc rem opt = Inr plan" "a \<in> set (actions plan)"
  shows "sa_path a \<in> dom (bt_get loc) \<union> dom (bt_get rem)"
proof -
  obtain b where b: "parts_of (bt_get loc) (bt_get rem) opt b"
    and actions: "actions plan = delete_files b @ delete_directories b @ create_directories b @ uploads b"
    by (rule build_plan_parts [OF assms(1-3)])
  have "sa_path a \<in> sa_path ` set (delete_files b) \<union> sa_path ` set (delete_directories b) \<union>
      sa_path ` set (create_directories b) \<union> sa_path ` set (uploads b)"
    using assms(4) actions by auto
  then show ?thesis
    using b by (auto simp only: parts_of_def removed_def created_def uploaded_def)
qed

lemma local_path_valid:
  "validate_remote_relative_path p = Inr () \<Longrightarrow> local_path_from_remote_relative p = Inr p"
  using validate_relative_plain [of p] push_plain [of "split_on (\<lambda>c. c = 47) p" "[]"]
  by (simp add: local_path_from_remote_relative_def slash_join_split)

text \<open>
  A plan made from two scanned trees passes the validation that guards its application.
\<close>

theorem generated_plan_valid:
  assumes "bt_ok loc" "bt_ok rem" and "closed_tree (bt_get loc)" "closed_tree (bt_get rem)"
    and "build_push_plan loc rem opt = Inr plan"
  shows "validate_sync_plan plan = Inr ()"
proof -
  have "validate_remote_relative_path (sa_path a) = Inr ()" if "a \<in> set (actions plan)" for a
    using plan_paths [OF assms(1,2,5) that] assms(3,4) by (auto simp: closed_tree_def)
  then show ?thesis by (simp add: validate_sync_plan_def try_each_ok local_path_valid)
qed

theorem generated_plan_valid_witness: "validate_sync_plan example_plan = Inr ()"
  by (rule generated_plan_valid [OF example_ok example_closed example_plan_ok])

end
