(* ===== verification/Sync_Apply.thy ===== *)
theory Sync_Apply
  imports Sync_Plan
begin

section \<open>Applying a synchronisation plan\<close>

text \<open>
  Model of \<open>sync/preflight.rs\<close>, \<open>sync/source_preflight.rs\<close> and of \<open>apply_sync_to_remote\<close> and
  \<open>sync_to_remote\<close> in \<open>sync.rs\<close>. A plan is public data: it is validated, its local sources are checked,
  and with atomic uploads the remote paths are checked too, before the first request that changes
  anything. Uploads run concurrently in the code; the model runs them one after the other, in the order
  in which they are started, with one nonce for each destination.
\<close>

subsection \<open>Preflight of the remote paths\<close>

datatype RemoteNodeKind = NodeDirectory | NodeSymlink | NodeOther

record PlannedMutation =
  pm_delete_file :: "nat option"
  pm_delete_directory :: "nat option"
  pm_create_directory :: "nat option"

definition no_mutation :: PlannedMutation where
  "no_mutation = \<lparr>pm_delete_file = None, pm_delete_directory = None, pm_create_directory = None\<rparr>"

definition deletes_file :: "PlannedMutation \<Rightarrow> bool" where "deletes_file m \<longleftrightarrow> pm_delete_file m \<noteq> None"

definition deletes_directory :: "PlannedMutation \<Rightarrow> bool" where "deletes_directory m \<longleftrightarrow> pm_delete_directory m \<noteq> None"

definition creates_directory :: "PlannedMutation \<Rightarrow> bool" where "creates_directory m \<longleftrightarrow> pm_create_directory m \<noteq> None"

definition has_delete :: "PlannedMutation \<Rightarrow> bool" where "has_delete m \<longleftrightarrow> deletes_file m \<or> deletes_directory m"

type_synonym mutation_map = "(rstring, PlannedMutation) btmap"

definition mutation_for :: "mutation_map \<Rightarrow> rstring \<Rightarrow> PlannedMutation" where
  "mutation_for m p = (case bt_get m p of Some x \<Rightarrow> x | None \<Rightarrow> no_mutation)"

definition record_slot :: "SyncActionKind \<Rightarrow> nat \<Rightarrow> PlannedMutation \<Rightarrow> PlannedMutation option" where
  "record_slot k i m =
     (case k of
        UploadFile \<Rightarrow> Some m
      | DeleteRemoteFile \<Rightarrow> if pm_delete_file m \<noteq> None then None else Some (m\<lparr>pm_delete_file := Some i\<rparr>)
      | DeleteRemoteDirectory \<Rightarrow>
          if pm_delete_directory m \<noteq> None then None else Some (m\<lparr>pm_delete_directory := Some i\<rparr>)
      | CreateRemoteDirectory \<Rightarrow>
          if pm_create_directory m \<noteq> None then None else Some (m\<lparr>pm_create_directory := Some i\<rparr>))"

fun collect_slots :: "nat \<Rightarrow> SyncAction list \<Rightarrow> mutation_map \<Rightarrow> sftp_error + mutation_map" where
  "collect_slots i [] m = Inr m"
| "collect_slots i (a # as) m =
     and_then (ok_or (DuplicateMutation (sa_path a)) (record_slot (sa_kind a) i (mutation_for m (sa_path a)))) (\<lambda>x.
       collect_slots (i + 1) as (bt_insert (sa_path a) x m))"

definition check_mutation :: "rstring \<times> PlannedMutation \<Rightarrow> sftp_error + unit" where
  "check_mutation pm =
     (let (p, m) = pm in
      if deletes_file m \<and> deletes_directory m then Inl (ContradictoryPlan p)
      else case pm_create_directory m of
        None \<Rightarrow> Inr ()
      | Some create_index \<Rightarrow>
          (case (case pm_delete_file m of Some i \<Rightarrow> Some i | None \<Rightarrow> pm_delete_directory m) of
             None \<Rightarrow> Inr ()
           | Some delete_index \<Rightarrow> if create_index \<le> delete_index then Inl (DeleteAfterCreate p) else Inr ()))"

definition collect_planned_mutations :: "SyncPlan \<Rightarrow> sftp_error + mutation_map" where
  "collect_planned_mutations plan =
     and_then (collect_slots 0 (actions plan) []) (\<lambda>m.
     and_then (try_each check_mutation m) (\<lambda>_. Inr m))"

definition remote_node_kind_if_exists :: "'w server \<Rightarrow> rstring \<Rightarrow> ('w, RemoteNodeKind option) io" where
  "remote_node_kind_if_exists srv p =
     io_bind (remote_symlink_metadata_if_exists srv p) (\<lambda>m. ret (map_option (\<lambda>a.
       if at_type a = Symlink then NodeSymlink else if at_type a = Directory then NodeDirectory else NodeOther) m))"

definition validate_parent_beneath_fresh_ancestor :: "rstring \<Rightarrow> PlannedMutation \<Rightarrow> sftp_error + unit" where
  "validate_parent_beneath_fresh_ancestor p m = (if has_delete m then Inl (StalePlan p) else Inr ())"

definition validate_upload_beneath_fresh_ancestor :: "rstring \<Rightarrow> PlannedMutation \<Rightarrow> sftp_error + unit" where
  "validate_upload_beneath_fresh_ancestor p m =
     (if has_delete m then Inl (StalePlan p)
      else if creates_directory m then Inl (ContradictoryPlan p)
      else Inr ())"

definition validate_final_upload_destination ::
  "rstring \<Rightarrow> RemoteNodeKind option \<Rightarrow> PlannedMutation \<Rightarrow> sftp_error + unit" where
  "validate_final_upload_destination p current m =
     (if creates_directory m then Inl (ContradictoryPlan p)
      else case current of
        None \<Rightarrow> if has_delete m then Inl (StalePlan p) else Inr ()
      | Some NodeDirectory \<Rightarrow>
          if deletes_directory m \<and> \<not> deletes_file m then Inr ()
          else if deletes_file m then Inl (TypeChanged p)
          else Inl (AtomicOverwrite p)
      | Some _ \<Rightarrow>
          if deletes_file m \<and> \<not> deletes_directory m then Inr ()
          else if deletes_directory m then Inl (TypeChanged p)
          else Inl (AtomicOverwrite p))"

fun preflight_components ::
  "'w server \<Rightarrow> rstring \<Rightarrow> mutation_map \<Rightarrow> rstring \<Rightarrow> bool \<Rightarrow> rstring list \<Rightarrow> ('w, unit) io" where
  "preflight_components srv root m pre fresh [] = ret ()"
| "preflight_components srv root m pre fresh (c # rest) =
     (let pre' = (if pre = [] then c else pre @ [47] @ c); mu = mutation_for m pre' in
      if fresh then
        if rest = [] then lift_result (validate_upload_beneath_fresh_ancestor pre' mu)
        else
          io_bind (lift_result (validate_parent_beneath_fresh_ancestor pre' mu)) (\<lambda>_.
            preflight_components srv root m pre' True rest)
      else
        io_bind (lift_result (map_err UnsafePath (join_remote_under_root root pre'))) (\<lambda>remote_path.
        io_bind (remote_node_kind_if_exists srv remote_path) (\<lambda>current.
          if rest = [] then lift_result (validate_final_upload_destination remote_path current mu)
          else case current of
            Some NodeDirectory \<Rightarrow>
              if has_delete mu then raise (ParentReplaced remote_path)
              else preflight_components srv root m pre' False rest
          | Some _ \<Rightarrow>
              if deletes_file mu \<and> \<not> deletes_directory mu \<and> creates_directory mu
              then preflight_components srv root m pre' True rest
              else raise (ParentReplaced remote_path)
          | None \<Rightarrow>
              if has_delete mu then raise (StalePlan remote_path)
              else preflight_components srv root m pre' True rest)))"

definition preflight_atomic_upload_path :: "'w server \<Rightarrow> rstring \<Rightarrow> mutation_map \<Rightarrow> rstring \<Rightarrow> ('w, unit) io" where
  "preflight_atomic_upload_path srv root m relative =
     io_bind (lift_result (map_err UnsafePath (validate_remote_relative_path relative))) (\<lambda>_.
       preflight_components srv root m [] False (split_on (\<lambda>c. c = 47) relative))"

definition join_remote_component :: "rstring \<Rightarrow> rstring \<Rightarrow> rstring" where
  "join_remote_component parent child =
     (if parent = [] \<or> parent = lit ''.'' then child
      else if parent = lit ''/'' then 47 # child
      else if ends_with [47] parent then parent @ child
      else parent @ [47] @ child)"

fun root_segments :: "'w server \<Rightarrow> rstring \<Rightarrow> rstring \<Rightarrow> rstring list \<Rightarrow> ('w, bool) io" where
  "root_segments srv root current [] = ret True"
| "root_segments srv root current (seg # rest) =
     (if seg = lit ''.'' then root_segments srv root current rest
      else if seg = lit ''..'' then raise (DotDot root)
      else
        let current' = join_remote_component current seg in
        io_bind (remote_node_kind_if_exists srv current') (\<lambda>kind.
          case kind of
            Some NodeDirectory \<Rightarrow> root_segments srv root current' rest
          | Some NodeSymlink \<Rightarrow> raise (LinkRefused current')
          | Some NodeOther \<Rightarrow> raise (NotADirectory current')
          | None \<Rightarrow> ret False))"

definition remote_root_exists_without_symlinks :: "'w server \<Rightarrow> rstring \<Rightarrow> ('w, bool) io" where
  "remote_root_exists_without_symlinks srv root =
     (if root = [] \<or> root = lit ''.'' \<or> root = lit ''/'' then ret True
      else if 0 \<in> set root then raise RootNul
      else root_segments srv root (if starts_with [47] root then lit ''/'' else [])
             (filter (\<lambda>s. s \<noteq> []) (split_on (\<lambda>c. c = 47) root)))"

abbreviation uploads_of :: "SyncPlan \<Rightarrow> SyncAction list" where
  "uploads_of plan \<equiv> filter (\<lambda>a. sa_kind a = UploadFile) (actions plan)"

definition preflight_atomic_sync :: "'w server \<Rightarrow> rstring \<Rightarrow> SyncPlan \<Rightarrow> ('w, unit) io" where
  "preflight_atomic_sync srv root plan =
     io_bind (lift_result (collect_planned_mutations plan)) (\<lambda>m.
     io_bind (remote_root_exists_without_symlinks srv root) (\<lambda>exists.
       if \<not> exists then
         (case List.find (\<lambda>a. sa_kind a = DeleteRemoteFile \<or> sa_kind a = DeleteRemoteDirectory) (actions plan) of
            Some a \<Rightarrow> raise (StalePlan (sa_path a))
          | None \<Rightarrow> lift_result (try_each (\<lambda>a.
              validate_upload_beneath_fresh_ancestor (sa_path a) (mutation_for m (sa_path a))) (uploads_of plan)))
       else io_each (\<lambda>a. preflight_atomic_upload_path srv root m (sa_path a)) (uploads_of plan)))"

subsection \<open>Preflight of the local sources\<close>

fun preflight_source_components :: "LocalFs \<Rightarrow> rstring \<Rightarrow> u64 \<Rightarrow> Component list \<Rightarrow> sftp_error + unit" where
  "preflight_source_components l current n [] = Inr ()"
| "preflight_source_components l current n (Normal c # rest) =
     (let current' = path_push current c in
      case lf_stat l current' of
        LocalMissing \<Rightarrow> Inl (LocalFailed current')
      | LocalLinkNode \<Rightarrow> Inl (LocalLink current')
      | LocalFile content _ \<Rightarrow>
          if rest \<noteq> [] then Inl (NotADirectory current')
          else if length content \<noteq> unat n then Inl (SourceSizeChanged current')
          else Inr ()
      | LocalDirectory \<Rightarrow>
          if rest = [] then Inl (LocalNotFile current') else preflight_source_components l current' n rest
      | LocalOther \<Rightarrow> if rest = [] then Inl (LocalNotFile current') else Inl (NotADirectory current'))"
| "preflight_source_components l current n (c # rest) = Inl (LocalNotFile current)"

definition preflight_local_sync_source :: "LocalFs \<Rightarrow> rstring \<Rightarrow> rstring \<Rightarrow> u64 \<Rightarrow> sftp_error + unit" where
  "preflight_local_sync_source l root relative n =
     (if components relative = [] then Inl SourceIsRoot
      else preflight_source_components l root n (components relative))"

definition preflight_local_sync_sources :: "LocalFs \<Rightarrow> rstring \<Rightarrow> SyncPlan \<Rightarrow> sftp_error + unit" where
  "preflight_local_sync_sources l root plan =
     and_then (sync_root l root) (\<lambda>_.
       try_each (\<lambda>a. and_then (map_err UnsafePath (local_path_from_remote_relative (sa_path a))) (\<lambda>relative.
         preflight_local_sync_source l root relative (sa_bytes a))) (uploads_of plan))"

subsection \<open>Application\<close>

record SyncSummary =
  sy_files :: u64
  sy_directories :: nat
  sy_bytes :: u64

fun apply_actions :: "'w server \<Rightarrow> rstring \<Rightarrow> SyncAction list \<Rightarrow> nat \<Rightarrow> ('w, nat) io" where
  "apply_actions srv root [] made = ret made"
| "apply_actions srv root (a # as) made =
     io_bind (lift_result (map_err UnsafePath (join_remote_under_root root (sa_path a)))) (\<lambda>p.
     io_bind (case sa_kind a of
                DeleteRemoteFile \<Rightarrow> ok_request srv (RemoveFile p)
              | DeleteRemoteDirectory \<Rightarrow> ok_request srv (RemoveDir p)
              | CreateRemoteDirectory \<Rightarrow> ensure_remote_dir srv p
              | UploadFile \<Rightarrow> ret ()) (\<lambda>_.
       apply_actions srv root as (if sa_kind a = CreateRemoteDirectory then made + 1 else made)))"

definition collect_next_sync_upload :: "nat \<Rightarrow> SyncSummary \<Rightarrow> sftp_error + SyncSummary" where
  "collect_next_sync_upload n s =
     and_then (ok_or CounterOverflow (if n < 2 ^ 64 then checked_add_u64 (sy_bytes s) (of_nat n) else None)) (\<lambda>b.
     and_then (ok_or CounterOverflow (checked_add_u64 (sy_files s) 1)) (\<lambda>f.
       Inr (s\<lparr>sy_bytes := b, sy_files := f\<rparr>)))"

fun apply_uploads ::
  "'w server \<Rightarrow> LocalFs \<Rightarrow> TransferOptions \<Rightarrow> (rstring \<Rightarrow> rstring) \<Rightarrow> rstring \<Rightarrow> rstring \<Rightarrow> SyncAction list \<Rightarrow>
   SyncSummary \<Rightarrow> ('w, SyncSummary) io" where
  "apply_uploads srv l opt nonce local_root remote_root [] summary = ret summary"
| "apply_uploads srv l opt nonce local_root remote_root (a # as) summary =
     io_bind (lift_result (map_err UnsafePath (local_path_from_remote_relative (sa_path a)))) (\<lambda>relative.
     io_bind (lift_result (map_err UnsafePath (join_remote_under_root remote_root (sa_path a)))) (\<lambda>p.
     io_bind (upload_file srv l opt (nonce p) (path_push local_root relative) p) (\<lambda>n.
     io_bind (lift_result (collect_next_sync_upload n summary)) (\<lambda>summary'.
       apply_uploads srv l opt nonce local_root remote_root as summary'))))"

text \<open>Everything that happens before the first change.\<close>

definition sync_preflight :: "'w server \<Rightarrow> LocalFs \<Rightarrow> rstring \<Rightarrow> rstring \<Rightarrow> SyncPlan \<Rightarrow> SyncOptions \<Rightarrow> ('w, unit) io" where
  "sync_preflight srv l local_root remote_root plan opt =
     io_bind (lift_result (transfer_options_validated (transfer opt))) (\<lambda>_.
     io_bind (lift_result (validate_sync_plan plan)) (\<lambda>_.
     io_bind (lift_result (sync_root l local_root)) (\<lambda>_.
     io_bind (lift_result (preflight_local_sync_sources l local_root plan)) (\<lambda>_.
     io_bind (ok_request srv OpenSession) (\<lambda>_.
       if atomic (transfer opt) then preflight_atomic_sync srv remote_root plan else ret ())))))"

definition apply_sync_to_remote ::
  "'w server \<Rightarrow> LocalFs \<Rightarrow> (rstring \<Rightarrow> rstring) \<Rightarrow> rstring \<Rightarrow> rstring \<Rightarrow> SyncPlan \<Rightarrow> SyncOptions \<Rightarrow> ('w, SyncSummary) io" where
  "apply_sync_to_remote srv l nonce local_root remote_root plan opt =
     io_bind (sync_preflight srv l local_root remote_root plan opt) (\<lambda>_.
     io_bind (ensure_remote_dir srv remote_root) (\<lambda>_.
     io_bind (apply_actions srv remote_root (actions plan) 0) (\<lambda>made.
       apply_uploads srv l (transfer opt) nonce local_root remote_root (uploads_of plan)
         \<lparr>sy_files = 0, sy_directories = made, sy_bytes = 0\<rparr>)))"

definition sync_to_remote ::
  "nat \<Rightarrow> 'w server \<Rightarrow> LocalFs \<Rightarrow> local_dirs \<Rightarrow> (rstring \<Rightarrow> rstring) \<Rightarrow> rstring \<Rightarrow> rstring \<Rightarrow> SyncOptions \<Rightarrow> bool \<Rightarrow>
   ('w, (SyncPlan \<times> SyncSummary option) option) io" where
  "sync_to_remote fuel srv l dirs nonce local_root remote_root opt dry_run =
     io_bind (plan_sync_to_remote fuel srv l dirs local_root remote_root opt) (\<lambda>planned.
       case planned of
         None \<Rightarrow> ret None
       | Some plan \<Rightarrow>
           if dry_run \<or> plan_is_empty plan then ret (Some (plan, None))
           else io_bind (apply_sync_to_remote srv l nonce local_root remote_root plan opt) (\<lambda>summary.
             ret (Some (plan, Some summary))))"

subsection \<open>Requests\<close>

lemma emits_node_kind [emits_rules]: "P (LStat p) \<Longrightarrow> emits P (remote_node_kind_if_exists srv p)"
  unfolding remote_node_kind_if_exists_def by (auto intro!: emits_rules)

lemma emits_preflight_components:
  "(\<And>p. P (LStat p)) \<Longrightarrow> emits P (preflight_components srv root m pre fresh cs)"
proof (induction cs arbitrary: pre fresh)
  case (Cons c cs)
  then have rec: "emits P (preflight_components srv root m q f cs)" for q f by blast
  show ?case
    using rec Cons.prems
    by (auto intro!: emits_rules simp: Let_def split: option.splits RemoteNodeKind.splits)
qed (simp add: emits_ret)

lemma emits_root_segments: "(\<And>p. P (LStat p)) \<Longrightarrow> emits P (root_segments srv root cur segs)"
proof (induction segs arbitrary: cur)
  case (Cons c cs)
  then have rec: "emits P (root_segments srv root q cs)" for q by blast
  show ?case
    using rec Cons.prems
    by (auto intro!: emits_rules simp: Let_def split: option.splits RemoteNodeKind.splits)
qed (simp add: emits_ret)

lemma emits_preflight_atomic: "(\<And>p. P (LStat p)) \<Longrightarrow> emits P (preflight_atomic_sync srv root plan)"
  unfolding preflight_atomic_sync_def remote_root_exists_without_symlinks_def preflight_atomic_upload_path_def
  by (auto intro!: emits_rules emits_preflight_components emits_root_segments split: option.splits)

lemma emits_sync_preflight: "emits read_only (sync_preflight srv l local_root remote_root plan opt)"
  unfolding sync_preflight_def by (auto intro!: emits_rules emits_preflight_atomic)

text \<open>
  What an atomic application of a plan may ask for besides reading: removals of exactly the paths whose
  removal is planned, directories, and the upload requests of planned uploads.
\<close>

definition planned_path :: "rstring \<Rightarrow> SyncPlan \<Rightarrow> SyncActionKind \<Rightarrow> rstring \<Rightarrow> bool" where
  "planned_path root plan k p \<longleftrightarrow> (\<exists>a \<in> set (actions plan). sa_kind a = k \<and> join_remote_under_root root (sa_path a) = Inr p)"

lemma planned_pathI:
  "a \<in> set (actions plan) \<Longrightarrow> sa_kind a = k \<Longrightarrow> join_remote_under_root root (sa_path a) = Inr p \<Longrightarrow> planned_path root plan k p"
  by (auto simp: planned_path_def)

fun sync_request :: "rstring \<Rightarrow> SyncPlan \<Rightarrow> TransferOptions \<Rightarrow> (rstring \<Rightarrow> rstring) \<Rightarrow> sftp_req \<Rightarrow> bool" where
  "sync_request root plan opt nonce (RemoveFile p) = planned_path root plan DeleteRemoteFile p"
| "sync_request root plan opt nonce (RemoveDir p) = planned_path root plan DeleteRemoteDirectory p"
| "sync_request root plan opt nonce (CreateDir p) = True"
| "sync_request root plan opt nonce q =
     (read_only q \<or> (\<exists>p. planned_path root plan UploadFile p \<and> upload_request (staging_path opt (nonce p) p) p q))"

lemma emits_ensure_dir [emits_rules]:
  "(\<And>d. P (LStat d)) \<Longrightarrow> (\<And>d. P (CreateDir d)) \<Longrightarrow> emits P (ensure_remote_dir srv p)"
  unfolding ensure_remote_dir_def by (auto intro!: emits_rules emits_ensure_segments)

lemma emits_lift_bind:
  "(\<And>x. r = Inr x \<Longrightarrow> emits P (f x)) \<Longrightarrow> emits P (io_bind (lift_result r) f)"
  by (cases r) (simp_all add: emits_def io_bind_def lift_result_def)

lemma emits_apply_actions:
  "set as \<subseteq> set (actions plan) \<Longrightarrow> emits (sync_request root plan opt nonce) (apply_actions srv root as made)"
proof (induction as arbitrary: made)
  case (Cons a as)
  have rec: "emits (sync_request root plan opt nonce) (apply_actions srv root as n)" for n using Cons by simp
  have pl: "planned_path root plan k x" if "sa_kind a = k" "join_remote_under_root root (sa_path a) = Inr x" for k x
    using planned_pathI [OF _ that] Cons.prems by simp
  show ?case
    using rec by (auto intro!: emits_rules emits_lift_bind pl split: SyncActionKind.splits)
qed (simp add: emits_ret)

lemma upload_request_planned:
  assumes "planned_path root plan UploadFile p" and "upload_request (staging_path opt (nonce p) p) p q"
  shows "sync_request root plan opt nonce q"
  using assms by (cases q) auto

lemma emits_apply_uploads:
  assumes "atomic opt"
  shows "set as \<subseteq> set (uploads_of plan) \<Longrightarrow>
    emits (sync_request root plan opt nonce) (apply_uploads srv l opt nonce local_root root as summary)"
proof (induction as arbitrary: summary)
  case (Cons a as)
  have rec: "emits (sync_request root plan opt nonce) (apply_uploads srv l opt nonce local_root root as x)" for x
    using Cons by simp
  have up: "emits (sync_request root plan opt nonce) (upload_file srv l opt (nonce p) lp p)"
    if "join_remote_under_root root (sa_path a) = Inr p" for p lp
  proof (rule emits_mono)
    show "emits (upload_request (staging_path opt (nonce p) p) p) (upload_file srv l opt (nonce p) lp p)"
      using assms upload_file_atomic_emits unfolding upload_file_def by (intro emits_bind emits_lift) simp
    show "sync_request root plan opt nonce q" if "upload_request (staging_path opt (nonce p) p) p q" for q
      using upload_request_planned [of root plan p opt nonce q, OF _ that] Cons.prems
        planned_pathI [OF _ _ \<open>join_remote_under_root root (sa_path a) = Inr p\<close>, of plan UploadFile] by auto
  qed
  show ?case
    using rec up by (auto intro!: emits_rules emits_lift_bind)
qed (simp add: emits_ret)

lemma emits_apply:
  assumes "atomic (transfer opt)"
  shows "emits (sync_request root plan (transfer opt) nonce) (apply_sync_to_remote srv l nonce local_root root plan opt)"
  unfolding apply_sync_to_remote_def
proof (intro emits_bind)
  show "emits (sync_request root plan (transfer opt) nonce) (sync_preflight srv l local_root root plan opt)"
  proof (rule emits_mono [OF emits_sync_preflight])
    show "sync_request root plan (transfer opt) nonce q" if "read_only q" for q using that by (cases q) auto
  qed
qed (use assms in \<open>auto intro!: emits_rules emits_apply_actions emits_apply_uploads\<close>)

subsection \<open>What the remote preflight guarantees\<close>

text \<open>
  The map of planned mutations says of each path whether the plan removes it or creates a directory there.
\<close>

definition acts_at :: "SyncAction list \<Rightarrow> SyncActionKind \<Rightarrow> rstring \<Rightarrow> bool" where
  "acts_at as k p \<longleftrightarrow> (\<exists>a \<in> set as. sa_kind a = k \<and> sa_path a = p)"

definition slots_are :: "mutation_map \<Rightarrow> (SyncActionKind \<Rightarrow> rstring \<Rightarrow> bool) \<Rightarrow> bool" where
  "slots_are m f \<longleftrightarrow> bt_ok m \<and> (\<forall>p.
     (deletes_file (mutation_for m p) \<longleftrightarrow> f DeleteRemoteFile p) \<and>
     (deletes_directory (mutation_for m p) \<longleftrightarrow> f DeleteRemoteDirectory p) \<and>
     (creates_directory (mutation_for m p) \<longleftrightarrow> f CreateRemoteDirectory p))"

lemma record_slot_flags:
  assumes "record_slot k i m = Some x"
  shows "deletes_file x \<longleftrightarrow> deletes_file m \<or> k = DeleteRemoteFile"
    and "deletes_directory x \<longleftrightarrow> deletes_directory m \<or> k = DeleteRemoteDirectory"
    and "creates_directory x \<longleftrightarrow> creates_directory m \<or> k = CreateRemoteDirectory"
  using assms
  by (auto simp: record_slot_def deletes_file_def deletes_directory_def creates_directory_def
      split: SyncActionKind.splits if_splits)

lemma collect_slots_are:
  assumes "collect_slots i as m = Inr m'" and "slots_are m f"
  shows "slots_are m' (\<lambda>k p. f k p \<or> acts_at as k p)"
  using assms
proof (induction i as m arbitrary: f rule: collect_slots.induct)
  case (2 i a as m)
  let ?p = "sa_path a"
  obtain x where x: "record_slot (sa_kind a) i (mutation_for m ?p) = Some x"
    and rest: "collect_slots (i + 1) as (bt_insert ?p x m) = Inr m'"
    using "2.prems"(1) by (auto simp: and_then_eq_Inr)
  have ok: "bt_ok m" using "2.prems"(2) by (simp add: slots_are_def)
  have upd: "mutation_for (bt_insert ?p x m) q = (if q = ?p then x else mutation_for m q)" for q
    using ok by (simp add: mutation_for_def bt.get_put)
  have "slots_are (bt_insert ?p x m) (\<lambda>k p. f k p \<or> acts_at [a] k p)"
    using "2.prems"(2) bt.ok_put [OF ok] unfolding slots_are_def upd
    by (auto simp: acts_at_def record_slot_flags [OF x])
  from "2.IH" [OF _ rest this] x have "slots_are m' (\<lambda>k p. (f k p \<or> acts_at [a] k p) \<or> acts_at as k p)" by simp
  then show ?case by (simp add: acts_at_def disj_assoc)
qed (simp add: acts_at_def)

lemma collect_mutations_are:
  assumes "collect_planned_mutations plan = Inr m"
  shows "slots_are m (acts_at (actions plan))"
proof -
  have "slots_are [] (\<lambda>_ _. False)"
    by (simp add: slots_are_def mutation_for_def bt_get_def no_mutation_def deletes_file_def deletes_directory_def
        creates_directory_def)
  moreover have "collect_slots 0 (actions plan) [] = Inr m"
    using assms by (auto simp: collect_planned_mutations_def and_then_eq_Inr)
  ultimately show ?thesis using collect_slots_are by fastforce
qed

text \<open>A closed tree has only directories above an entry.\<close>

lemma closed_ancestor:
  assumes "closed_tree t" "t (d @ 47 # r) = Some e"
  shows "is_directory t d"
  using assms(2)
proof (induction "length r" arbitrary: r e rule: less_induct)
  case less
  show ?case
  proof (cases "47 \<in> set r")
    case False
    then have "parent_of (d @ 47 # r) = Some d" by (simp add: parent_of_def rsplit_once_Some)
    then show ?thesis using closed_treeD(2) [OF assms(1) less.prems] by simp
  next
    case True
    then obtain u v where r: "r = u @ 47 # v" "47 \<notin> set v" by (metis split_list_last)
    then have "parent_of (d @ 47 # r) = Some (d @ 47 # u)" by (simp add: parent_of_def rsplit_once_Some)
    then obtain e' where "t (d @ 47 # u) = Some e'"
      using closed_treeD(2) [OF assms(1) less.prems] by (auto simp: is_directory_def)
    then show ?thesis using less.hyps [of u] r by simp
  qed
qed

text \<open>
  A server that shows a tree: asked for the status of a path below the root it answers from its tree,
  and a status request changes nothing.
\<close>

fun kind_of_type :: "RemoteFileType \<Rightarrow> EntryKind" where
  "kind_of_type Directory = EkDirectory"
| "kind_of_type File = EkFile"
| "kind_of_type _ = EkOther"

definition shows_tree :: "'w server \<Rightarrow> rstring \<Rightarrow> ('w \<Rightarrow> tree) \<Rightarrow> bool" where
  "shows_tree srv root view \<longleftrightarrow>
     (\<forall>p w. view (snd (srv (LStat p) w)) = view w) \<and>
     (\<forall>rel p w. join_remote_under_root root rel = Inr p \<longrightarrow>
        (case view w rel of
           None \<Rightarrow> fst (srv (LStat p) w) = RNoSuchFile
         | Some e \<Rightarrow> \<exists>a. fst (srv (LStat p) w) = RAttrs a \<and> kind_of_type (at_type a) = se_kind e))"

lemma node_kind_shown:
  assumes "shows_tree srv root view" "join_remote_under_root root rel = Inr p"
    and "remote_node_kind_if_exists srv p s = (Inr k, s')"
  shows "view (world s') = view (world s)" and "k = None \<longleftrightarrow> view (world s) rel = None"
    and "k = Some NodeDirectory \<longleftrightarrow> is_directory (view (world s)) rel"
proof -
  obtain r w where r: "srv (LStat p) (world s) = (r, w)" by (cases "srv (LStat p) (world s)")
  have v: "view w = view (world s)" using assms(1) r by (metis shows_tree_def snd_conv)
  have shown: "case view (world s) rel of None \<Rightarrow> r = RNoSuchFile
      | Some e \<Rightarrow> \<exists>a. r = RAttrs a \<and> kind_of_type (at_type a) = se_kind e"
    using assms(1) [unfolded shows_tree_def, THEN conjunct2, rule_format, OF assms(2), of "world s"]
    unfolding r fst_conv .
  have run: "world s' = w" "k = (case r of RAttrs a \<Rightarrow> Some (if at_type a = Symlink then NodeSymlink
        else if at_type a = Directory then NodeDirectory else NodeOther) | _ \<Rightarrow> None)"
    using assms(3) r
    by (auto simp: remote_node_kind_if_exists_def remote_symlink_metadata_if_exists_def io_bind_def request_def ret_def
        raise_def split: sftp_resp.splits)
  show "view (world s') = view (world s)" using run v by simp
  show "k = None \<longleftrightarrow> view (world s) rel = None" using shown run(2) by (auto split: option.splits)
  show "k = Some NodeDirectory \<longleftrightarrow> is_directory (view (world s)) rel"
    using shown run(2) by (auto simp: is_directory_def split: option.splits elim: kind_of_type.elims)
qed

text \<open>
  One path: when its check succeeds, no directory is planned at it, and it is either free already or its
  removal is planned.
\<close>

abbreviation joined :: "rstring \<Rightarrow> rstring list \<Rightarrow> rstring" where
  "joined pre cs \<equiv> (if pre = [] then slash_join cs else if cs = [] then pre else pre @ [47] @ slash_join cs)"

lemma slash_join_Cons: "slash_join (c # cs) = (if cs = [] then c else c @ [47] @ slash_join cs)"
  by (cases cs) auto

lemma preflight_components_ok:
  assumes "shows_tree srv root view" and "closed_tree t" and "view (world s) = t"
    and "preflight_components srv root m pre fresh cs s = (Inr (), s')" and "cs \<noteq> []" and "\<forall>c \<in> set cs. c \<noteq> []"
    and "fresh \<Longrightarrow> t (joined pre cs) = None"
  shows "\<not> creates_directory (mutation_for m (joined pre cs)) \<and>
    (t (joined pre cs) = None \<or> has_delete (mutation_for m (joined pre cs))) \<and> view (world s') = t"
  using assms(3-)
proof (induction cs arbitrary: pre fresh s)
  case (Cons c cs)
  let ?pre = "if pre = [] then c else pre @ [47] @ c"
  have pre: "?pre \<noteq> []" "joined pre (c # cs) = joined ?pre cs"
    using Cons.prems(4) by (auto simp: slash_join_Cons)
  have below: "t (joined ?pre cs) = None" if "\<not> is_directory t ?pre" "cs \<noteq> []"
    using closed_ancestor [OF assms(2), of ?pre "slash_join cs"] that pre(1) by (cases "t (joined ?pre cs)") auto
  note prems = Cons.prems(2) [unfolded preflight_components.simps Let_def]
  show ?case
  proof (cases fresh)
    case True
    then show ?thesis
    proof (cases "cs = []")
      case True
      then show ?thesis using prems \<open>fresh\<close> Cons.prems(1,5) pre
        by (auto simp: io_simps validate_upload_beneath_fresh_ancestor_def split: if_splits)
    next
      case False
      then have "preflight_components srv root m ?pre True cs s = (Inr (), s')"
        using prems \<open>fresh\<close> by (auto simp: io_simps)
      from Cons.IH [OF Cons.prems(1) this False] show ?thesis
        using Cons.prems(4,5) True pre by simp
    qed
  next
    case False
    obtain p k s1 where p: "join_remote_under_root root ?pre = Inr p"
      and k: "remote_node_kind_if_exists srv p s = (Inr k, s1)"
      using prems False by (auto simp: io_simps)
    note node = node_kind_shown [OF assms(1) p k, unfolded Cons.prems(1)]
    show ?thesis
    proof (cases "cs = []")
      case True
      have "validate_final_upload_destination p k (mutation_for m ?pre) = Inr ()" "s' = s1"
        using prems False p k True by (auto simp: io_simps)
      then show ?thesis
        using node True pre
        by (auto simp: validate_final_upload_destination_def has_delete_def split: if_splits option.splits RemoteNodeKind.splits)
    next
      case False
      have "\<exists>f. preflight_components srv root m ?pre f cs s1 = (Inr (), s') \<and> (f \<longrightarrow> \<not> is_directory t ?pre)"
        using prems \<open>\<not> fresh\<close> p k False node
        by (auto simp: io_simps split: if_splits option.splits RemoteNodeKind.splits)
      then obtain f where f: "preflight_components srv root m ?pre f cs s1 = (Inr (), s')" "f \<Longrightarrow> \<not> is_directory t ?pre"
        by blast
      from Cons.IH [OF node(1) f(1) False] show ?thesis
        using Cons.prems(4) below [OF f(2) False] pre by simp
    qed
  qed
qed simp

lemma keeps_node_kind: "shows_tree srv root view \<Longrightarrow> keeps view (remote_node_kind_if_exists srv p)"
  unfolding remote_node_kind_if_exists_def remote_symlink_metadata_if_exists_def shows_tree_def
  by (auto intro!: keeps_bind keeps_request keeps_pure split: sftp_resp.splits) (metis snd_conv)

lemma keeps_root_segments: "shows_tree srv root view \<Longrightarrow> keeps view (root_segments srv r cur segs)"
proof (induction segs arbitrary: cur)
  case (Cons c cs)
  then have rec: "keeps view (root_segments srv r q cs)" for q by blast
  show ?case
    using rec keeps_node_kind [OF Cons.prems]
    by (auto intro!: keeps_bind keeps_pure simp: Let_def split: option.splits RemoteNodeKind.splits)
qed (simp add: keeps_pure)

lemma keeps_root: "shows_tree srv root view \<Longrightarrow> keeps view (remote_root_exists_without_symlinks srv r)"
  unfolding remote_root_exists_without_symlinks_def by (auto intro!: keeps_pure keeps_root_segments)

lemma preflight_path_ok:
  assumes "shows_tree srv root view" and "closed_tree (view (world s))"
    and "preflight_atomic_upload_path srv root m p s = (Inr (), s')"
  shows "\<not> creates_directory (mutation_for m p) \<and> (view (world s) p = None \<or> has_delete (mutation_for m p)) \<and>
    view (world s') = view (world s)"
proof -
  have valid: "validate_remote_relative_path p = Inr ()"
    and run: "preflight_components srv root m [] False (split_on (\<lambda>c. c = 47) p) s = (Inr (), s')"
    using assms(3) by (auto simp: preflight_atomic_upload_path_def io_simps)
  have "\<forall>c \<in> set (split_on (\<lambda>c. c = 47) p). c \<noteq> []"
    using validate_relative_plain [OF valid] by (simp add: plain_name_def)
  from preflight_components_ok [OF assms(1,2) refl run _ this] show ?thesis by (simp add: slash_join_split)
qed

lemma preflight_each_ok:
  assumes "shows_tree srv root view" and "closed_tree (view (world s))"
    and "io_each (\<lambda>a. preflight_atomic_upload_path srv root m (sa_path a)) as s = (Inr (), s')"
  shows "\<forall>a \<in> set as. \<not> creates_directory (mutation_for m (sa_path a)) \<and>
    (view (world s) (sa_path a) = None \<or> has_delete (mutation_for m (sa_path a)))"
  using assms(2,3)
proof (induction as arbitrary: s)
  case (Cons a as)
  then obtain s1 where "preflight_atomic_upload_path srv root m (sa_path a) s = (Inr (), s1)"
    and rest: "io_each (\<lambda>a. preflight_atomic_upload_path srv root m (sa_path a)) as s1 = (Inr (), s')"
    by (auto simp: io_simps)
  from preflight_path_ok [OF assms(1) Cons.prems(1) this(1)] Cons.IH [OF _ rest] Cons.prems(1) show ?case by auto
qed simp

text \<open>
  What the first loop of \<open>apply_sync_to_remote\<close> does to the tree below the root: removals as the server
  carries them out, \<open>ensure_remote_dir\<close> makes every directory on the way that is missing and stops at
  anything else in its way, uploads are left for later.
\<close>

definition path_prefixes :: "rstring \<Rightarrow> rstring list" where
  "path_prefixes p = map slash_join (tl (prefixes (split_on (\<lambda>c. c = 47) p)))"

definition make_directories :: "tree \<Rightarrow> rstring \<Rightarrow> tree option" where
  "make_directories t p =
     (if list_all (\<lambda>q. t q = None \<or> is_directory t q) (path_prefixes p)
      then Some (\<lambda>q. if q \<in> set (path_prefixes p) \<and> t q = None then Some new_directory else t q) else None)"

definition tree_action :: "SyncAction \<Rightarrow> tree \<Rightarrow> tree option" where
  "tree_action a t =
     (let p = sa_path a in
      case sa_kind a of
        DeleteRemoteFile \<Rightarrow> if t p \<noteq> None \<and> \<not> is_directory t p then Some (t(p := None)) else None
      | DeleteRemoteDirectory \<Rightarrow>
          if is_directory t p \<and> (\<forall>q. parent_of q = Some p \<longrightarrow> t q = None) then Some (t(p := None)) else None
      | CreateRemoteDirectory \<Rightarrow> make_directories t p
      | UploadFile \<Rightarrow> Some t)"

fun tree_actions :: "SyncAction list \<Rightarrow> tree \<Rightarrow> tree option" where
  "tree_actions [] t = Some t"
| "tree_actions (a # as) t = Option.bind (tree_action a t) (tree_actions as)"

text \<open>The plan makes a directory at \<open>p\<close>, or below it and so at \<open>p\<close> too.\<close>

definition creates_below :: "SyncAction list \<Rightarrow> rstring \<Rightarrow> bool" where
  "creates_below as p \<longleftrightarrow> (\<exists>b \<in> set as. sa_kind b = CreateRemoteDirectory \<and> prefix (p @ [47]) (sa_path b))"

lemma slash_join_append:
  "ws \<noteq> [] \<Longrightarrow> vs \<noteq> [] \<Longrightarrow> slash_join (ws @ vs) = slash_join ws @ 47 # slash_join vs"
  by (induction ws rule: slash_join.induct) (auto simp: slash_join_Cons)

lemma path_prefixes_cases:
  assumes "q \<in> set (path_prefixes p)"
  shows "q = p \<or> prefix (q @ [47]) p"
proof -
  obtain ws where ws: "ws \<in> set (tl (prefixes (split_on (\<lambda>c. c = 47) p)))" "q = slash_join ws"
    using assms by (auto simp: path_prefixes_def)
  have "ws \<noteq> []" using ws(1) by (cases "split_on (\<lambda>c. c = 47) p") auto
  moreover have "ws \<in> set (prefixes (split_on (\<lambda>c. c = 47) p))"
    using ws(1) by (metis list.set_sel(2) tl_Nil)
  then obtain vs where vs: "split_on (\<lambda>c. c = 47) p = ws @ vs" by (auto simp: prefix_def)
  ultimately have "p = q \<or> p = q @ 47 # slash_join vs"
    using slash_join_split [of p] slash_join_append [of ws vs] ws(2) by (cases "vs = []") auto
  then show ?thesis by (auto simp: prefix_def)
qed

lemma tree_frees:
  assumes "tree_actions as t = Some t'" and "\<not> acts_at as CreateRemoteDirectory p" "\<not> creates_below as p"
    and "t p = None \<or> acts_at as DeleteRemoteFile p \<or> acts_at as DeleteRemoteDirectory p"
  shows "t' p = None"
  using assms
proof (induction as arbitrary: t)
  case (Cons a as)
  obtain t1 where t1: "tree_action a t = Some t1" "tree_actions as t1 = Some t'"
    using Cons.prems(1) by (auto simp: Option.bind_eq_Some_conv)
  have no: "\<not> acts_at as CreateRemoteDirectory p" "\<not> creates_below as p"
    using Cons.prems(2,3) by (auto simp: acts_at_def creates_below_def)
  have away: "p \<notin> set (path_prefixes (sa_path a))" if "sa_kind a = CreateRemoteDirectory"
    using path_prefixes_cases [of p "sa_path a"] Cons.prems(2,3) that by (auto simp: acts_at_def creates_below_def)
  have "t1 p = None \<or> acts_at as DeleteRemoteFile p \<or> acts_at as DeleteRemoteDirectory p"
    using t1(1) Cons.prems(4) away
    by (cases "sa_kind a") (auto simp: tree_action_def make_directories_def Let_def acts_at_def split: if_splits)
  from Cons.IH [OF t1(2) no this] show ?case .
qed (simp add: acts_at_def)

subsection \<open>Properties\<close>

text \<open>
  C23. What the remote preflight of an atomic synchronisation achieves, for any plan a caller may pass and with
  the root present or absent: on a server whose status replies show a tree, when the preflight succeeds
  and the removals and directory creations of the plan have been carried out (with every missing directory
  above a created one), each upload destination is free, unless the plan itself creates a directory
  below it. That case the preflight does not look for; such an upload is refused when its turn comes.
\<close>

theorem preflight_frees_destinations:
  assumes "shows_tree srv root view" and "closed_tree (view (world s))"
    and "remote_root_exists_without_symlinks srv root s = (Inr present, s1)"
    and "\<not> present \<Longrightarrow> view (world s) = (\<lambda>_. None)"
    and "preflight_atomic_sync srv root plan s = (Inr (), s')"
    and "tree_actions (actions plan) (view (world s)) = Some t"
    and "a \<in> set (actions plan)" "sa_kind a = UploadFile"
  shows "t (sa_path a) = None \<or> creates_below (actions plan) (sa_path a)"
proof -
  have v: "view (world s1) = view (world s)" by (rule keepsD [OF keeps_root [OF assms(1)] assms(3)])
  obtain m where m: "collect_planned_mutations plan = Inr m" using assms(5) by (auto simp: preflight_atomic_sync_def io_simps)
  have "\<not> creates_directory (mutation_for m (sa_path a)) \<and>
      (view (world s) (sa_path a) = None \<or> has_delete (mutation_for m (sa_path a)))"
  proof (cases present)
    case True
    then have each: "io_each (\<lambda>a. preflight_atomic_upload_path srv root m (sa_path a)) (uploads_of plan) s1 = (Inr (), s')"
      using assms(3,5) m by (auto simp: preflight_atomic_sync_def io_simps)
    show ?thesis using preflight_each_ok [OF assms(1) _ each] assms(2,7,8) v by auto
  next
    case False
    then have "try_each (\<lambda>a. validate_upload_beneath_fresh_ancestor (sa_path a) (mutation_for m (sa_path a)))
        (uploads_of plan) = Inr ()"
      using assms(3,5) m by (auto simp: preflight_atomic_sync_def io_simps split: option.splits)
    then have "validate_upload_beneath_fresh_ancestor (sa_path a) (mutation_for m (sa_path a)) = Inr ()"
      using assms(7,8) by (auto simp: try_each_ok)
    then show ?thesis using assms(4) [OF False] by (auto simp: validate_upload_beneath_fresh_ancestor_def split: if_splits)
  qed
  then have "\<not> acts_at (actions plan) CreateRemoteDirectory (sa_path a)"
      "view (world s) (sa_path a) = None \<or> acts_at (actions plan) DeleteRemoteFile (sa_path a) \<or>
       acts_at (actions plan) DeleteRemoteDirectory (sa_path a)"
    using collect_mutations_are [OF m] by (auto simp: slots_are_def has_delete_def)
  then show ?thesis using tree_frees [OF assms(6)] by blast
qed

text \<open>
  C38. Nothing is changed before every check has passed: an application whose preflight fails (options,
  plan validation, local sources or remote paths) fails with the same error and has sent read-only
  requests only.
\<close>

theorem failed_preflight_changes_nothing:
  assumes "sync_preflight srv l local_root remote_root plan opt s = (Inl e, s')"
  shows "apply_sync_to_remote srv l nonce local_root remote_root plan opt s = (Inl e, s') \<and>
    (\<exists>new. sent s' = sent s @ new \<and> list_all read_only new)"
proof -
  have "\<exists>new. sent s' = sent s @ new \<and> list_all read_only new"
    using emits_sync_preflight assms unfolding emits_def by (metis snd_conv)
  then show ?thesis using assms by (simp add: apply_sync_to_remote_def io_bind_def)
qed

text \<open>
  C39. What an atomic synchronisation may do to a server, whatever the plan and whatever the server
  answers: it removes a path only where the plan says so and as the kind of entry the plan says, it
  opens, writes, renames and dates only the staging file and destination of a planned upload, and it
  never truncates; everything else it sends creates a directory or reads.
\<close>

theorem atomic_sync_footprint:
  assumes "atomic (transfer opt)"
    and "apply_sync_to_remote srv l nonce local_root root plan opt s = (r, s')"
  shows "\<exists>new. sent s' = sent s @ new \<and> list_all (sync_request root plan (transfer opt) nonce) new"
  using emits_apply [OF assms(1)] assms(2) unfolding emits_def by (metis snd_conv)

fun source_ok :: "LocalFs \<Rightarrow> rstring \<Rightarrow> u64 \<Rightarrow> rstring list \<Rightarrow> bool" where
  "source_ok l root n [] = False"
| "source_ok l root n [c] = (\<exists>content m. lf_stat l (path_push root c) = LocalFile content m \<and> length content = unat n)"
| "source_ok l root n (c # cs) = (lf_stat l (path_push root c) = LocalDirectory \<and> source_ok l (path_push root c) n cs)"

lemma source_components:
  "cs \<noteq> [] \<Longrightarrow> preflight_source_components l root n (map Normal cs) = Inr () \<longleftrightarrow> source_ok l root n cs"
proof (induction l root n cs rule: source_ok.induct)
  case (2 l root n c)
  then show ?case by (auto simp: Let_def split: local_node.splits)
next
  case (3 l root n c d cs)
  then show ?case by (auto simp: Let_def split: local_node.splits)
qed simp

text \<open>
  The local preflight accepts a plan exactly when the root is a directory and every upload source is a
  regular file of the planned size below directories that are not links.
\<close>

theorem local_sources_checked:
  assumes "validate_sync_plan plan = Inr ()"
  shows "preflight_local_sync_sources l root plan = Inr () \<longleftrightarrow>
    lf_stat l root = LocalDirectory \<and>
    (\<forall>a \<in> set (actions plan). sa_kind a = UploadFile \<longrightarrow>
       source_ok l root (sa_bytes a) (split_on (\<lambda>c. c = 47) (sa_path a)))"
proof -
  have one: "and_then (map_err UnsafePath (local_path_from_remote_relative (sa_path a))) (\<lambda>relative.
       preflight_local_sync_source l root relative (sa_bytes a)) = Inr () \<longleftrightarrow>
       source_ok l root (sa_bytes a) (split_on (\<lambda>c. c = 47) (sa_path a))"
    if "a \<in> set (actions plan)" for a
  proof -
    have valid: "validate_remote_relative_path (sa_path a) = Inr ()"
      using assms that by (auto simp: validate_sync_plan_def try_each_ok and_then_eq_Inr)
    have "components (sa_path a) = map Normal (split_on (\<lambda>c. c = 47) (sa_path a))"
      by (rule components_relative [OF validate_relative_plain [OF valid]])
    then show ?thesis
      using source_components [of "split_on (\<lambda>c. c = 47) (sa_path a)" l root "sa_bytes a"]
      by (simp add: local_path_valid [OF valid] preflight_local_sync_source_def)
  qed
  have "sync_root l root = Inr () \<longleftrightarrow> lf_stat l root = LocalDirectory"
    by (simp add: sync_root_def split: local_node.splits)
  then show ?thesis
    using one by (auto simp: preflight_local_sync_sources_def and_then_eq_Inr try_each_ok)
qed

theorem local_sources_checked_witness:
  "preflight_local_sync_sources tree_local (lit ''/l'') example_plan \<noteq> Inr ()"
proof -
  have "\<not> source_ok tree_local r n cs" for r n cs
    by (induction tree_local r n cs rule: source_ok.induct) (auto simp: tree_local_def)
  moreover have "list_ex (\<lambda>a. sa_kind a = UploadFile) (actions example_plan)" by code_simp
  then obtain a where "a \<in> set (actions example_plan)" "sa_kind a = UploadFile" by (auto simp: list_ex_iff)
  moreover have "validate_sync_plan example_plan = Inr ()" by code_simp
  ultimately show ?thesis
    using local_sources_checked [of example_plan tree_local "lit ''/l''"] by blast
qed

theorem failed_preflight_changes_nothing_witness:
  "\<exists>e. fst (apply_sync_to_remote tree_server tree_local (\<lambda>p. []) (lit ''/l'') (lit ''/r'') example_plan example_options
      \<lparr>world = (), sent = []\<rparr>) = Inl e"
proof -
  let ?pre = "sync_preflight tree_server tree_local (lit ''/l'') (lit ''/r'') example_plan example_options \<lparr>world = (), sent = []\<rparr>"
  have "\<not> is_ok (fst ?pre)" by code_simp
  then obtain e s' where "?pre = (Inl e, s')" by (cases ?pre; cases "fst ?pre") (auto simp: is_ok_iff)
  from failed_preflight_changes_nothing [OF this, of "\<lambda>p. []"] show ?thesis by simp
qed

text \<open>A local directory \<open>d\<close> with a file against a remote link \<open>d\<close>, on a server that shows that tree below \<open>/r\<close>.\<close>

fun type_of_kind :: "EntryKind \<Rightarrow> RemoteFileType" where
  "type_of_kind EkDirectory = Directory"
| "type_of_kind EkFile = File"
| "type_of_kind EkOther = Symlink"

fun shown_server :: "tree_snapshot server" where
  "shown_server (LStat p) w =
     (if starts_with (lit ''/r/'') p
      then (case bt_get w (drop 3 p) of None \<Rightarrow> RNoSuchFile | Some e \<Rightarrow> RAttrs (sample_attrs (type_of_kind (se_kind e))))
      else RAttrs (sample_attrs Directory), w)"
| "shown_server q w = (ROk, w)"

lemma shown_server_shows: "shows_tree shown_server (lit ''/r'') bt_get"
proof -
  have path: "p = lit ''/r/'' @ rel" if "join_remote_under_root (lit ''/r'') rel = Inr p" for rel p
  proof -
    have "lit ''/r'' \<noteq> []" "lit ''/r'' \<noteq> lit ''.''" "lit ''/r'' \<noteq> lit ''/''" "\<not> ends_with [47] (lit ''/r'')"
      "lit ''/r'' @ [47] = lit ''/r/''"
      by code_simp+
    then show ?thesis using that by (auto simp: join_remote_under_root_def and_then_eq_Inr)
  qed
  have parts: "starts_with (lit ''/r/'') (lit ''/r/'' @ rel)" "drop 3 (lit ''/r/'' @ rel) = rel" for rel
    by (simp_all add: lit_simps)
  have kinds: "kind_of_type (type_of_kind k) = k" for k by (cases k) auto
  show ?thesis
    unfolding shows_tree_def
  proof (intro conjI allI impI)
    fix rel p and w :: tree_snapshot
    assume "join_remote_under_root (lit ''/r'') rel = Inr p"
    then have p: "p = lit ''/r/'' @ rel" by (rule path)
    show "case bt_get w rel of None \<Rightarrow> fst (shown_server (LStat p) w) = RNoSuchFile
        | Some e \<Rightarrow> \<exists>a. fst (shown_server (LStat p) w) = RAttrs a \<and> kind_of_type (at_type a) = se_kind e"
      unfolding p shown_server.simps parts if_P [OF parts(1)]
      by (simp add: sample_attrs_def kinds parts(1) split: option.splits)
  qed simp
qed

definition link_tree :: tree_snapshot where
  "link_tree = [(lit ''d'', \<lparr>se_kind = EkOther, se_len = 1, se_mtime = None\<rparr>)]"

definition link_plan :: SyncPlan where
  "link_plan =
     \<lparr>actions = [sync_action DeleteRemoteFile (lit ''d'') 0, sync_action CreateRemoteDirectory (lit ''d'') 0,
        sync_action UploadFile (lit ''d/f'') 5],
      bytes_to_upload = 5, files_to_upload = 1, entries_to_delete = 1, directories_to_create = 1\<rparr>"

lemma is_directory_code: "is_directory t p = (case t p of None \<Rightarrow> False | Some e \<Rightarrow> se_kind e = EkDirectory)"
  by (auto simp: is_directory_def split: option.splits)

theorem preflight_frees_destinations_witness:
  "\<exists>t. tree_actions (actions link_plan) (bt_get link_tree) = Some t \<and> t (lit ''d/f'') = None"
proof -
  let ?s = "\<lparr>world = link_tree, sent = []\<rparr> :: tree_snapshot session" and ?a = "sync_action UploadFile (lit ''d/f'') 5"
  have "path_prefixes (lit ''d'') = [lit ''d'']" by code_simp
  then obtain t where t: "tree_actions (actions link_plan) (bt_get link_tree) = Some t"
    by (auto simp: link_plan_def link_tree_def sync_action_def tree_action_def make_directories_def is_directory_code
        bt_get_def Let_def)
  have "fst (remote_root_exists_without_symlinks shown_server (lit ''/r'') ?s) = Inr True"
    "fst (preflight_atomic_sync shown_server (lit ''/r'') link_plan ?s) = Inr ()" by code_simp+
  then obtain s1 s' where run: "remote_root_exists_without_symlinks shown_server (lit ''/r'') ?s = (Inr True, s1)"
      "preflight_atomic_sync shown_server (lit ''/r'') link_plan ?s = (Inr (), s')"
    by (metis prod.collapse)
  have closed: "closed_tree (bt_get link_tree)" unfolding closed_tree_list by code_simp
  have "t (sa_path ?a) = None \<or> creates_below (actions link_plan) (sa_path ?a)"
    by (rule preflight_frees_destinations [OF shown_server_shows _ run(1) _ run(2)])
       (use closed t in \<open>simp_all add: link_plan_def\<close>, simp add: sync_action_def)
  moreover have "\<not> prefix (lit ''d/f'' @ [47]) (lit ''d'')" by code_simp
  then have "\<not> creates_below (actions link_plan) (lit ''d/f'')"
    by (auto simp: creates_below_def link_plan_def sync_action_def)
  ultimately show ?thesis using t by (simp add: sync_action_def)
qed

text \<open>A synchronisation that removes a link, creates a directory and uploads a file into it.\<close>

definition small_plan :: SyncPlan where
  "small_plan =
     \<lparr>actions = [sync_action DeleteRemoteFile (lit ''a'') 0, sync_action CreateRemoteDirectory (lit ''n'') 0,
        sync_action UploadFile (lit ''n/f'') 3],
      bytes_to_upload = 3, files_to_upload = 1, entries_to_delete = 1, directories_to_create = 1\<rparr>"

definition small_local :: LocalFs where
  "small_local =
     \<lparr>lf_stat = (\<lambda>p. if p = lit ''/l'' \<or> p = lit ''/l/n'' then LocalDirectory else LocalFile [1, 2, 3] None),
      lf_reads = (\<lambda>_ off. [drop off [1, 2, 3]]), lf_fault = (\<lambda>_. None)\<rparr>"

theorem atomic_sync_footprint_witness:
  "list_all (sync_request (lit ''/d'') small_plan (transfer example_options) (\<lambda>p. lit ''1''))
     (sent (snd (apply_sync_to_remote sample_server small_local (\<lambda>p. lit ''1'') (lit ''/l'') (lit ''/d'') small_plan
       example_options sample_remote))) \<and>
   {RemoveFile (lit ''/d/a''), CreateDir (lit ''/d/n''), Rename (lit ''/d/n/f.kaduox.part.1'') (lit ''/d/n/f'')} \<subseteq>
     set (sent (snd (apply_sync_to_remote sample_server small_local (\<lambda>p. lit ''1'') (lit ''/l'') (lit ''/d'') small_plan
       example_options sample_remote)))"
proof
  have "atomic (transfer example_options)" "sent sample_remote = []" by code_simp+
  with atomic_sync_footprint [of example_options sample_server small_local "\<lambda>p. lit ''1''" "lit ''/l''" "lit ''/d''"
      small_plan sample_remote, OF _ prod.collapse [symmetric]]
  show "list_all (sync_request (lit ''/d'') small_plan (transfer example_options) (\<lambda>p. lit ''1''))
     (sent (snd (apply_sync_to_remote sample_server small_local (\<lambda>p. lit ''1'') (lit ''/l'') (lit ''/d'') small_plan
       example_options sample_remote)))" by auto
qed code_simp

end
