(* ===== verification/Local_Disk.thy ===== *)
theory Local_Disk
  imports Transfer_Upload
begin

section \<open>The local side of downloads\<close>

text \<open>
  The functions of \<open>transfer_download_policy.rs\<close> and \<open>transfer.rs\<close> that act on local directories and
  destinations, with \<open>Path::parent\<close> and \<open>Path::ancestors\<close> of the standard library for Unix. Every local
  operation is an \<open>OnDisk\<close> request, so a download is a program over one environment, the server and the
  operating system, about which nothing is assumed here.
\<close>

subsection \<open>Parents and ancestors\<close>

text \<open>
  The components of a path after its root or leading dot; a parent drops the last one, and what is trivial
  at the end: empty components and dots.
\<close>

definition body_start :: "rstring \<Rightarrow> nat" where
  "body_start p = (if starts_with [47] p \<or> p = lit ''.'' \<or> starts_with (lit ''./'') p then 1 else 0)"

definition strip_trivial :: "rstring list \<Rightarrow> rstring list" where
  "strip_trivial ws = rev (dropWhile (\<lambda>w. w = [] \<or> w = lit ''.'') (rev ws))"

definition path_body :: "rstring \<Rightarrow> rstring list" where
  "path_body p = strip_trivial (split_on (\<lambda>c. c = 47) (drop (body_start p) p))"

definition path_parent :: "rstring \<Rightarrow> rstring option" where
  "path_parent p =
     (if path_body p = [] then (if body_start p = 1 \<and> \<not> starts_with [47] p then Some [] else None)
      else Some (take (body_start p) p @ slash_join (strip_trivial (butlast (path_body p)))))"

lemma slash_join_append_length: "length (slash_join ws) \<le> length (slash_join (ws @ vs))"
  by (induction ws rule: slash_join.induct) (cases vs; auto)+

lemma strip_trivial_prefix: "\<exists>vs. ws = strip_trivial ws @ vs"
proof -
  let ?q = "\<lambda>w. w = [] \<or> w = lit ''.''"
  have "rev ws = takeWhile ?q (rev ws) @ dropWhile ?q (rev ws)" by simp
  then have "ws = strip_trivial ws @ rev (takeWhile ?q (rev ws))"
    unfolding strip_trivial_def by (metis rev_append rev_rev_ident)
  then show ?thesis by blast
qed

lemma strip_trivial_shorter: "length (slash_join (strip_trivial ws)) \<le> length (slash_join ws)"
  using strip_trivial_prefix [of ws] slash_join_append_length by metis

lemma strip_trivial_last: "strip_trivial ws \<noteq> [] \<Longrightarrow> last (strip_trivial ws) \<noteq> []"
  using hd_dropWhile [of "\<lambda>w. w = [] \<or> w = lit ''.''" "rev ws"] by (auto simp: strip_trivial_def last_rev)

lemma slash_join_snoc: "slash_join (ws @ [w]) = (if ws = [] then w else slash_join ws @ [47] @ w)"
  by (induction ws rule: slash_join.induct) auto

lemma butlast_shorter: "ws \<noteq> [] \<Longrightarrow> last ws \<noteq> [] \<Longrightarrow> length (slash_join (butlast ws)) < length (slash_join ws)"
  by (cases ws rule: rev_cases) (auto simp: slash_join_snoc)

lemma body_start_le: "body_start p \<le> length p"
  by (cases p) (auto simp: body_start_def lit_def)

lemma path_parent_shorter:
  assumes "path_parent p = Some q"
  shows "length q < length p"
proof (cases "path_body p = []")
  case True
  then show ?thesis using assms body_start_le [of p] by (auto simp: path_parent_def split: if_splits)
next
  case False
  let ?ws = "path_body p"
  have "last ?ws \<noteq> []" using strip_trivial_last False unfolding path_body_def by blast
  then have "length (slash_join (strip_trivial (butlast ?ws))) < length (slash_join ?ws)"
    using strip_trivial_shorter [of "butlast ?ws"] butlast_shorter [OF False] by linarith
  also have "\<dots> \<le> length (drop (body_start p) p)"
    using strip_trivial_shorter [of "split_on (\<lambda>c. c = 47) (drop (body_start p) p)"]
    by (simp only: path_body_def slash_join_split)
  finally show ?thesis using assms False body_start_le [of p] by (auto simp: path_parent_def)
qed

function ancestors :: "rstring \<Rightarrow> rstring list" where
  "ancestors p = p # (case path_parent p of None \<Rightarrow> [] | Some q \<Rightarrow> ancestors q)"
  by pat_completeness auto
termination by (relation "measure length") (auto simp: path_parent_shorter)

declare ancestors.simps [simp del]

definition non_empty_parent :: "rstring \<Rightarrow> rstring option" where
  "non_empty_parent p = (case path_parent p of Some q \<Rightarrow> if q = [] then None else Some q | None \<Rightarrow> None)"

definition directory_chain :: "rstring \<Rightarrow> rstring list" where
  "directory_chain p = rev (filter (\<lambda>c. c \<noteq> []) (ancestors p))"

lemma parent_chain: "non_empty_parent p = Some q \<Longrightarrow> set (directory_chain q) \<subseteq> set (ancestors p)"
  unfolding non_empty_parent_def directory_chain_def
  by (subst ancestors.simps [of p]) (auto split: option.splits if_splits)

subsection \<open>Requests to the disk\<close>

definition disk_stat :: "'w server \<Rightarrow> rstring \<Rightarrow> ('w, FileAttributes option) io" where
  "disk_stat srv p = io_bind (request srv (OnDisk (DStat p))) (\<lambda>r.
     case r of RAttrs a \<Rightarrow> ret (Some a) | RNoSuchFile \<Rightarrow> ret None | _ \<Rightarrow> raise (LocalFailed p))"

abbreviation disk_ok :: "'w server \<Rightarrow> disk_req \<Rightarrow> ('w, unit) io" where
  "disk_ok srv d \<equiv> ok_request srv (OnDisk d)"

text \<open>\<open>let _ =\<close> on an error path: the clean-up runs, its own error is dropped.\<close>

definition on_error :: "('w, 'a) io \<Rightarrow> ('w, 'b) io \<Rightarrow> ('w, 'a) io" where
  "on_error m cleanup s = (case m s of (Inl e, s') \<Rightarrow> (Inl e, snd (cleanup s')) | (Inr x, s') \<Rightarrow> (Inr x, s'))"

subsection \<open>Directories\<close>

definition validate_local_directory :: "rstring \<Rightarrow> FileAttributes \<Rightarrow> sftp_error + unit" where
  "validate_local_directory p a =
     (if at_type a = Symlink then Inl (LinkRefused p)
      else if at_type a \<noteq> Directory then Inl (NotADirectory p)
      else Inr ())"

fun preflight_chain :: "'w server \<Rightarrow> rstring list \<Rightarrow> ('w, unit) io" where
  "preflight_chain srv [] = ret ()"
| "preflight_chain srv (c # cs) = io_bind (disk_stat srv c) (\<lambda>m.
     case m of
       Some a \<Rightarrow> io_bind (lift_result (validate_local_directory c a)) (\<lambda>_. preflight_chain srv cs)
     | None \<Rightarrow> ret ())"

definition preflight_local_directory :: "'w server \<Rightarrow> rstring \<Rightarrow> ('w, unit) io" where
  "preflight_local_directory srv p = preflight_chain srv (directory_chain p)"

text \<open>A directory that appears between the check and its creation is checked again.\<close>

definition create_or_recheck :: "'w server \<Rightarrow> rstring \<Rightarrow> ('w, unit) io" where
  "create_or_recheck srv c = io_bind (request srv (OnDisk (DCreateDir c))) (\<lambda>r.
     if r = ROk then ret ()
     else if r = RExists then
       io_bind (disk_stat srv c) (\<lambda>m.
         case m of Some a \<Rightarrow> lift_result (validate_local_directory c a) | None \<Rightarrow> raise (LocalFailed c))
     else raise (RequestFailed (OnDisk (DCreateDir c))))"

fun ensure_chain :: "'w server \<Rightarrow> rstring list \<Rightarrow> ('w, unit) io" where
  "ensure_chain srv [] = ret ()"
| "ensure_chain srv (c # cs) = io_bind (disk_stat srv c) (\<lambda>m.
     io_bind (case m of Some a \<Rightarrow> lift_result (validate_local_directory c a) | None \<Rightarrow> create_or_recheck srv c)
       (\<lambda>_. ensure_chain srv cs))"

definition ensure_local_directory_no_links :: "'w server \<Rightarrow> rstring \<Rightarrow> ('w, unit) io" where
  "ensure_local_directory_no_links srv p = ensure_chain srv (directory_chain p)"

definition ensure_local_parent :: "'w server \<Rightarrow> rstring \<Rightarrow> ('w, unit) io" where
  "ensure_local_parent srv p =
     (case non_empty_parent p of Some q \<Rightarrow> ensure_local_directory_no_links srv q | None \<Rightarrow> ret ())"

subsection \<open>Destinations and staging files\<close>

definition ensure_atomic_destination_absent :: "'w server \<Rightarrow> rstring \<Rightarrow> ('w, unit) io" where
  "ensure_atomic_destination_absent srv p = io_bind (disk_stat srv p) (\<lambda>m.
     case m of
       None \<Rightarrow> ret ()
     | Some a \<Rightarrow> if at_type a = Symlink then raise (LinkRefused p) else raise (DestinationExists p))"

definition preflight_atomic_file_destination :: "'w server \<Rightarrow> rstring \<Rightarrow> ('w, unit) io" where
  "preflight_atomic_file_destination srv p =
     io_bind (case non_empty_parent p of Some q \<Rightarrow> preflight_local_directory srv q | None \<Rightarrow> ret ()) (\<lambda>_.
       ensure_atomic_destination_absent srv p)"

definition reject_existing_local_symlink :: "'w server \<Rightarrow> rstring \<Rightarrow> ('w, unit) io" where
  "reject_existing_local_symlink srv p = io_bind (disk_stat srv p) (\<lambda>m.
     bail_if (case m of Some a \<Rightarrow> at_type a = Symlink | None \<Rightarrow> False) (LinkRefused p))"

definition stable_local_staging_path :: "rstring \<Rightarrow> rstring" where
  "stable_local_staging_path p = p @ lit ''.kaduox.part''"

definition unique_local_staging_path :: "rstring \<Rightarrow> rstring \<Rightarrow> rstring" where
  "unique_local_staging_path p nonce = p @ lit ''.kaduox.part.'' @ nonce"

definition open_atomic_staging :: "'w server \<Rightarrow> rstring \<Rightarrow> bool \<Rightarrow> ('w, unit) io" where
  "open_atomic_staging srv p existing_resume = disk_ok srv (if existing_resume then DReopen p else DCreateNew p)"

definition preserve_local_mtime :: "'w server \<Rightarrow> rstring \<Rightarrow> u32 option \<Rightarrow> ('w, unit) io" where
  "preserve_local_mtime srv p mtime = (case mtime of None \<Rightarrow> ret () | Some t \<Rightarrow> disk_ok srv (DSetTime p t))"

definition finish_local_atomic :: "'w server \<Rightarrow> rstring \<Rightarrow> rstring \<Rightarrow> ('w, unit) io" where
  "finish_local_atomic srv work final =
     io_bind (ensure_local_parent srv final) (\<lambda>_.
     io_bind (disk_stat srv work) (\<lambda>m.
     io_bind (bail_if (m = None) (LocalFailed work)) (\<lambda>_.
     io_bind (bail_if (case m of Some a \<Rightarrow> at_type a \<noteq> File | None \<Rightarrow> False) (StagingNotRegular work)) (\<lambda>_.
     io_bind (request srv (OnDisk (DHardLink work final))) (\<lambda>r.
     io_bind (bail_if (r = RExists) (DestinationOccupied final)) (\<lambda>_.
     io_bind (bail_if (r \<noteq> ROk) (RequestFailed (OnDisk (DHardLink work final)))) (\<lambda>_.
       disk_ok srv (DRemove work))))))))"

subsection \<open>Requests\<close>

lemma emits_disk_stat [emits_rules]: "P (OnDisk (DStat p)) \<Longrightarrow> emits P (disk_stat srv p)"
  unfolding disk_stat_def by (auto intro!: emits_rules split: sftp_resp.splits)

lemma emits_on_error [emits_rules]:
  assumes "emits P m" and "emits P cleanup"
  shows "emits P (on_error m cleanup)"
  unfolding emits_def
proof
  fix s
  obtain r s1 where m: "m s = (r, s1)" by (cases "m s")
  obtain n1 where n1: "sent s1 = sent s @ n1" "list_all P n1"
    using assms(1) m unfolding emits_def by (metis snd_conv)
  obtain n2 where n2: "sent (snd (cleanup s1)) = sent s1 @ n2" "list_all P n2"
    using assms(2) unfolding emits_def by blast
  show "\<exists>new. sent (snd (on_error m cleanup s)) = sent s @ new \<and> list_all P new"
    using m n1 n2 by (cases r) (auto simp: on_error_def)
qed

lemma emits_preflight_chain: "(\<And>p. P (OnDisk (DStat p))) \<Longrightarrow> emits P (preflight_chain srv cs)"
  by (induction cs) (auto intro!: emits_rules split: option.splits)

lemma emits_preflight_directory [emits_rules]:
  "(\<And>p. P (OnDisk (DStat p))) \<Longrightarrow> emits P (preflight_local_directory srv p)"
  unfolding preflight_local_directory_def by (rule emits_preflight_chain)

lemma emits_ensure_chain:
  "(\<And>p. P (OnDisk (DStat p))) \<Longrightarrow> (\<And>c. c \<in> set cs \<Longrightarrow> P (OnDisk (DCreateDir c))) \<Longrightarrow> emits P (ensure_chain srv cs)"
proof (induction cs)
  case (Cons c cs)
  have "emits P (create_or_recheck srv c)"
    unfolding create_or_recheck_def using Cons.prems by (auto intro!: emits_rules split: option.splits)
  then show ?case using Cons by (auto intro!: emits_rules split: option.splits)
qed (simp add: emits_ret)

lemma emits_ensure_directory [emits_rules]:
  "(\<And>q. P (OnDisk (DStat q))) \<Longrightarrow> (\<And>c. c \<in> set (ancestors p) \<Longrightarrow> P (OnDisk (DCreateDir c))) \<Longrightarrow>
     emits P (ensure_local_directory_no_links srv p)"
  unfolding ensure_local_directory_no_links_def directory_chain_def by (rule emits_ensure_chain) auto

lemma emits_ensure_local_parent [emits_rules]:
  "(\<And>q. P (OnDisk (DStat q))) \<Longrightarrow> (\<And>c. c \<in> set (ancestors p) \<Longrightarrow> P (OnDisk (DCreateDir c))) \<Longrightarrow>
     emits P (ensure_local_parent srv p)"
proof -
  assume a: "\<And>q. P (OnDisk (DStat q))" "\<And>c. c \<in> set (ancestors p) \<Longrightarrow> P (OnDisk (DCreateDir c))"
  show ?thesis
  proof (cases "non_empty_parent p")
    case (Some q)
    have "emits P (ensure_chain srv (directory_chain q))"
      using a parent_chain [OF Some] by (intro emits_ensure_chain) auto
    with Some show ?thesis by (simp add: ensure_local_parent_def ensure_local_directory_no_links_def)
  qed (simp add: ensure_local_parent_def emits_ret)
qed

lemma emits_destination_absent [emits_rules]:
  "P (OnDisk (DStat p)) \<Longrightarrow> emits P (ensure_atomic_destination_absent srv p)"
  unfolding ensure_atomic_destination_absent_def by (auto intro!: emits_rules split: option.splits)

lemma emits_destination_preflight [emits_rules]:
  "(\<And>p. P (OnDisk (DStat p))) \<Longrightarrow> emits P (preflight_atomic_file_destination srv p)"
  unfolding preflight_atomic_file_destination_def by (auto intro!: emits_rules split: option.splits)

lemma emits_open_staging [emits_rules]:
  "P (OnDisk (DReopen p)) \<Longrightarrow> P (OnDisk (DCreateNew p)) \<Longrightarrow> emits P (open_atomic_staging srv p b)"
  unfolding open_atomic_staging_def by (auto intro!: emits_rules)

lemma emits_local_mtime [emits_rules]: "(\<And>t. P (OnDisk (DSetTime p t))) \<Longrightarrow> emits P (preserve_local_mtime srv p m)"
  unfolding preserve_local_mtime_def by (auto intro!: emits_rules split: option.splits)

lemma emits_finish_local [emits_rules]:
  "(\<And>q. P (OnDisk (DStat q))) \<Longrightarrow> (\<And>c. c \<in> set (ancestors final) \<Longrightarrow> P (OnDisk (DCreateDir c))) \<Longrightarrow>
   P (OnDisk (DHardLink work final)) \<Longrightarrow> P (OnDisk (DRemove work)) \<Longrightarrow> emits P (finish_local_atomic srv work final)"
  unfolding finish_local_atomic_def by (auto intro!: emits_rules)

subsection \<open>A disk that behaves\<close>

text \<open>
  What downloads rely on: a request changes no other file than the ones it names (creating directories,
  times and status requests none at all), a status reply of a regular file tells its length, exclusive
  creation and hard links succeed on absent names only, a failed link changes nothing, a write puts its
  bytes at its offset. The server's file is not changed by reading it and reads deliver its content.
\<close>

fun touches :: "disk_req \<Rightarrow> rstring set" where
  "touches (DCreateNew p) = {p}"
| "touches (DOpenNoFollow p t) = {p}"
| "touches (DWriteAt p off c) = {p}"
| "touches (DHardLink p q) = {q}"
| "touches (DRename p q) = {p, q}"
| "touches (DRemove p) = {p}"
| "touches _ = {}"

definition sound_disk ::
  "'w server \<Rightarrow> ('w \<Rightarrow> rstring \<Rightarrow> u8 list option) \<Rightarrow> ('w \<Rightarrow> rstring \<Rightarrow> u8 list option) \<Rightarrow> bool" where
  "sound_disk srv disk remote \<longleftrightarrow>
     (\<forall>d w r w' p. srv (OnDisk d) w = (r, w') \<longrightarrow> remote w' = remote w \<and> (p \<notin> touches d \<longrightarrow> disk w' p = disk w p)) \<and>
     (\<forall>q w r w'. srv q w = (r, w') \<longrightarrow> read_only q \<longrightarrow> remote w' = remote w \<and> disk w' = disk w) \<and>
     (\<forall>p w r w'. srv (OnDisk (DStat p)) w = (r, w') \<longrightarrow> (r = RNoSuchFile \<longrightarrow> disk w p = None) \<and>
        (\<forall>a. r = RAttrs a \<longrightarrow> at_type a = File \<longrightarrow>
           (\<exists>c. disk w p = Some c \<and> length c < 2 ^ 64 \<and> at_size a = Some (of_nat (length c))))) \<and>
     (\<forall>p w w'. srv (OnDisk (DCreateNew p)) w = (ROk, w') \<longrightarrow> disk w p = None \<and> disk w' p = Some []) \<and>
     (\<forall>p off c d w w'. srv (OnDisk (DWriteAt p off c)) w = (ROk, w') \<longrightarrow> disk w p = Some d \<longrightarrow>
        disk w' p = Some (take off d @ c @ drop (off + length c) d)) \<and>
     (\<forall>p q w r w'. srv (OnDisk (DHardLink p q)) w = (r, w') \<longrightarrow>
        (if r = ROk then disk w q = None \<and> disk w' q = disk w p else disk w' q = disk w q)) \<and>
     (\<forall>p w w'. srv (OnDisk (DRemove p)) w = (ROk, w') \<longrightarrow> disk w' p = None) \<and>
     (\<forall>p w a w'. srv (LStat p) w = (RAttrs a, w') \<longrightarrow> at_type a = File \<longrightarrow>
        (\<exists>c. remote w p = Some c \<and> length c < 2 ^ 64 \<and> at_size a = Some (of_nat (length c)))) \<and>
     (\<forall>p off w d w' c. srv (ReadAt p off) w = (RData d, w') \<longrightarrow> remote w p = Some c \<longrightarrow>
        prefix d (drop off c) \<and> (d = [] \<longrightarrow> length c \<le> off))"

lemma sound_diskD:
  assumes "sound_disk srv disk remote"
  shows "srv (OnDisk d) w = (r, w') \<Longrightarrow> remote w' = remote w"
    "srv (OnDisk d) w = (r, w') \<Longrightarrow> p \<notin> touches d \<Longrightarrow> disk w' p = disk w p"
    "srv q w = (r, w') \<Longrightarrow> read_only q \<Longrightarrow> remote w' = remote w"
    "srv q w = (r, w') \<Longrightarrow> read_only q \<Longrightarrow> disk w' = disk w"
    "srv (OnDisk (DStat p)) w = (RNoSuchFile, w') \<Longrightarrow> disk w p = None"
    "srv (OnDisk (DStat p)) w = (RAttrs a, w') \<Longrightarrow> at_type a = File \<Longrightarrow>
       \<exists>c. disk w p = Some c \<and> length c < 2 ^ 64 \<and> at_size a = Some (of_nat (length c))"
    "srv (OnDisk (DCreateNew p)) w = (ROk, w') \<Longrightarrow> disk w p = None"
    "srv (OnDisk (DCreateNew p)) w = (ROk, w') \<Longrightarrow> disk w' p = Some []"
    "srv (OnDisk (DWriteAt p off c)) w = (ROk, w') \<Longrightarrow> disk w p = Some d' \<Longrightarrow>
       disk w' p = Some (take off d' @ c @ drop (off + length c) d')"
    "srv (OnDisk (DHardLink p p')) w = (ROk, w') \<Longrightarrow> disk w p' = None"
    "srv (OnDisk (DHardLink p p')) w = (ROk, w') \<Longrightarrow> disk w' p' = disk w p"
    "srv (OnDisk (DHardLink p p')) w = (r, w') \<Longrightarrow> r \<noteq> ROk \<Longrightarrow> disk w' p' = disk w p'"
    "srv (OnDisk (DRemove p)) w = (ROk, w') \<Longrightarrow> disk w' p = None"
    "srv (LStat p) w = (RAttrs a, w') \<Longrightarrow> at_type a = File \<Longrightarrow>
       \<exists>c. remote w p = Some c \<and> length c < 2 ^ 64 \<and> at_size a = Some (of_nat (length c))"
    "srv (ReadAt p off) w = (RData b, w') \<Longrightarrow> remote w p = Some c \<Longrightarrow> prefix b (drop off c)"
    "srv (ReadAt p off) w = (RData [], w') \<Longrightarrow> remote w p = Some c \<Longrightarrow> length c \<le> off"
  by (insert assms, unfold sound_disk_def, elim conjE) metis+

end
