(* ===== verification/Transfer_Download.thy ===== *)
theory Transfer_Download
  imports Local_Disk
begin

section \<open>Downloads\<close>

text \<open>
  Model of the download of one file: \<open>transfer_download_policy.rs\<close> (atomic mode) and \<open>download_file\<close> of
  \<open>transfer.rs\<close> (the engine, used without atomic mode). The loop that copies has no bound in the code, a
  server may send for ever: the fuel counts reads, and \<open>None\<close> is a download still going on. Closing the
  handle of the remote file happens in the background and is left out, as are progress events. The engine
  adds its counters unchecked; both agree below 2^64 bytes.
\<close>

definition read_at :: "'w server \<Rightarrow> rstring \<Rightarrow> nat \<Rightarrow> ('w, u8 list) io" where
  "read_at srv p off = io_bind (request srv (ReadAt p off)) (\<lambda>r.
     case r of RData d \<Rightarrow> ret d | _ \<Rightarrow> raise (RequestFailed (ReadAt p off)))"

fun copy_down ::
  "nat \<Rightarrow> 'w server \<Rightarrow> TransferOptions \<Rightarrow> rstring \<Rightarrow> rstring \<Rightarrow> nat \<Rightarrow> nat \<Rightarrow> ('w, nat option) io" where
  "copy_down fuel srv opt remote_path work initial copied =
     (if fuel = 0 then ret None
      else
        io_bind (check_cancelled opt) (\<lambda>_.
        io_bind (read_at srv remote_path (initial + copied)) (\<lambda>chunk.
          if chunk = [] then ret (Some copied)
          else
            io_bind (disk_ok srv (DWriteAt work (initial + copied) chunk)) (\<lambda>_.
              if 2 ^ 64 \<le> initial + copied + length chunk then raise CounterOverflow
              else copy_down (fuel - 1) srv opt remote_path work initial (copied + length chunk)))))"

declare copy_down.simps [simp del]

definition remote_source :: "'w server \<Rightarrow> rstring \<Rightarrow> ('w, FileAttributes) io" where
  "remote_source srv p =
     io_bind (symlink_metadata srv p) (\<lambda>a.
     io_bind (bail_if (at_type a = Symlink) (LinkRefused p)) (\<lambda>_.
     io_bind (bail_if (at_type a \<noteq> File) (NotRegularFile p)) (\<lambda>_. ret a)))"

definition local_staging_path :: "TransferOptions \<Rightarrow> rstring \<Rightarrow> rstring \<Rightarrow> rstring" where
  "local_staging_path opt nonce p =
     (if resume opt then stable_local_staging_path p else unique_local_staging_path p nonce)"

definition drop_fresh_staging :: "'w server \<Rightarrow> TransferOptions \<Rightarrow> rstring \<Rightarrow> ('w, unit) io" where
  "drop_fresh_staging srv opt work = (if resume opt then ret () else disk_ok srv (DRemove work))"

text \<open>From the opened handles to the published file.\<close>

definition fetch_and_publish ::
  "nat \<Rightarrow> 'w server \<Rightarrow> TransferOptions \<Rightarrow> rstring \<Rightarrow> rstring \<Rightarrow> rstring \<Rightarrow> nat \<Rightarrow> u32 option \<Rightarrow> ('w, nat option) io" where
  "fetch_and_publish fuel srv opt remote_path work local_path offset mtime =
     io_bind (on_error (copy_down fuel srv opt remote_path work offset 0) (drop_fresh_staging srv opt work)) (\<lambda>copied.
       case copied of
         None \<Rightarrow> ret None
       | Some n \<Rightarrow>
           io_bind (disk_ok srv (DSync work)) (\<lambda>_.
           io_bind (preserve_local_mtime srv work mtime) (\<lambda>_.
           io_bind (on_error (finish_local_atomic srv work local_path) (drop_fresh_staging srv opt work)) (\<lambda>_.
             ret (Some n)))))"

text \<open>Everything up to the staging file: its status and the offset to go on from.\<close>

definition prepare_download ::
  "'w server \<Rightarrow> TransferOptions \<Rightarrow> rstring \<Rightarrow> rstring \<Rightarrow> rstring \<Rightarrow> ('w, FileAttributes \<times> bool \<times> nat) io" where
  "prepare_download srv opt nonce remote_path local_path =
     io_bind (check_cancelled opt) (\<lambda>_.
     io_bind (remote_source srv remote_path) (\<lambda>a.
     io_bind (ensure_local_parent srv local_path) (\<lambda>_.
     io_bind (ensure_atomic_destination_absent srv local_path) (\<lambda>_.
       let work = local_staging_path opt nonce local_path in
       io_bind (disk_stat srv work) (\<lambda>m.
       io_bind (lift_result (staging_offset opt work (attr_len a) m)) (\<lambda>offset.
         ret (a, m \<noteq> None, offset)))))))"

definition complete_download ::
  "nat \<Rightarrow> 'w server \<Rightarrow> TransferOptions \<Rightarrow> rstring \<Rightarrow> rstring \<Rightarrow> rstring \<Rightarrow> FileAttributes \<times> bool \<times> nat \<Rightarrow>
   ('w, nat option) io" where
  "complete_download fuel srv opt remote_path work local_path prepared =
     (let (a, staged, offset) = prepared in
      if resume opt \<and> offset = attr_len a \<and> attr_len a \<noteq> 0 then
        io_bind (preserve_local_mtime srv work (at_mtime a)) (\<lambda>_.
        io_bind (finish_local_atomic srv work local_path) (\<lambda>_. ret (Some 0)))
      else
        io_bind (ok_request srv (OpenFile remote_path [READ])) (\<lambda>_.
        io_bind (open_atomic_staging srv work staged) (\<lambda>_.
          fetch_and_publish fuel srv opt remote_path work local_path offset (at_mtime a))))"

definition download_file_atomic ::
  "nat \<Rightarrow> 'w server \<Rightarrow> TransferOptions \<Rightarrow> rstring \<Rightarrow> rstring \<Rightarrow> rstring \<Rightarrow> ('w, nat option) io" where
  "download_file_atomic fuel srv opt nonce remote_path local_path =
     io_bind (prepare_download srv opt nonce remote_path local_path)
       (complete_download fuel srv opt remote_path (local_staging_path opt nonce local_path) local_path)"

subsection \<open>The engine\<close>

definition transfer_local_work_path :: "rstring \<Rightarrow> bool \<Rightarrow> rstring" where
  "transfer_local_work_path p at = (if at then p @ lit ''.kaduox.part'' else p)"

definition finish_local_engine :: "'w server \<Rightarrow> rstring \<Rightarrow> rstring \<Rightarrow> ('w, unit) io" where
  "finish_local_engine srv work final =
     io_bind (ensure_local_parent srv final) (\<lambda>_.
     io_bind (reject_existing_local_symlink srv final) (\<lambda>_.
     io_bind (request srv (OnDisk (DRename work final))) (\<lambda>r.
       if r = ROk then ret ()
       else
         io_bind (disk_stat srv final) (\<lambda>m.
           case m of
             None \<Rightarrow> raise (RequestFailed (OnDisk (DRename work final)))
           | Some a \<Rightarrow>
               if at_type a = Symlink then raise (LinkRefused final)
               else if at_type a = File then
                 io_bind (disk_ok srv (DRemove final)) (\<lambda>_. disk_ok srv (DRename work final))
               else raise (NotRegularFile final)))))"

text \<open>The copy and the flush both run; the error of the copy comes first, and either cleans up.\<close>

definition engine_copy ::
  "nat \<Rightarrow> 'w server \<Rightarrow> TransferOptions \<Rightarrow> rstring \<Rightarrow> rstring \<Rightarrow> nat \<Rightarrow> ('w, nat option) io" where
  "engine_copy fuel srv opt remote_path work offset s =
     (case copy_down fuel srv opt remote_path work offset 0 s of
        (Inr None, s1) \<Rightarrow> (Inr None, s1)
      | (r, s1) \<Rightarrow>
          (case disk_ok srv (DSync work) s1 of (f, s2) \<Rightarrow> (and_then r (\<lambda>n. and_then f (\<lambda>_. Inr n)), s2)))"

definition engine_download_file ::
  "nat \<Rightarrow> 'w server \<Rightarrow> TransferOptions \<Rightarrow> rstring \<Rightarrow> rstring \<Rightarrow> ('w, nat option) io" where
  "engine_download_file fuel srv opt remote_path local_path =
     io_bind (lift_result (transfer_options_validated opt)) (\<lambda>_.
     io_bind (check_cancelled opt) (\<lambda>_.
     io_bind (remote_source srv remote_path) (\<lambda>a.
     io_bind (ensure_local_parent srv local_path) (\<lambda>_.
     io_bind (reject_existing_local_symlink srv local_path) (\<lambda>_.
       let total = attr_len a; work = transfer_local_work_path local_path (atomic opt) in
       io_bind (reject_existing_local_symlink srv work) (\<lambda>_.
       io_bind (if resume opt then disk_stat srv work else ret None) (\<lambda>m.
         let offset = resume_offset (map_option (\<lambda>b. of_nat (attr_len b)) m) total (resume opt) in
         if offset = total \<and> total \<noteq> 0 then
           io_bind (if atomic opt then finish_local_engine srv work local_path else ret ()) (\<lambda>_.
           io_bind (preserve_local_mtime srv local_path (at_mtime a)) (\<lambda>_. ret (Some 0)))
         else
           io_bind (ok_request srv (OpenFile remote_path [READ])) (\<lambda>_.
           io_bind (disk_ok srv (DOpenNoFollow work (offset = 0))) (\<lambda>_.
           io_bind (on_error (engine_copy fuel srv opt remote_path work offset)
                      (if work \<noteq> local_path then disk_ok srv (DRemove work) else ret ())) (\<lambda>copied.
             case copied of
               None \<Rightarrow> ret None
             | Some n \<Rightarrow>
                 io_bind (if atomic opt then finish_local_engine srv work local_path else ret ()) (\<lambda>_.
                 io_bind (preserve_local_mtime srv local_path (at_mtime a)) (\<lambda>_. ret (Some n)))))))))))))"

definition download_file ::
  "nat \<Rightarrow> 'w server \<Rightarrow> TransferOptions \<Rightarrow> rstring \<Rightarrow> rstring \<Rightarrow> rstring \<Rightarrow> ('w, nat option) io" where
  "download_file fuel srv opt nonce remote_path local_path =
     io_bind (lift_result (transfer_options_validated opt)) (\<lambda>_.
       if \<not> atomic opt then engine_download_file fuel srv opt remote_path local_path
       else download_file_atomic fuel srv opt nonce remote_path local_path)"

subsection \<open>Requests of a download\<close>

lemma emits_read_at [emits_rules]: "P (ReadAt p off) \<Longrightarrow> emits P (read_at srv p off)"
  unfolding read_at_def by (auto intro!: emits_rules split: sftp_resp.splits)

lemma emits_copy_down [emits_rules]:
  "(\<And>off. P (ReadAt p off)) \<Longrightarrow> (\<And>off c. P (OnDisk (DWriteAt work off c))) \<Longrightarrow>
     emits P (copy_down fuel srv opt p work init k)"
proof (induction fuel arbitrary: k)
  case 0
  then show ?case by (simp add: copy_down.simps emits_ret)
next
  case (Suc fuel)
  have rec: "emits P (copy_down fuel srv opt p work init j)" for j using Suc by blast
  show ?case unfolding copy_down.simps [of "Suc fuel"] using rec Suc.prems by (auto intro!: emits_rules)
qed

lemma emits_remote_source [emits_rules]: "P (LStat p) \<Longrightarrow> emits P (remote_source srv p)"
  unfolding remote_source_def by (auto intro!: emits_rules)

lemma emits_drop_staging [emits_rules]: "P (OnDisk (DRemove work)) \<Longrightarrow> emits P (drop_fresh_staging srv opt work)"
  unfolding drop_fresh_staging_def by (auto intro!: emits_rules)

text \<open>
  What an atomic download may ask of the disk: directories above the destination, its own staging file, and
  one hard link to the destination. It never opens, truncates, removes or renames the destination.
\<close>

fun download_request :: "rstring \<Rightarrow> rstring \<Rightarrow> sftp_req \<Rightarrow> bool" where
  "download_request work p (OnDisk (DCreateDir d)) = (d \<in> set (ancestors p))"
| "download_request work p (OnDisk (DCreateNew q)) = (q = work)"
| "download_request work p (OnDisk (DReopen q)) = (q = work)"
| "download_request work p (OnDisk (DWriteAt q off c)) = (q = work)"
| "download_request work p (OnDisk (DSync q)) = (q = work)"
| "download_request work p (OnDisk (DSetTime q t)) = (q = work)"
| "download_request work p (OnDisk (DHardLink q r)) = (q = work \<and> r = p)"
| "download_request work p (OnDisk (DRemove q)) = (q = work)"
| "download_request work p q = read_only q"

lemma local_staging_differs: "local_staging_path opt nonce p \<noteq> p"
  by (simp add: local_staging_path_def stable_local_staging_path_def unique_local_staging_path_def)

lemma download_file_atomic_emits:
  "emits (download_request (local_staging_path opt nonce p) p) (download_file_atomic fuel srv opt nonce rp p)"
  unfolding download_file_atomic_def prepare_download_def complete_download_def fetch_and_publish_def Let_def
  by (auto intro!: emits_rules split: option.splits prod.splits)

lemma download_file_emits:
  "atomic opt \<Longrightarrow> emits (download_request (local_staging_path opt nonce p) p) (download_file fuel srv opt nonce rp p)"
  unfolding download_file_def by (auto intro!: emits_rules download_file_atomic_emits)

subsection \<open>What stays the same\<close>

lemma keeps_on_error: "keeps v m \<Longrightarrow> keeps v c \<Longrightarrow> keeps v (on_error m c)"
  unfolding keeps_def on_error_def by (auto split: prod.splits sum.splits) (metis snd_conv)+

lemma keeps_bail: "keeps v (bail_if c e)"
  by (simp add: keeps_def bail_if_def ret_def raise_def)

text \<open>The server's files together with one local file.\<close>

definition seen ::
  "('w \<Rightarrow> rstring \<Rightarrow> u8 list option) \<Rightarrow> ('w \<Rightarrow> rstring \<Rightarrow> u8 list option) \<Rightarrow> rstring \<Rightarrow> 'w \<Rightarrow>
   (rstring \<Rightarrow> u8 list option) \<times> u8 list option" where
  "seen disk remote p w = (remote w, disk w p)"

fun harmless :: "rstring \<Rightarrow> sftp_req \<Rightarrow> bool" where
  "harmless p (OnDisk d) = (p \<notin> touches d)"
| "harmless p q = read_only q"

lemma keeps_seen:
  assumes "sound_disk srv disk remote" and "harmless p q"
  shows "keeps (seen disk remote p) (request srv q)"
  using sound_diskD(1-4) [OF assms(1)] assms(2) by (intro keeps_request) (cases q; fastforce simp: seen_def)

lemma keeps_seen_ok:
  "sound_disk srv disk remote \<Longrightarrow> harmless p q \<Longrightarrow> keeps (seen disk remote p) (ok_request srv q)"
  unfolding ok_request_def by (auto intro!: keeps_bind keeps_seen keeps_pure)

lemmas keeps_rules = keeps_bind keeps_pure keeps_bail keeps_on_error keeps_seen keeps_seen_ok

lemma keeps_disk_stat: "sound_disk srv disk remote \<Longrightarrow> keeps (seen disk remote p) (disk_stat srv q)"
  unfolding disk_stat_def by (auto intro!: keeps_rules split: sftp_resp.splits)

lemma keeps_create: "sound_disk srv disk remote \<Longrightarrow> keeps (seen disk remote p) (create_or_recheck srv q)"
  unfolding create_or_recheck_def by (auto intro!: keeps_rules keeps_disk_stat split: option.splits)

lemma keeps_ensure_chain: "sound_disk srv disk remote \<Longrightarrow> keeps (seen disk remote p) (ensure_chain srv cs)"
  by (induction cs) (auto intro!: keeps_rules keeps_disk_stat keeps_create split: option.splits)

lemma keeps_ensure_local_parent: "sound_disk srv disk remote \<Longrightarrow> keeps (seen disk remote p) (ensure_local_parent srv q)"
  unfolding ensure_local_parent_def ensure_local_directory_no_links_def
  by (auto intro!: keeps_pure keeps_ensure_chain split: option.splits)

lemma keeps_destination_absent:
  "sound_disk srv disk remote \<Longrightarrow> keeps (seen disk remote p) (ensure_atomic_destination_absent srv q)"
  unfolding ensure_atomic_destination_absent_def by (auto intro!: keeps_rules keeps_disk_stat split: option.splits)

lemma keeps_remote_source: "sound_disk srv disk remote \<Longrightarrow> keeps (seen disk remote p) (remote_source srv q)"
  unfolding remote_source_def symlink_metadata_def by (auto intro!: keeps_rules split: sftp_resp.splits)

lemma keeps_local_mtime: "sound_disk srv disk remote \<Longrightarrow> keeps (seen disk remote p) (preserve_local_mtime srv q m)"
  unfolding preserve_local_mtime_def by (auto intro!: keeps_rules split: option.splits)

lemma keeps_read_at: "sound_disk srv disk remote \<Longrightarrow> keeps (seen disk remote p) (read_at srv q off)"
  unfolding read_at_def by (auto intro!: keeps_rules split: sftp_resp.splits)

lemma keeps_drop_staging:
  "sound_disk srv disk remote \<Longrightarrow> work \<noteq> p \<Longrightarrow> keeps (seen disk remote p) (drop_fresh_staging srv opt work)"
  unfolding drop_fresh_staging_def by (auto intro!: keeps_rules)

lemma keeps_open_staging:
  "sound_disk srv disk remote \<Longrightarrow> work \<noteq> p \<Longrightarrow> keeps (seen disk remote p) (open_atomic_staging srv work b)"
  unfolding open_atomic_staging_def by (auto intro!: keeps_rules)

lemma keeps_copy_down:
  assumes "sound_disk srv disk remote" and "work \<noteq> p"
  shows "keeps (seen disk remote p) (copy_down fuel srv opt rp work init k)"
proof (induction fuel arbitrary: k)
  case 0
  then show ?case by (simp add: copy_down.simps keeps_pure)
next
  case (Suc fuel)
  then show ?case
    unfolding copy_down.simps [of "Suc fuel"] using assms by (auto intro!: keeps_rules keeps_read_at)
qed

lemma seenD: "keeps (seen disk remote p) m \<Longrightarrow> m s = (r, s') \<Longrightarrow>
    remote (world s') = remote (world s) \<and> disk (world s') p = disk (world s) p"
  using keepsD [of "seen disk remote p" m s r s'] by (simp add: seen_def)

text \<open>A program that leaves every single file alone leaves the disk alone.\<close>

lemma seen_all:
  assumes "\<And>p. keeps (seen disk remote p) m" and "m s = (r, s')"
  shows "remote (world s') = remote (world s)" "disk (world s') = disk (world s)"
  using seenD [OF assms] by auto

subsection \<open>Copying and publishing\<close>

lemma copy_down_result:
  assumes "sound_disk srv disk remote"
  shows "copy_down fuel srv opt rp work init k s = (Inr (Some n), s') \<Longrightarrow> remote (world s) rp = Some content \<Longrightarrow>
    disk (world s) work = Some (take (init + k) content) \<Longrightarrow> init + k \<le> length content \<Longrightarrow>
    disk (world s') work = Some content"
proof (induction fuel arbitrary: k s)
  case 0
  then show ?case by (simp add: copy_down.simps ret_def)
next
  case (Suc fuel)
  obtain s1 chunk where rd: "read_at srv rp (init + k) s = (Inr chunk, s1)"
    and rest: "(if chunk = [] then ret (Some k) else
        io_bind (disk_ok srv (DWriteAt work (init + k) chunk)) (\<lambda>_.
          if 2 ^ 64 \<le> init + k + length chunk then raise CounterOverflow
          else copy_down fuel srv opt rp work init (k + length chunk))) s1 = (Inr (Some n), s')"
    using Suc.prems(1) unfolding copy_down.simps [of "Suc fuel"]
    by (auto simp: io_bind_ok check_cancelled_def split: if_splits)
  obtain w where data: "srv (ReadAt rp (init + k)) (world s) = (RData chunk, w)"
    using rd by (auto simp: read_at_def request_def io_simps split: prod.splits sftp_resp.splits)
  note same = seen_all [OF keeps_read_at [OF assms] rd]
  show ?case
  proof (cases "chunk = []")
    case True
    then have "s' = s1" using rest by (simp add: ret_def)
    moreover have "length content \<le> init + k" using sound_diskD(16) [OF assms] data True Suc.prems(2) by blast
    ultimately show ?thesis using same Suc.prems(3) by simp
  next
    case False
    then obtain s2 where wr: "disk_ok srv (DWriteAt work (init + k) chunk) s1 = (Inr (), s2)"
      and rec: "copy_down fuel srv opt rp work init (k + length chunk) s2 = (Inr (Some n), s')"
      using rest by (auto simp: io_simps split: if_splits)
    obtain t where t: "drop (init + k) content = chunk @ t"
      using sound_diskD(15) [OF assms data Suc.prems(2)] by (auto simp: prefix_def)
    have len: "length content = init + k + length chunk + length t"
      using arg_cong [OF t, of length] Suc.prems(4) by simp
    have content: "content = take (init + k) content @ chunk @ t" using t append_take_drop_id by metis
    have "disk (world s2) work = Some (take (init + k) content @ chunk)"
      using sound_diskD(9) [OF assms, of work "init + k" chunk "world s1"] wr same Suc.prems(3,4)
      by (auto simp: ok_request_run)
    moreover have "take (init + (k + length chunk)) content = take (init + k) content @ chunk"
      using Suc.prems(4) by (subst content) (simp add: min_def)
    moreover have "remote (world s2) = remote (world s)"
      using wr sound_diskD(1) [OF assms] same by (fastforce simp: ok_request_run)
    ultimately show ?thesis using Suc.IH [OF rec] Suc.prems(2) len by simp
  qed
qed

lemma disk_stat_run:
  assumes "disk_stat srv p s = (Inr m, s')"
  shows "\<exists>w. srv (OnDisk (DStat p)) (world s) = ((case m of None \<Rightarrow> RNoSuchFile | Some a \<Rightarrow> RAttrs a), w)"
  using assms
  by (auto simp: disk_stat_def request_def io_bind_ok ret_ok raise_ok split: prod.splits sftp_resp.splits)

text \<open>Publishing, on every outcome: the destination is as it was, or the link put the staged content there.\<close>

lemma finish_local_outcome:
  assumes "sound_disk srv disk remote" and "work \<noteq> p" and "finish_local_atomic srv work p s = (r, s')"
  shows "disk (world s') p = disk (world s) p \<or> disk (world s) p = None \<and> disk (world s') p = disk (world s) work"
    and "r = Inr () \<Longrightarrow> disk (world s) p = None \<and>
      disk (world s') = (disk (world s))(p := disk (world s) work, work := None)"
proof -
  let ?link = "io_bind (request srv (OnDisk (DHardLink work p))) (\<lambda>r.
     io_bind (bail_if (r = RExists) (DestinationOccupied p)) (\<lambda>_.
     io_bind (bail_if (r \<noteq> ROk) (RequestFailed (OnDisk (DHardLink work p)))) (\<lambda>_. disk_ok srv (DRemove work))))"
  let ?pre = "io_bind (ensure_local_parent srv p) (\<lambda>_.
     io_bind (disk_stat srv work) (\<lambda>m.
     io_bind (bail_if (m = None) (LocalFailed work)) (\<lambda>_.
       bail_if (case m of Some a \<Rightarrow> at_type a \<noteq> File | None \<Rightarrow> False) (StagingNotRegular work))))"
  have split: "finish_local_atomic srv work p s = io_bind ?pre (\<lambda>_. ?link) s"
    by (auto simp: finish_local_atomic_def io_bind_def split: prod.splits sum.splits)
  have kept: "keeps (seen disk remote q) ?pre" for q
    by (intro keeps_rules keeps_ensure_local_parent keeps_disk_stat assms(1))
  have link: "(disk (world s2) p = disk (world s1) p \<or> disk (world s1) p = None \<and> disk (world s2) p = disk (world s1) work) \<and>
      (r2 = Inr () \<longrightarrow> disk (world s1) p = None \<and>
        disk (world s2) = (disk (world s1))(p := disk (world s1) work, work := None))"
    if run: "?link s1 = (r2, s2)" for s1 r2 s2
  proof -
    obtain x w where l: "srv (OnDisk (DHardLink work p)) (world s1) = (x, w)" by fastforce
    show ?thesis
    proof (cases "x = ROk")
      case False
      then have "disk w p = disk (world s1) p" "world s2 = w" "r2 \<noteq> Inr ()"
        using sound_diskD(12) [OF assms(1) l] run l
        by (auto simp: io_bind_def request_def bail_if_def ret_def raise_def split: if_splits)
      then show ?thesis by simp
    next
      case True
      then have lk: "disk (world s1) p = None" "disk w p = disk (world s1) work"
        and rest: "\<And>q. q \<noteq> p \<Longrightarrow> disk w q = disk (world s1) q"
        using sound_diskD(2,10,11) [OF assms(1)] l by auto
      obtain y w2 where rm: "srv (OnDisk (DRemove work)) w = (y, w2)" by fastforce
      have s2: "world s2 = w2" "r2 = Inr () \<Longrightarrow> y = ROk"
        using run l rm True
        by (auto simp: io_bind_def request_def bail_if_def ok_request_def ret_def raise_def split: if_splits)
      have others: "\<And>q. q \<noteq> work \<Longrightarrow> disk w2 q = disk w q" using sound_diskD(2) [OF assms(1) rm] by auto
      have "r2 = Inr () \<Longrightarrow> disk w2 work = None" using s2(2) rm sound_diskD(13) [OF assms(1)] by blast
      then show ?thesis using lk rest others s2(1) assms(2) by auto
    qed
  qed
  obtain r1 s1 where pre: "?pre s = (r1, s1)" by (cases "?pre s")
  note same = seen_all(2) [OF kept pre]
  show "disk (world s') p = disk (world s) p \<or> disk (world s) p = None \<and> disk (world s') p = disk (world s) work"
  proof (cases r1)
    case (Inl e)
    then show ?thesis using assms(3) split pre same by (simp add: io_bind_def)
  next
    case (Inr u)
    then have "?link s1 = (r, s')" using assms(3) split pre by (simp add: io_bind_def)
    from link [OF this] show ?thesis using same by simp
  qed
  show "disk (world s) p = None \<and> disk (world s') = (disk (world s))(p := disk (world s) work, work := None)"
    if ok: "r = Inr ()"
  proof -
    obtain u where "r1 = Inr u" using ok assms(3) split pre by (cases r1) (auto simp: io_bind_def)
    then have "?link s1 = (r, s')" using assms(3) split pre by (simp add: io_bind_def)
    from link [OF this] show ?thesis using same ok by simp
  qed
qed

lemma on_error_ok: "on_error m c s = (Inr x, s') \<longleftrightarrow> m s = (Inr x, s')"
  by (auto simp: on_error_def split: prod.splits sum.splits)

lemma copy_down_disk:
  assumes "sound_disk srv disk remote" and "copy_down fuel srv opt rp work init 0 s = (Inr (Some n), s')"
    and "remote (world s) rp = Some content" "disk (world s) work = Some (take init content)" "init \<le> length content"
  shows "disk (world s') = (disk (world s))(work \<mapsto> content)"
proof
  fix q
  show "disk (world s') q = ((disk (world s))(work \<mapsto> content)) q"
    using copy_down_result [OF assms(1,2,3)] assms(4,5) seenD [OF keeps_copy_down [OF assms(1), of work q] assms(2)]
    by (cases "q = work") auto
qed

text \<open>On every outcome the destination is as it was, or was absent and holds the whole content.\<close>

definition untorn :: "('w \<Rightarrow> rstring \<Rightarrow> u8 list option) \<Rightarrow> rstring \<Rightarrow> u8 list \<Rightarrow> 'w session \<Rightarrow> ('w, 'a) io \<Rightarrow> bool" where
  "untorn disk p content s m \<longleftrightarrow>
     disk (world (snd (m s))) p = disk (world s) p \<or>
     disk (world s) p = None \<and> disk (world (snd (m s))) p = Some content"

lemma untorn_keeps: "keeps (seen disk remote p) m \<Longrightarrow> untorn disk p content s m"
  unfolding untorn_def keeps_def seen_def by simp

lemma untorn_bind:
  assumes "keeps (seen disk remote p) m" and "\<And>x s1. m s = (Inr x, s1) \<Longrightarrow> untorn disk p content s1 (f x)"
  shows "untorn disk p content s (io_bind m f)"
proof -
  obtain r s1 where m: "m s = (r, s1)" by (cases "m s")
  have same: "disk (world s1) p = disk (world s) p" using seenD [OF assms(1) m] by simp
  show ?thesis
  proof (cases r)
    case (Inl e)
    then show ?thesis using m same by (simp add: untorn_def io_bind_def)
  next
    case (Inr x)
    then show ?thesis using m same assms(2) [of x s1] by (simp add: untorn_def io_bind_def)
  qed
qed

lemma untorn_publish:
  assumes "sound_disk srv disk remote" and "work \<noteq> p" and "disk (world s) work = Some content"
    and "\<And>x. keeps (seen disk remote p) (f x)" and "keeps (seen disk remote p) c"
  shows "untorn disk p content s (io_bind (on_error (finish_local_atomic srv work p) c) f)"
proof -
  obtain r s1 where m: "finish_local_atomic srv work p s = (r, s1)" by (cases "finish_local_atomic srv work p s")
  have one: "disk (world s1) p = disk (world s) p \<or> disk (world s) p = None \<and> disk (world s1) p = Some content"
    using finish_local_outcome(1) [OF assms(1,2) m] assms(3) by simp
  have "disk (world (snd (io_bind (on_error (finish_local_atomic srv work p) c) f s))) p = disk (world s1) p"
  proof (cases r)
    case (Inl e)
    then show ?thesis
      using m seenD [OF assms(5), of s1 "fst (c s1)" "snd (c s1)"] by (simp add: io_bind_def on_error_def)
  next
    case (Inr x)
    then show ?thesis
      using m seenD [OF assms(4), of x s1 "fst (f x s1)" "snd (f x s1)"] by (simp add: io_bind_def on_error_def)
  qed
  with one show ?thesis by (simp add: untorn_def)
qed

lemma fetch_untorn:
  assumes "sound_disk srv disk remote" and "work \<noteq> p" and "remote (world s) rp = Some content"
    and "disk (world s) work = Some (take offset content)" and "offset \<le> length content"
  shows "untorn disk p content s (fetch_and_publish fuel srv opt rp work p offset mtime)"
  unfolding fetch_and_publish_def
proof (rule untorn_bind [where remote = remote])
  show "keeps (seen disk remote p) (on_error (copy_down fuel srv opt rp work offset 0) (drop_fresh_staging srv opt work))"
    using assms(1,2) by (intro keeps_on_error keeps_copy_down keeps_drop_staging)
  fix copied s1
  assume "on_error (copy_down fuel srv opt rp work offset 0) (drop_fresh_staging srv opt work) s = (Inr copied, s1)"
  then have copy: "copy_down fuel srv opt rp work offset 0 s = (Inr copied, s1)" by (simp add: on_error_ok)
  show "untorn disk p content s1 (case copied of None \<Rightarrow> ret None | Some n \<Rightarrow>
           io_bind (disk_ok srv (DSync work)) (\<lambda>_.
           io_bind (preserve_local_mtime srv work mtime) (\<lambda>_.
           io_bind (on_error (finish_local_atomic srv work p) (drop_fresh_staging srv opt work)) (\<lambda>_. ret (Some n)))))"
  proof (cases copied)
    case None
    then show ?thesis by (simp add: untorn_keeps keeps_pure)
  next
    case (Some n)
    have full: "disk (world s1) work = Some content"
      using copy_down_disk [OF assms(1) copy [unfolded Some] assms(3-5)] by simp
    show ?thesis
      unfolding Some option.case
    proof (rule untorn_bind [where remote = remote], goal_cases)
      case 1
      show ?case using assms(1) by (intro keeps_seen_ok) simp_all
    next
      case (2 u s2)
      have w2: "disk (world s2) work = Some content"
        using full seenD [OF keeps_seen_ok [OF assms(1), of work "OnDisk (DSync work)"] 2] by simp
      show ?case
      proof (rule untorn_bind [where remote = remote], goal_cases)
        case 1
        show ?case by (rule keeps_local_mtime [OF assms(1)])
      next
        case (2 u s3)
        have "disk (world s3) work = Some content"
          using w2 seenD [OF keeps_local_mtime [OF assms(1), of work] 2] by simp
        then show ?case
          using assms(1,2) by (intro untorn_publish [where remote = remote] keeps_pure keeps_drop_staging)
      qed
    qed
  qed
qed

lemma fetch_result:
  assumes "sound_disk srv disk remote" and "work \<noteq> p" and "remote (world s) rp = Some content"
    and "disk (world s) work = Some (take offset content)" and "offset \<le> length content"
    and "fetch_and_publish fuel srv opt rp work p offset mtime s = (Inr (Some n), s')"
  shows "disk (world s) p = None \<and> disk (world s') = (disk (world s))(p \<mapsto> content, work := None)"
proof -
  obtain s1 s2 s3 where copy: "copy_down fuel srv opt rp work offset 0 s = (Inr (Some n), s1)"
    and sync: "disk_ok srv (DSync work) s1 = (Inr (), s2)"
    and time: "preserve_local_mtime srv work mtime s2 = (Inr (), s3)"
    and fin: "finish_local_atomic srv work p s3 = (Inr (), s')"
    using assms(6)
    by (auto simp: fetch_and_publish_def io_bind_ok on_error_ok ret_ok split: option.splits)
  have "disk (world s1) = (disk (world s))(work \<mapsto> content)" by (rule copy_down_disk [OF assms(1) copy assms(3-5)])
  moreover have "disk (world s2) = disk (world s1)"
    by (rule seen_all(2) [OF keeps_seen_ok [OF assms(1)] sync]) simp
  moreover have "disk (world s3) = disk (world s2)" by (rule seen_all(2) [OF keeps_local_mtime [OF assms(1)] time])
  ultimately show ?thesis using finish_local_outcome(2) [OF assms(1,2) fin] assms(2) by (auto simp: fun_upd_twist)
qed

subsection \<open>Atomic downloads\<close>

lemma source_result:
  assumes "sound_disk srv disk remote" and "remote_source srv rp s = (Inr a, s')"
    and "remote (world s) rp = Some content"
  shows "attr_len a = length content"
proof -
  obtain s1 where stat: "symlink_metadata srv rp s = (Inr a, s1)" and "at_type a = File"
    using assms(2) by (auto simp: remote_source_def io_simps)
  moreover obtain w where "srv (LStat rp) (world s) = (RAttrs a, w)"
    using stat by (auto simp: symlink_metadata_def request_def io_simps split: prod.splits sftp_resp.splits)
  ultimately obtain c where "remote (world s) rp = Some c" "length c < 2 ^ 64" "at_size a = Some (of_nat (length c))"
    using sound_diskD(14) [OF assms(1)] by blast
  then show ?thesis using assms(3) by (simp add: attr_len_def unat_of_nat)
qed

lemma local_offset_result:
  assumes "sound_disk srv disk remote" and "disk_stat srv work s = (Inr m, s')"
    and "staging_offset opt work (length content) m = Inr offset"
    and "resume opt \<longrightarrow> staged_prefix disk (world s) work content"
  shows "offset \<le> length content \<and> (m = None \<longrightarrow> offset = 0) \<and>
    (m \<noteq> None \<longrightarrow> disk (world s) work = Some (take offset content))"
proof (cases m)
  case None
  then show ?thesis using assms(3) by (simp add: staging_offset_def)
next
  case (Some a)
  then have f: "at_type a = File" "attr_len a \<le> length content" "offset = attr_len a" "resume opt"
    using assms(3) by (auto simp: staging_offset_def split: if_splits)
  obtain c where c: "disk (world s) work = Some c" "length c < 2 ^ 64" "at_size a = Some (of_nat (length c))"
    using disk_stat_run [OF assms(2)] Some sound_diskD(6) [OF assms(1) _ f(1)] by fastforce
  have "offset = length c" using f(3) c(2,3) by (simp add: attr_len_def unat_of_nat)
  moreover have "c = take (length c) content" using assms(4) c(1) f(4) by (auto simp: staged_prefix_def prefix_def)
  ultimately show ?thesis using f c(1) Some by simp
qed

lemma open_staging_result:
  assumes "sound_disk srv disk remote" and "open_atomic_staging srv work existing s = (Inr u, s')"
    and "\<not> existing \<Longrightarrow> start = []" and "existing \<Longrightarrow> disk (world s) work = Some start"
  shows "disk (world s') = (disk (world s))(work \<mapsto> start) \<and> remote (world s') = remote (world s)"
proof -
  have same: "disk (world s') q = disk (world s) q" "remote (world s') = remote (world s)" if "q \<noteq> work" for q
    using seenD [OF keeps_open_staging [OF assms(1), of work q existing] assms(2)] that by auto
  have "disk (world s') work = Some start"
    using assms(2-4) sound_diskD(2,8) [OF assms(1)]
    by (cases existing) (auto simp: open_atomic_staging_def ok_request_run)
  then show ?thesis using same same(2) [of "work @ [0]"] by auto
qed

text \<open>What is known when the preparation is over.\<close>

definition ready ::
  "('w \<Rightarrow> rstring \<Rightarrow> u8 list option) \<Rightarrow> ('w \<Rightarrow> rstring \<Rightarrow> u8 list option) \<Rightarrow> rstring \<Rightarrow> rstring \<Rightarrow> u8 list \<Rightarrow>
   FileAttributes \<times> bool \<times> nat \<Rightarrow> 'w \<Rightarrow> bool" where
  "ready disk remote rp work content prepared w \<longleftrightarrow>
     (let (a, staged, offset) = prepared in
      remote w rp = Some content \<and> attr_len a = length content \<and> offset \<le> length content \<and>
      (if staged then disk w work = Some (take offset content) else offset = 0))"

lemma prepare_keeps:
  "sound_disk srv disk remote \<Longrightarrow> keeps (seen disk remote q) (prepare_download srv opt nonce rp p)"
  unfolding prepare_download_def Let_def
  by (intro keeps_rules keeps_remote_source keeps_ensure_local_parent keeps_destination_absent keeps_disk_stat)

lemma prepare_result:
  assumes h: "sound_disk srv disk remote" and c: "remote (world s) rp = Some content"
    and staged: "resume opt \<longrightarrow> staged_prefix disk (world s) (local_staging_path opt nonce p) content"
    and run: "prepare_download srv opt nonce rp p s = (Inr prepared, s1)"
  shows "ready disk remote rp (local_staging_path opt nonce p) content prepared (world s1)"
proof -
  let ?work = "local_staging_path opt nonce p"
  obtain a m offset t1 t2 t3 where r: "remote_source srv rp s = (Inr a, t1)" "ensure_local_parent srv p t1 = (Inr (), t2)"
      "ensure_atomic_destination_absent srv p t2 = (Inr (), t3)" "disk_stat srv ?work t3 = (Inr m, s1)"
      "staging_offset opt ?work (attr_len a) m = Inr offset" and prepared: "prepared = (a, m \<noteq> None, offset)"
    using run by (auto simp: prepare_download_def Let_def io_bind_ok lift_ok ret_ok check_cancelled_def split: if_splits)
  have len: "attr_len a = length content" by (rule source_result [OF h r(1) c])
  have d: "disk (world t3) = disk (world s)"
    using seen_all(2) [OF keeps_remote_source [OF h] r(1)] seen_all(2) [OF keeps_ensure_local_parent [OF h] r(2)]
      seen_all(2) [OF keeps_destination_absent [OF h] r(3)] by simp
  have "resume opt \<longrightarrow> staged_prefix disk (world t3) ?work content" using staged d by (simp add: staged_prefix_def)
  note off = local_offset_result [OF h r(4) r(5) [unfolded len] this]
  show ?thesis
    using off len c seen_all [OF prepare_keeps [OF h] run] d by (auto simp: ready_def prepared)
qed

lemma mtime_world: "sound_disk srv disk remote \<Longrightarrow> preserve_local_mtime srv q m s = (r, s') \<Longrightarrow>
    disk (world s') = disk (world s)"
  by (rule seen_all(2) [OF keeps_local_mtime])

lemma staging_opened:
  assumes h: "sound_disk srv disk remote" and "ready disk remote rp work content (a, staged, offset) (world s)"
    and r: "ok_request srv (OpenFile rp [READ]) s = (Inr (), t1)" "open_atomic_staging srv work staged t1 = (Inr (), t2)"
  shows "disk (world t2) = (disk (world s))(work \<mapsto> take offset content) \<and> remote (world t2) rp = Some content \<and>
    offset \<le> length content"
proof -
  have "disk (world t1) = disk (world s)" "remote (world t1) = remote (world s)"
    by (rule seen_all [OF keeps_seen_ok [OF h] r(1)], simp)+
  then show ?thesis
    using open_staging_result [OF h r(2), of "take offset content"] assms(2) by (auto simp: ready_def split: if_splits)
qed

lemma complete_untorn:
  assumes h: "sound_disk srv disk remote" and "work \<noteq> p" and ready: "ready disk remote rp work content prepared (world s)"
  shows "untorn disk p content s (complete_download fuel srv opt rp work p prepared)"
proof -
  obtain a staged offset where p: "prepared = (a, staged, offset)" by (cases prepared)
  have silent: "on_error (finish_local_atomic srv work p) (ret ()) = finish_local_atomic srv work p"
    by (rule ext) (auto simp: on_error_def ret_def split: prod.splits sum.splits)
  show ?thesis
  proof (cases "resume opt \<and> offset = attr_len a \<and> attr_len a \<noteq> 0")
    case True
    then have full: "disk (world s) work = Some content" using ready by (auto simp: ready_def p split: if_splits)
    have "untorn disk p content s (io_bind (preserve_local_mtime srv work (at_mtime a)) (\<lambda>_.
        io_bind (on_error (finish_local_atomic srv work p) (ret ())) (\<lambda>_. ret (Some 0))))"
      using h full mtime_world [OF h] assms(2)
      by (intro untorn_bind [where remote = remote] untorn_publish [where remote = remote] keeps_local_mtime keeps_pure) simp_all
    then show ?thesis using True by (simp add: complete_download_def p silent)
  next
    case False
    then show ?thesis
      unfolding complete_download_def p Let_def prod.case if_not_P [OF False]
      using h assms(2) staging_opened [OF h ready [unfolded p]]
      by (intro untorn_bind [where remote = remote] fetch_untorn [where remote = remote] keeps_seen_ok keeps_open_staging) auto
  qed
qed

lemma complete_result:
  assumes h: "sound_disk srv disk remote" and ne: "work \<noteq> p" and ready: "ready disk remote rp work content prepared (world s)"
    and run: "complete_download fuel srv opt rp work p prepared s = (Inr (Some n), s')"
  shows "disk (world s) p = None \<and> disk (world s') = (disk (world s))(p \<mapsto> content, work := None)"
proof -
  obtain a staged offset where p: "prepared = (a, staged, offset)" by (cases prepared)
  show ?thesis
  proof (cases "resume opt \<and> offset = attr_len a \<and> attr_len a \<noteq> 0")
    case True
    then have full: "disk (world s) work = Some content" using ready by (auto simp: ready_def p split: if_splits)
    obtain t where t: "preserve_local_mtime srv work (at_mtime a) s = (Inr (), t)" "finish_local_atomic srv work p t = (Inr (), s')"
      using run True by (auto simp: complete_download_def p io_bind_ok ret_ok)
    show ?thesis using finish_local_outcome(2) [OF h ne t(2) refl] mtime_world [OF h t(1)] full by simp
  next
    case False
    then obtain t1 t2 where r: "ok_request srv (OpenFile rp [READ]) s = (Inr (), t1)"
        "open_atomic_staging srv work staged t1 = (Inr (), t2)"
        "fetch_and_publish fuel srv opt rp work p offset (at_mtime a) t2 = (Inr (Some n), s')"
      using run unfolding complete_download_def p Let_def prod.case if_not_P [OF False] by (auto simp: io_bind_ok)
    note st = staging_opened [OF h ready [unfolded p] r(1,2)]
    have "disk (world t2) p = None \<and> disk (world s') = (disk (world t2))(p \<mapsto> content, work := None)"
      using fetch_result [OF h ne, of t2 rp content offset] st r(3) by simp
    then show ?thesis using st ne by (auto simp: fun_upd_twist)
  qed
qed

lemma download_atomic_run:
  assumes h: "sound_disk srv disk remote" and c: "remote (world s) rp = Some content"
    and staged: "resume opt \<longrightarrow> staged_prefix disk (world s) (local_staging_path opt nonce p) content"
  shows "untorn disk p content s (download_file_atomic fuel srv opt nonce rp p)"
    and "download_file_atomic fuel srv opt nonce rp p s = (Inr (Some n), s') \<Longrightarrow>
      disk (world s) p = None \<and>
      disk (world s') = (disk (world s))(p \<mapsto> content, local_staging_path opt nonce p := None)"
proof -
  note ready = prepare_result [OF h c staged]
  show "untorn disk p content s (download_file_atomic fuel srv opt nonce rp p)"
    unfolding download_file_atomic_def
    by (rule untorn_bind [OF prepare_keeps [OF h]]) (rule complete_untorn [OF h local_staging_differs ready])
  assume "download_file_atomic fuel srv opt nonce rp p s = (Inr (Some n), s')"
  then obtain prepared s1 where r: "prepare_download srv opt nonce rp p s = (Inr prepared, s1)"
      "complete_download fuel srv opt rp (local_staging_path opt nonce p) p prepared s1 = (Inr (Some n), s')"
    unfolding download_file_atomic_def io_bind_ok by blast
  from complete_result [OF h local_staging_differs ready [OF r(1)] r(2)] seen_all(2) [OF prepare_keeps [OF h] r(1)]
  show "disk (world s) p = None \<and>
      disk (world s') = (disk (world s))(p \<mapsto> content, local_staging_path opt nonce p := None)" by simp
qed

text \<open>
  C6. Atomic downloads are all or nothing, on every outcome: success, any error, cancellation at any time. On
  a disk and a server that behave, the destination is as it was before, or it was absent and now holds the
  whole file of the server; an existing file is never replaced. A download that succeeds has published the
  file, its staging file is gone and the content of no other file has changed (directories above the
  destination may have been made). A download that resumes takes its staging file for an initial part of
  the server's file, of which it compares only the length: for \<open>resume\<close> that it is one is a hypothesis.
\<close>

theorem atomic_download_all_or_nothing:
  assumes "sound_disk srv disk remote" and "atomic opt" and "remote (world s) rp = Some content"
    and "resume opt \<longrightarrow> staged_prefix disk (world s) (local_staging_path opt nonce p) content"
    and "download_file fuel srv opt nonce rp p s = (r, s')"
  shows "(disk (world s') p = disk (world s) p \<or> disk (world s) p = None \<and> disk (world s') p = Some content) \<and>
    (\<forall>n. r = Inr (Some n) \<longrightarrow> disk (world s) p = None \<and>
       disk (world s') = (disk (world s))(p \<mapsto> content, local_staging_path opt nonce p := None))"
proof (cases "transfer_options_validated opt")
  case (Inl e)
  then have "s' = s" "r = Inl e" using assms(5) by (auto simp: download_file_def io_bind_def lift_result_def)
  then show ?thesis by simp
next
  case (Inr u)
  then have "download_file_atomic fuel srv opt nonce rp p s = (r, s')"
    using assms(2,5) by (simp add: download_file_def io_bind_def lift_result_def)
  with download_atomic_run [OF assms(1,3,4), where fuel = fuel] show ?thesis by (auto simp: untorn_def)
qed

text \<open>
  For every server and every disk, whatever they answer: an atomic download only reads from the server;
  on the disk it creates directories above the destination, creates or goes on with its own staging file,
  links it to the destination and removes it. The destination is never opened, truncated, renamed or removed.
\<close>

theorem atomic_download_requests:
  assumes "atomic opt" and "download_file fuel srv opt nonce rp p s = (r, s')"
  shows "\<exists>new. sent s' = sent s @ new \<and> list_all (download_request (local_staging_path opt nonce p) p) new \<and>
    local_staging_path opt nonce p \<noteq> p"
  using download_file_emits [OF assms(1)] assms(2) local_staging_differs unfolding emits_def by (metis snd_conv)

subsection \<open>A small disk and server\<close>

type_synonym files = "rstring \<Rightarrow> u8 list option"

definition file_status :: "u8 list option \<Rightarrow> sftp_resp" where
  "file_status c = (case c of
     None \<Rightarrow> RNoSuchFile
   | Some d \<Rightarrow> if length d < 2 ^ 64 then RAttrs ((sample_attrs File)\<lparr>at_size := Some (of_nat (length d))\<rparr>) else RFailed)"

fun disk_answer :: "disk_req \<Rightarrow> files \<Rightarrow> sftp_resp \<times> files" where
  "disk_answer (DStat p) l = (file_status (l p), l)"
| "disk_answer (DCreateNew p) l = (if l p = None then (ROk, l(p \<mapsto> [])) else (RExists, l))"
| "disk_answer (DWriteAt p off c) l =
     (case l p of Some d \<Rightarrow> (ROk, l(p \<mapsto> take off d @ c @ drop (off + length c) d)) | None \<Rightarrow> (RFailed, l))"
| "disk_answer (DHardLink p q) l = (if l q = None then (ROk, l(q := l p)) else (RExists, l))"
| "disk_answer (DRemove p) l = (ROk, l(p := None))"
| "disk_answer (DOpenNoFollow p t) l = (RFailed, l)"
| "disk_answer (DRename p q) l = (RFailed, l)"
| "disk_answer _ l = (ROk, l)"

fun file_env :: "(files \<times> files) server" where
  "file_env (OnDisk d) w = (case disk_answer d (fst w) of (r, l) \<Rightarrow> (r, (l, snd w)))"
| "file_env (LStat p) w = (file_status (snd w p), w)"
| "file_env (ReadAt p off) w = (case snd w p of Some c \<Rightarrow> RData (drop off c) | None \<Rightarrow> RFailed, w)"
| "file_env q w = (ROk, w)"

lemma file_status_attrs:
  "file_status c = RAttrs a \<Longrightarrow> \<exists>d. c = Some d \<and> length d < 2 ^ 64 \<and> at_size a = Some (of_nat (length d))"
  "file_status c = RNoSuchFile \<Longrightarrow> c = None"
  by (auto simp: file_status_def split: option.splits if_splits)

lemma disk_answer_frame: "disk_answer d l = (r, l') \<Longrightarrow> p \<notin> touches d \<Longrightarrow> l' p = l p"
  by (cases d) (auto split: if_splits option.splits)

lemma file_env_reads: "file_env q w = (r, w') \<Longrightarrow> read_only q \<Longrightarrow> w' = w"
  by (cases q) (auto split: prod.splits elim!: disk_read_only.elims)

lemma file_env_sound: "sound_disk file_env fst snd"
  unfolding sound_disk_def
proof (intro conjI allI impI)
  fix q w r w'
  assume "file_env q w = (r, w')" "read_only q"
  then show "snd w' = snd w" "fst w' = fst w" using file_env_reads [of q w r w'] by simp_all
qed (auto split: prod.splits option.splits if_splits dest: disk_answer_frame file_status_attrs)

theorem atomic_download_all_or_nothing_witness:
  "fst (world (snd (download_file 3 file_env transfer_options_default (lit ''1'') (lit ''/x'') (lit ''f'')
      \<lparr>world = (\<lambda>_. None, [lit ''/x'' \<mapsto> [1, 2, 3]]), sent = []\<rparr>))) = [lit ''f'' \<mapsto> [1, 2, 3]]"
proof -
  let ?s = "\<lparr>world = (\<lambda>_. None, [lit ''/x'' \<mapsto> [1, 2, 3]]), sent = []\<rparr>"
  let ?run = "download_file 3 file_env transfer_options_default (lit ''1'') (lit ''/x'') (lit ''f'') ?s"
  have "fst ?run = Inr (Some 3)" by code_simp
  then have run: "?run = (Inr (Some 3), snd ?run)" by (metis prod.collapse)
  have "atomic transfer_options_default" by (simp add: transfer_options_default_def)
  note all = atomic_download_all_or_nothing [OF file_env_sound this _ _ run]
  have "fst (world (snd ?run)) = (fst (world ?s))(lit ''f'' \<mapsto> [1, 2, 3],
      local_staging_path transfer_options_default (lit ''1'') (lit ''f'') := None)"
    using all by (simp add: staged_prefix_def)
  then show ?thesis using local_staging_differs [of transfer_options_default "lit ''1''" "lit ''f''"] by (simp add: fun_upd_idem)
qed

theorem atomic_download_requests_witness:
  "\<exists>new. sent (snd (download_file 3 file_env transfer_options_default [] (lit ''/x'') (lit ''f'')
      \<lparr>world = (\<lambda>_. None, \<lambda>_. None), sent = []\<rparr>)) = new \<and>
    list_all (download_request (lit ''f.kaduox.part.'') (lit ''f'')) new"
proof -
  have "atomic transfer_options_default" "local_staging_path transfer_options_default [] (lit ''f'') = lit ''f.kaduox.part.''"
    by code_simp+
  then show ?thesis
    using atomic_download_requests [of transfer_options_default 3 file_env "[]" "lit ''/x''" "lit ''f''"
        "\<lparr>world = (\<lambda>_. None, \<lambda>_. None), sent = []\<rparr>", OF _ prod.collapse [symmetric]] by simp
qed

end
