(* ===== verification/Transfer_Tree.thy ===== *)
theory Transfer_Tree
  imports Sync_Apply Transfer_Download
begin

section \<open>Directory trees\<close>

text \<open>
  The recursive transfers of \<open>transfer_policy.rs\<close>, \<open>transfer_download_policy.rs\<close> and \<open>transfer.rs\<close>, the link
  policy of \<open>symlink_policy.rs\<close> in front of them and of the synchronisation, and the entry points of
  \<open>client_ops.rs\<close>. Files are transferred by tasks: here a task runs to its end when it is started, its result
  waits in a queue, and the queue is collected when it has \<open>file_concurrency\<close> entries, so an error is seen
  when the code sees it. Walks have no bound in the code: the fuel counts directories, \<open>None\<close> is a walk (or
  a copy) still going on. The engine adds its counters unchecked; both agree below 2^64 entries.
\<close>

record TreeSummary =
  ts_files :: u64
  ts_directories :: u64
  ts_bytes :: u64
  ts_skipped :: u64

definition empty_summary :: TreeSummary where
  "empty_summary = \<lparr>ts_files = 0, ts_directories = 0, ts_bytes = 0, ts_skipped = 0\<rparr>"

definition single_file :: "nat \<Rightarrow> TreeSummary" where
  "single_file n = empty_summary\<lparr>ts_files := 1, ts_bytes := of_nat n\<rparr>"

definition count_one :: "u64 \<Rightarrow> sftp_error + u64" where
  "count_one n = ok_or CounterOverflow (checked_add_u64 n 1)"

definition count_skipped :: "TreeSummary \<Rightarrow> sftp_error + TreeSummary" where
  "count_skipped t = map_ok (\<lambda>n. t\<lparr>ts_skipped := n\<rparr>) (count_one (ts_skipped t))"

definition count_directory :: "TreeSummary \<Rightarrow> sftp_error + TreeSummary" where
  "count_directory t = map_ok (\<lambda>n. t\<lparr>ts_directories := n\<rparr>) (count_one (ts_directories t))"

type_synonym tree_state = "TreeSummary \<times> (sftp_error + nat) list"

fun collect_next_transfer :: "tree_state \<Rightarrow> sftp_error + tree_state" where
  "collect_next_transfer (t, []) = Inl NoTransferTask"
| "collect_next_transfer (t, r # rs) =
     and_then r (\<lambda>n.
     and_then (ok_or CounterOverflow (if n < 2 ^ 64 then checked_add_u64 (ts_bytes t) (of_nat n) else None)) (\<lambda>b.
     and_then (count_one (ts_files t)) (\<lambda>f. Inr (t\<lparr>ts_bytes := b, ts_files := f\<rparr>, rs))))"

fun drain_transfers :: "TreeSummary \<Rightarrow> (sftp_error + nat) list \<Rightarrow> sftp_error + TreeSummary" where
  "drain_transfers t [] = Inr t"
| "drain_transfers t (r # rs) = and_then (collect_next_transfer (t, [r])) (\<lambda>(t', _). drain_transfers t' rs)"

definition run_task :: "('w, nat option) io \<Rightarrow> ('w, (sftp_error + nat) option) io" where
  "run_task m s = (case m s of
     (Inl e, s') \<Rightarrow> (Inr (Some (Inl e)), s')
   | (Inr None, s') \<Rightarrow> (Inr None, s')
   | (Inr (Some n), s') \<Rightarrow> (Inr (Some (Inr n)), s'))"

definition spawn_transfer :: "TransferOptions \<Rightarrow> ('w, nat option) io \<Rightarrow> tree_state \<Rightarrow> ('w, tree_state option) io" where
  "spawn_transfer opt m st =
     io_bind (lift_result (if file_concurrency opt \<le> length (snd st) then collect_next_transfer st else Inr st)) (\<lambda>(t, rs).
     io_bind (run_task m) (\<lambda>r. ret (map_option (\<lambda>x. (t, rs @ [x])) r)))"

text \<open>Go on with the rest unless the walk is still going on.\<close>

definition opt_bind :: "('w, 'a option) io \<Rightarrow> ('a \<Rightarrow> ('w, 'b option) io) \<Rightarrow> ('w, 'b option) io" where
  "opt_bind m f = io_bind m (\<lambda>x. case x of None \<Rightarrow> ret None | Some y \<Rightarrow> f y)"

subsection \<open>Uploads\<close>

type_synonym 'w file_upload = "rstring \<Rightarrow> rstring \<Rightarrow> ('w, nat) io"

fun upload_entries ::
  "'w server \<Rightarrow> TransferOptions \<Rightarrow> 'w file_upload \<Rightarrow> rstring \<Rightarrow> rstring \<Rightarrow> (rstring option \<times> local_type) list \<Rightarrow>
   tree_state \<Rightarrow> (rstring \<times> rstring) list \<Rightarrow> ('w, (tree_state \<times> (rstring \<times> rstring) list) option) io" where
  "upload_entries srv opt up local_dir remote_dir [] st stack = ret (Some (st, stack))"
| "upload_entries srv opt up local_dir remote_dir ((name, kind) # rest) st stack =
     io_bind (check_cancelled opt) (\<lambda>_.
       if local_entry kind = None then
         io_bind (lift_result (count_skipped (fst st))) (\<lambda>t.
           upload_entries srv opt up local_dir remote_dir rest (t, snd st) stack)
       else
         io_bind (lift_result (ok_or (LocalFailed local_dir) name)) (\<lambda>file_name.
         io_bind (lift_result (map_err UnsafePath (validate_remote_child_name file_name))) (\<lambda>_.
         io_bind (lift_result (map_err UnsafePath (join_remote_under_root remote_dir file_name))) (\<lambda>remote_path.
           let local_path = path_push local_dir file_name in
           case kind of
             LtDirectory _ \<Rightarrow>
               io_bind (ensure_remote_dir srv remote_path) (\<lambda>_.
               io_bind (lift_result (count_directory (fst st))) (\<lambda>t.
                 upload_entries srv opt up local_dir remote_dir rest (t, snd st) ((local_path, remote_path) # stack)))
           | _ \<Rightarrow>
               opt_bind (spawn_transfer opt (io_bind (up local_path remote_path) (\<lambda>n. ret (Some n))) st) (\<lambda>st'.
                 upload_entries srv opt up local_dir remote_dir rest st' stack)))))"

fun upload_walk ::
  "nat \<Rightarrow> 'w server \<Rightarrow> local_dirs \<Rightarrow> TransferOptions \<Rightarrow> 'w file_upload \<Rightarrow> tree_state \<Rightarrow> (rstring \<times> rstring) list \<Rightarrow>
   ('w, TreeSummary option) io" where
  "upload_walk fuel srv dirs opt up st [] = io_bind (lift_result (drain_transfers (fst st) (snd st))) (\<lambda>t. ret (Some t))"
| "upload_walk fuel srv dirs opt up st ((local_dir, remote_dir) # ds) =
     (if fuel = 0 then ret None
      else
        io_bind (check_cancelled opt) (\<lambda>_.
        io_bind (lift_result (ok_or (LocalFailed local_dir) (dirs local_dir))) (\<lambda>es.
        opt_bind (upload_entries srv opt up local_dir remote_dir es st ds) (\<lambda>(st', ds').
          upload_walk (fuel - 1) srv dirs opt up st' ds'))))"

definition upload_tree_from ::
  "nat \<Rightarrow> 'w server \<Rightarrow> LocalFs \<Rightarrow> local_dirs \<Rightarrow> TransferOptions \<Rightarrow> 'w file_upload \<Rightarrow> rstring \<Rightarrow> rstring \<Rightarrow>
   ('w, TreeSummary option) io" where
  "upload_tree_from fuel srv l dirs opt up local_root remote_root =
     io_bind (check_cancelled opt) (\<lambda>_.
       case lf_stat l local_root of
         LocalMissing \<Rightarrow> raise (LocalFailed local_root)
       | LocalLinkNode \<Rightarrow> raise (LocalLink local_root)
       | LocalFile _ _ \<Rightarrow> io_bind (up local_root remote_root) (\<lambda>n. ret (Some (single_file n)))
       | LocalDirectory \<Rightarrow>
           io_bind (ensure_remote_dir srv remote_root) (\<lambda>_.
             upload_walk fuel srv dirs opt up (empty_summary\<lparr>ts_directories := 1\<rparr>, []) [(local_root, remote_root)])
       | LocalOther \<Rightarrow> raise (LocalNotFile local_root))"

definition engine_upload_tree ::
  "nat \<Rightarrow> 'w server \<Rightarrow> LocalFs \<Rightarrow> local_dirs \<Rightarrow> TransferOptions \<Rightarrow> rstring \<Rightarrow> rstring \<Rightarrow> ('w, TreeSummary option) io" where
  "engine_upload_tree fuel srv l dirs opt local_root remote_root =
     io_bind (lift_result (transfer_options_validated opt)) (\<lambda>_.
       upload_tree_from fuel srv l dirs opt (engine_upload_file srv l opt) local_root remote_root)"

definition upload_tree ::
  "nat \<Rightarrow> 'w server \<Rightarrow> LocalFs \<Rightarrow> local_dirs \<Rightarrow> TransferOptions \<Rightarrow> (rstring \<Rightarrow> rstring) \<Rightarrow> rstring \<Rightarrow> rstring \<Rightarrow>
   ('w, TreeSummary option) io" where
  "upload_tree fuel srv l dirs opt nonce local_root remote_root =
     io_bind (lift_result (transfer_options_validated opt)) (\<lambda>_.
       if \<not> atomic opt then engine_upload_tree fuel srv l dirs opt local_root remote_root
       else upload_tree_from fuel srv l dirs opt (\<lambda>lp rp. upload_file srv l opt (nonce rp) lp rp) local_root remote_root)"

subsection \<open>Downloads\<close>

type_synonym 'w file_download = "rstring \<Rightarrow> rstring \<Rightarrow> ('w, nat option) io"

text \<open>The names of one listing entry on both sides, after the checks.\<close>

definition download_names :: "rstring \<Rightarrow> rstring \<Rightarrow> rstring \<Rightarrow> sftp_error + rstring \<times> rstring" where
  "download_names remote_dir local_dir name =
     and_then (map_err UnsafePath (validate_remote_child_name name)) (\<lambda>_.
     and_then (map_err UnsafePath (join_remote_under_root remote_dir name)) (\<lambda>remote_path.
     and_then (map_err UnsafePath (local_path_from_remote_relative name)) (\<lambda>local_relative.
       Inr (remote_path, path_push local_dir local_relative))))"

definition transferable :: "RemoteFileType \<Rightarrow> bool" where
  "transferable t \<longleftrightarrow> t = Directory \<or> t = File"

fun download_entries ::
  "'w server \<Rightarrow> TransferOptions \<Rightarrow> 'w file_download \<Rightarrow> rstring \<Rightarrow> rstring \<Rightarrow> (rstring \<times> FileAttributes) list \<Rightarrow>
   tree_state \<Rightarrow> (rstring \<times> rstring) list \<Rightarrow> ('w, (tree_state \<times> (rstring \<times> rstring) list) option) io" where
  "download_entries srv opt down remote_dir local_dir [] st stack = ret (Some (st, stack))"
| "download_entries srv opt down remote_dir local_dir ((name, a) # rest) st stack =
     io_bind (check_cancelled opt) (\<lambda>_.
       if \<not> transferable (at_type a) then
         io_bind (lift_result (count_skipped (fst st))) (\<lambda>t.
           download_entries srv opt down remote_dir local_dir rest (t, snd st) stack)
       else if name = lit ''.'' \<or> name = lit ''..'' then
         download_entries srv opt down remote_dir local_dir rest st stack
       else
         io_bind (lift_result (download_names remote_dir local_dir name)) (\<lambda>(remote_path, local_path).
           if at_type a = Directory then
             io_bind (ensure_local_directory_no_links srv local_path) (\<lambda>_.
             io_bind (lift_result (count_directory (fst st))) (\<lambda>t.
               download_entries srv opt down remote_dir local_dir rest (t, snd st) ((remote_path, local_path) # stack)))
           else
             opt_bind (spawn_transfer opt (down remote_path local_path) st) (\<lambda>st'.
               download_entries srv opt down remote_dir local_dir rest st' stack)))"

fun download_walk ::
  "nat \<Rightarrow> 'w server \<Rightarrow> TransferOptions \<Rightarrow> 'w file_download \<Rightarrow> tree_state \<Rightarrow> (rstring \<times> rstring) list \<Rightarrow>
   ('w, TreeSummary option) io" where
  "download_walk fuel srv opt down st [] = io_bind (lift_result (drain_transfers (fst st) (snd st))) (\<lambda>t. ret (Some t))"
| "download_walk fuel srv opt down st ((remote_dir, local_dir) # ds) =
     (if fuel = 0 then ret None
      else
        io_bind (check_cancelled opt) (\<lambda>_.
        io_bind (read_dir srv remote_dir) (\<lambda>es.
        opt_bind (download_entries srv opt down remote_dir local_dir es st ds) (\<lambda>(st', ds').
          download_walk (fuel - 1) srv opt down st' ds'))))"

fun preflight_entries ::
  "'w server \<Rightarrow> TransferOptions \<Rightarrow> rstring \<Rightarrow> rstring \<Rightarrow> (rstring \<times> FileAttributes) list \<Rightarrow> (rstring \<times> rstring) list \<Rightarrow>
   ('w, (rstring \<times> rstring) list) io" where
  "preflight_entries srv opt remote_dir local_dir [] stack = ret stack"
| "preflight_entries srv opt remote_dir local_dir ((name, a) # rest) stack =
     io_bind (check_cancelled opt) (\<lambda>_.
       if \<not> transferable (at_type a) \<or> name = lit ''.'' \<or> name = lit ''..'' then
         preflight_entries srv opt remote_dir local_dir rest stack
       else
         io_bind (lift_result (download_names remote_dir local_dir name)) (\<lambda>(remote_path, local_path).
           if at_type a = Directory then
             io_bind (preflight_local_directory srv local_path) (\<lambda>_.
               preflight_entries srv opt remote_dir local_dir rest ((remote_path, local_path) # stack))
           else
             io_bind (preflight_atomic_file_destination srv local_path) (\<lambda>_.
               preflight_entries srv opt remote_dir local_dir rest stack)))"

fun preflight_walk ::
  "nat \<Rightarrow> 'w server \<Rightarrow> TransferOptions \<Rightarrow> (rstring \<times> rstring) list \<Rightarrow> ('w, unit option) io" where
  "preflight_walk fuel srv opt [] = ret (Some ())"
| "preflight_walk fuel srv opt ((remote_dir, local_dir) # ds) =
     (if fuel = 0 then ret None
      else
        io_bind (check_cancelled opt) (\<lambda>_.
        io_bind (read_dir srv remote_dir) (\<lambda>es.
        io_bind (preflight_entries srv opt remote_dir local_dir es ds) (\<lambda>ds'.
          preflight_walk (fuel - 1) srv opt ds'))))"

definition preflight_atomic_download_tree ::
  "nat \<Rightarrow> 'w server \<Rightarrow> TransferOptions \<Rightarrow> rstring \<Rightarrow> rstring \<Rightarrow> ('w, unit option) io" where
  "preflight_atomic_download_tree fuel srv opt remote_root local_root =
     io_bind (preflight_local_directory srv local_root) (\<lambda>_. preflight_walk fuel srv opt [(remote_root, local_root)])"

text \<open>Everything an atomic recursive download does before it changes the disk: the status of its root, and the preflight.\<close>

datatype download_root = SingleFile | Directories

definition download_root_kind :: "'w server \<Rightarrow> rstring \<Rightarrow> ('w, download_root) io" where
  "download_root_kind srv remote_root =
     io_bind (symlink_metadata srv remote_root) (\<lambda>a.
     io_bind (bail_if (at_type a = Symlink) (LinkRefused remote_root)) (\<lambda>_.
       if at_type a = File then ret SingleFile
       else io_bind (bail_if (at_type a \<noteq> Directory) (NotRegularFile remote_root)) (\<lambda>_. ret Directories)))"

definition atomic_download_checks ::
  "nat \<Rightarrow> 'w server \<Rightarrow> TransferOptions \<Rightarrow> rstring \<Rightarrow> rstring \<Rightarrow> ('w, download_root option) io" where
  "atomic_download_checks fuel srv opt remote_root local_root =
     io_bind (check_cancelled opt) (\<lambda>_.
     io_bind (download_root_kind srv remote_root) (\<lambda>k.
       case k of
         SingleFile \<Rightarrow> ret (Some SingleFile)
       | Directories \<Rightarrow> opt_bind (preflight_atomic_download_tree fuel srv opt remote_root local_root) (\<lambda>_. ret (Some Directories))))"

definition atomic_download_tree ::
  "nat \<Rightarrow> 'w server \<Rightarrow> TransferOptions \<Rightarrow> (rstring \<Rightarrow> rstring) \<Rightarrow> rstring \<Rightarrow> rstring \<Rightarrow> ('w, TreeSummary option) io" where
  "atomic_download_tree fuel srv opt nonce remote_root local_root =
     (let down = (\<lambda>rp lp. download_file fuel srv opt (nonce lp) rp lp) in
      opt_bind (atomic_download_checks fuel srv opt remote_root local_root) (\<lambda>k.
        case k of
          SingleFile \<Rightarrow> opt_bind (down remote_root local_root) (\<lambda>n. ret (Some (single_file n)))
        | Directories \<Rightarrow>
            io_bind (ensure_local_directory_no_links srv local_root) (\<lambda>_.
              download_walk fuel srv opt down (empty_summary\<lparr>ts_directories := 1\<rparr>, []) [(remote_root, local_root)])))"

text \<open>
  The engine limits the depth and downloads one of several names that a local file system may take for the
  same, by Unicode normalisation and case (\<open>norm\<close>, of a library).
\<close>

definition MAX_DOWNLOAD_DEPTH :: nat where "MAX_DOWNLOAD_DEPTH = 32"

fun engine_entries ::
  "'w server \<Rightarrow> TransferOptions \<Rightarrow> (rstring \<Rightarrow> rstring) \<Rightarrow> 'w file_download \<Rightarrow> rstring \<Rightarrow> rstring \<Rightarrow> nat \<Rightarrow>
   (rstring \<times> FileAttributes) list \<Rightarrow> (rstring \<times> rstring) set \<Rightarrow> tree_state \<Rightarrow> (rstring \<times> rstring \<times> nat) list \<Rightarrow>
   ('w, ((rstring \<times> rstring) set \<times> tree_state \<times> (rstring \<times> rstring \<times> nat) list) option) io" where
  "engine_entries srv opt norm down remote_dir local_dir depth [] seen_names st stack = ret (Some (seen_names, st, stack))"
| "engine_entries srv opt norm down remote_dir local_dir depth ((name, a) # rest) seen_names st stack =
     io_bind (check_cancelled opt) (\<lambda>_.
       if \<not> transferable (at_type a) then
         io_bind (lift_result (count_skipped (fst st))) (\<lambda>t.
           engine_entries srv opt norm down remote_dir local_dir depth rest seen_names (t, snd st) stack)
       else if name = lit ''.'' \<or> name = lit ''..'' then
         engine_entries srv opt norm down remote_dir local_dir depth rest seen_names st stack
       else
         io_bind (lift_result (download_names remote_dir local_dir name)) (\<lambda>(remote_path, local_path).
           if (local_dir, norm name) \<in> seen_names then
             io_bind (lift_result (count_skipped (fst st))) (\<lambda>t.
               engine_entries srv opt norm down remote_dir local_dir depth rest seen_names (t, snd st) stack)
           else
             let seen' = insert (local_dir, norm name) seen_names in
             if at_type a = Directory then
               io_bind (ensure_local_directory_no_links srv local_path) (\<lambda>_.
               io_bind (lift_result (count_directory (fst st))) (\<lambda>t.
                 engine_entries srv opt norm down remote_dir local_dir depth rest seen' (t, snd st)
                   ((remote_path, local_path, depth + 1) # stack)))
             else
               opt_bind (spawn_transfer opt (down remote_path local_path) st) (\<lambda>st'.
                 engine_entries srv opt norm down remote_dir local_dir depth rest seen' st' stack)))"

fun engine_walk ::
  "nat \<Rightarrow> 'w server \<Rightarrow> TransferOptions \<Rightarrow> (rstring \<Rightarrow> rstring) \<Rightarrow> 'w file_download \<Rightarrow> (rstring \<times> rstring) set \<Rightarrow>
   tree_state \<Rightarrow> (rstring \<times> rstring \<times> nat) list \<Rightarrow> ('w, TreeSummary option) io" where
  "engine_walk fuel srv opt norm down seen_names st [] =
     io_bind (lift_result (drain_transfers (fst st) (snd st))) (\<lambda>t. ret (Some t))"
| "engine_walk fuel srv opt norm down seen_names st ((remote_dir, local_dir, depth) # ds) =
     (if fuel = 0 then ret None
      else
        io_bind (check_cancelled opt) (\<lambda>_.
        io_bind (bail_if (MAX_DOWNLOAD_DEPTH \<le> depth) (DepthExceeded remote_dir)) (\<lambda>_.
        io_bind (read_dir srv remote_dir) (\<lambda>es.
        opt_bind (engine_entries srv opt norm down remote_dir local_dir depth es seen_names st ds) (\<lambda>(seen', st', ds').
          engine_walk (fuel - 1) srv opt norm down seen' st' ds')))))"

definition engine_download_tree ::
  "nat \<Rightarrow> 'w server \<Rightarrow> TransferOptions \<Rightarrow> (rstring \<Rightarrow> rstring) \<Rightarrow> rstring \<Rightarrow> rstring \<Rightarrow> ('w, TreeSummary option) io" where
  "engine_download_tree fuel srv opt norm remote_root local_root =
     (let down = engine_download_file fuel srv opt in
      io_bind (lift_result (transfer_options_validated opt)) (\<lambda>_.
      io_bind (check_cancelled opt) (\<lambda>_.
      io_bind (download_root_kind srv remote_root) (\<lambda>k.
        case k of
          SingleFile \<Rightarrow> opt_bind (down remote_root local_root) (\<lambda>n. ret (Some (single_file n)))
        | Directories \<Rightarrow>
            io_bind (ensure_local_directory_no_links srv local_root) (\<lambda>_.
              engine_walk fuel srv opt norm down {} (empty_summary\<lparr>ts_directories := 1\<rparr>, [])
                [(remote_root, local_root, 0)])))))"

definition download_tree ::
  "nat \<Rightarrow> 'w server \<Rightarrow> TransferOptions \<Rightarrow> (rstring \<Rightarrow> rstring) \<Rightarrow> (rstring \<Rightarrow> rstring) \<Rightarrow> rstring \<Rightarrow> rstring \<Rightarrow>
   ('w, TreeSummary option) io" where
  "download_tree fuel srv opt norm nonce remote_root local_root =
     io_bind (lift_result (transfer_options_validated opt)) (\<lambda>_.
       if \<not> atomic opt then engine_download_tree fuel srv opt norm remote_root local_root
       else atomic_download_tree fuel srv opt nonce remote_root local_root)"

subsection \<open>Entry points\<close>

text \<open>The session is closed when the transfer is over.\<close>

definition in_session :: "'w server \<Rightarrow> ('w, 'a option) io \<Rightarrow> ('w, 'a option) io" where
  "in_session srv body = io_bind (ok_request srv OpenSession) (\<lambda>_ s.
     case body s of
       (Inr None, s1) \<Rightarrow> (Inr None, s1)
     | (r, s1) \<Rightarrow>
         case ok_request srv CloseSession s1 of (c, s2) \<Rightarrow> (and_then r (\<lambda>x. and_then c (\<lambda>_. Inr x)), s2))"

definition upload_recursive ::
  "nat \<Rightarrow> 'w server \<Rightarrow> LocalFs \<Rightarrow> local_dirs \<Rightarrow> TransferOptions \<Rightarrow> (rstring \<Rightarrow> rstring) \<Rightarrow> rstring \<Rightarrow> rstring \<Rightarrow>
   ('w, TreeSummary option) io" where
  "upload_recursive fuel srv l dirs opt nonce local_path remote_path =
     in_session srv (upload_tree fuel srv l dirs opt nonce local_path remote_path)"

definition upload_with_options ::
  "'w server \<Rightarrow> LocalFs \<Rightarrow> TransferOptions \<Rightarrow> rstring \<Rightarrow> rstring \<Rightarrow> rstring \<Rightarrow> ('w, nat) io" where
  "upload_with_options srv l opt nonce local_path remote_path =
     with_session srv (upload_file srv l opt nonce local_path remote_path)"

definition download_with_options ::
  "nat \<Rightarrow> 'w server \<Rightarrow> TransferOptions \<Rightarrow> rstring \<Rightarrow> rstring \<Rightarrow> rstring \<Rightarrow> ('w, nat option) io" where
  "download_with_options fuel srv opt nonce remote_path local_path =
     in_session srv (download_file fuel srv opt nonce remote_path local_path)"

definition download_recursive ::
  "nat \<Rightarrow> 'w server \<Rightarrow> TransferOptions \<Rightarrow> (rstring \<Rightarrow> rstring) \<Rightarrow> (rstring \<Rightarrow> rstring) \<Rightarrow> rstring \<Rightarrow> rstring \<Rightarrow>
   ('w, TreeSummary option) io" where
  "download_recursive fuel srv opt norm nonce remote_path local_path =
     in_session srv (download_tree fuel srv opt norm nonce remote_path local_path)"

subsection \<open>The link policy\<close>

datatype SymlinkPolicy = Skip | Reject

text \<open>Names of a local listing are not converted here: they stand for themselves.\<close>

type_synonym os_dirs = "rstring \<Rightarrow> rstring list option"

fun local_link_entries :: "LocalFs \<Rightarrow> TransferOptions \<Rightarrow> rstring \<Rightarrow> rstring list \<Rightarrow> rstring list \<Rightarrow> ('w, rstring list) io" where
  "local_link_entries l opt directory [] stack = ret stack"
| "local_link_entries l opt directory (name # rest) stack =
     io_bind (check_cancelled opt) (\<lambda>_.
       let p = path_push directory name in
       case lf_stat l p of
         LocalMissing \<Rightarrow> raise (LocalFailed p)
       | LocalLinkNode \<Rightarrow> raise (LocalLink p)
       | LocalDirectory \<Rightarrow> local_link_entries l opt directory rest (p # stack)
       | _ \<Rightarrow> local_link_entries l opt directory rest stack)"

fun local_link_walk :: "nat \<Rightarrow> LocalFs \<Rightarrow> os_dirs \<Rightarrow> TransferOptions \<Rightarrow> rstring list \<Rightarrow> ('w, unit option) io" where
  "local_link_walk fuel l dirs opt [] = ret (Some ())"
| "local_link_walk fuel l dirs opt (directory # ds) =
     (if fuel = 0 then ret None
      else
        io_bind (check_cancelled opt) (\<lambda>_.
        io_bind (lift_result (ok_or (LocalFailed directory) (dirs directory))) (\<lambda>names.
        io_bind (local_link_entries l opt directory names ds) (\<lambda>ds'.
          local_link_walk (fuel - 1) l dirs opt ds'))))"

definition preflight_local_tree_no_links ::
  "nat \<Rightarrow> LocalFs \<Rightarrow> os_dirs \<Rightarrow> TransferOptions \<Rightarrow> bool \<Rightarrow> rstring \<Rightarrow> ('w, unit option) io" where
  "preflight_local_tree_no_links fuel l dirs opt allow_file_root root =
     io_bind (check_cancelled opt) (\<lambda>_.
       case lf_stat l root of
         LocalMissing \<Rightarrow> raise (LocalFailed root)
       | LocalLinkNode \<Rightarrow> raise (LocalLink root)
       | LocalFile _ _ \<Rightarrow> if allow_file_root then ret (Some ()) else raise (NotADirectory root)
       | LocalDirectory \<Rightarrow> local_link_walk fuel l dirs opt [root]
       | LocalOther \<Rightarrow> raise (LocalNotFile root))"

fun remote_link_entries ::
  "'w server \<Rightarrow> TransferOptions \<Rightarrow> rstring \<Rightarrow> (rstring \<times> FileAttributes) list \<Rightarrow> rstring list \<Rightarrow> ('w, rstring list) io" where
  "remote_link_entries srv opt directory [] stack = ret stack"
| "remote_link_entries srv opt directory ((name, _) # rest) stack =
     io_bind (check_cancelled opt) (\<lambda>_.
       if name = lit ''.'' \<or> name = lit ''..'' then remote_link_entries srv opt directory rest stack
       else
         io_bind (lift_result (map_err UnsafePath (validate_remote_child_name name))) (\<lambda>_.
         io_bind (lift_result (map_err UnsafePath (join_remote_under_root directory name))) (\<lambda>p.
         io_bind (symlink_metadata srv p) (\<lambda>a.
         io_bind (bail_if (at_type a = Symlink) (LinkRefused p)) (\<lambda>_.
           remote_link_entries srv opt directory rest (if at_type a = Directory then p # stack else stack))))))"

fun remote_link_walk :: "nat \<Rightarrow> 'w server \<Rightarrow> TransferOptions \<Rightarrow> rstring list \<Rightarrow> ('w, unit option) io" where
  "remote_link_walk fuel srv opt [] = ret (Some ())"
| "remote_link_walk fuel srv opt (directory # ds) =
     (if fuel = 0 then ret None
      else
        io_bind (check_cancelled opt) (\<lambda>_.
        io_bind (read_dir srv directory) (\<lambda>es.
        io_bind (remote_link_entries srv opt directory es ds) (\<lambda>ds'.
          remote_link_walk (fuel - 1) srv opt ds'))))"

definition preflight_remote_tree_no_links :: "nat \<Rightarrow> 'w server \<Rightarrow> TransferOptions \<Rightarrow> rstring \<Rightarrow> ('w, unit option) io" where
  "preflight_remote_tree_no_links fuel srv opt root =
     io_bind (check_cancelled opt) (\<lambda>_.
     io_bind (remote_symlink_metadata_if_exists srv root) (\<lambda>m.
       case m of
         None \<Rightarrow> ret (Some ())
       | Some a \<Rightarrow>
           io_bind (bail_if (at_type a = Symlink) (LinkRefused root)) (\<lambda>_.
             if at_type a \<noteq> Directory then ret (Some ()) else remote_link_walk fuel srv opt [root])))"

definition upload_recursive_with_symlink_policy ::
  "nat \<Rightarrow> 'w server \<Rightarrow> LocalFs \<Rightarrow> local_dirs \<Rightarrow> os_dirs \<Rightarrow> TransferOptions \<Rightarrow> (rstring \<Rightarrow> rstring) \<Rightarrow> rstring \<Rightarrow> rstring \<Rightarrow>
   SymlinkPolicy \<Rightarrow> ('w, TreeSummary option) io" where
  "upload_recursive_with_symlink_policy fuel srv l dirs os opt nonce local_path remote_path policy =
     opt_bind (if policy = Reject then preflight_local_tree_no_links fuel l os opt True local_path else ret (Some ())) (\<lambda>_.
       upload_recursive fuel srv l dirs opt nonce local_path remote_path)"

definition download_recursive_with_symlink_policy ::
  "nat \<Rightarrow> 'w server \<Rightarrow> TransferOptions \<Rightarrow> (rstring \<Rightarrow> rstring) \<Rightarrow> (rstring \<Rightarrow> rstring) \<Rightarrow> rstring \<Rightarrow> rstring \<Rightarrow>
   SymlinkPolicy \<Rightarrow> ('w, TreeSummary option) io" where
  "download_recursive_with_symlink_policy fuel srv opt norm nonce remote_path local_path policy =
     opt_bind (if policy = Reject then in_session srv (preflight_remote_tree_no_links fuel srv opt remote_path)
               else ret (Some ())) (\<lambda>_.
       download_recursive fuel srv opt norm nonce remote_path local_path)"

definition sync_link_preflight ::
  "nat \<Rightarrow> 'w server \<Rightarrow> LocalFs \<Rightarrow> os_dirs \<Rightarrow> TransferOptions \<Rightarrow> rstring \<Rightarrow> rstring \<Rightarrow> SymlinkPolicy \<Rightarrow> ('w, unit option) io" where
  "sync_link_preflight fuel srv l os opt local_root remote_root policy =
     (if policy = Reject then
        opt_bind (preflight_local_tree_no_links fuel l os opt False local_root) (\<lambda>_.
          in_session srv (preflight_remote_tree_no_links fuel srv opt remote_root))
      else ret (Some ()))"

definition plan_sync_to_remote_with_symlink_policy ::
  "nat \<Rightarrow> 'w server \<Rightarrow> LocalFs \<Rightarrow> local_dirs \<Rightarrow> os_dirs \<Rightarrow> rstring \<Rightarrow> rstring \<Rightarrow> SyncOptions \<Rightarrow> SymlinkPolicy \<Rightarrow>
   ('w, SyncPlan option) io" where
  "plan_sync_to_remote_with_symlink_policy fuel srv l dirs os local_root remote_root opt policy =
     opt_bind (sync_link_preflight fuel srv l os (transfer opt) local_root remote_root policy) (\<lambda>_.
       plan_sync_to_remote fuel srv l dirs local_root remote_root opt)"

definition apply_sync_to_remote_with_symlink_policy ::
  "nat \<Rightarrow> 'w server \<Rightarrow> LocalFs \<Rightarrow> os_dirs \<Rightarrow> (rstring \<Rightarrow> rstring) \<Rightarrow> rstring \<Rightarrow> rstring \<Rightarrow> SyncPlan \<Rightarrow> SyncOptions \<Rightarrow>
   SymlinkPolicy \<Rightarrow> ('w, SyncSummary option) io" where
  "apply_sync_to_remote_with_symlink_policy fuel srv l os nonce local_root remote_root plan opt policy =
     opt_bind (sync_link_preflight fuel srv l os (transfer opt) local_root remote_root policy) (\<lambda>_.
       io_bind (apply_sync_to_remote srv l nonce local_root remote_root plan opt) (\<lambda>summary. ret (Some summary)))"

definition sync_to_remote_with_symlink_policy ::
  "nat \<Rightarrow> 'w server \<Rightarrow> LocalFs \<Rightarrow> local_dirs \<Rightarrow> os_dirs \<Rightarrow> (rstring \<Rightarrow> rstring) \<Rightarrow> rstring \<Rightarrow> rstring \<Rightarrow> SyncOptions \<Rightarrow>
   SymlinkPolicy \<Rightarrow> bool \<Rightarrow> ('w, (SyncPlan \<times> SyncSummary option) option) io" where
  "sync_to_remote_with_symlink_policy fuel srv l dirs os nonce local_root remote_root opt policy dry_run =
     opt_bind (plan_sync_to_remote_with_symlink_policy fuel srv l dirs os local_root remote_root opt policy) (\<lambda>plan.
       if dry_run \<or> plan_is_empty plan then ret (Some (plan, None))
       else
         opt_bind (apply_sync_to_remote_with_symlink_policy fuel srv l os nonce local_root remote_root plan opt policy) (\<lambda>summary.
           ret (Some (plan, Some summary))))"

subsection \<open>Inside a root\<close>

definition inside :: "rstring \<Rightarrow> rstring \<Rightarrow> bool" where
  "inside root p \<longleftrightarrow> (\<exists>ws. list_all plain_name ws \<and>
     resolve_components (components p) = resolve_components (components root) @ map Normal ws)"

lemma inside_refl: "inside root root"
  by (auto simp: inside_def intro: exI [of _ "[]"])

lemma plain_split: "plain_name w \<Longrightarrow> split_on (\<lambda>c. c = 47) w = [w]"
  by (intro split_on_single) (auto simp: plain_name_def)

lemma inside_step:
  assumes "inside root d" and "plain_name w"
    and "resolve_components (components p) = resolve_components (components d) @ [Normal w]"
  shows "inside root p"
proof -
  obtain ws where "list_all plain_name ws"
      "resolve_components (components d) = resolve_components (components root) @ map Normal ws"
    using assms(1) by (auto simp: inside_def)
  then show ?thesis using assms(2,3) unfolding inside_def by (intro exI [of _ "ws @ [w]"]) simp
qed

lemma inside_join:
  assumes "inside root d" and "join_remote_under_root d w = Inr p" and "validate_remote_child_name w = Inr ()"
  shows "inside root p"
proof -
  have "plain_name w" by (rule validate_child_plain [OF assms(3)])
  then show ?thesis using inside_step [OF assms(1)] join_resolves [OF assms(2)] plain_split by simp
qed

lemma inside_push:
  assumes "inside root d" and "plain_name w"
  shows "inside root (path_push d w)"
proof -
  have plain: "\<forall>v \<in> set (split_on (\<lambda>c. c = 47) w). plain_name v" using assms(2) plain_split by simp
  have "\<not> starts_with [47] w" using assms(2) by (auto simp: plain_name_def starts_with_iff)
  then consider "d = []" "path_push d w = w" | r where "d = r @ [47]" "path_push d w = r @ 47 # w"
    | "d \<noteq> []" "path_push d w = d @ 47 # w"
    by (cases "d = []"; cases "ends_with [47] d") (auto simp: path_push_def ends_with_iff)
  then have "resolve_components (components (path_push d w)) = resolve_components (components d) @ [Normal w]"
  proof cases
    case 1
    then show ?thesis
      using components_relative [OF plain] plain_split [OF assms(2)] resolve_append_normal [of "[]" "[w]"]
      by (simp add: resolve_components_def components_def body_components_def)
  next
    case 2
    then show ?thesis
      using components_trailing_slash [OF plain] plain_split [OF assms(2)] resolve_append_normal [of _ "[w]"] by simp
  next
    case 3
    then show ?thesis
      using components_under [OF plain] plain_split [OF assms(2)] resolve_append_normal [of _ "[w]"] by simp
  qed
  from inside_step [OF assms this] show ?thesis .
qed

lemma download_names_inside:
  assumes "download_names rd ld name = Inr (rp, lp)" and "inside root ld"
  shows "inside root lp"
proof -
  have v: "validate_remote_child_name name = Inr ()"
    using assms(1) by (auto simp: download_names_def and_then_eq_Inr map_err_eq_Inr)
  obtain rel where rel: "local_path_from_remote_relative name = Inr rel" "lp = path_push ld rel"
    using assms(1) by (auto simp: download_names_def and_then_eq_Inr map_err_eq_Inr)
  have "validate_remote_relative_path name = Inr ()"
    using rel(1) by (auto simp: local_path_from_remote_relative_def and_then_eq_Inr)
  then have "rel = name" using local_path_valid rel(1) by auto
  then show ?thesis using inside_push [OF assms(2) validate_child_plain [OF v]] rel(2) by simp
qed

subsection \<open>Requests\<close>

lemma emits_opt_bind [emits_rules]: "emits P m \<Longrightarrow> (\<And>x. emits P (f x)) \<Longrightarrow> emits P (opt_bind m f)"
  unfolding opt_bind_def by (auto intro!: emits_rules split: option.splits)

lemma emits_run_task: "emits P m \<Longrightarrow> emits P (run_task m)"
proof -
  have "snd (run_task m s) = snd (m s)" for s by (auto simp: run_task_def split: prod.splits sum.splits option.splits)
  then show "emits P m \<Longrightarrow> emits P (run_task m)" by (simp add: emits_def)
qed

lemma emits_spawn [emits_rules]: "emits P m \<Longrightarrow> emits P (spawn_transfer opt m st)"
  unfolding spawn_transfer_def by (auto intro!: emits_rules emits_run_task split: prod.splits)

text \<open>The values a program can return; what follows it need only be considered for them.\<close>

definition possible :: "('w, 'a) io \<Rightarrow> 'a \<Rightarrow> bool" where
  "possible m x \<longleftrightarrow> (\<exists>s s'. m s = (Inr x, s'))"

lemma possible_bind: "possible (io_bind m f) y \<Longrightarrow> \<exists>x. possible m x \<and> possible (f x) y"
  unfolding possible_def io_bind_ok by blast

lemma possible_opt_bind: "possible (opt_bind m f) (Some y) \<Longrightarrow> \<exists>x. possible m (Some x) \<and> possible (f x) (Some y)"
proof -
  assume a: "possible (opt_bind m f) (Some y)"
  obtain z where z: "possible m z" "possible (case z of None \<Rightarrow> ret None | Some x \<Rightarrow> f x) (Some y)"
    using possible_bind [OF a [unfolded opt_bind_def]] by blast
  then show ?thesis by (cases z) (auto simp: possible_def ret_ok)
qed

lemma possible_simps:
  "possible (ret x) y \<longleftrightarrow> y = x" "possible (lift_result r) y \<longleftrightarrow> r = Inr y" "possible (raise e) y \<longleftrightarrow> False"
  by (auto simp: possible_def ret_ok lift_ok raise_ok)

lemma emits_bind_possible:
  assumes "emits P m" and "\<And>x. possible m x \<Longrightarrow> emits P (f x)"
  shows "emits P (io_bind m f)"
proof -
  have "io_bind m f = io_bind m (\<lambda>x. if possible m x then f x else raise Cancelled)"
    by (rule ext) (auto simp: io_bind_def possible_def split: prod.splits sum.splits)
  moreover have "emits P (io_bind m (\<lambda>x. if possible m x then f x else raise Cancelled))"
    using assms by (intro emits_bind) (auto simp: emits_raise)
  ultimately show ?thesis by simp
qed

lemma emits_opt_bind_possible:
  assumes "emits P m" and "\<And>x. possible m (Some x) \<Longrightarrow> emits P (f x)"
  shows "emits P (opt_bind m f)"
  unfolding opt_bind_def
  using assms by (intro emits_bind_possible) (auto simp: emits_ret split: option.splits)

abbreviation dirs_inside :: "rstring \<Rightarrow> (rstring \<times> rstring) list \<Rightarrow> bool" where
  "dirs_inside root stack \<equiv> list_all (\<lambda>x. inside root (snd x)) stack"

lemma download_entries_stack:
  "possible (download_entries srv opt down rd ld es st stack) (Some (st', stack')) \<Longrightarrow> inside root ld \<Longrightarrow>
     dirs_inside root stack \<Longrightarrow> dirs_inside root stack'"
proof (induction es arbitrary: st stack)
  case Nil
  then show ?case by (simp add: possible_simps)
next
  case (Cons e rest)
  obtain name a where e: "e = (name, a)" by (cases e)
  note run = Cons.prems(1) [unfolded e] and IH = Cons.IH [OF _ Cons.prems(2)]
  show ?case
  proof (cases "\<not> transferable (at_type a) \<or> name = lit ''.'' \<or> name = lit ''..''")
    case True
    then show ?thesis
      using IH Cons.prems(3) run
      by (cases st) (auto simp: possible_simps split: if_splits dest!: possible_bind)
  next
    case False
    obtain rp lp where names: "download_names rd ld name = Inr (rp, lp)"
      and rest: "possible (if at_type a = Directory then
           io_bind (ensure_local_directory_no_links srv lp) (\<lambda>_.
           io_bind (lift_result (count_directory (fst st))) (\<lambda>t.
             download_entries srv opt down rd ld rest (t, snd st) ((rp, lp) # stack)))
         else
           opt_bind (spawn_transfer opt (down rp lp) st) (\<lambda>st'.
             download_entries srv opt down rd ld rest st' stack)) (Some (st', stack'))"
      using run False by (auto simp: possible_simps split: prod.splits dest!: possible_bind)
    have "inside root lp" by (rule download_names_inside [OF names Cons.prems(2)])
    then show ?thesis
      using IH Cons.prems(3) rest
      by (cases st) (auto simp: possible_simps split: if_splits dest!: possible_bind possible_opt_bind)
  qed
qed

lemma emits_download_entries:
  assumes down: "\<And>rp lp. inside root lp \<Longrightarrow> emits P (down rp lp)"
    and dirs: "\<And>lp. inside root lp \<Longrightarrow> emits P (ensure_local_directory_no_links srv lp)"
    and "inside root ld"
  shows "emits P (download_entries srv opt down rd ld es st stack)"
proof (induction es arbitrary: st stack)
  case (Cons e rest)
  obtain name a where e: "e = (name, a)" by (cases e)
  have "emits P (case x of (rp, lp) \<Rightarrow>
      if at_type a = Directory then
        io_bind (ensure_local_directory_no_links srv lp) (\<lambda>_.
        io_bind (lift_result (count_directory (fst st))) (\<lambda>t.
          download_entries srv opt down rd ld rest (t, snd st) ((rp, lp) # stack)))
      else
        opt_bind (spawn_transfer opt (down rp lp) st) (\<lambda>st'. download_entries srv opt down rd ld rest st' stack))"
    if can: "possible (lift_result (download_names rd ld name) :: ('a, _) io) x" for x
  proof -
    obtain rp lp where x: "x = (rp, lp)" "download_names rd ld name = Inr (rp, lp)"
      using can by (cases x) (simp add: possible_simps)
    have "inside root lp" by (rule download_names_inside [OF x(2) assms(3)])
    then show ?thesis
      using Cons.IH down dirs x(1) by (auto intro!: emits_bind emits_opt_bind emits_spawn emits_lift)
  qed
  then show ?case
    unfolding e download_entries.simps
    using Cons.IH
    by (cases st) (auto intro!: emits_rules emits_bind_possible [of P "lift_result (download_names rd ld name)"])
qed (simp add: emits_ret)

lemma emits_download_walk:
  assumes "\<And>rp lp. inside root lp \<Longrightarrow> emits P (down rp lp)"
    and "\<And>lp. inside root lp \<Longrightarrow> emits P (ensure_local_directory_no_links srv lp)"
    and "\<And>d. P (ReadDir d)"
  shows "dirs_inside root stack \<Longrightarrow> emits P (download_walk fuel srv opt down st stack)"
proof (induction fuel arbitrary: st stack)
  case 0
  then show ?case by (cases stack) (auto intro!: emits_rules)
next
  case (Suc fuel)
  show ?case
  proof (cases stack)
    case Nil
    then show ?thesis by (auto intro!: emits_rules)
  next
    case (Cons x ds)
    obtain rd ld where x: "x = (rd, ld)" by (cases x)
    have inside: "inside root ld" "dirs_inside root ds" using Suc.prems Cons x by auto
    have "emits P (case y of (st', ds') \<Rightarrow> download_walk fuel srv opt down st' ds')"
      if "possible (download_entries srv opt down rd ld es st ds) (Some y)" for es y
      using download_entries_stack [of srv opt down rd ld es st ds "fst y" "snd y" root] that inside Suc.IH
      by (cases y) auto
    then show ?thesis
      unfolding Cons x download_walk.simps
      using assms inside by (auto intro!: emits_rules emits_opt_bind_possible [of P "download_entries _ _ _ _ _ _ _ _"] emits_download_entries [OF assms(1,2)])
  qed
qed

lemma emits_preflight_entries: "emits read_only (preflight_entries srv opt rd ld es stack)"
proof (induction es arbitrary: stack)
  case (Cons e es)
  then show ?case by (cases e) (auto intro!: emits_rules split: prod.splits)
qed (simp add: emits_ret)

lemma emits_preflight_walk: "emits read_only (preflight_walk fuel srv opt stack)"
proof (induction fuel arbitrary: stack)
  case 0
  then show ?case by (cases stack) (auto intro!: emits_rules)
next
  case (Suc fuel)
  then show ?case by (cases stack) (auto intro!: emits_rules emits_preflight_entries)
qed

lemma emits_root_kind [emits_rules]: "P (LStat p) \<Longrightarrow> emits P (download_root_kind srv p)"
  unfolding download_root_kind_def by (auto intro!: emits_rules)

lemma emits_download_checks: "emits read_only (atomic_download_checks fuel srv opt rr lr)"
  unfolding atomic_download_checks_def preflight_atomic_download_tree_def
  by (auto intro!: emits_rules emits_preflight_walk simp del: preflight_walk.simps split: download_root.splits)

definition tree_download_request :: "TransferOptions \<Rightarrow> (rstring \<Rightarrow> rstring) \<Rightarrow> rstring \<Rightarrow> sftp_req \<Rightarrow> bool" where
  "tree_download_request opt nonce root q \<longleftrightarrow>
     (\<exists>p. inside root p \<and> download_request (local_staging_path opt (nonce p) p) p q)"

lemma download_request_reads: "read_only q \<Longrightarrow> download_request work p q"
  by (cases q) (auto elim!: disk_read_only.elims)

lemma tree_download_reads: "read_only q \<Longrightarrow> tree_download_request opt nonce root q"
  unfolding tree_download_request_def using download_request_reads inside_refl by blast

lemma atomic_download_tree_emits:
  assumes "atomic opt"
  shows "emits (tree_download_request opt nonce lr) (atomic_download_tree fuel srv opt nonce rr lr)"
proof -
  let ?P = "tree_download_request opt nonce lr"
  have one: "emits ?P (download_file fuel srv opt (nonce lp) rp lp)" if "inside lr lp" for rp lp
    by (rule emits_mono [OF download_file_emits [OF assms]]) (use that in \<open>auto simp: tree_download_request_def\<close>)
  have dir: "emits ?P (ensure_local_directory_no_links srv lp)" if "inside lr lp" for lp
    using that
    by (intro emits_ensure_directory)
       (auto intro: tree_download_reads simp: tree_download_request_def intro!: exI [of _ lp])
  have checks: "emits ?P (atomic_download_checks fuel srv opt rr lr)"
    by (rule emits_mono [OF emits_download_checks]) (rule tree_download_reads)
  have walk: "emits ?P (download_walk fuel srv opt (\<lambda>rp lp. download_file fuel srv opt (nonce lp) rp lp) st [(rr, lr)])" for st
    by (rule emits_download_walk [where root = lr]) (auto intro: one dir tree_download_reads inside_refl)
  show ?thesis
    unfolding atomic_download_tree_def Let_def
    using checks walk one [OF inside_refl] dir [OF inside_refl]
    by (auto intro!: emits_bind emits_opt_bind emits_ret simp del: download_walk.simps split: download_root.splits)
qed

lemma emits_sent: "emits P m \<Longrightarrow> m s = (r, s') \<Longrightarrow> \<exists>new. sent s' = sent s @ new \<and> list_all P new"
  unfolding emits_def by (metis snd_conv)

lemma opt_bind_error: "m s = (Inl e, s1) \<Longrightarrow> opt_bind m f s = (Inl e, s1)"
  by (simp add: opt_bind_def io_bind_def)

lemma download_tree_atomic:
  "atomic opt \<Longrightarrow> transfer_options_validated opt = Inr u \<Longrightarrow>
     download_tree fuel srv opt norm nonce rr lr = atomic_download_tree fuel srv opt nonce rr lr"
  by (rule ext) (simp add: download_tree_def io_bind_def lift_result_def)

lemma download_tree_invalid:
  "transfer_options_validated opt = Inl e \<Longrightarrow> download_tree fuel srv opt norm nonce rr lr s = (Inl e, s)"
  by (simp add: download_tree_def io_bind_def lift_result_def)

text \<open>
  C18. A recursive atomic download stays in its directory, for every server, whatever names and types it lists
  and in whatever order: every local path it writes is the staging file or the final name of a path whose
  components are those of the local root followed by plain names, and the directories it creates lie on the
  way to such a path. Nothing is written on the server.
\<close>

theorem recursive_download_inside:
  assumes "atomic opt" and "download_tree fuel srv opt norm nonce rr lr s = (r, s')"
  shows "\<exists>new. sent s' = sent s @ new \<and> list_all (tree_download_request opt nonce lr) new"
proof (cases "transfer_options_validated opt")
  case (Inl e)
  then show ?thesis using download_tree_invalid [OF Inl, of fuel srv norm nonce rr lr s] assms(2) by auto
next
  case (Inr u)
  show ?thesis
    using assms(2) download_tree_atomic [OF assms(1) Inr, of fuel srv norm nonce rr lr]
      emits_sent [OF atomic_download_tree_emits [OF assms(1)], of fuel srv nonce rr lr s] by metis
qed

text \<open>
  The preflight comes first: when a check of an atomic recursive download fails (a name that is not
  plain, a link or a file where a directory is needed, a destination that exists, anywhere in the tree), the
  download fails with that error and it has only read.
\<close>

theorem download_preflight_first:
  assumes "atomic opt" and "transfer_options_validated opt = Inr opt'"
    and "atomic_download_checks fuel srv opt rr lr s = (Inl e, s1)"
  shows "download_tree fuel srv opt norm nonce rr lr s = (Inl e, s1) \<and>
    (\<exists>reads. sent s1 = sent s @ reads \<and> list_all read_only reads)"
proof -
  have "atomic_download_tree fuel srv opt nonce rr lr s = (Inl e, s1)"
    unfolding atomic_download_tree_def Let_def using opt_bind_error [where m = "atomic_download_checks fuel srv opt rr lr"] assms(3) by blast
  then show ?thesis
    using download_tree_atomic [OF assms(1,2), of fuel srv norm nonce rr lr] emits_sent [OF emits_download_checks assms(3)] by simp
qed

subsection \<open>The link policy at work\<close>

definition child_of :: "LocalFs \<Rightarrow> os_dirs \<Rightarrow> rstring \<Rightarrow> rstring \<Rightarrow> bool" where
  "child_of l dirs d p \<longleftrightarrow> lf_stat l d = LocalDirectory \<and> (\<exists>names. dirs d = Some names \<and> (\<exists>n \<in> set names. p = path_push d n))"

inductive in_tree :: "LocalFs \<Rightarrow> os_dirs \<Rightarrow> rstring \<Rightarrow> rstring \<Rightarrow> bool" for l dirs where
  here: "in_tree l dirs d d"
| below: "child_of l dirs d q \<Longrightarrow> in_tree l dirs q p \<Longrightarrow> in_tree l dirs d p"

inductive_cases in_treeE: "in_tree l dirs d p"

lemma in_tree_leaf: "in_tree l dirs d p \<Longrightarrow> lf_stat l d \<noteq> LocalDirectory \<Longrightarrow> p = d"
  by (auto elim: in_treeE simp: child_of_def)

lemma link_entries_ok:
  "local_link_entries l opt d names stack s = (Inr stack', s') \<Longrightarrow>
     s' = s \<and> set stack \<subseteq> set stack' \<and>
     (\<forall>n \<in> set names. lf_stat l (path_push d n) \<noteq> LocalLinkNode \<and>
        (lf_stat l (path_push d n) = LocalDirectory \<longrightarrow> path_push d n \<in> set stack'))"
proof (induction names arbitrary: stack)
  case Nil
  then show ?case by (simp add: ret_ok)
next
  case (Cons n ns)
  let ?p = "path_push d n"
  have "\<exists>stack1. local_link_entries l opt d ns stack1 s = (Inr stack', s') \<and> set stack \<subseteq> set stack1 \<and>
      lf_stat l ?p \<noteq> LocalLinkNode \<and> (lf_stat l ?p = LocalDirectory \<longrightarrow> ?p \<in> set stack1)"
    using Cons.prems
    by (auto simp: Let_def io_bind_ok raise_ok check_cancelled_def ret_ok split: local_node.splits if_splits)
  then show ?case using Cons.IH by (metis set_ConsD subset_iff)
qed

lemma link_walk_ok:
  "local_link_walk fuel l dirs opt stack s = (Inr (Some ()), s') \<Longrightarrow> d \<in> set stack \<Longrightarrow>
     lf_stat l d = LocalDirectory \<Longrightarrow> in_tree l dirs d p \<Longrightarrow> lf_stat l p \<noteq> LocalLinkNode"
proof (induction fuel arbitrary: stack s d)
  case 0
  then show ?case by (cases stack) (auto simp: ret_ok)
next
  case (Suc fuel)
  then obtain c ds where stack: "stack = c # ds" by (cases stack) auto
  obtain names ds' s1 where r: "dirs c = Some names" "local_link_entries l opt c names ds s = (Inr ds', s1)"
      "local_link_walk fuel l dirs opt ds' s1 = (Inr (Some ()), s')"
    using Suc.prems(1) unfolding stack
    by (auto simp: io_bind_ok lift_ok check_cancelled_def ret_ok raise_ok split: if_splits option.splits)
  note ok = link_entries_ok [OF r(2)] and IH = Suc.IH [OF r(3)]
  show ?case
  proof (cases "d = c")
    case False
    then show ?thesis using IH Suc.prems ok stack by auto
  next
    case True
    from Suc.prems(4) show ?thesis
    proof (cases rule: in_tree.cases)
      case here
      then show ?thesis using Suc.prems(3) by simp
    next
      case (below q)
      then have "lf_stat l q \<noteq> LocalLinkNode" "lf_stat l q = LocalDirectory \<longrightarrow> q \<in> set ds'"
        using ok r(1) True by (auto simp: child_of_def)
      then show ?thesis using IH [OF _ _ below(2)] in_tree_leaf [OF below(2)] by auto
    qed
  qed
qed

lemma no_links_ok:
  assumes "preflight_local_tree_no_links fuel l dirs opt allow root s = (Inr (Some ()), s')" and "in_tree l dirs root p"
  shows "lf_stat l p \<noteq> LocalLinkNode"
proof (cases "lf_stat l root = LocalDirectory")
  case True
  then have "local_link_walk fuel l dirs opt [root] s = (Inr (Some ()), s')"
    using assms(1) by (auto simp: preflight_local_tree_no_links_def io_bind_ok check_cancelled_def ret_ok raise_ok split: if_splits)
  from link_walk_ok [OF this _ True assms(2)] show ?thesis by simp
next
  case False
  then have "p = root" by (rule in_tree_leaf [OF assms(2)])
  then show ?thesis
    using assms(1) by (auto simp: preflight_local_tree_no_links_def io_bind_ok raise_ok split: local_node.splits)
qed

text \<open>The local preflight is silent: it asks nothing of the server.\<close>

definition silent :: "('w, 'a) io \<Rightarrow> bool" where
  "silent m \<longleftrightarrow> (\<forall>s. snd (m s) = s)"

lemma silent_bind: "silent m \<Longrightarrow> (\<And>x. silent (f x)) \<Longrightarrow> silent (io_bind m f)"
  unfolding silent_def io_bind_def by (auto split: prod.splits sum.splits) (metis snd_conv)+

lemma silent_pure: "silent (ret x)" "silent (raise e)" "silent (lift_result r)" "silent (check_cancelled opt)"
  by (simp_all add: silent_def ret_def raise_def lift_result_def check_cancelled_def)

lemma silent_entries: "silent (local_link_entries l opt d names stack)"
  by (induction names arbitrary: stack)
     (auto simp: Let_def intro!: silent_bind silent_pure split: local_node.splits)

lemma silent_walk: "silent (local_link_walk fuel l dirs opt stack)"
proof (induction fuel arbitrary: stack)
  case 0
  then show ?case by (cases stack) (auto intro!: silent_pure)
next
  case (Suc fuel)
  then show ?case by (cases stack) (auto intro!: silent_bind silent_pure silent_entries)
qed

lemma silent_preflight: "silent (preflight_local_tree_no_links fuel l dirs opt allow root)"
  unfolding preflight_local_tree_no_links_def
  by (auto intro!: silent_bind silent_pure silent_walk simp del: local_link_walk.simps split: local_node.splits)

definition refused :: "(sftp_error + 'a option) \<times> 'w session \<Rightarrow> 'w session \<Rightarrow> bool" where
  "refused out s \<longleftrightarrow> snd out = s \<and> (\<forall>x. fst out \<noteq> Inr (Some x))"

lemma refused_after:
  assumes "silent m" and "\<And>x. fst (m s) \<noteq> Inr (Some x)"
  shows "refused (opt_bind m f s) s"
proof (cases "m s")
  case (Pair r s1)
  then have "s1 = s" "\<And>x. r \<noteq> Inr (Some x)" using assms by (auto simp: silent_def) (metis snd_conv)
  then show ?thesis
    using Pair by (cases r) (auto simp: refused_def opt_bind_def io_bind_def ret_def split: option.splits)
qed

lemma opt_bind_assoc: "opt_bind (opt_bind m f) g = opt_bind m (\<lambda>x. opt_bind (f x) g)"
  by (rule ext) (auto simp: opt_bind_def io_bind_def ret_def split: prod.splits sum.splits option.splits)

text \<open>
  C24. The policy that rejects links holds for the whole tree: if anything in the tree of the local path is a
  link, at any depth, no recursive upload and no synchronisation under that policy succeeds, and none asks
  anything of the server, dry run or not. A tree that holds links is refused before the session is opened.
\<close>

theorem reject_policy_blocks:
  assumes "in_tree l os local_path p" and "lf_stat l p = LocalLinkNode"
  shows "refused (upload_recursive_with_symlink_policy fuel srv l dirs os opt nonce local_path remote_path Reject s) s \<and>
    refused (apply_sync_to_remote_with_symlink_policy fuel srv l os nonce local_path remote_path plan sopt Reject s) s \<and>
    refused (sync_to_remote_with_symlink_policy fuel srv l dirs os nonce local_path remote_path sopt Reject dry_run s) s"
proof -
  have "fst (preflight_local_tree_no_links fuel l os o' allow local_path s) \<noteq> Inr (Some x)" for o' allow x
    using no_links_ok [of fuel l os o' allow local_path s _ p] assms by (metis (full_types) prod.collapse old.unit.exhaust)
  then show ?thesis
    by (auto simp: upload_recursive_with_symlink_policy_def apply_sync_to_remote_with_symlink_policy_def
        sync_to_remote_with_symlink_policy_def plan_sync_to_remote_with_symlink_policy_def sync_link_preflight_def
        opt_bind_assoc intro!: refused_after silent_preflight)
qed

subsection \<open>Small trees\<close>

text \<open>A server with one directory and the given names in it, each a file of three bytes; an empty disk.\<close>

fun listing_env :: "rstring list \<Rightarrow> files server" where
  "listing_env names (LStat p) w = (RAttrs (sample_attrs (if p = lit ''/r'' then Directory else File)), w)"
| "listing_env names (ReadDir p) w = (RNames (map (\<lambda>n. (n, sample_attrs File)) names), w)"
| "listing_env names (ReadAt p off) w = (RData (drop off [1, 2, 3]), w)"
| "listing_env names (OnDisk d) w = disk_answer d w"
| "listing_env names q w = (ROk, w)"

abbreviation idle :: "files session" where
  "idle \<equiv> \<lparr>world = (\<lambda>_. None), sent = []\<rparr>"

theorem recursive_download_inside_witness:
  "fst (download_tree 3 (listing_env [lit ''a'', lit ''b'']) transfer_options_default id (\<lambda>_. lit ''1'') (lit ''/r'') (lit ''d'') idle)
     = Inr (Some (empty_summary\<lparr>ts_files := 2, ts_directories := 1, ts_bytes := 6\<rparr>)) \<and>
   list_all (tree_download_request transfer_options_default (\<lambda>_. lit ''1'') (lit ''d''))
     (sent (snd (download_tree 3 (listing_env [lit ''a'', lit ''b'']) transfer_options_default id (\<lambda>_. lit ''1'')
        (lit ''/r'') (lit ''d'') idle)))"
proof
  show "fst (download_tree 3 (listing_env [lit ''a'', lit ''b'']) transfer_options_default id (\<lambda>_. lit ''1'') (lit ''/r'') (lit ''d'') idle)
     = Inr (Some (empty_summary\<lparr>ts_files := 2, ts_directories := 1, ts_bytes := 6\<rparr>))" by code_simp
  have "atomic transfer_options_default" by (simp add: transfer_options_default_def)
  from recursive_download_inside [OF this prod.collapse [symmetric], of 3 "listing_env [lit ''a'', lit ''b'']" id
      "\<lambda>_. lit ''1''" "lit ''/r''" "lit ''d''" idle]
  show "list_all (tree_download_request transfer_options_default (\<lambda>_. lit ''1'') (lit ''d''))
     (sent (snd (download_tree 3 (listing_env [lit ''a'', lit ''b'']) transfer_options_default id (\<lambda>_. lit ''1'')
        (lit ''/r'') (lit ''d'') idle)))" by simp
qed

theorem download_preflight_first_witness:
  "\<exists>e. fst (download_tree 3 (listing_env [lit ''a'', lit ''b/../../x'']) transfer_options_default id (\<lambda>_. lit ''1'')
       (lit ''/r'') (lit ''d'') idle) = Inl e"
proof -
  let ?run = "atomic_download_checks 3 (listing_env [lit ''a'', lit ''b/../../x'']) transfer_options_default (lit ''/r'') (lit ''d'') idle"
  have "\<not> isl (fst ?run) = False" by code_simp
  then obtain e where e: "?run = (Inl e, snd ?run)" by (metis isl_def prod.collapse)
  have "atomic transfer_options_default" "transfer_options_validated transfer_options_default = Inr ()"
    by code_simp+
  from download_preflight_first [OF this e, of id "\<lambda>_. lit ''1''"] show ?thesis by auto
qed

text \<open>A directory with a link in a directory in it.\<close>

definition linked_fs :: LocalFs where
  "linked_fs = \<lparr>lf_stat = (\<lambda>p. if p = lit ''t'' \<or> p = lit ''t/u'' then LocalDirectory else LocalLinkNode),
     lf_reads = (\<lambda>_ _. []), lf_fault = (\<lambda>_. None)\<rparr>"

definition linked_dirs :: os_dirs where
  "linked_dirs p = (if p = lit ''t'' then Some [lit ''u''] else Some [lit ''v''])"

theorem reject_policy_blocks_witness:
  "fst (upload_recursive_with_symlink_policy 5 (listing_env []) linked_fs (\<lambda>_. None) linked_dirs transfer_options_default
      (\<lambda>_. []) (lit ''t'') (lit ''/r'') Reject idle) = Inl (LocalLink (lit ''t/u/v'')) \<and>
   refused (upload_recursive_with_symlink_policy 5 (listing_env []) linked_fs (\<lambda>_. None) linked_dirs transfer_options_default
      (\<lambda>_. []) (lit ''t'') (lit ''/r'') Reject idle) idle"
proof
  have "child_of linked_fs linked_dirs (lit ''t'') (lit ''t/u'')" "child_of linked_fs linked_dirs (lit ''t/u'') (lit ''t/u/v'')"
    by (simp_all add: child_of_def linked_fs_def linked_dirs_def path_push_def ends_with_def lit_def)
  then have "in_tree linked_fs linked_dirs (lit ''t'') (lit ''t/u/v'')" by (blast intro: in_tree.intros)
  moreover have "lf_stat linked_fs (lit ''t/u/v'') = LocalLinkNode" by code_simp
  ultimately show "refused (upload_recursive_with_symlink_policy 5 (listing_env []) linked_fs (\<lambda>_. None) linked_dirs transfer_options_default
      (\<lambda>_. []) (lit ''t'') (lit ''/r'') Reject idle) idle"
    using reject_policy_blocks by blast
qed code_simp

end
