(* ===== verification/Task_Manager.thy ===== *)
theory Task_Manager
  imports Transfer_Task
begin

section \<open>Tracked transfers\<close>

text \<open>
  Model of \<open>transfer_task_manager.rs\<close>: a transfer that is registered, run, followed by a bridge from its
  progress channel to the registry, and closed in the registry by its outcome. The four transfers of
  \<open>client_ops.rs\<close> are the parameter \<open>ClientOps\<close>, with a flag for resumption; the text of an error stands for the error. Other threads
  use the same registry all the time: a \<open>Schedule\<close> says which of their commands come before the task is
  started, between the events of the transfer, and before its outcome is recorded.
\<close>

datatype (plugins only: code size) manager_error =
    PathNotUtf8 | InRegistry task_error | RetryUnknown task_id | TransferError rstring | TrackingFailed task_error

record ClientOps =
  client_upload_with_options :: "bool \<Rightarrow> rstring \<Rightarrow> rstring \<Rightarrow> rstring + u64"
  client_upload_recursive :: "bool \<Rightarrow> rstring \<Rightarrow> rstring \<Rightarrow> rstring + TransferSummary"
  client_download_with_options :: "bool \<Rightarrow> rstring \<Rightarrow> rstring \<Rightarrow> rstring + u64"
  client_download_recursive :: "bool \<Rightarrow> rstring \<Rightarrow> rstring \<Rightarrow> rstring + TransferSummary"
  error_text :: "task_error \<Rightarrow> rstring"

datatype during = FromTransfer TransferEvent | PollTick bool | ByOthers task_cmd

record Schedule =
  before_start :: "task_cmd list"
  while_running :: "during list"
  before_finish :: "task_cmd list"

definition one_file_summary :: "u64 \<Rightarrow> TransferSummary" where
  "one_file_summary n = \<lparr>files = 1, directories = 0, sum_bytes = n, skipped = 0\<rparr>"

definition run_transfer ::
  "ClientOps \<Rightarrow> bool \<Rightarrow> TransferTaskKind \<Rightarrow> rstring \<Rightarrow> rstring \<Rightarrow> rstring + TransferSummary" where
  "run_transfer ops res kind source destination =
     (case kind of
        UploadFile \<Rightarrow> map_ok one_file_summary (client_upload_with_options ops res source destination)
      | UploadDirectory \<Rightarrow> client_upload_recursive ops res source destination
      | DownloadFile \<Rightarrow> map_ok one_file_summary (client_download_with_options ops res source destination)
      | DownloadDirectory \<Rightarrow> client_download_recursive ops res source destination)"

text \<open>
  The bridge: progress events are recorded, at each tick a cancelled caller cancels the task; it ends at
  its first error, and other threads go on.
\<close>

fun bridge_step :: "task_id \<Rightarrow> during \<Rightarrow> task_error option \<times> RegistryInner \<Rightarrow> task_error option \<times> RegistryInner" where
  "bridge_step i (ByOthers c) (dead, r) = (dead, snd (task_exec c r))"
| "bridge_step i e (Some err, r) = (Some err, r)"
| "bridge_step i (FromTransfer event) (None, r) =
     (case record_progress i event r of (Inl err, r') \<Rightarrow> (Some err, r') | (Inr _, r') \<Rightarrow> (None, r'))"
| "bridge_step i (PollTick caller_cancelled) (None, r) =
     (if caller_cancelled
      then case request_cancel i r of (Inl err, r') \<Rightarrow> (Some err, r') | (Inr _, r') \<Rightarrow> (None, r')
      else (None, r))"

definition tracking_bridge :: "task_id \<Rightarrow> during list \<Rightarrow> RegistryInner \<Rightarrow> task_error option \<times> RegistryInner" where
  "tracking_bridge i events r = fold (bridge_step i) events (None, r)"

definition token_is_cancelled :: "task_id \<Rightarrow> RegistryInner \<Rightarrow> bool" where
  "token_is_cancelled i r = (case bt_get (tasks r) i of Some record \<Rightarrow> cancelled record | None \<Rightarrow> False)"

definition tracking_text :: "ClientOps \<Rightarrow> task_error \<Rightarrow> rstring" where
  "tracking_text ops e = lit ''transfer progress tracking failed: '' @ error_text ops e"

definition finish_task ::
  "task_id \<Rightarrow> rstring + TransferSummary \<Rightarrow> RegistryInner \<Rightarrow> (manager_error + TransferSummary) \<times> RegistryInner" where
  "finish_task i result r =
     (case result of
        Inr summary \<Rightarrow>
          (case complete i summary r of
             (Inl e, r') \<Rightarrow> (Inl (InRegistry e), r')
           | (Inr _, r') \<Rightarrow> (Inr summary, r'))
      | Inl error \<Rightarrow>
          (case (if token_is_cancelled i r then mark_cancelled i r else fail i error r) of
             (Inl e, r') \<Rightarrow> (Inl (InRegistry e), r')
           | (Inr _, r') \<Rightarrow> (Inl (TransferError error), r')))"

definition run_registered ::
  "ClientOps \<Rightarrow> Schedule \<Rightarrow> bool \<Rightarrow> task_id \<Rightarrow> TransferTaskKind \<Rightarrow> rstring \<Rightarrow> rstring \<Rightarrow> RegistryInner \<Rightarrow>
   (manager_error + TransferSummary) \<times> RegistryInner" where
  "run_registered ops sch res i kind source destination r0 =
     (case mark_running i (run task_exec (before_start sch) r0) of
        (Inl e, r) \<Rightarrow> (Inl (InRegistry e), r)
      | (Inr _, r) \<Rightarrow>
          let result = run_transfer ops res kind source destination;
              (dead, r') = tracking_bridge i (while_running sch) r;
              r'' = run task_exec (before_finish sch) r' in
          case dead of
            Some e \<Rightarrow> (Inl (TrackingFailed e), snd (fail i (tracking_text ops e) r''))
          | None \<Rightarrow> finish_task i result r'')"

definition run_new ::
  "ClientOps \<Rightarrow> Schedule \<Rightarrow> bool \<Rightarrow> TransferTaskKind \<Rightarrow> rstring \<Rightarrow> rstring \<Rightarrow> RegistryInner \<Rightarrow>
   (manager_error + TransferSummary) \<times> RegistryInner" where
  "run_new ops sch res kind source destination r =
     (case register kind source destination r of
        (Inl e, r') \<Rightarrow> (Inl (InRegistry e), r')
      | (Inr i, r') \<Rightarrow> run_registered ops sch res i kind source destination r')"

text \<open>\<open>local_task_path\<close>: a path that is not UTF-8 is \<open>None\<close>.\<close>

definition local_task_path :: "rstring option \<Rightarrow> manager_error + rstring" where
  "local_task_path p = ok_or PathNotUtf8 p"

definition managed_upload_file ::
  "ClientOps \<Rightarrow> Schedule \<Rightarrow> bool \<Rightarrow> rstring option \<Rightarrow> rstring \<Rightarrow> RegistryInner \<Rightarrow> (manager_error + u64) \<times> RegistryInner" where
  "managed_upload_file ops sch res local_path remote_path r =
     (case local_task_path local_path of
        Inl e \<Rightarrow> (Inl e, r)
      | Inr source \<Rightarrow> apfst (map_ok sum_bytes) (run_new ops sch res UploadFile source remote_path r))"

definition managed_upload_directory ::
  "ClientOps \<Rightarrow> Schedule \<Rightarrow> bool \<Rightarrow> rstring option \<Rightarrow> rstring \<Rightarrow> RegistryInner \<Rightarrow>
   (manager_error + TransferSummary) \<times> RegistryInner" where
  "managed_upload_directory ops sch res local_path remote_path r =
     (case local_task_path local_path of
        Inl e \<Rightarrow> (Inl e, r)
      | Inr source \<Rightarrow> run_new ops sch res UploadDirectory source remote_path r)"

definition managed_download_file ::
  "ClientOps \<Rightarrow> Schedule \<Rightarrow> bool \<Rightarrow> rstring \<Rightarrow> rstring option \<Rightarrow> RegistryInner \<Rightarrow> (manager_error + u64) \<times> RegistryInner" where
  "managed_download_file ops sch res remote_path local_path r =
     (case local_task_path local_path of
        Inl e \<Rightarrow> (Inl e, r)
      | Inr destination \<Rightarrow> apfst (map_ok sum_bytes) (run_new ops sch res DownloadFile remote_path destination r))"

definition managed_download_directory ::
  "ClientOps \<Rightarrow> Schedule \<Rightarrow> bool \<Rightarrow> rstring \<Rightarrow> rstring option \<Rightarrow> RegistryInner \<Rightarrow>
   (manager_error + TransferSummary) \<times> RegistryInner" where
  "managed_download_directory ops sch res remote_path local_path r =
     (case local_task_path local_path of
        Inl e \<Rightarrow> (Inl e, r)
      | Inr destination \<Rightarrow> run_new ops sch res DownloadDirectory remote_path destination r)"

definition retry_task ::
  "ClientOps \<Rightarrow> Schedule \<Rightarrow> task_id \<Rightarrow> RegistryInner \<Rightarrow> (manager_error + TransferSummary) \<times> RegistryInner" where
  "retry_task ops sch previous r =
     (case get_task previous r of
        None \<Rightarrow> (Inl (RetryUnknown previous), r)
      | Some s \<Rightarrow>
          (case register_retry previous r of
             (Inl e, r') \<Rightarrow> (Inl (InRegistry e), r')
           | (Inr i, r') \<Rightarrow> run_registered ops sch True i (s_kind s) (s_source s) (s_destination s) r'))"

subsection \<open>What other threads may do\<close>

text \<open>
  Only the manager starts and ends the tasks it runs; everything else, cancelling this very task included,
  may come from anywhere.
\<close>

fun leaves_running :: "task_id \<Rightarrow> task_cmd \<Rightarrow> bool" where
  "leaves_running i (MarkRunning j) = (j \<noteq> i)"
| "leaves_running i (Complete j _) = (j \<noteq> i)"
| "leaves_running i (MarkCancelled j) = (j \<noteq> i)"
| "leaves_running i (Fail j _) = (j \<noteq> i)"
| "leaves_running i _ = True"

fun during_ok :: "task_id \<Rightarrow> during \<Rightarrow> bool" where
  "during_ok i (ByOthers c) = leaves_running i c"
| "during_ok i _ = True"

definition schedule_ok :: "task_id \<Rightarrow> Schedule \<Rightarrow> bool" where
  "schedule_ok i sch \<longleftrightarrow> list_all (leaves_running i) (before_start sch) \<and>
     list_all (during_ok i) (while_running sch) \<and> list_all (leaves_running i) (before_finish sch)"

definition in_state :: "task_id \<Rightarrow> TransferTaskState \<Rightarrow> RegistryInner \<Rightarrow> bool" where
  "in_state i st r \<longleftrightarrow> reg_ok r \<and> (\<exists>a. bt_get (tasks r) i = Some a \<and> s_state (snapshot a) = st)"

lemma with_task_other:
  assumes "reg_ok r" and "j \<noteq> i"
  shows "bt_get (tasks (snd (with_task j f r))) i = bt_get (tasks r) i"
  using reg_okD(1) [OF assms(1)] assms(2)
  by (auto simp: with_task_def bt.get_put split: option.splits sum.splits)

lemmas task_updates = mark_running_def record_progress_def request_cancel_def complete_def mark_cancelled_def fail_def

lemma progress_keeps_state:
  assumes "in_state i st r"
  shows "in_state i st (snd (record_progress j event r))" "in_state i st (snd (request_cancel j r))"
    "in_state i st (snd (token_cancel j r))"
proof -
  have ok: "reg_ok r" "bt_ok (tasks r)" using assms reg_okD(1) by (auto simp: in_state_def)
  note keep = lawful_keeps_all(2,3) [OF ok(1)] token_cancel_keeps [OF ok(1)]
  show "in_state i st (snd (record_progress j event r))"
    using assms keep(1) [of j event] ok(2)
    by (auto simp: in_state_def record_progress_def with_task_def bt.get_put split: option.splits sum.splits if_splits)
  show "in_state i st (snd (request_cancel j r))"
    using assms keep(2) [of j] ok(2)
    by (auto simp: in_state_def request_cancel_def with_task_def bt.get_put split: option.splits sum.splits if_splits)
  show "in_state i st (snd (token_cancel j r))"
    using assms keep(3) [of j] ok(2)
    by (auto simp: in_state_def token_cancel_def bt.get_put split: option.splits)
qed

lemma others_keep_state:
  assumes "in_state i st r" and "\<not> is_terminal st" and "leaves_running i c"
  shows "in_state i st (snd (task_exec c r))"
proof -
  have ok: "reg_ok r" using assms(1) by (simp add: in_state_def)
  obtain a where a: "bt_get (tasks r) i = Some a" "s_state (snapshot a) = st"
    using assms(1) by (auto simp: in_state_def)
  have keep: "reg_ok (snd (task_exec c r))" by (rule registry.keep [OF ok])
  have updates: "bt_get (tasks (snd (mark_running j r))) i = Some a" "bt_get (tasks (snd (complete j sm r))) i = Some a"
      "bt_get (tasks (snd (mark_cancelled j r))) i = Some a" "bt_get (tasks (snd (fail j m r))) i = Some a"
    if "j \<noteq> i" for j sm m
    using with_task_other [OF ok that] a(1) by (simp_all add: task_updates)
  show ?thesis
  proof (cases c)
    case (Register k src d)
    then show ?thesis using register_get [OF ok a(1), of k src d] a assms(2) keep by (auto simp: in_state_def)
  next
    case (Retry j)
    then show ?thesis using register_retry_get [OF ok a(1), of j] a assms(2) keep by (auto simp: in_state_def)
  next
    case ClearFinished
    then show ?thesis using clear_finished_get [OF ok, of i] a assms(2) keep by (auto simp: in_state_def)
  qed (use assms(1,3) keep updates a progress_keeps_state in \<open>auto simp: in_state_def\<close>)
qed

lemma run_keeps_state:
  "in_state i st r \<Longrightarrow> \<not> is_terminal st \<Longrightarrow> list_all (leaves_running i) cs \<Longrightarrow> in_state i st (run task_exec cs r)"
proof (induction cs arbitrary: r)
  case (Cons c cs)
  then show ?case using others_keep_state [of i st r c] by simp
qed simp

lemma bridge_keeps_state:
  assumes "in_state i Running r" and "list_all (during_ok i) events"
  shows "in_state i Running (snd (fold (bridge_step i) events (dead, r)))"
  using assms
proof (induction events arbitrary: dead r)
  case (Cons e events)
  have "in_state i Running (snd (bridge_step i e (dead, r)))"
  proof (cases e)
    case (ByOthers c)
    then show ?thesis using others_keep_state Cons.prems by simp
  next
    case (FromTransfer event)
    then show ?thesis
      using progress_keeps_state(1) [OF Cons.prems(1), of i event] Cons.prems(1)
      by (cases dead) (auto split: prod.splits sum.splits)
  next
    case (PollTick b)
    then show ?thesis
      using progress_keeps_state(2) [OF Cons.prems(1), of i] Cons.prems(1)
      by (cases dead) (auto split: prod.splits sum.splits)
  qed
  then show ?case
    using Cons.IH [of "snd (bridge_step i e (dead, r))" "fst (bridge_step i e (dead, r))"] Cons.prems(2) by simp
qed simp

subsection \<open>Every run ends its task\<close>

lemma register_locked_queues:
  assumes "reg_ok r" and "register_locked kind source destination retry_of r = (Inr i, r')" and "reg_ok r'"
  shows "in_state i Queued r' \<and> get_task i r' = Some (new_snapshot i kind source destination retry_of)"
proof -
  obtain r1 where mc: "make_capacity r = (Inr (), r1)"
    using assms(2) by (auto simp: register_locked_def Let_def split: if_splits prod.splits sum.splits)
  have "bt_ok (tasks r1)" using make_capacity_result(1) [OF assms(1)] reg_okD(1) mc by simp
  then show ?thesis
    using assms(2,3) mc
    by (auto simp: register_locked_def in_state_def get_task_def new_snapshot_def Let_def bt.get_put
        split: if_splits option.splits)
qed

text \<open>
  How the record of a task ends for an outcome of its transfer: the caller's result and the record agree, and
  an error ends as cancelled exactly when the token of the task was cancelled.
\<close>

definition ended_by ::
  "ClientOps \<Rightarrow> rstring + TransferSummary \<Rightarrow> manager_error + TransferSummary \<Rightarrow> TaskRecord \<Rightarrow> bool" where
  "ended_by ops result res a \<longleftrightarrow>
     (let t = snapshot a in
      case res of
        Inr summary \<Rightarrow> result = Inr summary \<and> s_state t = Completed \<and> s_summary t = Some summary
      | Inl (TransferError e) \<Rightarrow>
          result = Inl e \<and>
          (if cancelled a then s_state t = Cancelled \<and> s_cancel_requested t
           else s_state t = Failed \<and> s_error t = Some (bounded_text e))
      | Inl (TrackingFailed e) \<Rightarrow> s_state t = Failed \<and> s_error t = Some (bounded_text (tracking_text ops e))
      | _ \<Rightarrow> False)"


lemma finish_task_ends:
  assumes "in_state i Running r" and "finish_task i result r = (res, r')"
  shows "\<exists>a. bt_get (tasks r') i = Some a \<and> ended_by ops result res a"
proof -
  obtain a where a: "bt_ok (tasks r)" "bt_get (tasks r) i = Some a" "s_state (snapshot a) = Running"
    using assms(1) reg_okD(1) by (auto simp: in_state_def)
  then show ?thesis
    using assms(2)
    by (auto simp: finish_task_def complete_def mark_cancelled_def fail_def with_task_def bt.get_put
        ended_by_def token_is_cancelled_def split: sum.splits if_splits)
qed

lemma fail_ends:
  assumes "in_state i Running r"
  shows "\<exists>a. bt_get (tasks (snd (fail i m r))) i = Some a \<and> s_state (snapshot a) = Failed \<and>
    s_error (snapshot a) = Some (bounded_text m)"
  using assms reg_okD(1) by (auto simp: in_state_def fail_def with_task_def bt.get_put)

lemma run_registered_ends:
  assumes "in_state i Queued r0" and "schedule_ok i sch"
    and "run_registered ops sch resume_flag i kind source destination r0 = (res, r')"
  shows "\<exists>a. bt_get (tasks r') i = Some a \<and> ended_by ops (run_transfer ops resume_flag kind source destination) res a"
proof -
  let ?r1 = "run task_exec (before_start sch) r0"
  have queued: "in_state i Queued ?r1"
    using run_keeps_state assms(1,2) by (simp add: schedule_ok_def)
  obtain r2 where start: "mark_running i ?r1 = (Inr (), r2)" and running: "in_state i Running r2"
    using queued lawful_keeps_all(1) [of ?r1 i] reg_okD(1) [of ?r1]
    by (auto simp: in_state_def mark_running_def with_task_def set_state_def bt.get_put)
  obtain dead r3 where bridge: "tracking_bridge i (while_running sch) r2 = (dead, r3)"
    by (cases "tracking_bridge i (while_running sch) r2")
  have "in_state i Running r3"
    using bridge_keeps_state [OF running, of "while_running sch" None] bridge assms(2)
    by (simp add: tracking_bridge_def schedule_ok_def)
  then have last: "in_state i Running (run task_exec (before_finish sch) r3)"
    using run_keeps_state assms(2) by (simp add: schedule_ok_def)
  show ?thesis
  proof (cases dead)
    case None
    then show ?thesis
      using finish_task_ends [OF last] assms(3) start bridge by (simp add: run_registered_def)
  next
    case (Some e)
    then show ?thesis
      using fail_ends [OF last, of "tracking_text ops e"] assms(3) start bridge
      by (auto simp: run_registered_def ended_by_def)
  qed
qed





text \<open>
  A retry repeats the transfer of the task it names, with resumption on, under a new task that records
  which one it repeats, and ends that task like any other run.
\<close>

theorem retry_repeats_transfer:
  assumes "registry_new n = Inr r0" and "r = run task_exec cs r0"
    and "get_task previous r = Some s" and "register_retry previous r = (Inr i, r1)" and "schedule_ok i sch"
    and "retry_task ops sch previous r = (res, r')"
  shows "get_task i r1 = Some (new_snapshot i (s_kind s) (s_source s) (s_destination s) (Some previous)) \<and>
    (\<exists>a. bt_get (tasks r') i = Some a \<and>
       ended_by ops (run_transfer ops True (s_kind s) (s_source s) (s_destination s)) res a)"
proof -
  have ok: "reg_ok r" unfolding assms(2) by (rule reachable_reg_ok [OF assms(1)])
  have locked: "register_locked (s_kind s) (s_source s) (s_destination s) (Some previous) r = (Inr i, r1)"
    using assms(3,4) by (auto simp: register_retry_def get_task_def Let_def split: if_splits option.splits)
  have "reg_ok r1" using register_retry_keeps [OF ok, of previous] assms(4) by simp
  note queued = register_locked_queues [OF ok locked this]
  have "run_registered ops sch True i (s_kind s) (s_source s) (s_destination s) r1 = (res, r')"
    using assms(3,4,6) by (simp add: retry_task_def)
  with queued run_registered_ends [OF _ assms(5) this] show ?thesis by blast
qed

end
