(* ===== verification/Inventory.thy ===== *)
theory Inventory
  imports Connection_Target BTree_Map Utf8 Remote_Path
begin

section \<open>Host inventories\<close>

text \<open>
  Model of \<open>kaduox-ssh-openssh/src/inventory.rs\<close>: the inventory file of hosts and nested groups, its
  parser with its limits, and the expansion of a group by a depth-first walk that detects cycles. The
  environment and the content of the file are parameters. A set of hosts is an ordered map to unit.
\<close>

datatype (plugins only: code size) inventory_error =
    InvHostArity | InvHostTarget target_error | InvHostDuplicate rstring | InvTooManyHosts
  | InvGroupArity | InvGroupName rstring | InvGroupDuplicate rstring | InvTooManyGroups
  | InvMemberTarget target_error | InvMemberDuplicate rstring | InvTooManyMembers
  | InvDirective rstring | InvUndeclaredHost rstring | InvUnknownGroup rstring
  | InvCycle "rstring list" | InvGroupMissing rstring | InvExpansion rstring
  | InvUnreadable | InvTooLarge | InvNotUtf8 | InvNoPath

definition MAX_INVENTORY_BYTES :: nat where "MAX_INVENTORY_BYTES = 1024 * 1024"
definition INVENTORY_MAX_HOSTS :: nat where "INVENTORY_MAX_HOSTS = 4096"
definition MAX_GROUPS :: nat where "MAX_GROUPS = 512"
definition MAX_GROUP_MEMBERS :: nat where "MAX_GROUP_MEMBERS = 8192"
definition MAX_EXPANDED_GROUP_HOSTS :: nat where "MAX_EXPANDED_GROUP_HOSTS = 1024"

datatype InventoryMember = MemberHost rstring | MemberGroup rstring

record InventoryGroup =
  ig_name :: rstring
  ig_members :: "InventoryMember list"

record HostInventory =
  inv_source :: "rstring option"
  inv_hosts :: "rstring list"
  inv_groups :: "InventoryGroup list"

type_synonym group_map = "(rstring, InventoryMember list) btmap"

subsection \<open>Expansion\<close>

type_synonym expansion = "rstring set \<times> rstring list"

function expand_group_inner :: "group_map \<Rightarrow> rstring \<Rightarrow> rstring list \<Rightarrow> expansion \<Rightarrow> inventory_error + expansion"
  and expand_members ::
    "group_map \<Rightarrow> rstring \<Rightarrow> InventoryMember list \<Rightarrow> rstring list \<Rightarrow> expansion \<Rightarrow> inventory_error + expansion" where
  "expand_group_inner groups name visiting st =
     (if name \<in> set visiting then Inl (InvCycle (dropWhile (\<lambda>e. e \<noteq> name) visiting @ [name]))
      else case bt_get groups name of
        None \<Rightarrow> Inl (InvGroupMissing name)
      | Some members \<Rightarrow> expand_members groups name members (visiting @ [name]) st)"
| "expand_members groups name [] visiting st = Inr st"
| "expand_members groups name (MemberHost host # ms) visiting (seen, expanded) =
     (if host \<in> seen then expand_members groups name ms visiting (seen, expanded)
      else if MAX_EXPANDED_GROUP_HOSTS < length (expanded @ [host]) then Inl (InvExpansion name)
      else expand_members groups name ms visiting (insert host seen, expanded @ [host]))"
| "expand_members groups name (MemberGroup grp # ms) visiting st =
     and_then (expand_group_inner groups grp visiting st) (\<lambda>st'. expand_members groups name ms visiting st')"
  by pat_completeness auto

termination
proof (relation "measures
    [\<lambda>x. case x of Inl (g, n, v, s) \<Rightarrow> card (fst ` set g - set v) | Inr (g, n, ms, v, s) \<Rightarrow> card (fst ` set g - set v),
     \<lambda>x. case x of Inl _ \<Rightarrow> 0 | Inr (g, n, ms, v, s) \<Rightarrow> length ms]")
  fix groups :: group_map and name visiting st members
  assume "name \<notin> set visiting" and "bt_get groups name = Some members"
  then have "name \<in> fst ` set groups - set visiting" using bt_get_SomeD by force
  then have "card (fst ` set groups - insert name (set visiting)) < card (fst ` set groups - set visiting)"
    by (intro psubset_card_mono) auto
  then show "(Inr (groups, name, members, visiting @ [name], st), Inl (groups, name, visiting, st)) \<in> measures
    [\<lambda>x. case x of Inl (g, n, v, s) \<Rightarrow> card (fst ` set g - set v) | Inr (g, n, ms, v, s) \<Rightarrow> card (fst ` set g - set v),
     \<lambda>x. case x of Inl _ \<Rightarrow> 0 | Inr (g, n, ms, v, s) \<Rightarrow> length ms]" by simp
qed auto

declare expand_group_inner.simps [simp del]

definition group_lookup :: "InventoryGroup list \<Rightarrow> group_map" where
  "group_lookup gs = fold (\<lambda>g m. bt_insert (ig_name g) (ig_members g) m) gs []"

definition expand_group :: "HostInventory \<Rightarrow> rstring \<Rightarrow> inventory_error + rstring list" where
  "expand_group iv name =
     (let lookup = group_lookup (inv_groups iv) in
      if bt_get lookup name = None then Inl (InvGroupMissing name)
      else and_then (expand_group_inner lookup name [] ({}, [])) (\<lambda>(_, expanded). Inr expanded))"

subsection \<open>Parsing\<close>

definition validate_group_name :: "rstring \<Rightarrow> inventory_error + unit" where
  "validate_group_name name =
     (if name = [] \<or> 64 < str_len name then Inl (InvGroupName name)
      else if \<not> list_all (\<lambda>c. is_ascii_alphanumeric c \<or> c \<in> {46, 95, 45}) name then Inl (InvGroupName name)
      else Inr ())"

record InventoryState =
  is_hosts :: "(rstring, unit) btmap"
  is_groups :: group_map
  is_members :: nat

definition parse_member :: "rstring \<Rightarrow> inventory_error + InventoryMember" where
  "parse_member tok =
     (case strip_prefix [64] tok of
        Some grp \<Rightarrow> and_then (validate_group_name grp) (\<lambda>_. Inr (MemberGroup grp))
      | None \<Rightarrow> and_then (map_err InvMemberTarget (target_parse tok)) (\<lambda>_. Inr (MemberHost tok)))"

fun parse_members :: "rstring list \<Rightarrow> InventoryMember list \<Rightarrow> nat \<Rightarrow> inventory_error + InventoryMember list \<times> nat" where
  "parse_members [] members n = Inr (members, n)"
| "parse_members (tok # toks) members n =
     and_then (parse_member tok) (\<lambda>m.
       if m \<in> set members then Inl (InvMemberDuplicate tok)
       else if MAX_GROUP_MEMBERS < n + 1 then Inl InvTooManyMembers
       else parse_members toks (members @ [m]) (n + 1))"

definition inventory_line :: "rstring \<Rightarrow> InventoryState \<Rightarrow> inventory_error + InventoryState" where
  "inventory_line raw st =
     (let toks = split_whitespace (trim (takeWhile (\<lambda>c. c \<noteq> 35) raw)) in
      case toks of
        [] \<Rightarrow> Inr st
      | directive # args \<Rightarrow>
          if directive = lit ''host'' then
            (case args of
               [target] \<Rightarrow>
                 and_then (map_err InvHostTarget (target_parse target)) (\<lambda>_.
                   if bt_contains (is_hosts st) target then Inl (InvHostDuplicate target)
                   else
                     let hosts = bt_insert target () (is_hosts st) in
                     if INVENTORY_MAX_HOSTS < length hosts then Inl InvTooManyHosts
                     else Inr (st\<lparr>is_hosts := hosts\<rparr>))
             | _ \<Rightarrow> Inl InvHostArity)
          else if directive = lit ''group'' then
            (case args of
               name # tok # rest \<Rightarrow>
                 and_then (validate_group_name name) (\<lambda>_.
                   if bt_contains (is_groups st) name then Inl (InvGroupDuplicate name)
                   else if MAX_GROUPS \<le> length (is_groups st) then Inl InvTooManyGroups
                   else
                     and_then (parse_members (tok # rest) [] (is_members st)) (\<lambda>(members, n).
                       Inr (st\<lparr>is_groups := bt_insert name members (is_groups st), is_members := n\<rparr>)))
             | _ \<Rightarrow> Inl InvGroupArity)
          else Inl (InvDirective directive))"

fun inventory_lines :: "rstring list \<Rightarrow> InventoryState \<Rightarrow> inventory_error + InventoryState" where
  "inventory_lines [] st = Inr st"
| "inventory_lines (l # ls) st = and_then (inventory_line l st) (\<lambda>st'. inventory_lines ls st')"

definition check_member :: "InventoryState \<Rightarrow> InventoryMember \<Rightarrow> inventory_error + unit" where
  "check_member st m =
     (case m of
        MemberHost h \<Rightarrow> if \<not> bt_contains (is_hosts st) h then Inl (InvUndeclaredHost h) else Inr ()
      | MemberGroup g \<Rightarrow> if \<not> bt_contains (is_groups st) g then Inl (InvUnknownGroup g) else Inr ())"

definition inventory_start :: InventoryState where
  "inventory_start = \<lparr>is_hosts = [], is_groups = [], is_members = 0\<rparr>"

definition inventory_of :: "InventoryState \<Rightarrow> rstring option \<Rightarrow> HostInventory" where
  "inventory_of st source =
     \<lparr>inv_source = source, inv_hosts = map fst (is_hosts st),
      inv_groups = map (\<lambda>(name, members). \<lparr>ig_name = name, ig_members = members\<rparr>) (is_groups st)\<rparr>"

definition parse_inventory :: "rstring \<Rightarrow> rstring option \<Rightarrow> inventory_error + HostInventory" where
  "parse_inventory text source =
     and_then (inventory_lines (lines_of text) inventory_start) (\<lambda>st.
     and_then (try_each (\<lambda>(name, members). try_each (check_member st) members) (is_groups st)) (\<lambda>_.
     let iv = inventory_of st source in
     and_then (try_each (\<lambda>g. and_then (expand_group iv (ig_name g)) (\<lambda>_. Inr ())) (inv_groups iv)) (\<lambda>_.
       Inr iv)))"

definition find_group :: "HostInventory \<Rightarrow> rstring \<Rightarrow> InventoryGroup option" where
  "find_group iv name = List.find (\<lambda>g. ig_name g = name) (inv_groups iv)"

datatype read_outcome = ReadBytes "u8 list" | ReadNotFound | ReadFailed

definition inventory_from_bytes :: "rstring \<Rightarrow> u8 list \<Rightarrow> inventory_error + HostInventory" where
  "inventory_from_bytes path bytes =
     (if MAX_INVENTORY_BYTES < length bytes then Inl InvTooLarge
      else case from_utf8 bytes of None \<Rightarrow> Inl InvNotUtf8 | Some text \<Rightarrow> parse_inventory text (Some path))"

definition load_inventory :: "(rstring \<Rightarrow> read_outcome) \<Rightarrow> rstring \<Rightarrow> inventory_error + HostInventory" where
  "load_inventory read path =
     (case read path of ReadBytes bytes \<Rightarrow> inventory_from_bytes path bytes | _ \<Rightarrow> Inl InvUnreadable)"

definition non_empty_env :: "(rstring \<Rightarrow> rstring option) \<Rightarrow> rstring \<Rightarrow> rstring option" where
  "non_empty_env env name = (case env name of Some v \<Rightarrow> if trim v = [] then None else Some v | None \<Rightarrow> None)"

definition default_inventory_path :: "(rstring \<Rightarrow> rstring option) \<Rightarrow> inventory_error + rstring" where
  "default_inventory_path env =
     (case non_empty_env env (lit ''KADUOX_SSH_INVENTORY'') of
        Some path \<Rightarrow> Inr path
      | None \<Rightarrow>
          (case non_empty_env env (lit ''XDG_CONFIG_HOME'') of
             Some xdg \<Rightarrow> Inr (path_push (path_push xdg (lit ''kaduox-ssh'')) (lit ''inventory''))
           | None \<Rightarrow>
               (case non_empty_env env (lit ''HOME'') of
                  Some home \<Rightarrow>
                    Inr (path_push (path_push (path_push home (lit ''.config'')) (lit ''kaduox-ssh'')) (lit ''inventory''))
                | None \<Rightarrow> Inl InvNoPath)))"

definition discover_inventory ::
  "(rstring \<Rightarrow> rstring option) \<Rightarrow> (rstring \<Rightarrow> read_outcome) \<Rightarrow> inventory_error + HostInventory" where
  "discover_inventory env read =
     and_then (default_inventory_path env) (\<lambda>path.
       case read path of
         ReadBytes bytes \<Rightarrow> inventory_from_bytes path bytes
       | ReadNotFound \<Rightarrow> Inr \<lparr>inv_source = Some path, inv_hosts = [], inv_groups = []\<rparr>
       | ReadFailed \<Rightarrow> Inl InvUnreadable)"

subsection \<open>What a group denotes\<close>

inductive denotes :: "group_map \<Rightarrow> rstring \<Rightarrow> rstring \<Rightarrow> bool" for groups where
  denotes_host: "bt_get groups g = Some ms \<Longrightarrow> MemberHost h \<in> set ms \<Longrightarrow> denotes groups g h"
| denotes_group: "bt_get groups g = Some ms \<Longrightarrow> MemberGroup g' \<in> set ms \<Longrightarrow> denotes groups g' h \<Longrightarrow> denotes groups g h"

definition contains_group :: "group_map \<Rightarrow> rstring \<Rightarrow> rstring \<Rightarrow> bool" where
  "contains_group groups g g' \<longleftrightarrow> (\<exists>ms. bt_get groups g = Some ms \<and> MemberGroup g' \<in> set ms)"

definition members_denote :: "group_map \<Rightarrow> InventoryMember list \<Rightarrow> rstring set" where
  "members_denote groups ms = {h. MemberHost h \<in> set ms \<or> (\<exists>g. MemberGroup g \<in> set ms \<and> denotes groups g h)}"

lemma denotes_members: "bt_get groups g = Some ms \<Longrightarrow> {h. denotes groups g h} = members_denote groups ms"
  by (auto simp: members_denote_def intro: denotes.intros elim: denotes.cases)

lemma members_denote_Cons:
  "members_denote groups (MemberHost h # ms) = insert h (members_denote groups ms)"
  "members_denote groups (MemberGroup g # ms) = {h. denotes groups g h} \<union> members_denote groups ms"
  by (auto simp: members_denote_def)

definition expanded_ok :: "expansion \<Rightarrow> bool" where
  "expanded_ok st \<longleftrightarrow> fst st = set (snd st) \<and> distinct (snd st) \<and> length (snd st) \<le> MAX_EXPANDED_GROUP_HOSTS"

lemma expansion_denotes:
  "expand_group_inner groups name visiting st = Inr st' \<Longrightarrow> expanded_ok st \<Longrightarrow>
     expanded_ok st' \<and> set (snd st') = set (snd st) \<union> {h. denotes groups name h}"
  "expand_members groups name ms visiting st = Inr st' \<Longrightarrow> expanded_ok st \<Longrightarrow>
     expanded_ok st' \<and> set (snd st') = set (snd st) \<union> members_denote groups ms"
proof (induction groups name visiting st and groups name ms visiting st arbitrary: st' and st'
    rule: expand_group_inner_expand_members.induct)
  case (1 groups name visiting st)
  then show ?case
    by (auto simp: expand_group_inner.simps denotes_members split: if_splits option.splits)
next
  case (2 groups name visiting st)
  then show ?case by (simp add: members_denote_def)
next
  case (3 groups name host ms visiting seen expanded)
  show ?case
  proof (cases "host \<in> seen")
    case True
    then show ?thesis using 3 by (auto simp: members_denote_Cons expanded_ok_def)
  next
    case False
    then have "expand_members groups name ms visiting (insert host seen, expanded @ [host]) = Inr st'"
      and "length (expanded @ [host]) \<le> MAX_EXPANDED_GROUP_HOSTS"
      using "3.prems"(1) by (auto split: if_splits)
    moreover have "expanded_ok (insert host seen, expanded @ [host])"
      using calculation(2) False "3.prems"(2) by (auto simp: expanded_ok_def)
    ultimately show ?thesis
      using "3.IH"(2) [of st'] False by (auto simp: members_denote_Cons)
  qed
next
  case (4 groups name grp ms visiting st)
  then obtain st1 where "expand_group_inner groups grp visiting st = Inr st1" "expand_members groups name ms visiting st1 = Inr st'"
    by (auto simp: and_then_eq_Inr)
  with "4.IH"(1) [of st1] "4.IH"(2) [of st1 st'] "4.prems"(2) show ?case by (auto simp: members_denote_Cons)
qed

text \<open>A walk that succeeds has met no group twice on one path.\<close>

definition acyclic_from :: "group_map \<Rightarrow> rstring list \<Rightarrow> rstring \<Rightarrow> bool" where
  "acyclic_from groups visiting name \<longleftrightarrow>
     (\<forall>g. (contains_group groups)\<^sup>*\<^sup>* name g \<longrightarrow> g \<notin> set visiting \<and> \<not> (contains_group groups)\<^sup>+\<^sup>+ g g)"

lemma acyclic_from_members:
  assumes "bt_get groups name = Some ms" "name \<notin> set visiting"
    and members: "\<And>g. MemberGroup g \<in> set ms \<Longrightarrow> acyclic_from groups (visiting @ [name]) g"
  shows "acyclic_from groups visiting name"
  unfolding acyclic_from_def
proof (intro allI impI)
  fix g assume "(contains_group groups)\<^sup>*\<^sup>* name g"
  then show "g \<notin> set visiting \<and> \<not> (contains_group groups)\<^sup>+\<^sup>+ g g"
  proof (cases rule: converse_rtranclpE)
    case base
    have "\<not> (contains_group groups)\<^sup>+\<^sup>+ name name"
    proof
      assume "(contains_group groups)\<^sup>+\<^sup>+ name name"
      then obtain g' where "contains_group groups name g'" "(contains_group groups)\<^sup>*\<^sup>* g' name"
        by (auto dest: tranclpD)
      with members show False using assms(1) by (auto simp: contains_group_def acyclic_from_def)
    qed
    then show ?thesis using base assms(2) by simp
  next
    case (step g')
    then show ?thesis using members assms(1) by (auto simp: contains_group_def acyclic_from_def)
  qed
qed

lemma expansion_acyclic:
  "expand_group_inner groups name visiting st = Inr st' \<Longrightarrow> acyclic_from groups visiting name"
  "expand_members groups name ms visiting st = Inr st' \<Longrightarrow> MemberGroup g \<in> set ms \<Longrightarrow> acyclic_from groups visiting g"
proof (induction groups name visiting st and groups name ms visiting st arbitrary: st' and st' g
    rule: expand_group_inner_expand_members.induct)
  case (1 groups name visiting st)
  obtain ms where ms: "name \<notin> set visiting" "bt_get groups name = Some ms"
    and run: "expand_members groups name ms (visiting @ [name]) st = Inr st'"
    using "1.prems" by (auto simp: expand_group_inner.simps split: if_splits option.splits)
  show ?case using acyclic_from_members [OF ms(2,1) "1.IH" [OF ms run]] .
next
  case (3 groups name host ms visiting seen expanded)
  then show ?case by (auto split: if_splits)
next
  case (4 groups name grp ms visiting st)
  then obtain st1 where st1: "expand_group_inner groups grp visiting st = Inr st1"
      "expand_members groups name ms visiting st1 = Inr st'"
    by (auto simp: and_then_eq_Inr)
  then show ?case
    using "4.IH"(1) [OF st1(1)] "4.IH"(2) [OF st1] "4.prems"(2) by (cases "g = grp") auto
qed simp

text \<open>The lookup table of an inventory with distinct group names is the table it was made from.\<close>

lemma group_lookup_get:
  "bt_ok m \<Longrightarrow> bt_ok (fold (\<lambda>g m. bt_insert (ig_name g) (ig_members g) m) gs m) \<and>
     bt_get (fold (\<lambda>g m. bt_insert (ig_name g) (ig_members g) m) gs m) =
       bt_get m ++ map_of (rev (map (\<lambda>g. (ig_name g, ig_members g)) gs))"
  by (induction gs arbitrary: m) (auto simp: bt.ok_put bt.get_put map_add_def fun_eq_iff split: option.splits)

lemma group_lookup_of:
  assumes "bt_ok gs"
  shows "bt_get (group_lookup (map (\<lambda>(name, members). \<lparr>ig_name = name, ig_members = members\<rparr>) gs)) = bt_get gs"
proof -
  have "map ((\<lambda>g. (ig_name g, ig_members g)) \<circ> (\<lambda>(name, members). \<lparr>ig_name = name, ig_members = members\<rparr>)) gs = gs"
    by (induction gs) auto
  moreover have "map_of (rev gs) = map_of gs"
    using bt_ok_distinct [OF assms] by (intro map_of_inject_set [THEN iffD2]) (auto simp: rev_map [symmetric])
  ultimately show ?thesis
    using group_lookup_get [of "[]" "map (\<lambda>(name, members). \<lparr>ig_name = name, ig_members = members\<rparr>) gs"]
    by (simp add: group_lookup_def bt_get_def map_add_def)
qed

subsection \<open>Well-formed inventories\<close>

definition state_ok :: "InventoryState \<Rightarrow> bool" where
  "state_ok st \<longleftrightarrow> bt_ok (is_hosts st) \<and> bt_ok (is_groups st) \<and> length (is_hosts st) \<le> INVENTORY_MAX_HOSTS \<and>
     length (is_groups st) \<le> MAX_GROUPS \<and> is_members st \<le> MAX_GROUP_MEMBERS \<and>
     sum_list (map (length \<circ> snd) (is_groups st)) = is_members st"

lemma parse_members_count:
  "parse_members toks members n = Inr (members', n') \<Longrightarrow> n \<le> MAX_GROUP_MEMBERS \<Longrightarrow>
     n' \<le> MAX_GROUP_MEMBERS \<and> n' + length members = n + length members'"
  by (induction toks arbitrary: members n) (fastforce simp: and_then_eq_Inr split: if_splits)+

lemma sum_list_bt_insert:
  "bt_get m k = None \<Longrightarrow> sum_list (map (length \<circ> snd) (bt_insert k v m)) = length v + sum_list (map (length \<circ> snd) m)"
  by (induction k v m rule: bt_insert.induct) (auto simp: bt_get_def split: if_splits)

lemma inventory_host_ok:
  assumes "state_ok st" "bt_get (is_hosts st) t = None" "length (bt_insert t () (is_hosts st)) \<le> INVENTORY_MAX_HOSTS"
  shows "state_ok (st\<lparr>is_hosts := bt_insert t () (is_hosts st)\<rparr>)"
  using assms bt.ok_put [of "is_hosts st"] by (simp add: state_ok_def)

lemma inventory_group_ok:
  assumes "state_ok st" "bt_get (is_groups st) name = None" "length (is_groups st) < MAX_GROUPS"
    and "parse_members toks [] (is_members st) = Inr (members, n)"
  shows "state_ok (st\<lparr>is_groups := bt_insert name members (is_groups st), is_members := n\<rparr>)"
proof -
  have ok: "bt_ok (is_groups st)" using assms(1) by (simp add: state_ok_def)
  show ?thesis
    using assms(1-3) parse_members_count [OF assms(4)] bt.ok_put [OF ok] length_bt_insert [OF ok, of name members]
      sum_list_bt_insert [OF assms(2), of members]
    by (simp add: state_ok_def)
qed

lemma inventory_line_ok:
  assumes "inventory_line raw st = Inr st'" "state_ok st"
  shows "state_ok st'"
proof -
  define toks where "toks = split_whitespace (trim (takeWhile (\<lambda>c. c \<noteq> 35) raw))"
  note line = assms(1) [unfolded inventory_line_def Let_def, folded toks_def]
  show ?thesis
  proof (cases toks)
    case Nil
    then show ?thesis using line assms(2) by simp
  next
    case (Cons d args)
    show ?thesis
    proof (cases "d = lit ''host''")
      case True
      then obtain t where "args = [t]" using line Cons by (auto split: list.splits)
      then show ?thesis
        using line Cons True assms(2) inventory_host_ok [OF assms(2), of t]
        by (cases "bt_get (is_hosts st) t") (auto simp: and_then_eq_Inr split: if_splits)
    next
      case False
      then obtain name tok rest where "args = name # tok # rest" and d: "d = lit ''group''"
        using line Cons by (auto split: list.splits if_splits)
      then obtain members n where "bt_get (is_groups st) name = None" "length (is_groups st) < MAX_GROUPS"
          "parse_members (tok # rest) [] (is_members st) = Inr (members, n)"
          "st' = st\<lparr>is_groups := bt_insert name members (is_groups st), is_members := n\<rparr>"
        using line Cons False by (auto simp: and_then_eq_Inr simp del: parse_members.simps split: if_splits)
      then show ?thesis using inventory_group_ok [OF assms(2)] by (simp del: parse_members.simps)
    qed
  qed
qed

lemma inventory_lines_ok: "inventory_lines ls st = Inr st' \<Longrightarrow> state_ok st \<Longrightarrow> state_ok st'"
  by (induction ls arbitrary: st) (auto simp: and_then_eq_Inr intro: inventory_line_ok)

subsection \<open>Properties\<close>

lemma expand_hosts:
  assumes "expand_group iv name = Inr hosts"
  shows "distinct hosts" "set hosts = {h. denotes (group_lookup (inv_groups iv)) name h}"
    "length hosts \<le> MAX_EXPANDED_GROUP_HOSTS" "acyclic_from (group_lookup (inv_groups iv)) [] name"
proof -
  obtain seen where run: "expand_group_inner (group_lookup (inv_groups iv)) name [] ({}, []) = Inr (seen, hosts)"
    using assms by (auto simp: expand_group_def and_then_eq_Inr Let_def split: if_splits)
  have "expanded_ok ({}, [])" by (simp add: expanded_ok_def)
  from expansion_denotes(1) [OF run this] expansion_acyclic(1) [OF run]
  show "distinct hosts" "set hosts = {h. denotes (group_lookup (inv_groups iv)) name h}"
    "length hosts \<le> MAX_EXPANDED_GROUP_HOSTS" "acyclic_from (group_lookup (inv_groups iv)) [] name"
    by (simp_all add: expanded_ok_def)
qed

lemma expand_acyclic:
  "expand_group iv name = Inr hosts \<Longrightarrow> \<not> (contains_group (group_lookup (inv_groups iv)))\<^sup>+\<^sup>+ name name"
  using expand_hosts(4) by (auto simp: acyclic_from_def)

text \<open>
  C26. Expanding a group is exact: when it succeeds, the result lists every host the group denotes, directly
  or through nested groups, each once and at most \<open>MAX_EXPANDED_GROUP_HOSTS\<close> of them, and no group below
  it contains itself.
\<close>

theorem group_expansion_exact:
  assumes "expand_group iv name = Inr hosts"
  shows "distinct hosts \<and> set hosts = {h. denotes (group_lookup (inv_groups iv)) name h} \<and>
    length hosts \<le> MAX_EXPANDED_GROUP_HOSTS \<and>
    (\<forall>g. (contains_group (group_lookup (inv_groups iv)))\<^sup>*\<^sup>* name g \<longrightarrow>
       \<not> (contains_group (group_lookup (inv_groups iv)))\<^sup>+\<^sup>+ g g)"
  using expand_hosts [OF assms] by (simp add: acyclic_from_def)

lemma denotes_declared:
  assumes "\<forall>(g, ms) \<in> set gs. \<forall>h. MemberHost h \<in> set ms \<longrightarrow> h \<in> H" and "bt_get groups = bt_get gs"
  shows "denotes groups g h \<Longrightarrow> h \<in> H"
  by (induction rule: denotes.induct) (use assms bt_get_SomeD in fastforce)+

text \<open>
  C40. A parsed inventory is well formed: its limits hold, its groups do not contain themselves, every group
  expands, and what it expands to are declared hosts.
\<close>

theorem parsed_inventory_wf:
  assumes "parse_inventory text source = Inr iv"
  shows "sorted_wrt (<) (inv_hosts iv) \<and> length (inv_hosts iv) \<le> INVENTORY_MAX_HOSTS \<and>
    sorted_wrt (<) (map ig_name (inv_groups iv)) \<and> length (inv_groups iv) \<le> MAX_GROUPS \<and>
    sum_list (map (length \<circ> ig_members) (inv_groups iv)) \<le> MAX_GROUP_MEMBERS \<and>
    (\<forall>g \<in> set (inv_groups iv). \<exists>hosts. expand_group iv (ig_name g) = Inr hosts \<and> set hosts \<subseteq> set (inv_hosts iv)) \<and>
    (\<forall>g. \<not> (contains_group (group_lookup (inv_groups iv)))\<^sup>+\<^sup>+ g g)"
proof -
  obtain st where run: "inventory_lines (lines_of text) inventory_start = Inr st"
    and checked: "\<forall>(name, members) \<in> set (is_groups st). \<forall>m \<in> set members. check_member st m = Inr ()"
    and iv: "iv = inventory_of st source"
    and expands: "\<forall>g \<in> set (inv_groups iv). \<exists>hosts. expand_group iv (ig_name g) = Inr hosts"
    using assms unfolding parse_inventory_def by (fastforce simp: and_then_eq_Inr try_each_ok Let_def)
  have st: "state_ok st"
    using inventory_lines_ok [OF run] by (simp add: state_ok_def inventory_start_def)
  let ?m = "group_lookup (inv_groups iv)"
  have get: "bt_get ?m = bt_get (is_groups st)"
    using group_lookup_of [of "is_groups st"] st by (simp add: iv inventory_of_def state_ok_def)
  have names: "map ig_name (inv_groups iv) = map fst (is_groups st)"
    by (simp add: iv inventory_of_def case_prod_beta)
  have sizes: "map (length \<circ> ig_members) (inv_groups iv) = map (length \<circ> snd) (is_groups st)"
    by (simp add: iv inventory_of_def case_prod_beta)
  have declared: "h \<in> set (inv_hosts iv)" if "denotes ?m g h" for g h
  proof (rule denotes_declared [OF _ get that])
    show "\<forall>(g, ms) \<in> set (is_groups st). \<forall>h. MemberHost h \<in> set ms \<longrightarrow> h \<in> set (inv_hosts iv)"
      using checked by (fastforce simp: check_member_def iv inventory_of_def bt_get_None_iff split: if_splits)
  qed
  have hosts: "\<exists>hosts. expand_group iv (ig_name g) = Inr hosts \<and> set hosts \<subseteq> set (inv_hosts iv)"
    if "g \<in> set (inv_groups iv)" for g
  proof -
    from bspec [OF expands that] obtain hosts where "expand_group iv (ig_name g) = Inr hosts" by (rule exE)
    moreover have "set hosts \<subseteq> set (inv_hosts iv)"
      unfolding expand_hosts(2) [OF calculation] using declared by auto
    ultimately show ?thesis by blast
  qed
  have "\<not> (contains_group ?m)\<^sup>+\<^sup>+ g g" for g
  proof
    assume cycle: "(contains_group ?m)\<^sup>+\<^sup>+ g g"
    then obtain ms where "bt_get ?m g = Some ms" by (auto dest!: tranclpD simp: contains_group_def)
    then have "g \<in> fst ` set (is_groups st)" using get bt_get_SomeD by force
    then have "g \<in> ig_name ` set (inv_groups iv)" by (simp only: set_map [symmetric] names)
    then obtain x where x: "x \<in> set (inv_groups iv)" "g = ig_name x" by (rule imageE)
    from bspec [OF expands x(1)] obtain hosts where "expand_group iv (ig_name x) = Inr hosts" by (rule exE)
    from expand_acyclic [OF this] cycle x(2) show False by simp
  qed
  moreover have "inv_hosts iv = map fst (is_hosts st)" "length (inv_groups iv) = length (is_groups st)"
    by (simp_all add: iv inventory_of_def)
  ultimately show ?thesis
    using st hosts unfolding names sizes by (simp add: state_ok_def bt_ok_def)
qed

definition sample_inventory :: rstring where
  "sample_inventory = unlines (map lit [''host w'', ''host d'', ''group web w'', ''group prod @web d w'']) "

lemma sample_inventory_parses:
  obtains iv where "parse_inventory sample_inventory None = Inr iv" "expand_group iv (lit ''prod'') = Inr [lit ''w'', lit ''d'']"
proof -
  have "(case parse_inventory sample_inventory None of Inl _ \<Rightarrow> False
      | Inr iv \<Rightarrow> expand_group iv (lit ''prod'') = Inr [lit ''w'', lit ''d''])" by code_simp
  then show ?thesis by (auto intro: that split: sum.splits)
qed

theorem group_expansion_exact_witness:
  "\<exists>iv. parse_inventory sample_inventory None = Inr iv \<and>
     {h. denotes (group_lookup (inv_groups iv)) (lit ''prod'') h} = {lit ''w'', lit ''d''}"
proof -
  obtain iv where iv: "parse_inventory sample_inventory None = Inr iv" "expand_group iv (lit ''prod'') = Inr [lit ''w'', lit ''d'']"
    by (rule sample_inventory_parses)
  show ?thesis using group_expansion_exact [OF iv(2)] iv(1) by auto
qed

theorem parsed_inventory_wf_witness:
  "\<exists>iv. parse_inventory sample_inventory None = Inr iv \<and>
     \<not> (contains_group (group_lookup (inv_groups iv)))\<^sup>+\<^sup>+ (lit ''prod'') (lit ''prod'')"
proof -
  obtain iv where iv: "parse_inventory sample_inventory None = Inr iv" by (rule sample_inventory_parses)
  show ?thesis using parsed_inventory_wf [OF iv] iv by blast
qed

end
