(* ===== verification/Spec2Isabelle.thy ===== *)
theory Spec2Isabelle
  imports Host_Import Daemon_Protocol Command_Classify Connection_Target Privileged_Install Host_Trust
    Connection_Pool Openssh_Include Transfer_Tree Task_Manager Inventory
begin

text \<open>
  \<^bold>\<open>Kaduox-SSH, a verification library.\<close> Kaduox-SSH is an SSH client in Rust: a library of hosts and
  jump chains kept in a TOML file, a resolver that combines it with the user's OpenSSH
  configuration, a core that connects and runs commands, a transfer engine with a registry of
  tasks, a daemon that keeps connections for command-line clients, and a desktop application whose
  assistant may propose shell commands. This development models the parts whose correctness is a
  matter of data and decisions; each theory names the source file it follows, keeps the names of
  its functions, and writes every \<open>bail!\<close> and early return as a branch.

  \<^bold>\<open>Theories and sources\<close> (all under \<open>src/crates\<close> unless said otherwise).
  \<^item> \<open>Prelude\<close>, \<open>Rust_Text\<close>, \<open>Utf8\<close>, \<open>BTree_Map\<close>, \<open>Machine\<close>: results as sums with \<open>?\<close> as \<open>and_then\<close>,
    loops that stop at an error, Rust text as lists of code points with the operations of \<open>str\<close>,
    UTF-8 with its exact inverse, ordered maps as a locale with its interpretation, and components
    as machines: the locales \<open>machine\<close> and \<open>atomic_machine\<close> turn facts about one call into facts
    about whole histories.
  \<^item> \<open>Host_Model\<close> (\<open>kaduox-ssh-hosts/src/model.rs\<close>): records, enumerations, and validation of
    fields, records, chains and the database, characterised by \<open>db_wf\<close>.
  \<^item> \<open>Host_Codec\<close>, \<open>Codec_Lines\<close>, \<open>Codec_Roundtrip\<close>, \<open>Codec_Storage\<close> (\<open>codec.rs\<close>): the writer and the
    reader of the TOML subset and the proof that reading undoes writing.
  \<^item> \<open>Host_Store\<close> (\<open>store.rs\<close>): opening, saving, lookups and every edit of the library; the store is
    an interpretation of \<open>atomic_machine\<close> as long as the clock works.
  \<^item> \<open>Connection_Config\<close> (\<open>kaduox-ssh-core/src/config.rs\<close>): configurations, ProxyJump
    specifications, shell tokens; \<open>Connection_Target\<close> (\<open>kaduox-ssh-openssh/src/target.rs\<close>): the
    target argument; \<open>Openssh_Match\<close> (\<open>openssh_match.rs\<close>): globs with a memo table, pattern lists,
    the rewriter of \<open>Match\<close> blocks.
  \<^item> \<open>Include_Paths\<close> (the argument, token and glob functions of \<open>openssh_include.rs\<close> and
    \<open>openssh_include/env.rs\<close>) and \<open>Openssh_Include\<close> (the scope machine of \<open>openssh_include.rs\<close> with its
    limits, and the Unix checks of \<open>openssh_config_trust.rs\<close>): the configuration of one host and the
    catalogue, flattened from a tree of files; \<open>Inventory\<close> (\<open>inventory.rs\<close>): the file of hosts and nested
    groups and the expansion of a group.
  \<^item> \<open>Host_Resolver\<close> (\<open>kaduox-ssh-hosts/src/resolver.rs\<close>): from a stored host and its chain to a
    connection; \<open>Host_Import\<close> (\<open>import.rs\<close> and \<open>kaduox-ssh-openssh/src/host_catalog.rs\<close>): the
    catalogue of an OpenSSH configuration and its import into the store.
  \<^item> \<open>Daemon_Protocol\<close> (\<open>kaduox-ssh-daemon/src/protocol.rs\<close>): frames, their bytes and the framed
    streams; every field is an interpretation of the locale \<open>wire_field\<close>.
  \<^item> \<open>Transfer_Task\<close> (\<open>kaduox-ssh-transfer/src/transfer_task.rs\<close>): the registry of transfer tasks, an
    interpretation of \<open>machine\<close>; \<open>Task_Manager\<close> (\<open>transfer_task_manager.rs\<close>): tracked transfers and retries
    over it, for every schedule of calls by other threads; \<open>Remote_Path\<close> (\<open>remote_path.rs\<close>): names and
    relative paths a server supplies.
  \<^item> \<open>Sftp_Session\<close> (requests, answers and the history of a session; listing, status and directory
    sizes of \<open>remote_fs.rs\<close>), \<open>Remote_Mutation\<close> (\<open>remote_mutation.rs\<close>: creation, renaming, small files and
    the planned recursive deletion), \<open>Transfer_Upload\<close> (\<open>transfer_policy.rs\<close> and \<open>transfer.rs\<close>: options
    and the upload of one file, atomic or in place), \<open>Local_Disk\<close> and \<open>Transfer_Download\<close>
    (\<open>transfer_download_policy.rs\<close> and \<open>transfer.rs\<close>: the local file system, directories without links,
    staging files, and the download of one file), \<open>Transfer_Tree\<close> (the same files for directory trees,
    \<open>symlink_policy.rs\<close> and \<open>client_ops.rs\<close>: the preflight, both recursive transfers, the link policy and the
    entry points), \<open>Sync_Plan\<close> (\<open>sync.rs\<close>: both scans and the planner)
    and \<open>Sync_Apply\<close> (\<open>sync/preflight.rs\<close>, \<open>sync/source_preflight.rs\<close> and the application in \<open>sync.rs\<close>).
  \<^item> \<open>Command_Classify\<close> (\<open>src/apps/kaduox-desktop/src-tauri/src/command_classify.rs\<close>): the shell lexer,
    the risk levels of commands for Unix and Windows targets, and the permission modes.
  \<^item> \<open>Remote_Command\<close> (\<open>kaduox-ssh-core/src/command.rs\<close> and the command builders of \<open>client.rs\<close>): command
    specifications, quoting for POSIX shells and \<open>cmd.exe\<close>, \<open>sudo\<close>, the expansion of proxy commands,
    against a reader for the part of the shell grammar they use; \<open>Privileged_Install\<close>
    (\<open>privileged.rs\<close>): uploads staged under \<open>/tmp\<close> and installed by another user, with the commands
    sent as a history.
  \<^item> \<open>Host_Trust\<close> (\<open>host_trust.rs\<close> and \<open>check_server_key\<close> of \<open>handler.rs\<close>): trust markers, host patterns,
    host certificates and the decision on a server key.
  \<^item> \<open>Connection_Pool\<close> (\<open>manager.rs\<close>, \<open>manager/jump.rs\<close>, \<open>reuse_key\<close> of \<open>auth.rs\<close>): the pool as a
    transition system of concurrent calls with permits, leader guards, leases and cancellation, an
    interpretation of \<open>atomic_machine\<close>.

  \<^bold>\<open>How the parts interact.\<close> The store edits a database that the model validates and the codec
  writes and reads; the resolver needs the validated database and the configuration of an alias,
  and its jump chains are what the importer creates through the store's own insertions; the
  configuration is read from text that the expander has flattened for one host, or that the rewriter
  has freed of \<open>Match\<close> blocks, and that the structural check of \<open>config.rs\<close> then accepts. A configuration is
  what the pool compares when it reuses a connection and what a proxy command is expanded with; a
  rendered command is wrapped for another user by the client and read by two shells in turn, and
  the privileged uploads send their commands through the same wrapping. A synchronisation scans with
  validated names, plans, checks the plan against both trees, removes and creates through the session and
  uploads each file with the single-file upload, whose staging files make the publication atomic. A
  recursive transfer walks a tree with the same name checks and runs the single-file transfers as tasks; the
  link policy stands in front of it and of the synchronisation. The disk is one more party that answers
  requests, so a download is a function on the same session as an upload.
  Every call that talks to a server is a function from the session to a result and the session after it,
  so facts about requests compose (\<open>emits\<close>, \<open>mutates\<close>) from single requests to whole synchronisations. The properties
  follow these lines: a saved store opens again as it was, histories of edits keep the database
  valid, routing through a validated database cannot break, importing keeps what is there, and the
  rewriter's output is always accepted.

  \<^bold>\<open>What the lemmas show.\<close> Round trips: the codec, UTF-8 and big-endian integers, client and server
  frames and streams, host and port texts. Invariants over histories: the store and the task
  registry. Safety: no joined remote path leaves its root, no shell-active token reaches a
  connection from the command line, at most one live task writes a destination, no part of a
  command escapes classification and chaining never lowers its level, only listed commands run
  without approval, a revoked key or authority is never accepted, what a shell reads from a rendered
  command is the specification, staged uploads are cleaned up, every configuration line comes from a
  trusted file, recursive deletion removes what was approved and nothing before a re-scan agreed,
  nothing is changed before every check of a synchronisation has passed, a download never replaces a file
  and never leaves part of one, a recursive download writes nothing outside its directory, a rejected
  link stops a transfer before the session is opened. Refinement: flattening for one
  host is a reference flattening without limits or state; a plan carried out on the scanned remote tree
  gives the local one, and planning again gives the empty plan. Concurrency: the pool never exceeds
  its capacity, one call at a time connects a name, and no call waits for one that is gone.
  Equivalence: the memoised glob and the iterative one with the plain one. Error behaviour:
  truncated frames, refused edits, failed imports change nothing.

  \<^bold>\<open>Bounds and termination.\<close> Every function is total. Loops that are not structural
  come with a measure (the lexer, \<open>first_token\<close>, the glob matchers, \<open>make_capacity\<close>, the suffix
  search of the importer, the walk over nested groups, the Include expander by its depth limit). Fuel is
  used only where the code itself has no bound: in the scans of a synchronisation, in the recursive
  transfers and link checks and in \<open>directory_size\<close>, which follow directories as long as there are more (one
  unit is one listing), and in the loop of a download, which reads as long as the server sends (one unit is
  one read). \<open>None\<close> means that the walk or the copy is still going on, never a result. The matching loop of host patterns is a \<open>while_option\<close> proved to end. Machine integers keep their width (\<open>u8\<close> to \<open>u64\<close> words) where they are
  encoded, counted or can overflow; lengths and sizes in memory are naturals.

  \<^bold>\<open>Parameters.\<close> The Unicode tables behind \<open>char::is_alphanumeric\<close> and \<open>is_alphabetic\<close> above ASCII (\<open>U\<close>);
  the state of the file system, the text produced by the Include expander and the third-party parser
  \<open>russh_config\<close> (\<open>ConfigWorld\<close>); the clock of \<open>record_success\<close>; keys, certificates, keyed hashes and the
  ordinary \<open>known_hosts\<close> check of the SSH library (\<open>TrustLib\<close>, \<open>HandlerWorld\<close>); the SSH channel and the SFTP
  session of the privileged uploads (\<open>Remote\<close>); the outcome of dialling in the pool; the SFTP server of
  the transfer crate, an arbitrary function from a request and its own state to an answer (\<open>server\<close>, with
  \<open>honest\<close> naming what the protocol documents where a property is about contents); the local file system
  (\<open>LocalFs\<close>, \<open>local_dirs\<close>, \<open>FsWorld\<close>; for downloads a second half of the server, with \<open>sound_disk\<close> naming
  what is relied on), Unicode normalisation of names (\<open>norm\<close>) and the environment. The path operations of
  the standard library are those of Unix.

  \<^bold>\<open>Simplifications.\<close> Uploads that a synchronisation runs concurrently are taken in the order of the plan,
  and a file transfer of a recursive walk runs to its end when it is started; its result is collected when
  the code would wait for one. A path is taken to be Unicode text, so \<open>to_string_lossy\<close> in the codec is the
  identity on it. Progress events are left out.

  \<^bold>\<open>Not modelled.\<close> Port forwarding (\<open>forward.rs\<close>) and the history of the desktop application: they have
  decisions of their own and would be next. Not planned: the network and SSH protocol engine (russh),
  terminal user interfaces and argument parsing of the command-line tools, the desktop front end, Windows
  access control lists and credential stores: they are input and output, bindings, or calls into other
  packages.
\<close>

section \<open>Properties across components\<close>

text \<open>
  A label that the library accepts as an alias may have up to 128 characters, the daemon's frames
  carry an alias of up to 128 bytes. An alias of more bytes than that is a valid name in the library
  that no request to the daemon can carry.
\<close>

theorem long_label_not_sendable:
  assumes "MAX_ALIAS_BYTES < str_len a"
  shows "encode_client (Disconnect a) = Inl (FieldTooLong MAX_ALIAS_BYTES) \<and>
    encode_client (Exec a auth cmd as_user) = Inl (FieldTooLong MAX_ALIAS_BYTES)"
  using assms by (simp add: put_string_def put_bytes_def)

theorem long_label_not_sendable_witness:
  "validate_label (\<lambda>c. 0x4E00 \<le> c \<and> c \<le> 0x9FFF) (replicate 43 0x4E2D) = Inr () \<and>
   encode_client (Disconnect (replicate 43 0x4E2D)) = Inl (FieldTooLong MAX_ALIAS_BYTES)"
proof -
  have "MAX_ALIAS_BYTES < str_len (replicate 43 0x4E2D)" by code_simp
  moreover have "is_ok (validate_label (\<lambda>c. 0x4E00 \<le> c \<and> c \<le> 0x9FFF) (replicate 43 0x4E2D))" by code_simp
  ultimately show ?thesis using long_label_not_sendable unfolding is_ok_unit by blast
qed

end
